(* ===== verification/Oomph_Prelude.thy ===== *)
theory Oomph_Prelude
  imports Main "HOL-Library.Word" "HOL-Library.Multiset"
begin

text \<open>
  Shared vocabulary of the development: the integer types of the code, the
  outcomes a call can have other than returning, sequencing of calls that may
  fail, and the list and word facts the component theories share.
\<close>

section \<open>Types\<close>

text \<open>\<open>rank_type\<close> and \<open>tag_type\<close> are C \<open>int\<close>; \<open>std::size_t\<close> is 64 bit.  Addresses are
  natural numbers.\<close>

type_synonym rank_type = "32 word"
type_synonym tag_type = "32 word"
type_synonym size_t = "64 word"
type_synonym ptr = nat

text \<open>Outcomes other than a normal return: an exception (with its message), undefined behaviour
  of C++ (with the place it arises), or \<open>std::terminate\<close>.\<close>

datatype oomph_error =
    Runtime_error string
  | Logic_error string
  | Undefined_behaviour string
  | Terminate string

type_synonym 'a result = "oomph_error + 'a"

section \<open>Sequencing of calls that may fail\<close>

definition bind_res :: "'e + 'a \<Rightarrow> ('a \<Rightarrow> 'e + 'b) \<Rightarrow> 'e + 'b" where
  "bind_res r f = (case r of Inl e \<Rightarrow> Inl e | Inr a \<Rightarrow> f a)"

lemma bind_res_simps [simp]:
  "bind_res (Inl e) f = Inl e"
  "bind_res (Inr a) f = f a"
  by (simp_all add: bind_res_def)

lemma bind_res_eq_Inr: "bind_res r f = Inr b \<longleftrightarrow> (\<exists>a. r = Inr a \<and> f a = Inr b)"
  by (cases r) auto

lemma bind_res_assoc: "bind_res (bind_res r f) g = bind_res r (\<lambda>x. bind_res (f x) g)"
  by (cases r) auto

text \<open>A loop over the elements of a container whose body may fail.\<close>

fun fold_res :: "('a \<Rightarrow> 's \<Rightarrow> 'e + 's) \<Rightarrow> 'a list \<Rightarrow> 's \<Rightarrow> 'e + 's" where
  "fold_res f [] s = Inr s"
| "fold_res f (x # xs) s = bind_res (f x s) (fold_res f xs)"

lemma fold_res_append: "fold_res f (xs @ ys) s = bind_res (fold_res f xs s) (fold_res f ys)"
  by (induction xs arbitrary: s) (auto simp: bind_res_def split: sum.splits)

lemma fold_res_invariant:
  assumes "I xs s"
    and "\<And>y ys s. I (y # ys) s \<Longrightarrow> \<exists>s'. f y s = Inr s' \<and> I ys s'"
  shows "\<exists>s'. fold_res f xs s = Inr s' \<and> I [] s'"
  using assms(1)
proof (induction xs arbitrary: s)
  case (Cons y ys)
  from assms(2) [OF Cons.prems] obtain s1 where "f y s = Inr s1" "I ys s1"
    by blast
  with Cons.IH show ?case
    by simp
qed simp

fun map_res :: "('a \<Rightarrow> 'e + 'b) \<Rightarrow> 'a list \<Rightarrow> 'e + 'b list" where
  "map_res f [] = Inr []"
| "map_res f (x # xs) = bind_res (f x) (\<lambda>y. bind_res (map_res f xs) (\<lambda>ys. Inr (y # ys)))"

lemma map_res_Inr: "(\<And>x. x \<in> set xs \<Longrightarrow> f x = Inr (g x)) \<Longrightarrow> map_res f xs = Inr (map g xs)"
  by (induction xs) auto

section \<open>Words\<close>

named_theorems word_counter \<open>increments and decrements of machine counters\<close>

lemma unat_dec [word_counter]:
  fixes x :: "'a::len word"
  shows "0 < unat x \<Longrightarrow> unat (x - 1) = unat x - 1"
  by (simp add: unat_gt_0 unat_minus_one)

lemma unat_inc [word_counter]:
  fixes x :: "'a::len word"
  shows "unat x + 1 < 2 ^ LENGTH('a) \<Longrightarrow> unat (x + 1) = unat x + 1"
  by (simp add: unat_word_ariths(1))

lemma of_nat_dec [word_counter]: "0 < n \<Longrightarrow> of_nat n - (1 :: 'a::len word) = of_nat (n - 1)"
  by (cases n) auto

lemma of_nat_eq_0_bound:
  "n < 2 ^ LENGTH('a) \<Longrightarrow> (of_nat n = (0 :: 'a::len word)) = (n = 0)"
  by (auto simp: word_of_nat_eq_0_iff dest: dvd_imp_le)

section \<open>Lists\<close>

text \<open>\<open>std::vector::resize\<close>, and the overwriting of a prefix by a call that is given the data
  pointer.\<close>

definition resize :: "nat \<Rightarrow> 'a \<Rightarrow> 'a list \<Rightarrow> 'a list" where
  "resize n d xs = take n xs @ replicate (n - length xs) d"

definition overwrite :: "'a list \<Rightarrow> 'a list \<Rightarrow> 'a list" where
  "overwrite ys xs = ys @ drop (length ys) xs"

lemma length_resize [simp]: "length (resize n d xs) = n"
  by (simp add: resize_def)

lemma length_overwrite: "length ys \<le> length xs \<Longrightarrow> length (overwrite ys xs) = length xs"
  by (simp add: overwrite_def)

text \<open>Removal of an element by overwriting it with the last one and shrinking.\<close>

definition swap_remove :: "nat \<Rightarrow> 'a list \<Rightarrow> 'a list" where
  "swap_remove i xs = butlast (if i + 1 < length xs then xs[i := last xs] else xs)"

lemma length_swap_remove [simp]: "length (swap_remove i xs) = length xs - 1"
  by (simp add: swap_remove_def)

lemma nth_swap_remove:
  assumes "j < length xs - 1" "i < length xs"
  shows "swap_remove i xs ! j = (if j = i then last xs else xs ! j)"
  using assms by (auto simp: swap_remove_def nth_butlast)

lemma mset_butlast: "xs \<noteq> [] \<Longrightarrow> mset (butlast xs) = mset xs - {#last xs#}"
  by (cases xs rule: rev_cases) auto

lemma mset_swap_remove:
  assumes "i < length xs"
  shows "mset (swap_remove i xs) = mset xs - {#xs ! i#}"
proof (cases "i + 1 < length xs")
  case True
  then have ne: "xs \<noteq> []" "xs[i := last xs] \<noteq> []"
    by auto
  have "last (xs[i := last xs]) = last xs"
    using True ne by (auto simp: last_list_update)
  moreover have "mset (xs[i := last xs]) = mset xs - {#xs ! i#} + {#last xs#}"
    using assms by (simp add: mset_update)
  ultimately show ?thesis
    using True ne by (simp add: swap_remove_def mset_butlast)
next
  case False
  then have "i = length xs - 1" "xs \<noteq> []"
    using assms by auto
  then have "xs ! i = last xs" "xs \<noteq> []"
    by (simp_all add: last_conv_nth)
  then show ?thesis
    using False by (simp add: swap_remove_def mset_butlast)
qed

lemma mset_swap_remove_remove1:
  "i < length xs \<Longrightarrow> mset (swap_remove i xs) = mset (remove1 (xs ! i) xs)"
  by (simp add: mset_swap_remove)

lemma distinct_swap_remove: "i < length xs \<Longrightarrow> distinct xs \<Longrightarrow> distinct (swap_remove i xs)"
  using mset_eq_imp_distinct_iff [OF mset_swap_remove_remove1, of i xs] by (simp add: distinct_remove1)

lemma set_swap_remove:
  "i < length xs \<Longrightarrow> distinct xs \<Longrightarrow> set (swap_remove i xs) = set xs - {xs ! i}"
  using mset_eq_setD [OF mset_swap_remove_remove1, of i xs] by (simp add: set_remove1_eq)

section \<open>Unique ownership\<close>

text \<open>Move only objects: \<open>h i\<close> is the resource the object \<open>i\<close> holds, \<open>l\<close> says which resources are
  in use.  Each resource in use has one holder.\<close>

definition uniquely :: "(nat \<Rightarrow> 'a option) \<Rightarrow> ('a \<Rightarrow> bool) \<Rightarrow> bool" where
  "uniquely h l \<longleftrightarrow>
     (\<forall>i j a. h i = Some a \<longrightarrow> h j = Some a \<longrightarrow> i = j) \<and> (\<forall>a. l a \<longleftrightarrow> (\<exists>i. h i = Some a))"

lemma uniquely_take:
  assumes "uniquely h l" "h i = None" "\<not> l a"
  shows "uniquely (h(i := Some a)) (l(a := True))"
proof -
  have "h j \<noteq> Some a" for j
    using assms(1,3) unfolding uniquely_def by blast
  moreover have "\<exists>j. j \<noteq> i \<and> h j = Some b" if "h j = Some b" for j b
    using that assms(2) by (intro exI [of _ j]) auto
  ultimately show ?thesis
    using assms unfolding uniquely_def by (simp add: fun_upd_apply) metis
qed

lemma uniquely_move:
  assumes "uniquely h l" "h i = None"
  shows "uniquely (h(j := None, i := h j)) l"
proof -
  have inj: "k = m" if "h k = Some a" "h m = Some a" for k m a
    using assms(1) that unfolding uniquely_def by blast
  have "l a \<longleftrightarrow> (\<exists>k. (h(j := None, i := h j)) k = Some a)" for a
  proof
    assume "l a"
    then obtain k where k: "h k = Some a"
      using assms(1) unfolding uniquely_def by blast
    then show "\<exists>k. (h(j := None, i := h j)) k = Some a"
      using assms(2) by (intro exI [of _ "if k = j then i else k"]) auto
  next
    assume "\<exists>k. (h(j := None, i := h j)) k = Some a"
    then have "\<exists>k. h k = Some a"
      by (auto split: if_splits)
    then show "l a"
      using assms(1) unfolding uniquely_def by blast
  qed
  moreover have "k = m" if "(h(j := None, i := h j)) k = Some a" "(h(j := None, i := h j)) m = Some a" for k m a
  proof -
    have at: "x = i \<and> h j = Some a \<or> x \<noteq> i \<and> x \<noteq> j \<and> h x = Some a"
      if "(h(j := None, i := h j)) x = Some a" for x
      using that by (simp split: if_splits)
    show ?thesis
      using at [OF that(1)] at [OF that(2)] inj by blast
  qed
  ultimately show ?thesis
    unfolding uniquely_def by blast
qed

lemma uniquely_drop:
  assumes "uniquely h l"
  shows "uniquely (h(i := None)) (\<lambda>a. l a \<and> h i \<noteq> Some a)"
  using assms unfolding uniquely_def by (auto split: if_splits)

lemma uniquely_holder: "uniquely h l \<Longrightarrow> l a \<Longrightarrow> \<exists>!i. h i = Some a"
  unfolding uniquely_def by blast

lemma uniquely_live: "uniquely h l \<Longrightarrow> h i = Some a \<Longrightarrow> l a"
  unfolding uniquely_def by blast

lemma uniquely_none: "uniquely h l \<Longrightarrow> (\<And>i. h i = None) \<Longrightarrow> \<not> l a"
  unfolding uniquely_def by simp

end
