(* ===== verification/Shared_Ptr.thy ===== *)
theory Shared_Ptr
  imports Oomph_Prelude
begin

text \<open>
  The intrusive, non-atomic reference counted pointer of \<open>util/unsafe_shared_ptr.hpp\<close>.  The
  store maps the address of a control block to its count and the object it holds; freeing a block
  removes it, and touching a block that is not there is undefined behaviour.  The operations are
  given twice: on a store alone (\<open>block_incr\<close>, \<open>block_destroy\<close>, used by the request model), and as
  the member functions of pointer variables, which live in numbered slots.
\<close>

section \<open>Control blocks\<close>

record 'a control_block =
  m_ref_count :: size_t
  m_t :: 'a

type_synonym 'a blocks = "ptr \<Rightarrow> 'a control_block option"

text \<open>Allocation of a block by \<open>allocate_shared\<close>; \<open>p\<close> is the address the allocator returns.  The
  count starts at one.\<close>

definition block_allocate :: "ptr \<Rightarrow> 'a \<Rightarrow> 'a blocks \<Rightarrow> 'a blocks" where
  "block_allocate p v bs = bs(p \<mapsto> \<lparr>m_ref_count = 1, m_t = v\<rparr>)"

text \<open>\<open>if (m) ++m->m_ref_count\<close>\<close>

definition block_incr :: "ptr option \<Rightarrow> 'a blocks \<Rightarrow> 'a blocks result" where
  "block_incr m bs =
     (case m of
        None \<Rightarrow> Inr bs
      | Some p \<Rightarrow>
          (case bs p of
             None \<Rightarrow> Inl (Undefined_behaviour ''increment of a freed control block'')
           | Some b \<Rightarrow> Inr (bs(p \<mapsto> b\<lparr>m_ref_count := m_ref_count b + 1\<rparr>))))"

text \<open>\<open>control_block_impl::free\<close>: the object is destroyed and its memory returned.\<close>

definition block_free :: "ptr \<Rightarrow> 'a blocks \<Rightarrow> 'a blocks" where
  "block_free p bs = bs(p := None)"

text \<open>\<open>destroy\<close>, up to the assignment of the null pointer to \<open>m\<close> (which is the caller's slot).\<close>

definition block_destroy :: "ptr option \<Rightarrow> 'a blocks \<Rightarrow> 'a blocks result" where
  "block_destroy m bs =
     (case m of
        None \<Rightarrow> Inr bs
      | Some p \<Rightarrow>
          (case bs p of
             None \<Rightarrow> Inl (Undefined_behaviour ''decrement of a freed control block'')
           | Some b \<Rightarrow>
               (let bs' = bs(p \<mapsto> b\<lparr>m_ref_count := m_ref_count b - 1\<rparr>)
                in Inr (if m_ref_count b - 1 = 0 then block_free p bs' else bs'))))"

section \<open>Pointer variables\<close>

record 'a sp_state =
  slots :: "ptr option list"
  blocks :: "'a blocks"

definition slot :: "('a, 'b) sp_state_scheme \<Rightarrow> nat \<Rightarrow> ptr option" where
  "slot s i = (if i < length (slots s) then slots s ! i else None)"

definition set_slot :: "nat \<Rightarrow> ptr option \<Rightarrow> ('a, 'b) sp_state_scheme \<Rightarrow> ('a, 'b) sp_state_scheme" where
  "set_slot i m s = s\<lparr>slots := (slots s)[i := m]\<rparr>"

definition with_blocks ::
    "('a blocks \<Rightarrow> 'a blocks result) \<Rightarrow> ('a, 'b) sp_state_scheme \<Rightarrow> ('a, 'b) sp_state_scheme result" where
  "with_blocks f s = bind_res (f (blocks s)) (\<lambda>bs. Inr (s\<lparr>blocks := bs\<rparr>))"

text \<open>The member functions; the first argument is the slot of \<open>*this\<close>, the second that of \<open>other\<close>.\<close>

definition sp_destroy :: "nat \<Rightarrow> ('a, 'b) sp_state_scheme \<Rightarrow> ('a, 'b) sp_state_scheme result" where
  "sp_destroy i s =
     bind_res (with_blocks (block_destroy (slot s i)) s) (\<lambda>s. Inr (set_slot i None s))"

definition sp_make ::
    "nat \<Rightarrow> ptr \<Rightarrow> 'a \<Rightarrow> ('a, 'b) sp_state_scheme \<Rightarrow> ('a, 'b) sp_state_scheme result" where
  "sp_make i p v s = Inr (set_slot i (Some p) (s\<lparr>blocks := block_allocate p v (blocks s)\<rparr>))"

definition sp_copy_ctor :: "nat \<Rightarrow> nat \<Rightarrow> ('a, 'b) sp_state_scheme \<Rightarrow> ('a, 'b) sp_state_scheme result" where
  "sp_copy_ctor i j s =
     (let s = set_slot i (slot s j) s
      in with_blocks (block_incr (slot s i)) s)"

definition sp_move_ctor :: "nat \<Rightarrow> nat \<Rightarrow> ('a, 'b) sp_state_scheme \<Rightarrow> ('a, 'b) sp_state_scheme result" where
  "sp_move_ctor i j s = Inr (set_slot i (slot s j) (set_slot j None s))"

definition sp_copy_assign :: "nat \<Rightarrow> nat \<Rightarrow> ('a, 'b) sp_state_scheme \<Rightarrow> ('a, 'b) sp_state_scheme result" where
  "sp_copy_assign i j s = bind_res (sp_destroy i s) (sp_copy_ctor i j)"

definition sp_move_assign :: "nat \<Rightarrow> nat \<Rightarrow> ('a, 'b) sp_state_scheme \<Rightarrow> ('a, 'b) sp_state_scheme result" where
  "sp_move_assign i j s = bind_res (sp_destroy i s) (sp_move_ctor i j)"

definition sp_use_count :: "nat \<Rightarrow> ('a, 'b) sp_state_scheme \<Rightarrow> size_t result" where
  "sp_use_count i s =
     (case slot s i of
        None \<Rightarrow> Inr 0
      | Some p \<Rightarrow> (case blocks s p of
          None \<Rightarrow> Inl (Undefined_behaviour ''count of a freed control block'')
        | Some b \<Rightarrow> Inr (m_ref_count b)))"

text \<open>\<open>operator->\<close> and \<open>operator*\<close>: the object, undefined on a null pointer.\<close>

definition sp_get :: "nat \<Rightarrow> ('a, 'b) sp_state_scheme \<Rightarrow> 'a result" where
  "sp_get i s =
     (case slot s i of
        None \<Rightarrow> Inl (Undefined_behaviour ''null pointer'')
      | Some p \<Rightarrow> (case blocks s p of
          None \<Rightarrow> Inl (Undefined_behaviour ''use after free'')
        | Some b \<Rightarrow> Inr (m_t b)))"

text \<open>\<open>shared_from_this\<close> called on the object in block \<open>p\<close>, its result constructed in slot \<open>i\<close>.\<close>

definition sp_shared_from_this ::
    "nat \<Rightarrow> ptr \<Rightarrow> ('a, 'b) sp_state_scheme \<Rightarrow> ('a, 'b) sp_state_scheme result" where
  "sp_shared_from_this i p s = with_blocks (block_incr (Some p)) (set_slot i (Some p) s)"

text \<open>A program over pointer variables.  A constructor runs on storage that holds no live pointer,
  the slots exist, an allocation returns memory that is not in use, and \<open>shared_from_this\<close> is
  called on a live object: calls outside these rules are not calls of the class's interface.\<close>

datatype 'a sp_op =
    Make nat ptr 'a
  | Copy_ctor nat nat
  | Move_ctor nat nat
  | Copy_assign nat nat
  | Move_assign nat nat
  | Destroy nat
  | From_this nat ptr

fun sp_legal :: "'a sp_op \<Rightarrow> 'a sp_state \<Rightarrow> bool" where
  "sp_legal (Make i p v) s \<longleftrightarrow> i < length (slots s) \<and> slots s ! i = None \<and> blocks s p = None"
| "sp_legal (Copy_ctor i j) s \<longleftrightarrow>
     i < length (slots s) \<and> j < length (slots s) \<and> slots s ! i = None"
| "sp_legal (Move_ctor i j) s \<longleftrightarrow>
     i < length (slots s) \<and> j < length (slots s) \<and> slots s ! i = None"
| "sp_legal (Copy_assign i j) s \<longleftrightarrow> i < length (slots s) \<and> j < length (slots s)"
| "sp_legal (Move_assign i j) s \<longleftrightarrow> i < length (slots s) \<and> j < length (slots s)"
| "sp_legal (Destroy i) s \<longleftrightarrow> i < length (slots s)"
| "sp_legal (From_this i p) s \<longleftrightarrow> i < length (slots s) \<and> slots s ! i = None \<and> blocks s p \<noteq> None"

fun sp_exec :: "'a sp_op \<Rightarrow> 'a sp_state \<Rightarrow> 'a sp_state result" where
  "sp_exec (Make i p v) s = sp_make i p v s"
| "sp_exec (Copy_ctor i j) s = sp_copy_ctor i j s"
| "sp_exec (Move_ctor i j) s = sp_move_ctor i j s"
| "sp_exec (Copy_assign i j) s = sp_copy_assign i j s"
| "sp_exec (Move_assign i j) s = sp_move_assign i j s"
| "sp_exec (Destroy i) s = sp_destroy i s"
| "sp_exec (From_this i p) s = sp_shared_from_this i p s"

text \<open>The states a program reaches from \<open>n\<close> null pointers.\<close>

definition sp_init :: "nat \<Rightarrow> 'a sp_state" where
  "sp_init n = \<lparr>slots = replicate n None, blocks = (\<lambda>_. None)\<rparr>"

inductive sp_reach :: "nat \<Rightarrow> 'a sp_state \<Rightarrow> bool" for n where
  sp_reach_init: "sp_reach n (sp_init n)"
| sp_reach_step: "sp_reach n s \<Longrightarrow> sp_legal op s \<Longrightarrow> sp_exec op s = Inr s' \<Longrightarrow> sp_reach n s'"

section \<open>The count is the number of owners\<close>

text \<open>\<open>owned n bs\<close>: a block exists iff it has an owner, and its count is the number \<open>n\<close> of them.\<close>

definition owned :: "(ptr \<Rightarrow> nat) \<Rightarrow> 'a blocks \<Rightarrow> bool" where
  "owned n bs \<longleftrightarrow>
     (\<forall>p. case bs p of None \<Rightarrow> n p = 0 | Some b \<Rightarrow> 0 < n p \<and> unat (m_ref_count b) = n p)"

text \<open>The owners of a block are the slots that point to it.\<close>

definition sp_refs :: "('a, 'b) sp_state_scheme \<Rightarrow> ptr \<Rightarrow> nat" where
  "sp_refs s p = count_list (slots s) (Some p)"

definition sp_inv :: "('a, 'b) sp_state_scheme \<Rightarrow> bool" where
  "sp_inv s \<longleftrightarrow> owned (sp_refs s) (blocks s)"

text \<open>Rules for the store operations.\<close>

lemma owned_live: "owned n bs \<Longrightarrow> 0 < n p \<longleftrightarrow> (\<exists>b. bs p = Some b)"
  unfolding owned_def by (drule spec [of _ p]) (cases "bs p"; simp)

lemma owned_count: "owned n bs \<Longrightarrow> bs p = Some b \<Longrightarrow> unat (m_ref_count b) = n p \<and> 0 < n p"
  unfolding owned_def by (drule spec [of _ p]) simp

lemma owned_upd:
  assumes "owned n bs"
    and "case b of None \<Rightarrow> k = 0 | Some c \<Rightarrow> 0 < k \<and> unat (m_ref_count c) = k"
  shows "owned (n(p := k)) (bs(p := b))"
  unfolding owned_def
proof
  fix q
  have "case bs q of None \<Rightarrow> n q = 0 | Some c \<Rightarrow> 0 < n q \<and> unat (m_ref_count c) = n q"
    using assms(1) by (simp add: owned_def)
  then show "case (bs(p := b)) q of None \<Rightarrow> (n(p := k)) q = 0
      | Some c \<Rightarrow> 0 < (n(p := k)) q \<and> unat (m_ref_count c) = (n(p := k)) q"
    using assms(2) by (cases "q = p") (simp_all split: option.splits)
qed

lemma owned_allocate:
  "owned n bs \<Longrightarrow> bs p = None \<Longrightarrow> owned (n(p := 1)) (block_allocate p v bs)"
  unfolding block_allocate_def by (rule owned_upd) simp_all

lemma owned_incr:
  assumes "owned n bs" "0 < n p" "n p + 1 < 2 ^ 64"
  obtains b where "bs p = Some b"
    and "block_incr (Some p) bs = Inr (bs(p \<mapsto> b\<lparr>m_ref_count := m_ref_count b + 1\<rparr>))"
    and "owned (n(p := n p + 1)) (bs(p \<mapsto> b\<lparr>m_ref_count := m_ref_count b + 1\<rparr>))"
proof -
  obtain b where b: "bs p = Some b" "unat (m_ref_count b) = n p"
    using assms owned_live owned_count by blast
  then have "unat (m_ref_count b + 1) = n p + 1"
    using assms(3) by (simp add: unat_inc)
  with assms(1) have "owned (n(p := n p + 1)) (bs(p \<mapsto> b\<lparr>m_ref_count := m_ref_count b + 1\<rparr>))"
    by (intro owned_upd) simp_all
  with b that show thesis
    by (simp add: block_incr_def)
qed

lemma owned_destroy:
  assumes "owned n bs" "0 < n p"
  obtains b bs' where "bs p = Some b" "block_destroy (Some p) bs = Inr bs'"
    "owned (n(p := n p - 1)) bs'"
    "bs' = bs(p := if n p = 1 then None else Some (b\<lparr>m_ref_count := m_ref_count b - 1\<rparr>))"
proof -
  obtain b where b: "bs p = Some b" "unat (m_ref_count b) = n p"
    using assms owned_live owned_count by blast
  then have d: "unat (m_ref_count b - 1) = n p - 1"
    using assms(2) by (simp add: unat_dec)
  then have z: "m_ref_count b - 1 = 0 \<longleftrightarrow> n p = 1"
    using assms(2) by (auto simp: unat_eq_zero simp flip: unat_eq_0)
  define bs' where
    "bs' = bs(p := if n p = 1 then None else Some (b\<lparr>m_ref_count := m_ref_count b - 1\<rparr>))"
  have "block_destroy (Some p) bs = Inr bs'"
    using b z by (simp add: block_destroy_def block_free_def bs'_def Let_def)
  moreover have "owned (n(p := n p - 1)) bs'"
    unfolding bs'_def using assms d by (intro owned_upd) simp_all
  ultimately show thesis
    using b that by (simp add: bs'_def)
qed

text \<open>Assignment to a slot moves one reference.\<close>

lemma count_list_update:
  "i < length xs \<Longrightarrow>
     count_list (xs[i := y]) z = count_list xs z - (if xs ! i = z then 1 else 0) + (if y = z then 1 else 0)"
  by (simp add: count_mset [symmetric] mset_update)

lemma count_list_pos: "0 < count_list xs z \<longleftrightarrow> z \<in> set xs"
  by (metis count_list_0_iff neq0_conv)

lemma count_list_slot_pos: "i < length xs \<Longrightarrow> xs ! i = z \<Longrightarrow> 0 < count_list xs z"
  by (auto simp: count_list_pos)

lemma sp_refs_blocks [simp]: "sp_refs (s\<lparr>blocks := bs\<rparr>) = sp_refs s"
  by (auto simp: sp_refs_def)

lemma sp_refs_set_slot:
  assumes "i < length (slots s)"
  shows "sp_refs (set_slot i m s) p =
    sp_refs s p - (if slots s ! i = Some p then 1 else 0) + (if m = Some p then 1 else 0)"
  using assms by (simp add: sp_refs_def set_slot_def count_list_update)

lemma sp_refs_bound:
  assumes "i < length (slots s)" "slots s ! i = None"
  shows "sp_refs s p < length (slots s)"
proof -
  have "sp_refs s p < length (slots s) \<longleftrightarrow> filter (\<lambda>x. Some p \<noteq> x) (slots s) \<noteq> []"
    by (simp add: sp_refs_def count_list_eq_length_filter)
       (metis (mono_tags, lifting) filter_empty_conv filter_id_conv le_neq_implies_less length_filter_le
         length_filter_less nat_neq_iff)
  then show ?thesis
    using assms by (metis (mono_tags, lifting) filter_empty_conv nth_mem option.distinct(1))
qed

text \<open>\<open>destroy\<close> gives up exactly the reference of its slot.\<close>

lemma sp_destroy_inv:
  assumes "sp_inv s" "i < length (slots s)"
  obtains s' where "sp_destroy i s = Inr s'" "sp_inv s'" "slots s' = (slots s)[i := None]"
proof (cases "slots s ! i")
  case None
  then have "set_slot i None s = s"
    using assms(2) by (simp add: set_slot_def list_update_same_conv)
  moreover have "(slots s)[i := None] = slots s"
    using None assms(2) by (simp add: list_update_same_conv)
  ultimately show thesis
    using None assms that
    by (simp add: sp_destroy_def with_blocks_def slot_def block_destroy_def)
next
  case (Some p)
  have pos: "0 < sp_refs s p"
    using Some assms(2) by (simp add: sp_refs_def count_list_slot_pos)
  obtain bs' where bs': "block_destroy (Some p) (blocks s) = Inr bs'"
      "owned ((sp_refs s)(p := sp_refs s p - 1)) bs'"
    using owned_destroy [of "sp_refs s" "blocks s" p] pos assms(1) unfolding sp_inv_def by metis
  have "sp_refs (set_slot i None (s\<lparr>blocks := bs'\<rparr>)) = (sp_refs s)(p := sp_refs s p - 1)"
    using Some assms(2) by (auto simp: sp_refs_def set_slot_def count_list_update)
  then have "sp_inv (set_slot i None (s\<lparr>blocks := bs'\<rparr>))"
    using bs'(2) by (simp add: sp_inv_def set_slot_def)
  then show thesis
    using Some assms(2) bs'(1) that
    by (simp add: sp_destroy_def with_blocks_def slot_def set_slot_def)
qed

lemma sp_copy_ctor_inv:
  assumes "sp_inv s" "i < length (slots s)" "slots s ! i = None" "length (slots s) < 2 ^ 64"
  obtains s' where "sp_copy_ctor i j s = Inr s'" "sp_inv s'" "slots s' = (slots s)[i := slot s j]"
proof (cases "slot s j")
  case None
  then have "set_slot i None s = s"
    using assms(2,3) by (simp add: set_slot_def list_update_same_conv)
  then show thesis
    using None assms that [of s] slot_def [of s i] list_update_id [of "slots s" i]
    by (simp add: sp_copy_ctor_def with_blocks_def block_incr_def)
next
  case (Some p)
  then have pos: "0 < sp_refs s p"
    by (auto simp: slot_def sp_refs_def count_list_slot_pos split: if_splits)
  have "sp_refs s p + 1 < 2 ^ 64"
    using sp_refs_bound [OF assms(2,3), of p] assms(4) by linarith
  then obtain b where b: "block_incr (Some p) (blocks s) =
        Inr ((blocks s)(p \<mapsto> b\<lparr>m_ref_count := m_ref_count b + 1\<rparr>))"
      "owned ((sp_refs s)(p := sp_refs s p + 1))
        ((blocks s)(p \<mapsto> b\<lparr>m_ref_count := m_ref_count b + 1\<rparr>))"
    using owned_incr [of "sp_refs s" "blocks s" p] pos assms(1) unfolding sp_inv_def by metis
  have "sp_refs (set_slot i (Some p) s) = (sp_refs s)(p := sp_refs s p + 1)"
    using assms(2,3) by (auto simp: sp_refs_set_slot)
  then have "sp_inv ((set_slot i (Some p) s)
      \<lparr>blocks := (blocks s)(p \<mapsto> b\<lparr>m_ref_count := m_ref_count b + 1\<rparr>)\<rparr>)"
    using b(2) by (simp add: sp_inv_def)
  moreover have "slot (set_slot i (Some p) s) i = Some p"
    using assms(2) by (simp add: slot_def set_slot_def)
  ultimately show thesis
    using b(1) Some that by (simp add: sp_copy_ctor_def with_blocks_def set_slot_def)
qed

lemma sp_move_ctor_inv:
  assumes "sp_inv s" "i < length (slots s)" "j < length (slots s)" "slots s ! i = None"
  shows "\<exists>s'. sp_move_ctor i j s = Inr s' \<and> sp_inv s' \<and>
    slots s' = (slots s)[j := None, i := slot s j]"
proof -
  have "sp_refs (set_slot i (slot s j) (set_slot j None s)) p = sp_refs s p" for p
    using assms count_list_slot_pos [of j "slots s" "Some p"]
    by (simp add: sp_refs_def set_slot_def slot_def count_list_update nth_list_update)
  then have "sp_refs (set_slot i (slot s j) (set_slot j None s)) = sp_refs s"
    by (rule ext)
  then show ?thesis
    using assms(1) by (simp add: sp_move_ctor_def sp_inv_def set_slot_def sp_refs_def)
qed

lemma sp_make_inv:
  assumes "sp_inv s" "i < length (slots s)" "slots s ! i = None" "blocks s p = None"
  shows "\<exists>s'. sp_make i p v s = Inr s' \<and> sp_inv s' \<and> slots s' = (slots s)[i := Some p]"
proof -
  have "sp_refs s p = 0"
    using assms(1,4) owned_live [of "sp_refs s" "blocks s" p] by (auto simp: sp_inv_def)
  then have "sp_refs (set_slot i (Some p) (s\<lparr>blocks := bs\<rparr>)) = (sp_refs s)(p := 1)" for bs
    using assms(2,3) by (auto simp: sp_refs_def set_slot_def count_list_update)
  with owned_allocate [of "sp_refs s" "blocks s" p v] assms(1,4) show ?thesis
    by (simp add: sp_make_def sp_inv_def set_slot_def)
qed

lemma sp_from_this_inv:
  assumes "sp_inv s" "i < length (slots s)" "slots s ! i = None" "blocks s p \<noteq> None"
    and "length (slots s) < 2 ^ 64"
  shows "\<exists>s'. sp_shared_from_this i p s = Inr s' \<and> sp_inv s' \<and> slots s' = (slots s)[i := Some p]"
proof -
  have pos: "0 < sp_refs s p"
    using assms(1,4) owned_live [of "sp_refs s" "blocks s" p] by (auto simp: sp_inv_def)
  then obtain j where j: "j < length (slots s)" "slots s ! j = Some p"
    by (metis sp_refs_def count_list_0_iff in_set_conv_nth less_numeral_extra(3))
  then have "sp_shared_from_this i p s = sp_copy_ctor i j s"
    using assms(2) by (simp add: sp_shared_from_this_def sp_copy_ctor_def slot_def set_slot_def)
  moreover have "slot s j = Some p"
    using j by (simp add: slot_def)
  ultimately show ?thesis
    using sp_copy_ctor_inv [OF assms(1,2,3,5), of j] by metis
qed

lemmas sp_ops_inv =
  sp_make_inv sp_copy_ctor_inv sp_move_ctor_inv sp_destroy_inv sp_from_this_inv

text \<open>Every legal call returns, leaves the number of slots alone, and keeps the invariant.\<close>

lemma sp_exec_inv:
  assumes "sp_inv s" "sp_legal op s" "length (slots s) < 2 ^ 64"
  shows "\<exists>s'. sp_exec op s = Inr s' \<and> sp_inv s' \<and> length (slots s') = length (slots s)"
proof (cases op)
  case (Copy_assign i j)
  then obtain s1 where "sp_destroy i s = Inr s1" "sp_inv s1" "slots s1 = (slots s)[i := None]"
    using assms sp_destroy_inv by (metis sp_legal.simps(4))
  with Copy_assign assms show ?thesis
    by (auto simp: sp_copy_assign_def intro: sp_copy_ctor_inv [of s1 i j])
next
  case (Move_assign i j)
  then obtain s1 where s1: "sp_destroy i s = Inr s1" "sp_inv s1" "slots s1 = (slots s)[i := None]"
    using assms sp_destroy_inv by (metis sp_legal.simps(5))
  with Move_assign assms sp_move_ctor_inv [of s1 i j] show ?thesis
    by (auto simp: sp_move_assign_def)
next
  case (Copy_ctor i j)
  with assms show ?thesis
    by (auto intro: sp_copy_ctor_inv [of s i j])
next
  case (Destroy i)
  with assms show ?thesis
    by (auto intro: sp_destroy_inv [of s i])
next
  case (Make i p v)
  with assms sp_make_inv [of s i p v] show ?thesis
    by auto
next
  case (Move_ctor i j)
  with assms sp_move_ctor_inv [of s i j] show ?thesis
    by auto
next
  case (From_this i p)
  with assms sp_from_this_inv [of s i p] show ?thesis
    by auto
qed

lemma sp_reach_inv:
  assumes "sp_reach n s" "n < 2 ^ 64"
  shows "sp_inv s \<and> length (slots s) = n"
  using assms
proof (induction rule: sp_reach.induct)
  case sp_reach_init
  show ?case
    by (simp add: sp_init_def sp_inv_def owned_def sp_refs_def)
next
  case (sp_reach_step s op s')
  then show ?case
    using sp_exec_inv [of s op] by fastforce
qed

section \<open>Properties\<close>

text \<open>A state used by the witnesses: three variables, two of which share the object \<open>7\<close>.\<close>

definition sp_example :: "nat sp_state" where
  "sp_example = \<lparr>slots = [Some 4, Some 4, None], blocks = [4 \<mapsto> \<lparr>m_ref_count = 2, m_t = 7\<rparr>]\<rparr>"

lemma sp_example_reach: "sp_reach 3 sp_example"
proof -
  let ?s1 = "\<lparr>slots = [Some 4, None, None], blocks = [4 \<mapsto> \<lparr>m_ref_count = 1, m_t = 7\<rparr>]\<rparr> :: nat sp_state"
  have "sp_reach 3 ?s1"
    by (rule sp_reach_step [OF sp_reach_init, where op = "Make 0 4 7"])
       (simp_all add: sp_init_def sp_make_def set_slot_def block_allocate_def numeral_3_eq_3)
  then show ?thesis
    by (rule sp_reach_step [where op = "Copy_ctor 1 0"])
       (simp_all add: sp_example_def sp_copy_ctor_def with_blocks_def slot_def set_slot_def
          block_incr_def Let_def)
qed

text \<open>C35: after any program over fewer than \<open>2^64\<close> pointer variables, every legal call returns
  without touching freed memory, and afterwards the live control blocks are exactly the ones some
  variable points to, each with a count equal to the number of such variables: nothing is leaked,
  freed early or freed twice, self-assignment included.\<close>

theorem shared_ptr_safe:
  assumes "sp_reach n s" "n < 2 ^ 64" "sp_legal op s"
  shows "\<exists>s'. sp_exec op s = Inr s' \<and>
    (\<forall>p. (blocks s' p \<noteq> None \<longleftrightarrow> Some p \<in> set (slots s')) \<and>
         (\<forall>b. blocks s' p = Some b \<longrightarrow> unat (m_ref_count b) = count_list (slots s') (Some p)))"
proof -
  obtain s' where s': "sp_exec op s = Inr s'" "sp_inv s'"
    using sp_exec_inv [OF _ assms(3)] sp_reach_inv [OF assms(1,2)] assms(2) by auto
  have o: "owned (sp_refs s') (blocks s')"
    using s'(2) by (simp add: sp_inv_def)
  have "(blocks s' p \<noteq> None \<longleftrightarrow> Some p \<in> set (slots s')) \<and>
      (\<forall>b. blocks s' p = Some b \<longrightarrow> unat (m_ref_count b) = count_list (slots s') (Some p))" for p
    using owned_live [OF o, of p] owned_count [OF o, of p] count_list_pos [of "slots s'" "Some p"]
    unfolding sp_refs_def by auto
  with s'(1) show ?thesis
    by blast
qed

theorem shared_ptr_safe_witness:
  "\<exists>s'. sp_exec (Destroy 1) sp_example = Inr s' \<and>
    (\<forall>p. (blocks s' p \<noteq> None \<longleftrightarrow> Some p \<in> set (slots s')) \<and>
         (\<forall>b. blocks s' p = Some b \<longrightarrow> unat (m_ref_count b) = count_list (slots s') (Some p)))"
  by (rule shared_ptr_safe [OF sp_example_reach]) (simp_all add: sp_example_def)

text \<open>Copy assignment between two different variables makes the target point to the source's
  object; copy or move assignment of a variable to itself instead leaves it null, since the old
  reference is given up before the source is read, and the object dies if it was the only one.\<close>

theorem shared_ptr_assign:
  assumes "sp_reach n s" "n < 2 ^ 64" "i < n" "j < n"
  shows "(\<exists>s'. sp_copy_assign i j s = Inr s' \<and> slot s' i = (if i = j then None else slot s j) \<and>
      (i \<noteq> j \<longrightarrow> slot s' j = slot s j)) \<and>
    (\<exists>s'. sp_move_assign i j s = Inr s' \<and> slot s' i = (if i = j then None else slot s j) \<and>
      slot s' j = None)"
proof
  have inv: "sp_inv s" "length (slots s) = n"
    using sp_reach_inv [OF assms(1,2)] by auto
  then obtain s1 where s1: "sp_destroy i s = Inr s1" "sp_inv s1" "slots s1 = (slots s)[i := None]"
    using sp_destroy_inv assms(3) by metis
  have pre: "i < length (slots s1)" "j < length (slots s1)" "slots s1 ! i = None"
      "length (slots s1) < 2 ^ 64"
    using s1(3) inv assms by simp_all
  obtain s2 where "sp_copy_ctor i j s1 = Inr s2" "slots s2 = (slots s1)[i := slot s1 j]"
    using sp_copy_ctor_inv [OF s1(2) pre(1,3,4)] by metis
  with s1 inv assms(3,4)
  show "\<exists>s'. sp_copy_assign i j s = Inr s' \<and> slot s' i = (if i = j then None else slot s j) \<and>
      (i \<noteq> j \<longrightarrow> slot s' j = slot s j)"
    by (auto simp: sp_copy_assign_def slot_def)
  obtain s3 where "sp_move_ctor i j s1 = Inr s3" "slots s3 = (slots s1)[j := None, i := slot s1 j]"
    using sp_move_ctor_inv [OF s1(2) pre(1,2,3)] by metis
  with s1 inv assms(3,4)
  show "\<exists>s'. sp_move_assign i j s = Inr s' \<and> slot s' i = (if i = j then None else slot s j) \<and>
      slot s' j = None"
    by (auto simp: sp_move_assign_def slot_def)
qed

theorem shared_ptr_assign_witness:
  "(\<exists>s'. sp_copy_assign 0 0 sp_example = Inr s' \<and> slot s' 0 = None) \<and>
   (\<exists>s'. sp_move_assign 2 1 sp_example = Inr s' \<and> slot s' 2 = Some 4 \<and> slot s' 1 = None)"
  using shared_ptr_assign [OF sp_example_reach, of 0 0]
    shared_ptr_assign [OF sp_example_reach, of 2 1]
  by (simp add: slot_def sp_example_def)

end
