(* ===== verification/Message_Buffer.thy ===== *)
theory Message_Buffer
  imports Oomph_Prelude
begin

text \<open>
  Message buffers (\<open>message_buffer.hpp\<close>, \<open>detail/message_buffer.hpp\<close>, \<open>message_buffer.cpp\<close>): move only
  objects that own one allocation of the heap.  The heap itself (hwmalloc) is outside; of it the
  model keeps which allocations are live.  Buffers live in variables, so that moves between them,
  and a move of a variable onto itself, can be told apart.
\<close>

section \<open>Model\<close>

text \<open>\<open>mb_ptr\<close> is \<open>m.m_ptr\<close>; \<open>mb_heap\<close> is the allocation the object behind \<open>m.m_heap_ptr\<close> holds, if
  any; \<open>mb_size\<close> is the number of elements.\<close>

record message_buffer =
  mb_ptr :: "ptr option"
  mb_heap :: "ptr option"
  mb_size :: size_t

definition null_buffer :: message_buffer where
  "null_buffer = \<lparr>mb_ptr = None, mb_heap = None, mb_size = 0\<rparr>"

text \<open>\<open>operator bool\<close>\<close>

definition mb_valid :: "message_buffer \<Rightarrow> bool" where
  "mb_valid m \<longleftrightarrow> mb_ptr m \<noteq> None"

text \<open>The object a buffer leaves behind when it is moved from: the pointer is exchanged for null,
  the unique pointer to the heap pointer is moved, the size is copied.\<close>

definition mb_moved_from :: "message_buffer \<Rightarrow> message_buffer" where
  "mb_moved_from m = m\<lparr>mb_ptr := None, mb_heap := None\<rparr>"

text \<open>The number of elements of type \<open>T\<close> of a buffer converted from one of type \<open>U\<close>.\<close>

definition mb_convert_size :: "size_t \<Rightarrow> size_t \<Rightarrow> size_t \<Rightarrow> size_t" where
  "mb_convert_size n size_U size_T = (n * size_U) div size_T"

text \<open>Variables and live allocations.\<close>

record mb_state =
  vars :: "message_buffer list"
  live :: "ptr \<Rightarrow> bool"

text \<open>\<open>if (m_ptr) m_heap_ptr->release()\<close>\<close>

definition mb_release :: "message_buffer \<Rightarrow> (ptr \<Rightarrow> bool) \<Rightarrow> (ptr \<Rightarrow> bool) result" where
  "mb_release m l =
     (if mb_ptr m = None then Inr l
      else case mb_heap m of
          None \<Rightarrow> Inl (Undefined_behaviour ''release through a null pointer'')
        | Some a \<Rightarrow> if l a then Inr (l(a := False)) else Inl (Undefined_behaviour ''allocation released twice''))"

text \<open>Construction from an allocation at \<open>a\<close> with room for \<open>n\<close> elements (\<open>make_buffer\<close>).\<close>

definition mb_construct :: "nat \<Rightarrow> ptr \<Rightarrow> size_t \<Rightarrow> mb_state \<Rightarrow> mb_state result" where
  "mb_construct i a n s =
     Inr (s\<lparr>vars := (vars s)[i := \<lparr>mb_ptr = Some a, mb_heap = Some a, mb_size = n\<rparr>],
            live := (live s)(a := True)\<rparr>)"

definition mb_destroy :: "nat \<Rightarrow> mb_state \<Rightarrow> mb_state result" where
  "mb_destroy i s =
     bind_res (mb_release (vars s ! i) (live s)) (\<lambda>l. Inr (s\<lparr>vars := (vars s)[i := null_buffer], live := l\<rparr>))"

definition mb_move_ctor :: "nat \<Rightarrow> nat \<Rightarrow> mb_state \<Rightarrow> mb_state result" where
  "mb_move_ctor i j s =
     (let m = vars s ! j in Inr (s\<lparr>vars := (vars s)[j := mb_moved_from m, i := m]\<rparr>))"

text \<open>\<open>operator=(message_buffer&&)\<close>: release, then take over pointer and heap pointer.  On the same
  variable \<open>std::exchange\<close> gives the old pointer back and the unique pointer keeps its object.\<close>

definition mb_move_assign :: "nat \<Rightarrow> nat \<Rightarrow> mb_state \<Rightarrow> mb_state result" where
  "mb_move_assign i j s =
     bind_res (mb_release (vars s ! i) (live s)) (\<lambda>l.
     let m = vars s ! j in
     Inr (s\<lparr>vars := (vars s)[j := mb_moved_from m, i := m], live := l\<rparr>))"

definition mb_clear :: "nat \<Rightarrow> mb_state \<Rightarrow> mb_state result" where
  "mb_clear i s = Inr (s\<lparr>vars := (vars s)[i := mb_moved_from (vars s ! i)]\<rparr>)"

section \<open>Programs over buffers\<close>

text \<open>A constructor runs on storage without a live buffer, and the heap hands out memory that is not
  in use.\<close>

datatype mb_op =
    Mb_construct nat ptr size_t
  | Mb_move_ctor nat nat
  | Mb_move_assign nat nat
  | Mb_destroy nat

fun mb_legal :: "mb_op \<Rightarrow> mb_state \<Rightarrow> bool" where
  "mb_legal (Mb_construct i a n) s \<longleftrightarrow> i < length (vars s) \<and> \<not> mb_valid (vars s ! i) \<and> \<not> live s a"
| "mb_legal (Mb_move_ctor i j) s \<longleftrightarrow>
     i < length (vars s) \<and> j < length (vars s) \<and> i \<noteq> j \<and> \<not> mb_valid (vars s ! i)"
| "mb_legal (Mb_move_assign i j) s \<longleftrightarrow> i < length (vars s) \<and> j < length (vars s) \<and> i \<noteq> j"
| "mb_legal (Mb_destroy i) s \<longleftrightarrow> i < length (vars s)"

fun mb_exec :: "mb_op \<Rightarrow> mb_state \<Rightarrow> mb_state result" where
  "mb_exec (Mb_construct i a n) s = mb_construct i a n s"
| "mb_exec (Mb_move_ctor i j) s = mb_move_ctor i j s"
| "mb_exec (Mb_move_assign i j) s = mb_move_assign i j s"
| "mb_exec (Mb_destroy i) s = mb_destroy i s"

definition mb_init :: "nat \<Rightarrow> mb_state" where
  "mb_init n = \<lparr>vars = replicate n null_buffer, live = (\<lambda>_. False)\<rparr>"

inductive mb_reach :: "nat \<Rightarrow> mb_state \<Rightarrow> bool" for n where
  mb_reach_init: "mb_reach n (mb_init n)"
| mb_reach_step: "mb_reach n s \<Longrightarrow> mb_legal op s \<Longrightarrow> mb_exec op s = Inr s' \<Longrightarrow> mb_reach n s'"

section \<open>Ownership\<close>

text \<open>The allocation a variable holds.\<close>

definition mb_holds :: "mb_state \<Rightarrow> nat \<Rightarrow> ptr option" where
  "mb_holds s i = (if i < length (vars s) then mb_ptr (vars s ! i) else None)"

text \<open>A buffer's two pointers agree, and each live allocation is held by one variable.\<close>

definition mb_inv :: "mb_state \<Rightarrow> bool" where
  "mb_inv s \<longleftrightarrow> (\<forall>m \<in> set (vars s). mb_heap m = mb_ptr m) \<and> uniquely (mb_holds s) (live s)"

lemma mb_inv_heap: "mb_inv s \<Longrightarrow> i < length (vars s) \<Longrightarrow> mb_heap (vars s ! i) = mb_ptr (vars s ! i)"
  by (simp add: mb_inv_def)

text \<open>The release never fails, and takes exactly the buffer's allocation.\<close>

lemma mb_release_ok:
  assumes "mb_inv s" "i < length (vars s)"
  shows "mb_release (vars s ! i) (live s) = Inr (\<lambda>a. live s a \<and> mb_holds s i \<noteq> Some a)"
  using mb_inv_heap [OF assms] uniquely_live [of "mb_holds s" "live s" i] assms
  by (auto simp: mb_release_def mb_inv_def mb_holds_def fun_eq_iff split: option.splits)

lemma mb_inv_update:
  assumes "mb_inv s" "mb_heap m = mb_ptr m" "i < length (vars s)"
    and "uniquely ((mb_holds s)(i := mb_ptr m)) l"
  shows "mb_inv (s\<lparr>vars := (vars s)[i := m], live := l\<rparr>)"
proof -
  have "mb_holds (s\<lparr>vars := (vars s)[i := m], live := l\<rparr>) = (mb_holds s)(i := mb_ptr m)"
    using assms(3) by (auto simp: mb_holds_def fun_eq_iff nth_list_update)
  with assms set_update_subset_insert [of "vars s" i m] show ?thesis
    by (auto simp: mb_inv_def)
qed

lemma mb_inv_moved:
  assumes "mb_inv s" "i < length (vars s)" "j < length (vars s)" "i \<noteq> j"
    and "uniquely ((mb_holds s)(j := None, i := mb_holds s j)) l"
  shows "mb_inv (s\<lparr>vars := (vars s)[j := mb_moved_from (vars s ! j), i := vars s ! j], live := l\<rparr>)"
proof -
  have "mb_holds (s\<lparr>vars := (vars s)[j := mb_moved_from (vars s ! j), i := vars s ! j], live := l\<rparr>) =
      (mb_holds s)(j := None, i := mb_holds s j)"
    using assms(2-4) by (auto simp: mb_holds_def fun_eq_iff nth_list_update mb_moved_from_def)
  with assms(5) show ?thesis
    using mb_inv_heap [OF assms(1)] assms(2-4)
    by (auto simp: mb_inv_def in_set_conv_nth nth_list_update mb_moved_from_def)
qed

lemma mb_exec_ok:
  assumes inv: "mb_inv s" and legal: "mb_legal op s"
  shows "\<exists>s'. mb_exec op s = Inr s' \<and> mb_inv s' \<and> length (vars s') = length (vars s)"
proof -
  have u: "uniquely (mb_holds s) (live s)"
    using inv by (simp add: mb_inv_def)
  show ?thesis
  proof (cases op)
    case (Mb_construct i a n)
    then show ?thesis
      using legal mb_inv_update [OF inv, of _ i] uniquely_take [OF u, of i a]
      by (auto simp: mb_construct_def mb_valid_def mb_holds_def)
  next
    case (Mb_move_ctor i j)
    then show ?thesis
      using legal mb_inv_moved [OF inv, of i j "live s"] uniquely_move [OF u, of i j]
      by (auto simp: mb_move_ctor_def Let_def mb_valid_def mb_holds_def)
  next
    case (Mb_move_assign i j)
    let ?l = "\<lambda>a. live s a \<and> mb_holds s i \<noteq> Some a"
    have "uniquely ((mb_holds s)(i := None, j := None, i := mb_holds s j)) ?l"
      using uniquely_move [OF uniquely_drop [OF u, of i], of i j] Mb_move_assign legal by simp
    then have "uniquely ((mb_holds s)(j := None, i := mb_holds s j)) ?l"
      by (simp add: fun_upd_twist)
    then show ?thesis
      using Mb_move_assign legal mb_inv_moved [OF inv, of i j ?l]
      by (auto simp: mb_move_assign_def mb_release_ok [OF inv] Let_def)
  next
    case (Mb_destroy i)
    then show ?thesis
      using legal mb_inv_update [OF inv, of null_buffer i] uniquely_drop [OF u, of i]
      by (auto simp: mb_destroy_def mb_release_ok [OF inv] null_buffer_def)
  qed
qed

lemma mb_reach_inv: "mb_reach n s \<Longrightarrow> mb_inv s \<and> length (vars s) = n"
proof (induction rule: mb_reach.induct)
  case mb_reach_init
  show ?case
    by (auto simp: mb_init_def mb_inv_def null_buffer_def uniquely_def mb_holds_def)
next
  case (mb_reach_step s op s')
  then show ?case
    using mb_exec_ok [of s op] by auto
qed



text \<open>move assignment of a valid buffer to itself releases its allocation and leaves the buffer
  pointing to it, so that the destructor then releases it a second time.\<close>

theorem message_buffer_self_move:
  assumes "i < length (vars s)" "vars s ! i = \<lparr>mb_ptr = Some a, mb_heap = Some a, mb_size = n\<rparr>" "live s a"
  shows "\<exists>s'. mb_move_assign i i s = Inr s' \<and> \<not> live s' a \<and> vars s' = vars s \<and>
    mb_destroy i s' = Inl (Undefined_behaviour ''allocation released twice'')"
proof -
  have "(vars s)[i := mb_moved_from (vars s ! i), i := vars s ! i] = vars s"
    by simp
  then show ?thesis
    using assms by (simp add: mb_move_assign_def mb_release_def mb_destroy_def Let_def)
qed

theorem message_buffer_self_move_witness:
  "\<exists>s s'. mb_move_assign 0 0 s = Inr s' \<and> mb_destroy 0 s' = Inl (Undefined_behaviour ''allocation released twice'')"
proof -
  let ?s = "\<lparr>vars = [\<lparr>mb_ptr = Some 7, mb_heap = Some 7, mb_size = 4\<rparr>], live = (\<lambda>_. True)\<rparr>"
  from message_buffer_self_move [of 0 ?s 7 4] show ?thesis
    by auto
qed

end
