(* ===== verification/Request_State.thy ===== *)
theory Request_State
  imports Shared_Ptr Message_Buffer
begin

text \<open>
  The request state shared by every transport: \<open>request_state_base\<close> (\<open>request_state_base.hpp\<close>) and
  the self reference that \<open>request_state\<close> and \<open>shared_request_state\<close> of each transport add to it.
  Request states live in a store of control blocks; the user's request objects are the other owners
  of a block.  The callback a request holds is a value of an arbitrary type \<open>'c\<close>; what calling it
  does is a parameter \<open>cbk\<close> of the operations that call it, so that a callback may itself post,
  progress or cancel requests.
\<close>

section \<open>Data\<close>

text \<open>The counters \<open>m_scheduled\<close> points to: the two of a communicator's \<open>communicator_state\<close>, and
  the context's one for shared receives.\<close>

datatype counter_id = Scheduled_sends nat | Scheduled_recvs nat | Shared_scheduled_recvs

record 'c request_state_base =
  m_comm :: nat
  m_scheduled :: counter_id
  m_rank :: rank_type
  m_tag :: tag_type
  m_cb :: 'c
  m_ready :: bool
  m_canceled :: bool

record 'c request_state = "'c request_state_base" +
  m_self_ptr :: "ptr option"

text \<open>The state of a \<open>send_multi\<close> (\<open>multi_request_state\<close> of \<open>request.hpp\<close>).  The message the sends
  share is the variable the user passed by reference (\<open>m_msg_ptr\<close>) or the buffer moved in
  (\<open>m_msg\<close>).\<close>

record multi_request_state =
  mr_comm :: nat
  m_counter :: size_t
  m_neighs :: "rank_type list"
  m_tags :: "tag_type list"
  m_msg_size :: size_t
  m_msg_ptr :: "ptr option"
  m_msg :: message_buffer

text \<open>What the public interface adds to the transports: the user's message variables and the states
  of the multiple sends, both by address.\<close>

record api_state =
  messages :: "ptr \<Rightarrow> message_buffer"
  multi :: "ptr \<Rightarrow> multi_request_state option"

definition empty_api :: api_state where
  "empty_api = \<lparr>messages = (\<lambda>_. null_buffer), multi = (\<lambda>_. None)\<rparr>"

text \<open>The store: the request states by address, the counters \<open>m_scheduled\<close> points to, for each
  request state the number of request objects the user holds on it, and the interface's state.\<close>

record 'r request_store =
  heap :: "'r blocks"
  counters :: "counter_id \<Rightarrow> size_t"
  handles :: "ptr \<Rightarrow> nat"
  api :: api_state

text \<open>The names of the request queues of all communicators of a context: one for sends and one for
  receives each.\<close>

datatype qid = Send_reqs nat | Recv_reqs nat

section \<open>Operations\<close>

definition load_state :: "ptr \<Rightarrow> ('r, 'z) request_store_scheme \<Rightarrow> 'r result" where
  "load_state p w =
     (case heap w p of
        None \<Rightarrow> Inl (Undefined_behaviour ''access to a freed request state'')
      | Some b \<Rightarrow> Inr (m_t b))"

definition store_state :: "ptr \<Rightarrow> ('r \<Rightarrow> 'r) \<Rightarrow> ('r, 'z) request_store_scheme \<Rightarrow> ('r, 'z) request_store_scheme" where
  "store_state p f w = w\<lparr>heap := (heap w)(p := map_option (\<lambda>b. b\<lparr>m_t := f (m_t b)\<rparr>) (heap w p))\<rparr>"

text \<open>A write through a pointer.\<close>

definition modify_state ::
    "ptr \<Rightarrow> ('r \<Rightarrow> 'r) \<Rightarrow> ('r, 'z) request_store_scheme \<Rightarrow> ('r, 'z) request_store_scheme result" where
  "modify_state p f w = bind_res (load_state p w) (\<lambda>_. Inr (store_state p f w))"

definition incr_counter :: "counter_id \<Rightarrow> ('r, 'z) request_store_scheme \<Rightarrow> ('r, 'z) request_store_scheme" where
  "incr_counter c w = w\<lparr>counters := (counters w)(c := counters w c + 1)\<rparr>"

definition decr_counter :: "counter_id \<Rightarrow> ('r, 'z) request_store_scheme \<Rightarrow> ('r, 'z) request_store_scheme" where
  "decr_counter c w = w\<lparr>counters := (counters w)(c := counters w c - 1)\<rparr>"

text \<open>Construction of a request state at the address \<open>p\<close> the pool returns: the base class
  constructor counts the request as scheduled.\<close>

definition make_request_state ::
    "ptr \<Rightarrow> ('c, 'x) request_state_base_scheme \<Rightarrow>
     (('c, 'x) request_state_base_scheme, 'z) request_store_scheme \<Rightarrow>
     (('c, 'x) request_state_base_scheme, 'z) request_store_scheme" where
  "make_request_state p r w =
     incr_counter (m_scheduled r)
       (w\<lparr>heap := block_allocate p (r\<lparr>m_ready := False, m_canceled := False\<rparr>) (heap w)\<rparr>)"

definition invoke_cb ::
    "('c \<Rightarrow> rank_type \<Rightarrow> tag_type \<Rightarrow> (('c, 'x) request_state_base_scheme, 'z) request_store_scheme \<Rightarrow>
        (('c, 'x) request_state_base_scheme, 'z) request_store_scheme) \<Rightarrow>
     ptr \<Rightarrow> (('c, 'x) request_state_base_scheme, 'z) request_store_scheme \<Rightarrow>
     (('c, 'x) request_state_base_scheme, 'z) request_store_scheme result" where
  "invoke_cb cbk p w =
     bind_res (load_state p w) (\<lambda>r.
       let w = cbk (m_cb r) (m_rank r) (m_tag r) w
       in bind_res (load_state p w) (\<lambda>r.
            Inr (store_state p (m_ready_update (\<lambda>_. True)) (decr_counter (m_scheduled r) w))))"

definition set_canceled ::
    "ptr \<Rightarrow> (('c, 'x) request_state_base_scheme, 'z) request_store_scheme \<Rightarrow>
     (('c, 'x) request_state_base_scheme, 'z) request_store_scheme result" where
  "set_canceled p w =
     bind_res (load_state p w) (\<lambda>r.
       Inr (store_state p (m_canceled_update (\<lambda>_. True))
             (store_state p (m_ready_update (\<lambda>_. True)) (decr_counter (m_scheduled r) w))))"

definition drop_ref ::
    "ptr option \<Rightarrow> ('r, 'z) request_store_scheme \<Rightarrow> ('r, 'z) request_store_scheme result" where
  "drop_ref m w = bind_res (block_destroy m (heap w)) (\<lambda>bs. Inr (w\<lparr>heap := bs\<rparr>))"

text \<open>\<open>m_self_ptr = shared_from_this()\<close>: the new reference is made before the old value goes.\<close>

definition create_self_ref ::
    "ptr \<Rightarrow> (('c, 'x) request_state_scheme, 'z) request_store_scheme \<Rightarrow>
     (('c, 'x) request_state_scheme, 'z) request_store_scheme result" where
  "create_self_ref p w =
     bind_res (block_incr (Some p) (heap w)) (\<lambda>bs.
     bind_res (load_state p w) (\<lambda>r.
     bind_res (drop_ref (m_self_ptr r) (w\<lparr>heap := bs\<rparr>)) (\<lambda>w.
       Inr (store_state p (m_self_ptr_update (\<lambda>_. Some p)) w))))"

text \<open>\<open>return std::move(m_self_ptr)\<close>, which asserts that there is a self reference.\<close>

definition release_self_ref ::
    "ptr \<Rightarrow> (('c, 'x) request_state_scheme, 'z) request_store_scheme \<Rightarrow>
     (ptr option \<times> (('c, 'x) request_state_scheme, 'z) request_store_scheme) result" where
  "release_self_ref p w =
     bind_res (load_state p w) (\<lambda>r.
       if m_self_ptr r = None then Inl (Terminate ''assertion: no self-reference'')
       else Inr (m_self_ptr r, store_state p (m_self_ptr_update (\<lambda>_. None)) w))"

text \<open>The user's request objects.  The local shared pointer of the posting function is moved into
  the request object it returns, so the count does not change there; destroying the request object
  gives its reference up.\<close>

definition move_to_handle :: "ptr \<Rightarrow> ('r, 'z) request_store_scheme \<Rightarrow> ('r, 'z) request_store_scheme" where
  "move_to_handle p w = w\<lparr>handles := (handles w)(p := handles w p + 1)\<rparr>"

definition drop_handle :: "ptr \<Rightarrow> ('r, 'z) request_store_scheme \<Rightarrow> ('r, 'z) request_store_scheme result" where
  "drop_handle p w = drop_ref (Some p) (w\<lparr>handles := (handles w)(p := handles w p - 1)\<rparr>)"

text \<open>What every queue does with a finished request: take the self reference out, call the callback,
  let the reference go.  And what every queue does with a cancelled one.\<close>

definition complete_request ::
    "('c \<Rightarrow> rank_type \<Rightarrow> tag_type \<Rightarrow> (('c, 'x) request_state_scheme, 'z) request_store_scheme \<Rightarrow>
        (('c, 'x) request_state_scheme, 'z) request_store_scheme) \<Rightarrow>
     ptr \<Rightarrow> (('c, 'x) request_state_scheme, 'z) request_store_scheme \<Rightarrow>
     (('c, 'x) request_state_scheme, 'z) request_store_scheme result" where
  "complete_request cbk p w =
     bind_res (release_self_ref p w) (\<lambda>(m, w). bind_res (invoke_cb cbk p w) (drop_ref m))"

definition cancel_request ::
    "ptr \<Rightarrow> (('c, 'x) request_state_scheme, 'z) request_store_scheme \<Rightarrow>
     (('c, 'x) request_state_scheme, 'z) request_store_scheme result" where
  "cancel_request p w =
     bind_res (release_self_ref p w) (\<lambda>(m, w). bind_res (set_canceled p w) (drop_ref m))"

text \<open>What every posting function does with a request it cannot finish at once.\<close>

definition post_request ::
    "ptr \<Rightarrow> ('c, 'x) request_state_scheme \<Rightarrow>
     (('c, 'x) request_state_scheme, 'z) request_store_scheme \<Rightarrow>
     (('c, 'x) request_state_scheme, 'z) request_store_scheme result" where
  "post_request p r w =
     create_self_ref p (make_request_state p (r\<lparr>m_self_ptr := None\<rparr>) w)"

section \<open>Recursion depth\<close>

text \<open>The default of the build configuration.\<close>

definition OOMPH_RECURSION_DEPTH :: nat where
  "OOMPH_RECURSION_DEPTH = 20"

definition has_reached_recursion_depth :: "nat \<Rightarrow> bool" where
  "has_reached_recursion_depth depth \<longleftrightarrow> OOMPH_RECURSION_DEPTH < depth"

section \<open>The invariant of the store\<close>

definition pending :: "(('c, 'x) request_state_base_scheme, 'z) request_store_scheme \<Rightarrow> ptr \<Rightarrow> bool" where
  "pending w p \<longleftrightarrow> (case heap w p of None \<Rightarrow> False | Some b \<Rightarrow> \<not> m_ready (m_t b))"

definition pending_on ::
    "(('c, 'x) request_state_base_scheme, 'z) request_store_scheme \<Rightarrow> counter_id \<Rightarrow> ptr set" where
  "pending_on w c = {p. \<exists>b. heap w p = Some b \<and> \<not> m_ready (m_t b) \<and> m_scheduled (m_t b) = c}"

text \<open>The owners of a request state are the user's request objects and, while it is pending, one
  reference held by the library: the self reference, or the local it was moved to.\<close>

definition request_refs ::
    "(('c, 'x) request_state_base_scheme, 'z) request_store_scheme \<Rightarrow> ptr \<Rightarrow> nat" where
  "request_refs w p = handles w p + (if pending w p then 1 else 0)"

definition store_inv :: "(('c, 'x) request_state_base_scheme, 'z) request_store_scheme \<Rightarrow> bool" where
  "store_inv w \<longleftrightarrow>
     owned (request_refs w) (heap w) \<and>
     finite (dom (heap w)) \<and>
     (\<forall>c. counters w c = of_nat (card (pending_on w c))) \<and>
     (\<forall>p. handles w p < 2 ^ 63)"

subsection \<open>Frame rules\<close>

text \<open>The invariant speaks about the three store fields only.\<close>

lemma store_inv_cong:
  assumes "heap w = heap v" "counters w = counters v" "handles w = handles v"
  shows "store_inv w \<longleftrightarrow> store_inv v"
proof -
  have "request_refs w = request_refs v" "pending_on w = pending_on v"
    using assms by (auto simp: request_refs_def pending_def pending_on_def fun_eq_iff)
  with assms show ?thesis
    by (simp add: store_inv_def)
qed

lemma pending_heap: "pending w p \<longleftrightarrow> (\<exists>b. heap w p = Some b \<and> \<not> m_ready (m_t b))"
  by (simp add: pending_def split: option.splits)

lemma pending_on_finite: "store_inv w \<Longrightarrow> finite (pending_on w c)"
  by (rule finite_subset [of _ "dom (heap w)"]) (auto simp: store_inv_def pending_on_def)

lemma store_inv_counter: "store_inv w \<Longrightarrow> counters w c = of_nat (card (pending_on w c))"
  by (simp add: store_inv_def)

lemma store_inv_handles: "store_inv w \<Longrightarrow> heap w p = None \<Longrightarrow> handles w p = 0"
  using owned_live [of "request_refs w" "heap w" p] by (auto simp: store_inv_def request_refs_def)

lemma store_inv_refs:
  "store_inv w \<Longrightarrow> heap w p = Some b \<Longrightarrow>
     unat (m_ref_count b) = handles w p + (if m_ready (m_t b) then 0 else 1)"
  using owned_count [of "request_refs w" "heap w" p b]
  by (auto simp: store_inv_def request_refs_def pending_def)

text \<open>How the pending requests on a counter change when one block is written.\<close>

lemma pending_on_upd:
  assumes "heap v = (heap w)(p := x)"
  shows "pending_on v c = pending_on w c - {p} \<union>
    (case x of None \<Rightarrow> {} | Some b \<Rightarrow> if \<not> m_ready (m_t b) \<and> m_scheduled (m_t b) = c then {p} else {})"
  using assms by (auto simp: pending_on_def split: option.splits)

lemma request_refs_upd:
  assumes "heap v = (heap w)(p := x)" "handles v = (handles w)(p := k)"
  shows "request_refs v = (request_refs w)(p := k +
    (case x of None \<Rightarrow> 0 | Some b \<Rightarrow> if m_ready (m_t b) then 0 else 1))"
  using assms by (auto simp: request_refs_def pending_def fun_eq_iff split: option.splits)

text \<open>One write of a block, with the counter change that belongs to it.\<close>

lemma store_inv_upd:
  assumes "store_inv w"
    and h: "heap v = (heap w)(p := x)" "handles v = (handles w)(p := k)" "k < 2 ^ 63"
    and c: "\<And>c. counters v c = of_nat (card (pending_on v c))"
    and b: "case x of None \<Rightarrow> k = 0
      | Some b \<Rightarrow> unat (m_ref_count b) = k + (if m_ready (m_t b) then 0 else 1) \<and> 0 < unat (m_ref_count b)"
  shows "store_inv v"
proof -
  have "owned (request_refs v) (heap v)"
    unfolding request_refs_upd [OF h(1,2)] h(1)
    using assms(1) b by (intro owned_upd) (auto simp: store_inv_def split: option.splits)
  moreover have "finite (dom (heap v))"
    using assms(1) by (cases x) (auto simp: h(1) store_inv_def)
  ultimately show ?thesis
    using assms(1) c h(2,3) by (simp add: store_inv_def)
qed

text \<open>The invariant looks at nothing else in a request state than its two base fields.\<close>

definition same_base ::
    "(('c, 'x) request_state_base_scheme, 'z) request_store_scheme \<Rightarrow>
     (('c, 'x) request_state_base_scheme, 'z) request_store_scheme \<Rightarrow> ptr \<Rightarrow> bool" where
  "same_base w v p \<longleftrightarrow>
     map_option (\<lambda>b. (m_ref_count b, m_ready (m_t b), m_scheduled (m_t b))) (heap v p) =
     map_option (\<lambda>b. (m_ref_count b, m_ready (m_t b), m_scheduled (m_t b))) (heap w p)"

lemma store_inv_same:
  assumes "store_inv w" "\<And>p. same_base w v p" "counters v = counters w" "handles v = handles w"
  shows "store_inv v"
proof -
  have eq: "heap v p = None \<and> heap w p = None \<or> (\<exists>b c. heap v p = Some b \<and> heap w p = Some c \<and>
      m_ref_count b = m_ref_count c \<and> m_ready (m_t b) = m_ready (m_t c) \<and>
      m_scheduled (m_t b) = m_scheduled (m_t c))" for p
    using assms(2) [of p] by (cases "heap v p"; cases "heap w p") (auto simp: same_base_def)
  have r: "request_refs v p = request_refs w p" for p
    using eq [of p] assms(4) by (auto simp: request_refs_def pending_def)
  have "owned (request_refs v) (heap v)"
    unfolding owned_def
  proof
    fix p
    have "case heap w p of None \<Rightarrow> request_refs w p = 0
        | Some b \<Rightarrow> 0 < request_refs w p \<and> unat (m_ref_count b) = request_refs w p"
      using assms(1) by (simp add: store_inv_def owned_def)
    then show "case heap v p of None \<Rightarrow> request_refs v p = 0
        | Some b \<Rightarrow> 0 < request_refs v p \<and> unat (m_ref_count b) = request_refs v p"
      using eq [of p] r [of p] by auto
  qed
  moreover have "dom (heap v) = dom (heap w)"
    using eq by (auto simp: dom_def) (metis option.distinct(1))+
  moreover have "p \<in> pending_on v c \<longleftrightarrow> p \<in> pending_on w c" for p c
    using eq [of p] by (auto simp: pending_on_def)
  then have "pending_on v = pending_on w"
    by (intro ext set_eqI)
  ultimately show ?thesis
    using assms by (simp add: store_inv_def)
qed

lemma store_inv_store_state:
  assumes "store_inv w"
    and "\<And>r. m_ready (f r) = m_ready r" "\<And>r. m_scheduled (f r) = m_scheduled r"
  shows "store_inv (store_state p f w)"
  by (rule store_inv_same [OF assms(1)])
     (use assms(2,3) in \<open>simp_all add: same_base_def store_state_def option.map_comp comp_def\<close>)

subsection \<open>Posting\<close>

definition posted ::
    "ptr \<Rightarrow> ('c, 'x) request_state_scheme \<Rightarrow>
     (('c, 'x) request_state_scheme, 'z) request_store_scheme \<Rightarrow>
     (('c, 'x) request_state_scheme, 'z) request_store_scheme" where
  "posted p r w = w
     \<lparr>heap := (heap w)(p \<mapsto> \<lparr>m_ref_count = 2,
        m_t = r\<lparr>m_ready := False, m_canceled := False, m_self_ptr := Some p\<rparr>\<rparr>),
      counters := (counters w)(m_scheduled r := counters w (m_scheduled r) + 1)\<rparr>"

lemma post_request_eq: "post_request p r w = Inr (posted p r w)"
  by (simp add: post_request_def create_self_ref_def make_request_state_def incr_counter_def
      block_incr_def block_allocate_def load_state_def drop_ref_def block_destroy_def
      store_state_def posted_def)

text \<open>A posted request is owned by its self reference and by the request object returned.\<close>

lemma store_inv_posted:
  assumes "store_inv w" "heap w p = None"
  shows "store_inv (move_to_handle p (posted p r w))"
proof -
  let ?v = "move_to_handle p (posted p r w)"
  let ?r = "r\<lparr>m_ready := False, m_canceled := False, m_self_ptr := Some p\<rparr>"
  have h: "heap ?v = (heap w)(p := Some \<lparr>m_ref_count = 2, m_t = ?r\<rparr>)"
    by (simp add: move_to_handle_def posted_def)
  have p0: "p \<notin> pending_on w c" for c
    using assms(2) by (simp add: pending_on_def)
  show ?thesis
  proof (rule store_inv_upd [OF assms(1) h])
    show "handles ?v = (handles w)(p := 1)"
      using store_inv_handles [OF assms] by (simp add: move_to_handle_def posted_def)
    show "counters ?v c = of_nat (card (pending_on ?v c))" for c
      unfolding pending_on_upd [OF h] using p0 assms(1)
      by (simp add: move_to_handle_def posted_def store_inv_counter pending_on_finite)
  qed simp_all
qed

subsection \<open>Completion and cancellation\<close>

text \<open>The effect of finishing a request on the store: \<open>f\<close> sets the flags.\<close>

definition completed ::
    "(('c, 'x) request_state_base_scheme \<Rightarrow> ('c, 'x) request_state_base_scheme) \<Rightarrow> ptr \<Rightarrow>
     (('c, 'x) request_state_base_scheme, 'z) request_store_scheme \<Rightarrow>
     (('c, 'x) request_state_base_scheme, 'z) request_store_scheme" where
  "completed f p w =
     (case heap w p of
        None \<Rightarrow> w
      | Some b \<Rightarrow> w
          \<lparr>counters := (counters w)(m_scheduled (m_t b) := counters w (m_scheduled (m_t b)) - 1),
           heap := (heap w)(p := if m_ref_count b - 1 = 0 then None
             else Some (b\<lparr>m_t := f (m_t b), m_ref_count := m_ref_count b - 1\<rparr>))\<rparr>)"

lemma complete_request_eq:
  fixes w :: "(('c, 'x) request_state_scheme, 'z) request_store_scheme"
  assumes "heap w p = Some b" "m_self_ptr (m_t b) = Some p"
    and "w1 = store_state p (m_self_ptr_update (\<lambda>_. None)) w"
    and "heap (cbk (m_cb (m_t b)) (m_rank (m_t b)) (m_tag (m_t b)) w1) p = Some b2"
  shows "complete_request cbk p w =
    Inr (completed (m_ready_update (\<lambda>_. True)) p (cbk (m_cb (m_t b)) (m_rank (m_t b)) (m_tag (m_t b)) w1))"
  using assms
  by (simp add: complete_request_def release_self_ref_def invoke_cb_def load_state_def
      store_state_def decr_counter_def drop_ref_def block_destroy_def block_free_def completed_def Let_def)

lemma cancel_request_eq:
  fixes w :: "(('c, 'x) request_state_scheme, 'z) request_store_scheme"
  assumes "heap w p = Some b" "m_self_ptr (m_t b) = Some p"
  shows "cancel_request p w = Inr (completed
    (\<lambda>r. r\<lparr>m_self_ptr := None, m_ready := True, m_canceled := True\<rparr>) p w)"
  using assms
  by (simp add: cancel_request_def release_self_ref_def set_canceled_def load_state_def
      store_state_def decr_counter_def drop_ref_def block_destroy_def block_free_def completed_def Let_def)

text \<open>Finishing a pending request gives up the library's reference, which frees the state exactly
  if the user holds no request object, and takes the request off its counter.\<close>

lemma completed_heap:
  assumes "store_inv w" "heap w p = Some b" "\<not> m_ready (m_t b)"
  shows "heap (completed f p w) = (heap w)(p := if handles w p = 0 then None
     else Some (b\<lparr>m_t := f (m_t b), m_ref_count := m_ref_count b - 1\<rparr>))"
proof -
  have "unat (m_ref_count b) = handles w p + 1"
    using store_inv_refs [OF assms(1,2)] assms(3) by simp
  then have "unat (m_ref_count b - 1) = handles w p"
    by (simp add: unat_dec)
  then have "m_ref_count b - 1 = 0 \<longleftrightarrow> handles w p = 0"
    by (metis unat_eq_0)
  then show ?thesis
    using assms(2) by (simp add: completed_def)
qed

lemma completed_other:
  assumes "q \<noteq> p"
  shows "heap (completed f p w) q = heap w q"
  using assms by (simp add: completed_def split: option.splits)

lemma completed_more [simp]:
  "handles (completed f p w) = handles w"
  "request_store.more (completed f p w) = request_store.more w"
  by (simp_all add: completed_def split: option.splits)

lemma store_inv_completed:
  assumes "store_inv w" "heap w p = Some b" "\<not> m_ready (m_t b)" "m_ready (f (m_t b))"
  shows "store_inv (completed f p w)"
proof -
  let ?v = "completed f p w"
  let ?x = "if handles w p = 0 then None
     else Some (b\<lparr>m_t := f (m_t b), m_ref_count := m_ref_count b - 1\<rparr>)"
  have h: "heap ?v = (heap w)(p := ?x)"
    using completed_heap [OF assms(1-3)] .
  have k: "unat (m_ref_count b) = handles w p + 1"
    using store_inv_refs [OF assms(1,2)] assms(3) by simp
  have pd: "p \<in> pending_on w c \<longleftrightarrow> c = m_scheduled (m_t b)" for c
    using assms(2,3) by (auto simp: pending_on_def)
  have eq: "pending_on ?v c = pending_on w c - {p}" for c
    unfolding pending_on_upd [OF h] using assms(4) by simp
  show ?thesis
  proof (rule store_inv_upd [OF assms(1) h])
    show "handles ?v = (handles w)(p := handles w p)"
      by simp
    show "handles w p < 2 ^ 63"
      using assms(1) by (simp add: store_inv_def)
    show "counters ?v c = of_nat (card (pending_on ?v c))" for c
    proof (cases "c = m_scheduled (m_t b)")
      case True
      then have "card (pending_on w c - {p}) = card (pending_on w c) - 1" "0 < card (pending_on w c)"
        using pd pending_on_finite [OF assms(1)] by (auto simp: card_gt_0_iff)
      moreover have "counters ?v c = counters w c - 1"
        using True assms(2) by (simp add: completed_def)
      ultimately show ?thesis
        unfolding eq store_inv_counter [OF assms(1)] by (simp only: of_nat_dec)
    next
      case False
      then have "counters ?v c = counters w c" "pending_on w c - {p} = pending_on w c"
        using assms(2) pd by (simp_all add: completed_def)
      then show ?thesis
        unfolding eq store_inv_counter [OF assms(1)] by (simp only:)
    qed
    show "case ?x of None \<Rightarrow> handles w p = 0
      | Some b \<Rightarrow> unat (m_ref_count b) = handles w p + (if m_ready (m_t b) then 0 else 1) \<and>
          0 < unat (m_ref_count b)"
      using k assms(4) by (simp add: unat_dec)
  qed
qed

text \<open>The user destroying a request object.\<close>

lemma store_inv_drop_handle:
  assumes "store_inv w" "0 < handles w p"
  obtains v where "drop_handle p w = Inr v" "store_inv v"
    "\<And>q. pending v q = pending w q" "\<And>q. q \<noteq> p \<Longrightarrow> heap v q = heap w q"
    "\<And>b. heap w p = Some b \<Longrightarrow> pending w p \<Longrightarrow> \<exists>b'. heap v p = Some b' \<and> m_t b' = m_t b"
proof -
  have ow: "owned (request_refs w) (heap w)"
    using assms(1) by (simp add: store_inv_def)
  have pos: "0 < request_refs w p"
    using assms(2) by (simp add: request_refs_def)
  obtain b bs' where b: "heap w p = Some b" "block_destroy (Some p) (heap w) = Inr bs'"
      "bs' = (heap w)(p := if request_refs w p = 1 then None
         else Some (b\<lparr>m_ref_count := m_ref_count b - 1\<rparr>))"
    using owned_destroy [OF ow pos] by metis
  let ?v = "w\<lparr>handles := (handles w)(p := handles w p - 1), heap := bs'\<rparr>"
  have k: "unat (m_ref_count b) = handles w p + (if m_ready (m_t b) then 0 else 1)"
    using store_inv_refs [OF assms(1) b(1)] .
  have r1: "request_refs w p = 1 \<longleftrightarrow> handles w p = 1 \<and> m_ready (m_t b)"
    using b(1) assms(2) by (auto simp: request_refs_def pending_def)
  have pend: "pending ?v q = pending w q" for q
    using b r1 by (simp add: pending_def)
  have pend_on: "pending_on ?v c = pending_on w c" for c
    using b r1 by (auto simp: pending_on_def split: if_splits)
  have h: "heap ?v = (heap w)(p := if request_refs w p = 1 then None
         else Some (b\<lparr>m_ref_count := m_ref_count b - 1\<rparr>))"
    using b by simp
  have "store_inv ?v"
  proof (rule store_inv_upd [OF assms(1) h])
    show "handles ?v = (handles w)(p := handles w p - 1)" by simp
    show "handles w p - 1 < 2 ^ 63"
      using assms(1) by (simp add: store_inv_def less_imp_diff_less)
    show "counters ?v c = of_nat (card (pending_on ?v c))" for c
      unfolding pend_on using store_inv_counter [OF assms(1)] by simp
  qed (use k r1 assms(2) in \<open>auto simp: unat_dec\<close>)
  with that [of ?v] pend b r1 show thesis
    by (auto simp: drop_handle_def drop_ref_def pending_def)
qed

end
