(* ===== verification/Completion.thy ===== *)
theory Completion
  imports Request_State
begin

text \<open>
  Completion of the requests a transport has found ready, for callbacks whose effect lies outside the
  request store.  The facts are shared by the queues of all transports, whose progress functions end
  in the same loop over \<open>release_self_ref\<close> and \<open>invoke_cb\<close>.
\<close>

definition state_of :: "('r, 'z) request_store_scheme \<Rightarrow> ptr \<Rightarrow> 'r" where
  "state_of w p = m_t (the (heap w p))"

text \<open>A waiting request is neither ready nor cancelled and holds its self reference.\<close>

definition waiting :: "('c, 'x) request_state_scheme \<Rightarrow> ptr \<Rightarrow> bool" where
  "waiting r p \<longleftrightarrow> \<not> m_ready r \<and> \<not> m_canceled r \<and> m_self_ptr r = Some p"

definition is_waiting :: "(('c, 'x) request_state_scheme, 'z) request_store_scheme \<Rightarrow> ptr \<Rightarrow> bool" where
  "is_waiting w p \<longleftrightarrow> (case heap w p of None \<Rightarrow> False | Some b \<Rightarrow> waiting (m_t b) p)"

text \<open>A request that has completed is marked ready, or freed if the user holds no request object.\<close>

definition finished :: "(('c, 'x) request_state_scheme, 'z) request_store_scheme \<Rightarrow> ptr \<Rightarrow> bool" where
  "finished w p \<longleftrightarrow>
     (case heap w p of None \<Rightarrow> handles w p = 0 | Some b \<Rightarrow> m_ready (m_t b) \<and> \<not> m_canceled (m_t b))"

text \<open>The world without the request store, and a callback that only works on it.\<close>

definition off_store :: "('r, 'z) request_store_scheme \<Rightarrow> ('r, 'z) request_store_scheme" where
  "off_store w = w\<lparr>heap := (\<lambda>_. None), counters := (\<lambda>_. 0), handles := (\<lambda>_. 0)\<rparr>"

definition outside ::
    "('c \<Rightarrow> rank_type \<Rightarrow> tag_type \<Rightarrow> ('r, 'z) request_store_scheme \<Rightarrow> ('r, 'z) request_store_scheme) \<Rightarrow>
     'c \<Rightarrow> rank_type \<Rightarrow> tag_type \<Rightarrow> ('r, 'z) request_store_scheme \<Rightarrow> ('r, 'z) request_store_scheme" where
  "outside f c r t w = (f c r t (off_store w))\<lparr>heap := heap w, counters := counters w, handles := handles w\<rparr>"

text \<open>The effect of the callback of request \<open>p\<close>.\<close>

definition effect_of ::
    "('c \<Rightarrow> rank_type \<Rightarrow> tag_type \<Rightarrow> (('c, 'x) request_state_base_scheme, 'z) request_store_scheme \<Rightarrow>
        (('c, 'x) request_state_base_scheme, 'z) request_store_scheme) \<Rightarrow>
     (('c, 'x) request_state_base_scheme, 'z) request_store_scheme \<Rightarrow> ptr \<Rightarrow>
     (('c, 'x) request_state_base_scheme, 'z) request_store_scheme \<Rightarrow>
     (('c, 'x) request_state_base_scheme, 'z) request_store_scheme" where
  "effect_of f w p x = off_store (f (m_cb (state_of w p)) (m_rank (state_of w p)) (m_tag (state_of w p)) x)"

lemma outside_simps [simp]:
  "heap (outside f c r t w) = heap w" "counters (outside f c r t w) = counters w"
  "handles (outside f c r t w) = handles w" "off_store (outside f c r t w) = off_store (f c r t (off_store w))"
  by (simp_all add: outside_def off_store_def)

lemma off_store_simps [simp]:
  "off_store (off_store w) = off_store w" "off_store (w\<lparr>heap := h\<rparr>) = off_store w" "off_store (w\<lparr>counters := c\<rparr>) = off_store w"
  "off_store (w\<lparr>handles := n\<rparr>) = off_store w" "off_store (store_state p g w) = off_store w" "off_store (completed g p w) = off_store w"
  "api (off_store w) = api w" "request_store.more (off_store w) = request_store.more w"
  by (simp_all add: off_store_def store_state_def completed_def split: option.splits)

lemma is_waiting_heap: "is_waiting w p \<longleftrightarrow> (\<exists>b. heap w p = Some b \<and> waiting (m_t b) p)"
  by (simp add: is_waiting_def split: option.splits)

lemma state_of_cong: "heap v p = heap w p \<Longrightarrow> state_of v p = state_of w p"
  by (simp add: state_of_def)

lemma finished_cong: "heap v p = heap w p \<Longrightarrow> handles v p = handles w p \<Longrightarrow> finished v p \<longleftrightarrow> finished w p"
  by (simp add: finished_def split: option.splits)

section \<open>One request\<close>

lemma complete_request_outside:
  fixes w :: "(('c, 'x) request_state_scheme, 'z) request_store_scheme"
  assumes inv: "store_inv w" and p: "is_waiting w p"
  obtains v where "complete_request (outside f) p w = Inr v" "store_inv v" "finished v p"
    "off_store v = effect_of f w p (off_store w)" "handles v = handles w" "\<And>x. x \<noteq> p \<Longrightarrow> heap v x = heap w x"
    "counters v = (counters w)(m_scheduled (state_of w p) := counters w (m_scheduled (state_of w p)) - 1)"
    "heap v p = None \<or> (\<exists>b. heap v p = Some b \<and> m_t b = (state_of w p)\<lparr>m_self_ptr := None, m_ready := True\<rparr>)"
proof -
  from p obtain b where b: "heap w p = Some b" "m_self_ptr (m_t b) = Some p" "\<not> m_ready (m_t b)" "\<not> m_canceled (m_t b)"
    by (auto simp: is_waiting_heap waiting_def)
  define w1 where "w1 = store_state p (m_self_ptr_update (\<lambda>_. None)) w"
  define w2 where "w2 = outside f (m_cb (m_t b)) (m_rank (m_t b)) (m_tag (m_t b)) w1"
  let ?b = "b\<lparr>m_t := (m_t b)\<lparr>m_self_ptr := None\<rparr>\<rparr>"
  let ?v = "completed (m_ready_update (\<lambda>_. True)) p w2"
  have s: "state_of w p = m_t b"
    using b(1) by (simp add: state_of_def)
  have h2: "heap w2 p = Some ?b" "handles w2 = handles w" "counters w2 = counters w"
    "off_store w2 = effect_of f w p (off_store w)" "\<And>x. x \<noteq> p \<Longrightarrow> heap w2 x = heap w x"
    using b(1) by (simp_all add: w2_def w1_def s effect_of_def) (simp_all add: store_state_def)
  have "store_inv w1"
    unfolding w1_def using inv by (intro store_inv_store_state) simp_all
  then have st: "store_inv w2"
    by (subst store_inv_cong [of w2 w1]) (simp_all add: w2_def)
  have "complete_request (outside f) p w = Inr ?v"
    unfolding w2_def by (rule complete_request_eq [OF b(1,2) w1_def]) (use h2(1) in \<open>simp add: w2_def\<close>)
  moreover have "store_inv ?v"
    by (rule store_inv_completed [OF st h2(1)]) (use b(3) in simp_all)
  moreover have "finished ?v p"
    using completed_heap [OF st h2(1)] b(3,4) by (simp add: finished_def)
  moreover have "counters ?v = (counters w)(m_scheduled (m_t b) := counters w (m_scheduled (m_t b)) - 1)"
    using h2 by (simp add: completed_def)
  moreover have "heap ?v p = None \<or> (\<exists>b'. heap ?v p = Some b' \<and> m_t b' = (m_t b)\<lparr>m_self_ptr := None, m_ready := True\<rparr>)"
    using completed_heap [OF st h2(1)] b(3) by simp
  ultimately show thesis
    using h2 s by (intro that [of ?v]) (simp_all add: completed_other)
qed

section \<open>All ready requests\<close>

lemma complete_all_outside:
  fixes w :: "(('c, 'x) request_state_scheme, 'z) request_store_scheme"
  assumes "store_inv w" "distinct ps" "\<And>p. p \<in> set ps \<Longrightarrow> is_waiting w p"
  shows "\<exists>v. fold_res (complete_request (outside f)) ps w = Inr v \<and> store_inv v \<and>
    off_store v = fold (effect_of f w) ps (off_store w) \<and> (\<forall>p \<in> set ps. finished v p) \<and> handles v = handles w \<and>
    (\<forall>p. p \<notin> set ps \<longrightarrow> heap v p = heap w p) \<and>
    (\<forall>c. counters v c = counters w c - of_nat (length (filter (\<lambda>p. m_scheduled (state_of w p) = c) ps)))"
  using assms
proof (induction ps arbitrary: w)
  case (Cons p ps)
  obtain v where v: "complete_request (outside f) p w = Inr v" "store_inv v" "finished v p"
    "off_store v = effect_of f w p (off_store w)" "handles v = handles w" "\<And>x. x \<noteq> p \<Longrightarrow> heap v x = heap w x"
    "counters v = (counters w)(m_scheduled (state_of w p) := counters w (m_scheduled (state_of w p)) - 1)"
    by (rule complete_request_outside [OF Cons.prems(1), of p f]) (use Cons.prems(3) in auto)
  have np: "p \<notin> set ps"
    using Cons.prems(2) by simp
  have same: "heap v x = heap w x" "state_of v x = state_of w x" "effect_of f v x = effect_of f w x" if "x \<in> set ps" for x
  proof -
    show "heap v x = heap w x"
      using that np by (intro v(6)) auto
    then show "state_of v x = state_of w x"
      by (rule state_of_cong)
    then show "effect_of f v x = effect_of f w x"
      by (simp add: effect_of_def fun_eq_iff)
  qed
  have "is_waiting v x" if "x \<in> set ps" for x
    using Cons.prems(3) [of x] same(1) [OF that] that by (simp add: is_waiting_def)
  from Cons.IH [OF v(2) _ this] Cons.prems(2) obtain u where
    u: "fold_res (complete_request (outside f)) ps v = Inr u" "store_inv u"
      "off_store u = fold (effect_of f v) ps (off_store v)" "\<forall>p \<in> set ps. finished u p" "handles u = handles v"
      "\<forall>p. p \<notin> set ps \<longrightarrow> heap u p = heap v p"
      "\<forall>c. counters u c = counters v c - of_nat (length (filter (\<lambda>p. m_scheduled (state_of v p) = c) ps))"
    by auto
  have "fold (effect_of f v) ps x = fold (effect_of f w) ps x" for x
    using same(3) by (intro fold_cong) auto
  moreover have "filter (\<lambda>p. m_scheduled (state_of v p) = c) ps = filter (\<lambda>p. m_scheduled (state_of w p) = c) ps" for c
    using same(2) by (intro filter_cong) auto
  moreover have "finished u p"
    using u(5,6) v(3) np by (simp add: finished_def split: option.splits)
  ultimately show ?case
    using u v by (simp add: fun_upd_def)
qed simp

section \<open>Cancelled requests\<close>

definition canceled :: "(('c, 'x) request_state_scheme, 'z) request_store_scheme \<Rightarrow> ptr \<Rightarrow> bool" where
  "canceled w p \<longleftrightarrow> (case heap w p of None \<Rightarrow> handles w p = 0 | Some b \<Rightarrow> m_ready (m_t b) \<and> m_canceled (m_t b))"

lemma cancel_request_ok:
  fixes w :: "(('c, 'x) request_state_scheme, 'z) request_store_scheme"
  assumes inv: "store_inv w" and p: "is_waiting w p"
  obtains v where "cancel_request p w = Inr v" "store_inv v" "canceled v p" "off_store v = off_store w" "handles v = handles w"
    "\<And>x. x \<noteq> p \<Longrightarrow> heap v x = heap w x" "\<not> pending v p" "\<not> is_waiting v p"
proof -
  obtain b where b: "heap w p = Some b" "m_self_ptr (m_t b) = Some p" "\<not> m_ready (m_t b)"
    using p by (auto simp: is_waiting_heap waiting_def)
  let ?f = "\<lambda>r. r\<lparr>m_self_ptr := None, m_ready := True, m_canceled := True\<rparr>"
  let ?v = "completed ?f p w"
  have h: "heap ?v = (heap w)(p := if handles w p = 0 then None else Some (b\<lparr>m_t := ?f (m_t b), m_ref_count := m_ref_count b - 1\<rparr>))"
    by (rule completed_heap [OF inv b(1,3)])
  show thesis
  proof (rule that)
    show "cancel_request p w = Inr ?v"
      by (rule cancel_request_eq [OF b(1,2)])
    show "store_inv ?v"
      by (rule store_inv_completed [OF inv b(1,3)]) simp
    show "canceled ?v p" "\<not> pending ?v p" "\<not> is_waiting ?v p"
      unfolding canceled_def pending_def is_waiting_def h by (simp_all add: waiting_def)
    show "off_store ?v = off_store w"
      using b(1) by (simp add: completed_def off_store_def)
  qed (simp_all add: h)
qed

section \<open>Destroyed request objects\<close>

lemma drop_handle_content:
  assumes "drop_handle p w = Inr v" "heap w p = Some b"
  shows "heap v p = None \<or> (\<exists>b'. heap v p = Some b' \<and> m_t b' = m_t b)" "off_store v = off_store w"
  using assms
  by (auto simp: drop_handle_def drop_ref_def block_destroy_def block_free_def Let_def bind_res_eq_Inr off_store_def
      split: if_splits)

lemma drop_handle_waiting:
  fixes w :: "(('c, 'x) request_state_scheme, 'z) request_store_scheme"
  assumes inv: "store_inv w" and h: "0 < handles w p"
  obtains v where "drop_handle p w = Inr v" "store_inv v" "off_store v = off_store w" "\<And>x. pending v x = pending w x"
    "\<And>x. is_waiting v x = is_waiting w x" "\<And>x. is_waiting w x \<Longrightarrow> state_of v x = state_of w x"
proof -
  obtain b where b: "heap w p = Some b"
    using store_inv_handles [OF inv, of p] h by (cases "heap w p") auto
  obtain v where v: "drop_handle p w = Inr v" "store_inv v" "\<And>q. pending v q = pending w q"
      "\<And>q. q \<noteq> p \<Longrightarrow> heap v q = heap w q"
      "\<And>b. heap w p = Some b \<Longrightarrow> pending w p \<Longrightarrow> \<exists>b'. heap v p = Some b' \<and> m_t b' = m_t b"
    by (rule store_inv_drop_handle [OF inv h]) (rule that)
  have pw: "pending u p" if "is_waiting u p" for u :: "(('c, 'x) request_state_scheme, 'z) request_store_scheme"
    using that by (auto simp: is_waiting_heap waiting_def pending_heap)
  have at: "\<exists>b'. heap v p = Some b' \<and> m_t b' = m_t b" if "pending w p"
    using v(5) [OF b that] .
  have "is_waiting v x = is_waiting w x \<and> (is_waiting w x \<longrightarrow> state_of v x = state_of w x)" for x
  proof (cases "x = p")
    case True
    show ?thesis
    proof (cases "pending w p")
      case True
      then show ?thesis
        using at b \<open>x = p\<close> by (auto simp: is_waiting_heap state_of_def)
    next
      case False
      then show ?thesis
        using pw [of w] pw [of v] v(3) \<open>x = p\<close> by auto
    qed
  next
    case False
    then show ?thesis
      using v(4) by (simp add: is_waiting_def state_of_def)
  qed
  then show thesis
    using that [of v] v(1-3) drop_handle_content(2) [OF v(1) b] by blast
qed

end
