(* ===== verification/Mpi_Request_Queue.thy ===== *)
theory Mpi_Request_Queue
  imports Completion
begin

text \<open>
  The request queues of the MPI transport (\<open>mpi/request_queue.hpp\<close>, \<open>mpi/request.hpp\<close>): the vector
  queue of a communicator, which polls all its requests with one \<open>MPI_Testsome\<close> and closes the gaps
  in place, and the lock free queue of the context for shared receives.  The MPI library is a record
  of functions on a library state \<open>'m\<close>.
\<close>

section \<open>The MPI library\<close>

datatype mpi_handle = MPI_REQUEST_NULL | MPI_Handle nat

text \<open>Every function returns an error code first, zero being \<open>MPI_SUCCESS\<close>.  Handles passed by
  address are returned updated.  Element counts are C \<open>int\<close>.\<close>

record 'm mpi_lib =
  MPI_Isend :: "ptr \<Rightarrow> 32 word \<Rightarrow> rank_type \<Rightarrow> tag_type \<Rightarrow> 'm \<Rightarrow> (int \<times> mpi_handle) \<times> 'm"
  MPI_Irecv :: "ptr \<Rightarrow> 32 word \<Rightarrow> rank_type \<Rightarrow> tag_type \<Rightarrow> 'm \<Rightarrow> (int \<times> mpi_handle) \<times> 'm"
  MPI_Test :: "mpi_handle \<Rightarrow> 'm \<Rightarrow> (int \<times> mpi_handle \<times> bool) \<times> 'm"
  MPI_Testsome :: "mpi_handle list \<Rightarrow> 'm \<Rightarrow> (int \<times> mpi_handle list \<times> int \<times> int list) \<times> 'm"
  MPI_Cancel :: "mpi_handle \<Rightarrow> 'm \<Rightarrow> int \<times> 'm"
  MPI_Wait :: "mpi_handle \<Rightarrow> 'm \<Rightarrow> (int \<times> mpi_handle \<times> nat) \<times> 'm"
  MPI_Test_cancelled :: "nat \<Rightarrow> 'm \<Rightarrow> (int \<times> bool) \<times> 'm"

text \<open>\<open>OOMPH_CHECK_MPI_RESULT\<close>\<close>

definition check_mpi :: "int \<Rightarrow> 'a result \<Rightarrow> 'a result" where
  "check_mpi rc k = (if rc \<noteq> 0 then Inl (Runtime_error ''OOMPH Error: MPI Call failed'') else k)"

section \<open>State\<close>

record 'c mpi_request_state = "'c request_state" +
  m_req :: mpi_handle
  m_index :: nat

record request_queue =
  m_queue :: "ptr list"
  m_ready_queue :: "ptr list"
  in_progress :: bool
  reqs :: "mpi_handle list"
  indices :: "int list"

text \<open>The lock free queue is first in first out; \<open>m_size\<close> is its separate element counter.  The two
  thread local variables of \<open>shared_request_queue::progress\<close> are those of the calling thread.\<close>

record shared_request_queue =
  sq_queue :: "ptr list"
  sq_size :: size_t
  sq_in_progress :: bool
  sq_local_queue :: "ptr list"

text \<open>The state of one process: the request store, the queues of all communicators and of the
  context, and the state of the MPI library.\<close>

record ('c, 'm) mpi_world = "'c mpi_request_state request_store" +
  queue :: "qid \<Rightarrow> request_queue"
  m_req_queue :: shared_request_queue
  m_recursion_depth :: "nat \<Rightarrow> nat"
  ctx_recursion_depth :: nat
  mpi_state :: 'm

type_synonym ('c, 'm) callback =
  "'c \<Rightarrow> rank_type \<Rightarrow> tag_type \<Rightarrow> ('c, 'm) mpi_world \<Rightarrow> ('c, 'm) mpi_world"

definition upd_queue ::
    "qid \<Rightarrow> (request_queue \<Rightarrow> request_queue) \<Rightarrow> ('c, 'm) mpi_world \<Rightarrow> ('c, 'm) mpi_world" where
  "upd_queue q f w = w\<lparr>queue := (queue w)(q := f (queue w q))\<rparr>"

definition upd_shared ::
    "(shared_request_queue \<Rightarrow> shared_request_queue) \<Rightarrow> ('c, 'm) mpi_world \<Rightarrow> ('c, 'm) mpi_world" where
  "upd_shared f w = w\<lparr>m_req_queue := f (m_req_queue w)\<rparr>"

section \<open>\<open>mpi_request\<close>\<close>

definition mpi_request_is_ready ::
    "'m mpi_lib \<Rightarrow> mpi_handle \<Rightarrow> 'm \<Rightarrow> (bool \<times> mpi_handle \<times> 'm) result" where
  "mpi_request_is_ready mpi h m =
     (case MPI_Test mpi h m of ((rc, h', flag), m') \<Rightarrow> check_mpi rc (Inr (flag, h', m')))"

definition mpi_request_cancel ::
    "'m mpi_lib \<Rightarrow> mpi_handle \<Rightarrow> 'm \<Rightarrow> (bool \<times> mpi_handle \<times> 'm) result" where
  "mpi_request_cancel mpi h m =
     (case MPI_Cancel mpi h m of (rc, m) \<Rightarrow> check_mpi rc
     (case MPI_Wait mpi h m of ((rc, h, st), m) \<Rightarrow> check_mpi rc
     (case MPI_Test_cancelled mpi st m of ((rc, flag), m) \<Rightarrow> check_mpi rc
     (Inr (flag, h, m)))))"

section \<open>\<open>request_queue\<close>\<close>

definition rq_size :: "qid \<Rightarrow> ('c, 'm) mpi_world \<Rightarrow> nat" where
  "rq_size q w = length (m_queue (queue w q))"

definition rq_enqueue :: "qid \<Rightarrow> ptr \<Rightarrow> ('c, 'm) mpi_world \<Rightarrow> ('c, 'm) mpi_world result" where
  "rq_enqueue q e w =
     bind_res (modify_state e (m_index_update (\<lambda>_. rq_size q w)) w) (\<lambda>w.
       Inr (upd_queue q (m_queue_update (\<lambda>xs. xs @ [e])) w))"

text \<open>The loop over \<open>i\<close> of \<open>progress\<close> that sorts the elements into ready ones and ones that stay,
  moving the latter to the front: \<open>k\<close> runs through the indices, \<open>j\<close> is where the next element that
  stays goes.  The first number counts the iterations left.\<close>

fun rq_compact ::
    "qid \<Rightarrow> nat \<Rightarrow> nat \<Rightarrow> nat \<Rightarrow> nat \<Rightarrow> ('c, 'm) mpi_world \<Rightarrow> ('c, 'm) mpi_world result" where
  "rq_compact q 0 i k j w = Inr w"
| "rq_compact q (Suc n) i k j w =
     (if length (indices (queue w q)) \<le> k \<or> length (m_queue (queue w q)) \<le> i
      then Inl (Undefined_behaviour ''vector index out of range'')
      else
        let e = m_queue (queue w q) ! i in
        if int i = indices (queue w q) ! k
        then rq_compact q n (i + 1) (k + 1) j (upd_queue q (m_ready_queue_update (\<lambda>xs. xs @ [e])) w)
        else if j < i
        then bind_res (modify_state e (m_index_update (\<lambda>_. j)) w) (\<lambda>w.
               rq_compact q n (i + 1) k (j + 1) (upd_queue q (m_queue_update (\<lambda>xs. xs[j := e])) w))
        else rq_compact q n (i + 1) k (j + 1) w)"

definition rq_progress ::
    "'m mpi_lib \<Rightarrow> ('c, 'm) callback \<Rightarrow> qid \<Rightarrow> ('c, 'm) mpi_world \<Rightarrow> (nat \<times> ('c, 'm) mpi_world) result" where
  "rq_progress mpi cbk q w =
     (if in_progress (queue w q) then Inr (0, w)
      else
        let w = upd_queue q (in_progress_update (\<lambda>_. True)) w;
            qs = rq_size q w in
        if qs = 0 then Inr (0, upd_queue q (in_progress_update (\<lambda>_. False)) w)
        else
          let w = upd_queue q (\<lambda>rq. rq\<lparr>m_ready_queue := [], reqs := [],
                    indices := resize (qs + 1) 0 (indices rq)\<rparr>) w in
          bind_res (map_res (\<lambda>e. bind_res (load_state e w) (\<lambda>r. Inr (m_req r))) (m_queue (queue w q))) (\<lambda>hs.
          case MPI_Testsome mpi hs (mpi_state w) of ((rc, hs', outcount, idx), m) \<Rightarrow>
          let w = upd_queue q (\<lambda>rq. rq\<lparr>reqs := hs', indices := overwrite idx (indices rq)\<rparr>) (w\<lparr>mpi_state := m\<rparr>) in
          check_mpi rc
            (if outcount = 0 then Inr (0, upd_queue q (in_progress_update (\<lambda>_. False)) w)
             else if outcount < 0 \<or> int qs < outcount
             then Inl (Undefined_behaviour ''indices[outcount] out of range'')
             else
               let w = upd_queue q (indices_update (\<lambda>xs. xs[nat outcount := int qs])) w in
               bind_res (rq_compact q qs 0 0 0 w) (\<lambda>w.
               let ready = m_ready_queue (queue w q);
                   w = upd_queue q (m_queue_update (\<lambda>xs. take (length xs - length ready) xs)) w in
               bind_res (fold_res (complete_request cbk) ready w) (\<lambda>w.
               Inr (length ready, upd_queue q (in_progress_update (\<lambda>_. False)) w))))))"

definition rq_cancel ::
    "'m mpi_lib \<Rightarrow> qid \<Rightarrow> ptr \<Rightarrow> ('c, 'm) mpi_world \<Rightarrow> (bool \<times> ('c, 'm) mpi_world) result" where
  "rq_cancel mpi q e w =
     bind_res (load_state e w) (\<lambda>r.
     let index = m_index r in
     if rq_size q w \<le> index then Inl (Undefined_behaviour ''vector index out of range'')
     else
       let x = m_queue (queue w q) ! index in
       bind_res (load_state x w) (\<lambda>rx.
       bind_res (mpi_request_cancel mpi (m_req rx) (mpi_state w)) (\<lambda>(canceled, h, m).
       let w = store_state x (m_req_update (\<lambda>_. h)) (w\<lparr>mpi_state := m\<rparr>) in
       if canceled then
         bind_res (release_self_ref e w) (\<lambda>(self, w).
         bind_res (set_canceled e w) (\<lambda>w.
         bind_res
           (if index + 1 < rq_size q w then
              let y = last (m_queue (queue w q)) in
              modify_state y (m_index_update (\<lambda>_. index))
                (upd_queue q (m_queue_update (\<lambda>xs. xs[index := y])) w)
            else Inr w) (\<lambda>w.
         let w = upd_queue q (m_queue_update butlast) w in
         bind_res (drop_ref self w) (\<lambda>w. Inr (True, w)))))
       else Inr (False, w))))"

section \<open>\<open>shared_request_queue\<close>\<close>

definition sq_enqueue :: "ptr \<Rightarrow> ('c, 'm) mpi_world \<Rightarrow> ('c, 'm) mpi_world" where
  "sq_enqueue e w = upd_shared (\<lambda>s. s\<lparr>sq_queue := sq_queue s @ [e], sq_size := sq_size s + 1\<rparr>) w"

text \<open>The loop \<open>while (m_queue.pop(e))\<close>: pop until a request is ready, putting the others aside.
  The result is the ready request, if there is one.  The number is the length of the queue.\<close>

fun sq_poll ::
    "'m mpi_lib \<Rightarrow> nat \<Rightarrow> ('c, 'm) mpi_world \<Rightarrow> (ptr option \<times> ('c, 'm) mpi_world) result" where
  "sq_poll mpi 0 w = Inr (None, w)"
| "sq_poll mpi (Suc n) w =
     (case sq_queue (m_req_queue w) of
        [] \<Rightarrow> Inr (None, w)
      | e # es \<Rightarrow>
          let w = upd_shared (sq_queue_update (\<lambda>_. es)) w in
          bind_res (load_state e w) (\<lambda>r.
          bind_res (mpi_request_is_ready mpi (m_req r) (mpi_state w)) (\<lambda>(flag, h, m).
          let w = store_state e (m_req_update (\<lambda>_. h)) (w\<lparr>mpi_state := m\<rparr>) in
          if flag then Inr (Some e, w)
          else sq_poll mpi n (upd_shared (sq_local_queue_update (\<lambda>xs. xs @ [e])) w))))"

definition sq_progress ::
    "'m mpi_lib \<Rightarrow> ('c, 'm) callback \<Rightarrow> ('c, 'm) mpi_world \<Rightarrow> (nat \<times> ('c, 'm) mpi_world) result" where
  "sq_progress mpi cbk w =
     (if sq_in_progress (m_req_queue w) then Inr (0, w)
      else
        let w = upd_shared (sq_in_progress_update (\<lambda>_. True)) w in
        bind_res (sq_poll mpi (length (sq_queue (m_req_queue w))) w) (\<lambda>(found, w).
        let w = upd_shared (\<lambda>s. s\<lparr>sq_queue := sq_queue s @ sq_local_queue s, sq_local_queue := []\<rparr>) w in
        case found of
          None \<Rightarrow> Inr (0, upd_shared (sq_in_progress_update (\<lambda>_. False)) w)
        | Some e \<Rightarrow>
            bind_res (release_self_ref e w) (\<lambda>(self, w).
            bind_res (invoke_cb cbk e w) (\<lambda>w.
            let w = upd_shared (sq_size_update (\<lambda>n. n - 1)) w in
            bind_res (drop_ref self w) (\<lambda>w.
            Inr (1, upd_shared (sq_in_progress_update (\<lambda>_. False)) w))))))"

text \<open>The functor \<open>cancel\<close> applies to every element, with the elements kept so far and whether the
  request has been cancelled.\<close>

definition sq_cancel_step ::
    "'m mpi_lib \<Rightarrow> ptr \<Rightarrow> ptr \<Rightarrow> ptr list \<times> bool \<times> ('c, 'm) mpi_world \<Rightarrow>
     (ptr list \<times> bool \<times> ('c, 'm) mpi_world) result" where
  "sq_cancel_step mpi e x = (\<lambda>(kept, canceled, w).
     if e = x then
       bind_res (load_state e w) (\<lambda>r.
       bind_res (mpi_request_cancel mpi (m_req r) (mpi_state w)) (\<lambda>(flag, h, m).
       let w = store_state e (m_req_update (\<lambda>_. h)) (w\<lparr>mpi_state := m\<rparr>) in
       if flag then bind_res (cancel_request e w) (\<lambda>w. Inr (kept, True, w))
       else Inr (kept @ [x], canceled, w)))
     else Inr (kept @ [x], canceled, w))"

definition sq_cancel ::
    "'m mpi_lib \<Rightarrow> ptr \<Rightarrow> ('c, 'm) mpi_world \<Rightarrow> (bool \<times> ('c, 'm) mpi_world) result" where
  "sq_cancel mpi e w =
     (let xs = sq_queue (m_req_queue w);
          w = upd_shared (sq_queue_update (\<lambda>_. [])) w in
      bind_res (fold_res (sq_cancel_step mpi e) xs ([], False, w)) (\<lambda>(kept, canceled, w).
      Inr (canceled, upd_shared (sq_queue_update (\<lambda>ys. ys @ kept)) w)))"

section \<open>The compaction loop\<close>

text \<open>What the loop is to compute: the elements at the positions in \<open>idx\<close>, and the others, both in
  the order of the queue.\<close>

definition ready_of :: "int list \<Rightarrow> nat \<Rightarrow> 'a list \<Rightarrow> 'a list" where
  "ready_of idx i xs = map snd (filter (\<lambda>(i, x). int i \<in> set idx) (enumerate i xs))"

definition kept_of :: "int list \<Rightarrow> nat \<Rightarrow> 'a list \<Rightarrow> 'a list" where
  "kept_of idx i xs = map snd (filter (\<lambda>(i, x). int i \<notin> set idx) (enumerate i xs))"

lemma ready_of_simps [simp]:
  "ready_of idx i [] = []"
  "ready_of idx i (x # xs) = (if int i \<in> set idx then [x] else []) @ ready_of idx (Suc i) xs"
  by (simp_all add: ready_of_def)

lemma kept_of_simps [simp]:
  "kept_of idx i [] = []"
  "kept_of idx i (x # xs) = (if int i \<in> set idx then [] else [x]) @ kept_of idx (Suc i) xs"
  by (simp_all add: kept_of_def)

lemma ready_kept_length: "length (ready_of idx i xs) + length (kept_of idx i xs) = length xs"
  by (induction xs arbitrary: i) auto

lemma ready_kept_mset: "mset (ready_of idx i xs) + mset (kept_of idx i xs) = mset xs"
  by (induction xs arbitrary: i) auto

lemma ready_of_drop_idx: "(\<And>a. a \<in> set ys \<Longrightarrow> a < int i) \<Longrightarrow> ready_of (ys @ idx) i xs = ready_of idx i xs"
proof (induction xs arbitrary: i)
  case (Cons x xs)
  then have "ready_of (ys @ idx) (Suc i) xs = ready_of idx (Suc i) xs"
    by (metis less_trans lessI of_nat_less_iff)
  with Cons.prems show ?case
    by fastforce
qed simp

lemma kept_of_drop_idx: "(\<And>a. a \<in> set ys \<Longrightarrow> a < int i) \<Longrightarrow> kept_of (ys @ idx) i xs = kept_of idx i xs"
proof (induction xs arbitrary: i)
  case (Cons x xs)
  then have "kept_of (ys @ idx) (Suc i) xs = kept_of idx (Suc i) xs"
    by (metis less_trans lessI of_nat_less_iff)
  with Cons.prems show ?case
    by fastforce
qed simp

lemma idx_above:
  assumes "int i \<notin> set idx" "set idx \<subseteq> {int i..<b}"
  shows "set idx \<subseteq> {int (Suc i)..<b}"
proof
  fix a assume "a \<in> set idx"
  with assms have "int i \<le> a" "a \<noteq> int i" "a < b"
    by auto
  then show "a \<in> {int (Suc i)..<b}"
    by simp
qed

lemma length_ready_of:
  assumes "sorted_wrt (<) idx" "set idx \<subseteq> {int i..<int (i + length xs)}"
  shows "length (ready_of idx i xs) = length idx"
  using assms
proof (induction xs arbitrary: i idx)
  case (Cons x xs)
  show ?case
  proof (cases "int i \<in> set idx")
    case True
    with Cons.prems obtain js where js: "idx = int i # js"
      by (cases idx) force+
    have "set js \<subseteq> {int (Suc i)..<int (Suc i + length xs)}" "sorted_wrt (<) js"
      using Cons.prems unfolding js by force+
    then have "length (ready_of js (Suc i) xs) = length js"
      using Cons.IH by blast
    moreover have "ready_of idx (Suc i) xs = ready_of js (Suc i) xs"
      using ready_of_drop_idx [of "[int i]" "Suc i" js xs] js by simp
    ultimately show ?thesis
      using js by simp
  next
    case False
    then have "set idx \<subseteq> {int (Suc i)..<int (Suc i + length xs)}"
      using idx_above [of i idx "int (i + length (x # xs))"] Cons.prems(2) by simp
    with Cons.IH [of idx "Suc i"] Cons.prems(1) False show ?thesis
      by simp
  qed
qed simp

lemma set_kept_of: "set (kept_of idx i xs) \<subseteq> set xs"
  by (auto simp: kept_of_def in_set_enumerate_eq)

text \<open>What the loop leaves behind when it starts with the elements \<open>xs\<close> not yet looked at, and \<open>j\<close>
  elements already put in their place.\<close>

definition compact_post ::
    "qid \<Rightarrow> nat \<Rightarrow> nat \<Rightarrow> int list \<Rightarrow> ptr list \<Rightarrow> ('c, 'm) mpi_world \<Rightarrow> ('c, 'm) mpi_world result \<Rightarrow> bool" where
  "compact_post q i j idx xs w res \<longleftrightarrow>
     (\<exists>Q H. res = Inr (w
        \<lparr>heap := H, queue := (queue w)(q := (queue w q)
          \<lparr>m_queue := Q, m_ready_queue := m_ready_queue (queue w q) @ ready_of idx i xs\<rparr>)\<rparr>) \<and>
      length Q = length (m_queue (queue w q)) \<and>
      take (j + length (kept_of idx i xs)) Q = take j (m_queue (queue w q)) @ kept_of idx i xs \<and>
      (\<forall>p. p \<notin> set (kept_of idx i xs) \<longrightarrow> H p = heap w p) \<and>
      (\<forall>t < length (kept_of idx i xs). H (kept_of idx i xs ! t) =
         map_option (\<lambda>b. b\<lparr>m_t := (m_t b)\<lparr>m_index := j + t\<rparr>\<rparr>) (heap w (kept_of idx i xs ! t))))"

lemma compact_post_ready:
  assumes "compact_post q (Suc i) j js xs (upd_queue q (m_ready_queue_update (\<lambda>ys. ys @ [e])) w) res"
  shows "compact_post q i j (int i # js) (e # xs) w res"
  using assms ready_of_drop_idx [of "[int i]" "Suc i" js xs] kept_of_drop_idx [of "[int i]" "Suc i" js xs]
  by (simp add: compact_post_def upd_queue_def)

lemma compact_post_stay:
  assumes "compact_post q (Suc i) (Suc i) idx xs w res" "int i \<notin> set idx" "e \<notin> set xs"
    and "i < length (m_queue (queue w q))" "m_queue (queue w q) ! i = e"
    and "heap w e = Some b" "m_index (m_t b) = i"
  shows "compact_post q i i idx (e # xs) w res"
proof -
  have e: "e \<notin> set (kept_of idx (Suc i) xs)"
    using assms(3) set_kept_of by fast
  obtain Q H where QH: "res = Inr (w\<lparr>heap := H, queue := (queue w)(q := (queue w q)
          \<lparr>m_queue := Q, m_ready_queue := m_ready_queue (queue w q) @ ready_of idx (Suc i) xs\<rparr>)\<rparr>)"
      "length Q = length (m_queue (queue w q))"
      "take (Suc i + length (kept_of idx (Suc i) xs)) Q =
        take (Suc i) (m_queue (queue w q)) @ kept_of idx (Suc i) xs"
      "\<forall>p. p \<notin> set (kept_of idx (Suc i) xs) \<longrightarrow> H p = heap w p"
      "\<forall>t < length (kept_of idx (Suc i) xs). H (kept_of idx (Suc i) xs ! t) =
         map_option (\<lambda>b. b\<lparr>m_t := (m_t b)\<lparr>m_index := Suc i + t\<rparr>\<rparr>) (heap w (kept_of idx (Suc i) xs ! t))"
    using assms(1) unfolding compact_post_def by blast
  have "H e = map_option (\<lambda>b. b\<lparr>m_t := (m_t b)\<lparr>m_index := i\<rparr>\<rparr>) (heap w e)"
    using QH(4) e assms(6,7) by simp
  then show ?thesis
    unfolding compact_post_def
    using QH assms(2,4,5)
    by (intro exI [of _ Q] exI [of _ H])
       (simp add: take_Suc_conv_app_nth nth_Cons split: nat.splits)
qed

lemma compact_post_move:
  assumes "compact_post q (Suc i) (Suc j) idx xs
      (upd_queue q (m_queue_update (\<lambda>ys. ys[j := e])) (store_state e (m_index_update (\<lambda>_. j)) w)) res"
    and "int i \<notin> set idx" "e \<notin> set xs" "j < length (m_queue (queue w q))"
  shows "compact_post q i j idx (e # xs) w res"
proof -
  let ?K = "kept_of idx (Suc i) xs"
  have e: "e \<notin> set ?K"
    using assms(3) set_kept_of by fast
  obtain Q H where QH: "res = Inr (w\<lparr>heap := H, queue := (queue w)(q := (queue w q)
          \<lparr>m_queue := Q, m_ready_queue := m_ready_queue (queue w q) @ ready_of idx (Suc i) xs\<rparr>)\<rparr>)"
      "length Q = length (m_queue (queue w q))"
      "take (Suc j + length ?K) Q = take (Suc j) ((m_queue (queue w q))[j := e]) @ ?K"
      "\<forall>p. p \<notin> set ?K \<longrightarrow> H p = heap (store_state e (m_index_update (\<lambda>_. j)) w) p"
      "\<forall>t < length ?K. H (?K ! t) = map_option (\<lambda>b. b\<lparr>m_t := (m_t b)\<lparr>m_index := Suc j + t\<rparr>\<rparr>)
         (heap (store_state e (m_index_update (\<lambda>_. j)) w) (?K ! t))"
    using assms(1) unfolding compact_post_def by (auto simp: upd_queue_def store_state_def)
  have other: "heap (store_state e (m_index_update (\<lambda>_. j)) w) p = heap w p" if "p \<noteq> e" for p
    using that by (simp add: store_state_def)
  have "H e = map_option (\<lambda>b. b\<lparr>m_t := (m_t b)\<lparr>m_index := j\<rparr>\<rparr>) (heap w e)"
    using QH(4) e by (simp add: store_state_def)
  moreover have "H (?K ! t) = map_option (\<lambda>b. b\<lparr>m_t := (m_t b)\<lparr>m_index := Suc j + t\<rparr>\<rparr>) (heap w (?K ! t))"
    if t: "t < length ?K" for t
  proof -
    have "?K ! t \<noteq> e"
      using t e nth_mem by fastforce
    with other show ?thesis
      using QH(5) t by simp
  qed
  ultimately show ?thesis
    unfolding compact_post_def
    using QH(1-4) assms(2,4) other
    by (intro exI [of _ Q] exI [of _ H])
       (simp add: take_Suc_conv_app_nth nth_Cons split: nat.splits)
qed

lemma rq_compact_correct:
  assumes "drop i (m_queue (queue w q)) = xs" "length xs = n" "j \<le> i"
    and "length (m_queue (queue w q)) = i + n"
    and "drop k (indices (queue w q)) = idx @ int (i + n) # rest"
    and "sorted_wrt (<) idx" "set idx \<subseteq> {int i..<int (i + n)}"
    and "distinct xs" "\<And>t. t < n \<Longrightarrow> \<exists>b. heap w (xs ! t) = Some b \<and> m_index (m_t b) = i + t"
  shows "compact_post q i j idx xs w (rq_compact q n i k j w)"
  using assms
proof (induction n arbitrary: i k j w xs idx)
  case 0
  then show ?case
    unfolding compact_post_def
    by (intro exI [of _ "m_queue (queue w q)"] exI [of _ "heap w"]) (simp add: fun_upd_idem)
next
  case (Suc n)
  from Suc.prems(1,2) obtain e ys where xs: "xs = e # ys"
    by (cases xs) auto
  have e: "m_queue (queue w q) ! i = e" "drop (Suc i) (m_queue (queue w q)) = ys"
    using Suc.prems(1,4) xs by (simp_all add: Cons_nth_drop_Suc [symmetric])
  have k: "k < length (indices (queue w q))"
    using Suc.prems(5) by (intro not_le_imp_less notI) simp
  then have hd: "indices (queue w q) ! k = hd (idx @ [int (i + Suc n)])"
    using hd_drop_conv_nth [of k "indices (queue w q)"] Suc.prems(5) by (simp add: hd_append split: if_splits)
  obtain b where b: "heap w e = Some b" "m_index (m_t b) = i"
    using Suc.prems(9) [of 0] xs by auto
  have ys: "\<exists>b. heap w (ys ! t) = Some b \<and> m_index (m_t b) = Suc i + t" if "t < n" for t
    using Suc.prems(9) [of "Suc t"] xs that by simp
  show ?case
  proof (cases "int i \<in> set idx")
    case True
    then obtain js where js: "idx = int i # js"
      using Suc.prems(6,7) by (cases idx) force+
    let ?w = "upd_queue q (m_ready_queue_update (\<lambda>ys. ys @ [e])) w"
    have "drop (Suc k) (indices (queue w q)) = js @ int (Suc i + n) # rest"
      using Suc.prems(5) k js by (simp add: Cons_nth_drop_Suc [symmetric])
    moreover have "set js \<subseteq> {int (Suc i)..<int (Suc i + n)}" "sorted_wrt (<) js"
      using Suc.prems(6,7) js by force+
    ultimately have "compact_post q (Suc i) j js ys ?w (rq_compact q n (Suc i) (Suc k) j ?w)"
      using Suc.prems(2-4,8) e(2) ys xs
      by (intro Suc.IH) (simp_all add: upd_queue_def)
    then show ?thesis
      using k hd e Suc.prems(4) js xs compact_post_ready by (simp add: Let_def)
  next
    case False
    note ab = idx_above [OF False Suc.prems(7)]
    have ne: "int i \<noteq> indices (queue w q) ! k"
      using False hd by (cases idx) auto
    note IH_prems = Suc.prems(2-6,8) e(2) ys xs ab
    show ?thesis
    proof (cases "j < i")
      case True
      let ?w = "upd_queue q (m_queue_update (\<lambda>ys. ys[j := e])) (store_state e (m_index_update (\<lambda>_. j)) w)"
      have "\<exists>b. heap ?w (ys ! t) = Some b \<and> m_index (m_t b) = Suc i + t" if "t < n" for t
      proof -
        have "ys ! t \<noteq> e"
          using that Suc.prems(2,8) xs nth_mem by fastforce
        with ys [OF that] show ?thesis
          by (simp add: upd_queue_def store_state_def)
      qed
      then have "compact_post q (Suc i) (Suc j) idx ys ?w (rq_compact q n (Suc i) k (Suc j) ?w)"
        using IH_prems True by (intro Suc.IH) (simp_all add: upd_queue_def store_state_def)
      then show ?thesis
        using k e b ne Suc.prems(4,8) xs True compact_post_move [of q i j idx ys e w] False
        by (simp add: Let_def modify_state_def load_state_def)
    next
      case stay: False
      then have "compact_post q (Suc i) (Suc j) idx ys w (rq_compact q n (Suc i) k (Suc j) w)"
        using IH_prems by (intro Suc.IH) simp_all
      then show ?thesis
        using stay k e b ne Suc.prems(3,4,8) xs compact_post_stay [of q i idx ys w _ e b] False
        by (simp add: Let_def)
    qed
  qed
qed

end
