(* ===== verification/Mpi_Queue_Inv.thy ===== *)
theory Mpi_Queue_Inv
  imports Mpi_Request_Queue
begin

text \<open>
  The invariant of the MPI request queues and its preservation by every queue operation, callbacks
  included.  A request waits in at most one queue, holds its self reference while it waits, and knows
  its position in the vector, and its MPI handle is active.  The callbacks are those of the user; the contract they have to keep is
  \<open>callback_ok\<close>, and the operations of the library themselves keep it.
\<close>

section \<open>The environment of the library\<close>

text \<open>What the library's own bookkeeping does not touch: the state of the interface above it and the
  outside state.\<close>

type_synonym 'm env = "api_state \<times> 'm"

definition env :: "('c, 'm) mpi_world \<Rightarrow> 'm env" where
  "env w = (api w, mpi_state w)"

lemma env_simps [simp]:
  "env (upd_queue q f w) = env w" "env (upd_shared g w) = env w" "env (w\<lparr>heap := h\<rparr>) = env w"
  "env (w\<lparr>counters := c\<rparr>) = env w" "env (w\<lparr>handles := n\<rparr>) = env w"
  "env (w\<lparr>queue := qs\<rparr>) = env w" "env (w\<lparr>m_req_queue := sq\<rparr>) = env w"
  "env (w\<lparr>mpi_state := m\<rparr>) = (api w, m)"
  by (simp_all add: env_def upd_queue_def upd_shared_def)

section \<open>Invariant\<close>

text \<open>The contents of the queues: \<open>None\<close> is the shared queue of the context.\<close>

fun qlist :: "('c, 'm) mpi_world \<Rightarrow> qid option \<Rightarrow> ptr list" where
  "qlist w None = sq_queue (m_req_queue w)"
| "qlist w (Some q) = m_queue (queue w q)"

definition queued :: "('c, 'm) mpi_world \<Rightarrow> ptr \<Rightarrow> bool" where
  "queued w p \<longleftrightarrow> (\<exists>a. p \<in> set (qlist w a))"

definition queues_inv :: "('c, 'm) mpi_world \<Rightarrow> bool" where
  "queues_inv w \<longleftrightarrow>
     (\<forall>a. distinct (qlist w a)) \<and>
     (\<forall>a b. a \<noteq> b \<longrightarrow> set (qlist w a) \<inter> set (qlist w b) = {}) \<and>
     (\<forall>p. queued w p \<longrightarrow> (\<exists>b. heap w p = Some b \<and> waiting (m_t b) p)) \<and>
     (\<forall>q i b. i < length (m_queue (queue w q)) \<and> heap w (m_queue (queue w q) ! i) = Some b \<longrightarrow>
        m_index (m_t b) = i \<and> m_req (m_t b) \<noteq> MPI_REQUEST_NULL)"

lemma queues_invI:
  assumes "\<And>a. distinct (qlist w a)"
    and "\<And>a b. a \<noteq> b \<Longrightarrow> set (qlist w a) \<inter> set (qlist w b) = {}"
    and "\<And>p. queued w p \<Longrightarrow> \<exists>b. heap w p = Some b \<and> waiting (m_t b) p"
    and "\<And>q i b. i < length (m_queue (queue w q)) \<Longrightarrow> heap w (m_queue (queue w q) ! i) = Some b \<Longrightarrow>
      m_index (m_t b) = i \<and> m_req (m_t b) \<noteq> MPI_REQUEST_NULL"
  shows "queues_inv w"
  using assms unfolding queues_inv_def by blast

definition mpi_inv :: "('c, 'm) mpi_world \<Rightarrow> bool" where
  "mpi_inv w \<longleftrightarrow> store_inv w \<and> queues_inv w"

text \<open>A request whose completion is being processed: it has left its queue and its callback has not
  returned yet.\<close>

definition inflight :: "('c, 'm) mpi_world \<Rightarrow> ptr \<Rightarrow> bool" where
  "inflight w p \<longleftrightarrow> pending w p \<and> \<not> queued w p"

text \<open>What a callback, or a call of the library made from one, leaves alone: the guards against
  recursive polling, the recursion depth, and the requests whose completion is being processed.\<close>

definition keeps_state :: "('c, 'm) mpi_world \<Rightarrow> ('c, 'm) mpi_world \<Rightarrow> ptr \<Rightarrow> bool" where
  "keeps_state w v p \<longleftrightarrow> inflight v p \<and> map_option m_t (heap v p) = map_option m_t (heap w p)"

definition cb_frame :: "ptr set \<Rightarrow> ('c, 'm) mpi_world \<Rightarrow> ('c, 'm) mpi_world \<Rightarrow> bool" where
  "cb_frame S w v \<longleftrightarrow>
     (\<forall>q. in_progress (queue v q) = in_progress (queue w q)) \<and>
     sq_in_progress (m_req_queue v) = sq_in_progress (m_req_queue w) \<and>
     sq_local_queue (m_req_queue v) = sq_local_queue (m_req_queue w) \<and>
     m_recursion_depth v = m_recursion_depth w \<and>
     ctx_recursion_depth v = ctx_recursion_depth w \<and>
     (\<forall>p. inflight w p \<and> p \<notin> S \<longrightarrow> keeps_state w v p)"

text \<open>\<open>S\<close> are the requests the call itself completes; a callback has none.\<close>

definition callback_ok :: "('c, 'm) callback \<Rightarrow> bool" where
  "callback_ok cbk \<longleftrightarrow>
     (\<forall>c r t w. mpi_inv w \<longrightarrow> mpi_inv (cbk c r t w) \<and> cb_frame {} w (cbk c r t w))"

lemma cb_frame_refl [simp]: "cb_frame S w w"
  by (simp add: cb_frame_def keeps_state_def)

lemma cb_frame_trans: "cb_frame S u v \<Longrightarrow> cb_frame T v w \<Longrightarrow> cb_frame (S \<union> T) u w"
  by (simp add: cb_frame_def keeps_state_def)

lemma cb_frame_mono: "cb_frame S w v \<Longrightarrow> S \<subseteq> T \<Longrightarrow> cb_frame T w v"
  by (auto simp: cb_frame_def)

subsection \<open>Frame rules\<close>

text \<open>The queue invariant only looks at the queues and at the states of the queued requests.\<close>

lemma queues_inv_cong:
  assumes "queues_inv w" "qlist v = qlist w"
    and "\<And>p. queued w p \<Longrightarrow> map_option m_t (heap v p) = map_option m_t (heap w p)"
  shows "queues_inv v"
proof -
  have q: "queued v = queued w"
    using assms(2) by (simp add: queued_def fun_eq_iff)
  have ql: "m_queue (queue v x) = m_queue (queue w x)" for x
    using assms(2) by (metis qlist.simps(2))
  have st: "\<exists>c. heap w p = Some c \<and> m_t c = m_t b" if "queued w p" "heap v p = Some b" for p b
    using assms(3) [OF that(1)] that(2) by (cases "heap w p") auto
  have st': "\<exists>c. heap v p = Some c \<and> m_t c = m_t b" if "queued w p" "heap w p = Some b" for p b
    using assms(3) [OF that(1)] that(2) by (cases "heap v p") auto
  have ix: "m_index (m_t b) = i \<and> m_req (m_t b) \<noteq> MPI_REQUEST_NULL"
    if "i < length (m_queue (queue w x))" "heap v (m_queue (queue w x) ! i) = Some b" for x i b
  proof -
    have "queued w (m_queue (queue w x) ! i)"
      using that(1) by (metis nth_mem qlist.simps(2) queued_def)
    with st that assms(1) show ?thesis
      unfolding queues_inv_def by metis
  qed
  have wt: "\<exists>b. heap v p = Some b \<and> waiting (m_t b) p" if "queued w p" for p
    using assms(1) st' [OF that] that unfolding queues_inv_def by metis
  show ?thesis
    using assms(1) ix wt unfolding queues_inv_def q ql assms(2) by blast
qed

lemma queued_waiting:
  "mpi_inv w \<Longrightarrow> queued w p \<Longrightarrow> \<exists>b. heap w p = Some b \<and> waiting (m_t b) p"
  by (simp add: mpi_inv_def queues_inv_def)

lemma qlist_queued: "p \<in> set (qlist w a) \<Longrightarrow> queued w p"
  by (auto simp: queued_def)

lemma queued_iff:
  "queued w p \<longleftrightarrow> p \<in> set (sq_queue (m_req_queue w)) \<or> (\<exists>q. p \<in> set (m_queue (queue w q)))"
  unfolding queued_def by (metis not_Some_eq qlist.simps)

lemma queue_index:
  assumes "mpi_inv w" "i < length (m_queue (queue w q))" "p = m_queue (queue w q) ! i"
  obtains b where "heap w p = Some b" "waiting (m_t b) p" "m_index (m_t b) = i"
    "m_req (m_t b) \<noteq> MPI_REQUEST_NULL"
proof -
  have "queued w p"
    using assms(2,3) qlist_queued [of p w "Some q"] by simp
  with assms that show thesis
    by (auto simp: mpi_inv_def queues_inv_def)
qed

text \<open>An update of fields outside the store and the queues' contents changes nothing.\<close>

lemma mpi_inv_cong:
  assumes "heap v = heap w" "counters v = counters w" "handles v = handles w" "qlist v = qlist w"
  shows "mpi_inv v \<longleftrightarrow> mpi_inv w"
proof -
  have "queues_inv v \<longleftrightarrow> queues_inv w"
    using queues_inv_cong [of w v] queues_inv_cong [of v w] assms by auto
  with store_inv_cong [OF assms(1-3)] show ?thesis
    by (simp add: mpi_inv_def)
qed

lemma inflight_cong:
  assumes "\<And>q. map_option m_t (heap v q) = map_option m_t (heap w q)" "qlist v = qlist w"
  shows "inflight v p \<longleftrightarrow> inflight w p"
proof -
  have "pending v p \<longleftrightarrow> pending w p"
    using assms(1) [of p] by (auto simp: pending_def split: option.splits)
  with assms(2) show ?thesis
    by (simp add: inflight_def queued_def)
qed

section \<open>Completing one request\<close>

lemma completed_world [simp]:
  fixes w :: "('c, 'm) mpi_world"
  shows "env (completed f p w) = env w" "queue (completed f p w) = queue w" "m_req_queue (completed f p w) = m_req_queue w"
    "m_recursion_depth (completed f p w) = m_recursion_depth w"
    "ctx_recursion_depth (completed f p w) = ctx_recursion_depth w"
    "mpi_state (completed f p w) = mpi_state w" "api (completed f p w) = api w"
  by (simp_all add: completed_def env_def split: option.splits)

lemma store_state_world [simp]:
  fixes w :: "('c, 'm) mpi_world"
  shows "env (store_state p f w) = env w" "queue (store_state p f w) = queue w" "m_req_queue (store_state p f w) = m_req_queue w"
    "m_recursion_depth (store_state p f w) = m_recursion_depth w"
    "ctx_recursion_depth (store_state p f w) = ctx_recursion_depth w"
    "mpi_state (store_state p f w) = mpi_state w" "api (store_state p f w) = api w"
  by (simp_all add: store_state_def env_def)

lemma qlist_eqI:
  assumes "\<And>q. m_queue (queue v q) = m_queue (queue w q)" "sq_queue (m_req_queue v) = sq_queue (m_req_queue w)"
  shows "qlist v = qlist w"
proof
  fix a
  show "qlist v a = qlist w a"
    using assms by (cases a) auto
qed

text \<open>A write to a request that is in no queue.\<close>

lemma outside_queues:
  fixes w v :: "('c, 'm) mpi_world"
  assumes "mpi_inv w" "store_inv v" "\<not> queued w p"
    and "\<And>q. q \<noteq> p \<Longrightarrow> heap v q = heap w q" "queue v = queue w" "m_req_queue v = m_req_queue w"
    and "m_recursion_depth v = m_recursion_depth w" "ctx_recursion_depth v = ctx_recursion_depth w"
  shows "mpi_inv v \<and> cb_frame {p} w v"
proof -
  have ql: "qlist v = qlist w"
    using assms(5,6) by (intro qlist_eqI) auto
  have "heap v q = heap w q" if "queued w q" for q
    using that assms(3,4) by metis
  then have "queues_inv v"
    using queues_inv_cong [OF _ ql] assms(1) by (simp add: mpi_inv_def)
  moreover have "keeps_state w v q" if "inflight w q" "q \<noteq> p" for q
    using that assms(4) ql by (simp add: keeps_state_def inflight_def pending_def queued_def)
  ultimately show ?thesis
    using assms(2,5-8) by (simp add: mpi_inv_def cb_frame_def)
qed

lemma complete_request_ok:
  assumes inv: "mpi_inv w" and cb: "callback_ok cbk"
    and p: "inflight w p" "heap w p = Some b" "m_self_ptr (m_t b) = Some p"
  obtains v where "complete_request cbk p w = Inr v" "mpi_inv v" "cb_frame {p} w v"
proof -
  define w1 where "w1 = store_state p (m_self_ptr_update (\<lambda>_. None)) w"
  define w2 where "w2 = cbk (m_cb (m_t b)) (m_rank (m_t b)) (m_tag (m_t b)) w1"
  define w3 where "w3 = completed (m_ready_update (\<lambda>_. True)) p w2"
  have "store_inv w1"
    unfolding w1_def using inv by (intro store_inv_store_state) (simp_all add: mpi_inv_def)
  then have 1: "mpi_inv w1" "cb_frame {p} w w1"
    using outside_queues [OF inv, of w1 p] p(1) by (auto simp: w1_def inflight_def store_state_def)
  have "qlist w1 = qlist w"
    by (rule qlist_eqI) (simp_all add: w1_def)
  then have "queued w1 p = queued w p"
    by (simp add: queued_def)
  moreover have "pending w1 p"
    using p by (simp add: w1_def inflight_def pending_def store_state_def)
  ultimately have fl: "inflight w1 p"
    using p(1) by (simp add: inflight_def)
  have 2: "mpi_inv w2" "cb_frame {} w1 w2"
    using cb 1(1) unfolding callback_ok_def w2_def by blast+
  with fl have p2: "inflight w2 p" "map_option m_t (heap w2 p) = map_option m_t (heap w1 p)"
    by (auto simp: cb_frame_def keeps_state_def)
  then obtain b2 where b2: "heap w2 p = Some b2" "\<not> m_ready (m_t b2)"
    by (auto simp: inflight_def pending_heap)
  have 3: "complete_request cbk p w = Inr w3"
    unfolding w3_def w2_def
    by (rule complete_request_eq [OF p(2,3) w1_def]) (use b2 in \<open>simp add: w2_def\<close>)
  have "store_inv w3"
    unfolding w3_def using 2(1) b2 by (intro store_inv_completed) (simp_all add: mpi_inv_def)
  then have "mpi_inv w3 \<and> cb_frame {p} w2 w3"
    using outside_queues [OF 2(1), of w3 p] p2(1)
    by (simp add: w3_def inflight_def completed_other)
  then show thesis
    using that [OF 3] cb_frame_trans [OF cb_frame_trans [OF 1(2) 2(2)]] by (metis Un_absorb Un_empty_right)
qed

text \<open>The loop over the ready requests.\<close>

definition ready_to_complete :: "ptr list \<Rightarrow> ('c, 'm) mpi_world \<Rightarrow> bool" where
  "ready_to_complete ps w \<longleftrightarrow>
     distinct ps \<and> (\<forall>p \<in> set ps. inflight w p \<and> (\<exists>b. heap w p = Some b \<and> m_self_ptr (m_t b) = Some p))"

lemma complete_all_ok:
  assumes "mpi_inv w" "callback_ok cbk" "ready_to_complete ps w"
  shows "\<exists>v. fold_res (complete_request cbk) ps w = Inr v \<and> mpi_inv v \<and> cb_frame (set ps) w v"
  using assms(1,3)
proof (induction ps arbitrary: w)
  case (Cons p ps)
  then obtain b where "inflight w p" "heap w p = Some b" "m_self_ptr (m_t b) = Some p"
    by (auto simp: ready_to_complete_def)
  then obtain v where v: "complete_request cbk p w = Inr v" "mpi_inv v" "cb_frame {p} w v"
    using complete_request_ok [OF Cons.prems(1) assms(2)] by metis
  have "ready_to_complete ps v"
    unfolding ready_to_complete_def
  proof (intro conjI ballI)
    fix x assume x: "x \<in> set ps"
    then have k: "keeps_state w v x" and "\<exists>b. heap w x = Some b \<and> m_self_ptr (m_t b) = Some x"
      using Cons.prems(2) v(3) by (auto simp: ready_to_complete_def cb_frame_def)
    then show "inflight v x" "\<exists>b. heap v x = Some b \<and> m_self_ptr (m_t b) = Some x"
      by (auto simp: keeps_state_def)
  qed (use Cons.prems(2) in \<open>simp add: ready_to_complete_def\<close>)
  with Cons.IH v(2) obtain u where "fold_res (complete_request cbk) ps v = Inr u" "mpi_inv u"
      "cb_frame (set ps) v u"
    by blast
  then show ?case
    using v cb_frame_trans [OF v(3)] by simp
qed simp

section \<open>\<open>request_queue::progress\<close>\<close>

text \<open>\<open>MPI_Testsome\<close> on an array with an active handle reports in range positions in increasing
  order.  The standard leaves the order open; the loop of \<open>progress\<close> depends on it.\<close>

definition testsome_ok :: "'m mpi_lib \<Rightarrow> bool" where
  "testsome_ok mpi \<longleftrightarrow>
     (\<forall>hs m. (\<exists>h \<in> set hs. h \<noteq> MPI_REQUEST_NULL) \<longrightarrow>
        (\<exists>hs' idx m'. MPI_Testsome mpi hs m = ((0, hs', int (length idx), idx), m') \<and>
           sorted_wrt (<) idx \<and> set idx \<subseteq> {0..<int (length hs)}))"

lemma ready_kept_disjoint:
  assumes "distinct xs"
  shows "set (ready_of idx i xs) \<inter> set (kept_of idx i xs) = {}" "distinct (ready_of idx i xs)"
    "distinct (kept_of idx i xs)"
proof -
  have "distinct (ready_of idx i xs @ kept_of idx i xs)"
    using assms ready_kept_mset [of idx i xs] by (metis mset_append mset_eq_imp_distinct_iff)
  then show "set (ready_of idx i xs) \<inter> set (kept_of idx i xs) = {}" "distinct (ready_of idx i xs)"
    "distinct (kept_of idx i xs)"
    by auto
qed

lemma set_ready_kept: "set (ready_of idx i xs) \<union> set (kept_of idx i xs) = set xs"
  using ready_kept_mset [of idx i xs] by (metis set_mset_mset set_mset_union)

text \<open>Replacing the contents of one queue by a sublist of it, renumbered.\<close>

lemma mpi_inv_renumbered:
  fixes w v :: "('c, 'm) mpi_world"
  assumes inv: "mpi_inv w"
    and v: "counters v = counters w" "handles v = handles w" "m_req_queue v = m_req_queue w"
    and ks: "\<And>x. m_queue (queue v x) = (if x = q then ks else m_queue (queue w x))"
    and sub: "distinct ks" "set ks \<subseteq> set (m_queue (queue w q))"
    and H: "\<And>p. p \<notin> set ks \<Longrightarrow> heap v p = heap w p"
      "\<And>t. t < length ks \<Longrightarrow> heap v (ks ! t) =
        map_option (\<lambda>b. b\<lparr>m_t := (m_t b)\<lparr>m_index := t\<rparr>\<rparr>) (heap w (ks ! t))"
  shows "mpi_inv v"
proof -
  have H': "\<exists>t. heap v p = map_option (\<lambda>b. b\<lparr>m_t := (m_t b)\<lparr>m_index := t\<rparr>\<rparr>) (heap w p)" if "p \<in> set ks" for p
    using that H(2) by (auto simp: in_set_conv_nth)
  have "same_base w v p" for p
    using H(1) [of p] H' [of p]
    by (cases "p \<in> set ks") (auto simp: same_base_def option.map_comp comp_def)
  then have st: "store_inv v"
    using inv v by (intro store_inv_same [of w v]) (simp_all add: mpi_inv_def)
  have ql: "qlist v a = (if a = Some q then ks else qlist w a)" for a
    using ks v(3) by (cases a) auto
  have sub': "set (qlist v a) \<subseteq> set (qlist w a)" for a
    using sub(2) by (simp add: ql)
  have qi: "queues_inv w"
    using inv by (simp add: mpi_inv_def)
  have dj: "set (qlist w a) \<inter> set (qlist w b) = {}" if "a \<noteq> b" for a b
    using qi that unfolding queues_inv_def by blast
  have wt: "\<exists>b. heap v p = Some b \<and> waiting (m_t b) p" if "queued v p" for p
  proof -
    have "queued w p"
      using that sub' by (auto simp: queued_def)
    then obtain b where "heap w p = Some b" "waiting (m_t b) p"
      using queued_waiting [OF inv] by blast
    then show ?thesis
      using H(1) [of p] H' [of p] by (cases "p \<in> set ks") (auto simp: waiting_def)
  qed
  have ix: "m_index (m_t b) = i \<and> m_req (m_t b) \<noteq> MPI_REQUEST_NULL"
    if i: "i < length (m_queue (queue v x))" and b: "heap v (m_queue (queue v x) ! i) = Some b" for x i b
  proof (cases "x = q")
    case True
    then have "ks ! i \<in> set (m_queue (queue w q))"
      using i ks sub(2) by auto
    then obtain j where "j < length (m_queue (queue w q))" "ks ! i = m_queue (queue w q) ! j"
      by (metis in_set_conv_nth)
    then obtain c where "heap w (ks ! i) = Some c" "m_req (m_t c) \<noteq> MPI_REQUEST_NULL"
      using queue_index [OF inv] by metis
    with True i b ks H(2) [of i] show ?thesis
      by auto
  next
    case False
    then have "m_queue (queue w x) ! i \<notin> set ks"
      using i ks dj [of "Some x" "Some q"] sub(2) by (auto dest: nth_mem)
    with False i b ks H(1) qi show ?thesis
      unfolding queues_inv_def by metis
  qed
  have "queues_inv v"
  proof (rule queues_invI)
    show "distinct (qlist v a)" for a
      using sub(1) qi by (simp add: ql queues_inv_def)
    show "set (qlist v a) \<inter> set (qlist v b) = {}" if "a \<noteq> b" for a b
      using dj [OF that] sub' [of a] sub' [of b] by blast
  qed (use wt ix in blast)+
  with st show ?thesis
    by (simp add: mpi_inv_def)
qed

text \<open>The compaction loop and the \<open>erase\<close> after it take the ready requests out of the queue.\<close>

lemma rq_collect:
  fixes w :: "('c, 'm) mpi_world"
  assumes inv: "mpi_inv w" and xs: "m_queue (queue w q) = xs" "m_ready_queue (queue w q) = []"
    and idx: "indices (queue w q) = idx @ int (length xs) # rest" "sorted_wrt (<) idx"
      "set idx \<subseteq> {0..<int (length xs)}"
  obtains H Q where
    "rq_compact q (length xs) 0 0 0 w = Inr (w\<lparr>heap := H, queue := (queue w)(q := (queue w q)
       \<lparr>m_queue := Q, m_ready_queue := ready_of idx 0 xs\<rparr>)\<rparr>)"
    "take (length Q - length idx) Q = kept_of idx 0 xs"
    "mpi_inv (w\<lparr>heap := H, queue := (queue w)(q := (queue w q)
       \<lparr>m_queue := kept_of idx 0 xs, m_ready_queue := ready_of idx 0 xs\<rparr>)\<rparr>)"
    "\<And>p. p \<notin> set (kept_of idx 0 xs) \<Longrightarrow> H p = heap w p"
proof -
  have dx: "distinct xs"
    using inv xs(1) by (metis mpi_inv_def qlist.simps(2) queues_inv_def)
  have "compact_post q 0 0 idx xs w (rq_compact q (length xs) 0 0 0 w)"
  proof (rule rq_compact_correct)
    show "\<exists>b. heap w (xs ! t) = Some b \<and> m_index (m_t b) = 0 + t" if "t < length xs" for t
      using queue_index [OF inv, of t q] that xs(1) by (metis add_0)
  qed (use assms dx in simp_all)
  then obtain Q H where QH: "rq_compact q (length xs) 0 0 0 w = Inr (w\<lparr>heap := H,
      queue := (queue w)(q := (queue w q)\<lparr>m_queue := Q, m_ready_queue := ready_of idx 0 xs\<rparr>)\<rparr>)"
      "length Q = length xs" "take (length (kept_of idx 0 xs)) Q = kept_of idx 0 xs"
      "\<forall>p. p \<notin> set (kept_of idx 0 xs) \<longrightarrow> H p = heap w p"
      "\<forall>t < length (kept_of idx 0 xs). H (kept_of idx 0 xs ! t) =
         map_option (\<lambda>b. b\<lparr>m_t := (m_t b)\<lparr>m_index := t\<rparr>\<rparr>) (heap w (kept_of idx 0 xs ! t))"
    unfolding compact_post_def using xs by auto
  have "length (kept_of idx 0 xs) = length Q - length idx"
    using ready_kept_length [of idx 0 xs] length_ready_of [OF idx(2), of 0 xs] idx(3) QH(2) by simp
  then have tk: "take (length Q - length idx) Q = kept_of idx 0 xs"
    using QH(3) by simp
  have "mpi_inv (w\<lparr>heap := H, queue := (queue w)(q := (queue w q)
       \<lparr>m_queue := kept_of idx 0 xs, m_ready_queue := ready_of idx 0 xs\<rparr>)\<rparr>)"
    by (rule mpi_inv_renumbered [OF inv, where q = q and ks = "kept_of idx 0 xs"])
       (use QH ready_kept_disjoint(3) [OF dx] set_kept_of [of idx 0 xs] xs(1) in simp_all)
  with that QH(1,4) tk show thesis
    by blast
qed

lemma ready_to_complete_collected:
  fixes w :: "('c, 'm) mpi_world"
  assumes inv: "mpi_inv w" and xs: "m_queue (queue w q) = xs"
    and v: "\<And>x. m_queue (queue v x) = (if x = q then kept_of idx 0 xs else m_queue (queue w x))"
      "m_req_queue v = m_req_queue w"
      "\<And>p. p \<notin> set (kept_of idx 0 xs) \<Longrightarrow> heap v p = heap w p"
  shows "ready_to_complete (ready_of idx 0 xs) v"
    and "\<And>p. inflight w p \<Longrightarrow> keeps_state w v p"
    and "\<And>p. inflight w p \<Longrightarrow> p \<notin> set (ready_of idx 0 xs)"
proof -
  have qi: "queues_inv w"
    using inv by (simp add: mpi_inv_def)
  then have dx: "distinct xs"
    using xs by (metis qlist.simps(2) queues_inv_def)
  have ql: "qlist v a = (if a = Some q then kept_of idx 0 xs else qlist w a)" for a
    using v(1,2) by (cases a) auto
  have qv: "queued v p \<Longrightarrow> queued w p" for p
    using set_kept_of [of idx 0 xs] xs by (auto simp: queued_def ql split: if_splits) (metis qlist.simps(2) subsetD)+
  show "keeps_state w v p" if "inflight w p" for p
  proof -
    have "\<not> queued v p"
      using that qv by (auto simp: inflight_def)
    moreover from this have "p \<notin> set (kept_of idx 0 xs)"
      using qlist_queued [of p v "Some q"] by (auto simp: ql simp del: qlist.simps)
    ultimately show ?thesis
      using that v(3) by (simp add: keeps_state_def inflight_def pending_def)
  qed
  have rq: "queued w p" if "p \<in> set (ready_of idx 0 xs)" for p
    using that set_ready_kept [of idx 0 xs] xs qlist_queued [of p w "Some q"] by auto
  then show "p \<notin> set (ready_of idx 0 xs)" if "inflight w p" for p
    using that by (auto simp: inflight_def)
  show "ready_to_complete (ready_of idx 0 xs) v"
    unfolding ready_to_complete_def
  proof (intro conjI ballI)
    fix p assume p: "p \<in> set (ready_of idx 0 xs)"
    then have nk: "p \<notin> set (kept_of idx 0 xs)" and px: "p \<in> set xs"
      using ready_kept_disjoint(1) [OF dx] set_ready_kept by fastforce+
    have "p \<notin> set (qlist w a)" if "a \<noteq> Some q" for a
      using qi that px xs unfolding queues_inv_def by (metis disjoint_iff qlist.simps(2))
    then have "\<not> queued v p"
      using nk by (auto simp: queued_def ql split: if_splits)
    moreover obtain b where "heap w p = Some b" "waiting (m_t b) p"
      using queued_waiting [OF inv rq [OF p]] by blast
    ultimately show "inflight v p" "\<exists>b. heap v p = Some b \<and> m_self_ptr (m_t b) = Some p"
      using v(3) [OF nk] by (auto simp: inflight_def pending_def waiting_def)
  qed (use ready_kept_disjoint [OF dx] in simp)
qed

text \<open>\<open>progress\<close> up to the callbacks: \<open>v\<close> is the state in which the ready requests have left the queue
  and none of their callbacks has run.\<close>

definition rq_polled ::
    "qid \<Rightarrow> int list \<Rightarrow> 'm \<Rightarrow> ('c, 'm) mpi_world \<Rightarrow> ('c, 'm) mpi_world \<Rightarrow> bool" where
  "rq_polled q idx m w v \<longleftrightarrow>
     mpi_inv v \<and> env v = (api w, m) \<and> counters v = counters w \<and> handles v = handles w \<and>
     m_req_queue v = m_req_queue w \<and> m_recursion_depth v = m_recursion_depth w \<and>
     ctx_recursion_depth v = ctx_recursion_depth w \<and>
     (\<forall>x. m_queue (queue v x) = (if x = q then kept_of idx 0 (m_queue (queue w q)) else m_queue (queue w x))) \<and>
     (\<forall>x. in_progress (queue v x) = (x = q \<or> in_progress (queue w x))) \<and>
     (\<forall>p. p \<notin> set (kept_of idx 0 (m_queue (queue w q))) \<longrightarrow> heap v p = heap w p) \<and>
     ready_to_complete (ready_of idx 0 (m_queue (queue w q))) v \<and>
     (\<forall>p. inflight w p \<longrightarrow> keeps_state w v p \<and> p \<notin> set (ready_of idx 0 (m_queue (queue w q))))"

lemma rq_progress_unfold:
  fixes w :: "('c, 'm) mpi_world"
  assumes inv: "mpi_inv w" and np: "\<not> in_progress (queue w q)" "m_queue (queue w q) \<noteq> []"
    and ts: "MPI_Testsome mpi (map (\<lambda>p. m_req (m_t (the (heap w p)))) (m_queue (queue w q))) (mpi_state w) =
      ((0, hs', int (length idx), idx), m)"
    and idx: "sorted_wrt (<) idx" "set idx \<subseteq> {0..<int (length (m_queue (queue w q)))}" "idx \<noteq> []"
  obtains v where "rq_polled q idx m w v"
    "rq_progress mpi cbk q w =
       bind_res (fold_res (complete_request cbk) (ready_of idx 0 (m_queue (queue w q))) v)
         (\<lambda>u. Inr (length idx, upd_queue q (in_progress_update (\<lambda>_. False)) u))"
proof -
  define xs where "xs = m_queue (queue w q)"
  define w1 where "w1 = upd_queue q (\<lambda>rq. rq\<lparr>in_progress := True, m_ready_queue := [], reqs := [],
      indices := resize (length xs + 1) 0 (indices rq)\<rparr>) w"
  define w2 where "w2 = upd_queue q (\<lambda>rq. rq\<lparr>reqs := hs',
      indices := (overwrite idx (indices rq))[length idx := int (length xs)]\<rparr>) (w1\<lparr>mpi_state := m\<rparr>)"
  have len: "length idx \<le> length xs"
    using length_ready_of [OF idx(1), of 0 xs] idx(2) ready_kept_length [of idx 0 xs]
    by (simp add: xs_def)
  have ix: "indices (queue w2 q) = idx @ int (length xs) # drop (Suc (length idx)) (indices (queue w1 q))"
    and q2: "m_queue (queue w2 q) = xs" "m_ready_queue (queue w2 q) = []"
    using len by (auto simp: w2_def w1_def upd_queue_def overwrite_def xs_def list_update_append
        Cons_nth_drop_Suc [symmetric])
  have inv2: "mpi_inv w2"
    using inv by (subst mpi_inv_cong [of w2 w])
      (auto intro!: qlist_eqI simp: w2_def w1_def upd_queue_def)
  obtain H Q where HQ:
    "rq_compact q (length xs) 0 0 0 w2 = Inr (w2\<lparr>heap := H, queue := (queue w2)(q := (queue w2 q)
       \<lparr>m_queue := Q, m_ready_queue := ready_of idx 0 xs\<rparr>)\<rparr>)"
    "take (length Q - length idx) Q = kept_of idx 0 xs"
    "mpi_inv (w2\<lparr>heap := H, queue := (queue w2)(q := (queue w2 q)
       \<lparr>m_queue := kept_of idx 0 xs, m_ready_queue := ready_of idx 0 xs\<rparr>)\<rparr>)"
    "\<And>p. p \<notin> set (kept_of idx 0 xs) \<Longrightarrow> H p = heap w2 p"
    using rq_collect [OF inv2 q2 ix idx(1)] idx(2) unfolding xs_def by metis
  define v where "v = w2\<lparr>heap := H, queue := (queue w2)(q := (queue w2 q)
       \<lparr>m_queue := kept_of idx 0 xs, m_ready_queue := ready_of idx 0 xs\<rparr>)\<rparr>"
  have v: "m_queue (queue v x) = (if x = q then kept_of idx 0 xs else m_queue (queue w x))"
      "in_progress (queue v x) = (x = q \<or> in_progress (queue w x))" for x
    by (simp_all add: v_def w2_def w1_def upd_queue_def)
  have hv: "heap v p = heap w p" if "p \<notin> set (kept_of idx 0 xs)" for p
    using HQ(4) [OF that] by (simp add: v_def w2_def w1_def upd_queue_def)
  have vv: "m_req_queue v = m_req_queue w" "mpi_inv v" "env v = (api w, m)" "counters v = counters w"
      "handles v = handles w" "m_recursion_depth v = m_recursion_depth w"
      "ctx_recursion_depth v = ctx_recursion_depth w"
    using HQ(3) by (simp_all add: v_def) (simp_all add: w2_def w1_def upd_queue_def)
  have "rq_polled q idx m w v"
    using v hv vv ready_to_complete_collected [OF inv xs_def [symmetric], of v idx]
    by (auto simp: rq_polled_def xs_def)
  moreover have "rq_progress mpi cbk q w =
       bind_res (fold_res (complete_request cbk) (ready_of idx 0 xs) v)
         (\<lambda>u. Inr (length idx, upd_queue q (in_progress_update (\<lambda>_. False)) u))"
  proof -
    have "load_state e w1 = Inr (m_t (the (heap w e)))" if "e \<in> set xs" for e
      using queued_waiting [OF inv qlist_queued [of e w "Some q"]] that
      by (auto simp: xs_def load_state_def w1_def upd_queue_def)
    then have ld: "map_res (\<lambda>e. bind_res (load_state e w1) (\<lambda>r. Inr (m_req r))) xs =
        Inr (map (\<lambda>p. m_req (m_t (the (heap w p)))) xs)"
      by (intro map_res_Inr) simp
    have eq1: "upd_queue q (\<lambda>rq. rq\<lparr>m_ready_queue := [], reqs := [],
        indices := resize (Suc (length xs)) 0 (indices rq)\<rparr>)
        (upd_queue q (in_progress_update (\<lambda>_. True)) w) = w1"
      by (simp add: w1_def upd_queue_def)
    have eq2: "upd_queue q (indices_update (\<lambda>ys. ys[length idx := int (length xs)]))
        (upd_queue q (\<lambda>rq. rq\<lparr>reqs := hs', indices := overwrite idx (indices rq)\<rparr>)
          (w1\<lparr>mpi_state := m\<rparr>)) = w2"
      by (simp add: w2_def upd_queue_def comp_def)
    have lr: "length (ready_of idx 0 xs) = length idx"
      using length_ready_of [OF idx(1), of 0 xs] idx(2) by (simp add: xs_def)
    have eq3: "upd_queue q (m_queue_update (\<lambda>ys. take (length ys - length idx) ys))
        (w2\<lparr>heap := H, queue := (queue w2)(q := (queue w2 q)
          \<lparr>m_queue := Q, m_ready_queue := ready_of idx 0 xs\<rparr>)\<rparr>) = v"
      using HQ(2) by (cases "queue w2 q") (simp add: v_def upd_queue_def comp_def)
    have sz: "rq_size q (upd_queue q (in_progress_update (\<lambda>_. True)) w) = length xs" "xs \<noteq> []"
        "m_queue (queue w1 q) = xs" "mpi_state w1 = mpi_state w"
      using np(2) by (simp_all add: rq_size_def upd_queue_def xs_def w1_def)
    show ?thesis
      using np(1) ts idx(3) len lr HQ(1)
      by (simp add: rq_progress_def Let_def sz eq1 ld check_mpi_def eq2 eq3 xs_def [symmetric])
  qed
  ultimately show thesis
    using that xs_def by blast
qed

text \<open>When \<open>MPI_Testsome\<close> reports nothing, or there is nothing to test, only bookkeeping changes.\<close>

definition rq_idle ::
    "'m \<Rightarrow> ('c, 'm) mpi_world \<Rightarrow> ('c, 'm) mpi_world \<Rightarrow> bool" where
  "rq_idle m w v \<longleftrightarrow>
     env v = (api w, m) \<and> heap v = heap w \<and> counters v = counters w \<and> handles v = handles w \<and>
     m_req_queue v = m_req_queue w \<and> m_recursion_depth v = m_recursion_depth w \<and>
     ctx_recursion_depth v = ctx_recursion_depth w \<and>
     (\<forall>x. m_queue (queue v x) = m_queue (queue w x) \<and> in_progress (queue v x) = in_progress (queue w x))"

lemma rq_idle_frame:
  assumes "rq_idle m w v"
  shows "mpi_inv v \<longleftrightarrow> mpi_inv w" "cb_frame {} w v"
proof -
  have ql: "qlist v = qlist w"
    using assms by (intro qlist_eqI) (auto simp: rq_idle_def)
  show "mpi_inv v \<longleftrightarrow> mpi_inv w"
    using assms ql by (intro mpi_inv_cong) (auto simp: rq_idle_def)
  have "inflight v p \<longleftrightarrow> inflight w p" for p
    using assms ql by (intro inflight_cong) (auto simp: rq_idle_def)
  then show "cb_frame {} w v"
    using assms by (simp add: cb_frame_def rq_idle_def keeps_state_def)
qed

lemma rq_progress_idle:
  assumes inv: "mpi_inv w"
  shows "in_progress (queue w q) \<Longrightarrow> rq_progress mpi cbk q w = Inr (0, w)"
    and "\<not> in_progress (queue w q) \<Longrightarrow> m_queue (queue w q) = [] \<Longrightarrow>
      \<exists>v. rq_progress mpi cbk q w = Inr (0, v) \<and> rq_idle (mpi_state w) w v"
    and "\<not> in_progress (queue w q) \<Longrightarrow> m_queue (queue w q) \<noteq> [] \<Longrightarrow>
      MPI_Testsome mpi (map (\<lambda>p. m_req (m_t (the (heap w p)))) (m_queue (queue w q))) (mpi_state w) =
        ((0, hs', 0, idx), m) \<Longrightarrow>
      \<exists>v. rq_progress mpi cbk q w = Inr (0, v) \<and> rq_idle m w v"
proof -
  show "in_progress (queue w q) \<Longrightarrow> rq_progress mpi cbk q w = Inr (0, w)"
    by (simp add: rq_progress_def)
  show "\<exists>v. rq_progress mpi cbk q w = Inr (0, v) \<and> rq_idle (mpi_state w) w v"
    if "\<not> in_progress (queue w q)" "m_queue (queue w q) = []"
    using that by (simp add: rq_progress_def rq_size_def upd_queue_def Let_def rq_idle_def) (simp add: env_def)
  show "\<exists>v. rq_progress mpi cbk q w = Inr (0, v) \<and> rq_idle m w v"
    if np: "\<not> in_progress (queue w q)" "m_queue (queue w q) \<noteq> []"
      and ts: "MPI_Testsome mpi (map (\<lambda>p. m_req (m_t (the (heap w p)))) (m_queue (queue w q))) (mpi_state w) =
        ((0, hs', 0, idx), m)"
  proof -
    have "map_res (\<lambda>e. bind_res (load_state e v) (\<lambda>r. Inr (m_req r))) (m_queue (queue w q)) =
        Inr (map (\<lambda>p. m_req (m_t (the (heap w p)))) (m_queue (queue w q)))" if "heap v = heap w"
      for v :: "('a, 'b) mpi_world"
    proof (rule map_res_Inr)
      fix e assume "e \<in> set (m_queue (queue w q))"
      then show "bind_res (load_state e v) (\<lambda>r. Inr (m_req r)) = Inr (m_req (m_t (the (heap w e))))"
        using queued_waiting [OF inv qlist_queued [of e w "Some q"]] that by (auto simp: load_state_def)
    qed
    with np ts show ?thesis
      by (simp add: rq_progress_def rq_size_def upd_queue_def Let_def rq_idle_def check_mpi_def)
  qed
qed

text \<open>\<open>progress\<close> always returns, keeps the invariant, and is itself something a callback may do.\<close>

lemma rq_progress_ok:
  assumes inv: "mpi_inv w" and cb: "callback_ok cbk" and ts: "testsome_ok mpi"
  shows "\<exists>n v. rq_progress mpi cbk q w = Inr (n, v) \<and> mpi_inv v \<and> cb_frame {} w v"
proof (cases "in_progress (queue w q) \<or> m_queue (queue w q) = []")
  case True
  then show ?thesis
    using rq_progress_idle(1,2) [OF inv, of q mpi cbk] inv rq_idle_frame
    by (metis cb_frame_refl)
next
  case False
  let ?hs = "map (\<lambda>p. m_req (m_t (the (heap w p)))) (m_queue (queue w q))"
  obtain b where "heap w (hd (m_queue (queue w q))) = Some b" "m_req (m_t b) \<noteq> MPI_REQUEST_NULL"
    using False queue_index [OF inv, of 0 q "hd (m_queue (queue w q))"] by (auto simp: hd_conv_nth)
  then have "\<exists>h \<in> set ?hs. h \<noteq> MPI_REQUEST_NULL"
    using False by (auto intro!: bexI [of _ "hd (m_queue (queue w q))"])
  then obtain hs' idx m where t: "MPI_Testsome mpi ?hs (mpi_state w) = ((0, hs', int (length idx), idx), m)"
      "sorted_wrt (<) idx" "set idx \<subseteq> {0..<int (length ?hs)}"
    using ts unfolding testsome_ok_def by blast
  show ?thesis
  proof (cases "idx = []")
    case True
    then obtain v where v: "rq_progress mpi cbk q w = Inr (0, v)" "rq_idle m w v"
      using t(1) False rq_progress_idle(3) [OF inv, of q mpi hs' idx m cbk] by auto
    with inv rq_idle_frame [OF v(2)] show ?thesis
      by simp
  next
    case ne: False
    obtain v where v: "rq_polled q idx m w v" "rq_progress mpi cbk q w =
       bind_res (fold_res (complete_request cbk) (ready_of idx 0 (m_queue (queue w q))) v)
         (\<lambda>u. Inr (length idx, upd_queue q (in_progress_update (\<lambda>_. False)) u))"
      using rq_progress_unfold [OF inv _ _ t(1,2) _ ne, of cbk] False t(3) by auto
    then obtain u where u: "fold_res (complete_request cbk) (ready_of idx 0 (m_queue (queue w q))) v = Inr u"
        "mpi_inv u" "cb_frame (set (ready_of idx 0 (m_queue (queue w q)))) v u"
      using complete_all_ok [OF _ cb] unfolding rq_polled_def by blast
    let ?u = "upd_queue q (in_progress_update (\<lambda>_. False)) u"
    have ql: "qlist ?u = qlist u"
      by (rule qlist_eqI) (simp_all add: upd_queue_def)
    have "mpi_inv ?u"
      using u(2) ql by (subst mpi_inv_cong) (simp_all add: upd_queue_def)
    moreover have ks: "keeps_state w ?u p" if "inflight w p" for p
    proof -
      have "inflight ?u p \<longleftrightarrow> inflight u p"
        using ql by (intro inflight_cong) (simp_all add: upd_queue_def)
      moreover
      have "keeps_state w v p" "p \<notin> set (ready_of idx 0 (m_queue (queue w q)))"
        using v(1) that by (auto simp: rq_polled_def)
      moreover from this have "keeps_state v u p"
        using u(3) by (simp add: cb_frame_def keeps_state_def)
      ultimately show ?thesis
        by (simp add: keeps_state_def upd_queue_def)
    qed
    have "cb_frame {} w ?u"
      unfolding cb_frame_def using v(1) u(3) False ks
      by (simp add: cb_frame_def rq_polled_def upd_queue_def)
    ultimately show ?thesis
      using v(2) u(1) by simp
  qed
qed

subsection \<open>Callbacks whose effect lies outside the library\<close>

text \<open>Such a callback shows only in the interface's state and in the outside state, so that the
  sequence of calls made can be read off from them.\<close>

definition extern_cb :: "('c \<Rightarrow> rank_type \<Rightarrow> tag_type \<Rightarrow> 'm env \<Rightarrow> 'm env) \<Rightarrow> ('c, 'm) callback" where
  "extern_cb f c r t w = (case f c r t (env w) of (a, m) \<Rightarrow> w\<lparr>api := a, mpi_state := m\<rparr>)"

lemma extern_cb_simps [simp]:
  "heap (extern_cb f c r t w) = heap w" "counters (extern_cb f c r t w) = counters w"
  "handles (extern_cb f c r t w) = handles w" "queue (extern_cb f c r t w) = queue w"
  "m_req_queue (extern_cb f c r t w) = m_req_queue w"
  "m_recursion_depth (extern_cb f c r t w) = m_recursion_depth w"
  "ctx_recursion_depth (extern_cb f c r t w) = ctx_recursion_depth w"
  "env (extern_cb f c r t w) = f c r t (env w)"
  by (simp_all add: extern_cb_def env_def split: prod.splits)

definition call_of ::
    "('c \<Rightarrow> rank_type \<Rightarrow> tag_type \<Rightarrow> 'm env \<Rightarrow> 'm env) \<Rightarrow> ('c, 'm) mpi_world \<Rightarrow> ptr \<Rightarrow> 'm env \<Rightarrow> 'm env" where
  "call_of f w p = f (m_cb (state_of w p)) (m_rank (state_of w p)) (m_tag (state_of w p))"

lemma callback_ok_extern: "callback_ok (extern_cb f)"
  unfolding callback_ok_def
proof (intro allI impI conjI)
  fix c r t and w :: "('a, 'b) mpi_world"
  assume "mpi_inv w"
  have ql: "qlist (extern_cb f c r t w) = qlist w"
    by (rule qlist_eqI) simp_all
  show "mpi_inv (extern_cb f c r t w)"
    using \<open>mpi_inv w\<close> ql by (subst mpi_inv_cong) simp_all
  have "inflight (extern_cb f c r t w) p \<longleftrightarrow> inflight w p" for p
    using ql by (intro inflight_cong) simp_all
  then show "cb_frame {} w (extern_cb f c r t w)"
    by (simp add: cb_frame_def keeps_state_def)
qed

text \<open>In terms of the request store these are callbacks with an effect on the rest of the world.\<close>

lemma extern_outside: "outside (extern_cb f) = extern_cb f"
  by (simp add: fun_eq_iff outside_def extern_cb_def off_store_def env_def split: prod.splits)

lemma off_store_world [simp]:
  fixes w :: "('c, 'm) mpi_world"
  shows "queue (off_store w) = queue w" "m_req_queue (off_store w) = m_req_queue w" "env (off_store w) = env w"
  by (simp_all add: off_store_def env_def)

lemma effects_extern:
  "env (fold (effect_of (extern_cb f) w) ps x) = fold (call_of f w) ps (env x) \<and>
   queue (fold (effect_of (extern_cb f) w) ps x) = queue x \<and>
   m_req_queue (fold (effect_of (extern_cb f) w) ps x) = m_req_queue x"
  by (induction ps arbitrary: x) (simp_all add: effect_of_def call_of_def)

lemma complete_all_extern:
  fixes w :: "('c, 'm) mpi_world"
  assumes "mpi_inv w" "distinct ps" "\<And>p. p \<in> set ps \<Longrightarrow> is_waiting w p"
  shows "\<exists>v. fold_res (complete_request (extern_cb f)) ps w = Inr v \<and>
    env v = fold (call_of f w) ps (env w) \<and> (\<forall>p \<in> set ps. finished v p) \<and>
    queue v = queue w \<and> m_req_queue v = m_req_queue w \<and> handles v = handles w \<and>
    (\<forall>p. p \<notin> set ps \<longrightarrow> heap v p = heap w p) \<and>
    (\<forall>c. counters v c = counters w c - of_nat (length (filter (\<lambda>p. m_scheduled (state_of w p) = c) ps)))"
proof -
  have "store_inv w"
    using assms(1) by (simp add: mpi_inv_def)
  from complete_all_outside [OF this assms(2,3), of "extern_cb f"] obtain v where
    v: "fold_res (complete_request (extern_cb f)) ps w = Inr v"
      "off_store v = fold (effect_of (extern_cb f) w) ps (off_store w)" "\<forall>p \<in> set ps. finished v p"
      "handles v = handles w" "\<forall>p. p \<notin> set ps \<longrightarrow> heap v p = heap w p"
      "\<forall>c. counters v c = counters w c - of_nat (length (filter (\<lambda>p. m_scheduled (state_of w p) = c) ps))"
    unfolding extern_outside by blast
  have "env v = fold (call_of f w) ps (env w) \<and> queue v = queue w \<and> m_req_queue v = m_req_queue w"
    using effects_extern [of f w ps "off_store w"] unfolding v(2) [symmetric] by simp
  with v show ?thesis
    by blast
qed

section \<open>Posting a request\<close>

text \<open>The branch of \<open>send\<close> and \<open>recv\<close> that queues the request: \<open>p\<close> is the address the pool hands
  out.\<close>

definition mpi_post ::
    "qid option \<Rightarrow> ptr \<Rightarrow> 'c mpi_request_state \<Rightarrow> ('c, 'm) mpi_world \<Rightarrow> ('c, 'm) mpi_world result" where
  "mpi_post a p r w =
     bind_res (post_request p r w) (\<lambda>w.
     bind_res (case a of Some q \<Rightarrow> rq_enqueue q p w | None \<Rightarrow> Inr (sq_enqueue p w)) (\<lambda>w.
     Inr (move_to_handle p w)))"

lemma mpi_post_ok:
  fixes w :: "('c, 'm) mpi_world"
  assumes inv: "mpi_inv w" and p: "heap w p = None" and r: "m_req r \<noteq> MPI_REQUEST_NULL"
  obtains v where "mpi_post a p r w = Inr v" "mpi_inv v" "cb_frame {} w v"
    "\<And>x. qlist v x = (if x = a then qlist w x @ [p] else qlist w x)" "env v = env w"
    "handles v = (handles w)(p := 1)"
    "counters v = (counters w)(m_scheduled r := counters w (m_scheduled r) + 1)"
    "\<And>x. x \<noteq> p \<Longrightarrow> heap v x = heap w x"
    "\<exists>b. heap v p = Some b \<and> m_t b = r\<lparr>m_ready := False, m_canceled := False, m_self_ptr := Some p,
       m_index := (case a of Some q \<Rightarrow> rq_size q w | None \<Rightarrow> m_index r)\<rparr>"
proof -
  define w1 where "w1 = move_to_handle p (posted p r w)"
  define i where "i = (case a of Some q \<Rightarrow> rq_size q w | None \<Rightarrow> m_index r)"
  define w2 where "w2 = store_state p (m_index_update (\<lambda>_. i)) w1"
  define v where "v = (case a of Some q \<Rightarrow> upd_queue q (m_queue_update (\<lambda>xs. xs @ [p])) w2
      | None \<Rightarrow> sq_enqueue p w2)"
  have h: "heap v = (heap w)(p \<mapsto> \<lparr>m_ref_count = 2, m_t = r\<lparr>m_ready := False, m_canceled := False,
      m_self_ptr := Some p, m_index := i\<rparr>\<rparr>)"
    by (simp add: v_def w2_def w1_def store_state_def move_to_handle_def posted_def upd_queue_def
        sq_enqueue_def upd_shared_def split: option.splits)
  have ql: "qlist v x = (if x = a then qlist w x @ [p] else qlist w x)" for x
    by (cases x; cases a)
       (simp_all add: v_def w2_def w1_def store_state_def move_to_handle_def posted_def upd_queue_def
        sq_enqueue_def upd_shared_def)
  have np: "\<not> queued w p"
    using queued_waiting [OF inv] p by fastforce
  have qv: "queued v x \<longleftrightarrow> queued w x \<or> x = p" for x
    unfolding queued_def ql by (auto simp del: qlist.simps)
  have st: "store_inv w2"
    unfolding w2_def w1_def using inv p
    by (intro store_inv_store_state store_inv_posted) (simp_all add: mpi_inv_def)
  then have sv: "store_inv v"
    by (subst store_inv_cong [of v w2])
       (simp_all add: v_def upd_queue_def sq_enqueue_def upd_shared_def split: option.splits)
  have qi: "queues_inv w"
    using inv by (simp add: mpi_inv_def)
  have "queues_inv v"
  proof (rule queues_invI)
    fix x show "distinct (qlist v x)"
      using qi np by (auto simp: ql queued_def queues_inv_def simp del: qlist.simps)
  next
    fix x y :: "qid option" assume "x \<noteq> y"
    then show "set (qlist v x) \<inter> set (qlist v y) = {}"
      using qi np by (auto simp: ql queued_def queues_inv_def simp del: qlist.simps)
  next
    fix x assume "queued v x"
    then show "\<exists>b. heap v x = Some b \<and> waiting (m_t b) x"
      using queued_waiting [OF inv, of x] np by (auto simp: qv h waiting_def)
  next
    fix q j b
    assume j: "j < length (m_queue (queue v q))" and b: "heap v (m_queue (queue v q) ! j) = Some b"
    have mq: "m_queue (queue v q) = (if a = Some q then m_queue (queue w q) @ [p] else m_queue (queue w q))"
      using ql [of "Some q"] by simp
    show "m_index (m_t b) = j \<and> m_req (m_t b) \<noteq> MPI_REQUEST_NULL"
    proof (cases "j < length (m_queue (queue w q))")
      case True
      then obtain c where "heap w (m_queue (queue w q) ! j) = Some c" "m_index (m_t c) = j"
          "m_req (m_t c) \<noteq> MPI_REQUEST_NULL"
        using queue_index [OF inv] by metis
      with True b mq p show ?thesis
        by (auto simp: nth_append h split: if_splits)
    next
      case False
      then have "a = Some q" "j = length (m_queue (queue w q))"
        using j mq by (auto split: if_splits)
      with b mq r show ?thesis
        by (auto simp: h i_def rq_size_def)
    qed
  qed
  then have iv: "mpi_inv v"
    using sv by (simp add: mpi_inv_def)
  have "keeps_state w v x" if "inflight w x" for x
  proof -
    have "x \<noteq> p"
      using that p by (auto simp: inflight_def pending_def)
    with that show ?thesis
      by (simp add: keeps_state_def inflight_def pending_def qv h)
  qed
  then have fr: "cb_frame {} w v"
    by (simp add: cb_frame_def)
       (simp add: v_def w2_def w1_def store_state_def move_to_handle_def posted_def upd_queue_def
        sq_enqueue_def upd_shared_def split: option.splits)
  have "mpi_post a p r w = Inr v"
    by (cases a)
       (simp_all add: mpi_post_def post_request_eq rq_enqueue_def modify_state_def load_state_def
         sq_enqueue_def v_def w2_def w1_def i_def posted_def rq_size_def,
        simp_all add: store_state_def move_to_handle_def upd_queue_def upd_shared_def)
  moreover have "handles v = (handles w)(p := 1)" "env v = env w"
      "counters v = (counters w)(m_scheduled r := counters w (m_scheduled r) + 1)"
    using store_inv_handles [of w p] inv p
    by (simp_all add: mpi_inv_def v_def w2_def w1_def store_state_def move_to_handle_def posted_def
        upd_queue_def sq_enqueue_def upd_shared_def split: option.splits)
  ultimately show thesis
    using that [of v] iv fr ql by (simp add: h i_def)
qed

end
