(* ===== verification/Mpi_Queue_Cancel.thy ===== *)
theory Mpi_Queue_Cancel
  imports Mpi_Queue_Inv
begin

text \<open>
  Cancellation in the MPI request queues (\<open>request_queue::cancel\<close>), and what it does outside the
  situations it was written for: when MPI does not cancel the receive, and when the request has
  already left the queue because its completion is being processed.
\<close>

section \<open>Successful cancellation\<close>

lemma swap_remove_cases:
  "swap_remove i xs = (if i + 1 < length xs then butlast (xs[i := last xs]) else butlast xs)"
  by (simp add: swap_remove_def)

text \<open>Taking the element at position \<open>i\<close> out of the queue.\<close>

definition rq_unlink :: "qid \<Rightarrow> nat \<Rightarrow> ('c, 'm) mpi_world \<Rightarrow> ('c, 'm) mpi_world" where
  "rq_unlink q i w =
     (let xs = m_queue (queue w q);
          w = (if i + 1 < length xs then store_state (last xs) (m_index_update (\<lambda>_. i)) w else w)
      in upd_queue q (m_queue_update (swap_remove i)) w)"

lemma mpi_inv_unlink:
  fixes w :: "('c, 'm) mpi_world"
  assumes inv: "mpi_inv w" and i: "i < length (m_queue (queue w q))" "p = m_queue (queue w q) ! i"
  shows "mpi_inv (rq_unlink q i w)" "\<not> queued (rq_unlink q i w) p"
    "heap (rq_unlink q i w) p = heap w p"
proof -
  let ?xs = "m_queue (queue w q)" and ?v = "rq_unlink q i w"
  have dx: "distinct ?xs"
    using inv by (metis mpi_inv_def qlist.simps(2) queues_inv_def)
  have mq: "m_queue (queue ?v x) = (if x = q then swap_remove i ?xs else m_queue (queue w x))" for x
    by (simp add: rq_unlink_def Let_def upd_queue_def)
  have sr: "set (swap_remove i ?xs) = set ?xs - {p}"
    using set_swap_remove [OF i(1) dx] i(2) by simp
  have same: "map_option (\<lambda>b. b\<lparr>m_t := (m_t b)\<lparr>m_index := t\<rparr>\<rparr>) (heap w (?xs ! t)) = heap w (?xs ! t)"
    if t: "t < length ?xs" for t
  proof -
    obtain b where b: "heap w (?xs ! t) = Some b" "t = m_index (m_t b)"
      using queue_index [OF inv t refl] by blast
    then show ?thesis
      by simp
  qed
  have hv: "heap ?v x = (if i + 1 < length ?xs \<and> x = last ?xs
      then map_option (\<lambda>b. b\<lparr>m_t := (m_t b)\<lparr>m_index := i\<rparr>\<rparr>) (heap w x) else heap w x)" for x
    by (simp add: rq_unlink_def Let_def upd_queue_def store_state_def)
  have lp: "last ?xs = ?xs ! (length ?xs - 1)" "length ?xs - 1 < length ?xs"
    using i(1) last_conv_nth [of ?xs] by fastforce+
  have l: "last ?xs \<noteq> p" if "i + 1 < length ?xs"
    using that i lp dx by (simp add: nth_eq_iff_index_eq)
  then show "heap ?v p = heap w p"
    by (auto simp: hv)
  have lin: "last ?xs \<in> set ?xs"
    using i(1) by (cases ?xs) auto
  show "mpi_inv ?v"
  proof (rule mpi_inv_renumbered [OF inv, where q = q and ks = "swap_remove i ?xs"])
    show "heap ?v x = heap w x" if "x \<notin> set (swap_remove i ?xs)" for x
      using that sr l lin by (auto simp: hv)
    show "heap ?v (swap_remove i ?xs ! t) =
        map_option (\<lambda>b. b\<lparr>m_t := (m_t b)\<lparr>m_index := t\<rparr>\<rparr>) (heap w (swap_remove i ?xs ! t))"
      if t: "t < length (swap_remove i ?xs)" for t
    proof (cases "t = i")
      case True
      with t have "i + 1 < length ?xs" "swap_remove i ?xs ! t = last ?xs"
        using nth_swap_remove [of t ?xs i] i(1) by simp_all
      with True show ?thesis
        by (simp add: hv)
    next
      case False
      then have e: "swap_remove i ?xs ! t = ?xs ! t" "?xs ! t \<noteq> last ?xs"
        using t i(1) nth_swap_remove [of t ?xs i] lp dx by (auto simp: nth_eq_iff_index_eq)
      then show ?thesis
        using same [of t] t by (simp add: hv)
    qed
  qed (use mq dx i(1) sr distinct_swap_remove in
      \<open>auto simp: rq_unlink_def Let_def upd_queue_def store_state_def\<close>)
  have "p \<notin> set (qlist ?v a)" for a
  proof (cases "a = Some q")
    case False
    then have "qlist ?v a = qlist w a"
      using mq by (cases a) (simp_all add: rq_unlink_def Let_def upd_queue_def store_state_def)
    moreover have "set (qlist w a) \<inter> set (qlist w (Some q)) = {}"
      using inv False unfolding mpi_inv_def queues_inv_def by blast
    ultimately show ?thesis
      using i by (auto simp del: qlist.simps(1))
  qed (use mq sr in simp)
  then show "\<not> queued ?v p"
    by (simp add: queued_def)
qed

text \<open>An operation that touches queued requests only, and queues none, is allowed in a callback.\<close>

lemma cb_frame_queued:
  fixes w v :: "('c, 'm) mpi_world"
  assumes "\<And>x. \<not> queued w x \<Longrightarrow> heap v x = heap w x" "\<And>x. queued v x \<Longrightarrow> queued w x"
    and "\<And>q. in_progress (queue v q) = in_progress (queue w q)"
    and "sq_in_progress (m_req_queue v) = sq_in_progress (m_req_queue w)"
    and "sq_local_queue (m_req_queue v) = sq_local_queue (m_req_queue w)"
    and "m_recursion_depth v = m_recursion_depth w" "ctx_recursion_depth v = ctx_recursion_depth w"
  shows "cb_frame {} w v"
  using assms by (auto simp: cb_frame_def keeps_state_def inflight_def pending_def)

definition mark_canceled :: "('c, 'x) request_state_scheme \<Rightarrow> ('c, 'x) request_state_scheme" where
  "mark_canceled r = r\<lparr>m_self_ptr := None, m_ready := True, m_canceled := True\<rparr>"

text \<open>A request that has been cancelled is marked so, or freed if the user holds no request object.\<close>

definition canceled :: "('c, 'm) mpi_world \<Rightarrow> ptr \<Rightarrow> bool" where
  "canceled w p \<longleftrightarrow>
     (case heap w p of None \<Rightarrow> handles w p = 0 | Some b \<Rightarrow> m_ready (m_t b) \<and> m_canceled (m_t b))"

text \<open>The computation of \<open>cancel\<close> when MPI cancels the operation: any request with a self reference
  and an index in range.\<close>

lemma rq_cancel_eq:
  fixes w :: "('c, 'm) mpi_world"
  assumes p: "heap w p = Some b" "m_self_ptr (m_t b) = Some p" "m_index (m_t b) = i"
    and i: "i < length (m_queue (queue w q))" "x = m_queue (queue w q) ! i" "heap w x = Some bx"
    and y: "heap w (last (m_queue (queue w q))) = Some c"
      "i + 1 < length (m_queue (queue w q)) \<Longrightarrow> last (m_queue (queue w q)) \<noteq> p"
    and mpi: "mpi_request_cancel mpi (m_req (m_t bx)) (mpi_state w) = Inr (True, h, m)"
  shows "rq_cancel mpi q p w = Inr (True, completed mark_canceled p
    (rq_unlink q i (store_state x (m_req_update (\<lambda>_. h)) (w\<lparr>mpi_state := m\<rparr>))))"
proof -
  define w1 where "w1 = store_state x (m_req_update (\<lambda>_. h)) (w\<lparr>mpi_state := m\<rparr>)"
  obtain b' where b': "heap w1 p = Some b'" "m_self_ptr (m_t b') = Some p"
    using p(1,2) by (cases "p = x") (auto simp: w1_def store_state_def)
  obtain c' where c': "heap w1 (last (m_queue (queue w q))) = Some c'"
    using y(1) by (cases "last (m_queue (queue w q)) = x") (auto simp: w1_def store_state_def)
  have q1: "queue w1 = queue w"
    by (simp add: w1_def)
  have cont: "bind_res (release_self_ref p w1) (\<lambda>(self, w).
         bind_res (set_canceled p w) (\<lambda>w.
         bind_res
           (if i + 1 < rq_size q w then
              let y = last (m_queue (queue w q)) in
              modify_state y (m_index_update (\<lambda>_. i))
                (upd_queue q (m_queue_update (\<lambda>xs. xs[i := y])) w)
            else Inr w) (\<lambda>w.
         let w = upd_queue q (m_queue_update butlast) w in
         bind_res (drop_ref self w) (\<lambda>w. Inr (True, w))))) =
      Inr (True, completed mark_canceled p (rq_unlink q i w1))"
    using b' c' y(2) q1
    by (auto simp: release_self_ref_def set_canceled_def load_state_def modify_state_def
        decr_counter_def rq_size_def upd_queue_def drop_ref_def block_destroy_def block_free_def
        completed_def rq_unlink_def mark_canceled_def Let_def swap_remove_def comp_def store_state_def
        fun_upd_twist intro!: mpi_world.equality)
  have nl: "(length (m_queue (queue w q)) \<le> i) = False"
    using i(1) by simp
  show ?thesis
    unfolding rq_cancel_def load_state_def p(1) Let_def
    by (simp only: option.case bind_res_simps p(3) rq_size_def nl if_False
        i(2) [symmetric] i(3) mpi split_conv if_True cont [unfolded Let_def rq_size_def, folded w1_def]
        w1_def [symmetric])
qed

text \<open>Cancelling a waiting request keeps the invariant, and may be done from a callback.\<close>

lemma rq_cancel_ok:
  fixes w :: "('c, 'm) mpi_world"
  assumes inv: "mpi_inv w" and i: "i < length (m_queue (queue w q))" "p = m_queue (queue w q) ! i"
    and mpi: "mpi_request_cancel mpi (m_req (state_of w p)) (mpi_state w) = Inr (True, h, m)"
  obtains v where "rq_cancel mpi q p w = Inr (True, v)" "mpi_inv v" "cb_frame {} w v" "canceled v p"
    "m_queue (queue v q) = swap_remove i (m_queue (queue w q))" "\<not> queued v p"
proof -
  define w1 where "w1 = store_state p (m_req_update (\<lambda>_. h)) (rq_unlink q i (w\<lparr>mpi_state := m\<rparr>))"
  define v where "v = completed mark_canceled p w1"
  obtain b where b: "heap w p = Some b" "waiting (m_t b) p" "m_index (m_t b) = i"
    using queue_index [OF inv i] by blast
  obtain c where c: "heap w (last (m_queue (queue w q))) = Some c"
    using queue_index [OF inv, of "length (m_queue (queue w q)) - 1" q] i(1)
    by (metis diff_less last_conv_nth length_0_conv less_nat_zero_code zero_less_one gr0I)
  have dx: "distinct (m_queue (queue w q))"
    using inv by (metis mpi_inv_def qlist.simps(2) queues_inv_def)
  have l: "last (m_queue (queue w q)) \<noteq> p" if "i + 1 < length (m_queue (queue w q))"
  proof
    assume "last (m_queue (queue w q)) = p"
    moreover have "last (m_queue (queue w q)) = m_queue (queue w q) ! (length (m_queue (queue w q)) - 1)"
      using that by (intro last_conv_nth) auto
    ultimately show False
      using that i dx by (simp add: nth_eq_iff_index_eq)
  qed
  let ?u = "rq_unlink q i (w\<lparr>mpi_state := m\<rparr>)"
  have eq: "rq_unlink q i (store_state p (m_req_update (\<lambda>_. h)) (w\<lparr>mpi_state := m\<rparr>)) = w1"
    using l by (auto simp: w1_def rq_unlink_def Let_def upd_queue_def store_state_def fun_upd_twist
        intro!: mpi_world.equality)
  have run: "rq_cancel mpi q p w = Inr (True, v)"
    unfolding v_def eq [symmetric]
    using b mpi by (intro rq_cancel_eq [OF b(1) _ b(3) i b(1) c l])
      (simp_all add: waiting_def state_of_def)
  have invm: "mpi_inv (w\<lparr>mpi_state := m\<rparr>)"
    using inv by (subst mpi_inv_cong) (auto intro!: qlist_eqI)
  have u: "mpi_inv ?u" "\<not> queued ?u p" "heap ?u p = Some b"
    using mpi_inv_unlink [OF invm] i b by simp_all
  have st: "store_inv w1"
    unfolding w1_def using u(1) by (intro store_inv_store_state) (simp_all add: mpi_inv_def)
  have q1: "qlist w1 = qlist ?u"
    by (rule qlist_eqI) (simp_all add: w1_def)
  have 1: "mpi_inv w1"
    using outside_queues [OF u(1) st u(2)] by (simp add: w1_def store_state_def)
  have n1: "\<not> queued w1 p"
    using u(2) q1 by (simp add: queued_def)
  have b1: "heap w1 p = Some (b\<lparr>m_t := (m_t b)\<lparr>m_req := h\<rparr>\<rparr>)"
    using u(3) by (simp add: w1_def store_state_def)
  have nr: "\<not> m_ready (m_t (b\<lparr>m_t := (m_t b)\<lparr>m_req := h\<rparr>\<rparr>))"
    using b(2) by (simp add: waiting_def)
  have "store_inv v"
    unfolding v_def by (rule store_inv_completed [OF st b1 nr]) (simp add: mark_canceled_def)
  then have iv: "mpi_inv v"
    using outside_queues [OF 1, of v p] n1 by (simp add: v_def completed_other)
  have mq: "m_queue (queue v y) = (if y = q then swap_remove i (m_queue (queue w q)) else m_queue (queue w y))" for y
    by (simp add: v_def w1_def rq_unlink_def Let_def upd_queue_def)
  have nv: "\<not> queued v p"
    using n1 qlist_eqI [of v w1] by (simp add: v_def queued_def)
  have "canceled v p"
    using completed_heap [OF st b1 nr, of mark_canceled] by (simp add: canceled_def v_def mark_canceled_def)
  moreover have "cb_frame {} w v"
  proof (rule cb_frame_queued)
    fix x
    have qp: "queued w y" if "y \<in> set (m_queue (queue w q))" for y
      using that qlist_queued [of y w "Some q"] by simp
    show "heap v x = heap w x" if "\<not> queued w x"
    proof -
      have "x \<noteq> p" "x \<noteq> last (m_queue (queue w q))"
        using that qp i by (auto simp: last_in_set) (metis last_in_set length_0_conv less_nat_zero_code)
      then show ?thesis
        by (simp add: v_def completed_other) (simp add: w1_def rq_unlink_def Let_def upd_queue_def store_state_def)
    qed
    have "set (qlist v a) \<subseteq> set (qlist w a)" for a
      using mq set_swap_remove [OF i(1) dx]
      by (cases a) (auto simp: v_def w1_def rq_unlink_def Let_def upd_queue_def)
    then show "queued w x" if "queued v x"
      using that by (auto simp: queued_def)
  qed (simp_all add: v_def w1_def rq_unlink_def Let_def upd_queue_def)
  ultimately show thesis
    using that [OF run iv] mq nv by simp
qed

end
