(* ===== verification/Mpi_Shared_Queue.thy ===== *)
theory Mpi_Shared_Queue
  imports Mpi_Queue_Cancel
begin

text \<open>
  The shared request queue of the MPI context (\<open>shared_request_queue\<close> of \<open>mpi/request_queue.hpp\<close>):
  polling, completion and cancellation keep the invariant, as seen by the calling thread.
\<close>

section \<open>The MPI calls it makes\<close>

text \<open>\<open>MPI_Test\<close> succeeds and leaves the handle of an operation that is not complete alone;
  \<open>MPI_Cancel\<close>, \<open>MPI_Wait\<close> and \<open>MPI_Test_cancelled\<close> succeed, \<open>MPI_Wait\<close> releasing the handle.\<close>

definition test_ok :: "'m mpi_lib \<Rightarrow> bool" where
  "test_ok mpi \<longleftrightarrow>
     (\<forall>h m. \<exists>h' flag m'. MPI_Test mpi h m = ((0, h', flag), m') \<and> (\<not> flag \<longrightarrow> h' = h))"

definition cancel_ok :: "'m mpi_lib \<Rightarrow> bool" where
  "cancel_ok mpi \<longleftrightarrow>
     (\<forall>h m. \<exists>m1 st m2 flag m3. MPI_Cancel mpi h m = (0, m1) \<and>
        MPI_Wait mpi h m1 = ((0, MPI_REQUEST_NULL, st), m2) \<and>
        MPI_Test_cancelled mpi st m2 = ((0, flag), m3))"

lemma test_ok_is_ready:
  assumes "test_ok mpi"
  obtains flag h' m' where "mpi_request_is_ready mpi h m = Inr (flag, h', m')" "\<not> flag \<longrightarrow> h' = h"
proof -
  obtain h' flag m' where "MPI_Test mpi h m = ((0, h', flag), m')" "\<not> flag \<longrightarrow> h' = h"
    using assms unfolding test_ok_def by blast
  with that show thesis
    by (simp add: mpi_request_is_ready_def check_mpi_def)
qed

lemma cancel_ok_cancel:
  assumes "cancel_ok mpi"
  obtains flag m' where "mpi_request_cancel mpi h m = Inr (flag, MPI_REQUEST_NULL, m')"
proof -
  obtain m1 st m2 flag m3 where "MPI_Cancel mpi h m = (0, m1)"
      "MPI_Wait mpi h m1 = ((0, MPI_REQUEST_NULL, st), m2)" "MPI_Test_cancelled mpi st m2 = ((0, flag), m3)"
    using assms unfolding cancel_ok_def by blast
  with that show thesis
    by (simp add: mpi_request_cancel_def check_mpi_def)
qed

section \<open>Polling\<close>

text \<open>How a state changes while the shared queue is polled: handles of shared requests, the library
  state, and the distribution of the elements between the queue and the local list.\<close>

definition sq_polling :: "('c, 'm) mpi_world \<Rightarrow> ('c, 'm) mpi_world \<Rightarrow> bool" where
  "sq_polling w v \<longleftrightarrow>
     counters v = counters w \<and> handles v = handles w \<and> queue v = queue w \<and>
     m_recursion_depth v = m_recursion_depth w \<and> ctx_recursion_depth v = ctx_recursion_depth w \<and>
     sq_size (m_req_queue v) = sq_size (m_req_queue w) \<and>
     sq_in_progress (m_req_queue v) = sq_in_progress (m_req_queue w) \<and>
     (\<forall>p. \<exists>g. heap v p = map_option (\<lambda>b. b\<lparr>m_t := m_req_update g (m_t b)\<rparr>) (heap w p)) \<and>
     (\<forall>p. p \<notin> set (sq_queue (m_req_queue w)) \<longrightarrow> heap v p = heap w p)"

lemma m_req_unchanged:
  fixes x :: "'c mpi_request_state control_block option"
  shows "\<exists>g. x = map_option (\<lambda>b. b\<lparr>m_t := m_req_update g (m_t b)\<rparr>) x"
proof (cases x)
  case (Some b)
  have "m_req_update (\<lambda>h. h) (m_t b) = m_t b"
    by (cases "m_t b") simp
  with Some show ?thesis
    by (intro exI [of _ "\<lambda>h. h"]) simp
qed simp

lemma sq_polling_refl: "sq_polling w w"
  unfolding sq_polling_def by (auto intro: m_req_unchanged)

lemma sq_polling_trans:
  assumes "sq_polling u v" "sq_polling v w" "set (sq_queue (m_req_queue v)) \<subseteq> set (sq_queue (m_req_queue u))"
  shows "sq_polling u w"
proof -
  have "\<exists>g. heap w p = map_option (\<lambda>b. b\<lparr>m_t := m_req_update g (m_t b)\<rparr>) (heap u p)" for p
  proof -
    obtain f g where "heap v p = map_option (\<lambda>b. b\<lparr>m_t := m_req_update f (m_t b)\<rparr>) (heap u p)"
        "heap w p = map_option (\<lambda>b. b\<lparr>m_t := m_req_update g (m_t b)\<rparr>) (heap v p)"
      using assms(1,2) unfolding sq_polling_def by blast
    then show ?thesis
      by (intro exI [of _ "g \<circ> f"]) (simp add: option.map_comp comp_def)
  qed
  with assms show ?thesis
    by (auto simp: sq_polling_def)
qed

lemma sq_poll_ok:
  fixes w :: "('c, 'm) mpi_world"
  assumes "test_ok mpi" "sq_queue (m_req_queue w) = es"
    and "\<And>p. p \<in> set es \<Longrightarrow> heap w p \<noteq> None"
  shows "\<exists>found v. sq_poll mpi (length es) w = Inr (found, v) \<and> sq_polling w v \<and>
    (case found of
       None \<Rightarrow> sq_queue (m_req_queue v) = [] \<and> sq_local_queue (m_req_queue v) = sq_local_queue (m_req_queue w) @ es
     | Some e \<Rightarrow> \<exists>pre post. es = pre @ e # post \<and> sq_queue (m_req_queue v) = post \<and>
         sq_local_queue (m_req_queue v) = sq_local_queue (m_req_queue w) @ pre)"
  using assms(2,3)
proof (induction es arbitrary: w)
  case Nil
  then show ?case
    using sq_polling_refl by auto
next
  case (Cons e es)
  obtain b where b: "heap w e = Some b"
    using Cons.prems(2) by fastforce
  obtain flag h m where t: "mpi_request_is_ready mpi (m_req (m_t b)) (mpi_state w) = Inr (flag, h, m)"
    using test_ok_is_ready [OF assms(1)] by metis
  define w1 where "w1 = store_state e (m_req_update (\<lambda>_. h))
    ((upd_shared (sq_queue_update (\<lambda>_. es)) w)\<lparr>mpi_state := m\<rparr>)"
  have h1: "heap w1 p = (if p = e then map_option (\<lambda>b. b\<lparr>m_t := m_req_update (\<lambda>_. h) (m_t b)\<rparr>) (heap w p)
      else heap w p)" for p
    by (simp add: w1_def store_state_def upd_shared_def)
  have step: "sq_poll mpi (length (e # es)) w = (if flag then Inr (Some e, w1)
      else sq_poll mpi (length es) (upd_shared (sq_local_queue_update (\<lambda>xs. xs @ [e])) w1))"
    using Cons.prems(1) b t by (simp add: load_state_def upd_shared_def w1_def Let_def)
  have "\<exists>g. heap w1 p = map_option (\<lambda>b. b\<lparr>m_t := m_req_update g (m_t b)\<rparr>) (heap w p)" for p
    using h1 m_req_unchanged by (cases "p = e") auto
  moreover have "heap w1 p = heap w p" if "p \<notin> set (sq_queue (m_req_queue w))" for p
    using that Cons.prems(1) h1 by auto
  ultimately have pw: "sq_polling w w1"
    by (simp add: sq_polling_def) (simp add: w1_def upd_shared_def store_state_def)
  show ?case
  proof (cases flag)
    case True
    then show ?thesis
      using step pw by (intro exI [of _ "Some e"] exI [of _ w1])
        (auto simp: w1_def upd_shared_def intro!: exI [of _ "[]"])
  next
    case False
    define w2 where "w2 = upd_shared (sq_local_queue_update (\<lambda>xs. xs @ [e])) w1"
    have w2: "sq_queue (m_req_queue w2) = es" "sq_polling w1 w2"
        "sq_local_queue (m_req_queue w2) = sq_local_queue (m_req_queue w) @ [e]"
      using sq_polling_refl [of w1] by (simp_all add: w2_def w1_def upd_shared_def sq_polling_def)
    then have p2: "sq_polling w w2"
      using sq_polling_trans [OF pw w2(2)] Cons.prems(1) by (auto simp: w1_def upd_shared_def)
    have "heap w2 p \<noteq> None" if "p \<in> set es" for p
      using Cons.prems(2) [of p] that h1 [of p] by (auto simp: w2_def upd_shared_def split: if_splits)
    then obtain found v where v: "sq_poll mpi (length es) w2 = Inr (found, v)" "sq_polling w2 v"
        "case found of
           None \<Rightarrow> sq_queue (m_req_queue v) = [] \<and> sq_local_queue (m_req_queue v) = sq_local_queue (m_req_queue w2) @ es
         | Some x \<Rightarrow> \<exists>pre post. es = pre @ x # post \<and> sq_queue (m_req_queue v) = post \<and>
             sq_local_queue (m_req_queue v) = sq_local_queue (m_req_queue w2) @ pre"
      using Cons.IH [OF w2(1)] by blast
    have "sq_polling w v"
      using sq_polling_trans [OF p2 v(2)] w2(1) Cons.prems(1) by auto
    moreover have "sq_poll mpi (length (e # es)) w = Inr (found, v)"
      using step False v(1) by (simp add: w2_def)
    moreover have "case found of
           None \<Rightarrow> sq_queue (m_req_queue v) = [] \<and> sq_local_queue (m_req_queue v) = sq_local_queue (m_req_queue w) @ e # es
         | Some x \<Rightarrow> \<exists>pre post. e # es = pre @ x # post \<and> sq_queue (m_req_queue v) = post \<and>
             sq_local_queue (m_req_queue v) = sq_local_queue (m_req_queue w) @ pre"
      using v(3) w2(3) by (auto split: option.splits intro: exI [of _ "e # _"])
    ultimately show ?thesis
      by blast
  qed
qed

section \<open>Completion\<close>

text \<open>Changing handles of shared requests and taking requests out of the shared queue, or permuting
  it, keeps the invariant.\<close>

lemma mpi_inv_shared:
  fixes w v :: "('c, 'm) mpi_world"
  assumes inv: "mpi_inv w" and pol: "counters v = counters w" "handles v = handles w" "queue v = queue w"
    and H: "\<And>p. \<exists>g. heap v p = map_option (\<lambda>b. b\<lparr>m_t := m_req_update g (m_t b)\<rparr>) (heap w p)"
      "\<And>p. p \<notin> set (sq_queue (m_req_queue w)) \<Longrightarrow> heap v p = heap w p"
    and sq: "distinct (sq_queue (m_req_queue v))"
      "set (sq_queue (m_req_queue v)) \<subseteq> set (sq_queue (m_req_queue w))"
  shows "mpi_inv v"
proof -
  have "same_base w v p" for p
    using H(1) [of p] by (auto simp: same_base_def option.map_comp comp_def)
  then have st: "store_inv v"
    using inv pol by (intro store_inv_same [of w v]) (simp_all add: mpi_inv_def)
  have qi: "queues_inv w"
    using inv by (simp add: mpi_inv_def)
  have sub: "set (qlist v a) \<subseteq> set (qlist w a)" for a
    using sq(2) pol(3) by (cases a) auto
  have dj: "set (qlist w a) \<inter> set (qlist w b) = {}" if "a \<noteq> b" for a b
    using qi that unfolding queues_inv_def by blast
  have "queues_inv v"
  proof (rule queues_invI)
    show "distinct (qlist v a)" for a
      using sq(1) qi pol(3) by (cases a) (auto simp: queues_inv_def dest: spec [of _ "Some _"])
    show "set (qlist v a) \<inter> set (qlist v b) = {}" if "a \<noteq> b" for a b
      using dj [OF that] sub [of a] sub [of b] by blast
    show "\<exists>b. heap v p = Some b \<and> waiting (m_t b) p" if "queued v p" for p
    proof -
      have "queued w p"
        using that sub by (auto simp: queued_def)
      then show ?thesis
        using queued_waiting [OF inv] H(1) [of p] by (fastforce simp: waiting_def)
    qed
    show "m_index (m_t b) = i \<and> m_req (m_t b) \<noteq> MPI_REQUEST_NULL"
      if i: "i < length (m_queue (queue v q))" and b: "heap v (m_queue (queue v q) ! i) = Some b" for q i b
    proof -
      have "m_queue (queue w q) ! i \<notin> set (sq_queue (m_req_queue w))"
        using dj [of "Some q" None] i pol(3) nth_mem by fastforce
      with i b pol(3) H(2) queue_index [OF inv, of i q] show ?thesis
        by (metis option.inject)
    qed
  qed
  with st show ?thesis
    by (simp add: mpi_inv_def)
qed

text \<open>The completion part of \<open>progress\<close> is the one every queue has, with the size decremented after
  the callback.\<close>

lemma sq_complete_eq:
  fixes w :: "('c, 'm) mpi_world"
  shows "bind_res (release_self_ref e w) (\<lambda>(self, w).
     bind_res (invoke_cb cbk e w) (\<lambda>w.
     let w = upd_shared (sq_size_update (\<lambda>n. n - 1)) w in
     bind_res (drop_ref self w) (\<lambda>w.
     Inr (1 :: nat, upd_shared (sq_in_progress_update (\<lambda>_. False)) w)))) =
   bind_res (complete_request cbk e w) (\<lambda>w. Inr (1 :: nat,
     upd_shared (\<lambda>s. s\<lparr>sq_size := sq_size s - 1, sq_in_progress := False\<rparr>) w))"
proof -
  have "bind_res (drop_ref self (upd_shared (sq_size_update (\<lambda>n. n - 1)) w)) (\<lambda>w.
      Inr (1 :: nat, upd_shared (sq_in_progress_update (\<lambda>_. False)) w)) =
    bind_res (drop_ref self w) (\<lambda>w. Inr (1 :: nat,
      upd_shared (\<lambda>s. s\<lparr>sq_size := sq_size s - 1, sq_in_progress := False\<rparr>) w))"
    for self and w :: "('c, 'm) mpi_world"
    by (cases "block_destroy self (heap w)") (simp_all add: drop_ref_def upd_shared_def)
  then show ?thesis
    by (cases "release_self_ref e w") (auto simp: complete_request_def bind_res_assoc Let_def)
qed

text \<open>\<open>progress\<close> up to the callback: \<open>u\<close> is the state in which the elements put aside are back in
  the queue and the request found, if any, has left it.\<close>

lemma sq_progress_unfold:
  fixes w :: "('c, 'm) mpi_world"
  assumes inv: "mpi_inv w" and ts: "test_ok mpi"
    and lq: "sq_local_queue (m_req_queue w) = []" "\<not> sq_in_progress (m_req_queue w)"
  obtains found u where
    "sq_progress mpi cbk w = (case found of
        None \<Rightarrow> Inr (0, upd_shared (sq_in_progress_update (\<lambda>_. False)) u)
      | Some e \<Rightarrow> bind_res (complete_request cbk e u) (\<lambda>w. Inr (1,
          upd_shared (\<lambda>s. s\<lparr>sq_size := sq_size s - 1, sq_in_progress := False\<rparr>) w)))"
    "mpi_inv u" "sq_local_queue (m_req_queue u) = []" "sq_size (m_req_queue u) = sq_size (m_req_queue w)"
    "queue u = queue w" "m_recursion_depth u = m_recursion_depth w"
    "ctx_recursion_depth u = ctx_recursion_depth w"
    "\<And>p. \<not> queued w p \<Longrightarrow> heap u p = heap w p"
    "\<And>p. queued w p \<Longrightarrow> \<exists>b. heap u p = Some b \<and> waiting (m_t b) p"
    "mset (sq_queue (m_req_queue w)) =
      (case found of None \<Rightarrow> {#} | Some e \<Rightarrow> {#e#}) + mset (sq_queue (m_req_queue u))"
proof -
  define w0 where "w0 = upd_shared (sq_in_progress_update (\<lambda>_. True)) w"
  define es where "es = sq_queue (m_req_queue w)"
  have w0: "sq_queue (m_req_queue w0) = es" "sq_local_queue (m_req_queue w0) = []" "heap w0 = heap w"
    using lq by (simp_all add: w0_def es_def upd_shared_def)
  have live: "heap w0 p \<noteq> None" if "p \<in> set es" for p
    using queued_waiting [OF inv qlist_queued [of p w None]] that w0(3) by (auto simp: es_def)
  obtain found v where v: "sq_poll mpi (length es) w0 = Inr (found, v)" "sq_polling w0 v"
      "case found of
         None \<Rightarrow> sq_queue (m_req_queue v) = [] \<and> sq_local_queue (m_req_queue v) = es
       | Some e \<Rightarrow> \<exists>pre post. es = pre @ e # post \<and> sq_queue (m_req_queue v) = post \<and>
           sq_local_queue (m_req_queue v) = pre"
    using sq_poll_ok [OF ts w0(1) live, unfolded w0(2) append_Nil] by blast
  define u where "u = upd_shared (\<lambda>s. s\<lparr>sq_queue := sq_queue s @ sq_local_queue s, sq_local_queue := []\<rparr>) v"
  have run: "sq_progress mpi cbk w = (case found of
        None \<Rightarrow> Inr (0, upd_shared (sq_in_progress_update (\<lambda>_. False)) u)
      | Some e \<Rightarrow> bind_res (complete_request cbk e u) (\<lambda>w. Inr (1,
          upd_shared (\<lambda>s. s\<lparr>sq_size := sq_size s - 1, sq_in_progress := False\<rparr>) w)))"
    using lq(2) v(1) w0(1)
    by (simp add: sq_progress_def Let_def w0_def [symmetric] u_def [symmetric]
        sq_complete_eq [unfolded Let_def One_nat_def] split: option.splits)
  have dx: "distinct es"
    using inv unfolding es_def mpi_inv_def queues_inv_def by (metis qlist.simps(1))
  have ms: "mset es = (case found of None \<Rightarrow> {#} | Some e \<Rightarrow> {#e#}) + mset (sq_queue (m_req_queue u))"
    using v(3) by (auto simp: u_def upd_shared_def split: option.splits)
  have squ: "distinct (sq_queue (m_req_queue u))" "set (sq_queue (m_req_queue u)) \<subseteq> set es"
    using v(3) dx by (auto simp: u_def upd_shared_def split: option.splits)
  have iu: "mpi_inv u"
  proof (rule mpi_inv_shared [OF inv])
    show "heap u p = heap w p" if "p \<notin> set (sq_queue (m_req_queue w))" for p
      using v(2) that w0 by (simp add: sq_polling_def u_def upd_shared_def es_def)
    show "\<exists>g. heap u p = map_option (\<lambda>b. b\<lparr>m_t := m_req_update g (m_t b)\<rparr>) (heap w p)" for p
      using v(2) w0 by (simp add: sq_polling_def u_def upd_shared_def)
  qed (use v(2) squ in \<open>simp_all add: sq_polling_def u_def upd_shared_def es_def w0_def\<close>)
  have hu: "heap u p = heap w p" if "\<not> queued w p" for p
    using that v(2) w0 qlist_queued [of p w None]
    by (auto simp: sq_polling_def u_def upd_shared_def es_def)
  have wu: "\<exists>b. heap u p = Some b \<and> waiting (m_t b) p" if "queued w p" for p
  proof -
    obtain g where "heap u p = map_option (\<lambda>b. b\<lparr>m_t := m_req_update g (m_t b)\<rparr>) (heap w p)"
      using v(2) w0(3) unfolding sq_polling_def u_def upd_shared_def by auto
    with queued_waiting [OF inv that] show ?thesis
      by (auto simp: waiting_def)
  qed
  show thesis
    using v(2) ms by (intro that [OF run iu _ _ _ _ _ hu wu])
      (simp_all add: sq_polling_def u_def w0_def upd_shared_def es_def)
qed

text \<open>The request found is then in no queue.\<close>

lemma sq_found_inflight:
  fixes w u :: "('c, 'm) mpi_world"
  assumes inv: "mpi_inv w" and q: "queue u = queue w"
    and wt: "\<And>p. queued w p \<Longrightarrow> \<exists>b. heap u p = Some b \<and> waiting (m_t b) p"
    and me: "mset (sq_queue (m_req_queue w)) = add_mset e (mset (sq_queue (m_req_queue u)))"
  obtains b where "heap u e = Some b" "waiting (m_t b) e" "inflight u e"
proof -
  have ew: "e \<in> set (sq_queue (m_req_queue w))"
    using arg_cong [OF me, of set_mset] by auto
  have qi: "queues_inv w"
    using inv by (simp add: mpi_inv_def)
  have "distinct (sq_queue (m_req_queue w))"
    using qi unfolding queues_inv_def by (metis qlist.simps(1))
  then have ne: "e \<notin> set (sq_queue (m_req_queue u))"
    using me by (metis distinct.simps(2) mset.simps(2) mset_eq_imp_distinct_iff)
  have nq: "\<not> queued u e"
  proof
    assume "queued u e"
    then obtain q where "e \<in> set (m_queue (queue w q))"
      using ne q by (auto simp: queued_iff)
    moreover have "set (qlist w (Some q)) \<inter> set (qlist w None) = {}"
      using qi unfolding queues_inv_def by blast
    ultimately show False
      using ew by auto
  qed
  obtain b where b: "heap u e = Some b" "waiting (m_t b) e"
    using wt [of e] ew by (auto simp: queued_iff)
  with nq that show thesis
    by (simp add: inflight_def pending_def waiting_def)
qed

lemma sq_progress_frame:
  fixes u w x :: "('c, 'm) mpi_world"
  assumes x: "mpi_inv x" "cb_frame S u x" and S: "\<And>p. p \<in> S \<Longrightarrow> queued w p"
    and u: "\<And>p. \<not> queued w p \<Longrightarrow> heap u p = heap w p" "\<And>p. queued u p \<Longrightarrow> queued w p" "queue u = queue w"
      "m_recursion_depth u = m_recursion_depth w" "ctx_recursion_depth u = ctx_recursion_depth w"
      "sq_local_queue (m_req_queue u) = sq_local_queue (m_req_queue w)" "\<not> sq_in_progress (m_req_queue w)"
    and f: "\<And>s. sq_queue (f s) = sq_queue s" "\<And>s. sq_local_queue (f s) = sq_local_queue s"
      "\<And>s. \<not> sq_in_progress (f s)"
  shows "mpi_inv (upd_shared f x) \<and> cb_frame {} w (upd_shared f x)"
proof
  let ?v = "upd_shared f x"
  have ql: "qlist ?v = qlist x"
    using f(1) by (intro qlist_eqI) (simp_all add: upd_shared_def)
  show "mpi_inv ?v"
    using x(1) ql by (subst mpi_inv_cong) (simp_all add: upd_shared_def)
  have "keeps_state w ?v p" if "inflight w p" for p
  proof -
    have "keeps_state w u p"
      using that u(1,2) by (auto simp: keeps_state_def inflight_def pending_def)
    moreover from this have "keeps_state u x p"
      using x(2) S that by (auto simp: cb_frame_def keeps_state_def inflight_def)
    moreover have "inflight ?v p \<longleftrightarrow> inflight x p"
      using ql by (intro inflight_cong) (simp_all add: upd_shared_def)
    ultimately show ?thesis
      by (simp add: keeps_state_def upd_shared_def)
  qed
  then show "cb_frame {} w ?v"
    using x(2) u f by (simp add: cb_frame_def) (simp add: upd_shared_def)
qed

lemma sq_progress_ok:
  fixes w :: "('c, 'm) mpi_world"
  assumes inv: "mpi_inv w" and cb: "callback_ok cbk" and ts: "test_ok mpi"
    and lq: "sq_local_queue (m_req_queue w) = []"
  shows "\<exists>n v. sq_progress mpi cbk w = Inr (n, v) \<and> mpi_inv v \<and> cb_frame {} w v"
proof (cases "sq_in_progress (m_req_queue w)")
  case True
  then show ?thesis
    using inv by (simp add: sq_progress_def)
next
  case False
  obtain found u where u: "sq_progress mpi cbk w = (case found of
        None \<Rightarrow> Inr (0, upd_shared (sq_in_progress_update (\<lambda>_. False)) u)
      | Some e \<Rightarrow> bind_res (complete_request cbk e u) (\<lambda>w. Inr (1,
          upd_shared (\<lambda>s. s\<lparr>sq_size := sq_size s - 1, sq_in_progress := False\<rparr>) w)))"
    "mpi_inv u" "sq_local_queue (m_req_queue u) = []" "queue u = queue w"
    "m_recursion_depth u = m_recursion_depth w" "ctx_recursion_depth u = ctx_recursion_depth w"
    "\<And>p. \<not> queued w p \<Longrightarrow> heap u p = heap w p"
    "\<And>p. queued w p \<Longrightarrow> \<exists>b. heap u p = Some b \<and> waiting (m_t b) p"
    "mset (sq_queue (m_req_queue w)) =
      (case found of None \<Rightarrow> {#} | Some e \<Rightarrow> {#e#}) + mset (sq_queue (m_req_queue u))"
    by (rule sq_progress_unfold [OF inv ts lq False, of cbk]) (rule that)
  have sub: "set (sq_queue (m_req_queue u)) \<subseteq> set (sq_queue (m_req_queue w))"
    using arg_cong [OF u(9), of set_mset] by auto
  have "set (qlist u a) \<subseteq> set (qlist w a)" for a
    using sub u(4) by (cases a) auto
  then have qu: "queued w p" if "queued u p" for p
    using that by (auto simp: queued_def)
  note frame = sq_progress_frame [where w = w and u = u, OF _ _ _ u(7) qu u(4-6)]
  show ?thesis
  proof (cases found)
    case None
    have "mpi_inv (upd_shared (sq_in_progress_update (\<lambda>_. False)) u) \<and>
        cb_frame {} w (upd_shared (sq_in_progress_update (\<lambda>_. False)) u)"
      by (rule frame [where S = "{}"]) (use u(2,3) lq False in simp_all)
    then show ?thesis
      using u(1) None by simp
  next
    case (Some e)
    then have me: "mset (sq_queue (m_req_queue w)) = add_mset e (mset (sq_queue (m_req_queue u)))"
      using u(9) by simp
    obtain b where b: "heap u e = Some b" "waiting (m_t b) e" "inflight u e"
      by (rule sq_found_inflight [OF inv u(4) u(8) me]; (assumption | rule that))
    have ew: "e \<in> set (sq_queue (m_req_queue w))"
      using arg_cong [OF me, of set_mset] by auto
    have sp: "m_self_ptr (m_t b) = Some e"
      using b(2) by (simp add: waiting_def)
    obtain x where x: "complete_request cbk e u = Inr x" "mpi_inv x" "cb_frame {e} u x"
      by (rule complete_request_ok [OF u(2) cb b(3,1) sp]) (rule that)
    let ?f = "\<lambda>s. s\<lparr>sq_size := sq_size s - 1, sq_in_progress := False\<rparr>"
    have "mpi_inv (upd_shared ?f x) \<and> cb_frame {} w (upd_shared ?f x)"
      by (rule frame [OF x(2,3)]) (use u(3) lq False ew in \<open>simp_all add: queued_iff\<close>)
    then show ?thesis
      using u(1) Some x(1) by simp
  qed
qed

section \<open>Cancellation\<close>

lemma sq_cancel_skip:
  "e \<notin> set xs \<Longrightarrow> fold_res (sq_cancel_step mpi e) xs (kept, c, w) = Inr (kept @ xs, c, w)"
  by (induction xs arbitrary: kept) (auto simp: sq_cancel_step_def)

text \<open>The outcome of \<open>cancel\<close>: the request leaves the queue if MPI cancels the receive, and stays
  where it is, with its handle released, if not.  In no case is \<open>m_size\<close> adjusted.\<close>

lemma sq_cancel_absent:
  assumes "e \<notin> set (sq_queue (m_req_queue w))"
  shows "sq_cancel mpi e w = Inr (False, w)"
  using assms by (simp add: sq_cancel_def sq_cancel_skip Let_def upd_shared_def)

lemma sq_cancel_present:
  fixes w :: "('c, 'm) mpi_world"
  assumes inv: "mpi_inv w" and xs: "sq_queue (m_req_queue w) = pre @ e # post" "heap w e = Some b"
    and mpi: "mpi_request_cancel mpi (m_req (m_t b)) (mpi_state w) = Inr (flag, h, m)"
  defines "w1 \<equiv> store_state e (m_req_update (\<lambda>_. h)) (w\<lparr>mpi_state := m\<rparr>)"
  shows "sq_cancel mpi e w = Inr (flag, if flag
    then upd_shared (sq_queue_update (\<lambda>_. pre @ post)) (completed mark_canceled e w1) else w1)"
proof -
  have "distinct (pre @ e # post)"
    using inv xs(1) unfolding mpi_inv_def queues_inv_def by (metis qlist.simps(1))
  then have ne: "e \<notin> set pre" "e \<notin> set post"
    by auto
  have wt: "m_self_ptr (m_t b) = Some e"
    using queued_waiting [OF inv, of e] xs by (auto simp: queued_iff waiting_def)
  let ?w0 = "upd_shared (sq_queue_update (\<lambda>_. [])) w"
  let ?w1 = "store_state e (m_req_update (\<lambda>_. h)) (?w0\<lparr>mpi_state := m\<rparr>)"
  have eq: "?w1 = upd_shared (sq_queue_update (\<lambda>_. [])) w1"
    by (simp add: w1_def upd_shared_def store_state_def)
  have b1: "heap ?w1 e = Some (b\<lparr>m_t := (m_t b)\<lparr>m_req := h\<rparr>\<rparr>)"
    using xs(2) by (simp add: store_state_def upd_shared_def)
  have "sq_cancel_step mpi e e (pre, False, ?w0) = (if flag
      then Inr (pre, True, completed mark_canceled e ?w1) else Inr (pre @ [e], False, ?w1))"
    using xs(2) mpi cancel_request_eq [OF b1] wt
    by (simp add: sq_cancel_step_def load_state_def upd_shared_def Let_def mark_canceled_def [abs_def])
  then have "fold_res (sq_cancel_step mpi e) (pre @ e # post) ([], False, ?w0) = Inr (if flag
      then (pre @ post, True, completed mark_canceled e ?w1) else (pre @ e # post, False, ?w1))"
    using ne by (simp add: fold_res_append sq_cancel_skip)
  then show ?thesis
    unfolding sq_cancel_def xs(1) Let_def eq
    using xs(1) by (simp add: upd_shared_def completed_def w1_def store_state_def split: option.splits)
qed

lemma sq_cancel_ok:
  fixes w :: "('c, 'm) mpi_world"
  assumes inv: "mpi_inv w" and c: "cancel_ok mpi"
  obtains flag v where "sq_cancel mpi e w = Inr (flag, v)" "mpi_inv v" "cb_frame {} w v"
    "sq_size (m_req_queue v) = sq_size (m_req_queue w)"
    "flag \<Longrightarrow> e \<in> set (sq_queue (m_req_queue w)) \<and> canceled v e \<and>
       sq_queue (m_req_queue v) = remove1 e (sq_queue (m_req_queue w))"
    "\<not> flag \<Longrightarrow> sq_queue (m_req_queue v) = sq_queue (m_req_queue w)"
proof (cases "e \<in> set (sq_queue (m_req_queue w))")
  case False
  then show thesis
    using that [of False w] inv sq_cancel_absent [OF False] by simp
next
  case True
  then obtain pre post where xs: "sq_queue (m_req_queue w) = pre @ e # post" "e \<notin> set pre"
    by (metis split_list_first)
  have dx: "distinct (pre @ e # post)"
    using inv xs(1) unfolding mpi_inv_def queues_inv_def by (metis qlist.simps(1))
  obtain b where b: "heap w e = Some b" "waiting (m_t b) e"
    using queued_waiting [OF inv, of e] True by (auto simp: queued_iff)
  obtain flag m where mpi: "mpi_request_cancel mpi (m_req (m_t b)) (mpi_state w) = Inr (flag, MPI_REQUEST_NULL, m)"
    using cancel_ok_cancel [OF c] by metis
  define w1 where "w1 = store_state e (m_req_update (\<lambda>_. MPI_REQUEST_NULL)) (w\<lparr>mpi_state := m\<rparr>)"
  define v where "v = (if flag
    then upd_shared (sq_queue_update (\<lambda>_. pre @ post)) (completed mark_canceled e w1) else w1)"
  have run: "sq_cancel mpi e w = Inr (flag, v)"
    unfolding v_def w1_def by (rule sq_cancel_present [OF inv xs(1) b(1) mpi])
  define u where "u = (if flag then upd_shared (sq_queue_update (\<lambda>_. pre @ post)) w1 else w1)"
  have hu: "heap u p = (if p = e then Some (b\<lparr>m_t := m_req_update (\<lambda>_. MPI_REQUEST_NULL) (m_t b)\<rparr>) else heap w p)" for p
    using b(1) by (simp add: u_def w1_def upd_shared_def store_state_def)
  have iu: "mpi_inv u"
  proof (rule mpi_inv_shared [OF inv])
    show "\<exists>g. heap u p = map_option (\<lambda>b. b\<lparr>m_t := m_req_update g (m_t b)\<rparr>) (heap w p)" for p
      using b(1) hu m_req_unchanged by (cases "p = e") auto
    show "heap u p = heap w p" if "p \<notin> set (sq_queue (m_req_queue w))" for p
      using that True hu by auto
  qed (use xs(1) dx in \<open>auto simp: u_def w1_def upd_shared_def store_state_def\<close>)
  have qu: "queued w p" if "queued u p" for p
    using that xs(1) by (auto simp: queued_iff u_def w1_def upd_shared_def store_state_def split: if_splits)
  have fr: "cb_frame {} w v" if vh: "\<And>p. p \<noteq> e \<Longrightarrow> heap v p = heap u p"
      and vq: "queue v = queue u" "m_req_queue v = m_req_queue u"
        "m_recursion_depth v = m_recursion_depth w" "ctx_recursion_depth v = ctx_recursion_depth w"
  proof (rule cb_frame_queued)
    fix x
    show "heap v x = heap w x" if "\<not> queued w x"
    proof -
      have "x \<noteq> e"
        using that True by (auto simp: queued_iff)
      then show ?thesis
        using vh [of x] hu [of x] by simp
    qed
    show "queued w x" if "queued v x"
      using that qu [of x] vq(1,2) by (simp add: queued_iff)
  qed (use vq in \<open>simp_all add: u_def w1_def upd_shared_def\<close>)
  show thesis
  proof (cases flag)
    case False
    then have "v = u"
      by (simp add: v_def u_def)
    then have "cb_frame {} w v"
      by (intro fr) (simp_all add: u_def w1_def upd_shared_def)
    with False iu run that [of False v] \<open>v = u\<close> show thesis
      by (simp add: u_def w1_def)
  next
    case True
    then have vu: "v = completed mark_canceled e u"
      by (simp add: v_def u_def upd_shared_def completed_def split: option.splits)
    have nq: "\<not> queued u e"
    proof
      assume "queued u e"
      then obtain q where "e \<in> set (m_queue (queue w q))"
        using dx True by (auto simp: queued_iff u_def w1_def upd_shared_def)
      moreover have "set (qlist w (Some q)) \<inter> set (qlist w None) = {}"
        using inv unfolding mpi_inv_def queues_inv_def by blast
      ultimately show False
        using xs(1) by auto
    qed
    have he: "heap u e = Some (b\<lparr>m_t := m_req_update (\<lambda>_. MPI_REQUEST_NULL) (m_t b)\<rparr>)"
      and nr: "\<not> m_ready (m_t (b\<lparr>m_t := m_req_update (\<lambda>_. MPI_REQUEST_NULL) (m_t b)\<rparr>))"
      using hu b(2) by (simp_all add: waiting_def)
    have su: "store_inv u"
      using iu by (simp add: mpi_inv_def)
    have "store_inv v"
      unfolding vu by (rule store_inv_completed [OF su he nr]) (simp add: mark_canceled_def)
    then have "mpi_inv v"
      using outside_queues [OF iu _ nq, of v] by (simp add: vu completed_other)
    moreover have "cb_frame {} w v"
      by (intro fr) (simp_all add: vu completed_other, simp_all add: u_def w1_def upd_shared_def)
    moreover have "canceled v e"
      using completed_heap [OF su he nr, of mark_canceled] by (simp add: vu canceled_def mark_canceled_def)
    ultimately show thesis
      using run True xs that [of True v]
      by (simp add: vu u_def w1_def upd_shared_def remove1_append)
  qed
qed

end
