(* ===== verification/Request_Api.thy ===== *)
theory Request_Api
  imports Request_State
begin

text \<open>
  The request objects of the user (\<open>request.cpp\<close>) and the waiting loops of \<open>communicator.hpp\<close>.  A
  request object holds a pointer to its request state, or none if the operation completed when it
  was posted.  How a transport makes progress and cancels is a parameter; its contract is the locale
  \<open>progress_engine\<close>, in which the waiting loops are verified once for all transports.
\<close>

section \<open>Operations\<close>

definition request_is_ready ::
    "ptr option \<Rightarrow> (('c, 'x) request_state_base_scheme, 'z) request_store_scheme \<Rightarrow> bool result" where
  "request_is_ready m w =
     (case m of None \<Rightarrow> Inr True | Some p \<Rightarrow> bind_res (load_state p w) (\<lambda>r. Inr (m_ready r)))"

definition request_is_canceled ::
    "ptr option \<Rightarrow> (('c, 'x) request_state_base_scheme, 'z) request_store_scheme \<Rightarrow> bool result" where
  "request_is_canceled m w =
     (case m of None \<Rightarrow> Inr True | Some p \<Rightarrow> bind_res (load_state p w) (\<lambda>r. Inr (m_canceled r)))"

text \<open>\<open>request_state::progress\<close>: the communicator the request was posted on makes progress (for a
  shared request, the context does).\<close>

definition request_progress ::
    "(nat \<Rightarrow> (('c, 'x) request_state_base_scheme, 'z) request_store_scheme \<Rightarrow>
        (('c, 'x) request_state_base_scheme, 'z) request_store_scheme result) \<Rightarrow> ptr \<Rightarrow>
     (('c, 'x) request_state_base_scheme, 'z) request_store_scheme \<Rightarrow>
     (('c, 'x) request_state_base_scheme, 'z) request_store_scheme result" where
  "request_progress prog p w = bind_res (load_state p w) (\<lambda>r. prog (m_comm r) w)"

definition request_test ::
    "(nat \<Rightarrow> (('c, 'x) request_state_base_scheme, 'z) request_store_scheme \<Rightarrow>
        (('c, 'x) request_state_base_scheme, 'z) request_store_scheme result) \<Rightarrow> ptr option \<Rightarrow>
     (('c, 'x) request_state_base_scheme, 'z) request_store_scheme \<Rightarrow>
     (bool \<times> (('c, 'x) request_state_base_scheme, 'z) request_store_scheme) result" where
  "request_test prog m w =
     (case m of
        None \<Rightarrow> Inr (True, w)
      | Some p \<Rightarrow>
          bind_res (request_is_ready m w) (\<lambda>ready.
          if ready then Inr (True, w)
          else bind_res (request_progress prog p w) (\<lambda>w.
               bind_res (request_is_ready m w) (\<lambda>ready. Inr (ready, w)))))"

text \<open>A loop \<open>while (!cond()) prog();\<close>.  Not terminating is the value \<open>None\<close>.\<close>

partial_function (option) poll_until ::
    "('w \<Rightarrow> 'w result) \<Rightarrow> ('w \<Rightarrow> bool result) \<Rightarrow> 'w \<Rightarrow> 'w result option" where
  "poll_until prog cond w =
     (case cond w of
        Inl e \<Rightarrow> Some (Inl e)
      | Inr b \<Rightarrow>
          if b then Some (Inr w)
          else (case prog w of Inl e \<Rightarrow> Some (Inl e) | Inr v \<Rightarrow> poll_until prog cond v))"

definition request_wait ::
    "(nat \<Rightarrow> (('c, 'x) request_state_base_scheme, 'z) request_store_scheme \<Rightarrow>
        (('c, 'x) request_state_base_scheme, 'z) request_store_scheme result) \<Rightarrow> ptr option \<Rightarrow>
     (('c, 'x) request_state_base_scheme, 'z) request_store_scheme \<Rightarrow>
     (('c, 'x) request_state_base_scheme, 'z) request_store_scheme result option" where
  "request_wait prog m w =
     (case m of
        None \<Rightarrow> Some (Inr w)
      | Some p \<Rightarrow> poll_until (request_progress prog p) (request_is_ready m) w)"

text \<open>\<open>recv_request::cancel\<close>; \<open>cancel\<close> is the transport's, given the communicator of the request.\<close>

definition request_cancel ::
    "(nat \<Rightarrow> ptr \<Rightarrow> (('c, 'x) request_state_base_scheme, 'z) request_store_scheme \<Rightarrow>
        (bool \<times> (('c, 'x) request_state_base_scheme, 'z) request_store_scheme) result) \<Rightarrow> ptr option \<Rightarrow>
     (('c, 'x) request_state_base_scheme, 'z) request_store_scheme \<Rightarrow>
     (bool \<times> (('c, 'x) request_state_base_scheme, 'z) request_store_scheme) result" where
  "request_cancel cancel m w =
     (case m of
        None \<Rightarrow> Inr (False, w)
      | Some p \<Rightarrow>
          bind_res (load_state p w) (\<lambda>r.
          if m_ready r then Inr (False, w) else cancel (m_comm r) p w))"

text \<open>The members of \<open>send_request\<close> and \<open>recv_request\<close> with the same name do the same.  Those of
  \<open>shared_recv_request\<close> differ in that the context makes progress and cancels, not a communicator
  (\<open>shared_request_state::progress\<close> and \<open>cancel\<close>).\<close>

definition recv_request_is_ready where "recv_request_is_ready = request_is_ready"
definition recv_request_test where "recv_request_test = request_test"
definition recv_request_wait where "recv_request_wait = request_wait"

definition shared_request_is_ready where "shared_request_is_ready = request_is_ready"
definition shared_request_is_canceled where "shared_request_is_canceled = request_is_canceled"

definition shared_request_test where "shared_request_test ctx_progress = request_test (\<lambda>_. ctx_progress)"

definition shared_request_wait where "shared_request_wait ctx_progress = request_wait (\<lambda>_. ctx_progress)"

definition shared_request_cancel where "shared_request_cancel ctx_cancel = request_cancel (\<lambda>_. ctx_cancel)"

text \<open>\<open>communicator::is_ready\<close> and \<open>communicator::wait_all\<close>.\<close>

definition comm_is_ready :: "nat \<Rightarrow> ('r, 'z) request_store_scheme \<Rightarrow> bool" where
  "comm_is_ready c w \<longleftrightarrow>
     counters w (Scheduled_sends c) = 0 \<and> counters w (Scheduled_recvs c) = 0 \<and>
     counters w Shared_scheduled_recvs = 0"

definition wait_all ::
    "(nat \<Rightarrow> ('r, 'z) request_store_scheme \<Rightarrow> ('r, 'z) request_store_scheme result) \<Rightarrow> nat \<Rightarrow>
     ('r, 'z) request_store_scheme \<Rightarrow> ('r, 'z) request_store_scheme result option" where
  "wait_all prog c w = poll_until (prog c) (\<lambda>w. Inr (comm_is_ready c w)) w"

text \<open>The state after a number of calls.\<close>

fun iterate :: "('w \<Rightarrow> 'w result) \<Rightarrow> nat \<Rightarrow> 'w \<Rightarrow> 'w result" where
  "iterate f 0 w = Inr w"
| "iterate f (Suc n) w = bind_res (f w) (iterate f n)"

section \<open>What the waiting loops need of a transport\<close>

locale progress_engine =
  fixes prog :: "'w \<Rightarrow> 'w result"
    and inv :: "'w \<Rightarrow> bool"
  assumes prog_ok: "inv w \<Longrightarrow> \<exists>v. prog w = Inr v \<and> inv v"
begin

lemma iterate_inv: "inv w \<Longrightarrow> \<exists>v. iterate prog n w = Inr v \<and> inv v"
proof (induction n arbitrary: w)
  case (Suc n)
  then show ?case
    using prog_ok by fastforce
qed simp

text \<open>A loop that ends has not failed, and its condition holds.\<close>

lemma poll_until_sound:
  assumes "poll_until prog (\<lambda>w. Inr (P w)) w = Some r" "inv w"
  shows "\<exists>v. r = Inr v \<and> inv v \<and> P v"
proof -
  have "f = prog \<longrightarrow> c = (\<lambda>w. Inr (P w)) \<longrightarrow> inv w \<longrightarrow> (\<exists>v. r = Inr v \<and> inv v \<and> P v)"
    if "poll_until f c w = Some r" for f c w r
    using that
  proof (induction rule: poll_until.raw_induct [rotated, consumes 1, case_names step])
    case (step loop f c w r)
    show ?case
    proof (intro impI)
      assume a: "f = prog" "c = (\<lambda>w. Inr (P w))" "inv w"
      then obtain v where v: "prog w = Inr v" "inv v"
        using prog_ok by blast
      show "\<exists>v. r = Inr v \<and> inv v \<and> P v"
        using step a v by (cases "P w") auto
    qed
  qed
  with assms show ?thesis
    by blast
qed

text \<open>It ends exactly if the condition holds after some number of calls.\<close>

lemma poll_until_ends:
  assumes "iterate prog n w = Inr u" "P u" "inv w"
  shows "\<exists>v. poll_until prog (\<lambda>w. Inr (P w)) w = Some (Inr v)"
  using assms
proof (induction n arbitrary: w)
  case 0
  then show ?case
    by (subst poll_until.simps) simp
next
  case (Suc n)
  show ?case
  proof (cases "P w")
    case True
    then show ?thesis
      by (subst poll_until.simps) simp
  next
    case False
    obtain v where v: "prog w = Inr v" "inv v"
      using prog_ok Suc.prems(3) by blast
    with Suc show ?thesis
      using False by (subst poll_until.simps) simp
  qed
qed

lemma poll_until_needs:
  assumes "poll_until prog (\<lambda>w. Inr (P w)) w = Some (Inr v)"
  shows "\<exists>n. iterate prog n w = Inr v"
proof -
  have "f = prog \<longrightarrow> c = (\<lambda>w. Inr (P w)) \<longrightarrow> (\<forall>x. r = Inr x \<longrightarrow> (\<exists>n. iterate prog n w = r))"
    if "poll_until f c w = Some r" for f c w r
    using that
  proof (induction rule: poll_until.raw_induct [rotated, consumes 1, case_names step])
    case (step loop f c w r)
    show ?case
    proof (intro impI allI)
      fix x assume a: "f = prog" "c = (\<lambda>w. Inr (P w))" "r = Inr x"
      show "\<exists>n. iterate prog n w = r"
      proof (cases "P w")
        case True
        with step.hyps a show ?thesis
          by (auto intro: exI [of _ 0])
      next
        case False
        with step.hyps a obtain u where u: "prog w = Inr u" "loop f c u = Some r"
          by (auto split: sum.splits)
        with step.IH a obtain n where "iterate prog n u = r"
          by blast
        with u(1) show ?thesis
          by (intro exI [of _ "Suc n"]) simp
      qed
    qed
  qed
  with assms show ?thesis
    by blast
qed

lemma poll_until_iff:
  assumes "inv w"
  shows "(\<exists>r. poll_until prog (\<lambda>w. Inr (P w)) w = Some r) \<longleftrightarrow> (\<exists>n u. iterate prog n w = Inr u \<and> P u)"
proof
  assume "\<exists>r. poll_until prog (\<lambda>w. Inr (P w)) w = Some r"
  then obtain v where "poll_until prog (\<lambda>w. Inr (P w)) w = Some (Inr v)" "P v"
    using poll_until_sound assms by blast
  then show "\<exists>n u. iterate prog n w = Inr u \<and> P u"
    using poll_until_needs by blast
next
  assume "\<exists>n u. iterate prog n w = Inr u \<and> P u"
  then show "\<exists>r. poll_until prog (\<lambda>w. Inr (P w)) w = Some r"
    using poll_until_ends assms by blast
qed

text \<open>A condition that reads the state and cannot fail while the invariant holds may be replaced by the
  predicate it computes.\<close>

lemma poll_until_cond:
  assumes "\<And>v. inv v \<Longrightarrow> cond v = Inr (P v)" "inv w"
  shows "poll_until prog cond w = Some r \<longleftrightarrow> poll_until prog (\<lambda>w. Inr (P w)) w = Some r"
proof -
  have "f = prog \<longrightarrow> c = cond \<longrightarrow> inv w \<longrightarrow> poll_until prog (\<lambda>w. Inr (P w)) w = Some r"
    if "poll_until f c w = Some r" for f c w r
    using that
  proof (induction rule: poll_until.raw_induct [rotated, consumes 1, case_names step])
    case (step loop f c w r)
    show ?case
    proof (intro impI)
      assume a: "f = prog" "c = cond" "inv w"
      then obtain v where v: "prog w = Inr v" "inv v"
        using prog_ok by blast
      show "poll_until prog (\<lambda>w. Inr (P w)) w = Some r"
        using step a v assms(1) [OF a(3)] by (subst poll_until.simps) (auto split: if_splits)
    qed
  qed
  moreover have "f = prog \<longrightarrow> c = (\<lambda>w. Inr (P w)) \<longrightarrow> inv w \<longrightarrow> poll_until prog cond w = Some r"
    if "poll_until f c w = Some r" for f c w r
    using that
  proof (induction rule: poll_until.raw_induct [rotated, consumes 1, case_names step])
    case (step loop f c w r)
    show ?case
    proof (intro impI)
      assume a: "f = prog" "c = (\<lambda>w. Inr (P w))" "inv w"
      then obtain v where v: "prog w = Inr v" "inv v"
        using prog_ok by blast
      show "poll_until prog cond w = Some r"
        using step a v assms(1) [OF a(3)] by (subst poll_until.simps) (auto split: if_splits)
    qed
  qed
  ultimately show ?thesis
    using assms(2) by blast
qed

end

text \<open>Counters at zero mean that nothing is pending, unless a counter has wrapped.\<close>

lemma store_inv_counter_zero:
  assumes "store_inv w" "card (pending_on w c) < 2 ^ 64"
  shows "counters w c = 0 \<longleftrightarrow> pending_on w c = {}"
proof -
  have "counters w c = 0 \<longleftrightarrow> card (pending_on w c) = 0"
    using of_nat_eq_0_bound [where ?'a = 64, of "card (pending_on w c)"] assms(2)
    unfolding store_inv_counter [OF assms(1)] by simp
  then show ?thesis
    using pending_on_finite [OF assms(1)] by (simp add: card_eq_0_iff)
qed

lemma comm_is_ready_pending:
  assumes "store_inv w" "comm_is_ready c w"
  shows "\<forall>k \<in> {Scheduled_sends c, Scheduled_recvs c, Shared_scheduled_recvs}.
    card (pending_on w k) < 2 ^ 64 \<longrightarrow> pending_on w k = {}"
  using assms store_inv_counter_zero by (auto simp: comm_is_ready_def)

end
