(* ===== verification/Mpi_Communicator.thy ===== *)
theory Mpi_Communicator
  imports Mpi_Shared_Queue Request_Api
begin

text \<open>
  The MPI transport: \<open>communicator_impl\<close> (\<open>mpi/communicator.hpp\<close>), the parts of \<open>context_impl\<close>
  (\<open>mpi/context.hpp\<close>) it uses, and what they take from \<open>communicator_base.hpp\<close>,
  \<open>context_base.hpp\<close> and \<open>increment_guard.hpp\<close>.  The communicators of a context are numbered.
\<close>

section \<open>Recursion depth\<close>

text \<open>A callback called from the posting function, inside the scope of an \<open>increment_guard\<close> on the
  recursion depth of the communicator, or of the context for a shared receive.\<close>

definition call_guarded ::
    "nat option \<Rightarrow> (('c, 'm) mpi_world \<Rightarrow> ('c, 'm) mpi_world) \<Rightarrow> ('c, 'm) mpi_world \<Rightarrow> ('c, 'm) mpi_world" where
  "call_guarded a f w =
     (case a of
        Some c \<Rightarrow>
          (let v = f (w\<lparr>m_recursion_depth := (m_recursion_depth w)(c := m_recursion_depth w c + 1)\<rparr>)
           in v\<lparr>m_recursion_depth := (m_recursion_depth v)(c := m_recursion_depth v c - 1)\<rparr>)
      | None \<Rightarrow>
          (let v = f (w\<lparr>ctx_recursion_depth := ctx_recursion_depth w + 1\<rparr>)
           in v\<lparr>ctx_recursion_depth := ctx_recursion_depth v - 1\<rparr>))"

definition depth_of :: "nat option \<Rightarrow> ('c, 'm) mpi_world \<Rightarrow> nat" where
  "depth_of a w = (case a of Some c \<Rightarrow> m_recursion_depth w c | None \<Rightarrow> ctx_recursion_depth w)"

section \<open>Posting\<close>

text \<open>The functions that start the MPI operation.  The size is converted to \<open>int\<close> by the call.\<close>

definition mpi_isend ::
    "'m mpi_lib \<Rightarrow> ptr \<Rightarrow> size_t \<Rightarrow> rank_type \<Rightarrow> tag_type \<Rightarrow> ('c, 'm) mpi_world \<Rightarrow>
     (mpi_handle \<times> ('c, 'm) mpi_world) result" where
  "mpi_isend mpi buf sz dst tag w =
     (case MPI_Isend mpi buf (ucast sz) dst tag (mpi_state w) of
        ((rc, h), m) \<Rightarrow> check_mpi rc (Inr (h, w\<lparr>mpi_state := m\<rparr>)))"

definition mpi_irecv ::
    "'m mpi_lib \<Rightarrow> ptr \<Rightarrow> size_t \<Rightarrow> rank_type \<Rightarrow> tag_type \<Rightarrow> ('c, 'm) mpi_world \<Rightarrow>
     (mpi_handle \<times> ('c, 'm) mpi_world) result" where
  "mpi_irecv mpi buf sz src tag w =
     (case MPI_Irecv mpi buf (ucast sz) src tag (mpi_state w) of
        ((rc, h), m) \<Rightarrow> check_mpi rc (Inr (h, w\<lparr>mpi_state := m\<rparr>)))"

text \<open>What follows is the same in \<open>send\<close>, \<open>recv\<close> and \<open>shared_recv\<close>: if the recursion depth allows it
  and the operation is complete, the callback is called at once and the request object returned is
  empty; otherwise a request state is made at \<open>p\<close> and queued.  \<open>a\<close> is the communicator, or none for a
  shared receive, whose depth counter and queue are the context's.\<close>

definition finish_or_queue ::
    "'m mpi_lib \<Rightarrow> ('c, 'm) callback \<Rightarrow> nat option \<Rightarrow> qid option \<Rightarrow> ptr \<Rightarrow> 'c mpi_request_state \<Rightarrow>
     ('c, 'm) mpi_world \<Rightarrow> (ptr option \<times> ('c, 'm) mpi_world) result" where
  "finish_or_queue mpi cbk a q p r w =
     bind_res
       (if has_reached_recursion_depth (depth_of a w) then Inr (False, m_req r, w)
        else bind_res (mpi_request_is_ready mpi (m_req r) (mpi_state w)) (\<lambda>(flag, h, m).
               Inr (flag, h, w\<lparr>mpi_state := m\<rparr>))) (\<lambda>(flag, h, w).
     if flag then Inr (None, call_guarded a (cbk (m_cb r) (m_rank r) (m_tag r)) w)
     else bind_res (mpi_post q p (r\<lparr>m_req := h\<rparr>) w) (\<lambda>w. Inr (Some p, w)))"

definition new_state ::
    "nat \<Rightarrow> counter_id \<Rightarrow> rank_type \<Rightarrow> tag_type \<Rightarrow> 'c \<Rightarrow> mpi_handle \<Rightarrow> 'c mpi_request_state" where
  "new_state c sched rank tag cb h =
     \<lparr>m_comm = c, m_scheduled = sched, m_rank = rank, m_tag = tag, m_cb = cb,
      m_ready = False, m_canceled = False, m_self_ptr = None, m_req = h, m_index = 0\<rparr>"

definition mpi_send ::
    "'m mpi_lib \<Rightarrow> ('c, 'm) callback \<Rightarrow> nat \<Rightarrow> ptr \<Rightarrow> ptr \<Rightarrow> size_t \<Rightarrow> rank_type \<Rightarrow> tag_type \<Rightarrow> 'c \<Rightarrow>
     ('c, 'm) mpi_world \<Rightarrow> (ptr option \<times> ('c, 'm) mpi_world) result" where
  "mpi_send mpi cbk c p buf sz dst tag cb w =
     bind_res (mpi_isend mpi buf sz dst tag w) (\<lambda>(h, w).
       finish_or_queue mpi cbk (Some c) (Some (Send_reqs c)) p
         (new_state c (Scheduled_sends c) dst tag cb h) w)"

definition mpi_recv ::
    "'m mpi_lib \<Rightarrow> ('c, 'm) callback \<Rightarrow> nat \<Rightarrow> ptr \<Rightarrow> ptr \<Rightarrow> size_t \<Rightarrow> rank_type \<Rightarrow> tag_type \<Rightarrow> 'c \<Rightarrow>
     ('c, 'm) mpi_world \<Rightarrow> (ptr option \<times> ('c, 'm) mpi_world) result" where
  "mpi_recv mpi cbk c p buf sz src tag cb w =
     bind_res (mpi_irecv mpi buf sz src tag w) (\<lambda>(h, w).
       finish_or_queue mpi cbk (Some c) (Some (Recv_reqs c)) p
         (new_state c (Scheduled_recvs c) src tag cb h) w)"

definition mpi_shared_recv ::
    "'m mpi_lib \<Rightarrow> ('c, 'm) callback \<Rightarrow> nat \<Rightarrow> ptr \<Rightarrow> ptr \<Rightarrow> size_t \<Rightarrow> rank_type \<Rightarrow> tag_type \<Rightarrow> 'c \<Rightarrow>
     ('c, 'm) mpi_world \<Rightarrow> (ptr option \<times> ('c, 'm) mpi_world) result" where
  "mpi_shared_recv mpi cbk c p buf sz src tag cb w =
     bind_res (mpi_irecv mpi buf sz src tag w) (\<lambda>(h, w).
       finish_or_queue mpi cbk None None p
         (new_state c Shared_scheduled_recvs src tag cb h) w)"

section \<open>Progress and cancellation\<close>

definition mpi_ctx_progress ::
    "'m mpi_lib \<Rightarrow> ('c, 'm) callback \<Rightarrow> ('c, 'm) mpi_world \<Rightarrow> ('c, 'm) mpi_world result" where
  "mpi_ctx_progress mpi cbk w = bind_res (sq_progress mpi cbk w) (\<lambda>(_, w). Inr w)"

definition mpi_comm_progress ::
    "'m mpi_lib \<Rightarrow> ('c, 'm) callback \<Rightarrow> nat \<Rightarrow> ('c, 'm) mpi_world \<Rightarrow> ('c, 'm) mpi_world result" where
  "mpi_comm_progress mpi cbk c w =
     bind_res (rq_progress mpi cbk (Send_reqs c) w) (\<lambda>(_, w).
     bind_res (rq_progress mpi cbk (Recv_reqs c) w) (\<lambda>(_, w).
     mpi_ctx_progress mpi cbk w))"

definition mpi_cancel_recv ::
    "'m mpi_lib \<Rightarrow> nat \<Rightarrow> ptr \<Rightarrow> ('c, 'm) mpi_world \<Rightarrow> (bool \<times> ('c, 'm) mpi_world) result" where
  "mpi_cancel_recv mpi c s w = rq_cancel mpi (Recv_reqs c) s w"

definition mpi_ctx_cancel_recv ::
    "'m mpi_lib \<Rightarrow> ptr \<Rightarrow> ('c, 'm) mpi_world \<Rightarrow> (bool \<times> ('c, 'm) mpi_world) result" where
  "mpi_ctx_cancel_recv mpi s w = sq_cancel mpi s w"

section \<open>Usable tag bits\<close>

text \<open>The computation in the constructor of \<open>context_impl\<close> from the value of the attribute
  \<open>MPI_TAG_UB\<close>, if it is set: the loop shifts \<open>tmp\<close> right until it is zero, counting, while the mask
  is shifted left.  The first argument bounds the rounds; 32 are enough for an \<open>unsigned int\<close>.\<close>

fun tag_bits_loop :: "nat \<Rightarrow> 64 word \<Rightarrow> 64 word \<Rightarrow> 32 word \<Rightarrow> 64 word \<times> 32 word" where
  "tag_bits_loop 0 tmp msk n = (msk, n)"
| "tag_bits_loop (Suc f) tmp msk n =
     (if tmp > 0 then tag_bits_loop f (drop_bit 1 tmp) (push_bit 1 msk) (n + 1) else (msk, n))"

definition num_tag_bits :: "32 word option \<Rightarrow> 32 word" where
  "num_tag_bits tag_ub =
     (let max_tag = (case tag_ub of Some t \<Rightarrow> t | None \<Rightarrow> 32767) in
      case tag_bits_loop 32 (ucast max_tag) 1 0 of (msk, n) \<Rightarrow>
        if ucast max_tag < msk - 1 then n - 1 else n)"

lemma tag_bits_loop_result:
  assumes "unat tmp < 2 ^ f" "k + f \<le> 32"
  shows "\<exists>l \<le> f. tag_bits_loop f tmp (2 ^ k) (of_nat k) = (2 ^ (k + l), of_nat (k + l)) \<and>
    unat tmp < 2 ^ l \<and> (0 < l \<longrightarrow> 2 ^ (l - 1) \<le> unat tmp)"
  using assms
proof (induction f arbitrary: tmp k)
  case (Suc f)
  show ?case
  proof (cases "tmp = 0")
    case True
    then show ?thesis
      by (intro exI [of _ 0]) simp
  next
    case False
    let ?t = "drop_bit 1 tmp"
    have half: "unat ?t = unat tmp div 2"
      by (simp add: drop_bit_eq_div unat_div)
    then have "unat ?t < 2 ^ f"
      using Suc.prems(1) by simp
    with Suc.IH [of ?t "Suc k"] Suc.prems(2) obtain l where l: "l \<le> f"
        "tag_bits_loop f ?t (2 ^ Suc k) (of_nat (Suc k)) = (2 ^ (Suc k + l), of_nat (Suc k + l))"
        "unat ?t < 2 ^ l" "0 < l \<longrightarrow> 2 ^ (l - 1) \<le> unat ?t"
      by auto
    have "push_bit 1 (2 ^ k) = (2 ^ Suc k :: 64 word)" "of_nat k + 1 = (of_nat (Suc k) :: 32 word)"
      by (simp_all add: push_bit_eq_mult)
    then have "tag_bits_loop (Suc f) tmp (2 ^ k) (of_nat k) = (2 ^ (k + Suc l), of_nat (k + Suc l))"
      using False l(2) by (simp add: word_gt_0 ac_simps)
    moreover have "unat tmp < 2 ^ Suc l"
      using l(3) half by simp
    moreover have "2 ^ (Suc l - 1) \<le> unat tmp"
    proof (cases l)
      case 0
      then show ?thesis
        using False by (simp add: unat_gt_0 Suc_leI)
    next
      case (Suc n)
      then have "2 ^ n \<le> unat tmp div 2"
        using l(4) half by simp
      then show ?thesis
        using Suc by simp
    qed
    ultimately show ?thesis
      using l(1) by (intro exI [of _ "Suc l"]) simp
  qed
qed (auto simp: unat_eq_0)

section \<open>The operations keep the invariant\<close>

text \<open>\<open>MPI_Isend\<close> and \<open>MPI_Irecv\<close> succeed and return an active handle.\<close>

definition post_ok :: "'m mpi_lib \<Rightarrow> bool" where
  "post_ok mpi \<longleftrightarrow>
     (\<forall>buf n r t m. \<exists>h m'. MPI_Isend mpi buf n r t m = ((0, h), m') \<and> h \<noteq> MPI_REQUEST_NULL) \<and>
     (\<forall>buf n r t m. \<exists>h m'. MPI_Irecv mpi buf n r t m = ((0, h), m') \<and> h \<noteq> MPI_REQUEST_NULL)"

text \<open>Everything the transport relies on.\<close>

definition mpi_ok :: "'m mpi_lib \<Rightarrow> bool" where
  "mpi_ok mpi \<longleftrightarrow> testsome_ok mpi \<and> test_ok mpi \<and> cancel_ok mpi \<and> post_ok mpi"

text \<open>Updates of the recursion depth and of the library state.\<close>

lemma inv_same_queues:
  fixes w v :: "('c, 'm) mpi_world"
  assumes "heap v = heap w" "counters v = counters w" "handles v = handles w" "queue v = queue w"
    "m_req_queue v = m_req_queue w"
  shows "mpi_inv v \<longleftrightarrow> mpi_inv w" "inflight v p \<longleftrightarrow> inflight w p"
proof -
  have "qlist v = qlist w"
    using assms by (intro qlist_eqI) auto
  with assms show "mpi_inv v \<longleftrightarrow> mpi_inv w" "inflight v p \<longleftrightarrow> inflight w p"
    using mpi_inv_cong [of v w] inflight_cong [of v w] by auto
qed

lemma call_guarded_ok:
  assumes cb: "callback_ok cbk" and inv: "mpi_inv w"
  shows "mpi_inv (call_guarded a (cbk c r t) w) \<and> cb_frame {} w (call_guarded a (cbk c r t) w)"
proof -
  define w1 where "w1 = (case a of
      Some k \<Rightarrow> w\<lparr>m_recursion_depth := (m_recursion_depth w)(k := m_recursion_depth w k + 1)\<rparr>
    | None \<Rightarrow> w\<lparr>ctx_recursion_depth := ctx_recursion_depth w + 1\<rparr>)"
  define v where "v = cbk c r t w1"
  define u where "u = call_guarded a (cbk c r t) w"
  have u: "u = (case a of
      Some k \<Rightarrow> v\<lparr>m_recursion_depth := (m_recursion_depth v)(k := m_recursion_depth v k - 1)\<rparr>
    | None \<Rightarrow> v\<lparr>ctx_recursion_depth := ctx_recursion_depth v - 1\<rparr>)"
    by (simp add: u_def v_def w1_def call_guarded_def Let_def split: option.splits)
  have 1: "mpi_inv w1" "inflight w1 p \<longleftrightarrow> inflight w p" for p
    using inv_same_queues [of w1 w] inv by (simp_all add: w1_def split: option.splits)
  have 2: "mpi_inv v" "cb_frame {} w1 v"
    using cb 1(1) unfolding callback_ok_def v_def by blast+
  have 3: "mpi_inv u" "inflight u p \<longleftrightarrow> inflight v p" for p
    using inv_same_queues [of u v] 2(1) by (simp_all add: u split: option.splits)
  have "keeps_state w u p" if "inflight w p" for p
  proof -
    have "keeps_state w1 v p"
      using 2(2) 1(2) that by (simp add: cb_frame_def)
    moreover have "heap u = heap v" "heap w1 = heap w"
      by (simp_all add: u w1_def split: option.splits)
    ultimately show ?thesis
      using 3(2) by (simp add: keeps_state_def)
  qed
  moreover have "m_recursion_depth u = m_recursion_depth w" "ctx_recursion_depth u = ctx_recursion_depth w"
    using 2(2) by (auto simp: u w1_def cb_frame_def split: option.splits)
  ultimately have "cb_frame {} w u"
    using 2(2) by (simp add: cb_frame_def) (simp add: u w1_def split: option.splits)
  with 3(1) show ?thesis
    by (simp add: u_def)
qed

text \<open>Posting: the request is finished with its callback called, or pending in the queue with its
  self reference and a request object.\<close>

lemma finish_or_queue_ok:
  fixes w :: "('c, 'm) mpi_world"
  assumes inv: "mpi_inv w" and cb: "callback_ok cbk" and ts: "test_ok mpi"
    and p: "heap w p = None" and r: "m_req r \<noteq> MPI_REQUEST_NULL"
  shows "\<exists>res v. finish_or_queue mpi cbk a q p r w = Inr (res, v) \<and> mpi_inv v \<and> cb_frame {} w v \<and>
    (res = None \<longrightarrow> \<not> has_reached_recursion_depth (depth_of a w) \<and>
       (\<exists>m. v = call_guarded a (cbk (m_cb r) (m_rank r) (m_tag r)) (w\<lparr>mpi_state := m\<rparr>))) \<and>
    (res \<noteq> None \<longrightarrow> res = Some p \<and> p \<in> set (qlist v q) \<and> pending v p \<and> handles v p = 1 \<and>
       counters v = (counters w)(m_scheduled r := counters w (m_scheduled r) + 1))"
proof -
  have inv_m: "mpi_inv (w\<lparr>mpi_state := m\<rparr>)" "cb_frame {} w (w\<lparr>mpi_state := m\<rparr>)" for m
    using inv inv_same_queues [of "w\<lparr>mpi_state := m\<rparr>" w]
    by (simp_all add: cb_frame_def keeps_state_def)
  have queue_it: "\<exists>v. mpi_post q p (r\<lparr>m_req := h\<rparr>) u = Inr v \<and> mpi_inv v \<and> cb_frame {} w v \<and>
      p \<in> set (qlist v q) \<and> pending v p \<and> handles v p = 1 \<and>
      counters v = (counters w)(m_scheduled r := counters w (m_scheduled r) + 1)"
    if u: "mpi_inv u" "cb_frame {} w u" "heap u p = None" "counters u = counters w"
      and h: "h \<noteq> MPI_REQUEST_NULL" for u h
  proof -
    have hr: "m_req (r\<lparr>m_req := h\<rparr>) \<noteq> MPI_REQUEST_NULL"
      using h by simp
    obtain v where v: "mpi_post q p (r\<lparr>m_req := h\<rparr>) u = Inr v" "mpi_inv v" "cb_frame {} u v"
      "\<And>x. qlist v x = (if x = q then qlist u x @ [p] else qlist u x)" "handles v = (handles u)(p := 1)"
      "counters v = (counters u)(m_scheduled (r\<lparr>m_req := h\<rparr>) := counters u (m_scheduled (r\<lparr>m_req := h\<rparr>)) + 1)"
      "\<exists>b. heap v p = Some b \<and> m_t b = (r\<lparr>m_req := h\<rparr>)\<lparr>m_ready := False, m_canceled := False,
         m_self_ptr := Some p, m_index := (case q of Some q \<Rightarrow> rq_size q u | None \<Rightarrow> m_index (r\<lparr>m_req := h\<rparr>))\<rparr>"
      by (rule mpi_post_ok [OF u(1,3) hr, of q]) (rule that)
    have "cb_frame {} w v"
      using cb_frame_trans [OF u(2) v(3)] by simp
    with v u(4) show ?thesis
      by (auto simp: pending_def simp del: qlist.simps)
  qed
  show ?thesis
  proof (cases "has_reached_recursion_depth (depth_of a w)")
    case True
    then show ?thesis
      using queue_it [OF inv _ p refl r] by (auto simp: finish_or_queue_def)
  next
    case False
    obtain flag h m where t: "mpi_request_is_ready mpi (m_req r) (mpi_state w) = Inr (flag, h, m)"
        "\<not> flag \<longrightarrow> h = m_req r"
      using test_ok_is_ready [OF ts] by blast
    let ?u = "w\<lparr>mpi_state := m\<rparr>"
    show ?thesis
    proof (cases flag)
      case True
      then show ?thesis
        using False t call_guarded_ok [OF cb inv_m(1), of a "m_cb r" "m_rank r" "m_tag r" m]
          cb_frame_trans [OF inv_m(2) conjunct2 [OF call_guarded_ok [OF cb inv_m(1)]],
            of a "m_cb r" "m_rank r" "m_tag r" m]
        by (auto simp: finish_or_queue_def)
    next
      case nf: False
      then show ?thesis
        using False t queue_it [OF inv_m, of m h] p r by (auto simp: finish_or_queue_def)
    qed
  qed
qed

text \<open>The state of the thread that drives a communicator: the invariant, and no poll of the shared
  queue half way.\<close>

definition mpi_state_inv :: "('c, 'm) mpi_world \<Rightarrow> bool" where
  "mpi_state_inv w \<longleftrightarrow> mpi_inv w \<and> sq_local_queue (m_req_queue w) = []"

lemma mpi_comm_progress_ok:
  assumes inv: "mpi_state_inv w" and cb: "callback_ok cbk" and mpi: "mpi_ok mpi"
  shows "\<exists>v. mpi_comm_progress mpi cbk c w = Inr v \<and> mpi_state_inv v \<and> cb_frame {} w v"
proof -
  obtain n1 w1 where 1: "rq_progress mpi cbk (Send_reqs c) w = Inr (n1, w1)" "mpi_inv w1" "cb_frame {} w w1"
    using rq_progress_ok [OF _ cb] inv mpi unfolding mpi_state_inv_def mpi_ok_def by metis
  obtain n2 w2 where 2: "rq_progress mpi cbk (Recv_reqs c) w1 = Inr (n2, w2)" "mpi_inv w2" "cb_frame {} w1 w2"
    using rq_progress_ok [OF 1(2) cb] mpi unfolding mpi_ok_def by metis
  have f2: "cb_frame {} w w2"
    using cb_frame_trans [OF 1(3) 2(3)] by simp
  then have "sq_local_queue (m_req_queue w2) = []"
    using inv by (simp add: cb_frame_def mpi_state_inv_def)
  then obtain n3 w3 where 3: "sq_progress mpi cbk w2 = Inr (n3, w3)" "mpi_inv w3" "cb_frame {} w2 w3"
    using sq_progress_ok [OF 2(2) cb] mpi unfolding mpi_ok_def by metis
  have f3: "cb_frame {} w w3"
    using cb_frame_trans [OF f2 3(3)] by simp
  then show ?thesis
    using 1 2 3 inv by (auto simp: mpi_comm_progress_def mpi_ctx_progress_def mpi_state_inv_def cb_frame_def)
qed

interpretation mpi_engine:
  progress_engine "mpi_comm_progress mpi cbk c"
    "\<lambda>w. mpi_state_inv w \<and> callback_ok cbk \<and> mpi_ok mpi"
  for mpi cbk c
  by unfold_locales (use mpi_comm_progress_ok in blast)

text \<open>The posting functions: the outcome is the one of \<open>finish_or_queue\<close> in the state after the MPI
  call.\<close>

definition posted_outcome ::
    "('c, 'm) callback \<Rightarrow> nat option \<Rightarrow> qid option \<Rightarrow> counter_id \<Rightarrow> 'c \<Rightarrow> rank_type \<Rightarrow> tag_type \<Rightarrow> ptr \<Rightarrow>
     ('c, 'm) mpi_world \<Rightarrow> ptr option \<Rightarrow> ('c, 'm) mpi_world \<Rightarrow> bool" where
  "posted_outcome cbk a q sched cb rank tag p w res v \<longleftrightarrow>
     mpi_inv v \<and> cb_frame {} w v \<and>
     (case res of
        None \<Rightarrow> \<not> has_reached_recursion_depth (depth_of a w) \<and>
          (\<exists>m. v = call_guarded a (cbk cb rank tag) (w\<lparr>mpi_state := m\<rparr>))
      | Some p' \<Rightarrow> p' = p \<and> p \<in> set (qlist v q) \<and> pending v p \<and> handles v p = 1 \<and>
          counters v = (counters w)(sched := counters w sched + 1))"

lemma finish_or_queue_outcome:
  fixes w :: "('c, 'm) mpi_world"
  assumes inv: "mpi_inv w" and cb: "callback_ok cbk" and ts: "test_ok mpi"
    and p: "heap w p = None" and h: "h \<noteq> MPI_REQUEST_NULL"
  shows "\<exists>res v. finish_or_queue mpi cbk a q p (new_state c sched rank tag cb h) (w\<lparr>mpi_state := m\<rparr>) = Inr (res, v) \<and>
    posted_outcome cbk a q sched cb rank tag p w res v"
proof -
  let ?w = "w\<lparr>mpi_state := m\<rparr>"
  have i: "mpi_inv ?w" "cb_frame {} w ?w"
    using inv inv_same_queues [of ?w w] by (simp_all add: cb_frame_def keeps_state_def)
  have hp: "heap ?w p = None" "m_req (new_state c sched rank tag cb h) \<noteq> MPI_REQUEST_NULL"
    using p h by (simp_all add: new_state_def)
  obtain res v where v: "finish_or_queue mpi cbk a q p (new_state c sched rank tag cb h) ?w = Inr (res, v)"
      "mpi_inv v" "cb_frame {} ?w v"
      "res = None \<longrightarrow> \<not> has_reached_recursion_depth (depth_of a ?w) \<and>
        (\<exists>m. v = call_guarded a (cbk cb rank tag) (?w\<lparr>mpi_state := m\<rparr>))"
      "res \<noteq> None \<longrightarrow> res = Some p \<and> p \<in> set (qlist v q) \<and> pending v p \<and> handles v p = 1 \<and>
        counters v = (counters w)(sched := counters w sched + 1)"
    using finish_or_queue_ok [OF i(1) cb ts hp, of a q] by (auto simp: new_state_def)
  have "cb_frame {} w v"
    using cb_frame_trans [OF i(2) v(3)] by simp
  moreover have "depth_of a ?w = depth_of a w"
    by (simp add: depth_of_def split: option.splits)
  ultimately show ?thesis
    using v by (cases res) (auto simp: posted_outcome_def)
qed

lemma mpi_posts_ok:
  fixes w :: "('c, 'm) mpi_world"
  assumes "mpi_inv w" "callback_ok cbk" "mpi_ok mpi" "heap w p = None"
  shows "\<exists>res v. mpi_send mpi cbk c p buf sz dst tag cb w = Inr (res, v) \<and>
      posted_outcome cbk (Some c) (Some (Send_reqs c)) (Scheduled_sends c) cb dst tag p w res v"
    and "\<exists>res v. mpi_recv mpi cbk c p buf sz src tag cb w = Inr (res, v) \<and>
      posted_outcome cbk (Some c) (Some (Recv_reqs c)) (Scheduled_recvs c) cb src tag p w res v"
    and "\<exists>res v. mpi_shared_recv mpi cbk c p buf sz src tag cb w = Inr (res, v) \<and>
      posted_outcome cbk None None Shared_scheduled_recvs cb src tag p w res v"
proof -
  have ts: "test_ok mpi" and po: "post_ok mpi"
    using assms(3) by (simp_all add: mpi_ok_def)
  note fin = finish_or_queue_outcome [OF assms(1,2) ts assms(4)]
  obtain h m where "MPI_Isend mpi buf (ucast sz) dst tag (mpi_state w) = ((0, h), m)" "h \<noteq> MPI_REQUEST_NULL"
    using po unfolding post_ok_def by blast
  then show "\<exists>res v. mpi_send mpi cbk c p buf sz dst tag cb w = Inr (res, v) \<and>
      posted_outcome cbk (Some c) (Some (Send_reqs c)) (Scheduled_sends c) cb dst tag p w res v"
    using fin by (simp add: mpi_send_def mpi_isend_def check_mpi_def)
  obtain h m where "MPI_Irecv mpi buf (ucast sz) src tag (mpi_state w) = ((0, h), m)" "h \<noteq> MPI_REQUEST_NULL"
    using po unfolding post_ok_def by blast
  then show "\<exists>res v. mpi_recv mpi cbk c p buf sz src tag cb w = Inr (res, v) \<and>
      posted_outcome cbk (Some c) (Some (Recv_reqs c)) (Scheduled_recvs c) cb src tag p w res v"
    and "\<exists>res v. mpi_shared_recv mpi cbk c p buf sz src tag cb w = Inr (res, v) \<and>
      posted_outcome cbk None None Shared_scheduled_recvs cb src tag p w res v"
    using fin by (simp_all add: mpi_recv_def mpi_shared_recv_def mpi_irecv_def check_mpi_def)
qed

end
