(* ===== verification/Mpi_Example.thy ===== *)
theory Mpi_Example
  imports Mpi_Communicator
begin

text \<open>
  A small MPI library that keeps the contracts the transport relies on, and states reached with it.
  They show that the hypotheses of the MPI properties can hold together, and give the concrete
  inputs at which the properties are evaluated.  Operations are numbered; which of them are complete
  is part of the library state, as is a log of the calls the application's callbacks make.
\<close>

record ex_lib =
  next_op :: nat
  complete_ops :: "nat list"
  calls :: "(nat \<times> rank_type \<times> tag_type) list"

definition ex_complete :: "mpi_handle \<Rightarrow> ex_lib \<Rightarrow> bool" where
  "ex_complete h m = (case h of MPI_REQUEST_NULL \<Rightarrow> False | MPI_Handle k \<Rightarrow> k \<in> set (complete_ops m))"

definition ex_start :: "ex_lib \<Rightarrow> (int \<times> mpi_handle) \<times> ex_lib" where
  "ex_start m = ((0, MPI_Handle (next_op m)), m\<lparr>next_op := next_op m + 1\<rparr>)"

definition ex_test :: "mpi_handle \<Rightarrow> ex_lib \<Rightarrow> (int \<times> mpi_handle \<times> bool) \<times> ex_lib" where
  "ex_test h m =
     (if h = MPI_REQUEST_NULL \<or> ex_complete h m then ((0, MPI_REQUEST_NULL, True), m) else ((0, h, False), m))"

definition ex_indices :: "mpi_handle list \<Rightarrow> ex_lib \<Rightarrow> int list" where
  "ex_indices hs m = map int (filter (\<lambda>i. ex_complete (hs ! i) m) [0..<length hs])"

text \<open>\<open>-32766\<close> is the value of \<open>MPI_UNDEFINED\<close> in common implementations.\<close>

definition ex_testsome :: "mpi_handle list \<Rightarrow> ex_lib \<Rightarrow> (int \<times> mpi_handle list \<times> int \<times> int list) \<times> ex_lib" where
  "ex_testsome hs m =
     (if \<forall>h \<in> set hs. h = MPI_REQUEST_NULL then ((0, hs, -32766, []), m)
      else ((0, map (\<lambda>h. if ex_complete h m then MPI_REQUEST_NULL else h) hs,
             int (length (ex_indices hs m)), ex_indices hs m), m))"

definition ex_mpi :: "ex_lib mpi_lib" where
  "ex_mpi = \<lparr>
     MPI_Isend = (\<lambda>_ _ _ _. ex_start), MPI_Irecv = (\<lambda>_ _ _ _. ex_start), MPI_Test = ex_test,
     MPI_Testsome = ex_testsome, MPI_Cancel = (\<lambda>_ m. (0, m)),
     MPI_Wait = (\<lambda>h m. ((0, MPI_REQUEST_NULL, if ex_complete h m then 0 else 1), m)),
     MPI_Test_cancelled = (\<lambda>st m. ((0, st = 1), m))\<rparr>"

lemma ex_mpi_ok: "mpi_ok ex_mpi"
proof -
  have "sorted_wrt (<) (ex_indices hs m) \<and> set (ex_indices hs m) \<subseteq> {0..<int (length hs)}" for hs m
    by (auto simp: ex_indices_def sorted_wrt_map intro!: sorted_wrt_filter)
  then have "testsome_ok ex_mpi"
    by (auto simp: testsome_ok_def ex_mpi_def ex_testsome_def)
  moreover have "test_ok ex_mpi"
    by (auto simp: test_ok_def ex_mpi_def ex_test_def)
  ultimately show ?thesis
    by (simp add: mpi_ok_def cancel_ok_def post_ok_def ex_mpi_def ex_start_def)
qed

text \<open>Application callbacks that only log.\<close>

definition log_call :: "nat \<Rightarrow> rank_type \<Rightarrow> tag_type \<Rightarrow> ex_lib env \<Rightarrow> ex_lib env" where
  "log_call c r t = map_prod id (\<lambda>m. m\<lparr>calls := calls m @ [(c, r, t)]\<rparr>)"

abbreviation ex_cb :: "(nat, ex_lib) callback" where
  "ex_cb \<equiv> extern_cb log_call"

text \<open>The initial state of a process.\<close>

definition empty_queue :: request_queue where
  "empty_queue = \<lparr>m_queue = [], m_ready_queue = [], in_progress = False, reqs = [], indices = []\<rparr>"

definition init_world :: "'m \<Rightarrow> ('c, 'm) mpi_world" where
  "init_world m = \<lparr>heap = (\<lambda>_. None), counters = (\<lambda>_. 0), handles = (\<lambda>_. 0), api = empty_api,
     queue = (\<lambda>_. empty_queue),
     m_req_queue = \<lparr>sq_queue = [], sq_size = 0, sq_in_progress = False, sq_local_queue = []\<rparr>,
     m_recursion_depth = (\<lambda>_. 0), ctx_recursion_depth = 0, mpi_state = m\<rparr>"

lemma init_world_inv: "mpi_inv (init_world m :: ('c, 'm) mpi_world)"
proof -
  define w :: "('c, 'm) mpi_world" where "w = init_world m"
  have "store_inv w"
    by (simp add: w_def store_inv_def init_world_def owned_def request_refs_def pending_def pending_on_def)
  moreover have ql: "qlist w a = []" for a
    by (cases a) (simp_all add: w_def init_world_def empty_queue_def)
  have "queues_inv w"
  proof (rule queues_invI)
    show "m_index (m_t b) = i \<and> m_req (m_t b) \<noteq> MPI_REQUEST_NULL"
      if "i < length (m_queue (queue w q))" for q i b
      using that ql [of "Some q"] by simp
  qed (use ql in \<open>simp_all add: queued_def\<close>)
  ultimately show ?thesis
    by (simp add: mpi_inv_def w_def)
qed

text \<open>Two receives are posted on communicator 0, at the addresses 1 and 2, with the callbacks 10 and
  11.  Neither is complete; \<open>ex_world ops\<close> is the state when the operations \<open>ops\<close> have completed
  since.\<close>

definition ex_lib0 :: ex_lib where
  "ex_lib0 = \<lparr>next_op = 0, complete_ops = [], calls = []\<rparr>"

definition ex_state :: "nat \<Rightarrow> nat \<Rightarrow> rank_type \<Rightarrow> tag_type \<Rightarrow> nat \<Rightarrow> nat mpi_request_state" where
  "ex_state p cb r t i = \<lparr>m_comm = 0, m_scheduled = Scheduled_recvs 0, m_rank = r, m_tag = t, m_cb = cb,
     m_ready = False, m_canceled = False, m_self_ptr = Some p, m_req = MPI_Handle i, m_index = i\<rparr>"

definition ex_world :: "nat list \<Rightarrow> (nat, ex_lib) mpi_world" where
  "ex_world ops = (init_world \<lparr>next_op = 2, complete_ops = ops, calls = []\<rparr>)
     \<lparr>heap := [1 \<mapsto> \<lparr>m_ref_count = 2, m_t = ex_state 1 10 5 7 0\<rparr>, 2 \<mapsto> \<lparr>m_ref_count = 2, m_t = ex_state 2 11 6 8 1\<rparr>],
      counters := (\<lambda>_. 0)(Scheduled_recvs 0 := 2), handles := (\<lambda>_. 0)(1 := 1, 2 := 1),
      queue := (\<lambda>_. empty_queue)(Recv_reqs 0 := empty_queue\<lparr>m_queue := [1, 2]\<rparr>)\<rparr>"

definition ex_world1 :: "(nat, ex_lib) mpi_world" where
  "ex_world1 = (init_world \<lparr>next_op = 1, complete_ops = [], calls = []\<rparr>)
     \<lparr>heap := [1 \<mapsto> \<lparr>m_ref_count = 2, m_t = ex_state 1 10 5 7 0\<rparr>],
      counters := (\<lambda>_. 0)(Scheduled_recvs 0 := 1), handles := (\<lambda>_. 0)(1 := 1),
      queue := (\<lambda>_. empty_queue)(Recv_reqs 0 := empty_queue\<lparr>m_queue := [1]\<rparr>)\<rparr>"

lemmas ex_simps =
  mpi_recv_def mpi_irecv_def finish_or_queue_def mpi_request_is_ready_def mpi_post_def post_request_eq
  posted_def rq_enqueue_def modify_state_def load_state_def store_state_def move_to_handle_def
  upd_queue_def rq_size_def new_state_def check_mpi_def has_reached_recursion_depth_def depth_of_def
  OOMPH_RECURSION_DEPTH_def ex_mpi_def ex_start_def ex_test_def ex_complete_def init_world_def
  empty_queue_def ex_state_def

lemma ex_world1_post:
  "mpi_recv ex_mpi ex_cb 0 1 100 8 5 7 10 (init_world ex_lib0) = Inr (Some 1, ex_world1)"
  by (simp add: ex_simps ex_lib0_def ex_world1_def)

lemma ex_world_post:
  "mpi_recv ex_mpi ex_cb 0 2 200 8 6 8 11 ex_world1 = Inr (Some 2, ex_world [])"
  by (simp add: ex_simps ex_lib0_def ex_world1_def ex_world_def)

lemma ex_world1_inv: "mpi_inv ex_world1"
  using mpi_posts_ok(2) [OF init_world_inv [of ex_lib0] callback_ok_extern [of log_call] ex_mpi_ok,
      where p = 1 and c = 0 and buf = 100 and sz = 8 and src = 5 and tag = 7 and cb = 10]
  unfolding ex_world1_post by (simp add: posted_outcome_def init_world_def)

lemma ex_world_inv: "mpi_inv (ex_world ops)"
proof -
  have "mpi_inv (ex_world [])"
    using mpi_posts_ok(2) [OF ex_world1_inv callback_ok_extern [of log_call] ex_mpi_ok,
      where p = 2 and c = 0 and buf = 200 and sz = 8 and src = 6 and tag = 8 and cb = 11]
    unfolding ex_world_post by (simp add: posted_outcome_def ex_world1_def)
  then show ?thesis
    using inv_same_queues(1) [of "ex_world ops" "ex_world []"] by (simp add: ex_world_def init_world_def)
qed

text \<open>One shared receive is posted; the operations \<open>ops\<close> are complete.\<close>

definition ex_shared :: "nat list \<Rightarrow> (nat, ex_lib) mpi_world" where
  "ex_shared ops = (init_world \<lparr>next_op = 1, complete_ops = ops, calls = []\<rparr>)
     \<lparr>heap := [1 \<mapsto> \<lparr>m_ref_count = 2, m_t = (ex_state 1 10 5 7 0)\<lparr>m_scheduled := Shared_scheduled_recvs\<rparr>\<rparr>],
      counters := (\<lambda>_. 0)(Shared_scheduled_recvs := 1), handles := (\<lambda>_. 0)(1 := 1),
      m_req_queue := \<lparr>sq_queue = [1], sq_size = 1, sq_in_progress = False, sq_local_queue = []\<rparr>\<rparr>"

lemma ex_shared_post:
  "mpi_shared_recv ex_mpi ex_cb 0 1 100 8 5 7 10 (init_world ex_lib0) = Inr (Some 1, ex_shared [])"
  by (simp add: mpi_shared_recv_def sq_enqueue_def upd_shared_def ex_simps ex_lib0_def ex_shared_def)

lemma ex_shared_inv: "mpi_state_inv (ex_shared ops)"
proof -
  have "mpi_inv (ex_shared [])"
    using mpi_posts_ok(3) [OF init_world_inv [of ex_lib0] callback_ok_extern [of log_call] ex_mpi_ok,
      where p = 1 and c = 0 and buf = 100 and sz = 8 and src = 5 and tag = 7 and cb = 10]
    unfolding ex_shared_post by (simp add: posted_outcome_def init_world_def)
  then have "mpi_inv (ex_shared ops)"
    using inv_same_queues(1) [of "ex_shared ops" "ex_shared []"] by (simp add: ex_shared_def init_world_def)
  then show ?thesis
    by (simp add: mpi_state_inv_def) (simp add: ex_shared_def)
qed

end
