(* ===== verification/Mpi_Properties.thy ===== *)
theory Mpi_Properties
  imports Mpi_Example
begin

text \<open>
  The properties of the MPI transport: its request queues, posting, progress, waiting, cancellation
  and the number of tag bits.
\<close>

section \<open>Request queue\<close>

lemma ready_of_nths: "ready_of idx 0 xs = map ((!) xs) (filter (\<lambda>i. int i \<in> set idx) [0..<length xs])"
proof -
  have "enumerate 0 xs = map (\<lambda>i. (i, xs ! i)) [0..<length xs]"
    by (rule nth_equalityI) (simp_all add: nth_enumerate_eq)
  then show ?thesis
    by (simp add: ready_of_def filter_map comp_def)
qed

lemma kept_of_nths: "kept_of idx 0 xs = map ((!) xs) (filter (\<lambda>i. int i \<notin> set idx) [0..<length xs])"
proof -
  have "enumerate 0 xs = map (\<lambda>i. (i, xs ! i)) [0..<length xs]"
    by (rule nth_equalityI) (simp_all add: nth_enumerate_eq)
  then show ?thesis
    by (simp add: kept_of_def filter_map comp_def)
qed

text \<open>C1: the in-place loop of \<open>request_queue::progress\<close> computes the partition of the queue it is
  meant to.  Given the increasing positions MPI reports, followed by the sentinel, it collects the
  elements at these positions in order, moves the others to the front in order, and leaves every
  element that stays with its new position in \<open>m_index\<close>.\<close>

theorem compaction_partitions:
  assumes "mpi_inv w" "m_queue (queue w q) = xs" "m_ready_queue (queue w q) = []"
    and "indices (queue w q) = idx @ int (length xs) # rest" "sorted_wrt (<) idx"
    and "set idx \<subseteq> {0..<int (length xs)}"
  shows "\<exists>v ks. rq_compact q (length xs) 0 0 0 w = Inr v \<and>
    m_ready_queue (queue v q) = map ((!) xs) (filter (\<lambda>i. int i \<in> set idx) [0..<length xs]) \<and>
    ks = map ((!) xs) (filter (\<lambda>i. int i \<notin> set idx) [0..<length xs]) \<and>
    take (length (m_queue (queue v q)) - length idx) (m_queue (queue v q)) = ks \<and>
    (\<forall>j < length ks. \<exists>b. heap v (ks ! j) = Some b \<and> m_index (m_t b) = j)"
proof -
  let ?ks = "kept_of idx 0 xs"
  obtain H Q where HQ:
    "rq_compact q (length xs) 0 0 0 w = Inr (w\<lparr>heap := H, queue := (queue w)(q := (queue w q)
       \<lparr>m_queue := Q, m_ready_queue := ready_of idx 0 xs\<rparr>)\<rparr>)"
    "take (length Q - length idx) Q = ?ks"
    "mpi_inv (w\<lparr>heap := H, queue := (queue w)(q := (queue w q)
       \<lparr>m_queue := ?ks, m_ready_queue := ready_of idx 0 xs\<rparr>)\<rparr>)"
    by (rule rq_collect [OF assms]) (rule that)
  have "\<exists>b. H (?ks ! j) = Some b \<and> m_index (m_t b) = j" if "j < length ?ks" for j
    by (rule queue_index [OF HQ(3), of j q "?ks ! j"]) (use that in auto)
  with HQ(1,2) show ?thesis
    by (intro exI [of _ "w\<lparr>heap := H, queue := (queue w)(q := (queue w q)
       \<lparr>m_queue := Q, m_ready_queue := ready_of idx 0 xs\<rparr>)\<rparr>"] exI [of _ ?ks])
       (simp add: ready_of_nths kept_of_nths)
qed

theorem compaction_partitions_witness:
  "\<exists>v. rq_compact (Recv_reqs 0) 2 0 0 0
      (upd_queue (Recv_reqs 0) (indices_update (\<lambda>_. [0, 2, 0])) (ex_world [0])) = Inr v \<and>
    m_ready_queue (queue v (Recv_reqs 0)) = [1] \<and>
    take 1 (m_queue (queue v (Recv_reqs 0))) = [2]"
proof -
  let ?w = "upd_queue (Recv_reqs 0) (indices_update (\<lambda>_. [0, 2, 0])) (ex_world [0])"
  have inv: "mpi_inv ?w"
    using ex_world_inv [of "[0]"] by (subst mpi_inv_cong) (auto intro!: qlist_eqI simp: upd_queue_def)
  have q: "m_queue (queue ?w (Recv_reqs 0)) = [1, 2]" "m_ready_queue (queue ?w (Recv_reqs 0)) = []"
      "indices (queue ?w (Recv_reqs 0)) = [0] @ int (length [1::nat, 2]) # [0]"
    by (simp_all add: upd_queue_def ex_world_def init_world_def empty_queue_def)
  obtain v ks where v: "rq_compact (Recv_reqs 0) 2 0 0 0 ?w = Inr v"
      "m_ready_queue (queue v (Recv_reqs 0)) = [1]" "ks = [2]"
      "take (length (m_queue (queue v (Recv_reqs 0))) - 1) (m_queue (queue v (Recv_reqs 0))) = ks"
    using compaction_partitions [OF inv q] by (auto simp: upt_rec numeral_2_eq_2)
  then have "take 1 (m_queue (queue v (Recv_reqs 0))) = [2]"
    by (cases "m_queue (queue v (Recv_reqs 0))") (auto simp: take_Cons split: nat.splits)
  with v show ?thesis
    by blast
qed



section \<open>Posting, progress and waiting\<close>







section \<open>Cancellation\<close>



text \<open>C34: when MPI does not cancel the receive because it is already matched, \<open>cancel\<close> reports so, but
  the wait it performs has released the handle of a request that stays queued.  If it is the only
  one, the next \<open>progress\<close> gets \<open>MPI_UNDEFINED\<close> from \<open>MPI_Testsome\<close>, which is negative and not
  handled, and writes outside of \<open>indices\<close>.\<close>

theorem cancel_missed:
  fixes w :: "('c, 'm) mpi_world"
  assumes inv: "mpi_inv w" and q: "m_queue (queue w q) = [p]" "\<not> in_progress (queue w q)"
    and c: "mpi_request_cancel mpi (m_req (state_of w p)) (mpi_state w) = Inr (False, MPI_REQUEST_NULL, m)"
    and undef: "MPI_Testsome mpi [MPI_REQUEST_NULL] m = ((0, hs, k, []), m')" "k < 0"
  shows "\<exists>v. rq_cancel mpi q p w = Inr (False, v) \<and> m_queue (queue v q) = [p] \<and> pending v p \<and>
    rq_progress mpi cbk q v = Inl (Undefined_behaviour ''indices[outcount] out of range'')"
proof -
  have q0: "0 < length (m_queue (queue w q))" "p = m_queue (queue w q) ! 0"
    using q(1) by simp_all
  obtain b where b: "heap w p = Some b" "waiting (m_t b) p" "m_index (m_t b) = 0"
    using queue_index [OF inv q0] by blast
  let ?v = "store_state p (m_req_update (\<lambda>_. MPI_REQUEST_NULL)) (w\<lparr>mpi_state := m\<rparr>)"
  have "rq_cancel mpi q p w = Inr (False, ?v)"
    using b q(1) c by (simp add: rq_cancel_def load_state_def rq_size_def state_of_def Let_def)
  moreover have "pending ?v p"
    using b by (simp add: pending_def store_state_def waiting_def)
  moreover have "rq_progress mpi cbk q ?v = Inl (Undefined_behaviour ''indices[outcount] out of range'')"
    using b q undef
    by (simp add: rq_progress_def rq_size_def upd_queue_def Let_def load_state_def store_state_def check_mpi_def)
  ultimately show ?thesis
    using q(1) by auto
qed

theorem cancel_missed_witness:
  "\<exists>v. rq_cancel ex_mpi (Recv_reqs 0) 1
        (ex_world1\<lparr>mpi_state := \<lparr>next_op = 1, complete_ops = [0], calls = []\<rparr>\<rparr>) = Inr (False, v) \<and>
    rq_progress ex_mpi ex_cb (Recv_reqs 0) v = Inl (Undefined_behaviour ''indices[outcount] out of range'')"
proof -
  let ?m = "\<lparr>next_op = 1, complete_ops = [0], calls = []\<rparr> :: ex_lib"
  let ?w = "ex_world1\<lparr>mpi_state := ?m\<rparr>"
  have inv: "mpi_inv ?w"
    using inv_same_queues(1) [of ?w ex_world1] ex_world1_inv by simp
  have q: "m_queue (queue ?w (Recv_reqs 0)) = [1]" "\<not> in_progress (queue ?w (Recv_reqs 0))"
    by (simp_all add: ex_world1_def init_world_def empty_queue_def)
  have c: "mpi_request_cancel ex_mpi (m_req (state_of ?w 1)) (mpi_state ?w) = Inr (False, MPI_REQUEST_NULL, ?m)"
    by (simp add: mpi_request_cancel_def ex_mpi_def ex_complete_def check_mpi_def state_of_def
        ex_world1_def init_world_def ex_state_def)
  have u: "MPI_Testsome ex_mpi [MPI_REQUEST_NULL] ?m = ((0, [MPI_REQUEST_NULL], -32766, []), ?m)"
    by (simp add: ex_mpi_def ex_testsome_def)
  from cancel_missed [OF inv q c u] show ?thesis
    by auto
qed

text \<open>Cancelling a request whose completion is being processed, which a callback can do since
  the request is not ready yet: it has left the queue, but its index still names a position.  The
  call then cancels the MPI operation of whatever request is there now and drops that request from
  the queue.  It stays pending, with no queue that would ever complete it, although nobody cancelled
  it.\<close>

theorem cancel_inflight_drops_another:
  fixes w :: "('c, 'm) mpi_world"
  assumes inv: "mpi_inv w" and p: "inflight w p" "heap w p = Some b" "m_self_ptr (m_t b) = Some p"
    and i: "m_index (m_t b) = i" "i < length (m_queue (queue w q))" "x = m_queue (queue w q) ! i"
    and c: "mpi_request_cancel mpi (m_req (state_of w x)) (mpi_state w) = Inr (True, h, m)"
  shows "\<exists>v. rq_cancel mpi q p w = Inr (True, v) \<and> x \<noteq> p \<and> inflight v x \<and>
    x \<notin> set (m_queue (queue v q))"
proof -
  let ?xs = "m_queue (queue w q)"
  let ?w1 = "store_state x (m_req_update (\<lambda>_. h)) (w\<lparr>mpi_state := m\<rparr>)"
  obtain bx where bx: "heap w x = Some bx" "waiting (m_t bx) x"
    using queue_index [OF inv i(2,3)] by blast
  have qx: "queued w x"
    using i qlist_queued [of x w "Some q"] by simp
  then have xp: "x \<noteq> p"
    using p(1) by (auto simp: inflight_def)
  have lq: "last ?xs \<in> set ?xs"
    using i(2) by (cases ?xs) auto
  then have ql: "queued w (last ?xs)"
    using qlist_queued [of "last ?xs" w "Some q"] by simp
  then obtain bl where bl: "heap w (last ?xs) = Some bl"
    using queued_waiting [OF inv] by blast
  have lp: "last ?xs \<noteq> p"
    using ql p(1) by (auto simp: inflight_def)
  define v where "v = completed mark_canceled p (rq_unlink q i ?w1)"
  have run: "rq_cancel mpi q p w = Inr (True, v)"
    unfolding v_def using rq_cancel_eq [OF p(2,3) i(1,2,3) bx(1) bl lp] c bx(1)
    by (simp add: state_of_def)
  have dx: "distinct ?xs"
    using inv by (metis mpi_inv_def qlist.simps(2) queues_inv_def)
  have "set (m_queue (queue v q)) = set ?xs - {x}"
    using set_swap_remove [OF i(2) dx] i(3)
    by (simp add: v_def rq_unlink_def Let_def upd_queue_def)
  moreover have "x \<notin> set (qlist v a)" if "a \<noteq> Some q" for a
  proof -
    have "qlist v a = qlist w a"
      using that by (cases a) (auto simp: v_def rq_unlink_def Let_def upd_queue_def)
    moreover have "set (qlist w a) \<inter> set (qlist w (Some q)) = {}"
      using inv that unfolding mpi_inv_def queues_inv_def by blast
    ultimately show ?thesis
      using i(2,3) by auto
  qed
  ultimately have "\<not> queued v x"
    unfolding queued_def by (metis DiffD2 insertI1 qlist.simps(2))
  moreover have "pending v x"
    using bx xp by (auto simp: v_def pending_def completed_other rq_unlink_def Let_def upd_queue_def
        store_state_def waiting_def)
  ultimately show ?thesis
    using run xp by (auto simp: inflight_def queued_iff)
qed

theorem cancel_inflight_drops_another_witness:
  "\<exists>v. rq_cancel ex_mpi (Recv_reqs 0) 1 (rq_unlink (Recv_reqs 0) 0 (ex_world [0])) = Inr (True, v) \<and>
    inflight v 2 \<and> 2 \<notin> set (m_queue (queue v (Recv_reqs 0)))"
proof -
  let ?u = "ex_world [0]"
  let ?w = "rq_unlink (Recv_reqs 0) 0 ?u"
  let ?b = "\<lparr>m_ref_count = 2, m_t = ex_state 1 10 5 7 0\<rparr> :: nat mpi_request_state control_block"
  have qu: "m_queue (queue ?u (Recv_reqs 0)) = [1, 2]"
    by (simp add: ex_world_def init_world_def empty_queue_def)
  have u: "0 < length (m_queue (queue ?u (Recv_reqs 0)))" "1 = m_queue (queue ?u (Recv_reqs 0)) ! 0"
    unfolding qu by simp_all
  have hu: "heap ?u 1 = Some ?b"
    by (simp add: ex_world_def init_world_def)
  note un = mpi_inv_unlink [OF ex_world_inv u]
  have b: "heap ?w 1 = Some ?b"
    using un(3) hu by simp
  have "pending ?w 1"
    unfolding pending_def b by (simp add: ex_state_def)
  with un(2) have fl: "inflight ?w 1"
    by (simp add: inflight_def)
  have q: "m_queue (queue ?w (Recv_reqs 0)) = [2]"
    using qu by (simp add: rq_unlink_def Let_def upd_queue_def swap_remove_def)
  have s: "m_self_ptr (m_t ?b) = Some 1" "m_index (m_t ?b) = 0"
    by (simp_all add: ex_state_def)
  have w2: "0 < length (m_queue (queue ?w (Recv_reqs 0)))" "2 = m_queue (queue ?w (Recv_reqs 0)) ! 0"
    unfolding q by simp_all
  have "mpi_request_cancel ex_mpi (m_req (state_of ?w 2)) (mpi_state ?w) =
      Inr (True, MPI_REQUEST_NULL, mpi_state ?w)"
    using qu by (simp add: mpi_request_cancel_def ex_mpi_def ex_complete_def check_mpi_def state_of_def
        rq_unlink_def Let_def upd_queue_def store_state_def ex_world_def init_world_def ex_state_def)
  from cancel_inflight_drops_another [OF un(1) fl b s w2 this] show ?thesis
    by blast
qed

section \<open>Shared queue\<close>

text \<open>\<open>m_size\<close> is the number of elements of the queue.\<close>

definition size_exact :: "('c, 'm) mpi_world \<Rightarrow> bool" where
  "size_exact w \<longleftrightarrow> sq_size (m_req_queue w) = of_nat (length (sq_queue (m_req_queue w)))"

text \<open>The shared queue.  Progress completes at most one request, the one it takes out of the
  queue, keeps the others, and keeps \<open>m_size\<close> equal to the number of elements (for callbacks with an
  outside effect).  Cancelling a request takes it out of the queue as well but leaves \<open>m_size\<close> as it
  was, so that from then on \<open>size\<close> reports one element too many.\<close>

theorem shared_queue_size:
  fixes w :: "('c, 'm) mpi_world"
  assumes inv: "mpi_state_inv w" and np: "\<not> sq_in_progress (m_req_queue w)" and mpi: "mpi_ok mpi"
    and sz: "size_exact w"
  shows "(\<exists>n v. sq_progress mpi (extern_cb f) w = Inr (n, v) \<and> n \<le> 1 \<and> size_exact v \<and>
      length (sq_queue (m_req_queue v)) + n = length (sq_queue (m_req_queue w))) \<and>
    (\<forall>e v. sq_cancel mpi e w = Inr (True, v) \<longrightarrow>
      length (sq_queue (m_req_queue v)) + 1 = length (sq_queue (m_req_queue w)) \<and>
      sq_size (m_req_queue v) = of_nat (length (sq_queue (m_req_queue v))) + 1)"
proof (intro conjI allI impI)
  have i: "mpi_inv w" "sq_local_queue (m_req_queue w) = []" and ts: "test_ok mpi" and co: "cancel_ok mpi"
    using inv mpi by (simp_all add: mpi_state_inv_def mpi_ok_def)
  show "length (sq_queue (m_req_queue v)) + 1 = length (sq_queue (m_req_queue w))"
    and "sq_size (m_req_queue v) = of_nat (length (sq_queue (m_req_queue v))) + 1"
    if "sq_cancel mpi e w = Inr (True, v)" for e v
  proof -
    have "e \<in> set (sq_queue (m_req_queue w)) \<and> sq_queue (m_req_queue v) = remove1 e (sq_queue (m_req_queue w)) \<and>
        sq_size (m_req_queue v) = sq_size (m_req_queue w)"
      by (rule sq_cancel_ok [OF i(1) co, of e]) (use that in auto)
    then have e: "length (sq_queue (m_req_queue w)) = length (sq_queue (m_req_queue v)) + 1"
        "sq_size (m_req_queue v) = sq_size (m_req_queue w)"
      by (auto simp: length_remove1) (metis Suc_pred length_pos_if_in_set)
    then show "length (sq_queue (m_req_queue v)) + 1 = length (sq_queue (m_req_queue w))"
      by simp
    show "sq_size (m_req_queue v) = of_nat (length (sq_queue (m_req_queue v))) + 1"
      using e sz by (simp add: size_exact_def)
  qed
  obtain found u where u: "sq_progress mpi (extern_cb f) w = (case found of
        None \<Rightarrow> Inr (0, upd_shared (sq_in_progress_update (\<lambda>_. False)) u)
      | Some e \<Rightarrow> bind_res (complete_request (extern_cb f) e u) (\<lambda>w. Inr (1,
          upd_shared (\<lambda>s. s\<lparr>sq_size := sq_size s - 1, sq_in_progress := False\<rparr>) w)))"
    "mpi_inv u" "sq_size (m_req_queue u) = sq_size (m_req_queue w)" "queue u = queue w"
    "\<And>p. queued w p \<Longrightarrow> \<exists>b. heap u p = Some b \<and> waiting (m_t b) p"
    "mset (sq_queue (m_req_queue w)) =
      (case found of None \<Rightarrow> {#} | Some e \<Rightarrow> {#e#}) + mset (sq_queue (m_req_queue u))"
    by (rule sq_progress_unfold [OF i(1) ts i(2) np, of "extern_cb f"]) (rule that)
  show "\<exists>n v. sq_progress mpi (extern_cb f) w = Inr (n, v) \<and> n \<le> 1 \<and> size_exact v \<and>
      length (sq_queue (m_req_queue v)) + n = length (sq_queue (m_req_queue w))"
  proof (cases found)
    case None
    then have "length (sq_queue (m_req_queue u)) = length (sq_queue (m_req_queue w))"
      using u(6) by (metis (no_types, lifting) add_0 option.case(1) size_mset)
    with None u(1,3) sz show ?thesis
      by (simp add: size_exact_def upd_shared_def)
  next
    case (Some e)
    then have me: "mset (sq_queue (m_req_queue w)) = add_mset e (mset (sq_queue (m_req_queue u)))"
      using u(6) by simp
    then have ln: "length (sq_queue (m_req_queue w)) = length (sq_queue (m_req_queue u)) + 1"
      by (metis One_nat_def add.right_neutral add_Suc_right size_add_mset size_mset)
    obtain b where b: "heap u e = Some b" "waiting (m_t b) e" "inflight u e"
      by (rule sq_found_inflight [OF i(1) u(4,5) me]; (assumption | rule that))
    have "is_waiting u e"
      using b(1,2) by (simp add: is_waiting_heap)
    then obtain v where "complete_request (extern_cb f) e u = Inr v" "m_req_queue v = m_req_queue u"
      using complete_all_extern [OF u(2), of "[e]" f] by (auto simp: bind_res_eq_Inr)
    with Some u(1,3) sz ln show ?thesis
      by (simp add: size_exact_def upd_shared_def)
  qed
qed

theorem shared_queue_size_witness:
  "\<exists>n v. sq_progress ex_mpi ex_cb (ex_shared [0]) = Inr (n, v) \<and> n \<le> 1 \<and> size_exact v"
proof -
  have "\<not> sq_in_progress (m_req_queue (ex_shared ops))" "size_exact (ex_shared ops)" for ops
    by (simp_all add: ex_shared_def size_exact_def)
  with shared_queue_size [OF ex_shared_inv _ ex_mpi_ok, of _ log_call] show ?thesis
    by blast
qed

end
