(* ===== verification/Communicator_Api.thy ===== *)
theory Communicator_Api
  imports Request_Api
begin

text \<open>
  The public interface above the transports: the sending and receiving functions of
  \<open>communicator.hpp\<close>, the closures they wrap around the user's callbacks, \<open>send_multi\<close> with its
  \<open>multi_request_state\<close> (\<open>detail/communicator_helper.hpp\<close>) and \<open>send_multi_request\<close> (\<open>request.cpp\<close>).
  The transport's functions \<open>send\<close>, \<open>recv\<close> and \<open>shared_recv\<close> are parameters (\<open>core\<close>); what a user
  callback does is the parameter \<open>user\<close>.
\<close>

section \<open>Closures\<close>

text \<open>How a user callback gets the message: moved in, or by reference to the user's variable.\<close>

datatype msg_arg = By_value message_buffer | By_ref ptr | By_const_ref ptr

datatype call_args =
    Args msg_arg rank_type tag_type
  | Multi_args msg_arg "rank_type list" tag_type
  | Multi_tags_args msg_arg "rank_type list" "tag_type list"

datatype passing = Rref | Lref | Const_lref

text \<open>The function objects handed to the transport: the empty lambda, \<open>cb_rref\<close>, \<open>cb_lref\<close>,
  \<open>cb_lref_const\<close>, and the two kinds of lambda of \<open>send_multi\<close>, which capture the shared state.\<close>

datatype 'u closure =
    Cb_nothing
  | Cb_rref 'u message_buffer
  | Cb_lref 'u ptr
  | Cb_lref_const 'u ptr
  | Cb_multi_counter ptr
  | Cb_multi passing bool ptr 'u

fun multi_of :: "'u closure \<Rightarrow> ptr option" where
  "multi_of (Cb_multi_counter m) = Some m"
| "multi_of (Cb_multi ps tg m u) = Some m"
| "multi_of _ = None"

text \<open>The arguments of the user's callback in the last completion of a \<open>send_multi\<close>, and the state
  left behind.  The tags are moved out except in the variant that owns the message.\<close>

definition multi_call ::
    "passing \<Rightarrow> bool \<Rightarrow> tag_type \<Rightarrow> multi_request_state \<Rightarrow> call_args \<times> multi_request_state" where
  "multi_call ps tg t s =
     (let arg = (case ps of
            Rref \<Rightarrow> By_value ((m_msg s)\<lparr>mb_size := m_msg_size s\<rparr>)
          | Lref \<Rightarrow> By_ref (the (m_msg_ptr s))
          | Const_lref \<Rightarrow> By_const_ref (the (m_msg_ptr s)));
          s' = s\<lparr>m_neighs := [],
                 m_tags := (if tg \<and> ps \<noteq> Rref then [] else m_tags s),
                 m_msg := (if ps = Rref then mb_moved_from (m_msg s) else m_msg s)\<rparr>
      in (if tg then Multi_tags_args arg (m_neighs s) (m_tags s) else Multi_args arg (m_neighs s) t, s'))"

text \<open>The call operator of a closure, up to the call of the user's callback: which call it makes, if
  any, and what it does to the interface's state.  A \<open>send_multi\<close> closure owns a reference to its
  state, so the state exists.\<close>

fun closure_step ::
    "'u closure \<Rightarrow> rank_type \<Rightarrow> tag_type \<Rightarrow> api_state \<Rightarrow> ('u \<times> call_args) option \<times> api_state" where
  "closure_step Cb_nothing r t a = (None, a)"
| "closure_step (Cb_rref u m) r t a = (Some (u, Args (By_value m) r t), a)"
| "closure_step (Cb_lref u x) r t a = (Some (u, Args (By_ref x) r t), a)"
| "closure_step (Cb_lref_const u x) r t a = (Some (u, Args (By_const_ref x) r t), a)"
| "closure_step (Cb_multi_counter m) r t a =
     (case multi a m of
        None \<Rightarrow> (None, a)
      | Some s \<Rightarrow> (None, a\<lparr>multi := (multi a)(m \<mapsto> s\<lparr>m_counter := m_counter s - 1\<rparr>)\<rparr>))"
| "closure_step (Cb_multi ps tg m u) r t a =
     (case multi a m of
        None \<Rightarrow> (None, a)
      | Some s \<Rightarrow>
          (let s1 = s\<lparr>m_counter := m_counter s - 1\<rparr> in
           if m_counter s1 = 0
           then (case multi_call ps tg t s1 of
                   (args, s2) \<Rightarrow> (Some (u, args), a\<lparr>multi := (multi a)(m \<mapsto> s2)\<rparr>))
           else (None, a\<lparr>multi := (multi a)(m \<mapsto> s1)\<rparr>)))"

definition exec_closure ::
    "('u \<Rightarrow> call_args \<Rightarrow> ('r, 'z) request_store_scheme \<Rightarrow> ('r, 'z) request_store_scheme) \<Rightarrow>
     'u closure \<Rightarrow> rank_type \<Rightarrow> tag_type \<Rightarrow> ('r, 'z) request_store_scheme \<Rightarrow> ('r, 'z) request_store_scheme" where
  "exec_closure user c r t w =
     (case closure_step c r t (api w) of
        (None, a) \<Rightarrow> w\<lparr>api := a\<rparr>
      | (Some (u, args), a) \<Rightarrow> user u args (w\<lparr>api := a\<rparr>))"

section \<open>Sending and receiving\<close>

text \<open>\<open>core p buf bytes rank tag cb w\<close> is the transport's function on this communicator; \<open>p\<close> is the
  address a new request state would get.\<close>

type_synonym ('u, 'w) core =
  "ptr \<Rightarrow> ptr \<Rightarrow> size_t \<Rightarrow> rank_type \<Rightarrow> tag_type \<Rightarrow> 'u closure \<Rightarrow> 'w \<Rightarrow> (ptr option \<times> 'w) result"

text \<open>What all functions share: the assertion that the message is valid, and the call of the
  transport with the buffer behind the heap pointer and the size in bytes.\<close>

definition post_msg ::
    "('u, 'w) core \<Rightarrow> ptr \<Rightarrow> size_t \<Rightarrow> message_buffer \<Rightarrow> rank_type \<Rightarrow> tag_type \<Rightarrow> 'u closure \<Rightarrow> 'w \<Rightarrow>
     (ptr option \<times> 'w) result" where
  "post_msg core p size_T msg rank tag cb w =
     (if \<not> mb_valid msg then Inl (Terminate ''assert(msg)'')
      else case mb_heap msg of
          None \<Rightarrow> Inl (Undefined_behaviour ''null pointer'')
        | Some buf \<Rightarrow> core p buf (mb_size msg * size_T) rank tag cb w)"

definition move_message :: "ptr \<Rightarrow> ('r, 'z) request_store_scheme \<Rightarrow> ('r, 'z) request_store_scheme" where
  "move_message x w =
     w\<lparr>api := (api w)\<lparr>messages := (messages (api w))(x := mb_moved_from (messages (api w) x))\<rparr>\<rparr>"

text \<open>The three ways to pass the message of variable \<open>x\<close>: without a callback, moved into the callback
  object, or by reference.\<close>

definition post_plain ::
    "('u, ('r, 'z) request_store_scheme) core \<Rightarrow> ptr \<Rightarrow> size_t \<Rightarrow> ptr \<Rightarrow> rank_type \<Rightarrow> tag_type \<Rightarrow>
     ('r, 'z) request_store_scheme \<Rightarrow> (ptr option \<times> ('r, 'z) request_store_scheme) result" where
  "post_plain core p size_T x rank tag w = post_msg core p size_T (messages (api w) x) rank tag Cb_nothing w"

definition post_rref ::
    "('u, ('r, 'z) request_store_scheme) core \<Rightarrow> ptr \<Rightarrow> size_t \<Rightarrow> ptr \<Rightarrow> rank_type \<Rightarrow> tag_type \<Rightarrow> 'u \<Rightarrow>
     ('r, 'z) request_store_scheme \<Rightarrow> (ptr option \<times> ('r, 'z) request_store_scheme) result" where
  "post_rref core p size_T x rank tag u w =
     post_msg core p size_T (messages (api w) x) rank tag (Cb_rref u (messages (api w) x)) (move_message x w)"

definition post_lref ::
    "('u, ('r, 'z) request_store_scheme) core \<Rightarrow> ptr \<Rightarrow> size_t \<Rightarrow> ptr \<Rightarrow> rank_type \<Rightarrow> tag_type \<Rightarrow> 'u \<Rightarrow>
     ('r, 'z) request_store_scheme \<Rightarrow> (ptr option \<times> ('r, 'z) request_store_scheme) result" where
  "post_lref core p size_T x rank tag u w =
     post_msg core p size_T (messages (api w) x) rank tag (Cb_lref u x) w"

text \<open>The overloads of \<open>communicator\<close>; \<open>recv\<close>, \<open>shared_recv\<close> and \<open>send\<close> of the transport are the
  first argument.\<close>

definition comm_recv where "comm_recv recv = post_plain recv"
definition comm_recv_rref where "comm_recv_rref recv = post_rref recv"
definition comm_recv_lref where "comm_recv_lref recv = post_lref recv"
definition comm_shared_recv where "comm_shared_recv shared_recv = post_plain shared_recv"
definition comm_shared_recv_rref where "comm_shared_recv_rref shared_recv = post_rref shared_recv"
definition comm_shared_recv_lref where "comm_shared_recv_lref shared_recv = post_lref shared_recv"
definition comm_send where "comm_send send = post_plain send"
definition comm_send_rref where "comm_send_rref send = post_rref send"
definition comm_send_lref where "comm_send_lref send = post_lref send"

definition comm_send_const_lref ::
    "('u, ('r, 'z) request_store_scheme) core \<Rightarrow> ptr \<Rightarrow> size_t \<Rightarrow> ptr \<Rightarrow> rank_type \<Rightarrow> tag_type \<Rightarrow> 'u \<Rightarrow>
     ('r, 'z) request_store_scheme \<Rightarrow> (ptr option \<times> ('r, 'z) request_store_scheme) result" where
  "comm_send_const_lref core p size_T x rank tag u w =
     post_msg core p size_T (messages (api w) x) rank tag (Cb_lref_const u x) w"

section \<open>\<open>send_multi\<close>\<close>

text \<open>\<open>make_multi_request_state\<close>, at the address \<open>m\<close> of the pool.\<close>

definition make_multi ::
    "ptr \<Rightarrow> multi_request_state \<Rightarrow> ('r, 'z) request_store_scheme \<Rightarrow> ('r, 'z) request_store_scheme" where
  "make_multi m s w = w\<lparr>api := (api w)\<lparr>multi := (multi (api w))(m \<mapsto> s)\<rparr>\<rparr>"

definition multi_state_n :: "nat \<Rightarrow> nat \<Rightarrow> multi_request_state" where
  "multi_state_n c n = \<lparr>mr_comm = c, m_counter = of_nat n, m_neighs = [], m_tags = [], m_msg_size = 0,
     m_msg_ptr = None, m_msg = null_buffer\<rparr>"

definition multi_state_ref :: "nat \<Rightarrow> rank_type list \<Rightarrow> tag_type list \<Rightarrow> ptr \<Rightarrow> message_buffer \<Rightarrow> multi_request_state" where
  "multi_state_ref c neighs tags x msg = \<lparr>mr_comm = c, m_counter = of_nat (length neighs), m_neighs = neighs,
     m_tags = tags, m_msg_size = mb_size msg, m_msg_ptr = Some x, m_msg = null_buffer\<rparr>"

definition multi_state_rref :: "nat \<Rightarrow> rank_type list \<Rightarrow> tag_type list \<Rightarrow> message_buffer \<Rightarrow> multi_request_state" where
  "multi_state_rref c neighs tags msg = \<lparr>mr_comm = c, m_counter = of_nat (length neighs), m_neighs = neighs,
     m_tags = tags, m_msg_size = mb_size msg, m_msg_ptr = None, m_msg = msg\<rparr>"

text \<open>The loop over the neighbours: the request object each \<open>send\<close> returns is a temporary that is
  destroyed at once.  A destination is an address for the request state, a rank and a tag.\<close>

definition send_discard ::
    "('u, ('r, 'z) request_store_scheme) core \<Rightarrow> ptr \<Rightarrow> size_t \<Rightarrow> 'u closure \<Rightarrow> ptr \<times> rank_type \<times> tag_type \<Rightarrow>
     ('r, 'z) request_store_scheme \<Rightarrow> ('r, 'z) request_store_scheme result" where
  "send_discard send buf bytes cb = (\<lambda>(p, dst, tag) w.
     bind_res (send p buf bytes dst tag cb w) (\<lambda>(req, w).
       case req of None \<Rightarrow> Inr w | Some q \<Rightarrow> drop_handle q w))"

text \<open>The body shared by all overloads: assert, build the state, send to everyone, return the state.\<close>

definition multi_body ::
    "('u, ('r, 'z) request_store_scheme) core \<Rightarrow> size_t \<Rightarrow> message_buffer \<Rightarrow> ptr \<Rightarrow> multi_request_state \<Rightarrow>
     'u closure \<Rightarrow> (ptr \<times> rank_type \<times> tag_type) list \<Rightarrow> ('r, 'z) request_store_scheme \<Rightarrow>
     (ptr \<times> ('r, 'z) request_store_scheme) result" where
  "multi_body send size_T msg m s cb dests w =
     (if \<not> mb_valid msg then Inl (Terminate ''assert(msg)'')
      else case mb_heap msg of
          None \<Rightarrow> Inl (Undefined_behaviour ''null pointer'')
        | Some buf \<Rightarrow>
            bind_res (fold_res (send_discard send buf (mb_size msg * size_T) cb) dests (make_multi m s w)) (\<lambda>w.
            Inr (m, w)))"

text \<open>The overloads without a callback: one tag, or a tag for each neighbour.  \<open>ps\<close> are the addresses
  the request states get.\<close>

definition send_multi ::
    "('u, ('r, 'z) request_store_scheme) core \<Rightarrow> nat \<Rightarrow> ptr \<Rightarrow> ptr list \<Rightarrow> size_t \<Rightarrow> ptr \<Rightarrow> rank_type list \<Rightarrow>
     tag_type \<Rightarrow> ('r, 'z) request_store_scheme \<Rightarrow> (ptr \<times> ('r, 'z) request_store_scheme) result" where
  "send_multi send c m ps size_T x neighs tag w =
     multi_body send size_T (messages (api w) x) m (multi_state_n c (length neighs)) (Cb_multi_counter m)
       (zip ps (map (\<lambda>dst. (dst, tag)) neighs)) w"

definition send_multi_tags ::
    "('u, ('r, 'z) request_store_scheme) core \<Rightarrow> nat \<Rightarrow> ptr \<Rightarrow> ptr list \<Rightarrow> size_t \<Rightarrow> ptr \<Rightarrow> rank_type list \<Rightarrow>
     tag_type list \<Rightarrow> ('r, 'z) request_store_scheme \<Rightarrow> (ptr \<times> ('r, 'z) request_store_scheme) result" where
  "send_multi_tags send c m ps size_T x neighs tags w =
     (if length neighs \<noteq> length tags then Inl (Terminate ''assert(neighs.size() == tags.size())'')
      else multi_body send size_T (messages (api w) x) m (multi_state_n c (length neighs)) (Cb_multi_counter m)
             (zip ps (zip neighs tags)) w)"

text \<open>The overloads with a callback: by rvalue, reference or constant reference.\<close>

definition multi_state_for ::
    "passing \<Rightarrow> nat \<Rightarrow> rank_type list \<Rightarrow> tag_type list \<Rightarrow> ptr \<Rightarrow> message_buffer \<Rightarrow> multi_request_state" where
  "multi_state_for how c neighs tags x msg =
     (if how = Rref then multi_state_rref c neighs tags msg else multi_state_ref c neighs tags x msg)"

definition move_if :: "passing \<Rightarrow> ptr \<Rightarrow> ('r, 'z) request_store_scheme \<Rightarrow> ('r, 'z) request_store_scheme" where
  "move_if how x w = (if how = Rref then move_message x w else w)"

definition send_multi_cb ::
    "passing \<Rightarrow> ('u, ('r, 'z) request_store_scheme) core \<Rightarrow> nat \<Rightarrow> ptr \<Rightarrow> ptr list \<Rightarrow> size_t \<Rightarrow> ptr \<Rightarrow>
     rank_type list \<Rightarrow> tag_type \<Rightarrow> 'u \<Rightarrow> ('r, 'z) request_store_scheme \<Rightarrow>
     (ptr \<times> ('r, 'z) request_store_scheme) result" where
  "send_multi_cb how send c m ps size_T x neighs tag u w =
     (let msg = messages (api w) x in
      multi_body send size_T msg m (multi_state_for how c neighs [] x msg) (Cb_multi how False m u)
        (zip ps (map (\<lambda>dst. (dst, tag)) neighs)) (move_if how x w))"

definition send_multi_tags_cb ::
    "passing \<Rightarrow> ('u, ('r, 'z) request_store_scheme) core \<Rightarrow> nat \<Rightarrow> ptr \<Rightarrow> ptr list \<Rightarrow> size_t \<Rightarrow> ptr \<Rightarrow>
     rank_type list \<Rightarrow> tag_type list \<Rightarrow> 'u \<Rightarrow> ('r, 'z) request_store_scheme \<Rightarrow>
     (ptr \<times> ('r, 'z) request_store_scheme) result" where
  "send_multi_tags_cb how send c m ps size_T x neighs tags u w =
     (let msg = messages (api w) x in
      if length neighs \<noteq> length tags then Inl (Terminate ''assert(neighs.size() == tags.size())'')
      else multi_body send size_T msg m (multi_state_for how c neighs tags x msg) (Cb_multi how True m u)
             (zip ps (zip neighs tags)) (move_if how x w))"

section \<open>\<open>send_multi_request\<close>\<close>

definition multi_counter :: "ptr \<Rightarrow> ('r, 'z) request_store_scheme \<Rightarrow> size_t result" where
  "multi_counter m w =
     (case multi (api w) m of
        None \<Rightarrow> Inl (Undefined_behaviour ''access to a freed multi request state'')
      | Some s \<Rightarrow> Inr (m_counter s))"

definition multi_is_ready :: "ptr option \<Rightarrow> ('r, 'z) request_store_scheme \<Rightarrow> bool result" where
  "multi_is_ready r w =
     (case r of None \<Rightarrow> Inr True | Some m \<Rightarrow> bind_res (multi_counter m w) (\<lambda>n. Inr (n = 0)))"

definition multi_progress ::
    "(nat \<Rightarrow> ('r, 'z) request_store_scheme \<Rightarrow> ('r, 'z) request_store_scheme result) \<Rightarrow> ptr \<Rightarrow>
     ('r, 'z) request_store_scheme \<Rightarrow> ('r, 'z) request_store_scheme result" where
  "multi_progress prog m w =
     (case multi (api w) m of
        None \<Rightarrow> Inl (Undefined_behaviour ''access to a freed multi request state'')
      | Some s \<Rightarrow> prog (mr_comm s) w)"

definition multi_test ::
    "(nat \<Rightarrow> ('r, 'z) request_store_scheme \<Rightarrow> ('r, 'z) request_store_scheme result) \<Rightarrow> ptr option \<Rightarrow>
     ('r, 'z) request_store_scheme \<Rightarrow> (bool \<times> ('r, 'z) request_store_scheme) result" where
  "multi_test prog r w =
     (case r of
        None \<Rightarrow> Inr (True, w)
      | Some m \<Rightarrow>
          bind_res (multi_counter m w) (\<lambda>n.
          if n = 0 then Inr (True, w)
          else bind_res (multi_progress prog m w) (\<lambda>w.
               bind_res (multi_counter m w) (\<lambda>n. Inr (n = 0, w)))))"

definition multi_wait ::
    "(nat \<Rightarrow> ('r, 'z) request_store_scheme \<Rightarrow> ('r, 'z) request_store_scheme result) \<Rightarrow> ptr option \<Rightarrow>
     ('r, 'z) request_store_scheme \<Rightarrow> ('r, 'z) request_store_scheme result option" where
  "multi_wait prog r w =
     (case r of
        None \<Rightarrow> Some (Inr w)
      | Some m \<Rightarrow> poll_until (multi_progress prog m) (multi_is_ready r) w)"

section \<open>The callback of a multiple send\<close>

text \<open>The calls a sequence of completions makes; \<open>w\<close> is not needed for it, as only the interface's
  state decides whether a closure calls.\<close>

fun run_closures ::
    "('u closure \<times> rank_type \<times> tag_type) list \<Rightarrow> api_state \<Rightarrow> ('u closure \<times> 'u \<times> call_args) list \<times> api_state" where
  "run_closures [] a = ([], a)"
| "run_closures ((c, r, t) # cs) a =
     (case closure_step c r t a of (call, a) \<Rightarrow>
      case run_closures cs a of (calls, a) \<Rightarrow>
        ((case call of None \<Rightarrow> calls | Some (u, args) \<Rightarrow> (c, u, args) # calls), a))"

text \<open>Closures of another multiple send, or of none, leave a state alone.\<close>

lemma closure_step_other: "multi_of c \<noteq> Some m \<Longrightarrow> multi (snd (closure_step c r t a)) m = multi a m"
  by (cases c) (auto simp: Let_def split: option.splits prod.splits)

lemma closure_step_messages: "messages (snd (closure_step c r t a)) = messages a"
  by (cases c) (auto simp: Let_def split: option.splits prod.splits)

text \<open>A closure of the multiple send counts down; it calls exactly when the count reaches zero.\<close>

lemma closure_step_multi:
  assumes "multi a m = Some s" "multi_of c = Some m"
  shows "\<exists>s'. multi (snd (closure_step c r t a)) m = Some s' \<and> m_counter s' = m_counter s - 1 \<and>
    mr_comm s' = mr_comm s \<and> (m_counter s \<noteq> 1 \<longrightarrow> s' = s\<lparr>m_counter := m_counter s - 1\<rparr>)"
  using assms by (cases c) (auto simp: multi_call_def Let_def split: prod.splits)

lemma closure_step_calls:
  assumes "multi a m = Some s"
  shows "fst (closure_step (Cb_multi ps tg m u) r t a) =
    (if m_counter s = 1 then Some (u, fst (multi_call ps tg t (s\<lparr>m_counter := 0\<rparr>))) else None)"
  using assms by (auto simp: Let_def split: prod.splits)

lemma multi_call_counter: "fst (multi_call ps tg t (s\<lparr>m_counter := n\<rparr>)) = fst (multi_call ps tg t s)"
  by (simp add: multi_call_def Let_def split: passing.splits)

abbreviation of_multi :: "ptr \<Rightarrow> 'u closure \<times> 'x \<Rightarrow> bool" where
  "of_multi m \<equiv> \<lambda>x. multi_of (fst x) = Some m"

lemma run_closures_Cons:
  "snd (run_closures ((c, r, t) # cs) a) = snd (run_closures cs (snd (closure_step c r t a)))"
  "fst (run_closures ((c, r, t) # cs) a) =
     (case fst (closure_step c r t a) of None \<Rightarrow> [] | Some (u, args) \<Rightarrow> [(c, u, args)]) @
     fst (run_closures cs (snd (closure_step c r t a)))"
  by (auto split: prod.splits option.splits)

lemma run_closures_none:
  assumes "filter (of_multi m) cs = []"
  shows "multi (snd (run_closures cs a)) m = multi a m \<and> filter (of_multi m) (fst (run_closures cs a)) = []"
  using assms
proof (induction cs arbitrary: a)
  case (Cons y ys)
  obtain c r t where y: "y = (c, r, t)"
    by (cases y) auto
  then have nm: "multi_of c \<noteq> Some m" "filter (of_multi m) ys = []"
    using Cons.prems by (auto split: if_splits)
  show ?case
    using Cons.IH [OF nm(2)] closure_step_other [OF nm(1)] nm(1)
    by (simp add: y run_closures_Cons del: run_closures.simps split: option.splits)
qed simp

lemma run_closures_multi:
  assumes "multi a m = Some s" "m_counter s = of_nat n" "n < 2 ^ 64"
    and "\<forall>x \<in> set cs. of_multi m x \<longrightarrow> fst x = Cb_multi how tg m u"
    and "length (filter (of_multi m) cs) \<le> n"
  shows "(length (filter (of_multi m) cs) < n \<longrightarrow> filter (of_multi m) (fst (run_closures cs a)) = []) \<and>
    (0 < n \<and> length (filter (of_multi m) cs) = n \<longrightarrow> (\<exists>t. filter (of_multi m) (fst (run_closures cs a)) =
      [(Cb_multi how tg m u, u, fst (multi_call how tg t s))]))"
  using assms
proof (induction cs arbitrary: a s n)
  case (Cons x cs)
  obtain c r t where x: "x = (c, r, t)"
    by (cases x) auto
  define b where "b = snd (closure_step c r t a)"
  show ?case
  proof (cases "multi_of c = Some m")
    case False
    then have "multi b m = Some s"
      using Cons.prems(1) closure_step_other [OF False, of r t a] by (simp add: b_def)
    from Cons.IH [OF this Cons.prems(2,3)] Cons.prems(4,5) False show ?thesis
      by (simp add: x run_closures_Cons b_def [symmetric] del: run_closures.simps split: option.splits)
  next
    case True
    then have c: "c = Cb_multi how tg m u" and n: "0 < n"
      using Cons.prems(4,5) by (auto simp: x)
    have one: "m_counter s = 1 \<longleftrightarrow> n = 1"
      using Cons.prems(2,3) n word_unat_eq_iff [of "of_nat n :: 64 word" 1] by (simp add: unat_of_nat)
    note call = closure_step_calls [OF Cons.prems(1), of how tg u r t]
    have b: "snd (closure_step (Cb_multi how tg m u) r t a) = b"
      by (simp only: b_def c)
    show ?thesis
    proof (cases "n = 1")
      case True
      then have "filter (of_multi m) cs = []"
        using Cons.prems(5) c by (simp add: x)
      from run_closures_none [OF this, of b] call one True show ?thesis
        by (auto simp: x c b run_closures_Cons multi_call_counter simp del: run_closures.simps closure_step.simps)
    next
      case False
      have "m_counter s - 1 = of_nat (n - 1)"
        using Cons.prems(2) n by (simp only: of_nat_dec)
      then have "multi b m = Some (s\<lparr>m_counter := of_nat (n - 1)\<rparr>)"
        using closure_step_multi [OF Cons.prems(1) True, of r t] one False by (auto simp: b_def)
      from Cons.IH [OF this, of "n - 1"] Cons.prems(3-5) call one False n show ?thesis
        by (auto simp: x c b run_closures_Cons multi_call_counter simp del: run_closures.simps closure_step.simps of_nat_diff)
    qed
  qed
qed auto



text \<open>a multiple send to no neighbours.  It returns a request that is ready at once, starts no
  send, and its callback is never called: no closure refers to its state.\<close>

theorem send_multi_no_neighbours:
  assumes "messages (api w) x = msg" "mb_valid msg" "mb_heap msg = Some buf"
  shows "\<exists>v. send_multi_cb how send c m ps size_T x [] tag u w = Inr (m, v) \<and>
    multi_is_ready (Some m) v = Inr True \<and> heap v = heap w \<and> counters v = counters w \<and>
    request_store.more v = request_store.more w"
  using assms
  by (cases "how = Rref")
     (simp_all add: send_multi_cb_def multi_body_def multi_state_for_def multi_state_rref_def multi_state_ref_def
       make_multi_def multi_is_ready_def multi_counter_def move_if_def move_message_def Let_def)

theorem send_multi_no_neighbours_witness:
  "\<exists>v. send_multi_cb Lref (\<lambda>p buf n r t c w. Inr (None, w)) 0 1 [] 8 0 [] 7 (9 :: nat)
      \<lparr>heap = (\<lambda>_. None) :: nat blocks, counters = (\<lambda>_. 0), handles = (\<lambda>_. 0),
       api = \<lparr>messages = (\<lambda>_. \<lparr>mb_ptr = Some 3, mb_heap = Some 3, mb_size = 2\<rparr>), multi = (\<lambda>_. None)\<rparr>\<rparr> =
      Inr (1, v) \<and> multi_is_ready (Some 1) v = Inr True"
proof -
  let ?w = "\<lparr>heap = (\<lambda>_. None) :: nat blocks, counters = (\<lambda>_. 0), handles = (\<lambda>_. 0),
       api = \<lparr>messages = (\<lambda>_. \<lparr>mb_ptr = Some 3, mb_heap = Some 3, mb_size = 2\<rparr>), multi = (\<lambda>_. None)\<rparr>\<rparr>"
  show ?thesis
    using send_multi_no_neighbours [of ?w 0 "\<lparr>mb_ptr = Some 3, mb_heap = Some 3, mb_size = 2\<rparr>" 3 Lref
        "\<lambda>p buf n r t c w. Inr (None, w)" 0 1 "[]" 8 7 "9 :: nat"]
    by (auto simp: mb_valid_def)
qed

end
