(* ===== verification/Barrier.thy ===== *)
theory Barrier
  imports Oomph_Prelude
begin

text \<open>
  The barrier over the threads of a rank and over all ranks (\<open>barrier.cpp\<close>, \<open>barrier.hpp\<close>), as a
  transition system: every atomic access of \<open>b_count\<close> and \<open>b_count2\<close> is a step of its own, and the
  threads of all ranks interleave freely.  Iterations of a waiting loop that do not leave it are not
  steps; they only drive the progress of the communicators, which is verified elsewhere.  The loops
  around \<open>compare_exchange_weak\<close> are steps: one that succeeds and one that reloads.  The nonblocking
  barrier of MPI is a parameter: \<open>done k entered\<close> says that the test of a rank's \<open>k\<close>th barrier gives
  true when the ranks have started \<open>entered\<close> barriers each.
\<close>

section \<open>State\<close>

text \<open>Where a thread is: outside; in \<open>in_node1\<close> with the expected value of the exchange, before the
  store of zero, or in the waiting loop; in \<open>rank_barrier\<close> before \<open>MPI_Ibarrier\<close> and in its loop; in
  the loop of \<open>operator()\<close>; in \<open>in_node2\<close> likewise.\<close>

datatype barrier_pc =
    Idle
  | N1_cas nat
  | N1_store
  | N1_wait
  | R_start
  | R_test
  | G_wait
  | N2_cas nat
  | N2_store
  | N2_wait

text \<open>The barrier object of a rank, with the position of its threads and the number of calls each has
  returned from.  The counters stay between zero and \<open>m_threads\<close>, so natural numbers stand for
  \<open>size_t\<close>.\<close>

record barrier_state =
  b_count :: nat
  b_count2 :: nat
  pc :: "nat \<Rightarrow> barrier_pc"
  rounds :: "nat \<Rightarrow> nat"
  entered :: nat

definition barrier_init :: "nat \<Rightarrow> barrier_state" where
  "barrier_init m_threads = \<lparr>b_count = 0, b_count2 = m_threads, pc = (\<lambda>_. Idle), rounds = (\<lambda>_. 0), entered = 0\<rparr>"

definition goto :: "nat \<Rightarrow> barrier_pc \<Rightarrow> barrier_state \<Rightarrow> barrier_state" where
  "goto t x s = s\<lparr>pc := (pc s)(t := x)\<rparr>"

definition leave :: "nat \<Rightarrow> barrier_state \<Rightarrow> barrier_state" where
  "leave t s = goto t Idle (s\<lparr>rounds := (rounds s)(t := rounds s t + 1)\<rparr>)"

section \<open>Steps\<close>

text \<open>\<open>in_node1\<close>: after it, \<open>operator()\<close> (\<open>full\<close>) goes to the rank barrier or its waiting loop, and
  \<open>thread_barrier\<close> to \<open>in_node2\<close>.\<close>

definition in_node1_step :: "nat \<Rightarrow> bool \<Rightarrow> nat \<Rightarrow> barrier_state \<Rightarrow> barrier_state option" where
  "in_node1_step m_threads full t s =
     (case pc s t of
        N1_cas e \<Rightarrow>
          if b_count s = e
          then Some (goto t (if e = m_threads - 1 then N1_store else N1_wait) (s\<lparr>b_count := e + 1\<rparr>))
          else Some (goto t (N1_cas (b_count s)) s)
      | N1_store \<Rightarrow> Some (goto t (if full then R_start else N2_cas (b_count2 s)) (s\<lparr>b_count := 0\<rparr>))
      | N1_wait \<Rightarrow>
          if b_count s \<noteq> 0 then None
          else Some (goto t (if full then G_wait else N2_cas (b_count2 s)) s)
      | _ \<Rightarrow> None)"

definition rank_barrier_step :: "(nat \<Rightarrow> bool) \<Rightarrow> nat \<Rightarrow> barrier_state \<Rightarrow> barrier_state option" where
  "rank_barrier_step flag t s =
     (case pc s t of
        R_start \<Rightarrow> Some (goto t R_test (s\<lparr>entered := entered s + 1\<rparr>))
      | R_test \<Rightarrow> if flag (entered s) then Some (goto t (N2_cas (b_count2 s)) s) else None
      | _ \<Rightarrow> None)"

definition in_node2_step :: "nat \<Rightarrow> nat \<Rightarrow> barrier_state \<Rightarrow> barrier_state option" where
  "in_node2_step m_threads t s =
     (case pc s t of
        N2_cas e \<Rightarrow>
          if b_count2 s = e
          then Some (goto t (if e = 1 then N2_store else N2_wait) (s\<lparr>b_count2 := e - 1\<rparr>))
          else Some (goto t (N2_cas (b_count2 s)) s)
      | N2_store \<Rightarrow> Some (leave t (s\<lparr>b_count2 := m_threads\<rparr>))
      | N2_wait \<Rightarrow> if b_count2 s \<noteq> m_threads then None else Some (leave t s)
      | _ \<Rightarrow> None)"

text \<open>One step of a thread that makes \<open>calls\<close> calls of the barrier in all; \<open>None\<close> while it waits.\<close>

definition thread_step ::
    "nat \<Rightarrow> bool \<Rightarrow> nat \<Rightarrow> (nat \<Rightarrow> bool) \<Rightarrow> nat \<Rightarrow> barrier_state \<Rightarrow> barrier_state option" where
  "thread_step m_threads full calls flag t s =
     (case pc s t of
        Idle \<Rightarrow> if rounds s t < calls then Some (goto t (N1_cas (b_count s)) s) else None
      | G_wait \<Rightarrow> if b_count2 s = m_threads then None else Some (goto t (N2_cas (b_count2 s)) s)
      | R_start \<Rightarrow> rank_barrier_step flag t s
      | R_test \<Rightarrow> rank_barrier_step flag t s
      | N1_cas e \<Rightarrow> in_node1_step m_threads full t s
      | N1_store \<Rightarrow> in_node1_step m_threads full t s
      | N1_wait \<Rightarrow> in_node1_step m_threads full t s
      | N2_cas e \<Rightarrow> in_node2_step m_threads t s
      | N2_store \<Rightarrow> in_node2_step m_threads t s
      | N2_wait \<Rightarrow> in_node2_step m_threads t s)"

text \<open>The system: \<open>ranks\<close> ranks with \<open>m_threads\<close> threads each.\<close>

type_synonym barrier_system = "nat \<Rightarrow> barrier_state"

inductive barrier_step ::
    "nat \<Rightarrow> nat \<Rightarrow> bool \<Rightarrow> nat \<Rightarrow> (nat \<Rightarrow> (nat \<Rightarrow> nat) \<Rightarrow> bool) \<Rightarrow> barrier_system \<Rightarrow> barrier_system \<Rightarrow> bool"
  for ranks m_threads full calls don where
  barrier_stepI: "r < ranks \<Longrightarrow> t < m_threads \<Longrightarrow>
     thread_step m_threads full calls (\<lambda>k. don k (\<lambda>r. entered (w r))) t (w r) = Some s \<Longrightarrow>
     barrier_step ranks m_threads full calls don w (w(r := s))"

inductive barrier_reach ::
    "nat \<Rightarrow> nat \<Rightarrow> bool \<Rightarrow> nat \<Rightarrow> (nat \<Rightarrow> (nat \<Rightarrow> nat) \<Rightarrow> bool) \<Rightarrow> barrier_system \<Rightarrow> bool"
  for ranks m_threads full calls don where
  barrier_reach_init: "barrier_reach ranks m_threads full calls don (\<lambda>_. barrier_init m_threads)"
| barrier_reach_step: "barrier_reach ranks m_threads full calls don w \<Longrightarrow>
     barrier_step ranks m_threads full calls don w v \<Longrightarrow> barrier_reach ranks m_threads full calls don v"

inductive_cases barrier_stepE: "barrier_step ranks m_threads full calls don w v"

text \<open>What is relied on of the nonblocking barrier of MPI.\<close>

definition ibarrier_ok :: "nat \<Rightarrow> (nat \<Rightarrow> (nat \<Rightarrow> nat) \<Rightarrow> bool) \<Rightarrow> bool" where
  "ibarrier_ok ranks don \<longleftrightarrow> (\<forall>k e. don k e \<longleftrightarrow> (\<forall>r < ranks. k \<le> e r))"

section \<open>Counting threads\<close>

definition cnt :: "nat \<Rightarrow> (nat \<Rightarrow> 'a) \<Rightarrow> 'a \<Rightarrow> nat" where
  "cnt n f x = card {t. t < n \<and> f t = x}"

lemma cnt_upd:
  assumes "t < n"
  shows "cnt n (f(t := a)) x = cnt n f x - (if f t = x then 1 else 0) + (if a = x then 1 else 0)"
proof -
  define B where "B = {u. u < n \<and> f u = x} - {t}"
  have B: "finite B" "t \<notin> B" "card B = cnt n f x - (if f t = x then 1 else 0)"
    using assms by (simp_all add: B_def cnt_def card_Diff_singleton_if)
  have "{u. u < n \<and> (f(t := a)) u = x} = (if a = x then insert t B else B)"
    using assms by (auto simp: B_def)
  then have "cnt n (f(t := a)) x = card (if a = x then insert t B else B)"
    by (simp only: cnt_def)
  with B show ?thesis
    by simp
qed

lemma cnt_pos: "t < n \<Longrightarrow> f t = x \<Longrightarrow> 0 < cnt n f x"
  by (auto simp: cnt_def card_gt_0_iff)

lemma cnt_le: "cnt n f x \<le> n"
  using card_mono [of "{..<n}" "{t. t < n \<and> f t = x}"] by (auto simp: cnt_def)

lemma cnt_others:
  assumes "t < n" "f t \<noteq> x" "n - 1 \<le> cnt n f x" "u < n" "u \<noteq> t"
  shows "f u = x"
proof (rule ccontr)
  assume "f u \<noteq> x"
  then have "{v. v < n \<and> f v = x} \<subseteq> {..<n} - {t, u}"
    using assms by auto
  then have "cnt n f x \<le> card ({..<n} - {t, u})"
    unfolding cnt_def by (intro card_mono) auto
  also have "\<dots> < n - 1"
    using assms by (simp add: card_Diff_subset)
  finally show False
    using assms(3) by simp
qed

lemma cnt_all: "(\<And>u. u < n \<Longrightarrow> f u = x) \<Longrightarrow> cnt n f x = n"
  by (simp add: cnt_def cong: conj_cong)

lemma cnt_all_but:
  assumes "t < n" "\<And>u. u < n \<Longrightarrow> u \<noteq> t \<Longrightarrow> f u = x" "f t \<noteq> x"
  shows "cnt n f x = n - 1"
proof -
  have "{u. u < n \<and> f u = x} = {..<n} - {t}"
    using assms by auto
  then show ?thesis
    using assms(1) by (simp add: cnt_def)
qed

section \<open>The phases of a round\<close>

text \<open>In round \<open>k\<close> a rank gathers its threads (while the last ones may still be leaving the round
  before), elects the last to arrive, lets it do the rank barrier, counts down, and the last to
  count down opens the next round.\<close>

definition gathering :: "nat \<Rightarrow> nat \<Rightarrow> barrier_state \<Rightarrow> bool" where
  "gathering n k s \<longleftrightarrow> b_count2 s = n \<and> b_count s = cnt n (pc s) N1_wait \<and> b_count s < n \<and>
     (\<forall>t < n. rounds s t = k \<and> (pc s t = Idle \<or> (\<exists>e. pc s t = N1_cas e) \<or> pc s t = N1_wait) \<or>
        Suc (rounds s t) = k \<and> pc s t = N2_wait)"

definition elected :: "nat \<Rightarrow> nat \<Rightarrow> barrier_state \<Rightarrow> bool" where
  "elected n k s \<longleftrightarrow> b_count2 s = n \<and> b_count s = n \<and> (\<forall>t < n. rounds s t = k) \<and>
     (\<exists>t0 < n. pc s t0 = N1_store \<and> (\<forall>t < n. t \<noteq> t0 \<longrightarrow> pc s t = N1_wait))"

definition rank_sync :: "nat \<Rightarrow> bool \<Rightarrow> nat \<Rightarrow> barrier_state \<Rightarrow> bool" where
  "rank_sync n full k s \<longleftrightarrow> b_count2 s = n \<and> b_count s = 0 \<and> (\<forall>t < n. rounds s t = k) \<and>
     (if full then \<exists>t0 < n. (pc s t0 = R_start \<or> pc s t0 = R_test \<or> pc s t0 = N2_cas n) \<and>
        (\<forall>t < n. t \<noteq> t0 \<longrightarrow> pc s t = N1_wait \<or> pc s t = G_wait)
      else \<forall>t < n. pc s t = N1_wait \<or> pc s t = N2_cas n)"

definition counting_down :: "nat \<Rightarrow> bool \<Rightarrow> nat \<Rightarrow> barrier_state \<Rightarrow> bool" where
  "counting_down n full k s \<longleftrightarrow> b_count s = 0 \<and> b_count2 s + cnt n (pc s) N2_wait = n \<and>
     0 < cnt n (pc s) N2_wait \<and> 0 < b_count2 s \<and> (\<forall>t < n. rounds s t = k \<and>
       (pc s t = N1_wait \<or> full \<and> pc s t = G_wait \<or> (\<exists>e. pc s t = N2_cas e) \<or> pc s t = N2_wait))"

definition reopening :: "nat \<Rightarrow> nat \<Rightarrow> barrier_state \<Rightarrow> bool" where
  "reopening n k s \<longleftrightarrow> b_count s = 0 \<and> b_count2 s = 0 \<and> (\<forall>t < n. rounds s t = k) \<and>
     (\<exists>t0 < n. pc s t0 = N2_store \<and> (\<forall>t < n. t \<noteq> t0 \<longrightarrow> pc s t = N2_wait))"

text \<open>Started and passed rank barriers.\<close>

definition in_round :: "nat \<Rightarrow> bool \<Rightarrow> nat \<Rightarrow> barrier_state \<Rightarrow> bool" where
  "in_round n full k s \<longleftrightarrow>
     gathering n k s \<and> (full \<longrightarrow> entered s = k) \<or>
     elected n k s \<and> (full \<longrightarrow> entered s = k) \<or>
     rank_sync n full k s \<and> (full \<longrightarrow> entered s = (if \<exists>t < n. pc s t = R_start then k else Suc k)) \<or>
     counting_down n full k s \<and> (full \<longrightarrow> entered s = Suc k) \<or>
     reopening n k s \<and> (full \<longrightarrow> entered s = Suc k)"

definition passed :: "nat \<Rightarrow> nat \<Rightarrow> barrier_state \<Rightarrow> nat" where
  "passed n k s = (if b_count2 s = n \<and> (\<forall>t < n. \<forall>e. pc s t \<noteq> N2_cas e) then k else Suc k)"

lemma thread_step_simps:
  "pc s t = Idle \<Longrightarrow> thread_step n full calls flag t s =
     (if rounds s t < calls then Some (goto t (N1_cas (b_count s)) s) else None)"
  "pc s t = N1_cas e \<Longrightarrow> thread_step n full calls flag t s =
     (if b_count s = e then Some (goto t (if e = n - 1 then N1_store else N1_wait) (s\<lparr>b_count := e + 1\<rparr>))
      else Some (goto t (N1_cas (b_count s)) s))"
  "pc s t = N1_store \<Longrightarrow> thread_step n full calls flag t s =
     Some (goto t (if full then R_start else N2_cas (b_count2 s)) (s\<lparr>b_count := 0\<rparr>))"
  "pc s t = N1_wait \<Longrightarrow> thread_step n full calls flag t s =
     (if b_count s \<noteq> 0 then None else Some (goto t (if full then G_wait else N2_cas (b_count2 s)) s))"
  "pc s t = R_start \<Longrightarrow> thread_step n full calls flag t s = Some (goto t R_test (s\<lparr>entered := entered s + 1\<rparr>))"
  "pc s t = R_test \<Longrightarrow> thread_step n full calls flag t s =
     (if flag (entered s) then Some (goto t (N2_cas (b_count2 s)) s) else None)"
  "pc s t = G_wait \<Longrightarrow> thread_step n full calls flag t s =
     (if b_count2 s = n then None else Some (goto t (N2_cas (b_count2 s)) s))"
  "pc s t = N2_cas e \<Longrightarrow> thread_step n full calls flag t s =
     (if b_count2 s = e then Some (goto t (if e = 1 then N2_store else N2_wait) (s\<lparr>b_count2 := e - 1\<rparr>))
      else Some (goto t (N2_cas (b_count2 s)) s))"
  "pc s t = N2_store \<Longrightarrow> thread_step n full calls flag t s = Some (leave t (s\<lparr>b_count2 := n\<rparr>))"
  "pc s t = N2_wait \<Longrightarrow> thread_step n full calls flag t s =
     (if b_count2 s \<noteq> n then None else Some (leave t s))"
  by (simp_all add: thread_step_def in_node1_step_def rank_barrier_step_def in_node2_step_def)

lemma goto_simps [simp]:
  "b_count (goto t x s) = b_count s" "b_count2 (goto t x s) = b_count2 s" "entered (goto t x s) = entered s"
  "rounds (goto t x s) = rounds s" "pc (goto t x s) = (pc s)(t := x)"
  "b_count (leave t s) = b_count s" "b_count2 (leave t s) = b_count2 s" "entered (leave t s) = entered s"
  "rounds (leave t s) = (rounds s)(t := Suc (rounds s t))" "pc (leave t s) = (pc s)(t := Idle)"
  by (simp_all add: goto_def leave_def)

lemma gathering_step:
  assumes g: "gathering n k s" and t: "t < n" and st: "thread_step n full calls flag t s = Some s'"
  shows "(gathering n k s' \<or> elected n k s') \<and> entered s' = entered s"
proof -
  have G: "b_count2 s = n" "b_count s = cnt n (pc s) N1_wait" "cnt n (pc s) N1_wait < n"
    and P: "\<And>u. u < n \<Longrightarrow> rounds s u = k \<and> (pc s u = Idle \<or> (\<exists>e. pc s u = N1_cas e) \<or> pc s u = N1_wait) \<or>
        Suc (rounds s u) = k \<and> pc s u = N2_wait"
    using g by (simp_all add: gathering_def)
  from P [OF t] consider "pc s t = Idle" "rounds s t = k" | e where "pc s t = N1_cas e" "rounds s t = k"
    | "pc s t = N1_wait" | "pc s t = N2_wait" "Suc (rounds s t) = k"
    by blast
  then show ?thesis
  proof cases
    case 1
    then have s': "s' = goto t (N1_cas (b_count s)) s"
      using st by (simp add: thread_step_simps split: if_splits)
    show ?thesis
      using 1 G t P unfolding s' gathering_def by (simp add: cnt_upd)
  next
    case (2 e)
    show ?thesis
    proof (cases "b_count s = e \<and> e = n - 1")
      case True
      then have s': "s' = goto t N1_store (s\<lparr>b_count := n\<rparr>)"
        using st 2 t by (simp add: thread_step_simps)
      have oth: "pc s u = N1_wait \<and> rounds s u = k" if "u < n" "u \<noteq> t" for u
        using cnt_others [OF t, of "pc s" N1_wait u] G(2) 2 True that P [OF that(1)] by auto
      then show ?thesis
        using G t 2 unfolding s' elected_def by (auto intro: exI [of _ t])
    next
      case False
      then have "s' = goto t N1_wait (s\<lparr>b_count := e + 1\<rparr>) \<and> b_count s = e \<or> s' = goto t (N1_cas (b_count s)) s"
        using st 2 by (auto simp: thread_step_simps split: if_splits)
      moreover have "Suc e < n" if "b_count s = e"
        using that False G(2,3) by simp
      ultimately show ?thesis
        using 2 G t P unfolding gathering_def by (elim disjE conjE) (simp_all add: cnt_upd)
    qed
  next
    case 3
    with st G(2) cnt_pos [of t n "pc s", OF t 3] show ?thesis
      by (simp add: thread_step_simps)
  next
    case 4
    then have s': "s' = leave t s"
      using st G(1) by (simp add: thread_step_simps)
    show ?thesis
      using 4 G t P unfolding s' gathering_def by (simp add: cnt_upd)
  qed
qed

lemma elected_step:
  assumes g: "elected n k s" and t: "t < n" and st: "thread_step n full calls flag t s = Some s'"
  shows "rank_sync n full k s' \<and> entered s' = entered s \<and>
    (full \<longrightarrow> (\<exists>t < n. pc s' t = R_start) \<and> passed n k s' = k)"
proof -
  obtain t0 where t0: "t0 < n" "pc s t0 = N1_store" "\<And>u. u < n \<Longrightarrow> u \<noteq> t0 \<Longrightarrow> pc s u = N1_wait"
    and G: "b_count2 s = n" "b_count s = n" "\<And>u. u < n \<Longrightarrow> rounds s u = k"
    using g by (auto simp: elected_def)
  have t0': "t = t0"
    using t0(3) [OF t] st G(2) t by (cases "t = t0") (auto simp: thread_step_simps)
  then have s': "s' = goto t0 (if full then R_start else N2_cas n) (s\<lparr>b_count := 0\<rparr>)"
    using st t0(2) G(1) by (auto simp: thread_step_simps)
  show ?thesis
    using t0 G(1,3) unfolding s' rank_sync_def passed_def by (cases full) (auto intro: exI [of _ t0])
qed

text \<open>The first to count down, from the rank barrier.\<close>

lemma first_down:
  assumes t: "t < n" and G: "b_count2 s = n" "b_count s = 0" "\<And>u. u < n \<Longrightarrow> rounds s u = k" "pc s t = N2_cas n"
    and P: "\<And>u. u < n \<Longrightarrow> u \<noteq> t \<Longrightarrow> pc s u = N1_wait \<or> full \<and> pc s u = G_wait \<or> (\<exists>e. pc s u = N2_cas e)"
    and st: "thread_step n full calls flag t s = Some s'"
  shows "(counting_down n full k s' \<or> reopening n k s') \<and> entered s' = entered s"
proof (cases "n = 1")
  case True
  then have s': "s' = goto t N2_store (s\<lparr>b_count2 := 0\<rparr>)"
    using st G by (simp add: thread_step_simps)
  show ?thesis
    using G(2,3) t True unfolding s' reopening_def by auto
next
  case False
  then have s': "s' = goto t N2_wait (s\<lparr>b_count2 := n - 1\<rparr>)"
    using st G by (simp add: thread_step_simps)
  have "cnt n (pc s) N2_wait = 0"
    using P G(4) unfolding cnt_def by (auto simp: card_eq_0_iff) (metis barrier_pc.distinct)
  then show ?thesis
    using G(2,3) t P False unfolding s' counting_down_def by (auto simp: cnt_upd)
qed

lemma rank_sync_step:
  assumes g: "rank_sync n True k s" and t: "t < n" and st: "thread_step n True calls flag t s = Some s'"
    and en: "entered s = (if \<exists>t < n. pc s t = R_start then k else Suc k)"
  shows "rank_sync n True k s' \<and> entered s' = (if \<exists>t < n. pc s' t = R_start then k else Suc k) \<and>
      (passed n k s' = passed n k s \<or> entered s = Suc k \<and> flag (Suc k)) \<or>
    (counting_down n True k s' \<or> reopening n k s') \<and> entered s' = Suc k \<and> entered s = Suc k \<and> passed n k s = Suc k"
proof -
  obtain t0 where t0: "t0 < n" "pc s t0 = R_start \<or> pc s t0 = R_test \<or> pc s t0 = N2_cas n"
      "\<And>u. u < n \<Longrightarrow> u \<noteq> t0 \<Longrightarrow> pc s u = N1_wait \<or> pc s u = G_wait"
    and G: "b_count2 s = n" "b_count s = 0" "\<And>u. u < n \<Longrightarrow> rounds s u = k"
    using g by (auto simp: rank_sync_def)
  have R: "(\<exists>t < n. pc s t = R_start) \<longleftrightarrow> pc s t0 = R_start"
    using t0 by (metis barrier_pc.distinct)
  have not_start: "pc s u \<noteq> R_start" if "u < n" "u \<noteq> t0" for u
    using t0(3) [OF that] by auto
  have sync: "rank_sync n True k s'" if "b_count2 s' = n" "b_count s' = 0" "rounds s' = rounds s"
      "pc s' t0 = R_start \<or> pc s' t0 = R_test \<or> pc s' t0 = N2_cas n"
      "\<And>u. u < n \<Longrightarrow> u \<noteq> t0 \<Longrightarrow> pc s' u = N1_wait \<or> pc s' u = G_wait"
    unfolding rank_sync_def using that t0(1) G(3) by (simp, blast)
  show ?thesis
  proof (cases "t = t0")
    case False
    then have w: "pc s t = N1_wait" and s': "s' = goto t G_wait s"
      using t0(3) [OF t] st G(1,2) by (auto simp: thread_step_simps)
    have "pc s' u = R_start \<longleftrightarrow> pc s u = R_start" "pc s' u = N2_cas e \<longleftrightarrow> pc s u = N2_cas e" for u e
      using w by (simp_all add: s')
    then have "(\<exists>t < n. pc s' t = R_start) \<longleftrightarrow> pc s t0 = R_start" "passed n k s' = passed n k s"
      using R by (simp_all add: passed_def) (simp add: s')
    moreover have "rank_sync n True k s'"
      by (rule sync) (use t0 G False in \<open>simp_all add: s'\<close>)
    ultimately show ?thesis
      using en R by (simp add: s')
  next
    case True
    consider "pc s t0 = R_start" | "pc s t0 = R_test" | "pc s t0 = N2_cas n"
      using t0(2) by blast
    then show ?thesis
    proof cases
      case 1
      then have s': "s' = goto t0 R_test (s\<lparr>entered := Suc k\<rparr>)"
        using st True en R by (simp add: thread_step_simps)
      have "pc s' u = N2_cas e \<longleftrightarrow> pc s u = N2_cas e" for u e
        using 1 by (simp add: s')
      then have "passed n k s' = passed n k s"
        by (simp add: passed_def) (simp add: s')
      moreover have "\<not> (\<exists>t < n. pc s' t = R_start)"
        using not_start by (simp add: s')
      moreover have "rank_sync n True k s'"
        by (rule sync) (use t0 G in \<open>simp_all add: s'\<close>)
      moreover have "entered s' = Suc k"
        by (simp add: s')
      ultimately show ?thesis
        by auto
    next
      case 2
      then have s': "s' = goto t0 (N2_cas n) s" and "flag (entered s)" and e: "entered s = Suc k"
        using st True G(1) en R by (auto simp: thread_step_simps split: if_splits)
      moreover have "entered s' = Suc k"
        using e by (simp add: s')
      moreover have "\<not> (\<exists>t < n. pc s' t = R_start)"
        using not_start by (simp add: s')
      moreover have "rank_sync n True k s'"
        by (rule sync) (use t0 G in \<open>simp_all add: s'\<close>)
      ultimately show ?thesis
        by auto
    next
      case 3
      have "(counting_down n True k s' \<or> reopening n k s') \<and> entered s' = entered s"
        by (rule first_down [OF t G _ _ st]) (use 3 True t0(3) in auto)
      moreover have "passed n k s = Suc k" "entered s = Suc k"
        using 3 t0(1) en R by (auto simp: passed_def)
      ultimately show ?thesis
        by simp
    qed
  qed
qed

lemma thread_sync_step:
  assumes g: "rank_sync n False k s" and t: "t < n" and st: "thread_step n False calls flag t s = Some s'"
  shows "(rank_sync n False k s' \<or> counting_down n False k s' \<or> reopening n k s') \<and> entered s' = entered s"
proof -
  have G: "b_count2 s = n" "b_count s = 0" "\<And>u. u < n \<Longrightarrow> rounds s u = k"
      "\<And>u. u < n \<Longrightarrow> pc s u = N1_wait \<or> pc s u = N2_cas n"
    using g by (auto simp: rank_sync_def)
  show ?thesis
  proof (cases "pc s t = N1_wait")
    case True
    then have s': "s' = goto t (N2_cas n) s"
      using st G(1,2) by (auto simp: thread_step_simps)
    show ?thesis
      using G unfolding s' rank_sync_def by auto
  next
    case False
    with G(4) [OF t] have p: "pc s t = N2_cas n"
      by simp
    show ?thesis
      using first_down [OF t G(1-3) p _ st] G(4) by blast
  qed
qed

lemma counting_down_step:
  assumes g: "counting_down n full k s" and t: "t < n" and st: "thread_step n full calls flag t s = Some s'"
  shows "(counting_down n full k s' \<or> reopening n k s') \<and> entered s' = entered s"
proof -
  have G: "b_count s = 0" "b_count2 s + cnt n (pc s) N2_wait = n" "0 < cnt n (pc s) N2_wait" "0 < b_count2 s"
      "\<And>u. u < n \<Longrightarrow> rounds s u = k"
      "\<And>u. u < n \<Longrightarrow> pc s u = N1_wait \<or> full \<and> pc s u = G_wait \<or> (\<exists>e. pc s u = N2_cas e) \<or> pc s u = N2_wait"
    using g by (auto simp: counting_down_def)
  show ?thesis
  proof (cases "pc s t = N2_cas 1 \<and> b_count2 s = 1")
    case True
    then have s': "s' = goto t N2_store (s\<lparr>b_count2 := 0\<rparr>)"
      using st by (auto simp: thread_step_simps)
    have "pc s u = N2_wait" if "u < n" "u \<noteq> t" for u
      using cnt_others [OF t, of "pc s" N2_wait u] True G(2) that by simp
    then show ?thesis
      using G(1,5) t unfolding s' reopening_def by auto
  next
    case False
    have "s' = goto t (if full then G_wait else N2_cas (b_count2 s)) s \<and> pc s t = N1_wait \<or>
        s' = goto t (N2_cas (b_count2 s)) s \<and> pc s t \<noteq> N2_wait \<or>
        s' = goto t N2_wait (s\<lparr>b_count2 := b_count2 s - 1\<rparr>) \<and> b_count2 s \<noteq> 1 \<and> pc s t \<noteq> N2_wait"
      using G(6) [OF t] st False G(1-4) by (elim disjE conjE exE) (auto simp: thread_step_simps split: if_splits)
    then show ?thesis
      using G t unfolding counting_down_def by (elim disjE conjE) (simp_all add: cnt_upd, blast)
  qed
qed

lemma reopening_step:
  assumes g: "reopening n k s" and t: "t < n" and st: "thread_step n full calls flag t s = Some s'"
  shows "gathering n (Suc k) s' \<and> entered s' = entered s"
proof -
  obtain t0 where t0: "t0 < n" "pc s t0 = N2_store" "\<And>u. u < n \<Longrightarrow> u \<noteq> t0 \<Longrightarrow> pc s u = N2_wait"
    and G: "b_count2 s = 0" "b_count s = 0" "\<And>u. u < n \<Longrightarrow> rounds s u = k"
    using g by (auto simp: reopening_def)
  have "t = t0"
    using t0(3) [OF t] st G(1) t by (cases "t = t0") (auto simp: thread_step_simps)
  then have s': "s' = leave t0 (s\<lparr>b_count2 := n\<rparr>)"
    using st t0(2) by (simp add: thread_step_simps)
  have "pc s' u \<noteq> N1_wait" if "u < n" for u
    using t0 that unfolding s' by auto
  then have "cnt n (pc s') N1_wait = 0"
    by (auto simp: cnt_def)
  then show ?thesis
    using t0 G(2,3) unfolding gathering_def s' by auto
qed

section \<open>Rounds of all ranks\<close>

lemma thread_step_entered: "thread_step n full calls flag t s = Some s' \<Longrightarrow> entered s \<le> entered s'"
  by (cases "pc s t") (auto simp: thread_step_simps split: if_splits)

lemma round_step:
  assumes r: "in_round n full k s" and t: "t < n" and st: "thread_step n full calls flag t s = Some s'"
  shows "\<exists>k'. in_round n full k' s' \<and>
    (full \<longrightarrow> entered s \<le> entered s' \<and> (passed n k' s' \<le> passed n k s \<or> flag (passed n k' s')))"
proof -
  note in_round_def [simp]
  have P: "passed n j u \<le> j" if "gathering n j u \<or> elected n j u" for j u
    using that by (auto simp: gathering_def elected_def passed_def)
  have Q: "passed n j u \<le> Suc j" "j \<le> passed n j u" for j u
    by (simp_all add: passed_def)
  have D: "passed n k s = Suc k" if "counting_down n full k s \<or> reopening n k s"
    using that t by (auto simp: counting_down_def reopening_def passed_def)
  from r consider "gathering n k s" "full \<longrightarrow> entered s = k" | "elected n k s" "full \<longrightarrow> entered s = k"
    | "rank_sync n full k s" "full \<longrightarrow> entered s = (if \<exists>t < n. pc s t = R_start then k else Suc k)"
    | "counting_down n full k s" "full \<longrightarrow> entered s = Suc k"
    | "reopening n k s" "full \<longrightarrow> entered s = Suc k"
    by auto
  then show ?thesis
  proof cases
    case 1
    with gathering_step [OF 1(1) t st] P [of k s'] Q [of k s] show ?thesis
      by (intro exI [of _ k]) auto
  next
    case 2
    from elected_step [OF 2(1) t st] have e: "rank_sync n full k s'" "entered s' = entered s"
        "full \<longrightarrow> (\<exists>t < n. pc s' t = R_start) \<and> passed n k s' = k"
      by auto
    with e 2(2) Q [of k s] show ?thesis
      by (intro exI [of _ k]) auto
  next
    case 3
    show ?thesis
    proof (cases full)
      case True
      then have 3: "rank_sync n True k s" "thread_step n True calls flag t s = Some s'"
          "entered s = (if \<exists>t < n. pc s t = R_start then k else Suc k)"
        using 3 st by simp_all
      from rank_sync_step [OF 3(1) t 3(2,3)]
      consider "in_round n full k s'" "passed n k s' \<le> passed n k s" | "in_round n full k s'" "flag (Suc k)"
        using True Q(1) [of k s'] by auto
      then show ?thesis
      proof cases
        case 1
        with thread_step_entered [OF st] show ?thesis
          by blast
      next
        case 2
        moreover have "passed n k s' = Suc k \<or> passed n k s' \<le> passed n k s"
          using Q [of k s] Q [of k s'] by auto
        ultimately show ?thesis
          using thread_step_entered [OF st] by metis
      qed
    next
      case False
      with thread_sync_step [OF _ t, of k s calls flag s'] 3 st show ?thesis
        by auto
    qed
  next
    case 4
    with counting_down_step [OF 4(1) t st] D Q [of k s'] show ?thesis
      by (intro exI [of _ k]) auto
  next
    case 5
    with reopening_step [OF 5(1) t st] D P [of "Suc k" s'] show ?thesis
      by (intro exI [of _ "Suc k"]) auto
  qed
qed

definition barrier_inv :: "nat \<Rightarrow> nat \<Rightarrow> bool \<Rightarrow> barrier_system \<Rightarrow> bool" where
  "barrier_inv ranks n full w \<longleftrightarrow>
     (\<forall>r < ranks. \<exists>k. in_round n full k (w r) \<and> (full \<longrightarrow> (\<forall>r' < ranks. passed n k (w r) \<le> entered (w r'))))"

lemma barrier_reach_inv:
  assumes "barrier_reach ranks n full calls don w" "ibarrier_ok ranks don" "0 < n"
  shows "barrier_inv ranks n full w"
  using assms(1)
proof (induction rule: barrier_reach.induct)
  case barrier_reach_init
  have "in_round n full 0 (barrier_init n) \<and> passed n 0 (barrier_init n) = 0"
    using assms(3) by (simp add: in_round_def gathering_def barrier_init_def cnt_def passed_def)
  then show ?case
    by (auto simp: barrier_inv_def)
next
  case (barrier_reach_step w v)
  from barrier_reach_step.hyps(2) obtain r t s where st: "r < ranks" "t < n" "v = w(r := s)"
      "thread_step n full calls (\<lambda>k. don k (\<lambda>r. entered (w r))) t (w r) = Some s"
    by (auto elim: barrier_stepE)
  from barrier_reach_step.IH st(1) obtain k where k: "in_round n full k (w r)"
      "full \<Longrightarrow> \<forall>r' < ranks. passed n k (w r) \<le> entered (w r')"
    by (auto simp: barrier_inv_def)
  from round_step [OF k(1) st(2,4)] obtain k' where k': "in_round n full k' s"
      "full \<Longrightarrow> entered (w r) \<le> entered s"
      "full \<Longrightarrow> passed n k' s \<le> passed n k (w r) \<or> don (passed n k' s) (\<lambda>r. entered (w r))"
    by auto
  have mono: "entered (w r') \<le> entered (v r')" if full for r'
    using k'(2) that by (simp add: st(3))
  have new: "passed n k' s \<le> entered (w r')" if full "r' < ranks" for r'
    using k'(3) [OF that(1)]
  proof
    assume "passed n k' s \<le> passed n k (w r)"
    also have "\<dots> \<le> entered (w r')"
      using k(2) that by blast
    finally show ?thesis .
  next
    assume "don (passed n k' s) (\<lambda>r. entered (w r))"
    then show ?thesis
      using assms(2) that(2) by (simp add: ibarrier_ok_def)
  qed
  show ?case
    unfolding barrier_inv_def
  proof (intro allI impI)
    fix q assume q: "q < ranks"
    show "\<exists>k. in_round n full k (v q) \<and> (full \<longrightarrow> (\<forall>r' < ranks. passed n k (v q) \<le> entered (v r')))"
    proof (cases "q = r")
      case True
      then show ?thesis
        using k'(1) new mono order_trans st(3) by (metis fun_upd_same)
    next
      case False
      obtain j where j: "in_round n full j (w q)" "full \<Longrightarrow> \<forall>r' < ranks. passed n j (w q) \<le> entered (w r')"
        using barrier_reach_step.IH q by (auto simp: barrier_inv_def)
      then show ?thesis
        using False mono order_trans st(3) by (metis fun_upd_other)
    qed
  qed
qed

text \<open>A thread has arrived when it is counted in \<open>b_count\<close>.\<close>

definition arrived :: "barrier_pc \<Rightarrow> bool" where
  "arrived x \<longleftrightarrow> x \<noteq> Idle \<and> (\<forall>e. x \<noteq> N1_cas e)"

lemma in_round_threads:
  assumes "in_round n full k s" "t < n"
  shows "rounds s t = k \<or> Suc (rounds s t) = k \<and> arrived (pc s t)"
    and "full \<Longrightarrow> entered s \<le> Suc k"
    and "full \<Longrightarrow> entered s = Suc k \<Longrightarrow> rounds s t = k \<and> arrived (pc s t)"
proof -
  show "rounds s t = k \<or> Suc (rounds s t) = k \<and> arrived (pc s t)"
    using assms
    by (auto simp: in_round_def gathering_def elected_def rank_sync_def counting_down_def reopening_def arrived_def)
  show "full \<Longrightarrow> entered s \<le> Suc k"
    using assms(1) by (auto simp: in_round_def)
  assume f: full and e: "entered s = Suc k"
  from assms(1) f e consider "rank_sync n full k s" "\<not> (\<exists>t < n. pc s t = R_start)" | "counting_down n full k s"
    | "reopening n k s"
    unfolding in_round_def by (auto split: if_splits)
  then show "rounds s t = k \<and> arrived (pc s t)"
  proof cases
    case 1
    then show ?thesis
      using assms(2) f by (auto simp: rank_sync_def arrived_def)
  next
    case 2
    then show ?thesis
      using assms(2) by (auto simp: counting_down_def arrived_def)
  next
    case 3
    then show ?thesis
      using assms(2) by (auto simp: reopening_def arrived_def)
  qed
qed

text \<open>C10: no thread leaves the barrier before all have arrived.  If a thread has returned from more than
  \<open>k\<close> calls, every other thread has returned from more than \<open>k\<close> calls or has arrived in its next one:
  for \<open>operator()\<close> every thread of every rank, for \<open>thread_barrier\<close> every thread of the same rank, in
  every interleaving and any number of rounds.\<close>

theorem barrier_separates:
  assumes reach: "barrier_reach ranks n full calls don w" and mpi: "ibarrier_ok ranks don"
    and rt: "r < ranks" "t < n" "r' < ranks" "t' < n" "full \<or> r' = r"
    and left: "k < rounds (w r) t"
  shows "k < rounds (w r') t' \<or> rounds (w r') t' = k \<and> arrived (pc (w r') t')"
proof -
  have "0 < n"
    using rt(2) by simp
  note inv = barrier_reach_inv [OF reach mpi this]
  from inv rt(1) obtain K where K: "in_round n full K (w r)"
      "full \<Longrightarrow> \<forall>r' < ranks. passed n K (w r) \<le> entered (w r')"
    by (auto simp: barrier_inv_def)
  from inv rt(3) obtain K' where K': "in_round n full K' (w r')"
    by (auto simp: barrier_inv_def)
  note T = in_round_threads(1) [OF K(1) rt(2)] and T' = in_round_threads [OF K' rt(4)]
  show ?thesis
  proof (cases full)
    case False
    with rt(5) have "r' = r"
      by simp
    then show ?thesis
      using T in_round_threads(1) [OF K(1) rt(4)] left by auto
  next
    case True
    have "K \<le> passed n K (w r)"
      by (simp add: passed_def)
    also have "\<dots> \<le> entered (w r')"
      using K(2) True rt(3) by blast
    finally have "Suc k \<le> entered (w r')"
      using T left by auto
    then show ?thesis
      using T' True by (cases "entered (w r') = Suc K'") auto
  qed
qed

text \<open>A run under a given schedule.\<close>

fun barrier_run ::
    "nat \<Rightarrow> nat \<Rightarrow> bool \<Rightarrow> nat \<Rightarrow> (nat \<Rightarrow> (nat \<Rightarrow> nat) \<Rightarrow> bool) \<Rightarrow> (nat \<times> nat) list \<Rightarrow> barrier_system \<Rightarrow> barrier_system option" where
  "barrier_run ranks n full calls don [] w = Some w"
| "barrier_run ranks n full calls don ((r, t) # xs) w =
     (if r < ranks \<and> t < n
      then case thread_step n full calls (\<lambda>k. don k (\<lambda>r. entered (w r))) t (w r) of
          None \<Rightarrow> None
        | Some s \<Rightarrow> barrier_run ranks n full calls don xs (w(r := s))
      else None)"

lemma barrier_run_reach:
  "barrier_run ranks n full calls don xs w = Some v \<Longrightarrow> barrier_reach ranks n full calls don w \<Longrightarrow>
     barrier_reach ranks n full calls don v"
proof (induction xs arbitrary: w)
  case (Cons x xs)
  then show ?case
    by (cases x) (auto split: if_splits option.splits intro: barrier_reach_step barrier_stepI)
qed simp

definition all_entered :: "nat \<Rightarrow> nat \<Rightarrow> (nat \<Rightarrow> nat) \<Rightarrow> bool" where
  "all_entered ranks k e \<longleftrightarrow> list_all (\<lambda>r. k \<le> e r) [0..<ranks]"

lemma all_entered_ok: "ibarrier_ok ranks (all_entered ranks)"
  by (auto simp: ibarrier_ok_def all_entered_def list_all_iff)

theorem barrier_separates_witness:
  "\<exists>w. barrier_reach 2 1 True 1 (all_entered 2) w \<and> 0 < rounds (w 0) 0 \<and> arrived (pc (w 1) 0)"
proof -
  let ?xs = "[(0, 0), (0, 0), (0, 0), (0, 0), (1, 0), (1, 0), (1, 0), (1, 0), (0, 0), (0, 0), (0, 0)]"
  obtain w where w: "barrier_run 2 1 True 1 (all_entered 2) ?xs (\<lambda>_. barrier_init 1) = Some w"
      "rounds (w 0) 0 = 1" "rounds (w 1) 0 = 0"
    by (simp add: thread_step_simps barrier_init_def goto_def leave_def all_entered_def upt_rec)
  have reach: "barrier_reach 2 1 True 1 (all_entered 2) w"
    using barrier_run_reach [OF w(1)] barrier_reach_init by blast
  have "arrived (pc (w 1) 0)"
    using barrier_separates [OF reach all_entered_ok, of 0 0 1 0 0] w(2,3) by simp
  with reach w(2) show ?thesis
    by auto
qed

section \<open>Every call returns\<close>

lemma barrier_reach_calls:
  assumes "barrier_reach ranks n full calls don w"
  shows "rounds (w r) t \<le> calls \<and> (pc (w r) t \<noteq> Idle \<longrightarrow> rounds (w r) t < calls)"
  using assms
proof (induction arbitrary: r t rule: barrier_reach.induct)
  case (barrier_reach_step w v)
  from barrier_reach_step.hyps(2) obtain q u s where st: "v = w(q := s)"
      "thread_step n full calls (\<lambda>k. don k (\<lambda>r. entered (w r))) u (w q) = Some s"
    by (auto elim: barrier_stepE)
  have "rounds s t \<le> calls \<and> (pc s t \<noteq> Idle \<longrightarrow> rounds s t < calls)"
    using st(2) barrier_reach_step.IH [of q t] barrier_reach_step.IH [of q u]
    by (cases "pc (w q) u") (auto simp: thread_step_simps split: if_splits)
  with barrier_reach_step.IH show ?case
    by (simp add: st(1))
qed (simp add: barrier_init_def)

text \<open>A rank none of whose threads can move has finished, or waits for another rank.\<close>

lemma stuck_rank:
  assumes r: "in_round n full k s" and n: "0 < n"
    and c: "\<And>t. rounds s t \<le> calls \<and> (pc s t \<noteq> Idle \<longrightarrow> rounds s t < calls)"
    and none: "\<And>t. t < n \<Longrightarrow> thread_step n full calls flag t s = None"
  shows "(\<forall>t < n. pc s t = Idle \<and> rounds s t = calls) \<and> (full \<longrightarrow> entered s = calls) \<or>
    full \<and> k < calls \<and> entered s = Suc k \<and> \<not> flag (Suc k)"
proof -
  from r consider "gathering n k s" "full \<longrightarrow> entered s = k" | "elected n k s"
    | "rank_sync n full k s" "full \<longrightarrow> entered s = (if \<exists>t < n. pc s t = R_start then k else Suc k)"
    | "counting_down n full k s" | "reopening n k s"
    by (auto simp: in_round_def)
  then show ?thesis
  proof cases
    case 1
    have a: "pc s t = Idle \<and> rounds s t = k \<and> k = calls \<or> pc s t = N1_wait \<and> rounds s t = k" if "t < n" for t
      using none [OF that] 1(1) that c [of t] unfolding gathering_def
      by (cases "pc s t") (auto simp: thread_step_simps split: if_splits)
    have "\<exists>t < n. pc s t \<noteq> N1_wait"
      using 1(1) cnt_all [of n "pc s" N1_wait] by (auto simp: gathering_def)
    then have "k = calls"
      using a by blast
    then have "pc s t = Idle \<and> rounds s t = calls" if "t < n" for t
      using a [OF that] c [of t] by auto
    with 1(2) \<open>k = calls\<close> show ?thesis
      by simp
  next
    case 2
    then obtain t where "t < n" "pc s t = N1_store"
      by (auto simp: elected_def)
    with none show ?thesis
      by (fastforce simp: thread_step_simps)
  next
    case 3
    show ?thesis
    proof (cases full)
      case True
      then obtain t0 where t0: "t0 < n" "pc s t0 = R_start \<or> pc s t0 = R_test \<or> pc s t0 = N2_cas n"
          "\<And>u. u < n \<Longrightarrow> u \<noteq> t0 \<Longrightarrow> pc s u = N1_wait \<or> pc s u = G_wait" "rounds s t0 = k"
        using 3(1) by (auto simp: rank_sync_def)
      then have p: "pc s t0 = R_test" "\<not> flag (entered s)"
        using none [OF t0(1)] by (auto simp: thread_step_simps split: if_splits)
      moreover have "\<not> (\<exists>t < n. pc s t = R_start)"
        using t0(3) p(1) by (metis barrier_pc.distinct)
      ultimately show ?thesis
        using 3(2) True c [of t0] t0(4) by auto
    next
      case False
      then have "pc s 0 = N1_wait \<or> pc s 0 = N2_cas n" "b_count s = 0"
        using 3(1) n by (auto simp: rank_sync_def)
      then show ?thesis
        using none [OF n] by (auto simp: thread_step_simps split: if_splits)
    qed
  next
    case 4
    then have "pc s t = N2_wait" if "t < n" for t
      using none [OF that] that unfolding counting_down_def
      by (cases "pc s t") (auto simp: thread_step_simps split: if_splits)
    then show ?thesis
      using 4 cnt_all [of n "pc s" N2_wait] by (auto simp: counting_down_def)
  next
    case 5
    then obtain t where "t < n" "pc s t = N2_store"
      by (auto simp: reopening_def)
    with none show ?thesis
      by (fastforce simp: thread_step_simps)
  qed
qed

lemma barrier_stuck_done:
  assumes reach: "barrier_reach ranks n full calls don w" and mpi: "ibarrier_ok ranks don" and n: "0 < n"
    and stuck: "\<And>v. \<not> barrier_step ranks n full calls don w v"
    and r: "r < ranks" "t < n"
  shows "pc (w r) t = Idle \<and> rounds (w r) t = calls"
proof -
  define waits where "waits r k \<longleftrightarrow> full \<and> r < ranks \<and> k < calls \<and> entered (w r) = Suc k \<and>
      \<not> don (Suc k) (\<lambda>r. entered (w r))" for r k
  have one: "(\<forall>t < n. pc (w q) t = Idle \<and> rounds (w q) t = calls) \<and> (full \<longrightarrow> entered (w q) = calls) \<or>
      (\<exists>k. waits q k)" if q: "q < ranks" for q
  proof -
    obtain k where k: "in_round n full k (w q)"
      using barrier_reach_inv [OF reach mpi n] q by (auto simp: barrier_inv_def)
    have "thread_step n full calls (\<lambda>k. don k (\<lambda>r. entered (w r))) u (w q) = None" if "u < n" for u
      using stuck barrier_stepI [OF q that] by (meson not_Some_eq)
    from stuck_rank [OF k n barrier_reach_calls [OF reach] this] show ?thesis
      using q by (auto simp: waits_def)
  qed
  have "\<not> waits q k" for q k
  proof (induction k arbitrary: q rule: less_induct)
    case (less k)
    show ?case
    proof
      assume wq: "waits q k"
      then obtain p where p: "p < ranks" "entered (w p) < Suc k"
        using mpi unfolding waits_def ibarrier_ok_def by (meson not_le)
      from one [OF p(1)] show False
      proof
        assume "(\<forall>t < n. pc (w p) t = Idle \<and> rounds (w p) t = calls) \<and> (full \<longrightarrow> entered (w p) = calls)"
        then show False
          using p(2) wq by (simp add: waits_def)
      next
        assume "\<exists>k. waits p k"
        then obtain j where "waits p j"
          by blast
        then have "j < k"
          using p(2) by (simp add: waits_def)
        with less.IH \<open>waits p j\<close> show False
          by blast
      qed
    qed
  qed
  with one [OF r(1)] r(2) show ?thesis
    by blast
qed

text \<open>How far a thread has come, counted in steps that change the state, and whether its next exchange
  would fail.\<close>

fun pc_rank :: "barrier_pc \<Rightarrow> nat" where
  "pc_rank Idle = 0"
| "pc_rank (N1_cas e) = 1"
| "pc_rank N1_store = 2"
| "pc_rank N1_wait = 2"
| "pc_rank R_start = 3"
| "pc_rank R_test = 4"
| "pc_rank G_wait = 5"
| "pc_rank (N2_cas e) = 6"
| "pc_rank N2_store = 7"
| "pc_rank N2_wait = 7"

definition come :: "nat \<Rightarrow> barrier_state \<Rightarrow> nat" where
  "come t s = 8 * rounds s t + pc_rank (pc s t)"

definition stale :: "barrier_state \<Rightarrow> barrier_pc \<Rightarrow> nat" where
  "stale s x = (case x of N1_cas e \<Rightarrow> if e = b_count s then 0 else 1 | N2_cas e \<Rightarrow> if e = b_count2 s then 0 else 1 | _ \<Rightarrow> 0)"

lemma stale_goto [simp]: "stale (goto t x s) = stale s" "stale (leave t s) = stale s"
  by (simp_all add: stale_def fun_eq_iff split: barrier_pc.splits)

lemma thread_step_measure:
  assumes "thread_step n full calls flag t s = Some s'"
  shows "(\<forall>u. u \<noteq> t \<longrightarrow> come u s' = come u s) \<and>
    (come t s < come t s' \<or>
     come t s' = come t s \<and> stale s' (pc s' t) < stale s (pc s t) \<and> (\<forall>u. u \<noteq> t \<longrightarrow> stale s' (pc s' u) = stale s (pc s u)))"
proof -
  have "come u s' = come u s" if "u \<noteq> t" for u
    using that assms by (cases "pc s t") (auto simp: thread_step_simps come_def split: if_splits)
  moreover have "come t s < come t s' \<or> (\<exists>e. pc s t = N1_cas e \<and> e \<noteq> b_count s \<and> s' = goto t (N1_cas (b_count s)) s) \<or>
      (\<exists>e. pc s t = N2_cas e \<and> e \<noteq> b_count2 s \<and> s' = goto t (N2_cas (b_count2 s)) s)"
    using assms by (cases "pc s t") (auto simp: thread_step_simps come_def split: if_splits)
  ultimately show ?thesis
    by (elim disjE exE conjE) (auto simp: come_def stale_def)
qed

lemma sum_upd_less:
  fixes t n :: nat
  assumes "t < n" "\<And>u. u < n \<Longrightarrow> u \<noteq> t \<Longrightarrow> g u = f u" "f t < (g t :: nat)"
  shows "sum f {..<n} < sum g {..<n}"
proof (rule sum_strict_mono_ex1)
  show "\<forall>u \<in> {..<n}. f u \<le> g u"
    using assms by (metis lessThan_iff less_imp_le order_refl)
qed (use assms in auto)

definition total :: "nat \<Rightarrow> nat \<Rightarrow> barrier_system \<Rightarrow> nat" where
  "total ranks n w = (\<Sum>r < ranks. \<Sum>t < n. come t (w r))"

definition total_stale :: "nat \<Rightarrow> nat \<Rightarrow> barrier_system \<Rightarrow> nat" where
  "total_stale ranks n w = (\<Sum>r < ranks. \<Sum>t < n. stale (w r) (pc (w r) t))"

lemma barrier_step_measure:
  assumes "barrier_step ranks n full calls don w v"
  shows "total ranks n w < total ranks n v \<or>
    total ranks n v = total ranks n w \<and> total_stale ranks n v < total_stale ranks n w"
proof -
  from assms obtain r t s where st: "r < ranks" "t < n" "v = w(r := s)"
      "thread_step n full calls (\<lambda>k. don k (\<lambda>r. entered (w r))) t (w r) = Some s"
    by (auto elim: barrier_stepE)
  note m = thread_step_measure [OF st(4)]
  show ?thesis
  proof (cases "come t (w r) < come t s")
    case True
    have "(\<Sum>t < n. come t (w r)) < (\<Sum>t < n. come t s)"
      by (rule sum_upd_less [OF st(2)]) (use m True in auto)
    then have "total ranks n w < total ranks n v"
      unfolding total_def st(3) by (intro sum_upd_less [OF st(1)]) auto
    then show ?thesis
      by simp
  next
    case False
    with m have e: "come t s = come t (w r)" "stale s (pc s t) < stale (w r) (pc (w r) t)"
        "\<And>u. u \<noteq> t \<Longrightarrow> stale s (pc s u) = stale (w r) (pc (w r) u)" "\<And>u. u \<noteq> t \<Longrightarrow> come u s = come u (w r)"
      by auto
    then have "come u s = come u (w r)" for u
      by (cases "u = t") auto
    then have "come u (v q) = come u (w q)" for u q
      by (simp add: st(3))
    then have "total ranks n v = total ranks n w"
      by (simp add: total_def)
    moreover have "(\<Sum>u < n. stale s (pc s u)) < (\<Sum>u < n. stale (w r) (pc (w r) u))"
      by (rule sum_upd_less [OF st(2)]) (use e in auto)
    then have "total_stale ranks n v < total_stale ranks n w"
      unfolding total_stale_def st(3) by (intro sum_upd_less [OF st(1)]) auto
    ultimately show ?thesis
      by simp
  qed
qed

lemma total_bound:
  assumes "barrier_reach ranks n full calls don w"
  shows "total ranks n w \<le> ranks * (n * (8 * calls))"
proof -
  have "come t (w r) \<le> 8 * calls" for r t
  proof -
    have "pc_rank (pc (w r) t) \<le> (if pc (w r) t = Idle then 0 else 7)"
      by (cases "pc (w r) t") simp_all
    then show ?thesis
      using barrier_reach_calls [OF assms, of r t] by (auto simp: come_def split: if_splits)
  qed
  then have "(\<Sum>t < n. come t (w r)) \<le> n * (8 * calls)" for r
    using sum_bounded_above [of "{..<n}" "\<lambda>t. come t (w r)" "8 * calls"] by simp
  then show ?thesis
    using sum_bounded_above [of "{..<ranks}" "\<lambda>r. \<Sum>t < n. come t (w r)" "n * (8 * calls)"]
    by (simp add: total_def)
qed

lemma barrier_no_infinite:
  assumes "f 0 = (\<lambda>_. barrier_init n)" "\<And>i. barrier_step ranks n full calls don (f i) (f (Suc i))"
  shows False
proof -
  have reach: "barrier_reach ranks n full calls don (f i)" for i
    by (induction i) (auto simp: assms(1) intro: barrier_reach_init barrier_reach_step [OF _ assms(2)])
  let ?B = "ranks * (n * (8 * calls))"
  let ?m = "\<lambda>w. (?B - total ranks n w, total_stale ranks n w)"
  have "(?m (f (Suc i)), ?m (f i)) \<in> less_than <*lex*> less_than" for i
    using barrier_step_measure [OF assms(2) [of i]] total_bound [OF reach [of "Suc i"]] by auto
  moreover have "wf (less_than <*lex*> less_than)"
    by (intro wf_lex_prod wf_less_than)
  moreover have "\<exists>g. \<forall>i. (g (Suc i), g i) \<in> less_than <*lex*> less_than"
    using calculation(1) by (intro exI [of _ "\<lambda>i. ?m (f i)"]) blast
  ultimately show False
    unfolding wf_iff_no_infinite_down_chain by blast
qed

text \<open>C11: every call of the barrier returns.  With every thread of every rank making the same number of
  calls, no schedule runs forever without one of them leaving a waiting loop, and a state in which no
  thread can move any more is one in which all threads have returned from all their calls: there is
  no deadlock, whatever the interleaving.\<close>

theorem barrier_completes:
  assumes "ibarrier_ok ranks don" "0 < n"
  shows "(\<nexists>f. f 0 = (\<lambda>_. barrier_init n) \<and> (\<forall>i. barrier_step ranks n full calls don (f i) (f (Suc i)))) \<and>
    (\<forall>w. barrier_reach ranks n full calls don w \<and> (\<nexists>v. barrier_step ranks n full calls don w v) \<longrightarrow>
      (\<forall>r < ranks. \<forall>t < n. pc (w r) t = Idle \<and> rounds (w r) t = calls))"
proof (intro conjI)
  show "\<nexists>f. f 0 = (\<lambda>_. barrier_init n) \<and> (\<forall>i. barrier_step ranks n full calls don (f i) (f (Suc i)))"
    using barrier_no_infinite by blast
  show "\<forall>w. barrier_reach ranks n full calls don w \<and> (\<nexists>v. barrier_step ranks n full calls don w v) \<longrightarrow>
      (\<forall>r < ranks. \<forall>t < n. pc (w r) t = Idle \<and> rounds (w r) t = calls)"
    using barrier_stuck_done [OF _ assms] by blast
qed

theorem barrier_completes_witness:
  "\<nexists>f. f 0 = (\<lambda>_. barrier_init 3) \<and> (\<forall>i. barrier_step 2 3 True 5 (all_entered 2) (f i) (f (Suc i)))"
  using conjunct1 [OF barrier_completes [OF all_entered_ok [of 2], of 3 True 5]] by simp

end
