(* ===== verification/Nccl_Transport.thy ===== *)
theory Nccl_Transport
  imports Completion Request_Api
begin

text \<open>
  The NCCL transport (\<open>nccl/\<close>): events and their pool, groups, request queues, communicator and
  context.  CUDA and NCCL are a record of functions on a state \<open>'g\<close>.  NCCL performs the communication
  itself; the transport records an event behind every operation, or behind a whole group, and calls
  the callbacks when the event is ready.
\<close>

section \<open>CUDA and NCCL\<close>

text \<open>Every function returns an error code, zero being success.  \<open>cudaEventQuery\<close> does not change the
  state; 600 is \<open>cudaErrorNotReady\<close>, 7 is \<open>ncclInProgress\<close>.\<close>

record 'g nccl_lib =
  cudaEventCreateWithFlags :: "'g \<Rightarrow> (int \<times> nat) \<times> 'g"
  cudaEventRecord :: "nat \<Rightarrow> nat \<Rightarrow> 'g \<Rightarrow> int \<times> 'g"
  cudaEventQuery :: "nat \<Rightarrow> 'g \<Rightarrow> int"
  ncclSend :: "ptr \<Rightarrow> size_t \<Rightarrow> rank_type \<Rightarrow> nat \<Rightarrow> 'g \<Rightarrow> int \<times> 'g"
  ncclRecv :: "ptr \<Rightarrow> size_t \<Rightarrow> rank_type \<Rightarrow> nat \<Rightarrow> 'g \<Rightarrow> int \<times> 'g"
  ncclGroupStart :: "'g \<Rightarrow> int \<times> 'g"
  ncclGroupEnd :: "'g \<Rightarrow> int \<times> 'g"

definition check_cuda :: "int \<Rightarrow> 'a result \<Rightarrow> 'a result" where
  "check_cuda rc k = (if rc \<noteq> 0 then Inl (Runtime_error ''OOMPH Error: CUDA Call failed'') else k)"

definition check_nccl :: "int \<Rightarrow> 'a result \<Rightarrow> 'a result" where
  "check_nccl rc k = (if rc \<noteq> 0 \<and> rc \<noteq> 7 then Inl (Runtime_error ''OOMPH Error: NCCL Call failed'') else k)"

section \<open>Events\<close>

record cuda_event =
  m_event :: nat
  m_moved :: bool
  m_recorded :: bool

definition cuda_event_new :: "'g nccl_lib \<Rightarrow> 'g \<Rightarrow> (cuda_event \<times> 'g) result" where
  "cuda_event_new lib g =
     (case cudaEventCreateWithFlags lib g of ((rc, e), g) \<Rightarrow>
        check_cuda rc (Inr (\<lparr>m_event = e, m_moved = False, m_recorded = False\<rparr>, g)))"

definition cuda_event_record :: "'g nccl_lib \<Rightarrow> nat \<Rightarrow> cuda_event \<Rightarrow> 'g \<Rightarrow> (cuda_event \<times> 'g) result" where
  "cuda_event_record lib stream ev g =
     (if m_moved ev then Inl (Terminate ''assert(!m_moved)'')
      else case cudaEventRecord lib (m_event ev) stream g of (rc, g) \<Rightarrow>
        check_cuda rc (Inr (ev\<lparr>m_recorded := True\<rparr>, g)))"

definition cuda_event_is_ready :: "'g nccl_lib \<Rightarrow> cuda_event \<Rightarrow> 'g \<Rightarrow> bool result" where
  "cuda_event_is_ready lib ev g =
     (if m_moved ev \<or> \<not> m_recorded ev then Inr False
      else let res = cudaEventQuery lib (m_event ev) g in
        if res = 0 then Inr True
        else if res = 600 then Inr False
        else check_cuda res (Inr False))"

text \<open>\<open>cuda_event_pool\<close>: a vector used from the back.\<close>

definition event_pool_pop :: "'g nccl_lib \<Rightarrow> cuda_event list \<Rightarrow> 'g \<Rightarrow> (cuda_event \<times> cuda_event list \<times> 'g) result" where
  "event_pool_pop lib pool g =
     (if pool = [] then bind_res (cuda_event_new lib g) (\<lambda>(ev, g). Inr (ev, [], g))
      else Inr (last pool, butlast pool, g))"

definition event_pool_push :: "cuda_event \<Rightarrow> cuda_event list \<Rightarrow> cuda_event list" where
  "event_pool_push ev pool = pool @ [ev]"

text \<open>The destructor of a \<open>cached_cuda_event\<close>.\<close>

definition cached_event_destroy :: "cuda_event \<Rightarrow> cuda_event list \<Rightarrow> cuda_event list" where
  "cached_event_destroy ev pool = (if m_moved ev then pool else event_pool_push ev pool)"

section \<open>State\<close>

text \<open>A request holds an event of its own, or shares the event of a group.\<close>

datatype nccl_request = Cached_event cuda_event | Group_event ptr

record 'c nccl_request_state = "'c request_state" +
  n_req :: nccl_request

record nccl_queue =
  nq_queue :: "ptr list"
  nq_ready_queue :: "ptr list"
  nq_in_progress :: bool

record nccl_shared_queue =
  ns_queue :: "ptr list"
  ns_size :: size_t
  ns_in_progress :: bool
  ns_local_queue :: "ptr list"

record group_info =
  gi_event :: ptr
  gi_last_stream :: "nat option"

text \<open>The state of one process: queues of all communicators and of the context, the active groups,
  the shared group events (in reference counted blocks), the pool of events.\<close>

record ('c, 'g) nccl_world = "'c nccl_request_state request_store" +
  nqueue :: "qid \<Rightarrow> nccl_queue"
  nshared :: nccl_shared_queue
  m_group_info :: "nat \<Rightarrow> group_info option"
  group_events :: "cuda_event blocks"
  event_pool :: "cuda_event list"
  own_rank :: rank_type
  gpu :: 'g

type_synonym ('c, 'g) nccl_callback =
  "'c \<Rightarrow> rank_type \<Rightarrow> tag_type \<Rightarrow> ('c, 'g) nccl_world \<Rightarrow> ('c, 'g) nccl_world"

definition is_group_active :: "nat \<Rightarrow> ('c, 'g) nccl_world \<Rightarrow> bool" where
  "is_group_active c w \<longleftrightarrow> m_group_info w c \<noteq> None"

text \<open>Giving up a reference to a group event; the last one returns the event to the pool.\<close>

definition group_event_drop :: "ptr \<Rightarrow> ('c, 'g) nccl_world \<Rightarrow> ('c, 'g) nccl_world result" where
  "group_event_drop q w =
     (case group_events w q of
        None \<Rightarrow> Inl (Undefined_behaviour ''use of a freed group event'')
      | Some b \<Rightarrow>
          bind_res (block_destroy (Some q) (group_events w)) (\<lambda>gs.
          Inr (w\<lparr>group_events := gs,
                 event_pool := (if gs q = None then cached_event_destroy (m_t b) (event_pool w) else event_pool w)\<rparr>)))"

text \<open>The destructor of a request.\<close>

definition nccl_request_destroy :: "nccl_request \<Rightarrow> ('c, 'g) nccl_world \<Rightarrow> ('c, 'g) nccl_world result" where
  "nccl_request_destroy r w =
     (case r of
        Cached_event ev \<Rightarrow> Inr (w\<lparr>event_pool := cached_event_destroy ev (event_pool w)\<rparr>)
      | Group_event q \<Rightarrow> group_event_drop q w)"

definition nccl_request_is_ready :: "'g nccl_lib \<Rightarrow> nccl_request \<Rightarrow> ('c, 'g) nccl_world \<Rightarrow> bool result" where
  "nccl_request_is_ready lib r w =
     (case r of
        Cached_event ev \<Rightarrow> cuda_event_is_ready lib ev (gpu w)
      | Group_event q \<Rightarrow>
          (case group_events w q of
             None \<Rightarrow> Inl (Undefined_behaviour ''use of a freed group event'')
           | Some b \<Rightarrow> cuda_event_is_ready lib (m_t b) (gpu w)))"

section \<open>Groups\<close>

text \<open>\<open>q\<close> is the address of the shared event of the new group.\<close>

definition start_group :: "'g nccl_lib \<Rightarrow> nat \<Rightarrow> ptr \<Rightarrow> ('c, 'g) nccl_world \<Rightarrow> ('c, 'g) nccl_world result" where
  "start_group lib c q w =
     (if is_group_active c w
      then Inl (Logic_error ''OOMPH Error: start_group called while a group is already active'')
      else case ncclGroupStart lib (gpu w) of (rc, g) \<Rightarrow> check_nccl rc
        (bind_res (event_pool_pop lib (event_pool w) g) (\<lambda>(ev, pool, g).
         Inr (w\<lparr>gpu := g, event_pool := pool,
                group_events := block_allocate q ev (group_events w),
                m_group_info := (m_group_info w)(c \<mapsto> \<lparr>gi_event = q, gi_last_stream = None\<rparr>)\<rparr>))))"

definition group_event_record ::
    "'g nccl_lib \<Rightarrow> nat \<Rightarrow> ptr \<Rightarrow> ('c, 'g) nccl_world \<Rightarrow> ('c, 'g) nccl_world result" where
  "group_event_record lib stream q w =
     (case group_events w q of
        None \<Rightarrow> Inl (Undefined_behaviour ''use of a freed group event'')
      | Some b \<Rightarrow>
          bind_res (cuda_event_record lib stream (m_t b) (gpu w)) (\<lambda>(ev, g).
          Inr (w\<lparr>gpu := g, group_events := (group_events w)(q \<mapsto> b\<lparr>m_t := ev\<rparr>)\<rparr>)))"

definition end_group :: "'g nccl_lib \<Rightarrow> nat \<Rightarrow> ('c, 'g) nccl_world \<Rightarrow> ('c, 'g) nccl_world result" where
  "end_group lib c w =
     (case m_group_info w c of
        None \<Rightarrow> Inl (Logic_error ''OOMPH Error: end_group called without an active group'')
      | Some gi \<Rightarrow>
          (case ncclGroupEnd lib (gpu w) of (rc, g) \<Rightarrow> check_nccl rc
           (bind_res
             (case gi_last_stream gi of
                None \<Rightarrow> Inr (w\<lparr>gpu := g\<rparr>)
              | Some stream \<Rightarrow> group_event_record lib stream (gi_event gi) (w\<lparr>gpu := g\<rparr>)) (\<lambda>w.
            group_event_drop (gi_event gi) (w\<lparr>m_group_info := (m_group_info w)(c := None)\<rparr>)))))"

section \<open>Posting\<close>

text \<open>The raw \<open>send\<close> and \<open>recv\<close>; \<open>op\<close> is \<open>ncclSend\<close> or \<open>ncclRecv\<close> on the buffer.\<close>

definition nccl_post ::
    "'g nccl_lib \<Rightarrow> ('g \<Rightarrow> int \<times> 'g) \<Rightarrow> nat \<Rightarrow> rank_type \<Rightarrow> nat \<Rightarrow> ('c, 'g) nccl_world \<Rightarrow>
     (nccl_request \<times> ('c, 'g) nccl_world) result" where
  "nccl_post lib op c peer stream w =
     (if peer = own_rank w \<and> \<not> is_group_active c w
      then Inl (Runtime_error ''oomph NCCL backend: self-send/recv requires an active NCCL group.'')
      else case op (gpu w) of (rc, g) \<Rightarrow> check_nccl rc
        (let w = w\<lparr>gpu := g\<rparr> in
         case m_group_info w c of
           Some gi \<Rightarrow>
             bind_res (block_incr (Some (gi_event gi)) (group_events w)) (\<lambda>gs.
             Inr (Group_event (gi_event gi),
                  w\<lparr>group_events := gs,
                    m_group_info := (m_group_info w)(c \<mapsto> gi\<lparr>gi_last_stream := Some stream\<rparr>)\<rparr>))
         | None \<Rightarrow>
             bind_res (event_pool_pop lib (event_pool w) (gpu w)) (\<lambda>(ev, pool, g).
             bind_res (cuda_event_record lib stream ev g) (\<lambda>(ev, g).
             Inr (Cached_event ev, w\<lparr>event_pool := pool, gpu := g\<rparr>)))))"

definition nccl_send_raw ::
    "'g nccl_lib \<Rightarrow> nat \<Rightarrow> ptr \<Rightarrow> size_t \<Rightarrow> rank_type \<Rightarrow> nat \<Rightarrow> ('c, 'g) nccl_world \<Rightarrow>
     (nccl_request \<times> ('c, 'g) nccl_world) result" where
  "nccl_send_raw lib c buf sz dst stream w = nccl_post lib (ncclSend lib buf sz dst stream) c dst stream w"

definition nccl_recv_raw ::
    "'g nccl_lib \<Rightarrow> nat \<Rightarrow> ptr \<Rightarrow> size_t \<Rightarrow> rank_type \<Rightarrow> nat \<Rightarrow> ('c, 'g) nccl_world \<Rightarrow>
     (nccl_request \<times> ('c, 'g) nccl_world) result" where
  "nccl_recv_raw lib c buf sz src stream w = nccl_post lib (ncclRecv lib buf sz src stream) c src stream w"

definition nq_enqueue :: "qid \<Rightarrow> ptr \<Rightarrow> ('c, 'g) nccl_world \<Rightarrow> ('c, 'g) nccl_world" where
  "nq_enqueue q e w = w\<lparr>nqueue := (nqueue w)(q := (nqueue w q)\<lparr>nq_queue := nq_queue (nqueue w q) @ [e]\<rparr>)\<rparr>"

definition ns_enqueue :: "ptr \<Rightarrow> ('c, 'g) nccl_world \<Rightarrow> ('c, 'g) nccl_world" where
  "ns_enqueue e w = w\<lparr>nshared := (nshared w)\<lparr>ns_queue := ns_queue (nshared w) @ [e], ns_size := ns_size (nshared w) + 1\<rparr>\<rparr>"

definition nccl_new_state ::
    "nat \<Rightarrow> counter_id \<Rightarrow> rank_type \<Rightarrow> tag_type \<Rightarrow> 'c \<Rightarrow> nccl_request \<Rightarrow> 'c nccl_request_state" where
  "nccl_new_state c sched rank tag cb r =
     \<lparr>m_comm = c, m_scheduled = sched, m_rank = rank, m_tag = tag, m_cb = cb,
      m_ready = False, m_canceled = False, m_self_ptr = None, n_req = r\<rparr>"

definition nccl_send ::
    "'g nccl_lib \<Rightarrow> nat \<Rightarrow> nat \<Rightarrow> ptr \<Rightarrow> ptr \<Rightarrow> size_t \<Rightarrow> rank_type \<Rightarrow> tag_type \<Rightarrow> 'c \<Rightarrow> ('c, 'g) nccl_world \<Rightarrow>
     (ptr option \<times> ('c, 'g) nccl_world) result" where
  "nccl_send lib c stream p buf sz dst tag cb w =
     bind_res (nccl_send_raw lib c buf sz dst stream w) (\<lambda>(r, w).
     bind_res (post_request p (nccl_new_state c (Scheduled_sends c) dst tag cb r) w) (\<lambda>w.
     Inr (Some p, move_to_handle p (nq_enqueue (Send_reqs c) p w))))"

definition nccl_recv ::
    "'g nccl_lib \<Rightarrow> nat \<Rightarrow> nat \<Rightarrow> ptr \<Rightarrow> ptr \<Rightarrow> size_t \<Rightarrow> rank_type \<Rightarrow> tag_type \<Rightarrow> 'c \<Rightarrow> ('c, 'g) nccl_world \<Rightarrow>
     (ptr option \<times> ('c, 'g) nccl_world) result" where
  "nccl_recv lib c stream p buf sz src tag cb w =
     bind_res (nccl_recv_raw lib c buf sz src stream w) (\<lambda>(r, w).
     bind_res (post_request p (nccl_new_state c (Scheduled_recvs c) src tag cb r) w) (\<lambda>w.
     Inr (Some p, move_to_handle p (nq_enqueue (Recv_reqs c) p w))))"

definition nccl_shared_recv ::
    "'g nccl_lib \<Rightarrow> nat \<Rightarrow> nat \<Rightarrow> ptr \<Rightarrow> ptr \<Rightarrow> size_t \<Rightarrow> rank_type \<Rightarrow> tag_type \<Rightarrow> 'c \<Rightarrow> ('c, 'g) nccl_world \<Rightarrow>
     (ptr option \<times> ('c, 'g) nccl_world) result" where
  "nccl_shared_recv lib c stream p buf sz src tag cb w =
     bind_res (nccl_recv_raw lib c buf sz src stream w) (\<lambda>(r, w).
     bind_res (post_request p (nccl_new_state c Shared_scheduled_recvs src tag cb r) w) (\<lambda>w.
     Inr (Some p, move_to_handle p (ns_enqueue p w))))"

section \<open>Progress\<close>

text \<open>Completion of one request.  When it frees the request state, the state's event goes with it.\<close>

definition nccl_complete ::
    "('c, 'g) nccl_callback \<Rightarrow> ptr \<Rightarrow> ('c, 'g) nccl_world \<Rightarrow> ('c, 'g) nccl_world result" where
  "nccl_complete cbk p w =
     bind_res (load_state p w) (\<lambda>r.
     bind_res (complete_request cbk p w) (\<lambda>w.
     if heap w p = None then nccl_request_destroy (n_req r) w else Inr w))"

text \<open>The loop of \<open>request_queue::progress\<close> over \<open>i\<close>; \<open>j\<close> is \<open>num_not_ready\<close>, returned at the end.\<close>

fun nq_scan ::
    "'g nccl_lib \<Rightarrow> qid \<Rightarrow> nat \<Rightarrow> nat \<Rightarrow> nat \<Rightarrow> ('c, 'g) nccl_world \<Rightarrow> (nat \<times> ('c, 'g) nccl_world) result" where
  "nq_scan lib q 0 i j w = Inr (j, w)"
| "nq_scan lib q (Suc n) i j w =
     (if length (nq_queue (nqueue w q)) \<le> i then Inl (Undefined_behaviour ''vector index out of range'')
      else
        let e = nq_queue (nqueue w q) ! i in
        bind_res (load_state e w) (\<lambda>r.
        bind_res (nccl_request_is_ready lib (n_req r) w) (\<lambda>ready.
        if ready
        then nq_scan lib q n (i + 1) j
               (w\<lparr>nqueue := (nqueue w)(q := (nqueue w q)\<lparr>nq_ready_queue := nq_ready_queue (nqueue w q) @ [e]\<rparr>)\<rparr>)
        else nq_scan lib q n (i + 1) (j + 1)
               (if j \<noteq> i
                then w\<lparr>nqueue := (nqueue w)(q := (nqueue w q)\<lparr>nq_queue := (nq_queue (nqueue w q))[j := e]\<rparr>)\<rparr>
                else w))))"

definition nq_flag :: "qid \<Rightarrow> bool \<Rightarrow> ('c, 'g) nccl_world \<Rightarrow> ('c, 'g) nccl_world" where
  "nq_flag q b w = w\<lparr>nqueue := (nqueue w)(q := (nqueue w q)\<lparr>nq_in_progress := b\<rparr>)\<rparr>"

definition nq_progress ::
    "'g nccl_lib \<Rightarrow> ('c, 'g) nccl_callback \<Rightarrow> qid \<Rightarrow> ('c, 'g) nccl_world \<Rightarrow> (nat \<times> ('c, 'g) nccl_world) result" where
  "nq_progress lib cbk q w =
     (if nq_in_progress (nqueue w q) then Inr (0, w)
      else
        let w = nq_flag q True w;
            qs = length (nq_queue (nqueue w q)) in
        if qs = 0 then Inr (0, nq_flag q False w)
        else
          let w = w\<lparr>nqueue := (nqueue w)(q := (nqueue w q)\<lparr>nq_ready_queue := []\<rparr>)\<rparr> in
          bind_res (nq_scan lib q qs 0 0 w) (\<lambda>(j, w).
          let w = w\<lparr>nqueue := (nqueue w)(q := (nqueue w q)\<lparr>nq_queue := take j (nq_queue (nqueue w q))\<rparr>)\<rparr>;
              ready = nq_ready_queue (nqueue w q) in
          bind_res (fold_res (nccl_complete cbk) ready w) (\<lambda>w. Inr (length ready, nq_flag q False w))))"

text \<open>The loop of the shared queue, and its progress.  Unlike the MPI transport, the flag is reset
  before the callback runs.\<close>

fun ns_poll ::
    "'g nccl_lib \<Rightarrow> nat \<Rightarrow> ('c, 'g) nccl_world \<Rightarrow> (ptr option \<times> ('c, 'g) nccl_world) result" where
  "ns_poll lib 0 w = Inr (None, w)"
| "ns_poll lib (Suc n) w =
     (case ns_queue (nshared w) of
        [] \<Rightarrow> Inr (None, w)
      | e # es \<Rightarrow>
          let w = w\<lparr>nshared := (nshared w)\<lparr>ns_queue := es\<rparr>\<rparr> in
          bind_res (load_state e w) (\<lambda>r.
          bind_res (nccl_request_is_ready lib (n_req r) w) (\<lambda>ready.
          if ready then Inr (Some e, w)
          else ns_poll lib n (w\<lparr>nshared := (nshared w)\<lparr>ns_local_queue := ns_local_queue (nshared w) @ [e]\<rparr>\<rparr>))))"

definition ns_progress ::
    "'g nccl_lib \<Rightarrow> ('c, 'g) nccl_callback \<Rightarrow> ('c, 'g) nccl_world \<Rightarrow> (nat \<times> ('c, 'g) nccl_world) result" where
  "ns_progress lib cbk w =
     (if ns_in_progress (nshared w) then Inr (0, w)
      else
        let w = w\<lparr>nshared := (nshared w)\<lparr>ns_in_progress := True\<rparr>\<rparr> in
        bind_res (ns_poll lib (length (ns_queue (nshared w))) w) (\<lambda>(found, w).
        let w = w\<lparr>nshared := (nshared w)\<lparr>ns_queue := ns_queue (nshared w) @ ns_local_queue (nshared w), ns_local_queue := []\<rparr>\<rparr> in
        case found of
          None \<Rightarrow> Inr (0, w\<lparr>nshared := (nshared w)\<lparr>ns_in_progress := False\<rparr>\<rparr>)
        | Some e \<Rightarrow>
            bind_res (nccl_complete cbk e
              (w\<lparr>nshared := (nshared w)\<lparr>ns_size := ns_size (nshared w) - 1, ns_in_progress := False\<rparr>\<rparr>)) (\<lambda>w.
            Inr (1, w))))"

definition nccl_ctx_progress ::
    "'g nccl_lib \<Rightarrow> ('c, 'g) nccl_callback \<Rightarrow> ('c, 'g) nccl_world \<Rightarrow> ('c, 'g) nccl_world result" where
  "nccl_ctx_progress lib cbk w = bind_res (ns_progress lib cbk w) (\<lambda>(_, w). Inr w)"

definition nccl_comm_progress ::
    "'g nccl_lib \<Rightarrow> ('c, 'g) nccl_callback \<Rightarrow> nat \<Rightarrow> ('c, 'g) nccl_world \<Rightarrow> ('c, 'g) nccl_world result" where
  "nccl_comm_progress lib cbk c w =
     (if is_group_active c w
      then Inl (Logic_error ''OOMPH Error: Calling progress while a NCCL group is active is not allowed'')
      else
        bind_res (nq_progress lib cbk (Send_reqs c) w) (\<lambda>(_, w).
        bind_res (nq_progress lib cbk (Recv_reqs c) w) (\<lambda>(_, w).
        nccl_ctx_progress lib cbk w)))"

text \<open>The user destroying a request object; the last reference takes the state and its event along.\<close>

definition nccl_drop_handle :: "ptr \<Rightarrow> ('c, 'g) nccl_world \<Rightarrow> ('c, 'g) nccl_world result" where
  "nccl_drop_handle p w =
     bind_res (load_state p w) (\<lambda>r.
     bind_res (drop_handle p w) (\<lambda>w.
     if heap w p = None then nccl_request_destroy (n_req r) w else Inr w))"

text \<open>Cancellation is not supported.\<close>

definition nccl_cancel_recv :: "nat \<Rightarrow> ptr \<Rightarrow> ('c, 'g) nccl_world \<Rightarrow> (bool \<times> ('c, 'g) nccl_world) result" where
  "nccl_cancel_recv c p w = Inr (False, w)"

text \<open>The context refuses to be thread safe.\<close>

definition check_not_thread_safe :: "bool \<Rightarrow> bool result" where
  "check_not_thread_safe thread_safe =
     (if thread_safe then Inl (Runtime_error ''NCCL not supported with thread_safe = true'') else Inr thread_safe)"

end
