(* ===== verification/Nccl_Properties.thy ===== *)
theory Nccl_Properties
  imports Nccl_Transport
begin

text \<open>
  What the NCCL transport guarantees: the invariant of its request store and of the shared group
  events, what progress does with the requests of a queue, the errors of the group discipline, and
  when the event of a group counts as ready.
\<close>

section \<open>Invariant\<close>

text \<open>The owners of a group event: the requests posted in the group, and the group while it is
  active.\<close>

definition event_requests :: "('c, 'g) nccl_world \<Rightarrow> ptr \<Rightarrow> ptr set" where
  "event_requests w q = {p. \<exists>b. heap w p = Some b \<and> n_req (m_t b) = Group_event q}"

definition event_groups :: "('c, 'g) nccl_world \<Rightarrow> ptr \<Rightarrow> nat set" where
  "event_groups w q = {c. \<exists>gi. m_group_info w c = Some gi \<and> gi_event gi = q}"

definition event_refs :: "('c, 'g) nccl_world \<Rightarrow> ptr \<Rightarrow> nat" where
  "event_refs w q = card (event_requests w q) + card (event_groups w q)"

definition nccl_store_inv :: "('c, 'g) nccl_world \<Rightarrow> bool" where
  "nccl_store_inv w \<longleftrightarrow> store_inv w \<and> owned (event_refs w) (group_events w) \<and> finite (dom (m_group_info w))"

text \<open>Queued requests wait and stand in one queue only.\<close>

fun nlist :: "('c, 'g) nccl_world \<Rightarrow> qid option \<Rightarrow> ptr list" where
  "nlist w None = ns_queue (nshared w)"
| "nlist w (Some q) = nq_queue (nqueue w q)"

definition nccl_inv :: "('c, 'g) nccl_world \<Rightarrow> bool" where
  "nccl_inv w \<longleftrightarrow> nccl_store_inv w \<and> (\<forall>a. distinct (nlist w a)) \<and>
     (\<forall>a b. a \<noteq> b \<longrightarrow> set (nlist w a) \<inter> set (nlist w b) = {}) \<and>
     (\<forall>a. \<forall>p \<in> set (nlist w a). is_waiting w p) \<and> ns_local_queue (nshared w) = []"

text \<open>User callbacks act on the interface's state and on the device only.\<close>

definition nenv :: "('c, 'g) nccl_world \<Rightarrow> api_state \<times> 'g" where
  "nenv w = (api w, gpu w)"

definition nccl_extern ::
    "('c \<Rightarrow> rank_type \<Rightarrow> tag_type \<Rightarrow> api_state \<times> 'g \<Rightarrow> api_state \<times> 'g) \<Rightarrow> ('c, 'g) nccl_callback" where
  "nccl_extern f c r t w = (case f c r t (nenv w) of (a, g) \<Rightarrow> w\<lparr>api := a, gpu := g\<rparr>)"

definition ncall_of ::
    "('c \<Rightarrow> rank_type \<Rightarrow> tag_type \<Rightarrow> 'e \<Rightarrow> 'e) \<Rightarrow> ('c, 'g) nccl_world \<Rightarrow> ptr \<Rightarrow> 'e \<Rightarrow> 'e" where
  "ncall_of f w p = f (m_cb (state_of w p)) (m_rank (state_of w p)) (m_tag (state_of w p))"

lemma nccl_extern_outside: "outside (nccl_extern f) = nccl_extern f"
  by (simp add: fun_eq_iff outside_def nccl_extern_def off_store_def nenv_def split: prod.splits)

text \<open>The part of the world that a callback leaves alone.\<close>

definition nstatic ::
    "('c, 'g) nccl_world \<Rightarrow> (qid \<Rightarrow> nccl_queue) \<times> nccl_shared_queue \<times> (nat \<Rightarrow> group_info option) \<times> rank_type" where
  "nstatic w = (nqueue w, nshared w, m_group_info w, own_rank w)"

lemma effect_nccl:
  fixes w :: "('c, 'g) nccl_world"
  assumes "off_store v = effect_of (nccl_extern f) w p (off_store w)"
  shows "nenv v = ncall_of f w p (nenv w)" "nstatic v = nstatic w" "group_events v = group_events w"
    "event_pool v = event_pool w"
proof -
  have "nenv (off_store u) = nenv u" "nstatic (off_store u) = nstatic u" "group_events (off_store u) = group_events u"
    "event_pool (off_store u) = event_pool u" for u :: "('c, 'g) nccl_world"
    by (simp_all add: off_store_def nenv_def nstatic_def)
  note s = this
  show "nenv v = ncall_of f w p (nenv w)" "nstatic v = nstatic w" "group_events v = group_events w"
    "event_pool v = event_pool w"
    unfolding s [of v, symmetric] assms
    by (simp_all add: effect_of_def s ncall_of_def nccl_extern_def split: prod.splits)
       (simp_all add: nenv_def nstatic_def off_store_def)
qed

lemma event_requests_finite: "store_inv w \<Longrightarrow> finite (event_requests w q)"
  by (rule finite_subset [of _ "dom (heap w)"]) (auto simp: event_requests_def store_inv_def)

lemma event_groups_finite: "finite (dom (m_group_info w)) \<Longrightarrow> finite (event_groups w q)"
  by (rule finite_subset [of _ "dom (m_group_info w)"]) (auto simp: event_groups_def)

lemma event_refs_static: "nstatic v = nstatic w \<Longrightarrow> event_groups v = event_groups w"
  by (auto simp: nstatic_def event_groups_def fun_eq_iff)

section \<open>Completing requests\<close>

text \<open>A completed request takes its reference to the group event with it if its state is freed.\<close>

lemma nccl_release_ok:
  fixes w u :: "('c, 'g) nccl_world"
  assumes inv: "nccl_store_inv w" and b: "heap w p = Some b" and u: "store_inv u" "\<And>x. x \<noteq> p \<Longrightarrow> heap u x = heap w x"
    and up: "heap u p = None \<or> (\<exists>b'. heap u p = Some b' \<and> n_req (m_t b') = n_req (m_t b))"
    and e: "nstatic u = nstatic w" "group_events u = group_events w"
  obtains v where "(if heap u p = None then nccl_request_destroy (n_req (m_t b)) u else Inr u) = Inr v" "nccl_store_inv v"
    "heap v = heap u" "handles v = handles u" "nenv v = nenv u" "nstatic v = nstatic u"
proof -
  have st: "store_inv w" and ow: "owned (event_refs w) (group_events w)" and fin: "finite (dom (m_group_info w))"
    using inv by (simp_all add: nccl_store_inv_def)
  note g = event_refs_static [OF e(1)]
  have fu: "finite (dom (m_group_info u))"
    using fin e(1) by (simp add: nstatic_def)
  have others: "event_requests u q = event_requests w q" if "heap u p \<noteq> None \<or> n_req (m_t b) \<noteq> Group_event q" for q
  proof -
    have "x \<in> event_requests u q \<longleftrightarrow> x \<in> event_requests w q" for x
      using that u(2) [of x] up b by (cases "x = p") (auto simp: event_requests_def)
    then show ?thesis
      by blast
  qed
  show thesis
  proof (cases "heap u p = None \<and> (\<exists>q. n_req (m_t b) = Group_event q)")
    case False
    then have r: "event_requests u q = event_requests w q" for q
      using others by blast
    then have ou: "owned (event_refs u) (group_events u)"
      using ow e(2) g by (simp add: event_refs_def [abs_def])
    let ?v = "if heap u p = None then u\<lparr>event_pool := (case n_req (m_t b) of
        Cached_event ev \<Rightarrow> cached_event_destroy ev (event_pool u) | _ \<Rightarrow> event_pool u)\<rparr> else u"
    have "(if heap u p = None then nccl_request_destroy (n_req (m_t b)) u else Inr u) = Inr ?v"
      using False by (auto simp: nccl_request_destroy_def split: nccl_request.splits)
    moreover have "nccl_store_inv ?v"
      using u(1) ou fu by (auto simp: nccl_store_inv_def event_refs_def [abs_def] event_requests_def event_groups_def
          cong: store_inv_cong)
    ultimately show thesis
      by (intro that [of ?v]) (simp_all add: nenv_def nstatic_def)
  next
    case True
    then obtain q where q: "heap u p = None" "n_req (m_t b) = Group_event q"
      by blast
    have pq: "p \<in> event_requests w q"
      using b q(2) by (auto simp: event_requests_def)
    have "event_requests u q = event_requests w q - {p}"
      using u(2) q b by (auto simp: event_requests_def) (metis option.distinct(1))
    then have cq: "card (event_requests u q) = card (event_requests w q) - 1" "0 < card (event_requests w q)"
      using pq event_requests_finite [OF st] by (auto simp: card_gt_0_iff)
    have pos: "0 < event_refs w q"
      using cq(2) by (simp add: event_refs_def)
    have refs: "event_refs u = (event_refs w)(q := event_refs w q - 1)"
      using cq g others q(2) by (auto simp: event_refs_def fun_eq_iff)
    obtain c gs where gs: "group_events w q = Some c" "block_destroy (Some q) (group_events w) = Inr gs"
        "owned ((event_refs w)(q := event_refs w q - 1)) gs"
      using owned_destroy [OF ow pos] by metis
    let ?v = "u\<lparr>group_events := gs,
      event_pool := (if gs q = None then cached_event_destroy (m_t c) (event_pool u) else event_pool u)\<rparr>"
    have "(if heap u p = None then nccl_request_destroy (n_req (m_t b)) u else Inr u) = Inr ?v"
      using q gs(1,2) e(2) by (simp add: nccl_request_destroy_def group_event_drop_def)
    moreover have "nccl_store_inv ?v"
      using u(1) gs(3) fu refs by (auto simp: nccl_store_inv_def event_refs_def [abs_def] event_requests_def event_groups_def
          cong: store_inv_cong)
    ultimately show thesis
      by (intro that [of ?v]) (simp_all add: nenv_def nstatic_def)
  qed
qed

lemma nccl_complete_ok:
  fixes w :: "('c, 'g) nccl_world"
  assumes inv: "nccl_store_inv w" and p: "is_waiting w p"
  obtains v where "nccl_complete (nccl_extern f) p w = Inr v" "nccl_store_inv v" "finished v p"
    "nenv v = ncall_of f w p (nenv w)" "nstatic v = nstatic w" "handles v = handles w"
    "\<And>x. x \<noteq> p \<Longrightarrow> heap v x = heap w x"
proof -
  have st: "store_inv w"
    using inv by (simp add: nccl_store_inv_def)
  obtain b where b: "heap w p = Some b" "state_of w p = m_t b"
    using p by (auto simp: is_waiting_heap state_of_def)
  obtain u where u: "complete_request (nccl_extern f) p w = Inr u" "store_inv u" "finished u p"
    "off_store u = effect_of (nccl_extern f) w p (off_store w)" "handles u = handles w"
    "\<And>x. x \<noteq> p \<Longrightarrow> heap u x = heap w x"
    "heap u p = None \<or> (\<exists>b'. heap u p = Some b' \<and> m_t b' = (m_t b)\<lparr>m_self_ptr := None, m_ready := True\<rparr>)"
    by (rule complete_request_outside [OF st p, of "nccl_extern f", unfolded nccl_extern_outside b(2)]) (rule that)
  note e = effect_nccl [OF u(4)]
  have up: "heap u p = None \<or> (\<exists>b'. heap u p = Some b' \<and> n_req (m_t b') = n_req (m_t b))"
    using u(7) by auto
  obtain v where v: "(if heap u p = None then nccl_request_destroy (n_req (m_t b)) u else Inr u) = Inr v"
    "nccl_store_inv v" "heap v = heap u" "handles v = handles u" "nenv v = nenv u" "nstatic v = nstatic u"
    by (rule nccl_release_ok [OF inv b(1) u(2,6) up e(2,3)]) (assumption | rule that)+
  have "nccl_complete (nccl_extern f) p w = Inr v"
    using b(1) u(1) v(1) by (simp add: nccl_complete_def load_state_def)
  moreover have "finished v p"
    using u(3) v(3,4) finished_cong [of v p u] by simp
  ultimately show thesis
    using u e v by (intro that [of v]) simp_all
qed

lemma nccl_complete_all:
  fixes w :: "('c, 'g) nccl_world"
  assumes "nccl_store_inv w" "distinct ps" "\<And>p. p \<in> set ps \<Longrightarrow> is_waiting w p"
  shows "\<exists>v. fold_res (nccl_complete (nccl_extern f)) ps w = Inr v \<and> nccl_store_inv v \<and>
    nenv v = fold (ncall_of f w) ps (nenv w) \<and> (\<forall>p \<in> set ps. finished v p) \<and> nstatic v = nstatic w \<and>
    handles v = handles w \<and> (\<forall>p. p \<notin> set ps \<longrightarrow> heap v p = heap w p)"
  using assms
proof (induction ps arbitrary: w)
  case (Cons p ps)
  obtain v where v: "nccl_complete (nccl_extern f) p w = Inr v" "nccl_store_inv v" "finished v p"
    "nenv v = ncall_of f w p (nenv w)" "nstatic v = nstatic w" "handles v = handles w"
    "\<And>x. x \<noteq> p \<Longrightarrow> heap v x = heap w x"
    by (rule nccl_complete_ok [OF Cons.prems(1), of p f]) (use Cons.prems(3) in auto)
  have np: "p \<notin> set ps"
    using Cons.prems(2) by simp
  have same: "heap v x = heap w x" "ncall_of f v x = ncall_of f w x" if "x \<in> set ps" for x
  proof -
    show "heap v x = heap w x"
      using that np by (intro v(7)) auto
    then show "ncall_of f v x = ncall_of f w x"
      using state_of_cong [of v x w] by (simp add: ncall_of_def fun_eq_iff)
  qed
  have "is_waiting v x" if "x \<in> set ps" for x
    using Cons.prems(3) [of x] same(1) [OF that] that by (simp add: is_waiting_def)
  from Cons.IH [OF v(2) _ this] Cons.prems(2) obtain u where
    u: "fold_res (nccl_complete (nccl_extern f)) ps v = Inr u" "nccl_store_inv u"
      "nenv u = fold (ncall_of f v) ps (nenv v)" "\<forall>p \<in> set ps. finished u p" "nstatic u = nstatic v"
      "handles u = handles v" "\<forall>p. p \<notin> set ps \<longrightarrow> heap u p = heap v p"
    by auto
  moreover have "fold (ncall_of f v) ps x = fold (ncall_of f w) ps x" for x
    using same(2) by (intro fold_cong) auto
  moreover have "finished u p"
    using u(6,7) v(3) np by (simp add: finished_def split: option.splits)
  ultimately show ?case
    using v by simp
qed simp

section \<open>Scanning a queue\<close>

text \<open>Whether the event of a request is ready, and that asking does not fail.\<close>

definition nready :: "'g nccl_lib \<Rightarrow> ('c, 'g) nccl_world \<Rightarrow> ptr \<Rightarrow> bool" where
  "nready lib w e \<longleftrightarrow> nccl_request_is_ready lib (n_req (state_of w e)) w = Inr True"

definition nknown :: "'g nccl_lib \<Rightarrow> ('c, 'g) nccl_world \<Rightarrow> ptr \<Rightarrow> bool" where
  "nknown lib w e \<longleftrightarrow> heap w e \<noteq> None \<and> (\<exists>r. nccl_request_is_ready lib (n_req (state_of w e)) w = Inr r)"

definition with_queue :: "qid \<Rightarrow> ptr list \<Rightarrow> ptr list \<Rightarrow> ('c, 'g) nccl_world \<Rightarrow> ('c, 'g) nccl_world" where
  "with_queue q xs rs w = w\<lparr>nqueue := (nqueue w)(q := (nqueue w q)\<lparr>nq_queue := xs, nq_ready_queue := rs\<rparr>)\<rparr>"

lemma with_queue_simps [simp]:
  "nccl_request_is_ready lib r (with_queue q xs rs w) = nccl_request_is_ready lib r w"
  "heap (with_queue q xs rs w) = heap w" "state_of (with_queue q xs rs w) = state_of w"
  "nqueue (with_queue q xs rs w) q = (nqueue w q)\<lparr>nq_queue := xs, nq_ready_queue := rs\<rparr>"
  "with_queue q ys ss (with_queue q xs rs w) = with_queue q ys ss w"
  "load_state e (with_queue q xs rs w) = load_state e w"
  by (simp_all add: with_queue_def nccl_request_is_ready_def state_of_def load_state_def fun_eq_iff
      split: nccl_request.splits option.splits)

lemma with_queue_set:
  "(with_queue q xs rs w)\<lparr>nqueue := (nqueue (with_queue q xs rs w))(q := (nqueue (with_queue q xs rs w) q)\<lparr>nq_ready_queue := ss\<rparr>)\<rparr> =
     with_queue q xs ss w"
  "(with_queue q xs rs w)\<lparr>nqueue := (nqueue (with_queue q xs rs w))(q := (nqueue (with_queue q xs rs w) q)\<lparr>nq_queue := ys\<rparr>)\<rparr> =
     with_queue q ys rs w"
  by (cases "nqueue w q"; simp add: with_queue_def)+

lemma nq_scan_correct:
  fixes w :: "('c, 'g) nccl_world"
  assumes "\<And>e. e \<in> set zs \<Longrightarrow> nknown lib w e" "length ks = j" "length mid = i - j" "j \<le> i"
  shows "\<exists>Q. nq_scan lib q (length zs) i j (with_queue q (ks @ mid @ zs) rs w) =
      Inr (j + length (filter (\<lambda>e. \<not> nready lib w e) zs), with_queue q Q (rs @ filter (nready lib w) zs) w) \<and>
    take (j + length (filter (\<lambda>e. \<not> nready lib w e) zs)) Q = ks @ filter (\<lambda>e. \<not> nready lib w e) zs"
  using assms
proof (induction zs arbitrary: ks mid rs i j)
  case Nil
  then show ?case
    by (intro exI [of _ "ks @ mid"]) simp
next
  case (Cons e zs)
  let ?w = "with_queue q (ks @ mid @ e # zs) rs w"
  have at: "(ks @ mid @ e # zs) ! i = e" "\<not> length (ks @ mid @ e # zs) \<le> i"
    using Cons.prems(2-4) by (simp_all add: nth_append)
  obtain b r where b: "heap w e = Some b" "nccl_request_is_ready lib (n_req (state_of w e)) w = Inr r"
    using Cons.prems(1) [of e] by (auto simp: nknown_def)
  then have l: "load_state e w = Inr (state_of w e)"
    by (simp add: load_state_def state_of_def)
  have r: "r \<longleftrightarrow> nready lib w e"
    using b(2) by (simp add: nready_def)
  show ?case
  proof (cases r)
    case True
    have "nq_scan lib q (length (e # zs)) i j ?w =
        nq_scan lib q (length zs) (i + 1) j (with_queue q (ks @ (mid @ [e]) @ zs) (rs @ [e]) w)"
      using at l b(2) True with_queue_set(1) [of q "ks @ mid @ e # zs" rs w "rs @ [e]"] by (simp add: Let_def)
    with Cons.IH [of ks j "mid @ [e]" "i + 1" "rs @ [e]"] Cons.prems True r show ?thesis
      by simp
  next
    case False
    define mid' where "mid' = (if mid = [] then [] else tl mid @ [e])"
    have upd: "(ks @ mid @ e # zs)[j := e] = (ks @ [e]) @ mid' @ zs" if "j \<noteq> i"
      using Cons.prems(2-4) that by (cases mid) (auto simp: mid'_def list_update_append)
    have "nq_scan lib q (length (e # zs)) i j ?w =
        nq_scan lib q (length zs) (i + 1) (j + 1) (with_queue q ((ks @ [e]) @ mid' @ zs) rs w)"
    proof (cases "j = i")
      case True
      then have "mid = []" "mid' = []"
        using Cons.prems(3) by (simp_all add: mid'_def)
      with at l b(2) \<open>\<not> r\<close> True show ?thesis
        by (simp add: Let_def)
    next
      case False
      with at l b(2) \<open>\<not> r\<close> upd with_queue_set(2) [of q "ks @ mid @ e # zs" rs w "(ks @ [e]) @ mid' @ zs"] show ?thesis
        by (simp add: Let_def)
    qed
    moreover have "length mid' = i + 1 - (j + 1)"
      using Cons.prems(2-4) by (cases mid) (auto simp: mid'_def)
    ultimately show ?thesis
      using Cons.IH [of "ks @ [e]" "j + 1" mid' "i + 1" rs] Cons.prems False r by simp
  qed
qed

section \<open>Progress of a queue\<close>

text \<open>What is relied on of CUDA: a query of a recorded event says that it is complete or not.\<close>

definition cuda_ok :: "'g nccl_lib \<Rightarrow> bool" where
  "cuda_ok lib \<longleftrightarrow> (\<forall>e g. cudaEventQuery lib e g = 0 \<or> cudaEventQuery lib e g = 600)"

lemma cuda_event_known: "cuda_ok lib \<Longrightarrow> \<exists>r. cuda_event_is_ready lib ev g = Inr r"
  unfolding cuda_ok_def cuda_event_is_ready_def by (auto simp: Let_def)

lemma nccl_known:
  assumes "nccl_store_inv w" "cuda_ok lib" "heap w e = Some b"
  shows "nknown lib w e"
proof (cases "n_req (m_t b)")
  case (Group_event q)
  then have "e \<in> event_requests w q"
    using assms(3) by (auto simp: event_requests_def)
  then have "0 < event_refs w q"
    using event_requests_finite [of w q] assms(1) by (auto simp: event_refs_def nccl_store_inv_def card_gt_0_iff)
  then obtain c where "group_events w q = Some c"
    using assms(1) owned_live [of "event_refs w" "group_events w" q] by (auto simp: nccl_store_inv_def)
  then show ?thesis
    using Group_event assms(2,3) cuda_event_known [of lib "m_t c" "gpu w"]
    by (simp add: nknown_def nccl_request_is_ready_def state_of_def)
qed (use assms cuda_event_known in \<open>auto simp: nknown_def nccl_request_is_ready_def state_of_def\<close>)

text \<open>The invariant looks at the store, the group events, the active groups and the queues.\<close>

lemma nccl_store_inv_cong:
  assumes "heap v = heap w" "counters v = counters w" "handles v = handles w" "group_events v = group_events w"
    "m_group_info v = m_group_info w"
  shows "nccl_store_inv v \<longleftrightarrow> nccl_store_inv w"
proof -
  have "store_inv v \<longleftrightarrow> store_inv w"
    using assms by (intro store_inv_cong) simp_all
  moreover have "event_refs v = event_refs w"
    using assms by (simp add: event_refs_def event_requests_def event_groups_def fun_eq_iff)
  ultimately show ?thesis
    using assms by (simp add: nccl_store_inv_def)
qed

lemma nq_flag_simps [simp]:
  "nq_queue (nqueue (nq_flag q b w) q) = nq_queue (nqueue w q)" "nq_flag q b (nq_flag q c w) = nq_flag q b w"
  by (simp_all add: nq_flag_def)

lemma nq_progress_unfold:
  fixes w :: "('c, 'g) nccl_world"
  assumes inv: "nccl_inv w" and cu: "cuda_ok lib" and np: "\<not> nq_in_progress (nqueue w q)"
  defines "xs \<equiv> nq_queue (nqueue w q)"
  defines "u \<equiv> with_queue q (filter (\<lambda>e. \<not> nready lib w e) xs) (filter (nready lib w) xs) (nq_flag q True w)"
  shows "nq_progress lib cbk q w = (if xs = [] then Inr (0, nq_flag q False w)
    else bind_res (fold_res (nccl_complete cbk) (filter (nready lib w) xs) u) (\<lambda>v.
      Inr (length (filter (nready lib w) xs), nq_flag q False v)))"
proof (cases "xs = []")
  case True
  then show ?thesis
    using np by (simp add: nq_progress_def Let_def xs_def)
next
  case False
  let ?w1 = "nq_flag q True w"
  have same: "nready lib ?w1 = nready lib w" "nknown lib ?w1 = nknown lib w"
    by (simp_all add: fun_eq_iff nready_def nknown_def nq_flag_def nccl_request_is_ready_def state_of_def
        split: nccl_request.splits option.splits)
  have "nknown lib ?w1 e" if "e \<in> set xs" for e
  proof -
    have "is_waiting w e"
      using inv that by (metis nccl_inv_def nlist.simps(2) xs_def)
    then show ?thesis
      using nccl_known [OF _ cu] inv by (auto simp: same is_waiting_heap nccl_inv_def)
  qed
  from nq_scan_correct [of xs lib ?w1 "[]" 0 "[]" 0 q "[]", OF this] obtain Q where
    Q: "nq_scan lib q (length xs) 0 0 (with_queue q xs [] ?w1) =
        Inr (length (filter (\<lambda>e. \<not> nready lib w e) xs), with_queue q Q (filter (nready lib w) xs) ?w1)"
      "take (length (filter (\<lambda>e. \<not> nready lib w e) xs)) Q = filter (\<lambda>e. \<not> nready lib w e) xs"
    by (auto simp: same)
  have start: "?w1\<lparr>nqueue := (nqueue ?w1)(q := (nqueue ?w1 q)\<lparr>nq_ready_queue := []\<rparr>)\<rparr> = with_queue q xs [] ?w1"
    by (cases "nqueue w q") (simp add: with_queue_def nq_flag_def xs_def)
  show ?thesis
    using np False Q with_queue_set(2) [of q Q "filter (nready lib w) xs" ?w1 "filter (\<lambda>e. \<not> nready lib w e) xs"]
    by (simp add: nq_progress_def Let_def start xs_def [symmetric] u_def)
qed

lemma nstatic_fields:
  "nstatic v = nstatic w \<longleftrightarrow>
    nqueue v = nqueue w \<and> nshared v = nshared w \<and> m_group_info v = m_group_info w \<and> own_rank v = own_rank w"
  by (auto simp: nstatic_def)

text \<open>The invariant after some requests have left their queue and been completed.\<close>

lemma nccl_inv_completed:
  fixes w v :: "('c, 'g) nccl_world"
  assumes inv: "nccl_inv w" and st: "nccl_store_inv v"
    and sub: "\<And>a. set (nlist v a) \<subseteq> set (nlist w a) - R" "\<And>a. distinct (nlist v a)"
    and h: "\<And>p. p \<notin> R \<Longrightarrow> heap v p = heap w p" and l: "ns_local_queue (nshared v) = []"
  shows "nccl_inv v"
proof -
  have "is_waiting v p" if p: "p \<in> set (nlist v a)" for a p
  proof -
    have "p \<in> set (nlist w a)" "p \<notin> R"
      using sub(1) p by auto
    moreover have "is_waiting w p"
      using inv calculation(1) unfolding nccl_inv_def by blast
    ultimately show ?thesis
      using h [of p] by (simp add: is_waiting_def)
  qed
  moreover have "set (nlist v a) \<inter> set (nlist v b) = {}" if "a \<noteq> b" for a b
  proof -
    have "set (nlist w a) \<inter> set (nlist w b) = {}"
      using inv that unfolding nccl_inv_def by blast
    then show ?thesis
      using sub(1) [of a] sub(1) [of b] by blast
  qed
  ultimately show ?thesis
    using st sub(2) l unfolding nccl_inv_def by blast
qed

lemma nccl_inv_waiting: "nccl_inv w \<Longrightarrow> p \<in> set (nlist w a) \<Longrightarrow> is_waiting w p"
  unfolding nccl_inv_def by blast

lemma nq_progress_correct:
  fixes w :: "('c, 'g) nccl_world"
  assumes inv: "nccl_inv w" and cu: "cuda_ok lib" and np: "\<not> nq_in_progress (nqueue w q)"
  defines "xs \<equiv> nq_queue (nqueue w q)"
  shows "\<exists>v. nq_progress lib (nccl_extern f) q w = Inr (length (filter (nready lib w) xs), v) \<and> nccl_inv v \<and>
    nq_queue (nqueue v q) = filter (\<lambda>e. \<not> nready lib w e) xs \<and> \<not> nq_in_progress (nqueue v q) \<and>
    nenv v = fold (ncall_of f w) (filter (nready lib w) xs) (nenv w) \<and>
    (\<forall>p \<in> set (filter (nready lib w) xs). finished v p) \<and>
    (\<forall>x. x \<noteq> q \<longrightarrow> nqueue v x = nqueue w x) \<and> nshared v = nshared w \<and> m_group_info v = m_group_info w"
proof (cases "xs = []")
  case True
  let ?v = "nq_flag q False w"
  have "nlist ?v = nlist w"
  proof
    show "nlist ?v a = nlist w a" for a
      by (cases a) (simp_all add: nq_flag_def)
  qed
  then have "nccl_inv ?v"
    using inv nccl_store_inv_cong [of ?v w] unfolding nccl_inv_def by (simp add: nq_flag_def is_waiting_def)
  then show ?thesis
    using nq_progress_unfold [OF inv cu np] True by (simp add: xs_def) (simp add: nq_flag_def nenv_def)
next
  case False
  let ?rs = "filter (nready lib w) xs" and ?ks = "filter (\<lambda>e. \<not> nready lib w e) xs"
  define u where "u = with_queue q ?ks ?rs (nq_flag q True w)"
  have u: "heap u = heap w" "nenv u = nenv w" "handles u = handles w" "nshared u = nshared w" "m_group_info u = m_group_info w"
      "nqueue u = (nqueue w)(q := (nqueue w q)\<lparr>nq_in_progress := True, nq_queue := ?ks, nq_ready_queue := ?rs\<rparr>)"
    by (simp_all add: u_def with_queue_def nq_flag_def nenv_def)
  have "nccl_store_inv u"
    using inv nccl_store_inv_cong [of u w] by (simp add: nccl_inv_def u_def with_queue_def nq_flag_def)
  moreover have dx: "distinct xs"
    using inv unfolding nccl_inv_def xs_def by (metis nlist.simps(2))
  moreover have "is_waiting u p" if "p \<in> set ?rs" for p
    using nccl_inv_waiting [OF inv, of p "Some q"] that u(1) by (simp add: is_waiting_def xs_def)
  ultimately obtain v where v: "fold_res (nccl_complete (nccl_extern f)) ?rs u = Inr v" "nccl_store_inv v"
      "nenv v = fold (ncall_of f u) ?rs (nenv u)" "\<forall>p \<in> set ?rs. finished v p" "nstatic v = nstatic u"
      "handles v = handles u" "\<forall>p. p \<notin> set ?rs \<longrightarrow> heap v p = heap u p"
    using nccl_complete_all [of u ?rs f] by auto
  let ?v = "nq_flag q False v"
  have nq: "nqueue ?v = (nqueue w)(q := (nqueue w q)\<lparr>nq_in_progress := False, nq_queue := ?ks, nq_ready_queue := ?rs\<rparr>)"
    using v(5) u(6) by (cases "nqueue w q") (simp add: nstatic_fields nq_flag_def)
  have nl: "nlist ?v a = (if a = Some q then ?ks else nlist w a)" for a
    using nq v(5) u(4) by (cases a) (auto simp: nstatic_fields nq_flag_def)
  have "nccl_inv ?v"
  proof (rule nccl_inv_completed [OF inv, where R = "set ?rs"])
    show "nccl_store_inv ?v"
      using v(2) nccl_store_inv_cong [of ?v v] by (simp add: nq_flag_def)
    have "set (nlist w a) \<inter> set xs = {}" if "a \<noteq> Some q" for a
      using inv that unfolding nccl_inv_def xs_def by (metis nlist.simps(2))
    moreover have "nlist w (Some q) = xs"
      by (simp add: xs_def)
    ultimately show "set (nlist ?v a) \<subseteq> set (nlist w a) - set ?rs" for a
      by (cases "a = Some q") (auto simp: nl simp del: nlist.simps)
    show "distinct (nlist ?v a)" for a
      using inv dx by (simp add: nl nccl_inv_def)
  qed (use v(5,7) u inv in \<open>simp_all add: nq_flag_def nstatic_fields nccl_inv_def\<close>)
  moreover have "ncall_of f u = ncall_of f w"
    using u(1) by (simp add: ncall_of_def state_of_def fun_eq_iff)
  moreover have "finished ?v p" if "p \<in> set ?rs" for p
    using bspec [OF v(4) that] finished_cong [of ?v p v] by (simp add: nq_flag_def)
  moreover have "nenv ?v = nenv v" "nshared ?v = nshared v" "m_group_info ?v = m_group_info v"
    by (simp_all add: nq_flag_def nenv_def)
  ultimately show ?thesis
    using nq_progress_unfold [OF inv cu np, of "nccl_extern f"] False v u nq
    by (simp add: xs_def [symmetric] u_def [symmetric] nstatic_fields)
qed

section \<open>Progress of the shared queue\<close>

definition with_shared :: "ptr list \<Rightarrow> ptr list \<Rightarrow> ('c, 'g) nccl_world \<Rightarrow> ('c, 'g) nccl_world" where
  "with_shared xs ls w = w\<lparr>nshared := (nshared w)\<lparr>ns_queue := xs, ns_local_queue := ls\<rparr>\<rparr>"

lemma with_shared_simps [simp]:
  "nccl_request_is_ready lib r (with_shared xs ls w) = nccl_request_is_ready lib r w"
  "heap (with_shared xs ls w) = heap w" "load_state e (with_shared xs ls w) = load_state e w"
  "nshared (with_shared xs ls w) = (nshared w)\<lparr>ns_queue := xs, ns_local_queue := ls\<rparr>"
  "(with_shared xs ls w)\<lparr>nshared := (nshared w)\<lparr>ns_local_queue := ms, ns_queue := ys\<rparr>\<rparr> = with_shared ys ms w"
  "(with_shared xs ls w)\<lparr>nshared := (nshared w)\<lparr>ns_queue := ys, ns_local_queue := ms\<rparr>\<rparr> = with_shared ys ms w"
  by (simp_all add: with_shared_def nccl_request_is_ready_def load_state_def split: nccl_request.splits option.splits)

text \<open>The scan takes requests off the front until it finds a ready one.\<close>

lemma ns_poll_correct:
  assumes "\<And>e. e \<in> set xs \<Longrightarrow> nknown lib w e"
  defines "un \<equiv> (\<lambda>e. \<not> nready lib w e)"
  shows "ns_poll lib (length xs) (with_shared xs ls w) =
    Inr (if dropWhile un xs = [] then None else Some (hd (dropWhile un xs)),
         with_shared (tl (dropWhile un xs)) (ls @ takeWhile un xs) w)"
  using assms(1)
proof (induction xs arbitrary: ls)
  case (Cons e xs)
  obtain b r where b: "heap w e = Some b" "nccl_request_is_ready lib (n_req (state_of w e)) w = Inr r"
    using Cons.prems [of e] by (auto simp: nknown_def)
  then have l: "load_state e w = Inr (state_of w e)"
    by (simp add: load_state_def state_of_def)
  show ?case
  proof (cases r)
    case True
    then show ?thesis
      using l b(2) by (simp add: un_def nready_def Let_def)
  next
    case False
    with Cons.IH [of "ls @ [e]"] Cons.prems l b(2) show ?thesis
      by (simp add: un_def nready_def Let_def)
  qed
qed simp

lemma ns_progress_correct:
  fixes w :: "('c, 'g) nccl_world"
  assumes inv: "nccl_inv w" and cu: "cuda_ok lib" and np: "\<not> ns_in_progress (nshared w)"
  shows "\<exists>v n. ns_progress lib (nccl_extern f) w = Inr (n, v) \<and> nccl_inv v \<and> nqueue v = nqueue w \<and>
    m_group_info v = m_group_info w \<and> \<not> ns_in_progress (nshared v) \<and> handles v = handles w"
proof -
  define un where "un = (\<lambda>e. \<not> nready lib w e)"
  define xs where "xs = ns_queue (nshared w)"
  define bs where "bs = dropWhile un xs"
  define w0 where "w0 = w\<lparr>nshared := (nshared w)\<lparr>ns_in_progress := True\<rparr>\<rparr>"
  define w2 where "w2 = w\<lparr>nshared := (nshared w)\<lparr>ns_queue := tl bs @ takeWhile un xs, ns_local_queue := [], ns_in_progress := False\<rparr>\<rparr>"
  have known: "nknown lib w0 e" "nready lib w0 e = nready lib w e" if "e \<in> set xs" for e
  proof -
    have e: "is_waiting w e"
      using that nccl_inv_waiting [OF inv, of e None] by (simp add: xs_def)
    then obtain b where "heap w0 e = Some b"
      by (auto simp: is_waiting_heap w0_def)
    moreover have "nccl_store_inv w0"
      using inv nccl_store_inv_cong [of w0 w] by (simp add: w0_def nccl_inv_def)
    ultimately show "nknown lib w0 e"
      using nccl_known cu by blast
    show "nready lib w0 e = nready lib w e"
      by (simp add: nready_def w0_def state_of_def nccl_request_is_ready_def split: nccl_request.splits option.splits)
  qed
  have ln: "ns_local_queue (nshared w) = []"
    using inv by (simp add: nccl_inv_def)
  have q0: "ns_queue (nshared w0) = xs"
    by (simp add: w0_def xs_def)
  have w0: "w0 = with_shared xs [] w0"
    using ln by (cases "nshared w") (simp add: w0_def with_shared_def xs_def)
  have "dropWhile (\<lambda>e. \<not> nready lib w0 e) xs = bs" "takeWhile (\<lambda>e. \<not> nready lib w0 e) xs = takeWhile un xs"
    unfolding bs_def un_def using known(2) by (auto intro: dropWhile_cong takeWhile_cong)
  then have poll: "ns_poll lib (length xs) w0 =
      Inr (if bs = [] then None else Some (hd bs), with_shared (tl bs) (takeWhile un xs) w0)"
    using ns_poll_correct [of xs lib w0 "[]"] known(1) w0 by simp
  have split: "xs = takeWhile un xs @ bs"
    by (simp add: bs_def)
  have dx: "distinct xs"
    using inv unfolding nccl_inv_def xs_def by (metis nlist.simps(1))
  have nl: "nlist w2 a = (if a = None then tl bs @ takeWhile un xs else nlist w a)" for a
    by (cases a) (simp_all add: w2_def)
  have n2: "nlist w2 None = tl bs @ takeWhile un xs" "nlist w None = xs"
    by (simp_all add: w2_def xs_def)
  have st2: "nccl_store_inv w2"
    using inv nccl_store_inv_cong [of w2 w] by (simp add: w2_def nccl_inv_def)
  show ?thesis
  proof (cases "bs = []")
    case True
    then have "nlist w2 = nlist w"
      using split by (auto simp: fun_eq_iff nl xs_def)
    then have "nccl_inv w2"
      using inv st2 unfolding nccl_inv_def by (simp add: w2_def is_waiting_def)
    moreover have "ns_progress lib (nccl_extern f) w = Inr (0, w2)"
      unfolding ns_progress_def Let_def w0_def [symmetric]
      using np poll True ln q0 by simp (simp add: w0_def w2_def with_shared_def)
    ultimately show ?thesis
      by (auto simp: w2_def)
  next
    case False
    define e where "e = hd bs"
    define w3 where "w3 = w\<lparr>nshared := (nshared w)\<lparr>ns_queue := tl bs @ takeWhile un xs, ns_local_queue := [],
      ns_size := ns_size (nshared w) - 1, ns_in_progress := False\<rparr>\<rparr>"
    have "takeWhile un xs @ e # tl bs = xs"
      using split False by (simp add: e_def)
    then have "distinct (takeWhile un xs @ e # tl bs)" "set xs = set (takeWhile un xs @ e # tl bs)"
      using dx by simp_all
    then have ne: "e \<in> set xs" "set (nlist w2 None) = set xs - {e}" "distinct (nlist w2 None)"
      unfolding n2(1) by auto
    have w3: "nccl_store_inv w3" "is_waiting w3 e" "nlist w3 = nlist w2" "heap w3 = heap w"
    proof -
      show "nccl_store_inv w3"
        using st2 nccl_store_inv_cong [of w3 w2] by (simp add: w3_def w2_def)
      show "is_waiting w3 e"
        using nccl_inv_waiting [OF inv, of e None] ne(1) by (simp add: w3_def w2_def is_waiting_def xs_def)
      show "nlist w3 = nlist w2"
      proof
        show "nlist w3 a = nlist w2 a" for a
          by (cases a) (simp_all add: w3_def w2_def)
      qed
    qed (simp add: w3_def w2_def)
    obtain v where v: "nccl_complete (nccl_extern f) e w3 = Inr v" "nccl_store_inv v" "nstatic v = nstatic w3"
        "handles v = handles w3" "\<And>x. x \<noteq> e \<Longrightarrow> heap v x = heap w3 x"
      by (rule nccl_complete_ok [OF w3(1,2), of f]) (rule that)
    have "ns_progress lib (nccl_extern f) w = Inr (1, v)"
      unfolding ns_progress_def Let_def w0_def [symmetric]
      using np poll False ln q0 v(1) e_def [symmetric] by simp (simp add: w0_def w3_def w2_def with_shared_def)
    moreover have "nccl_inv v"
    proof (rule nccl_inv_completed [OF inv v(2), where R = "{e}"])
      have nv: "nlist v a = nlist w2 a" for a
        using v(3) unfolding w3(3) [symmetric] by (cases a) (simp_all add: nstatic_fields)
      have "set (nlist w a) \<inter> set xs = {}" if "a \<noteq> None" for a
        using inv that unfolding nccl_inv_def xs_def by (metis nlist.simps(1))
      then show "set (nlist v a) \<subseteq> set (nlist w a) - {e}" for a
        using ne n2 unfolding nv by (cases "a = None") (auto simp: nl simp del: nlist.simps)
      show "distinct (nlist v a)" for a
        using inv ne(3) unfolding nv by (cases "a = None") (auto simp: nl nccl_inv_def simp del: nlist.simps)
    qed (use v w3 ln in \<open>simp_all add: nstatic_fields w3_def w2_def\<close>)
    moreover have "nqueue v = nqueue w" "m_group_info v = m_group_info w" "\<not> ns_in_progress (nshared v)" "handles v = handles w"
      using v(3,4) by (simp_all add: nstatic_fields w3_def w2_def)
    ultimately show ?thesis
      by blast
  qed
qed

lemma nccl_comm_progress_ok:
  fixes w :: "('c, 'g) nccl_world"
  assumes inv: "nccl_inv w" and cu: "cuda_ok lib" and idle: "\<And>q. \<not> nq_in_progress (nqueue w q)"
    "\<not> ns_in_progress (nshared w)" and g: "\<not> is_group_active c w"
  shows "\<exists>v. nccl_comm_progress lib (nccl_extern f) c w = Inr v \<and> nccl_inv v \<and>
    (\<forall>q. \<not> nq_in_progress (nqueue v q)) \<and> \<not> ns_in_progress (nshared v) \<and> \<not> is_group_active c v"
proof -
  obtain v1 where v1: "nq_progress lib (nccl_extern f) (Send_reqs c) w =
      Inr (length (filter (nready lib w) (nq_queue (nqueue w (Send_reqs c)))), v1)" "nccl_inv v1"
    "\<not> nq_in_progress (nqueue v1 (Send_reqs c))" "\<forall>x. x \<noteq> Send_reqs c \<longrightarrow> nqueue v1 x = nqueue w x"
    "nshared v1 = nshared w" "m_group_info v1 = m_group_info w"
    using nq_progress_correct [OF inv cu idle(1), of f "Send_reqs c"] by blast
  have i1: "\<not> nq_in_progress (nqueue v1 q)" for q
    using v1(3,4) idle(1) by (cases "q = Send_reqs c") auto
  obtain v2 where v2: "nq_progress lib (nccl_extern f) (Recv_reqs c) v1 =
      Inr (length (filter (nready lib v1) (nq_queue (nqueue v1 (Recv_reqs c)))), v2)" "nccl_inv v2"
    "\<not> nq_in_progress (nqueue v2 (Recv_reqs c))" "\<forall>x. x \<noteq> Recv_reqs c \<longrightarrow> nqueue v2 x = nqueue v1 x"
    "nshared v2 = nshared v1" "m_group_info v2 = m_group_info v1"
    using nq_progress_correct [OF v1(2) cu i1, of f "Recv_reqs c"] by blast
  have i2: "\<not> nq_in_progress (nqueue v2 q)" for q
    using v2(3,4) i1 by (cases "q = Recv_reqs c") auto
  obtain v n where v: "ns_progress lib (nccl_extern f) v2 = Inr (n, v)" "nccl_inv v" "nqueue v = nqueue v2"
    "m_group_info v = m_group_info v2" "\<not> ns_in_progress (nshared v)"
    using ns_progress_correct [OF v2(2) cu, of f] idle(2) v1(5) v2(5) by auto
  show ?thesis
    using v v1 v2 i2 g by (auto simp: nccl_comm_progress_def nccl_ctx_progress_def is_group_active_def)
qed

section \<open>Groups and postings\<close>

lemma event_refs_group:
  assumes "heap v = heap w" "m_group_info v = (m_group_info w)(c := x)"
    and "finite (dom (m_group_info w))"
  shows "m_group_info w c = None \<Longrightarrow> x = Some gi \<Longrightarrow>
      event_refs v = (event_refs w)(gi_event gi := event_refs w (gi_event gi) + 1)"
    and "m_group_info w c = Some gi \<Longrightarrow> x = None \<Longrightarrow>
      0 < event_refs w (gi_event gi) \<and> event_refs v = (event_refs w)(gi_event gi := event_refs w (gi_event gi) - 1)"
    and "m_group_info w c = Some gi \<Longrightarrow> x = Some gj \<Longrightarrow> gi_event gj = gi_event gi \<Longrightarrow> event_refs v = event_refs w"
proof -
  have r: "event_requests v q = event_requests w q" for q
    using assms(1) by (simp add: event_requests_def)
  note f = event_groups_finite [OF assms(3)]
  show "event_refs v = (event_refs w)(gi_event gi := event_refs w (gi_event gi) + 1)"
    if "m_group_info w c = None" "x = Some gi"
  proof -
    have "event_groups v q = (if q = gi_event gi then insert c (event_groups w q) else event_groups w q)" for q
      using that assms(2) by (auto simp: event_groups_def)
    moreover have "c \<notin> event_groups w q" for q
      using that by (simp add: event_groups_def)
    ultimately show ?thesis
      using r f by (auto simp: event_refs_def fun_eq_iff)
  qed
  show "0 < event_refs w (gi_event gi) \<and> event_refs v = (event_refs w)(gi_event gi := event_refs w (gi_event gi) - 1)"
    if "m_group_info w c = Some gi" "x = None"
  proof -
    have g: "event_groups v q = (if q = gi_event gi then event_groups w q - {c} else event_groups w q)" for q
      using that assms(2) by (auto simp: event_groups_def)
    have "c \<in> event_groups w (gi_event gi)"
      using that by (simp add: event_groups_def)
    then have "0 < card (event_groups w (gi_event gi))"
      "card (event_groups w (gi_event gi) - {c}) = card (event_groups w (gi_event gi)) - 1"
      using f by (auto simp: card_gt_0_iff)
    with r g show ?thesis
      by (auto simp: event_refs_def fun_eq_iff)
  qed
  show "event_refs v = event_refs w" if "m_group_info w c = Some gi" "x = Some gj" "gi_event gj = gi_event gi"
  proof -
    have "event_groups v q = event_groups w q" for q
      using that assms(2) by (auto simp: event_groups_def)
    with r show ?thesis
      by (simp add: event_refs_def fun_eq_iff)
  qed
qed

lemma event_refs_posted:
  assumes "heap v = (heap w)(p \<mapsto> b)" "heap w p = None" "event_groups v = event_groups w" "finite (dom (heap w))"
  shows "event_refs v = (case n_req (m_t b) of Cached_event _ \<Rightarrow> event_refs w
    | Group_event q \<Rightarrow> (event_refs w)(q := event_refs w q + 1))"
proof -
  have r: "event_requests v q = (if n_req (m_t b) = Group_event q then insert p (event_requests w q) else event_requests w q)" for q
    using assms(1,2) by (auto simp: event_requests_def)
  have f: "finite (event_requests w q)" "p \<notin> event_requests w q" for q
    using assms(2,4) by (auto simp: event_requests_def intro: finite_subset [of _ "dom (heap w)"])
  show ?thesis
    using r f assms(3) by (auto simp: event_refs_def fun_eq_iff split: nccl_request.splits)
qed

text \<open>The queues do not change when the invariant only concerns the store and the group events.\<close>

lemma nccl_inv_same_queues:
  assumes "nccl_inv w" "nccl_store_inv v" "heap v = heap w" "nqueue v = nqueue w" "nshared v = nshared w"
  shows "nccl_inv v"
proof -
  have "nlist v = nlist w"
  proof
    show "nlist v a = nlist w a" for a
      using assms(4,5) by (cases a) simp_all
  qed
  with assms show ?thesis
    by (simp add: nccl_inv_def is_waiting_def)
qed

lemma event_pool_pop_world: "event_pool_pop lib pool g = Inr (ev, pool', g') \<Longrightarrow> pool = [] \<and> pool' = [] \<or> pool = pool' @ [ev]"
  by (auto simp: event_pool_pop_def bind_res_eq_Inr split: if_splits)

lemma start_group_inv:
  fixes w :: "('c, 'g) nccl_world"
  assumes inv: "nccl_inv w" and q: "group_events w q = None" and s: "start_group lib c q w = Inr v"
  shows "nccl_inv v"
proof -
  let ?gi = "\<lparr>gi_event = q, gi_last_stream = None\<rparr>"
  from s obtain ev pool g where v: "v = w\<lparr>gpu := g, event_pool := pool, group_events := block_allocate q ev (group_events w),
      m_group_info := (m_group_info w)(c \<mapsto> ?gi)\<rparr>" and c: "m_group_info w c = None"
    by (auto simp: start_group_def is_group_active_def check_nccl_def bind_res_eq_Inr split: prod.splits if_splits)
  have w: "store_inv w" "owned (event_refs w) (group_events w)" "finite (dom (m_group_info w))"
    using inv by (simp_all add: nccl_inv_def nccl_store_inv_def)
  have "event_refs w q = 0"
    using owned_live [OF w(2), of q] q by auto
  then have "event_refs v = (event_refs w)(q := 1)"
    using event_refs_group(1) [of v w c "Some ?gi" ?gi] c w(3) by (simp add: v)
  then have "owned (event_refs v) (group_events v)"
    using owned_allocate [OF w(2) q, of ev] by (simp add: v)
  moreover have "store_inv v \<longleftrightarrow> store_inv w"
    by (intro store_inv_cong) (simp_all add: v)
  ultimately have "nccl_store_inv v"
    using w by (simp add: nccl_store_inv_def v)
  then show ?thesis
    by (rule nccl_inv_same_queues [OF inv]) (simp_all add: v)
qed

lemma owned_content: "owned n bs \<Longrightarrow> bs q = Some b \<Longrightarrow> owned n (bs(q \<mapsto> b\<lparr>m_t := x\<rparr>))"
  using owned_upd [where n = n and bs = bs and b = "Some (b\<lparr>m_t := x\<rparr>)" and k = "n q" and p = q] owned_count [of n bs q b] by simp

lemma group_event_record_inv:
  assumes "nccl_store_inv w" "group_event_record lib stream q w = Inr v"
  shows "nccl_store_inv v" "heap v = heap w" "nqueue v = nqueue w" "nshared v = nshared w" "m_group_info v = m_group_info w"
proof -
  from assms(2) obtain b ev g where b: "group_events w q = Some b"
      and v: "v = w\<lparr>gpu := g, group_events := (group_events w)(q \<mapsto> b\<lparr>m_t := ev\<rparr>)\<rparr>"
    by (auto simp: group_event_record_def bind_res_eq_Inr split: option.splits)
  have "event_refs v = event_refs w"
    by (simp add: v event_refs_def event_requests_def event_groups_def fun_eq_iff)
  moreover have "store_inv v \<longleftrightarrow> store_inv w"
    by (intro store_inv_cong) (simp_all add: v)
  ultimately show "nccl_store_inv v"
    using assms(1) owned_content [of "event_refs w" "group_events w" q b ev] b by (simp add: nccl_store_inv_def v)
qed (use assms(2) in \<open>auto simp: group_event_record_def bind_res_eq_Inr split: option.splits\<close>)

lemma end_group_inv:
  fixes w :: "('c, 'g) nccl_world"
  assumes inv: "nccl_inv w" and e: "end_group lib c w = Inr v"
  shows "nccl_inv v \<and> \<not> is_group_active c v \<and> nqueue v = nqueue w \<and> nshared v = nshared w"
proof -
  from e obtain gi g u where gi: "m_group_info w c = Some gi"
    and u: "(case gi_last_stream gi of None \<Rightarrow> Inr (w\<lparr>gpu := g\<rparr>)
      | Some stream \<Rightarrow> group_event_record lib stream (gi_event gi) (w\<lparr>gpu := g\<rparr>)) = Inr u"
    and d: "group_event_drop (gi_event gi) (u\<lparr>m_group_info := (m_group_info u)(c := None)\<rparr>) = Inr v"
    by (auto simp: end_group_def check_nccl_def bind_res_eq_Inr split: option.splits prod.splits if_splits)
  have "nccl_store_inv (w\<lparr>gpu := g\<rparr>)"
    using inv nccl_store_inv_cong [of "w\<lparr>gpu := g\<rparr>" w] by (simp add: nccl_inv_def)
  with u have st: "nccl_store_inv u" "heap u = heap w" "nqueue u = nqueue w" "nshared u = nshared w" "m_group_info u = m_group_info w"
    using group_event_record_inv [of "w\<lparr>gpu := g\<rparr>" lib _ "gi_event gi" u] by (auto split: option.splits)
  let ?u = "u\<lparr>m_group_info := (m_group_info u)(c := None)\<rparr>"
  have ow: "owned (event_refs u) (group_events u)" "finite (dom (m_group_info u))" "store_inv u"
    using st(1) by (simp_all add: nccl_store_inv_def)
  have r: "0 < event_refs u (gi_event gi)" "event_refs ?u = (event_refs u)(gi_event gi := event_refs u (gi_event gi) - 1)"
    using event_refs_group(2) [of ?u u c None gi] gi st(5) ow(2) by simp_all
  obtain gs where gs: "block_destroy (Some (gi_event gi)) (group_events u) = Inr gs" "owned (event_refs ?u) gs"
    using owned_destroy [OF ow(1) r(1)] r(2) by metis
  obtain pool where v: "v = ?u\<lparr>group_events := gs, event_pool := pool\<rparr>"
    using d gs(1) by (auto simp: group_event_drop_def split: option.splits)
  have "event_refs v = event_refs ?u"
    by (simp add: v event_refs_def event_requests_def event_groups_def fun_eq_iff)
  moreover have "store_inv v \<longleftrightarrow> store_inv u"
    by (intro store_inv_cong) (simp_all add: v)
  ultimately have "nccl_store_inv v"
    using gs(2) ow by (simp add: nccl_store_inv_def v)
  then have "nccl_inv v"
    by (rule nccl_inv_same_queues [OF inv]) (simp_all add: v st)
  then show ?thesis
    by (simp add: v is_group_active_def st)
qed

text \<open>A posting in a group shares the event of the group.\<close>

lemma nccl_post_world:
  assumes "nccl_post lib op c peer stream w = Inr (r, u)"
  obtains (group) gi gs g where "m_group_info w c = Some gi" "r = Group_event (gi_event gi)"
      "block_incr (Some (gi_event gi)) (group_events w) = Inr gs"
      "u = w\<lparr>gpu := g, group_events := gs, m_group_info := (m_group_info w)(c \<mapsto> gi\<lparr>gi_last_stream := Some stream\<rparr>)\<rparr>"
    | (single) ev pool g where "m_group_info w c = None" "r = Cached_event ev" "u = w\<lparr>event_pool := pool, gpu := g\<rparr>"
proof (cases "m_group_info w c")
  case None
  with assms show thesis
    by (auto simp: nccl_post_def check_nccl_def bind_res_eq_Inr Let_def split: prod.splits if_splits intro: single)
next
  case (Some gi)
  with assms show thesis
    by (auto simp: nccl_post_def check_nccl_def bind_res_eq_Inr Let_def split: prod.splits if_splits intro: group)
qed

lemma nccl_posted_inv:
  fixes w :: "('c, 'g) nccl_world"
  assumes inv: "nccl_store_inv w" and p: "heap w p = None" and post: "nccl_post lib op c peer stream w = Inr (r, u)"
    and small: "\<And>q. event_refs w q + 1 < 2 ^ 64" and r: "n_req s = r"
  defines "v \<equiv> move_to_handle p (posted p s u)"
  shows "nccl_store_inv v \<and> nqueue v = nqueue w \<and> nshared v = nshared w \<and>
    heap v = (heap w)(p \<mapsto> \<lparr>m_ref_count = 2, m_t = s\<lparr>m_ready := False, m_canceled := False, m_self_ptr := Some p\<rparr>\<rparr>)"
proof -
  have st: "store_inv w" and ow: "owned (event_refs w) (group_events w)" and fin: "finite (dom (m_group_info w))"
    using inv by (simp_all add: nccl_store_inv_def)
  have fh: "finite (dom (heap w))"
    using st by (simp add: store_inv_def)
  have hu: "heap u = heap w" "counters u = counters w" "handles u = handles w" "nqueue u = nqueue w" "nshared u = nshared w"
    using post by (cases rule: nccl_post_world; simp)+
  have hv: "heap v = (heap w)(p \<mapsto> \<lparr>m_ref_count = 2, m_t = s\<lparr>m_ready := False, m_canceled := False, m_self_ptr := Some p\<rparr>\<rparr>)"
      "nqueue v = nqueue w" "nshared v = nshared w" "group_events v = group_events u" "m_group_info v = m_group_info u"
    by (simp_all add: v_def move_to_handle_def posted_def hu)
  have "store_inv u"
    using st store_inv_cong [of u w] hu by simp
  then have "store_inv v"
    unfolding v_def by (rule store_inv_posted) (simp add: hu p)
  moreover have "owned (event_refs v) (group_events v) \<and> finite (dom (m_group_info v))"
    using post
  proof (cases rule: nccl_post_world)
    case (group gi gs g)
    have "event_groups v = event_groups w"
    proof
      show "event_groups v q = event_groups w q" for q
        using group(1,4) hv(5) by (auto simp: event_groups_def)
    qed
    then have rv: "event_refs v = (event_refs w)(gi_event gi := event_refs w (gi_event gi) + 1)"
      using event_refs_posted [OF hv(1) p _ fh] r group(2) by simp
    have "0 < event_refs w (gi_event gi)"
      using event_refs_group(2) [of "w\<lparr>m_group_info := (m_group_info w)(c := None)\<rparr>" w c None gi] group(1) fin by simp
    then have "owned ((event_refs w)(gi_event gi := event_refs w (gi_event gi) + 1)) gs"
      using owned_incr [OF ow _ small] group(3) by (metis sum.inject(2))
    then show ?thesis
      using rv hv(4,5) group(4) fin by simp
  next
    case (single ev pool g)
    have "event_groups v = event_groups w"
      using single(3) hv(5) by (simp add: event_groups_def fun_eq_iff)
    then have "event_refs v = event_refs w"
      using event_refs_posted [OF hv(1) p _ fh] r single(2) by simp
    then show ?thesis
      using ow fin single(3) hv(4,5) by simp
  qed
  ultimately show ?thesis
    using hv by (simp add: nccl_store_inv_def)
qed

text \<open>Appending the new request to one of the queues.\<close>

lemma nccl_inv_enqueue:
  assumes inv: "nccl_inv w" and p: "heap w p = None" and st: "nccl_store_inv v"
    and h: "heap v = (heap w)(p \<mapsto> b)" "waiting (m_t b) p"
    and l: "\<And>a. nlist v a = (if a = x then nlist w a @ [p] else nlist w a)"
    and e: "ns_local_queue (nshared v) = ns_local_queue (nshared w)"
  shows "nccl_inv v"
proof -
  have fresh: "p \<notin> set (nlist w a)" for a
    using nccl_inv_waiting [OF inv, of p a] p by (auto simp: is_waiting_heap)
  have "distinct (nlist v a)" for a
    using inv fresh unfolding nccl_inv_def by (simp add: l)
  moreover have "set (nlist v a) \<inter> set (nlist v b) = {}" if "a \<noteq> b" for a b
  proof -
    have "set (nlist w a) \<inter> set (nlist w b) = {}"
      using inv that unfolding nccl_inv_def by blast
    then show ?thesis
      using fresh that by (auto simp: l)
  qed
  moreover have "is_waiting v y" if "y \<in> set (nlist v a)" for a y
  proof (cases "y = p")
    case True
    then show ?thesis
      using h by (simp add: is_waiting_heap)
  next
    case False
    then have "is_waiting w y"
      using that by (intro nccl_inv_waiting [OF inv, of y a]) (auto simp: l split: if_splits)
    then show ?thesis
      using False h(1) by (simp add: is_waiting_def)
  qed
  moreover have "ns_local_queue (nshared v) = []"
    using inv e by (simp add: nccl_inv_def)
  ultimately show ?thesis
    using st unfolding nccl_inv_def by blast
qed

lemma nccl_drop_handle_inv:
  fixes w :: "('c, 'g) nccl_world"
  assumes inv: "nccl_inv w" and h: "0 < handles w p"
  shows "\<exists>v. nccl_drop_handle p w = Inr v \<and> nccl_inv v \<and> nstatic v = nstatic w"
proof -
  have st: "nccl_store_inv w" "store_inv w"
    using inv by (simp_all add: nccl_inv_def nccl_store_inv_def)
  obtain b where b: "heap w p = Some b"
    using store_inv_handles [OF st(2), of p] h by (cases "heap w p") auto
  obtain u where u: "drop_handle p w = Inr u" "store_inv u" "\<And>q. pending u q = pending w q"
      "\<And>q. q \<noteq> p \<Longrightarrow> heap u q = heap w q"
    by (rule store_inv_drop_handle [OF st(2) h]) (rule that)
  note c = drop_handle_content [OF u(1) b]
  have e: "nstatic u = nstatic w" "group_events u = group_events w"
  proof -
    have "nstatic u = nstatic (off_store u)" "nstatic (off_store w) = nstatic w"
        "group_events u = group_events (off_store u)" "group_events (off_store w) = group_events w"
      by (simp_all add: off_store_def nstatic_def)
    then show "nstatic u = nstatic w" "group_events u = group_events w"
      using c(2) by simp_all
  qed
  have up: "heap u p = None \<or> (\<exists>b'. heap u p = Some b' \<and> n_req (m_t b') = n_req (m_t b))"
    using c(1) by auto
  obtain v where v: "(if heap u p = None then nccl_request_destroy (n_req (m_t b)) u else Inr u) = Inr v"
    "nccl_store_inv v" "heap v = heap u" "nstatic v = nstatic u"
    by (rule nccl_release_ok [OF st(1) b u(2,4) up e]) (assumption | rule that)+
  have nl: "nlist v a = nlist w a" for a
    using v(4) e(1) by (cases a) (simp_all add: nstatic_fields)
  have "is_waiting v y" if "y \<in> set (nlist w a)" for a y
  proof (cases "y = p")
    case True
    then have "waiting (m_t b) p"
      using nccl_inv_waiting [OF inv that] b by (simp add: is_waiting_def)
    moreover have "pending u p"
      using u(3) [of p] b calculation by (simp add: pending_def waiting_def)
    ultimately show ?thesis
      using c(1) v(3) True by (auto simp: is_waiting_heap pending_heap)
  next
    case False
    then show ?thesis
      using nccl_inv_waiting [OF inv that] u(4) v(3) by (simp add: is_waiting_def)
  qed
  then have "nccl_inv v"
    using inv v(2,4) e(1) unfolding nccl_inv_def nl by (simp add: nstatic_fields)
  moreover have "nccl_drop_handle p w = Inr v"
    using b u(1) v(1) by (simp add: nccl_drop_handle_def load_state_def)
  ultimately show ?thesis
    using v(4) e(1) by auto
qed

section \<open>Runs of the transport\<close>

text \<open>The calls a user makes between callbacks, with the address the allocator returns for a new
  request state (\<open>p\<close>) or group event (\<open>q\<close>).  The reference count of a group event has 64 bits; a group
  has fewer requests.\<close>

inductive nccl_step ::
    "'g nccl_lib \<Rightarrow> ('c \<Rightarrow> rank_type \<Rightarrow> tag_type \<Rightarrow> api_state \<times> 'g \<Rightarrow> api_state \<times> 'g) \<Rightarrow>
     ('c, 'g) nccl_world \<Rightarrow> ('c, 'g) nccl_world \<Rightarrow> bool"
  for lib f where
  step_start: "group_events w q = None \<Longrightarrow> start_group lib c q w = Inr v \<Longrightarrow> nccl_step lib f w v"
| step_end: "end_group lib c w = Inr v \<Longrightarrow> nccl_step lib f w v"
| step_send: "heap w p = None \<Longrightarrow> (\<And>q. event_refs w q + 1 < 2 ^ 64) \<Longrightarrow>
    nccl_send lib c stream p buf sz dst tag cb w = Inr (h, v) \<Longrightarrow> nccl_step lib f w v"
| step_recv: "heap w p = None \<Longrightarrow> (\<And>q. event_refs w q + 1 < 2 ^ 64) \<Longrightarrow>
    nccl_recv lib c stream p buf sz src tag cb w = Inr (h, v) \<Longrightarrow> nccl_step lib f w v"
| step_shared_recv: "heap w p = None \<Longrightarrow> (\<And>q. event_refs w q + 1 < 2 ^ 64) \<Longrightarrow>
    nccl_shared_recv lib c stream p buf sz src tag cb w = Inr (h, v) \<Longrightarrow> nccl_step lib f w v"
| step_progress: "nccl_comm_progress lib (nccl_extern f) c w = Inr v \<Longrightarrow> nccl_step lib f w v"
| step_ctx_progress: "nccl_ctx_progress lib (nccl_extern f) w = Inr v \<Longrightarrow> nccl_step lib f w v"
| step_drop: "0 < handles w p \<Longrightarrow> nccl_drop_handle p w = Inr v \<Longrightarrow> nccl_step lib f w v"

definition nccl_init :: "rank_type \<Rightarrow> 'g \<Rightarrow> api_state \<Rightarrow> ('c, 'g) nccl_world" where
  "nccl_init rank g a =
     \<lparr>heap = (\<lambda>_. None), counters = (\<lambda>_. 0), handles = (\<lambda>_. 0), api = a,
      nqueue = (\<lambda>_. \<lparr>nq_queue = [], nq_ready_queue = [], nq_in_progress = False\<rparr>),
      nshared = \<lparr>ns_queue = [], ns_size = 0, ns_in_progress = False, ns_local_queue = []\<rparr>,
      m_group_info = (\<lambda>_. None), group_events = (\<lambda>_. None), event_pool = [], own_rank = rank, gpu = g\<rparr>"

definition nidle :: "('c, 'g) nccl_world \<Rightarrow> bool" where
  "nidle w \<longleftrightarrow> (\<forall>q. \<not> nq_in_progress (nqueue w q)) \<and> \<not> ns_in_progress (nshared w)"

lemma nccl_post_kept:
  assumes inv: "nccl_inv w" "nidle w" and p: "heap w p = None" and small: "\<And>q. event_refs w q + 1 < 2 ^ 64"
    and post: "nccl_post lib op c peer stream w = Inr (r, u)"
    and v_def: "v = move_to_handle p (posted p (nccl_new_state c sched peer tag cb r) u)"
  shows "nccl_inv (nq_enqueue q p v) \<and> nidle (nq_enqueue q p v)" "nccl_inv (ns_enqueue p v) \<and> nidle (ns_enqueue p v)"
proof -
  let ?s = "nccl_new_state c sched peer tag cb r"
  let ?b = "\<lparr>m_ref_count = 2, m_t = ?s\<lparr>m_ready := False, m_canceled := False, m_self_ptr := Some p\<rparr>\<rparr>"
  have v: "nccl_store_inv v" "nqueue v = nqueue w" "nshared v = nshared w" "heap v = (heap w)(p \<mapsto> ?b)"
    using nccl_posted_inv [OF _ p post small, of ?s] inv(1) by (simp_all add: v_def nccl_inv_def nccl_new_state_def)
  have b: "waiting (m_t ?b) p"
    by (simp add: waiting_def)
  have s: "nccl_store_inv (nq_enqueue q p v)" "nccl_store_inv (ns_enqueue p v)"
    using v(1) nccl_store_inv_cong [of "nq_enqueue q p v" v] nccl_store_inv_cong [of "ns_enqueue p v" v]
    by (simp_all add: nq_enqueue_def ns_enqueue_def)
  have "nlist (nq_enqueue q p v) a = (if a = Some q then nlist w a @ [p] else nlist w a)" for a
    using v by (cases a) (auto simp: nq_enqueue_def)
  then have "nccl_inv (nq_enqueue q p v)"
    by (rule nccl_inv_enqueue [OF inv(1) p s(1) _ b, rotated]) (use v in \<open>simp_all add: nq_enqueue_def\<close>)
  moreover have "nlist (ns_enqueue p v) a = (if a = None then nlist w a @ [p] else nlist w a)" for a
    using v by (cases a) (auto simp: ns_enqueue_def)
  then have "nccl_inv (ns_enqueue p v)"
    by (rule nccl_inv_enqueue [OF inv(1) p s(2) _ b, rotated]) (use v in \<open>simp_all add: ns_enqueue_def\<close>)
  moreover have "nidle (nq_enqueue q p v)" "nidle (ns_enqueue p v)"
    using inv(2) v by (simp_all add: nidle_def nq_enqueue_def ns_enqueue_def)
  ultimately show "nccl_inv (nq_enqueue q p v) \<and> nidle (nq_enqueue q p v)" "nccl_inv (ns_enqueue p v) \<and> nidle (ns_enqueue p v)"
    by simp_all
qed

lemma nccl_kept:
  assumes "nccl_step lib f w v" "nccl_inv w" "nidle w" "cuda_ok lib"
  shows "nccl_inv v \<and> nidle v"
proof -
  note idle_def = nidle_def nstatic_fields
  have swap: "move_to_handle p (nq_enqueue q p x) = nq_enqueue q p (move_to_handle p x)"
      "move_to_handle p (ns_enqueue p x) = ns_enqueue p (move_to_handle p x)" for p q and x :: "('c, 'd) nccl_world"
    by (simp_all add: move_to_handle_def nq_enqueue_def ns_enqueue_def)
  note posting = nccl_post_kept [OF assms(2,3) _ _ _ refl]
  from assms(1) show ?thesis
  proof cases
    case (step_start q c)
    moreover have "nidle v"
      using step_start(2) assms(3)
      by (auto simp: start_group_def is_group_active_def check_nccl_def bind_res_eq_Inr nidle_def split: prod.splits if_splits)
    ultimately show ?thesis
      using start_group_inv assms(2) by blast
  next
    case (step_end c)
    then show ?thesis
      using end_group_inv [OF assms(2) step_end] assms(3) by (simp add: nidle_def)
  next
    case (step_send p c stream buf sz dst tag cb h)
    then obtain r u where "nccl_post lib (ncclSend lib buf sz dst stream) c dst stream w = Inr (r, u)"
        "v = move_to_handle p (nq_enqueue (Send_reqs c) p (posted p (nccl_new_state c (Scheduled_sends c) dst tag cb r) u))"
      by (auto simp: nccl_send_def nccl_send_raw_def bind_res_eq_Inr post_request_eq)
    with posting(1) step_send(1,2) show ?thesis
      unfolding swap by blast
  next
    case (step_recv p c stream buf sz src tag cb h)
    then obtain r u where "nccl_post lib (ncclRecv lib buf sz src stream) c src stream w = Inr (r, u)"
        "v = move_to_handle p (nq_enqueue (Recv_reqs c) p (posted p (nccl_new_state c (Scheduled_recvs c) src tag cb r) u))"
      by (auto simp: nccl_recv_def nccl_recv_raw_def bind_res_eq_Inr post_request_eq)
    with posting(1) step_recv(1,2) show ?thesis
      unfolding swap by blast
  next
    case (step_shared_recv p c stream buf sz src tag cb h)
    then obtain r u where "nccl_post lib (ncclRecv lib buf sz src stream) c src stream w = Inr (r, u)"
        "v = move_to_handle p (ns_enqueue p (posted p (nccl_new_state c Shared_scheduled_recvs src tag cb r) u))"
      by (auto simp: nccl_shared_recv_def nccl_recv_raw_def bind_res_eq_Inr post_request_eq)
    with posting(2) step_shared_recv(1,2) show ?thesis
      unfolding swap by blast
  next
    case (step_progress c)
    have "\<not> is_group_active c w"
      using step_progress by (auto simp: nccl_comm_progress_def split: if_splits)
    then show ?thesis
      using nccl_comm_progress_ok [OF assms(2,4), of c f] assms(3) step_progress by (auto simp: nidle_def)
  next
    case step_ctx_progress
    then show ?thesis
      using ns_progress_correct [OF assms(2,4), of f] assms(3) by (auto simp: nidle_def nccl_ctx_progress_def)
  next
    case (step_drop p)
    then show ?thesis
      using nccl_drop_handle_inv [OF assms(2) step_drop(1)] assms(3) by (auto simp: nidle_def nstatic_fields)
  qed
qed

lemma nccl_init_inv:
  "nccl_inv (nccl_init rank g a :: ('c, 'g) nccl_world) \<and> nidle (nccl_init rank g a :: ('c, 'g) nccl_world)"
proof -
  let ?w = "nccl_init rank g a :: ('c, 'g) nccl_world"
  have "nlist ?w x = []" for x
    by (cases x) (simp_all add: nccl_init_def)
  moreover have "store_inv ?w" "owned (event_refs ?w) (group_events ?w)" "finite (dom (m_group_info ?w))"
    by (simp_all add: nccl_init_def store_inv_def owned_def request_refs_def pending_def pending_on_def
        event_refs_def event_requests_def event_groups_def)
  ultimately show ?thesis
    unfolding nccl_inv_def nccl_store_inv_def nidle_def by (simp del: nlist.simps) (simp add: nccl_init_def)
qed

lemma nccl_runs:
  assumes "(nccl_step lib f)\<^sup>*\<^sup>* (nccl_init rank g a) w" "cuda_ok lib"
  shows "nccl_inv w \<and> nidle w"
  using assms
proof (induction rule: rtranclp_induct)
  case base
  show ?case
    by (rule nccl_init_inv)
next
  case (step v w)
  then show ?case
    using nccl_kept by blast
qed

interpretation nccl_engine:
  progress_engine "nccl_comm_progress lib (nccl_extern f) c"
    "\<lambda>w. nccl_inv w \<and> nidle w \<and> \<not> is_group_active c w \<and> cuda_ok lib"
  for lib f c
proof unfold_locales
  show "\<exists>v. nccl_comm_progress lib (nccl_extern f) c w = Inr v \<and>
      nccl_inv v \<and> nidle v \<and> \<not> is_group_active c v \<and> cuda_ok lib"
    if "nccl_inv w \<and> nidle w \<and> \<not> is_group_active c w \<and> cuda_ok lib" for lib f c w
    using that nccl_comm_progress_ok [of w lib c f] by (auto simp: nidle_def)
qed

section \<open>An example library\<close>

text \<open>Events are numbered; the events that have completed are part of the state, as are the calls of
  the callbacks.\<close>

record ex_gpu =
  next_event :: nat
  done_events :: "nat list"
  gpu_calls :: "nat list"

definition ex_nccl :: "ex_gpu nccl_lib" where
  "ex_nccl = \<lparr>
     cudaEventCreateWithFlags = (\<lambda>g. ((0, next_event g), g\<lparr>next_event := next_event g + 1\<rparr>)),
     cudaEventRecord = (\<lambda>_ _ g. (0, g)),
     cudaEventQuery = (\<lambda>e g. if e \<in> set (done_events g) then 0 else 600),
     ncclSend = (\<lambda>_ _ _ _ g. (0, g)), ncclRecv = (\<lambda>_ _ _ _ g. (0, g)),
     ncclGroupStart = (\<lambda>g. (0, g)), ncclGroupEnd = (\<lambda>g. (0, g))\<rparr>"

lemma ex_cuda_ok: "cuda_ok ex_nccl"
  by (simp add: cuda_ok_def ex_nccl_def)

definition ex_gpu_log :: "nat \<Rightarrow> rank_type \<Rightarrow> tag_type \<Rightarrow> api_state \<times> ex_gpu \<Rightarrow> api_state \<times> ex_gpu" where
  "ex_gpu_log c r t = map_prod id (\<lambda>g. g\<lparr>gpu_calls := gpu_calls g @ [c]\<rparr>)"

definition ex_nccl0 :: "nat list \<Rightarrow> (nat, ex_gpu) nccl_world" where
  "ex_nccl0 ds = nccl_init 0 \<lparr>next_event = 0, done_events = ds, gpu_calls = []\<rparr> empty_api"

text \<open>Two receives are posted outside a group; the events \<open>ds\<close> are complete.\<close>

definition ex_nccl_state :: "ptr \<Rightarrow> nat \<Rightarrow> nat \<Rightarrow> nat nccl_request_state" where
  "ex_nccl_state p cb e = \<lparr>m_comm = 0, m_scheduled = Scheduled_recvs 0, m_rank = 1, m_tag = 3, m_cb = cb,
     m_ready = False, m_canceled = False, m_self_ptr = Some p,
     n_req = Cached_event \<lparr>m_event = e, m_moved = False, m_recorded = True\<rparr>\<rparr>"

definition ex_nccl1 :: "nat list \<Rightarrow> (nat, ex_gpu) nccl_world" where
  "ex_nccl1 ds = (ex_nccl0 ds)
     \<lparr>gpu := \<lparr>next_event = 1, done_events = ds, gpu_calls = []\<rparr>,
      heap := [1 \<mapsto> \<lparr>m_ref_count = 2, m_t = ex_nccl_state 1 10 0\<rparr>],
      counters := (\<lambda>_. 0)(Scheduled_recvs 0 := 1), handles := (\<lambda>_. 0)(1 := 1),
      nqueue := (\<lambda>_. \<lparr>nq_queue = [], nq_ready_queue = [], nq_in_progress = False\<rparr>)
        (Recv_reqs 0 := \<lparr>nq_queue = [1], nq_ready_queue = [], nq_in_progress = False\<rparr>)\<rparr>"

definition ex_nccl2 :: "nat list \<Rightarrow> (nat, ex_gpu) nccl_world" where
  "ex_nccl2 ds = (ex_nccl0 ds)
     \<lparr>gpu := \<lparr>next_event = 2, done_events = ds, gpu_calls = []\<rparr>,
      heap := [1 \<mapsto> \<lparr>m_ref_count = 2, m_t = ex_nccl_state 1 10 0\<rparr>, 2 \<mapsto> \<lparr>m_ref_count = 2, m_t = ex_nccl_state 2 11 1\<rparr>],
      counters := (\<lambda>_. 0)(Scheduled_recvs 0 := 2), handles := (\<lambda>_. 0)(1 := 1, 2 := 1),
      nqueue := (\<lambda>_. \<lparr>nq_queue = [], nq_ready_queue = [], nq_in_progress = False\<rparr>)
        (Recv_reqs 0 := \<lparr>nq_queue = [1, 2], nq_ready_queue = [], nq_in_progress = False\<rparr>)\<rparr>"

lemmas ex_nccl_simps = nccl_recv_def nccl_recv_raw_def nccl_shared_recv_def nccl_post_def check_nccl_def check_cuda_def
  event_pool_pop_def cuda_event_new_def cuda_event_record_def post_request_eq posted_def nq_enqueue_def ns_enqueue_def
  move_to_handle_def nccl_new_state_def ex_nccl_def ex_nccl_state_def ex_nccl0_def nccl_init_def is_group_active_def

lemma ex_nccl_recv1: "nccl_recv ex_nccl 0 0 1 100 8 1 3 10 (ex_nccl0 ds) = Inr (Some 1, ex_nccl1 ds)"
  by (simp add: ex_nccl_simps ex_nccl1_def)

lemma ex_nccl_recv2: "nccl_recv ex_nccl 0 0 2 200 8 1 3 11 (ex_nccl1 ds) = Inr (Some 2, ex_nccl2 ds)"
  by (simp add: ex_nccl_simps ex_nccl1_def ex_nccl2_def)

lemma ex_nccl_refs: "event_refs (ex_nccl0 ds) q = 0" "event_refs (ex_nccl1 ds) q = 0"
  by (simp_all add: event_refs_def event_requests_def event_groups_def ex_nccl1_def ex_nccl0_def nccl_init_def ex_nccl_state_def)

lemma ex_nccl_steps:
  "nccl_step ex_nccl ex_gpu_log (ex_nccl0 ds) (ex_nccl1 ds)" "nccl_step ex_nccl ex_gpu_log (ex_nccl1 ds) (ex_nccl2 ds)"
proof -
  show "nccl_step ex_nccl ex_gpu_log (ex_nccl0 ds) (ex_nccl1 ds)"
    by (rule step_recv [OF _ _ ex_nccl_recv1]) (simp_all add: ex_nccl_refs, simp add: ex_nccl0_def nccl_init_def)
  show "nccl_step ex_nccl ex_gpu_log (ex_nccl1 ds) (ex_nccl2 ds)"
    by (rule step_recv [OF _ _ ex_nccl_recv2]) (simp_all add: ex_nccl_refs, simp add: ex_nccl1_def)
qed

lemma ex_nccl_run: "(nccl_step ex_nccl ex_gpu_log)\<^sup>*\<^sup>* (ex_nccl0 ds) (ex_nccl2 ds)"
  by (rule rtranclp.rtrancl_into_rtrancl [OF r_into_rtranclp]) (rule ex_nccl_steps)+

lemma ex_nccl_inv: "nccl_inv (ex_nccl2 ds)" "nidle (ex_nccl2 ds)"
  using nccl_runs [OF ex_nccl_run [unfolded ex_nccl0_def] ex_cuda_ok] by simp_all

section \<open>Properties\<close>

text \<open>C13: progress of a queue.  The queue keeps the requests whose event is not ready, in order; the
  others complete: each callback runs once, with the rank and tag of its request and in the order of
  posting, each request is marked ready (or freed if no request object is left), the number of them
  is returned and the invariant holds.\<close>

theorem nccl_progress_completes:
  fixes w :: "('c, 'g) nccl_world"
  assumes "nccl_inv w" "cuda_ok lib" "\<not> nq_in_progress (nqueue w q)" "xs = nq_queue (nqueue w q)"
  shows "\<exists>v. nq_progress lib (nccl_extern f) q w = Inr (length (filter (nready lib w) xs), v) \<and> nccl_inv v \<and>
    nq_queue (nqueue v q) = filter (\<lambda>e. \<not> nready lib w e) xs \<and>
    nenv v = fold (ncall_of f w) (filter (nready lib w) xs) (nenv w) \<and>
    (\<forall>p \<in> set (filter (nready lib w) xs). finished v p)"
  using nq_progress_correct [OF assms(1-3), of f] unfolding assms(4) by blast

theorem nccl_progress_completes_witness:
  "\<exists>v. nq_progress ex_nccl (nccl_extern ex_gpu_log) (Recv_reqs 0) (ex_nccl2 [1]) = Inr (1, v) \<and>
    nq_queue (nqueue v (Recv_reqs 0)) = [1] \<and> gpu_calls (gpu v) = [11] \<and> finished v 2"
proof -
  have q: "\<not> nq_in_progress (nqueue (ex_nccl2 [1]) (Recv_reqs 0))" "[1, 2] = nq_queue (nqueue (ex_nccl2 [1]) (Recv_reqs 0))"
    by (simp_all add: ex_nccl2_def)
  have r: "nready ex_nccl (ex_nccl2 [1]) 1 = False" "nready ex_nccl (ex_nccl2 [1]) 2 = True"
    by (simp_all add: nready_def nccl_request_is_ready_def cuda_event_is_ready_def state_of_def ex_nccl2_def ex_nccl_state_def
        ex_nccl_def)
  have "snd (nenv v) = gpu v" for v :: "(nat, ex_gpu) nccl_world"
    by (simp add: nenv_def)
  then show ?thesis
    using nccl_progress_completes [OF ex_nccl_inv(1) ex_cuda_ok q, of ex_gpu_log] r
    by (auto simp: ncall_of_def state_of_def ex_nccl_state_def ex_gpu_log_def nenv_def) (auto simp: ex_nccl2_def ex_nccl_state_def)
qed



text \<open>\<open>wait_all\<close> on the NCCL transport, outside a group: it ends exactly if some number of progress
  calls brings the counters to zero, without failing, and then nothing is pending.\<close>

theorem nccl_wait_all:
  fixes w :: "('c, 'g) nccl_world"
  assumes "nccl_inv w" "nidle w" "\<not> is_group_active c w" "cuda_ok lib"
  shows "((\<exists>r. wait_all (nccl_comm_progress lib (nccl_extern f)) c w = Some r) \<longleftrightarrow>
      (\<exists>n u. iterate (nccl_comm_progress lib (nccl_extern f) c) n w = Inr u \<and> comm_is_ready c u)) \<and>
    (\<forall>r. wait_all (nccl_comm_progress lib (nccl_extern f)) c w = Some r \<longrightarrow>
      (\<exists>v. r = Inr v \<and> nccl_inv v \<and>
        (\<forall>k \<in> {Scheduled_sends c, Scheduled_recvs c, Shared_scheduled_recvs}.
           card (pending_on v k) < 2 ^ 64 \<longrightarrow> pending_on v k = {})))"
proof (intro conjI allI impI)
  have i: "nccl_inv w \<and> nidle w \<and> \<not> is_group_active c w \<and> cuda_ok lib"
    using assms by simp
  show "(\<exists>r. wait_all (nccl_comm_progress lib (nccl_extern f)) c w = Some r) \<longleftrightarrow>
      (\<exists>n u. iterate (nccl_comm_progress lib (nccl_extern f) c) n w = Inr u \<and> comm_is_ready c u)"
    unfolding wait_all_def by (rule nccl_engine.poll_until_iff [OF i])
  fix r assume "wait_all (nccl_comm_progress lib (nccl_extern f)) c w = Some r"
  then obtain v where v: "r = Inr v" "nccl_inv v" "comm_is_ready c v"
    using nccl_engine.poll_until_sound [OF _ i] unfolding wait_all_def by blast
  then have "store_inv v"
    by (simp add: nccl_inv_def nccl_store_inv_def)
  with v comm_is_ready_pending show "\<exists>v. r = Inr v \<and> nccl_inv v \<and>
      (\<forall>k \<in> {Scheduled_sends c, Scheduled_recvs c, Shared_scheduled_recvs}.
         card (pending_on v k) < 2 ^ 64 \<longrightarrow> pending_on v k = {})"
    by blast
qed

theorem nccl_wait_all_witness:
  "\<exists>r. wait_all (nccl_comm_progress ex_nccl (nccl_extern ex_gpu_log)) 0 (ex_nccl0 []) = Some r"
proof -
  have i: "nccl_inv (ex_nccl0 []) \<and> nidle (ex_nccl0 [])"
    unfolding ex_nccl0_def by (rule nccl_init_inv)
  have g: "\<not> is_group_active 0 (ex_nccl0 [])"
    by (simp add: is_group_active_def ex_nccl0_def nccl_init_def)
  note w = nccl_wait_all [OF conjunct1 [OF i] conjunct2 [OF i] g ex_cuda_ok, of ex_gpu_log]
  have "iterate (nccl_comm_progress ex_nccl (nccl_extern ex_gpu_log) 0) 0 (ex_nccl0 []) = Inr (ex_nccl0 []) \<and>
      comm_is_ready 0 (ex_nccl0 [])"
    by (simp add: comm_is_ready_def ex_nccl0_def nccl_init_def)
  then show ?thesis
    using w by blast
qed

text \<open>When a receive posted in a group that has not ended reports ready.  With a new event it never
  does.  With an event recycled from the pool it does as soon as the operation the event was last
  recorded for is complete, because the pool hands events out with their \<open>m_recorded\<close> flag still set:
  the receive then completes, and its callback runs, before the group has been submitted.\<close>

theorem group_event_before_end:
  fixes w :: "('c, 'g) nccl_world"
  assumes "start_group lib c q w = Inr v" "nccl_shared_recv lib c stream p buf sz src tag cb v = Inr (h, u)"
  shows "is_group_active c u \<and> n_req (state_of u p) = Group_event q \<and>
    (nccl_request_is_ready lib (n_req (state_of u p)) u = Inr True \<longleftrightarrow>
      event_pool w \<noteq> [] \<and> \<not> m_moved (last (event_pool w)) \<and> m_recorded (last (event_pool w)) \<and>
      cudaEventQuery lib (m_event (last (event_pool w))) (gpu u) = 0)"
proof -
  let ?gi = "\<lparr>gi_event = q, gi_last_stream = None\<rparr>"
  from assms(1) obtain ev pool g g' where p: "event_pool_pop lib (event_pool w) g = Inr (ev, pool, g')"
    and v: "v = w\<lparr>gpu := g', event_pool := pool, group_events := block_allocate q ev (group_events w),
      m_group_info := (m_group_info w)(c \<mapsto> ?gi)\<rparr>"
    by (auto simp: start_group_def is_group_active_def check_nccl_def bind_res_eq_Inr split: prod.splits if_splits)
  have gv: "m_group_info v c = Some ?gi" "group_events v q = Some \<lparr>m_ref_count = 1, m_t = ev\<rparr>"
    by (simp_all add: v block_allocate_def)
  from assms(2) obtain r u1 where u1: "nccl_post lib (ncclRecv lib buf sz src stream) c src stream v = Inr (r, u1)"
      "u = move_to_handle p (ns_enqueue p (posted p (nccl_new_state c Shared_scheduled_recvs src tag cb r) u1))"
    by (auto simp: nccl_shared_recv_def nccl_recv_raw_def bind_res_eq_Inr post_request_eq)
  from u1(1) gv have "r = Group_event q \<and> m_group_info u1 c \<noteq> None \<and> group_events u1 q = Some \<lparr>m_ref_count = 2, m_t = ev\<rparr>"
    by (cases rule: nccl_post_world) (auto simp: block_incr_def)
  then have u: "state_of u p = (nccl_new_state c Shared_scheduled_recvs src tag cb (Group_event q))\<lparr>m_self_ptr := Some p\<rparr>"
      "group_events u q = Some \<lparr>m_ref_count = 2, m_t = ev\<rparr>" "m_group_info u c \<noteq> None"
    by (simp_all add: u1(2) move_to_handle_def ns_enqueue_def posted_def state_of_def nccl_new_state_def)
  have "event_pool w = [] \<and> \<not> m_recorded ev \<or> event_pool w \<noteq> [] \<and> ev = last (event_pool w)"
    using p by (auto simp: event_pool_pop_def cuda_event_new_def check_cuda_def bind_res_eq_Inr split: if_splits prod.splits)
  with u show ?thesis
    by (auto simp: is_group_active_def nccl_request_is_ready_def cuda_event_is_ready_def nccl_new_state_def Let_def check_cuda_def)
qed

theorem group_event_before_end_witness:
  "\<exists>v u h. start_group ex_nccl 0 7 ((ex_nccl0 [0])\<lparr>event_pool := [\<lparr>m_event = 0, m_moved = False, m_recorded = True\<rparr>]\<rparr>) = Inr v \<and>
     nccl_shared_recv ex_nccl 0 0 1 100 8 1 3 10 v = Inr (h, u) \<and> is_group_active 0 u \<and>
     nccl_request_is_ready ex_nccl (n_req (state_of u 1)) u = Inr True"
proof -
  let ?w = "(ex_nccl0 [0])\<lparr>event_pool := [\<lparr>m_event = 0, m_moved = False, m_recorded = True\<rparr>]\<rparr>"
  obtain v where v: "start_group ex_nccl 0 7 ?w = Inr v"
    by (simp add: start_group_def is_group_active_def check_nccl_def event_pool_pop_def ex_nccl_def ex_nccl0_def nccl_init_def)
  then obtain h u where u: "nccl_shared_recv ex_nccl 0 0 1 100 8 1 3 10 v = Inr (h, u)" "done_events (gpu u) = [0]"
    by (fastforce simp: start_group_def block_allocate_def block_incr_def ex_nccl_simps)
  have "event_pool ?w \<noteq> []" "cudaEventQuery ex_nccl 0 (gpu u) = 0"
    using u(2) by (simp_all add: ex_nccl_def)
  then show ?thesis
    using group_event_before_end [OF v u(1)] v u(1) by auto
qed

end
