(* ===== verification/Ucx_Transport.thy ===== *)
theory Ucx_Transport
  imports Completion Request_Api
begin

text \<open>
  The UCX transport (\<open>ucx/communicator.hpp\<close>, \<open>ucx/context.hpp\<close>, \<open>ucx/worker.hpp\<close>).  UCX is a record of
  functions on a state \<open>'u\<close>.  A call of \<open>ucp_worker_progress\<close> runs the completion callbacks of the
  transport; the model of the call returns the list of them, in order, and they are executed on the
  state of the process.  The request memory UCX hands out holds a \<open>request_data\<close> each; accesses to
  memory that has been freed are undefined behaviour of the model.
\<close>

unbundle bit_operations_syntax

section \<open>UCX\<close>

text \<open>\<open>ucs_status_ptr_t\<close>: null for immediate success, a request, or an error code.\<close>

datatype ucs_ptr = Ucs_ok | Ucs_ptr nat | Ucs_err int

definition UCS_OK :: int where "UCS_OK = 0"
definition UCS_INPROGRESS :: int where "UCS_INPROGRESS = 1"
definition UCS_ERR_CANCELED :: int where "UCS_ERR_CANCELED = -16"

text \<open>A completion: which callback is called, for which request, with which status.\<close>

datatype ucx_event = Send_event nat int | Recv_event nat int

text \<open>The receive worker of the context and the send worker of each communicator.\<close>

datatype worker_id = Recv_worker | Send_worker nat

record 'u ucx_lib =
  ucp_tag_send_nb :: "nat \<Rightarrow> ptr \<Rightarrow> size_t \<Rightarrow> 64 word \<Rightarrow> 'u \<Rightarrow> ucs_ptr \<times> 'u"
  ucp_tag_recv_nb :: "ptr \<Rightarrow> size_t \<Rightarrow> 64 word \<Rightarrow> 64 word \<Rightarrow> 'u \<Rightarrow> (ucs_ptr \<times> ucx_event list) \<times> 'u"
  ucp_request_check_status :: "nat \<Rightarrow> 'u \<Rightarrow> int"
  ucp_request_free :: "nat \<Rightarrow> 'u \<Rightarrow> 'u"
  ucp_request_cancel :: "nat \<Rightarrow> 'u \<Rightarrow> 'u"
  ucp_worker_progress :: "worker_id \<Rightarrow> 'u \<Rightarrow> (bool \<times> ucx_event list) \<times> 'u"
  ucp_ep_create :: "nat \<Rightarrow> 8 word list \<Rightarrow> 'u \<Rightarrow> (int \<times> nat) \<times> 'u"

definition check_ucx :: "int \<Rightarrow> 'a result \<Rightarrow> 'a result" where
  "check_ucx rc k = (if rc \<noteq> UCS_OK then Inl (Runtime_error ''OOMPH Error: UCX Call failed'') else k)"

section \<open>State\<close>

record 'c ucx_request_state = "'c request_state" +
  m_ucx_ptr :: ucs_ptr

record request_data =
  rd_req :: "ptr option"
  rd_shared_req :: "ptr option"

definition rd_destroyed :: request_data where
  "rd_destroyed = \<lparr>rd_req = None, rd_shared_req = None\<rparr>"

definition rd_empty :: "request_data \<Rightarrow> bool" where
  "rd_empty d \<longleftrightarrow> rd_req d = None \<and> rd_shared_req d = None"

definition rd_construct :: "bool \<Rightarrow> ptr \<Rightarrow> request_data" where
  "rd_construct shared p =
     (if shared then \<lparr>rd_req = None, rd_shared_req = Some p\<rparr> else \<lparr>rd_req = Some p, rd_shared_req = None\<rparr>)"

text \<open>One process.  \<open>u_live\<close> tells which UCX requests are allocated; \<open>cancel_found\<close> is the static
  variable of \<open>context_impl::cancel_recv\<close>; \<open>app\<close> is the application's state, on which callbacks act.\<close>

record ('c, 'e, 'u) ucx_world = "'c ucx_request_state request_store" +
  u_thread_safe :: bool
  u_rank :: rank_type
  send_req_queue :: "nat \<Rightarrow> ptr list"
  recv_req_queue :: "nat \<Rightarrow> ptr list"
  cancel_req_queue :: "nat \<Rightarrow> ptr list"
  ctx_recv_queue :: "ptr list"
  ctx_cancel_queue :: "ptr list"
  cancel_found :: bool
  mutex_locked :: bool
  u_depth :: "nat \<Rightarrow> nat"
  u_ctx_depth :: nat
  u_data :: "nat \<Rightarrow> request_data"
  u_live :: "nat \<Rightarrow> bool"
  endpoint_cache :: "nat \<Rightarrow> rank_type \<Rightarrow> nat option"
  address_map :: "rank_type \<Rightarrow> 8 word list option"
  app :: 'e
  ucx :: 'u

type_synonym ('c, 'e, 'u) ucx_callback =
  "'c \<Rightarrow> rank_type \<Rightarrow> tag_type \<Rightarrow> ('c, 'e, 'u) ucx_world \<Rightarrow> ('c, 'e, 'u) ucx_world"

section \<open>Mutex, request memory, queues\<close>

text \<open>Locking a mutex the thread already holds is undefined.  Both functions do nothing unless the
  context is thread safe, as in the code's \<open>if (m_thread_safe) m_mutex.lock()\<close>.\<close>

definition ucx_lock :: "('c, 'e, 'u) ucx_world \<Rightarrow> ('c, 'e, 'u) ucx_world result" where
  "ucx_lock w =
     (if \<not> u_thread_safe w then Inr w
      else if mutex_locked w then Inl (Undefined_behaviour ''lock of a mutex that is held'')
      else Inr (w\<lparr>mutex_locked := True\<rparr>))"

definition ucx_unlock :: "('c, 'e, 'u) ucx_world \<Rightarrow> ('c, 'e, 'u) ucx_world" where
  "ucx_unlock w = (if \<not> u_thread_safe w then w else w\<lparr>mutex_locked := False\<rparr>)"

definition rd_get :: "nat \<Rightarrow> ('c, 'e, 'u) ucx_world \<Rightarrow> request_data result" where
  "rd_get r w =
     (if u_live w r then Inr (u_data w r) else Inl (Undefined_behaviour ''access to a freed ucx request''))"

definition rd_set :: "nat \<Rightarrow> request_data \<Rightarrow> ('c, 'e, 'u) ucx_world \<Rightarrow> ('c, 'e, 'u) ucx_world result" where
  "rd_set r d w =
     (if u_live w r then Inr (w\<lparr>u_data := (u_data w)(r := d)\<rparr>)
      else Inl (Undefined_behaviour ''access to a freed ucx request''))"

definition request_free :: "'u ucx_lib \<Rightarrow> nat \<Rightarrow> ('c, 'e, 'u) ucx_world \<Rightarrow> ('c, 'e, 'u) ucx_world result" where
  "request_free lib r w =
     (if u_live w r then Inr (w\<lparr>u_live := (u_live w)(r := False), ucx := ucp_request_free lib r (ucx w)\<rparr>)
      else Inl (Undefined_behaviour ''ucx request freed twice''))"

definition enqueue_send :: "nat \<Rightarrow> ptr \<Rightarrow> ('c, 'e, 'u) ucx_world \<Rightarrow> ('c, 'e, 'u) ucx_world" where
  "enqueue_send c p w = w\<lparr>send_req_queue := (send_req_queue w)(c := send_req_queue w c @ [p])\<rparr>"

definition enqueue_recv :: "nat \<Rightarrow> ptr \<Rightarrow> ('c, 'e, 'u) ucx_world \<Rightarrow> ('c, 'e, 'u) ucx_world" where
  "enqueue_recv c p w = w\<lparr>recv_req_queue := (recv_req_queue w)(c := recv_req_queue w c @ [p])\<rparr>"

definition enqueue_cancel_recv :: "nat \<Rightarrow> ptr \<Rightarrow> ('c, 'e, 'u) ucx_world \<Rightarrow> ('c, 'e, 'u) ucx_world" where
  "enqueue_cancel_recv c p w = w\<lparr>cancel_req_queue := (cancel_req_queue w)(c := cancel_req_queue w c @ [p])\<rparr>"

definition ctx_enqueue_recv :: "ptr \<Rightarrow> ('c, 'e, 'u) ucx_world \<Rightarrow> ('c, 'e, 'u) ucx_world" where
  "ctx_enqueue_recv p w = w\<lparr>ctx_recv_queue := ctx_recv_queue w @ [p]\<rparr>"

definition ctx_enqueue_cancel_recv :: "ptr \<Rightarrow> ('c, 'e, 'u) ucx_world \<Rightarrow> ('c, 'e, 'u) ucx_world" where
  "ctx_enqueue_cancel_recv p w = w\<lparr>ctx_cancel_queue := ctx_cancel_queue w @ [p]\<rparr>"

text \<open>\<open>pop\<close> of the three queues whose requests are completed by progress.\<close>

datatype ready_queue = Send_ready nat | Recv_ready nat | Ctx_ready

fun ready_list :: "ready_queue \<Rightarrow> ('c, 'e, 'u) ucx_world \<Rightarrow> ptr list" where
  "ready_list (Send_ready c) w = send_req_queue w c"
| "ready_list (Recv_ready c) w = recv_req_queue w c"
| "ready_list Ctx_ready w = ctx_recv_queue w"

fun set_ready :: "ready_queue \<Rightarrow> ptr list \<Rightarrow> ('c, 'e, 'u) ucx_world \<Rightarrow> ('c, 'e, 'u) ucx_world" where
  "set_ready (Send_ready c) xs w = w\<lparr>send_req_queue := (send_req_queue w)(c := xs)\<rparr>"
| "set_ready (Recv_ready c) xs w = w\<lparr>recv_req_queue := (recv_req_queue w)(c := xs)\<rparr>"
| "set_ready Ctx_ready xs w = w\<lparr>ctx_recv_queue := xs\<rparr>"

section \<open>Completion callbacks\<close>

definition send_callback ::
    "'u ucx_lib \<Rightarrow> ('c, 'e, 'u) ucx_callback \<Rightarrow> nat \<Rightarrow> int \<Rightarrow> ('c, 'e, 'u) ucx_world \<Rightarrow> ('c, 'e, 'u) ucx_world result" where
  "send_callback lib cbk r status w =
     bind_res (rd_get r w) (\<lambda>d.
     bind_res
       (if status = UCS_OK
        then (case rd_req d of
                Some p \<Rightarrow> complete_request cbk p w
              | None \<Rightarrow>
                  (case rd_shared_req d of
                     Some p \<Rightarrow> complete_request cbk p w
                   | None \<Rightarrow> Inl (Undefined_behaviour ''null request state'')))
        else Inr w) (\<lambda>w.
     bind_res (rd_set r rd_destroyed w) (request_free lib r)))"

definition recv_callback ::
    "'u ucx_lib \<Rightarrow> ('c, 'e, 'u) ucx_callback \<Rightarrow> nat \<Rightarrow> int \<Rightarrow> ('c, 'e, 'u) ucx_world \<Rightarrow> ('c, 'e, 'u) ucx_world result" where
  "recv_callback lib cbk r status w =
     bind_res (rd_get r w) (\<lambda>d.
     if status = UCS_OK then
       if rd_empty d then Inr w
       else (case rd_req d of
           Some p \<Rightarrow>
             bind_res (load_state p w) (\<lambda>s.
             bind_res (rd_set r rd_destroyed w) (\<lambda>w.
             bind_res (request_free lib r w) (\<lambda>w.
             if u_thread_safe w then Inr (enqueue_recv (m_comm s) p w) else complete_request cbk p w)))
         | None \<Rightarrow>
             (case rd_shared_req d of
                None \<Rightarrow> Inr w
              | Some p \<Rightarrow>
                  bind_res (rd_set r rd_destroyed w) (\<lambda>w.
                  bind_res (request_free lib r w) (\<lambda>w.
                  bind_res (load_state p w) (\<lambda>_. Inr (ctx_enqueue_recv p w))))))
     else if status = UCS_ERR_CANCELED then
       (case rd_req d of
          Some p \<Rightarrow> bind_res (load_state p w) (\<lambda>s. Inr (enqueue_cancel_recv (m_comm s) p w))
        | None \<Rightarrow>
            (case rd_shared_req d of
               Some p \<Rightarrow> bind_res (load_state p w) (\<lambda>_. Inr (ctx_enqueue_cancel_recv p w))
             | None \<Rightarrow> Inl (Undefined_behaviour ''null request state'')))
     else Inl (Runtime_error ''oomph: ucx error - recv message truncated''))"

fun run_event ::
    "'u ucx_lib \<Rightarrow> ('c, 'e, 'u) ucx_callback \<Rightarrow> ucx_event \<Rightarrow> ('c, 'e, 'u) ucx_world \<Rightarrow> ('c, 'e, 'u) ucx_world result" where
  "run_event lib cbk (Send_event r st) w = send_callback lib cbk r st w"
| "run_event lib cbk (Recv_event r st) w = recv_callback lib cbk r st w"

definition worker_progress ::
    "'u ucx_lib \<Rightarrow> ('c, 'e, 'u) ucx_callback \<Rightarrow> worker_id \<Rightarrow> ('c, 'e, 'u) ucx_world \<Rightarrow> (bool \<times> ('c, 'e, 'u) ucx_world) result" where
  "worker_progress lib cbk wk w =
     (case ucp_worker_progress lib wk (ucx w) of ((b, evs), u) \<Rightarrow>
        bind_res (fold_res (run_event lib cbk) evs (w\<lparr>ucx := u\<rparr>)) (\<lambda>w. Inr (b, w)))"

section \<open>Progress\<close>

text \<open>\<open>while (ucp_worker_progress(...)) {}\<close> and \<open>consume_all\<close> of a lock free queue.  A loop that does not
  end is the value \<open>None\<close>.\<close>

partial_function (option) drain_worker ::
    "'u ucx_lib \<Rightarrow> ('c, 'e, 'u) ucx_callback \<Rightarrow> worker_id \<Rightarrow> ('c, 'e, 'u) ucx_world \<Rightarrow> ('c, 'e, 'u) ucx_world result option" where
  "drain_worker lib cbk wk w =
     (case worker_progress lib cbk wk w of
        Inl e \<Rightarrow> Some (Inl e)
      | Inr (b, v) \<Rightarrow> if b then drain_worker lib cbk wk v else Some (Inr v))"

partial_function (option) consume_all ::
    "('c, 'e, 'u) ucx_callback \<Rightarrow> ready_queue \<Rightarrow> ('c, 'e, 'u) ucx_world \<Rightarrow> ('c, 'e, 'u) ucx_world result option" where
  "consume_all cbk q w =
     (case ready_list q w of
        [] \<Rightarrow> Some (Inr w)
      | p # ps \<Rightarrow>
          (case complete_request cbk p (set_ready q ps w) of
             Inl e \<Rightarrow> Some (Inl e)
           | Inr v \<Rightarrow> consume_all cbk q v))"

definition bind_opt :: "'a result option \<Rightarrow> ('a \<Rightarrow> 'b result option) \<Rightarrow> 'b result option" where
  "bind_opt r f = (case r of None \<Rightarrow> None | Some (Inl e) \<Rightarrow> Some (Inl e) | Some (Inr a) \<Rightarrow> f a)"

text \<open>The attempts of a thread safe communicator to progress the receive worker.\<close>

fun recv_rounds ::
    "'u ucx_lib \<Rightarrow> ('c, 'e, 'u) ucx_callback \<Rightarrow> nat \<Rightarrow> ('c, 'e, 'u) ucx_world \<Rightarrow> ('c, 'e, 'u) ucx_world result" where
  "recv_rounds lib cbk 0 w = Inr w"
| "recv_rounds lib cbk (Suc n) w =
     (if mutex_locked w then recv_rounds lib cbk n w
      else bind_res (worker_progress lib cbk Recv_worker (w\<lparr>mutex_locked := True\<rparr>)) (\<lambda>(b, w).
           let w = w\<lparr>mutex_locked := False\<rparr> in
           if b then recv_rounds lib cbk n w else Inr w))"

definition ucx_comm_progress ::
    "'u ucx_lib \<Rightarrow> ('c, 'e, 'u) ucx_callback \<Rightarrow> nat \<Rightarrow> ('c, 'e, 'u) ucx_world \<Rightarrow> ('c, 'e, 'u) ucx_world result option" where
  "ucx_comm_progress lib cbk c w =
     bind_opt (drain_worker lib cbk (Send_worker c) w) (\<lambda>w.
     bind_opt (if u_thread_safe w then Some (recv_rounds lib cbk 10 w) else drain_worker lib cbk Recv_worker w) (\<lambda>w.
     bind_opt (consume_all cbk (Send_ready c) w) (\<lambda>w.
     bind_opt (if u_thread_safe w then consume_all cbk (Recv_ready c) w else Some (Inr w)) (\<lambda>w.
     consume_all cbk Ctx_ready w))))"

definition ucx_ctx_progress ::
    "'u ucx_lib \<Rightarrow> ('c, 'e, 'u) ucx_callback \<Rightarrow> ('c, 'e, 'u) ucx_world \<Rightarrow> ('c, 'e, 'u) ucx_world result option" where
  "ucx_ctx_progress lib cbk w =
     bind_opt
       (if mutex_locked w then Some (Inr w)
        else Some (bind_res (worker_progress lib cbk Recv_worker (w\<lparr>mutex_locked := True\<rparr>)) (\<lambda>(_, w).
                   Inr (w\<lparr>mutex_locked := False\<rparr>)))) (\<lambda>w.
     consume_all cbk Ctx_ready w)"

section \<open>Tags\<close>

text \<open>A message tag of UCX holds the tag of the message in its upper half and the rank of the sender in
  the lower one.  A receive names the tag it waits for and the bits that have to agree.\<close>

definition any_source :: rank_type where
  "any_source = -1"

definition send_tag :: "tag_type \<Rightarrow> rank_type \<Rightarrow> 64 word" where
  "send_tag tag rank = push_bit 32 (scast tag) OR scast rank"

definition recv_tag :: "tag_type \<Rightarrow> rank_type \<Rightarrow> 64 word" where
  "recv_tag tag src = (if any_source = src then push_bit 32 (scast tag) else push_bit 32 (scast tag) OR scast src)"

definition recv_mask :: "rank_type \<Rightarrow> 64 word" where
  "recv_mask src = (if any_source = src then 0xffffffff00000000 OR 0 else 0xffffffff00000000 OR 0x00000000ffffffff)"

section \<open>Posting\<close>

definition connect :: "'u ucx_lib \<Rightarrow> nat \<Rightarrow> rank_type \<Rightarrow> ('c, 'e, 'u) ucx_world \<Rightarrow> (nat \<times> ('c, 'e, 'u) ucx_world) result" where
  "connect lib c rank w =
     (case endpoint_cache w c rank of
        Some ep \<Rightarrow> Inr (ep, w)
      | None \<Rightarrow>
          (case address_map w rank of
             None \<Rightarrow> Inl (Runtime_error ''Cound not find peer address in the MPI address xdatabase.'')
           | Some addr \<Rightarrow>
               (case ucp_ep_create lib c addr (ucx w) of ((rc, ep), u) \<Rightarrow>
                  check_ucx rc
                    (Inr (ep, w\<lparr>ucx := u,
                      endpoint_cache := (endpoint_cache w)(c := (endpoint_cache w c)(rank \<mapsto> ep))\<rparr>)))))"

text \<open>The recursion depth of a communicator, or of the context, and a callback called from a posting
  function inside the scope of an \<open>increment_guard\<close>.\<close>

definition ucx_depth :: "nat option \<Rightarrow> ('c, 'e, 'u) ucx_world \<Rightarrow> nat" where
  "ucx_depth a w = (case a of Some c \<Rightarrow> u_depth w c | None \<Rightarrow> u_ctx_depth w)"

definition ucx_guarded ::
    "nat option \<Rightarrow> (('c, 'e, 'u) ucx_world \<Rightarrow> ('c, 'e, 'u) ucx_world) \<Rightarrow> ('c, 'e, 'u) ucx_world \<Rightarrow> ('c, 'e, 'u) ucx_world" where
  "ucx_guarded a f w =
     (case a of
        Some c \<Rightarrow>
          (let v = f (w\<lparr>u_depth := (u_depth w)(c := u_depth w c + 1)\<rparr>)
           in v\<lparr>u_depth := (u_depth v)(c := u_depth v c - 1)\<rparr>)
      | None \<Rightarrow>
          (let v = f (w\<lparr>u_ctx_depth := u_ctx_depth w + 1\<rparr>) in v\<lparr>u_ctx_depth := u_ctx_depth v - 1\<rparr>))"

definition ucx_new_state ::
    "nat \<Rightarrow> counter_id \<Rightarrow> rank_type \<Rightarrow> tag_type \<Rightarrow> 'c \<Rightarrow> ucs_ptr \<Rightarrow> 'c ucx_request_state" where
  "ucx_new_state c sched rank tag cb ret =
     \<lparr>m_comm = c, m_scheduled = sched, m_rank = rank, m_tag = tag, m_cb = cb,
      m_ready = False, m_canceled = False, m_self_ptr = None, m_ucx_ptr = ret\<rparr>"

definition allocated :: "ucs_ptr \<Rightarrow> 'u \<Rightarrow> ('c, 'e, 'u) ucx_world \<Rightarrow> ('c, 'e, 'u) ucx_world" where
  "allocated ret u w =
     w\<lparr>ucx := u, u_live := (case ret of Ucs_ptr r \<Rightarrow> (u_live w)(r := True) | _ \<Rightarrow> u_live w)\<rparr>"

definition ucx_send ::
    "'u ucx_lib \<Rightarrow> ('c, 'e, 'u) ucx_callback \<Rightarrow> nat \<Rightarrow> ptr \<Rightarrow> ptr \<Rightarrow> size_t \<Rightarrow> rank_type \<Rightarrow> tag_type \<Rightarrow> 'c \<Rightarrow>
     ('c, 'e, 'u) ucx_world \<Rightarrow> (ptr option \<times> ('c, 'e, 'u) ucx_world) result" where
  "ucx_send lib cbk c p buf sz dst tag cb w =
     bind_res (connect lib c dst w) (\<lambda>(ep, w).
     case ucp_tag_send_nb lib ep buf sz (send_tag tag (u_rank w)) (ucx w) of (ret, u) \<Rightarrow>
     let w = allocated ret u w;
         s = ucx_new_state c (Scheduled_sends c) dst tag cb ret in
     case ret of
       Ucs_ok \<Rightarrow>
         if \<not> has_reached_recursion_depth (ucx_depth (Some c) w)
         then Inr (None, ucx_guarded (Some c) (cbk cb dst tag) w)
         else bind_res (post_request p s w) (\<lambda>w. Inr (Some p, move_to_handle p (enqueue_send c p w)))
     | Ucs_ptr r \<Rightarrow>
         bind_res (post_request p s w) (\<lambda>w.
         bind_res (rd_set r (rd_construct False p) w) (\<lambda>w. Inr (Some p, move_to_handle p w)))
     | Ucs_err _ \<Rightarrow> Inl (Runtime_error ''oomph: ucx error - send operation failed''))"

text \<open>\<open>recv\<close> and \<open>shared_recv\<close> differ in the recursion depth they look at (\<open>a\<close>), the counter, and the
  queue an early completed request is pushed to.\<close>

definition ucx_recv_post ::
    "'u ucx_lib \<Rightarrow> ('c, 'e, 'u) ucx_callback \<Rightarrow> nat option \<Rightarrow> counter_id \<Rightarrow> nat \<Rightarrow> ptr \<Rightarrow> ptr \<Rightarrow> size_t \<Rightarrow>
     rank_type \<Rightarrow> tag_type \<Rightarrow> 'c \<Rightarrow> ('c, 'e, 'u) ucx_world \<Rightarrow> (ptr option \<times> ('c, 'e, 'u) ucx_world) result" where
  "ucx_recv_post lib cbk a sched c p buf sz src tag cb w =
     bind_res (ucx_lock w) (\<lambda>w.
     case ucp_tag_recv_nb lib buf sz (recv_tag tag src) (recv_mask src) (ucx w) of ((ret, evs), u) \<Rightarrow>
     bind_res (fold_res (run_event lib cbk) evs (allocated ret u w)) (\<lambda>w.
     let s = ucx_new_state c sched src tag cb ret in
     case ret of
       Ucs_err _ \<Rightarrow> Inl (Runtime_error ''oomph: ucx error - recv operation failed'')
     | Ucs_ok \<Rightarrow> Inl (Undefined_behaviour ''status of a null ucx request'')
     | Ucs_ptr r \<Rightarrow>
         if UCS_INPROGRESS \<noteq> ucp_request_check_status lib r (ucx w) then
           bind_res (request_free lib r w) (\<lambda>w.
           let w = ucx_unlock w in
           if \<not> has_reached_recursion_depth (ucx_depth a w)
           then Inr (None, ucx_guarded a (cbk cb src tag) w)
           else bind_res (post_request p s w) (\<lambda>w.
                Inr (Some p, move_to_handle p (case a of Some c \<Rightarrow> enqueue_recv c p w | None \<Rightarrow> ctx_enqueue_recv p w))))
         else
           bind_res (post_request p s w) (\<lambda>w.
           bind_res (rd_set r (rd_construct (a = None) p) w) (\<lambda>w.
           Inr (Some p, move_to_handle p (ucx_unlock w))))))"

definition ucx_recv ::
    "'u ucx_lib \<Rightarrow> ('c, 'e, 'u) ucx_callback \<Rightarrow> nat \<Rightarrow> ptr \<Rightarrow> ptr \<Rightarrow> size_t \<Rightarrow> rank_type \<Rightarrow> tag_type \<Rightarrow> 'c \<Rightarrow>
     ('c, 'e, 'u) ucx_world \<Rightarrow> (ptr option \<times> ('c, 'e, 'u) ucx_world) result" where
  "ucx_recv lib cbk c p buf sz src tag cb w =
     ucx_recv_post lib cbk (Some c) (Scheduled_recvs c) c p buf sz src tag cb w"

definition ucx_shared_recv ::
    "'u ucx_lib \<Rightarrow> ('c, 'e, 'u) ucx_callback \<Rightarrow> nat \<Rightarrow> ptr \<Rightarrow> ptr \<Rightarrow> size_t \<Rightarrow> rank_type \<Rightarrow> tag_type \<Rightarrow> 'c \<Rightarrow>
     ('c, 'e, 'u) ucx_world \<Rightarrow> (ptr option \<times> ('c, 'e, 'u) ucx_world) result" where
  "ucx_shared_recv lib cbk c p buf sz src tag cb w =
     ucx_recv_post lib cbk None Shared_scheduled_recvs c p buf sz src tag cb w"

section \<open>Cancellation\<close>

text \<open>The functor given to \<open>consume_all\<close> over the cancelled requests: it looks for \<open>p\<close> and keeps the
  others in a vector, which is pushed back.\<close>

fun cancel_scan :: "ptr \<Rightarrow> ptr list \<Rightarrow> bool \<Rightarrow> ptr list \<Rightarrow> bool \<times> ptr list" where
  "cancel_scan p [] found vec = (found, vec)"
| "cancel_scan p (r # rs) found vec =
     (if r = p then cancel_scan p rs True vec else cancel_scan p rs found (vec @ [r]))"

definition request_cancel_ucx ::
    "'u ucx_lib \<Rightarrow> ucs_ptr \<Rightarrow> ('c, 'e, 'u) ucx_world \<Rightarrow> ('c, 'e, 'u) ucx_world result" where
  "request_cancel_ucx lib h w =
     (case h of
        Ucs_ptr r \<Rightarrow>
          if u_live w r then Inr (w\<lparr>ucx := ucp_request_cancel lib r (ucx w)\<rparr>)
          else Inl (Undefined_behaviour ''cancellation of a freed ucx request'')
      | _ \<Rightarrow> Inl (Undefined_behaviour ''cancellation of a null ucx request''))"

text \<open>The end of both functions: the request state and the UCX request are released.\<close>

definition cancel_finish ::
    "'u ucx_lib \<Rightarrow> ptr \<Rightarrow> ('c, 'e, 'u) ucx_world \<Rightarrow> ('c, 'e, 'u) ucx_world result" where
  "cancel_finish lib p w =
     bind_res (release_self_ref p w) (\<lambda>(m, w).
     bind_res (set_canceled p w) (\<lambda>w.
     bind_res (load_state p w) (\<lambda>s.
     case m_ucx_ptr s of
       Ucs_ptr r \<Rightarrow>
         bind_res (rd_set r rd_destroyed w) (\<lambda>w.
         bind_res (ucx_lock w) (\<lambda>w.
         bind_res (request_free lib r w) (\<lambda>w.
         drop_ref m (ucx_unlock w))))
     | _ \<Rightarrow> Inl (Undefined_behaviour ''access to a null ucx request''))))"

definition ucx_cancel_recv ::
    "'u ucx_lib \<Rightarrow> ('c, 'e, 'u) ucx_callback \<Rightarrow> nat \<Rightarrow> ptr \<Rightarrow> ('c, 'e, 'u) ucx_world \<Rightarrow>
     (bool \<times> ('c, 'e, 'u) ucx_world) result option" where
  "ucx_cancel_recv lib cbk c p w =
     bind_opt (Some (bind_res (ucx_lock w) (\<lambda>w. bind_res (load_state p w) (\<lambda>s. request_cancel_ucx lib (m_ucx_ptr s) w)))) (\<lambda>w.
     bind_opt (drain_worker lib cbk Recv_worker w) (\<lambda>w.
     let w = ucx_unlock w in
     case cancel_scan p (cancel_req_queue w c) False [] of (found, vec) \<Rightarrow>
     let w = w\<lparr>cancel_req_queue := (cancel_req_queue w)(c := vec)\<rparr> in
     Some (bind_res (if found then cancel_finish lib p w else Inr w) (\<lambda>w. Inr (found, w)))))"

text \<open>The context's version.  Its \<open>found\<close> is a static variable, initialised once.\<close>

definition ucx_ctx_cancel_recv ::
    "'u ucx_lib \<Rightarrow> ('c, 'e, 'u) ucx_callback \<Rightarrow> ptr \<Rightarrow> ('c, 'e, 'u) ucx_world \<Rightarrow>
     (bool \<times> ('c, 'e, 'u) ucx_world) result option" where
  "ucx_ctx_cancel_recv lib cbk p w =
     bind_opt (Some (bind_res (ucx_lock w) (\<lambda>w. bind_res (load_state p w) (\<lambda>s. request_cancel_ucx lib (m_ucx_ptr s) w)))) (\<lambda>w.
     bind_opt (drain_worker lib cbk Recv_worker w) (\<lambda>w.
     case cancel_scan p (ctx_cancel_queue w) (cancel_found w) [] of (found, vec) \<Rightarrow>
     let w = ucx_unlock (w\<lparr>ctx_cancel_queue := vec, cancel_found := found\<rparr>) in
     Some (bind_res (if found then cancel_finish lib p w else Inr w) (\<lambda>w. Inr (found, w)))))"

end
