(* ===== verification/Ucx_Invariant.thy ===== *)
theory Ucx_Invariant
  imports Ucx_Transport
begin

text \<open>
  The invariant of the UCX transport.  Every request that has not completed is held in one place: in
  the memory of an outstanding UCX request, or in one of the queues of requests whose callback is to
  be called.  What is relied on of UCX is stated with two observations of its state: which requests
  are allocated, and for which of them a completion is still to be reported.
\<close>

section \<open>What is relied on of UCX\<close>

record 'u ucx_view =
  out :: "'u \<Rightarrow> nat \<Rightarrow> bool"
  alloc :: "'u \<Rightarrow> nat \<Rightarrow> bool"
  work :: "'u \<Rightarrow> nat"

fun event_request :: "ucx_event \<Rightarrow> nat" where
  "event_request (Send_event r st) = r"
| "event_request (Recv_event r st) = r"

fun event_ok :: "ucx_event \<Rightarrow> bool" where
  "event_ok (Send_event r st) \<longleftrightarrow> st = UCS_OK"
| "event_ok (Recv_event r st) \<longleftrightarrow> st = UCS_OK \<or> st = UCS_ERR_CANCELED"

definition same_view :: "'u ucx_view \<Rightarrow> 'u \<Rightarrow> 'u \<Rightarrow> bool" where
  "same_view vw u v \<longleftrightarrow> out vw u = out vw v \<and> alloc vw u = alloc vw v"

text \<open>A send is complete, or scheduled with a new request.  A receive always has a request; if the
  request is not in progress the receive is complete, and its callback may have been called.\<close>

definition send_nb_ok :: "'u ucx_view \<Rightarrow> 'u \<Rightarrow> ucs_ptr \<times> 'u \<Rightarrow> bool" where
  "send_nb_ok vw u res \<longleftrightarrow>
     (case res of (ret, v) \<Rightarrow>
       (case ret of
          Ucs_ptr r \<Rightarrow> \<not> alloc vw u r \<and> out vw v = (out vw u)(r := True) \<and> alloc vw v = (alloc vw u)(r := True)
        | _ \<Rightarrow> same_view vw u v))"

definition recv_nb_ok :: "'u ucx_lib \<Rightarrow> 'u ucx_view \<Rightarrow> 'u \<Rightarrow> (ucs_ptr \<times> ucx_event list) \<times> 'u \<Rightarrow> bool" where
  "recv_nb_ok lib vw u res \<longleftrightarrow>
     (case res of ((ret, evs), v) \<Rightarrow>
       (case ret of
          Ucs_ptr r \<Rightarrow> \<not> alloc vw u r \<and> alloc vw v = (alloc vw u)(r := True) \<and>
            (if ucp_request_check_status lib r v = UCS_INPROGRESS
             then evs = [] \<and> out vw v = (out vw u)(r := True)
             else set evs \<subseteq> {Recv_event r UCS_OK} \<and> out vw v = out vw u)
        | Ucs_err _ \<Rightarrow> evs = [] \<and> same_view vw u v
        | Ucs_ok \<Rightarrow> False))"

text \<open>Progress reports outstanding requests, each once.  It reports that there was progress only
  finitely often if nothing else happens.\<close>

definition progress_ok :: "'u ucx_view \<Rightarrow> 'u \<Rightarrow> (bool \<times> ucx_event list) \<times> 'u \<Rightarrow> bool" where
  "progress_ok vw u res \<longleftrightarrow>
     (case res of ((b, evs), v) \<Rightarrow>
       distinct (map event_request evs) \<and> (\<forall>e \<in> set evs. event_ok e \<and> out vw u (event_request e)) \<and>
       out vw v = (\<lambda>r. out vw u r \<and> r \<notin> event_request ` set evs) \<and> alloc vw v = alloc vw u \<and>
       (b \<longrightarrow> work vw v < work vw u) \<and> work vw v \<le> work vw u)"

definition ucx_ok :: "'u ucx_lib \<Rightarrow> 'u ucx_view \<Rightarrow> bool" where
  "ucx_ok lib vw \<longleftrightarrow>
     (\<forall>ep buf sz t u. send_nb_ok vw u (ucp_tag_send_nb lib ep buf sz t u)) \<and>
     (\<forall>buf sz t m u. recv_nb_ok lib vw u (ucp_tag_recv_nb lib buf sz t m u)) \<and>
     (\<forall>wk u. progress_ok vw u (ucp_worker_progress lib wk u)) \<and>
     (\<forall>r u. out vw (ucp_request_free lib r u) = out vw u \<and>
            alloc vw (ucp_request_free lib r u) = (alloc vw u)(r := False) \<and>
            work vw (ucp_request_free lib r u) \<le> work vw u) \<and>
     (\<forall>r u. same_view vw (ucp_request_cancel lib r u) u) \<and>
     (\<forall>c a u. same_view vw (snd (ucp_ep_create lib c a u)) u)"

section \<open>Callbacks\<close>

definition uenv :: "('c, 'e, 'u) ucx_world \<Rightarrow> api_state \<times> 'e" where
  "uenv w = (api w, app w)"

definition ucx_extern ::
    "('c \<Rightarrow> rank_type \<Rightarrow> tag_type \<Rightarrow> api_state \<times> 'e \<Rightarrow> api_state \<times> 'e) \<Rightarrow> ('c, 'e, 'u) ucx_callback" where
  "ucx_extern f c r t w = (case f c r t (uenv w) of (a, e) \<Rightarrow> w\<lparr>api := a, app := e\<rparr>)"

lemma ucx_extern_outside: "outside (ucx_extern f) = ucx_extern f"
  by (simp add: fun_eq_iff outside_def ucx_extern_def off_store_def uenv_def split: prod.splits)

text \<open>Everything but the store and what callbacks change.\<close>

definition ustatic where
  "ustatic w = (u_thread_safe w, u_rank w, send_req_queue w, recv_req_queue w, cancel_req_queue w, ctx_recv_queue w,
     ctx_cancel_queue w, cancel_found w, mutex_locked w, u_data w, u_live w, endpoint_cache w, address_map w, ucx w)"

lemma ustatic_fields:
  "ustatic v = ustatic w \<longleftrightarrow> u_thread_safe v = u_thread_safe w \<and> u_rank v = u_rank w \<and> send_req_queue v = send_req_queue w \<and>
     recv_req_queue v = recv_req_queue w \<and> cancel_req_queue v = cancel_req_queue w \<and> ctx_recv_queue v = ctx_recv_queue w \<and>
     ctx_cancel_queue v = ctx_cancel_queue w \<and> cancel_found v = cancel_found w \<and> mutex_locked v = mutex_locked w \<and>
     u_data v = u_data w \<and> u_live v = u_live w \<and> endpoint_cache v = endpoint_cache w \<and> address_map v = address_map w \<and>
     ucx v = ucx w"
  by (auto simp: ustatic_def)

definition ucall_of ::
    "('c \<Rightarrow> rank_type \<Rightarrow> tag_type \<Rightarrow> api_state \<times> 'e \<Rightarrow> api_state \<times> 'e) \<Rightarrow> ('c, 'e, 'u) ucx_world \<Rightarrow> ptr \<Rightarrow>
     api_state \<times> 'e \<Rightarrow> api_state \<times> 'e" where
  "ucall_of f w p = f (m_cb (state_of w p)) (m_rank (state_of w p)) (m_tag (state_of w p))"

lemma ustatic_off_store:
  fixes u :: "('c, 'e, 'u) ucx_world"
  shows "uenv (off_store u) = uenv u" "ustatic (off_store u) = ustatic u"
  by (simp_all add: off_store_def uenv_def ustatic_def)

lemma effect_ucx:
  fixes w :: "('c, 'e, 'u) ucx_world"
  assumes "off_store v = effect_of (ucx_extern f) w p (off_store w)"
  shows "uenv v = ucall_of f w p (uenv w)" "ustatic v = ustatic w"
  unfolding ustatic_off_store [of v, symmetric] assms
  by (simp_all add: effect_of_def ustatic_off_store ucall_of_def ucx_extern_def split: prod.splits)
     (simp_all add: uenv_def ustatic_def off_store_def)

lemma ucx_complete_ok:
  fixes w :: "('c, 'e, 'u) ucx_world"
  assumes "store_inv w" "is_waiting w p"
  obtains v where "complete_request (ucx_extern f) p w = Inr v" "store_inv v" "finished v p"
    "uenv v = ucall_of f w p (uenv w)" "ustatic v = ustatic w" "handles v = handles w"
    "\<And>x. x \<noteq> p \<Longrightarrow> heap v x = heap w x" "\<not> pending v p"
proof -
  obtain v where v: "complete_request (ucx_extern f) p w = Inr v" "store_inv v" "finished v p"
    "off_store v = effect_of (ucx_extern f) w p (off_store w)" "handles v = handles w"
    "\<And>x. x \<noteq> p \<Longrightarrow> heap v x = heap w x"
    by (rule complete_request_outside [OF assms, of "ucx_extern f", unfolded ucx_extern_outside]) (rule that)
  moreover have "\<not> pending v p"
    using v(3) by (auto simp: finished_def pending_def split: option.splits)
  ultimately show thesis
    using effect_ucx [OF v(4)] by (intro that [of v]) simp_all
qed

section \<open>The invariant\<close>

text \<open>The request a UCX request belongs to, and the places a request can be held in.\<close>

definition target :: "('c, 'e, 'u) ucx_world \<Rightarrow> nat \<Rightarrow> ptr option" where
  "target w r = (case rd_req (u_data w r) of Some p \<Rightarrow> Some p | None \<Rightarrow> rd_shared_req (u_data w r))"

datatype place = At_req nat | In_queue ready_queue

fun held :: "('c, 'e, 'u) ucx_world \<Rightarrow> place \<Rightarrow> ptr \<Rightarrow> bool" where
  "held w (At_req r) p \<longleftrightarrow> target w r = Some p"
| "held w (In_queue q) p \<longleftrightarrow> p \<in> set (ready_list q w)"

text \<open>The requests whose cancellation UCX has reported.\<close>

definition cancelled :: "('c, 'e, 'u) ucx_world \<Rightarrow> ptr \<Rightarrow> bool" where
  "cancelled w p \<longleftrightarrow> (\<exists>c. p \<in> set (cancel_req_queue w c)) \<or> p \<in> set (ctx_cancel_queue w)"

text \<open>They stand in the queue of their communicator, or of the context.\<close>

definition cancel_unique :: "('c, 'e, 'u) ucx_world \<Rightarrow> bool" where
  "cancel_unique w \<longleftrightarrow>
     (\<forall>c. \<forall>p \<in> set (cancel_req_queue w c). c = m_comm (state_of w p) \<and> p \<notin> set (ctx_cancel_queue w))"

lemma cancel_unique_cong:
  assumes "cancel_unique w" "cancel_req_queue v = cancel_req_queue w" "ctx_cancel_queue v = ctx_cancel_queue w"
    "\<And>p. cancelled w p \<Longrightarrow> state_of v p = state_of w p"
  shows "cancel_unique v"
  unfolding cancel_unique_def
proof (intro allI ballI)
  fix c p assume "p \<in> set (cancel_req_queue v c)"
  then have p: "p \<in> set (cancel_req_queue w c)"
    using assms(2) by simp
  then have "state_of v p = state_of w p"
    by (intro assms(4)) (auto simp: cancelled_def)
  then show "c = m_comm (state_of v p) \<and> p \<notin> set (ctx_cancel_queue v)"
    using assms(1,3) p by (auto simp: cancel_unique_def)
qed

text \<open>\<open>uinv vw X E w\<close>: \<open>X\<close> are waiting requests that are held in no place because they are being
  completed; \<open>E\<close> are UCX requests whose completion has been reported but not processed yet.\<close>

definition places_inv :: "ptr set \<Rightarrow> ('c, 'e, 'u) ucx_world \<Rightarrow> bool" where
  "places_inv X w \<longleftrightarrow>
     (\<forall>a b p. held w a p \<longrightarrow> held w b p \<longrightarrow> a = b) \<and>
     (\<forall>a p. held w a p \<longrightarrow> is_waiting w p \<and> p \<notin> X) \<and>
     (\<forall>p \<in> X. is_waiting w p) \<and>
     (\<forall>p. pending w p \<longrightarrow> p \<in> X \<or> (\<exists>a. held w a p)) \<and>
     (\<forall>q. distinct (ready_list q w))"

definition memory_inv :: "'u ucx_view \<Rightarrow> nat set \<Rightarrow> ('c, 'e, 'u) ucx_world \<Rightarrow> bool" where
  "memory_inv vw E w \<longleftrightarrow>
     u_live w = alloc vw (ucx w) \<and>
     (\<forall>r. \<not> u_live w r \<longrightarrow> u_data w r = rd_destroyed) \<and>
     (\<forall>r. out vw (ucx w) r \<or> r \<in> E \<longrightarrow> target w r \<noteq> None) \<and>
     (\<forall>r p. target w r = Some p \<longrightarrow>
        m_ucx_ptr (state_of w p) = Ucs_ptr r \<and>
        (if out vw (ucx w) r then r \<notin> E \<and> \<not> cancelled w p else (r \<in> E) \<noteq> cancelled w p)) \<and>
     (\<forall>p. cancelled w p \<longrightarrow> (\<exists>r. target w r = Some p)) \<and> cancel_unique w"

definition uinv :: "'u ucx_view \<Rightarrow> ptr set \<Rightarrow> nat set \<Rightarrow> ('c, 'e, 'u) ucx_world \<Rightarrow> bool" where
  "uinv vw X E w \<longleftrightarrow> store_inv w \<and> places_inv X w \<and> memory_inv vw E w"

lemma set_ready_simps [simp]:
  "ready_list q' (set_ready q xs w) = (if q' = q then xs else ready_list q' w)"
  "heap (set_ready q xs w) = heap w" "counters (set_ready q xs w) = counters w" "handles (set_ready q xs w) = handles w"
  "u_data (set_ready q xs w) = u_data w" "u_live (set_ready q xs w) = u_live w" "ucx (set_ready q xs w) = ucx w"
  "cancel_req_queue (set_ready q xs w) = cancel_req_queue w" "ctx_cancel_queue (set_ready q xs w) = ctx_cancel_queue w"
  "u_thread_safe (set_ready q xs w) = u_thread_safe w" "mutex_locked (set_ready q xs w) = mutex_locked w"
  "api (set_ready q xs w) = api w" "app (set_ready q xs w) = app w" "cancel_found (set_ready q xs w) = cancel_found w"
  by (cases q; cases q'; simp)+

lemma ready_list_cong:
  "send_req_queue v = send_req_queue w \<Longrightarrow> recv_req_queue v = recv_req_queue w \<Longrightarrow> ctx_recv_queue v = ctx_recv_queue w \<Longrightarrow>
     ready_list q v = ready_list q w"
  by (cases q) simp_all

lemma target_cong: "u_data v r = u_data w r \<Longrightarrow> target v r = target w r"
  by (simp only: target_def)

lemma target_destroyed: "u_data w r = rd_destroyed \<Longrightarrow> target w r = None"
  by (simp add: target_def rd_destroyed_def)

lemma held_cong:
  "u_data v = u_data w \<Longrightarrow> (\<And>q. ready_list q v = ready_list q w) \<Longrightarrow> held v a p \<longleftrightarrow> held w a p"
  using target_cong [of v _ w] by (cases a) simp_all

lemma store_inv_heap_cong:
  "heap v = heap w \<Longrightarrow> counters v = counters w \<Longrightarrow> handles v = handles w \<Longrightarrow> store_inv w \<Longrightarrow> store_inv v"
  using store_inv_cong by blast

lemma uinvI:
  assumes "store_inv w" "places_inv X w" "memory_inv vw E w"
  shows "uinv vw X E w"
  using assms by (simp add: uinv_def)

lemma uinvD:
  assumes "uinv vw X E w"
  shows "store_inv w" "places_inv X w" "memory_inv vw E w"
  using assms by (simp_all add: uinv_def)

lemma placesD:
  assumes "places_inv X w"
  shows "held w a p \<Longrightarrow> held w b p \<Longrightarrow> a = b" "held w a p \<Longrightarrow> is_waiting w p" "held w a p \<Longrightarrow> p \<notin> X"
    "p \<in> X \<Longrightarrow> is_waiting w p" "pending w p \<Longrightarrow> p \<notin> X \<Longrightarrow> \<exists>a. held w a p" "distinct (ready_list q w)"
  using assms unfolding places_inv_def by blast+

lemma memoryD:
  assumes "memory_inv vw E w"
  shows "u_live w = alloc vw (ucx w)" "\<not> u_live w r \<Longrightarrow> u_data w r = rd_destroyed"
    "out vw (ucx w) r \<Longrightarrow> target w r \<noteq> None" "r \<in> E \<Longrightarrow> target w r \<noteq> None"
    "target w r = Some p \<Longrightarrow> m_ucx_ptr (state_of w p) = Ucs_ptr r"
    "target w r = Some p \<Longrightarrow> out vw (ucx w) r \<Longrightarrow> r \<notin> E \<and> \<not> cancelled w p"
    "target w r = Some p \<Longrightarrow> \<not> out vw (ucx w) r \<Longrightarrow> (r \<in> E) \<noteq> cancelled w p"
    "cancelled w p \<Longrightarrow> \<exists>r. target w r = Some p" "cancel_unique w"
  using assms unfolding memory_inv_def by metis+

lemma target_live: "memory_inv vw E w \<Longrightarrow> target w r = Some p \<Longrightarrow> u_live w r"
  using memoryD(2) [of vw E w r] target_destroyed [of w r] by (cases "u_live w r") auto

section \<open>How operations change it\<close>

text \<open>A loose request completes or is cancelled.\<close>

lemma uinv_completed:
  assumes inv: "uinv vw (insert p X) E w" and p: "p \<notin> X" and v: "store_inv v" "ustatic v = ustatic w" "\<not> pending v p"
    and h: "\<And>x. x \<noteq> p \<Longrightarrow> heap v x = heap w x"
  shows "uinv vw X E v"
proof (rule uinvI [OF v(1)])
  note i = uinvD [OF inv]
  have hd: "held v a y \<longleftrightarrow> held w a y" for a y
    using v(2) by (intro held_cong ready_list_cong) (simp_all add: ustatic_fields)
  have rl: "ready_list q v = ready_list q w" for q
    using v(2) by (intro ready_list_cong) (simp_all add: ustatic_fields)
  have tg: "target v r = target w r" for r
    using v(2) by (intro target_cong) (simp add: ustatic_fields)
  have np: "y \<noteq> p" if "held w a y" for a y
    using placesD(3) [OF i(2) that] by blast
  have wt: "is_waiting v y \<longleftrightarrow> is_waiting w y" "pending v y \<longleftrightarrow> pending w y" "state_of v y = state_of w y" if "y \<noteq> p" for y
    using h [OF that] by (simp_all add: is_waiting_def pending_def state_of_def)
  show "places_inv X v"
    unfolding places_inv_def hd rl
  proof (intro conjI allI impI ballI)
    show "a = b" if "held w a y" "held w b y" for a b y
      using placesD(1) [OF i(2) that] .
    show "is_waiting v y" "y \<notin> X" if "held w a y" for a y
      using placesD(2,3) [OF i(2) that] wt(1) [OF np [OF that]] by auto
    show "is_waiting v y" if "y \<in> X" for y
      using placesD(4) [OF i(2), of y] that p wt(1) [of y] by auto
    show "y \<in> X \<or> (\<exists>a. held w a y)" if "pending v y" for y
      using placesD(5) [OF i(2), of y] that v(3) wt(2) [of y] by auto
    show "distinct (ready_list q w)" for q
      using placesD(6) [OF i(2)] .
  qed
  have st: "state_of v y = state_of w y" if "target w r = Some y" for r y
    using wt(3) np [of "At_req r" y] that by simp
  have "cancelled v = cancelled w"
    using v(2) by (simp add: ustatic_fields cancelled_def fun_eq_iff)
  moreover have "cancel_unique v"
  proof (rule cancel_unique_cong [OF memoryD(9) [OF i(3)]])
    show "state_of v y = state_of w y" if "cancelled w y" for y
      using memoryD(8) [OF i(3) that] st by blast
  qed (use v(2) in \<open>simp_all add: ustatic_fields\<close>)
  ultimately show "memory_inv vw E v"
    using i(3) st v(2) unfolding memory_inv_def tg by (simp add: ustatic_fields)
qed

text \<open>The memory of a reported UCX request is released: its request is loose.\<close>

definition detach :: "'u ucx_lib \<Rightarrow> nat \<Rightarrow> ('c, 'e, 'u) ucx_world \<Rightarrow> ('c, 'e, 'u) ucx_world" where
  "detach lib r w = w\<lparr>u_data := (u_data w)(r := rd_destroyed), u_live := (u_live w)(r := False),
     ucx := ucp_request_free lib r (ucx w)\<rparr>"

lemma detach_simps [simp]:
  "heap (detach lib r w) = heap w" "counters (detach lib r w) = counters w" "handles (detach lib r w) = handles w"
  "u_thread_safe (detach lib r w) = u_thread_safe w" "uenv (detach lib r w) = uenv w"
  "u_data (detach lib r w) = (u_data w)(r := rd_destroyed)" "u_live (detach lib r w) = (u_live w)(r := False)"
  "ucx (detach lib r w) = ucp_request_free lib r (ucx w)" "cancelled (detach lib r w) p = cancelled w p"
  "cancel_req_queue (detach lib r w) = cancel_req_queue w" "ctx_cancel_queue (detach lib r w) = ctx_cancel_queue w"
  "mutex_locked (detach lib r w) = mutex_locked w" "cancel_found (detach lib r w) = cancel_found w"
  by (simp_all add: detach_def uenv_def cancelled_def)

lemma detach_ready [simp]: "ready_list q (detach lib r w) = ready_list q w"
  by (cases q) (simp_all add: detach_def)

lemma detach_eq: "u_live w r \<Longrightarrow> bind_res (rd_set r rd_destroyed w) (request_free lib r) = Inr (detach lib r w)"
  by (simp add: rd_set_def request_free_def detach_def)

lemma uinv_detach_gen:
  assumes inv: "uinv vw X E w" and ok: "ucx_ok lib vw" and t: "target w r = Some p" and o: "\<not> out vw (ucx w) r"
    and c: "cancelled v = (\<lambda>x. cancelled w x \<and> x \<noteq> p)" "cancel_unique v" and v: "store_inv v"
    and d: "u_data v = (u_data w)(r := rd_destroyed)" "u_live v = (u_live w)(r := False)" "ucx v = ucp_request_free lib r (ucx w)"
      "\<And>q. ready_list q v = ready_list q w" "heap v = heap w"
  shows "uinv vw (insert p X) (E - {r}) v" "p \<notin> X" "is_waiting w p"
proof -
  note i = uinvD [OF inv]
  have hp: "held w (At_req r) p"
    using t by simp
  show px: "p \<notin> X" "is_waiting w p"
    using placesD(2,3) [OF i(2) hp] by auto
  have tg: "target v x = (if x = r then None else target w x)" for x
    using d(1) target_destroyed [of v r] target_cong [of v x w] by simp
  have hd: "held v a y \<longleftrightarrow> held w a y \<and> a \<noteq> At_req r" for a y
    using d(4) tg by (cases a) auto
  have hv: "is_waiting v y \<longleftrightarrow> is_waiting w y" "pending v y \<longleftrightarrow> pending w y" "state_of v y = state_of w y" for y
    using d(5) by (simp_all add: is_waiting_def pending_def state_of_def)
  have np: "y \<noteq> p" if "held w a y" "a \<noteq> At_req r" for a y
    using placesD(1) [OF i(2) hp] that by blast
  show "uinv vw (insert p X) (E - {r}) v"
  proof (rule uinvI [OF v])
    show "places_inv (insert p X) v"
      unfolding places_inv_def hd hv d(4)
    proof (intro conjI allI impI ballI)
      show "a = b" if "held w a y \<and> a \<noteq> At_req r" "held w b y \<and> b \<noteq> At_req r" for a b y
        using placesD(1) [OF i(2)] that by blast
      show "is_waiting w y" "y \<notin> insert p X" if "held w a y \<and> a \<noteq> At_req r" for a y
        using placesD(2,3) [OF i(2), of a y] that np by auto
      show "is_waiting w y" if "y \<in> insert p X" for y
        using placesD(4) [OF i(2), of y] that px(2) by auto
      show "y \<in> insert p X \<or> (\<exists>a. held w a y \<and> a \<noteq> At_req r)" if pw: "pending w y" for y
      proof (cases "y \<in> insert p X")
        case False
        then obtain a where a: "held w a y"
          using placesD(5) [OF i(2) pw] by blast
        then have "a \<noteq> At_req r"
          using t False by auto
        with a show ?thesis
          by blast
      qed simp
      show "distinct (ready_list q w)" for q
        using placesD(6) [OF i(2)] .
    qed
    have ow: "out vw (ucx v) = out vw (ucx w)" "alloc vw (ucx v) = (alloc vw (ucx w))(r := False)"
      using ok d(3) by (simp_all add: ucx_ok_def)
    show "memory_inv vw (E - {r}) v"
      unfolding memory_inv_def ow tg hv(3)
    proof (intro conjI allI impI)
      show "u_live v = (alloc vw (ucx w))(r := False)"
        using memoryD(1) [OF i(3)] d(2) by simp
      show "u_data v x = rd_destroyed" if "\<not> u_live v x" for x
        using memoryD(2) [OF i(3), of x] that d(1,2) by (auto split: if_splits)
      show "(if x = r then None else target w x) \<noteq> None" if "out vw (ucx w) x \<or> x \<in> E - {r}" for x
        using memoryD(3,4) [OF i(3), of x] that o by auto
      fix x y assume a: "(if x = r then None else target w x) = Some y"
      then have x: "x \<noteq> r" "target w x = Some y"
        by (auto split: if_splits)
      have y: "y \<noteq> p"
        using np [of "At_req x" y] x by simp
      show "m_ucx_ptr (state_of w y) = Ucs_ptr x"
        using memoryD(5) [OF i(3) x(2)] .
      show "if out vw (ucx w) x then x \<notin> E - {r} \<and> \<not> cancelled v y else (x \<in> E - {r}) \<noteq> cancelled v y"
        using memoryD(6,7) [OF i(3) x(2)] x(1) y c(1) by auto
    next
      fix y assume "cancelled v y"
      then obtain x where "target w x = Some y" "y \<noteq> p"
        using memoryD(8) [OF i(3), of y] c(1) by auto
      then show "\<exists>x. (if x = r then None else target w x) = Some y"
        using t by (intro exI [of _ x]) auto
    next
      show "cancel_unique v"
        by (rule c(2))
    qed
  qed
qed

lemma uinv_detach:
  assumes inv: "uinv vw X E w" and ok: "ucx_ok lib vw" and r: "r \<in> E"
  obtains p where "target w r = Some p" "uinv vw (insert p X) (E - {r}) (detach lib r w)" "p \<notin> X" "is_waiting w p"
proof -
  note i = uinvD [OF inv]
  obtain p where p: "target w r = Some p"
    using memoryD(4) [OF i(3) r] by blast
  have o: "\<not> out vw (ucx w) r" "\<not> cancelled w p"
    using memoryD(6,7) [OF i(3) p] r by blast+
  have c: "cancelled (detach lib r w) = (\<lambda>x. cancelled w x \<and> x \<noteq> p)"
    using o(2) by (auto simp: fun_eq_iff)
  have u: "cancel_unique (detach lib r w)"
    by (rule cancel_unique_cong [OF memoryD(9) [OF i(3)]]) (simp_all add: state_of_def)
  have "store_inv (detach lib r w)"
    by (rule store_inv_heap_cong [OF _ _ _ i(1)]) simp_all
  from uinv_detach_gen [OF inv ok p o(1) c u this] show thesis
    by (intro that [OF p]) simp_all
qed

text \<open>A loose request is pushed to a queue, and popped from it.\<close>

lemma uinv_push:
  assumes inv: "uinv vw (insert p X) E w" and p: "p \<notin> X" and rl: "\<And>x. ready_list x v = (if x = q then ready_list x w @ [p] else ready_list x w)"
    and v: "heap v = heap w" "counters v = counters w" "handles v = handles w" "u_data v = u_data w" "u_live v = u_live w"
      "ucx v = ucx w" "cancel_req_queue v = cancel_req_queue w" "ctx_cancel_queue v = ctx_cancel_queue w"
  shows "uinv vw X E v"
proof -
  note i = uinvD [OF inv]
  have np: "\<not> held w a p" for a
    using placesD(3) [OF i(2)] by blast
  have tg: "target v r = target w r" for r
    using v(4) by (intro target_cong) simp
  have hd: "held v a y \<longleftrightarrow> held w a y \<or> a = In_queue q \<and> y = p" for a y
    using rl tg by (cases a) auto
  have hv: "is_waiting v y \<longleftrightarrow> is_waiting w y" "pending v y \<longleftrightarrow> pending w y" "state_of v y = state_of w y" for y
    using v(1) by (simp_all add: is_waiting_def pending_def state_of_def)
  have pl: "places_inv X v"
    unfolding places_inv_def hd hv
  proof (intro conjI allI impI ballI)
    show "a = b" if "held w a y \<or> a = In_queue q \<and> y = p" "held w b y \<or> b = In_queue q \<and> y = p" for a b y
      using that np placesD(1) [OF i(2)] by blast
    show "is_waiting w y" "y \<notin> X" if "held w a y \<or> a = In_queue q \<and> y = p" for a y
      using that placesD(2,3,4) [OF i(2)] p by blast+
    show "is_waiting w y" if "y \<in> X" for y
      using that placesD(4) [OF i(2)] by blast
    show "y \<in> X \<or> (\<exists>a. held w a y \<or> a = In_queue q \<and> y = p)" if "pending w y" for y
      using that placesD(5) [OF i(2)] by blast
    show "distinct (ready_list x v)" for x
      using placesD(6) [OF i(2), of x] np [of "In_queue q"] rl by (cases "x = q") simp_all
  qed
  have "cancelled v = cancelled w"
    using v(7,8) by (simp add: cancelled_def fun_eq_iff)
  moreover have "cancel_unique v"
    by (rule cancel_unique_cong [OF memoryD(9) [OF i(3)] v(7,8) hv(3)])
  ultimately have "memory_inv vw E v"
    using i(3) v(5,6) unfolding memory_inv_def tg hv by (simp add: v(4))
  moreover have "store_inv v"
    by (rule store_inv_heap_cong [OF v(1-3) i(1)])
  ultimately show ?thesis
    by (intro uinvI pl)
qed

lemma uinv_pop:
  assumes inv: "uinv vw X E w" and q: "ready_list q w = p # ps"
  shows "uinv vw (insert p X) E (set_ready q ps w)" "p \<notin> X" "is_waiting w p"
proof -
  note i = uinvD [OF inv]
  let ?v = "set_ready q ps w"
  have hp: "held w (In_queue q) p"
    using q by simp
  show px: "p \<notin> X" "is_waiting w p"
    using placesD(2,3) [OF i(2) hp] by auto
  have dq: "p \<notin> set ps"
    using placesD(6) [OF i(2), of q] q by simp
  have tg: "target ?v r = target w r" for r
    by (intro target_cong) simp
  have hd: "held ?v a y \<longleftrightarrow> held w a y \<and> y \<noteq> p" for a y
    using placesD(1) [OF i(2) hp, of "At_req _"] placesD(1) [OF i(2) hp, of "In_queue _"] dq q tg
    by (cases a) (auto simp del: set_ready.simps split: if_splits)
  have hv: "is_waiting ?v y \<longleftrightarrow> is_waiting w y" "pending ?v y \<longleftrightarrow> pending w y" "state_of ?v y = state_of w y" for y
    by (simp_all add: is_waiting_def pending_def state_of_def)
  have pl: "places_inv (insert p X) ?v"
    unfolding places_inv_def hd hv
  proof (intro conjI allI impI ballI)
    show "a = b" if "held w a y \<and> y \<noteq> p" "held w b y \<and> y \<noteq> p" for a b y
      using that placesD(1) [OF i(2)] by blast
    show "is_waiting w y" "y \<notin> insert p X" if "held w a y \<and> y \<noteq> p" for a y
      using that placesD(2,3) [OF i(2)] by blast+
    show "is_waiting w y" if "y \<in> insert p X" for y
      using that placesD(4) [OF i(2)] px by blast
    show "y \<in> insert p X \<or> (\<exists>a. held w a y \<and> y \<noteq> p)" if "pending w y" for y
      using that placesD(5) [OF i(2)] by blast
    show "distinct (ready_list x ?v)" for x
      using placesD(6) [OF i(2), of x] q by (auto simp del: set_ready.simps)
  qed
  have "cancelled ?v = cancelled w"
    by (simp add: cancelled_def fun_eq_iff)
  moreover have "cancel_unique ?v"
    by (rule cancel_unique_cong [OF memoryD(9) [OF i(3)] _ _ hv(3)]) simp_all
  ultimately have "memory_inv vw E ?v"
    using i(3) unfolding memory_inv_def tg hv by simp
  moreover have "store_inv ?v"
    by (rule store_inv_heap_cong [OF _ _ _ i(1)]) simp_all
  ultimately show "uinv vw (insert p X) E ?v"
    by (intro uinvI pl)
qed

text \<open>UCX reports a cancellation: the request joins the cancelled ones.\<close>

lemma uinv_cancel_event:
  assumes inv: "uinv vw X E w" and r: "r \<in> E" "target w r = Some p" and c: "\<And>y. cancelled v y \<longleftrightarrow> cancelled w y \<or> y = p"
    and cu: "cancel_unique v"
    and v: "heap v = heap w" "counters v = counters w" "handles v = handles w" "u_data v = u_data w" "u_live v = u_live w"
      "ucx v = ucx w" "\<And>q. ready_list q v = ready_list q w"
  shows "uinv vw X (E - {r}) v"
proof -
  note i = uinvD [OF inv]
  have tg: "target v r = target w r" for r
    using v(4) by (intro target_cong) simp
  have hd: "held v a y \<longleftrightarrow> held w a y" for a y
    by (rule held_cong [OF v(4,7)])
  have hv: "is_waiting v y \<longleftrightarrow> is_waiting w y" "pending v y \<longleftrightarrow> pending w y" "state_of v y = state_of w y" for y
    using v(1) by (simp_all add: is_waiting_def pending_def state_of_def)
  have "places_inv X v"
    using i(2) unfolding places_inv_def hd hv v(7) .
  moreover have "memory_inv vw (E - {r}) v"
    unfolding memory_inv_def tg hv c v(4,5,6)
  proof (intro conjI allI impI)
    show "u_live w = alloc vw (ucx w)" "\<not> u_live w x \<Longrightarrow> u_data w x = rd_destroyed" for x
      using memoryD(1,2) [OF i(3)] by blast+
    show "target w x \<noteq> None" if "out vw (ucx w) x \<or> x \<in> E - {r}" for x
      using memoryD(3,4) [OF i(3), of x] that by blast
    fix x y assume x: "target w x = Some y"
    show "m_ucx_ptr (state_of w y) = Ucs_ptr x"
      using memoryD(5) [OF i(3) x] .
    have "x = r" if "y = p"
      using placesD(1) [OF i(2), of "At_req x" p "At_req r"] x r(2) that by simp
    moreover have "y = p" if "x = r"
      using x r(2) that by simp
    ultimately show "if out vw (ucx w) x then x \<notin> E - {r} \<and> \<not> (cancelled w y \<or> y = p) else (x \<in> E - {r}) \<noteq> (cancelled w y \<or> y = p)"
      using memoryD(6,7) [OF i(3) x] memoryD(6) [OF i(3) r(2)] r(1) by auto
  next
    show "\<exists>x. target w x = Some y" if "cancelled w y \<or> y = p" for y
      using memoryD(8) [OF i(3), of y] that r(2) by blast
    show "cancel_unique v"
      by (rule cu)
  qed
  moreover have "store_inv v"
    by (rule store_inv_heap_cong [OF v(1-3) i(1)])
  ultimately show ?thesis
    by (intro uinvI)
qed

section \<open>Completion events\<close>

text \<open>What processing of events leaves alone.  Only a thread safe context uses the queues of receives.\<close>

definition uframe :: "'u ucx_view \<Rightarrow> ('c, 'e, 'u) ucx_world \<Rightarrow> ('c, 'e, 'u) ucx_world \<Rightarrow> bool" where
  "uframe vw w v \<longleftrightarrow> work vw (ucx v) \<le> work vw (ucx w) \<and> u_thread_safe v = u_thread_safe w \<and>
     mutex_locked v = mutex_locked w \<and> cancel_found v = cancel_found w \<and> handles v = handles w \<and>
     (\<not> u_thread_safe w \<longrightarrow> recv_req_queue v = recv_req_queue w)"

lemma uframe_trans: "uframe vw u v \<Longrightarrow> uframe vw v w \<Longrightarrow> uframe vw u w"
  by (auto simp: uframe_def)

lemma uframe_refl [simp]: "uframe vw w w"
  by (simp add: uframe_def)

text \<open>The requests whose callback is called while an event is processed.\<close>

fun event_calls :: "('c, 'e, 'u) ucx_world \<Rightarrow> ucx_event \<Rightarrow> ptr list" where
  "event_calls w (Send_event r st) = [the (target w r)]"
| "event_calls w (Recv_event r st) =
     (if st = UCS_OK \<and> \<not> u_thread_safe w \<and> rd_req (u_data w r) \<noteq> None then [the (target w r)] else [])"

text \<open>One event: the reported request is completed, queued for completion, or queued as cancelled.\<close>

definition event_done ::
    "'u ucx_view \<Rightarrow> ('c \<Rightarrow> rank_type \<Rightarrow> tag_type \<Rightarrow> api_state \<times> 'e \<Rightarrow> api_state \<times> 'e) \<Rightarrow> ptr set \<Rightarrow> nat set \<Rightarrow> ucx_event \<Rightarrow>
     ('c, 'e, 'u) ucx_world \<Rightarrow> ('c, 'e, 'u) ucx_world \<Rightarrow> bool" where
  "event_done vw f X E e w v \<longleftrightarrow>
     uinv vw X (E - {event_request e}) v \<and> uframe vw w v \<and>
     uenv v = fold (ucall_of f w) (event_calls w e) (uenv w) \<and>
     (\<forall>x. x \<noteq> event_request e \<longrightarrow> u_data v x = u_data w x) \<and>
     (\<forall>y. target w (event_request e) \<noteq> Some y \<longrightarrow> heap v y = heap w y)"

lemma complete_detached:
  fixes w :: "('c, 'e, 'u) ucx_world"
  assumes inv: "uinv vw X E w" and ok: "ucx_ok lib vw" and r: "r \<in> E" "target w r = Some p"
  obtains v where "complete_request (ucx_extern f) p w = Inr v" "ustatic v = ustatic w"
    "uinv vw X (E - {r}) (detach lib r v)" "uframe vw w (detach lib r v)" "uenv v = ucall_of f w p (uenv w)"
    "\<And>x. x \<noteq> p \<Longrightarrow> heap v x = heap w x"
proof -
  obtain p' where "target w r = Some p'" "uinv vw (insert p' X) (E - {r}) (detach lib r w)" "p' \<notin> X" "is_waiting w p'"
    by (rule uinv_detach [OF inv ok r(1)])
  then have d: "uinv vw (insert p X) (E - {r}) (detach lib r w)" "p \<notin> X" "is_waiting w p"
    using r(2) by simp_all
  obtain v where v: "complete_request (ucx_extern f) p w = Inr v" "store_inv v" "finished v p"
    "uenv v = ucall_of f w p (uenv w)" "ustatic v = ustatic w" "handles v = handles w"
    "\<And>x. x \<noteq> p \<Longrightarrow> heap v x = heap w x" "\<not> pending v p"
    by (rule ucx_complete_ok [OF uinvD(1) [OF inv] d(3), of f]) (rule that)
  have "uinv vw X (E - {r}) (detach lib r v)"
  proof (rule uinv_completed [OF d(1,2)])
    show "store_inv (detach lib r v)"
      by (rule store_inv_heap_cong [OF _ _ _ v(2)]) simp_all
    show "ustatic (detach lib r v) = ustatic (detach lib r w)"
      using v(5) by (simp add: ustatic_fields detach_def)
  qed (use v(7,8) in \<open>simp_all add: pending_def\<close>)
  moreover have "uframe vw w (detach lib r v)"
    using v(5,6) ok by (simp add: uframe_def ustatic_fields detach_def ucx_ok_def)
  ultimately show thesis
    using v by (intro that [of v]) simp_all
qed

lemma send_callback_ok:
  fixes w :: "('c, 'e, 'u) ucx_world"
  assumes inv: "uinv vw X E w" and ok: "ucx_ok lib vw" and r: "r \<in> E"
  shows "\<exists>v. send_callback lib (ucx_extern f) r UCS_OK w = Inr v \<and> event_done vw f X E (Send_event r UCS_OK) w v"
proof -
  obtain p where p: "target w r = Some p"
    using memoryD(4) [OF uinvD(3) [OF inv] r] by blast
  have lv: "u_live w r"
    by (rule target_live [OF uinvD(3) [OF inv] p])
  obtain v where v: "complete_request (ucx_extern f) p w = Inr v" "ustatic v = ustatic w"
    "uinv vw X (E - {r}) (detach lib r v)" "uframe vw w (detach lib r v)" "uenv v = ucall_of f w p (uenv w)"
    "\<And>x. x \<noteq> p \<Longrightarrow> heap v x = heap w x"
    by (rule complete_detached [OF inv ok r p, of f]) (rule that)
  have "send_callback lib (ucx_extern f) r UCS_OK w = Inr (detach lib r v)"
    using lv p v(1,2) detach_eq [of v r lib]
    by (auto simp: send_callback_def rd_get_def target_def ustatic_fields split: option.splits)
  moreover have "event_done vw f X E (Send_event r UCS_OK) w (detach lib r v)"
    using v p by (auto simp: event_done_def ustatic_fields)
  ultimately show ?thesis
    by blast
qed

lemma recv_callback_ok:
  fixes w :: "('c, 'e, 'u) ucx_world"
  assumes inv: "uinv vw X E w" and ok: "ucx_ok lib vw" and r: "r \<in> E"
  shows "\<exists>v. recv_callback lib (ucx_extern f) r UCS_OK w = Inr v \<and> event_done vw f X E (Recv_event r UCS_OK) w v"
proof -
  obtain p where p: "target w r = Some p" and d: "uinv vw (insert p X) (E - {r}) (detach lib r w)" "p \<notin> X" "is_waiting w p"
    by (rule uinv_detach [OF inv ok r])
  have lv: "u_live w r"
    by (rule target_live [OF uinvD(3) [OF inv] p])
  obtain b where b: "heap w p = Some b"
    using d(3) by (auto simp: is_waiting_heap)
  have de: "bind_res (rd_set r rd_destroyed w) (\<lambda>w. bind_res (request_free lib r w) k) = k (detach lib r w)"
    for k :: "('c, 'e, 'u) ucx_world \<Rightarrow> ('c, 'e, 'u) ucx_world result"
    using lv by (simp add: rd_set_def request_free_def detach_def)
  have ne: "\<not> rd_empty (u_data w r)"
    using p by (auto simp: rd_empty_def target_def split: option.splits)
  have wk: "work vw (ucp_request_free lib r (ucx w)) \<le> work vw (ucx w)"
    using ok by (simp add: ucx_ok_def)
  have queued: "event_done vw f X E (Recv_event r UCS_OK) w v"
    if q: "\<And>x. ready_list x v = (if x = q then ready_list x w @ [p] else ready_list x w)"
      and s: "heap v = heap w" "counters v = counters w" "handles v = handles w" "u_data v = (u_data w)(r := rd_destroyed)"
        "u_live v = (u_live w)(r := False)" "ucx v = ucp_request_free lib r (ucx w)" "cancel_req_queue v = cancel_req_queue w"
        "ctx_cancel_queue v = ctx_cancel_queue w" "uenv v = uenv w" "u_thread_safe v = u_thread_safe w"
        "mutex_locked v = mutex_locked w" "cancel_found v = cancel_found w"
        "\<not> u_thread_safe w \<Longrightarrow> recv_req_queue v = recv_req_queue w"
      and n: "event_calls w (Recv_event r UCS_OK) = []" for q v
  proof -
    have "uinv vw X (E - {r}) v"
      by (rule uinv_push [OF d(1,2), where q = q]) (use q s in simp_all)
    then show ?thesis
      using s wk n by (simp add: event_done_def uframe_def)
  qed
  show ?thesis
  proof (cases "rd_req (u_data w r)")
    case None
    let ?v = "ctx_enqueue_recv p (detach lib r w)"
    have sh: "rd_shared_req (u_data w r) = Some p"
      using None p by (simp add: target_def)
    have "recv_callback lib (ucx_extern f) r UCS_OK w = Inr ?v"
      using lv ne None sh b by (simp add: recv_callback_def rd_get_def de load_state_def)
    moreover have "ready_list x ?v = (if x = Ctx_ready then ready_list x w @ [p] else ready_list x w)" for x
      by (cases x) (simp_all add: ctx_enqueue_recv_def detach_def)
    then have "event_done vw f X E (Recv_event r UCS_OK) w ?v"
      by (rule queued) (use None in \<open>simp_all add: ctx_enqueue_recv_def detach_def uenv_def\<close>)
    ultimately show ?thesis
      by blast
  next
    case (Some p')
    then have rq: "rd_req (u_data w r) = Some p"
      using p by (simp add: target_def)
    show ?thesis
    proof (cases "u_thread_safe w")
      case True
      let ?c = "m_comm (m_t b)" and ?v = "enqueue_recv (m_comm (m_t b)) p (detach lib r w)"
      have "recv_callback lib (ucx_extern f) r UCS_OK w = Inr ?v"
        using lv ne rq b True by (simp add: recv_callback_def rd_get_def de load_state_def)
      moreover have "ready_list x ?v = (if x = Recv_ready ?c then ready_list x w @ [p] else ready_list x w)" for x
        by (cases x) (simp_all add: enqueue_recv_def detach_def)
      then have "event_done vw f X E (Recv_event r UCS_OK) w ?v"
        by (rule queued) (use True in \<open>simp_all add: enqueue_recv_def detach_def uenv_def\<close>)
      ultimately show ?thesis
        by blast
    next
      case False
      have st: "store_inv (detach lib r w)" "is_waiting (detach lib r w) p"
        using uinvD(1) [OF d(1)] d(3) by (simp_all add: is_waiting_def)
      obtain v where v: "complete_request (ucx_extern f) p (detach lib r w) = Inr v" "store_inv v" "finished v p"
        "uenv v = ucall_of f (detach lib r w) p (uenv (detach lib r w))" "ustatic v = ustatic (detach lib r w)"
        "handles v = handles (detach lib r w)" "\<And>x. x \<noteq> p \<Longrightarrow> heap v x = heap (detach lib r w) x" "\<not> pending v p"
        by (rule ucx_complete_ok [OF st, of f]) (rule that)
      have "recv_callback lib (ucx_extern f) r UCS_OK w = Inr v"
        using lv ne rq b False v(1) by (simp add: recv_callback_def rd_get_def de load_state_def)
      moreover have "uinv vw X (E - {r}) v"
        by (rule uinv_completed [OF d(1,2) v(2,5,8,7)])
      moreover have "ucall_of f (detach lib r w) p = ucall_of f w p"
        by (simp add: ucall_of_def state_of_def)
      ultimately show ?thesis
        using v(4-7) wk rq p False by (auto simp: event_done_def uframe_def ustatic_fields detach_def uenv_def)
    qed
  qed
qed

end
