(* ===== verification/Ucx_Progress.thy ===== *)
theory Ucx_Progress
  imports Ucx_Invariant
begin

text \<open>
  Progress of the UCX transport: the completions a call of \<open>ucp_worker_progress\<close> reports, the loops
  that drain a worker and consume a queue, and the progress functions of communicator and context.
  They end, do not fail and keep the invariant.
\<close>

section \<open>Events\<close>

lemma ex_in_upd_append: "(\<exists>x. y \<in> set ((g(c := g c @ [p])) x)) \<longleftrightarrow> (\<exists>x. y \<in> set (g x)) \<or> y = p"
proof
  assume "(\<exists>x. y \<in> set (g x)) \<or> y = p"
  then consider x where "y \<in> set (g x)" | "y = p"
    by blast
  then show "\<exists>x. y \<in> set ((g(c := g c @ [p])) x)"
  proof cases
    case (1 x)
    then show ?thesis
      by (intro exI [of _ x]) auto
  next
    case 2
    then show ?thesis
      by (intro exI [of _ c]) simp
  qed
qed (auto split: if_splits)

lemma recv_cancelled_ok:
  fixes w :: "('c, 'e, 'u) ucx_world"
  assumes inv: "uinv vw X E w" and r: "r \<in> E"
  shows "\<exists>v. recv_callback lib cbk r UCS_ERR_CANCELED w = Inr v \<and> event_done vw f X E (Recv_event r UCS_ERR_CANCELED) w v"
proof -
  obtain p where p: "target w r = Some p"
    using memoryD(4) [OF uinvD(3) [OF inv] r] by blast
  have lv: "u_live w r"
    by (rule target_live [OF uinvD(3) [OF inv] p])
  have "is_waiting w p"
    using placesD(2) [OF uinvD(2) [OF inv], of "At_req r"] p by simp
  then obtain b where b: "heap w p = Some b"
    by (auto simp: is_waiting_heap)
  let ?v = "if rd_req (u_data w r) = None then ctx_enqueue_cancel_recv p w else enqueue_cancel_recv (m_comm (m_t b)) p w"
  have "recv_callback lib cbk r UCS_ERR_CANCELED w = Inr ?v"
    using lv p b
    by (auto simp: recv_callback_def rd_get_def target_def load_state_def UCS_OK_def UCS_ERR_CANCELED_def split: option.splits)
  moreover have c: "cancelled ?v y \<longleftrightarrow> cancelled w y \<or> y = p" for y
    using ex_in_upd_append [of y "cancel_req_queue w" "m_comm (m_t b)" p]
    by (auto simp: cancelled_def ctx_enqueue_cancel_recv_def enqueue_cancel_recv_def)
  have rl: "ready_list q ?v = ready_list q w" for q
    by (cases q) (simp_all add: ctx_enqueue_cancel_recv_def enqueue_cancel_recv_def)
  have nc: "\<not> cancelled w p"
    using memoryD(6,7) [OF uinvD(3) [OF inv] p] r by blast
  have "cancel_unique ?v"
    using memoryD(9) [OF uinvD(3) [OF inv]] nc b
    by (auto simp: cancel_unique_def cancelled_def state_of_def ctx_enqueue_cancel_recv_def enqueue_cancel_recv_def)
  then have "uinv vw X (E - {r}) ?v"
    by (rule uinv_cancel_event [OF inv r p c])
      (simp_all only: rl, simp_all add: ctx_enqueue_cancel_recv_def enqueue_cancel_recv_def)
  then have "event_done vw f X E (Recv_event r UCS_ERR_CANCELED) w ?v"
    by (simp add: event_done_def uframe_def uenv_def UCS_OK_def UCS_ERR_CANCELED_def
        ctx_enqueue_cancel_recv_def enqueue_cancel_recv_def)
  ultimately show ?thesis
    by blast
qed

lemma run_event_ok:
  assumes "uinv vw X E w" "ucx_ok lib vw" "event_request e \<in> E" "event_ok e"
  shows "\<exists>v. run_event lib (ucx_extern f) e w = Inr v \<and> event_done vw f X E e w v"
  using assms send_callback_ok [OF assms(1,2)] recv_callback_ok [OF assms(1,2)] recv_cancelled_ok [OF assms(1)]
  by (cases e) auto

lemma run_events_ok:
  assumes "uinv vw X (event_request ` set evs) w" "ucx_ok lib vw" "distinct (map event_request evs)" "\<forall>e \<in> set evs. event_ok e"
  shows "\<exists>v. fold_res (run_event lib (ucx_extern f)) evs w = Inr v \<and> uinv vw X {} v \<and> uframe vw w v \<and>
    uenv v = fold (ucall_of f w) (concat (map (event_calls w) evs)) (uenv w)"
  using assms
proof (induction evs arbitrary: w)
  case Nil
  then show ?case
    by simp
next
  case (Cons e evs)
  obtain v where v: "run_event lib (ucx_extern f) e w = Inr v" "event_done vw f X (event_request ` set (e # evs)) e w v"
    using run_event_ok [OF Cons.prems(1,2), of e f] Cons.prems(4) by auto
  have E: "event_request ` set (e # evs) - {event_request e} = event_request ` set evs"
    using Cons.prems(3) by auto
  have i: "uinv vw X (event_request ` set evs) v"
    using v(2) unfolding event_done_def E by blast
  have fr: "uframe vw w v" "uenv v = fold (ucall_of f w) (event_calls w e) (uenv w)"
    "\<And>x. x \<noteq> event_request e \<Longrightarrow> u_data v x = u_data w x" "\<And>y. target w (event_request e) \<noteq> Some y \<Longrightarrow> heap v y = heap w y"
    using v(2) by (simp_all add: event_done_def)
  have same: "event_calls v a = event_calls w a" "\<forall>y \<in> set (event_calls w a). ucall_of f v y = ucall_of f w y"
    if a: "a \<in> set evs" for a
  proof -
    have ne: "event_request a \<noteq> event_request e"
      using Cons.prems(3) imageI [OF a, of event_request] by auto
    have tg: "target v (event_request a) = target w (event_request a)"
      by (rule target_cong [OF fr(3) [OF ne]])
    then show "event_calls v a = event_calls w a"
      using fr(3) [OF ne] fr(1) by (cases a) (simp_all add: uframe_def)
    have "target w (event_request a) \<noteq> None"
      using memoryD(4) [OF uinvD(3) [OF Cons.prems(1)], of "event_request a"] a by simp
    then obtain y where y: "target w (event_request a) = Some y"
      by blast
    then have "target w (event_request e) \<noteq> Some y"
      using placesD(1) [OF uinvD(2) [OF Cons.prems(1)], of "At_req (event_request a)" y "At_req (event_request e)"] ne by auto
    then have "ucall_of f v y = ucall_of f w y"
      using state_of_cong [OF fr(4)] by (simp add: ucall_of_def)
    then show "\<forall>y \<in> set (event_calls w a). ucall_of f v y = ucall_of f w y"
      using y by (cases a) auto
  qed
  obtain u where u: "fold_res (run_event lib (ucx_extern f)) evs v = Inr u" "uinv vw X {} u" "uframe vw v u"
      "uenv u = fold (ucall_of f v) (concat (map (event_calls v) evs)) (uenv v)"
    using Cons.IH [OF i Cons.prems(2)] Cons.prems(3,4) by auto
  have "concat (map (event_calls v) evs) = concat (map (event_calls w) evs)"
    using same(1) by (intro arg_cong [of _ _ concat] map_cong) auto
  moreover have "fold (ucall_of f v) (concat (map (event_calls w) evs)) x = fold (ucall_of f w) (concat (map (event_calls w) evs)) x" for x
    using same(2) by (intro fold_cong) auto
  ultimately show ?case
    using v(1) u fr(1,2) uframe_trans by auto
qed

section \<open>Workers\<close>

lemma uinv_reported:
  assumes inv: "uinv vw {} {} w" and pr: "progress_ok vw (ucx w) ((b, evs), u)"
  shows "uinv vw {} (event_request ` set evs) (w\<lparr>ucx := u\<rparr>)"
proof -
  note i = uinvD [OF inv]
  let ?E = "event_request ` set evs" and ?v = "w\<lparr>ucx := u\<rparr>"
  have o: "out vw u = (\<lambda>r. out vw (ucx w) r \<and> r \<notin> ?E)" "alloc vw u = alloc vw (ucx w)" "\<And>r. r \<in> ?E \<Longrightarrow> out vw (ucx w) r"
    using pr by (auto simp: progress_ok_def)
  have tg: "target ?v r = target w r" "state_of ?v = state_of w" "cancelled ?v = cancelled w" for r
    by (rule target_cong) (simp_all add: state_of_def cancelled_def fun_eq_iff)
  have rl: "ready_list q ?v = ready_list q w" for q
    by (rule ready_list_cong) simp_all
  have hd: "held ?v a y \<longleftrightarrow> held w a y" for a y
    by (rule held_cong [OF _ rl]) simp
  have wt: "is_waiting ?v y \<longleftrightarrow> is_waiting w y" "pending ?v y \<longleftrightarrow> pending w y" for y
    by (simp_all add: is_waiting_def pending_def)
  have "places_inv {} ?v"
    using i(2) unfolding places_inv_def hd wt rl .
  moreover have "memory_inv vw ?E ?v"
    unfolding memory_inv_def tg
  proof (intro conjI allI impI)
    show "u_live ?v = alloc vw (ucx ?v)" "\<not> u_live ?v r \<Longrightarrow> u_data ?v r = rd_destroyed" for r
      using memoryD(1,2) [OF i(3)] o(2) by simp_all
    show "target w r \<noteq> None" if "out vw (ucx ?v) r \<or> r \<in> ?E" for r
      using memoryD(3) [OF i(3), of r] that o(1) o(3) [of r] by auto
    fix r p assume t: "target w r = Some p"
    show "m_ucx_ptr (state_of w p) = Ucs_ptr r"
      using memoryD(5) [OF i(3) t] .
    show "if out vw (ucx ?v) r then r \<notin> ?E \<and> \<not> cancelled w p else (r \<in> ?E) \<noteq> cancelled w p"
      using memoryD(6,7) [OF i(3) t] o(1) o(3) [of r] by auto
  next
    show "\<exists>r. target w r = Some p" if "cancelled w p" for p
      using memoryD(8) [OF i(3) that] .
    show "cancel_unique ?v"
      by (rule cancel_unique_cong [OF memoryD(9) [OF i(3)]]) (simp_all add: tg)
  qed
  moreover have "store_inv ?v"
    by (rule store_inv_heap_cong [OF _ _ _ i(1)]) simp_all
  ultimately show ?thesis
    by (intro uinvI)
qed

lemma worker_progress_ok:
  assumes inv: "uinv vw {} {} w" and ok: "ucx_ok lib vw" and l: "ucp_worker_progress lib wk (ucx w) = ((b, evs), u)"
  shows "\<exists>v. worker_progress lib (ucx_extern f) wk w = Inr (b, v) \<and> uinv vw {} {} v \<and> uframe vw w v \<and>
    (b \<longrightarrow> work vw (ucx v) < work vw (ucx w)) \<and>
    uenv v = fold (ucall_of f w) (concat (map (event_calls w) evs)) (uenv w)"
proof -
  have pr: "progress_ok vw (ucx w) ((b, evs), u)"
    using ok l unfolding ucx_ok_def by metis
  have e: "distinct (map event_request evs)" "\<forall>e \<in> set evs. event_ok e" "b \<longrightarrow> work vw u < work vw (ucx w)"
      "work vw u \<le> work vw (ucx w)"
    using pr by (auto simp: progress_ok_def)
  let ?w = "w\<lparr>ucx := u\<rparr>"
  obtain v where v: "fold_res (run_event lib (ucx_extern f)) evs ?w = Inr v" "uinv vw {} {} v" "uframe vw ?w v"
      "uenv v = fold (ucall_of f ?w) (concat (map (event_calls ?w) evs)) (uenv ?w)"
    using run_events_ok [OF uinv_reported [OF inv pr] ok e(1,2), of f] by blast
  have "event_calls ?w = event_calls w"
  proof
    show "event_calls ?w a = event_calls w a" for a
      using target_cong [of ?w _ w] by (cases a) simp_all
  qed
  moreover have "ucall_of f ?w = ucall_of f w" "uenv ?w = uenv w"
    by (simp_all add: ucall_of_def state_of_def uenv_def fun_eq_iff)
  ultimately have "uenv v = fold (ucall_of f w) (concat (map (event_calls w) evs)) (uenv w)"
    using v(4) by simp
  moreover have "uframe vw w v" "b \<longrightarrow> work vw (ucx v) < work vw (ucx w)"
    using v(3) e(3,4) by (auto simp: uframe_def)
  ultimately show ?thesis
    using v(1,2) l by (simp add: worker_progress_def)
qed

text \<open>Draining a worker ends.\<close>

lemma drain_worker_ok:
  assumes "uinv vw {} {} w" "ucx_ok lib vw"
  shows "\<exists>v. drain_worker lib (ucx_extern f) wk w = Some (Inr v) \<and> uinv vw {} {} v \<and> uframe vw w v"
  using assms(1)
proof (induction "work vw (ucx w)" arbitrary: w rule: less_induct)
  case less
  obtain b evs u where l: "ucp_worker_progress lib wk (ucx w) = ((b, evs), u)"
    by (metis prod.collapse)
  obtain v where v: "worker_progress lib (ucx_extern f) wk w = Inr (b, v)" "uinv vw {} {} v" "uframe vw w v"
      "b \<longrightarrow> work vw (ucx v) < work vw (ucx w)"
    using worker_progress_ok [OF less.prems assms(2) l, of f] by blast
  show ?case
  proof (cases b)
    case True
    then obtain x where "drain_worker lib (ucx_extern f) wk v = Some (Inr x)" "uinv vw {} {} x" "uframe vw v x"
      using less.hyps [OF _ v(2)] v(4) by blast
    then show ?thesis
      using True v uframe_trans by (subst drain_worker.simps) auto
  next
    case False
    then show ?thesis
      using v by (subst drain_worker.simps) simp
  qed
qed

section \<open>Queues\<close>

text \<open>Consuming a queue calls the callback of every request in it, in order.\<close>

lemma consume_all_ok:
  assumes "uinv vw {} {} w" "ready_list q w = ps" "u_thread_safe w \<or> (\<forall>c. q \<noteq> Recv_ready c)"
  shows "\<exists>v. consume_all (ucx_extern f) q w = Some (Inr v) \<and> uinv vw {} {} v \<and> uframe vw w v \<and>
    uenv v = fold (ucall_of f w) ps (uenv w) \<and> (\<forall>p \<in> set ps. finished v p) \<and> ready_list q v = [] \<and>
    (\<forall>x. x \<noteq> q \<longrightarrow> ready_list x v = ready_list x w) \<and> (\<forall>x. x \<notin> set ps \<longrightarrow> heap v x = heap w x) \<and> u_data v = u_data w"
  using assms
proof (induction ps arbitrary: w)
  case Nil
  then show ?case
    by (subst consume_all.simps) simp
next
  case (Cons p ps)
  let ?w = "set_ready q ps w"
  note pop = uinv_pop [OF Cons.prems(1,2)]
  have st: "store_inv ?w" "is_waiting ?w p"
    using uinvD(1) [OF pop(1)] pop(3) by (simp_all add: is_waiting_def)
  obtain v where v: "complete_request (ucx_extern f) p ?w = Inr v" "store_inv v" "finished v p"
    "uenv v = ucall_of f ?w p (uenv ?w)" "ustatic v = ustatic ?w" "handles v = handles ?w"
    "\<And>x. x \<noteq> p \<Longrightarrow> heap v x = heap ?w x" "\<not> pending v p"
    by (rule ucx_complete_ok [OF st, of f]) (rule that)
  have iv: "uinv vw {} {} v"
    by (rule uinv_completed [OF pop(1) _ v(2,5,8,7)]) simp_all
  have rl: "ready_list x v = ready_list x ?w" for x
    using v(5) by (intro ready_list_cong) (simp_all add: ustatic_fields)
  have np: "p \<notin> set ps"
    using placesD(6) [OF uinvD(2) [OF Cons.prems(1)], of q] Cons.prems(2) by simp
  obtain u where u: "consume_all (ucx_extern f) q v = Some (Inr u)" "uinv vw {} {} u" "uframe vw v u"
      "uenv u = fold (ucall_of f v) ps (uenv v)" "\<forall>p \<in> set ps. finished u p" "ready_list q u = []"
      "\<forall>x. x \<noteq> q \<longrightarrow> ready_list x u = ready_list x v" "\<forall>x. x \<notin> set ps \<longrightarrow> heap u x = heap v x" "u_data u = u_data v"
    using Cons.IH [OF iv] rl Cons.prems(3) v(5) by (auto simp: ustatic_fields)
  have "ucall_of f ?w p = ucall_of f w p" "uenv ?w = uenv w"
    by (simp_all add: ucall_of_def state_of_def uenv_def)
  moreover have "fold (ucall_of f v) ps x = fold (ucall_of f w) ps x" for x
  proof (rule fold_cong [OF refl refl])
    show "ucall_of f v y = ucall_of f w y" if "y \<in> set ps" for y
    proof -
      have "y \<noteq> p"
        using np that by blast
      then show ?thesis
        using v(7) by (simp add: ucall_of_def state_of_def)
    qed
  qed
  ultimately have env: "uenv u = fold (ucall_of f w) (p # ps) (uenv w)"
    using u(4) v(4) by simp
  have fr: "uframe vw w u"
    using u(3) v(5,6) Cons.prems(3) by (cases q) (auto simp: uframe_def ustatic_fields)
  have "finished u p"
    using u(3,8) v(3) np finished_cong [of u p v] by (simp add: uframe_def)
  moreover have "consume_all (ucx_extern f) q w = Some (Inr u)"
    using u(1) v(1) Cons.prems(2) by (subst consume_all.simps) simp
  moreover have "u_data u = u_data w"
    using u(9) v(5) by (simp add: ustatic_fields)
  ultimately show ?case
    using u env fr rl v(7) np by auto
qed

section \<open>Progress functions\<close>

text \<open>The invariant does not look at the mutex, the depths, the endpoints and the flag of the context.\<close>

lemma uinv_cong:
  assumes "heap v = heap w" "counters v = counters w" "handles v = handles w" "u_data v = u_data w" "u_live v = u_live w"
    "same_view vw (ucx v) (ucx w)" "cancel_req_queue v = cancel_req_queue w" "ctx_cancel_queue v = ctx_cancel_queue w"
    "\<And>q. ready_list q v = ready_list q w"
  shows "uinv vw X E v \<longleftrightarrow> uinv vw X E w"
proof -
  have tg: "target v r = target w r" for r
    using assms(4) by (intro target_cong) simp
  have hd: "held v a y \<longleftrightarrow> held w a y" for a y
    by (rule held_cong [OF assms(4,9)])
  have hv: "is_waiting v y \<longleftrightarrow> is_waiting w y" "pending v y \<longleftrightarrow> pending w y" "state_of v y = state_of w y" for y
    using assms(1) by (simp_all add: is_waiting_def pending_def state_of_def)
  have "store_inv v \<longleftrightarrow> store_inv w"
    by (rule store_inv_cong [OF assms(1-3)])
  moreover have "cancelled v = cancelled w" "cancel_unique v = cancel_unique w"
    using assms(7,8) hv(3) by (simp_all add: cancelled_def cancel_unique_def fun_eq_iff)
  moreover have "out vw (ucx v) = out vw (ucx w)" "alloc vw (ucx v) = alloc vw (ucx w)"
    using assms(6) by (simp_all add: same_view_def)
  ultimately show ?thesis
    unfolding uinv_def places_inv_def memory_inv_def tg hd hv assms(4,5,9) by simp
qed

lemma uinv_mutex [simp]: "uinv vw X E (w\<lparr>mutex_locked := b\<rparr>) \<longleftrightarrow> uinv vw X E w"
proof (rule uinv_cong)
  show "ready_list q (w\<lparr>mutex_locked := b\<rparr>) = ready_list q w" for q
    by (cases q) simp_all
qed (simp_all add: same_view_def)

lemma recv_rounds_ok:
  assumes "uinv vw {} {} w" "ucx_ok lib vw"
  shows "\<exists>v. recv_rounds lib (ucx_extern f) n w = Inr v \<and> uinv vw {} {} v \<and> uframe vw w v"
  using assms
proof (induction n arbitrary: w)
  case (Suc n)
  show ?case
  proof (cases "mutex_locked w")
    case True
    then show ?thesis
      using Suc by simp
  next
    case False
    let ?w = "w\<lparr>mutex_locked := True\<rparr>"
    obtain b evs u where l: "ucp_worker_progress lib Recv_worker (ucx ?w) = ((b, evs), u)"
      by (metis prod.collapse)
    obtain v where v: "worker_progress lib (ucx_extern f) Recv_worker ?w = Inr (b, v)" "uinv vw {} {} v" "uframe vw ?w v"
      using worker_progress_ok [OF _ Suc.prems(2) l, of f] Suc.prems(1) by auto
    let ?v = "v\<lparr>mutex_locked := False\<rparr>"
    have i: "uinv vw {} {} ?v" "uframe vw w ?v"
      using v(2,3) False by (simp_all add: uframe_def)
    show ?thesis
    proof (cases b)
      case True
      then show ?thesis
        using Suc.IH [OF i(1) Suc.prems(2)] False v(1) uframe_trans [OF i(2)] by auto
    next
      case b: False
      then show ?thesis
        using False v(1) i by simp
    qed
  qed
qed simp

lemma bind_opt_simps [simp]:
  "bind_opt (Some (Inr a)) k = k a" "bind_opt (Some (Inl e)) k = Some (Inl e)" "bind_opt None k = None"
  by (simp_all add: bind_opt_def)

text \<open>Progress of a communicator; afterwards nothing is left in the queues it consumes.\<close>

lemma ucx_comm_progress_ok:
  fixes w :: "('c, 'e, 'u) ucx_world"
  assumes inv: "uinv vw {} {} w" and ok: "ucx_ok lib vw"
  shows "\<exists>v. ucx_comm_progress lib (ucx_extern f) c w = Some (Inr v) \<and> uinv vw {} {} v \<and> uframe vw w v \<and>
    ready_list (Send_ready c) v = [] \<and> ready_list Ctx_ready v = [] \<and> (u_thread_safe w \<longrightarrow> ready_list (Recv_ready c) v = [])"
proof -
  obtain a where a: "drain_worker lib (ucx_extern f) (Send_worker c) w = Some (Inr a)" "uinv vw {} {} a" "uframe vw w a"
    using drain_worker_ok [OF inv ok, of f "Send_worker c"] by blast
  obtain b where b: "(if u_thread_safe a then Some (recv_rounds lib (ucx_extern f) 10 a)
      else drain_worker lib (ucx_extern f) Recv_worker a) = Some (Inr b)" "uinv vw {} {} b" "uframe vw a b"
  proof (cases "u_thread_safe a")
    case True
    then show thesis
      using recv_rounds_ok [OF a(2) ok, of f 10] that by auto
  next
    case False
    then show thesis
      using drain_worker_ok [OF a(2) ok, of f Recv_worker] that by auto
  qed
  obtain d where d: "consume_all (ucx_extern f) (Send_ready c) b = Some (Inr d)" "uinv vw {} {} d" "uframe vw b d"
      "ready_list (Send_ready c) d = []"
    using consume_all_ok [OF b(2) refl, of "Send_ready c" f] by auto
  obtain e where e: "(if u_thread_safe d then consume_all (ucx_extern f) (Recv_ready c) d else Some (Inr d)) = Some (Inr e)"
      "uinv vw {} {} e" "uframe vw d e" "ready_list (Send_ready c) e = []"
      "u_thread_safe d \<longrightarrow> ready_list (Recv_ready c) e = []"
  proof (cases "u_thread_safe d")
    case True
    obtain e where "consume_all (ucx_extern f) (Recv_ready c) d = Some (Inr e)" "uinv vw {} {} e" "uframe vw d e"
        "ready_list (Recv_ready c) e = []" "\<forall>x. x \<noteq> Recv_ready c \<longrightarrow> ready_list x e = ready_list x d"
      using consume_all_ok [OF d(2) refl, of "Recv_ready c" f] True by auto
    then show thesis
      using True d(4) by (intro that [of e]) (simp_all del: ready_list.simps)
  next
    case False
    then show thesis
      using d(2,4) by (intro that [of d]) simp_all
  qed
  obtain v where v: "consume_all (ucx_extern f) Ctx_ready e = Some (Inr v)" "uinv vw {} {} v" "uframe vw e v"
      "ready_list Ctx_ready v = []" "\<forall>x. x \<noteq> Ctx_ready \<longrightarrow> ready_list x v = ready_list x e"
    using consume_all_ok [OF e(2) refl, of Ctx_ready f] by auto
  have fr: "uframe vw w v" "u_thread_safe d = u_thread_safe w"
    using a(3) b(3) d(3) e(3) v(3) by (auto simp: uframe_def)
  have "ucx_comm_progress lib (ucx_extern f) c w = Some (Inr v)"
    using a(1) b(1) d(1) e(1) v(1) by (simp add: ucx_comm_progress_def)
  then show ?thesis
    using v(2,4,5) e(4,5) fr by (simp del: ready_list.simps)
qed

lemma ucx_ctx_progress_ok:
  assumes inv: "uinv vw {} {} w" and ok: "ucx_ok lib vw"
  shows "\<exists>v. ucx_ctx_progress lib (ucx_extern f) w = Some (Inr v) \<and> uinv vw {} {} v \<and> uframe vw w v \<and> ctx_recv_queue v = []"
proof -
  obtain u where u: "(if mutex_locked w then Some (Inr w)
        else Some (bind_res (worker_progress lib (ucx_extern f) Recv_worker (w\<lparr>mutex_locked := True\<rparr>)) (\<lambda>(_, w).
                   Inr (w\<lparr>mutex_locked := False\<rparr>)))) = Some (Inr u)" "uinv vw {} {} u" "uframe vw w u"
  proof (cases "mutex_locked w")
    case True
    then show thesis
      using inv by (intro that [of w]) simp_all
  next
    case False
    let ?w = "w\<lparr>mutex_locked := True\<rparr>"
    obtain b evs x where l: "ucp_worker_progress lib Recv_worker (ucx ?w) = ((b, evs), x)"
      by (metis prod.collapse)
    obtain v where v: "worker_progress lib (ucx_extern f) Recv_worker ?w = Inr (b, v)" "uinv vw {} {} v" "uframe vw ?w v"
      using worker_progress_ok [OF _ ok l, of f] inv by auto
    then show thesis
      using False by (intro that [of "v\<lparr>mutex_locked := False\<rparr>"]) (simp_all add: uframe_def)
  qed
  obtain v where "consume_all (ucx_extern f) Ctx_ready u = Some (Inr v)" "uinv vw {} {} v" "uframe vw u v"
      "ready_list Ctx_ready v = []"
    using consume_all_ok [OF u(2) refl, of Ctx_ready f] by auto
  then show ?thesis
    using u uframe_trans by (auto simp: ucx_ctx_progress_def)
qed

end
