(* ===== verification/Ucx_Posting.thy ===== *)
theory Ucx_Posting
  imports Ucx_Progress
begin

text \<open>
  Posting, cancellation and destruction of requests on the UCX transport keep the invariant.
\<close>

section \<open>New requests\<close>

text \<open>A new request is held by the UCX request it was posted with.\<close>

lemma uinv_attach:
  assumes inv: "uinv vw {} {} w" and p: "heap w p = None" and r: "\<not> alloc vw (ucx w) r"
    and o: "out vw (ucx v) = (out vw (ucx w))(r := True)" "alloc vw (ucx v) = (alloc vw (ucx w))(r := True)"
    and st: "store_inv v" and h: "heap v = (heap w)(p \<mapsto> b)" "waiting (m_t b) p" "m_ucx_ptr (m_t b) = Ucs_ptr r"
    and d: "u_data v = (u_data w)(r := rd_construct sh p)" "u_live v = (u_live w)(r := True)"
    and q: "\<And>x. ready_list x v = ready_list x w" "cancel_req_queue v = cancel_req_queue w" "ctx_cancel_queue v = ctx_cancel_queue w"
  shows "uinv vw {} {} v"
proof (rule uinvI [OF st])
  note i = uinvD [OF inv]
  have tr: "target w r = None"
    using memoryD(1) [OF i(3)] memoryD(2) [OF i(3), of r] r target_destroyed by metis
  have tg: "target v x = (if x = r then Some p else target w x)" for x
    using d(1) target_cong [of v x w] by (cases "x = r") (simp_all add: target_def rd_construct_def)
  have np: "\<not> held w a p" for a
    using placesD(2) [OF i(2), of a p] p by (auto simp: is_waiting_heap)
  have hd: "held v a y \<longleftrightarrow> held w a y \<or> a = At_req r \<and> y = p" for a y
    using tg tr q(1) by (cases a) auto
  have hv: "is_waiting v y = is_waiting w y" "pending v y = pending w y" "state_of v y = state_of w y" if "y \<noteq> p" for y
    using h(1) that by (simp_all add: is_waiting_def pending_def state_of_def)
  have hp: "is_waiting v p" "m_ucx_ptr (state_of v p) = Ucs_ptr r"
    using h by (simp_all add: is_waiting_def state_of_def)
  show "places_inv {} v"
    unfolding places_inv_def hd q(1)
  proof (intro conjI allI impI ballI)
    show "a = b" if "held w a y \<or> a = At_req r \<and> y = p" "held w b y \<or> b = At_req r \<and> y = p" for a b y
      using that np placesD(1) [OF i(2)] by blast
    show "is_waiting v y" if "held w a y \<or> a = At_req r \<and> y = p" for a y
      using that np hp(1) hv(1) [of y] placesD(2) [OF i(2), of a y] by auto
    show "y \<in> {} \<or> (\<exists>a. held w a y \<or> a = At_req r \<and> y = p)" if "pending v y" for y
      using that placesD(5) [OF i(2), of y] hv(2) [of y] by auto
    show "distinct (ready_list x w)" for x
      using placesD(6) [OF i(2)] .
  qed auto
  have nc: "cancelled v = cancelled w" "\<not> cancelled w p"
    using q(2,3) memoryD(8) [OF i(3), of p] np by (auto simp: cancelled_def fun_eq_iff dest: held.simps(1) [THEN iffD2])
  show "memory_inv vw {} v"
    unfolding memory_inv_def tg o nc(1)
  proof (intro conjI allI impI)
    show "u_live v = (alloc vw (ucx w))(r := True)"
      using memoryD(1) [OF i(3)] d(2) by simp
    show "u_data v x = rd_destroyed" if "\<not> u_live v x" for x
      using memoryD(2) [OF i(3), of x] that d by (auto split: if_splits)
    show "(if x = r then Some p else target w x) \<noteq> None" if "((out vw (ucx w))(r := True)) x \<or> x \<in> {}" for x
      using that memoryD(3) [OF i(3), of x] by (auto split: if_splits)
    fix x y assume a: "(if x = r then Some p else target w x) = Some y"
    have yp: "y \<noteq> p" if "x \<noteq> r"
      using a that np [of "At_req x"] by auto
    show "m_ucx_ptr (state_of v y) = Ucs_ptr x"
      using a hp(2) hv(3) yp memoryD(5) [OF i(3), of x y] by (cases "x = r") auto
    show "if ((out vw (ucx w))(r := True)) x then x \<notin> {} \<and> \<not> cancelled w y else (x \<in> {}) \<noteq> cancelled w y"
      using a nc(2) memoryD(6,7) [OF i(3), of x y] by (cases "x = r") auto
  next
    fix y assume "cancelled w y"
    then obtain x where "target w x = Some y"
      using memoryD(8) [OF i(3)] by blast
    then show "\<exists>x. (if x = r then Some p else target w x) = Some y"
      using tr by (intro exI [of _ x]) auto
  next
    show "cancel_unique v"
      by (rule cancel_unique_cong [OF memoryD(9) [OF i(3)] q(2,3)]) (use nc(2) hv(3) in metis)
  qed
qed

text \<open>A new request that is complete already is held by a queue.\<close>

lemma uinv_new_queued:
  assumes inv: "uinv vw {} {} w" and p: "heap w p = None" and o: "same_view vw (ucx v) (ucx w)"
    and st: "store_inv v" and h: "heap v = (heap w)(p \<mapsto> b)" "waiting (m_t b) p"
    and d: "u_data v = u_data w" "u_live v = u_live w"
    and q: "\<And>x. ready_list x v = (if x = a then ready_list x w @ [p] else ready_list x w)"
      "cancel_req_queue v = cancel_req_queue w" "ctx_cancel_queue v = ctx_cancel_queue w"
  shows "uinv vw {} {} v"
proof -
  note i = uinvD [OF inv]
  have np: "\<not> held w a p" for a
    using placesD(2) [OF i(2), of a p] p by (auto simp: is_waiting_heap)
  have tg: "target v x = target w x" for x
    using d(1) by (intro target_cong) simp
  have hd: "held v y z \<longleftrightarrow> held w y z \<or> y = In_queue a \<and> z = p" for y z
    using tg q(1) by (cases y) auto
  have hv: "is_waiting v y = is_waiting w y" "pending v y = pending w y" "state_of v y = state_of w y" if "y \<noteq> p" for y
    using h(1) that by (simp_all add: is_waiting_def pending_def state_of_def)
  have hp: "is_waiting v p"
    using h by (simp add: is_waiting_def)
  have "places_inv {} v"
    unfolding places_inv_def hd
  proof (intro conjI allI impI ballI)
    show "x = y" if "held w x z \<or> x = In_queue a \<and> z = p" "held w y z \<or> y = In_queue a \<and> z = p" for x y z
      using that np placesD(1) [OF i(2)] by blast
    show "is_waiting v z" if "held w x z \<or> x = In_queue a \<and> z = p" for x z
      using that np hp hv(1) [of z] placesD(2) [OF i(2), of x z] by auto
    show "z \<in> {} \<or> (\<exists>x. held w x z \<or> x = In_queue a \<and> z = p)" if "pending v z" for z
      using that placesD(5) [OF i(2), of z] hv(2) [of z] by auto
    show "distinct (ready_list x v)" for x
      using placesD(6) [OF i(2), of x] np [of "In_queue a"] q(1) by (cases "x = a") simp_all
  qed auto
  moreover have sv: "state_of v y = state_of w y" if "target w x = Some y" for x y
    using that np [of "At_req x"] hv(3) [of y] by auto
  have "cancelled v = cancelled w" "out vw (ucx v) = out vw (ucx w)" "alloc vw (ucx v) = alloc vw (ucx w)"
    using q(2,3) o by (simp_all add: cancelled_def fun_eq_iff same_view_def)
  moreover have "cancel_unique v"
    by (rule cancel_unique_cong [OF memoryD(9) [OF i(3)] q(2,3)]) (use memoryD(8) [OF i(3)] sv in blast)
  ultimately have "memory_inv vw {} v"
    using i(3) sv unfolding memory_inv_def tg d by (auto split: if_splits)
  with st \<open>places_inv {} v\<close> show ?thesis
    by (intro uinvI)
qed

text \<open>The fields that posting a request touches.\<close>

lemma post_fields [simp]:
  "u_data (move_to_handle p w) = u_data w" "u_live (move_to_handle p w) = u_live w" "ucx (move_to_handle p w) = ucx w"
  "cancel_req_queue (move_to_handle p w) = cancel_req_queue w" "ctx_cancel_queue (move_to_handle p w) = ctx_cancel_queue w"
  "heap (move_to_handle p w) = heap w" "mutex_locked (move_to_handle p w) = mutex_locked w"
  "u_thread_safe (move_to_handle p w) = u_thread_safe w"
  "u_data (posted p s w) = u_data w" "u_live (posted p s w) = u_live w" "ucx (posted p s w) = ucx w"
  "cancel_req_queue (posted p s w) = cancel_req_queue w" "ctx_cancel_queue (posted p s w) = ctx_cancel_queue w"
  "mutex_locked (posted p s w) = mutex_locked w" "u_thread_safe (posted p s w) = u_thread_safe w"
  by (simp_all add: move_to_handle_def posted_def)

lemma post_ready [simp]:
  "ready_list q (move_to_handle p w) = ready_list q w" "ready_list q (posted p s w) = ready_list q w"
  by (cases q; simp add: move_to_handle_def posted_def)+

lemma allocated_simps [simp]:
  "heap (allocated ret u w) = heap w" "counters (allocated ret u w) = counters w" "handles (allocated ret u w) = handles w"
  "ucx (allocated ret u w) = u" "u_data (allocated ret u w) = u_data w"
  "cancel_req_queue (allocated ret u w) = cancel_req_queue w" "ctx_cancel_queue (allocated ret u w) = ctx_cancel_queue w"
  "u_live (allocated ret u w) = (case ret of Ucs_ptr r \<Rightarrow> (u_live w)(r := True) | _ \<Rightarrow> u_live w)"
  "mutex_locked (allocated ret u w) = mutex_locked w" "u_thread_safe (allocated ret u w) = u_thread_safe w"
  by (simp_all add: allocated_def)

lemma allocated_ready [simp]: "ready_list q (allocated ret u w) = ready_list q w"
  by (cases q) (simp_all add: allocated_def)

lemma unlock_simps [simp]:
  "heap (ucx_unlock w) = heap w" "counters (ucx_unlock w) = counters w" "handles (ucx_unlock w) = handles w"
  "ucx (ucx_unlock w) = ucx w" "u_data (ucx_unlock w) = u_data w" "u_live (ucx_unlock w) = u_live w"
  "cancel_req_queue (ucx_unlock w) = cancel_req_queue w" "ctx_cancel_queue (ucx_unlock w) = ctx_cancel_queue w"
  "u_thread_safe (ucx_unlock w) = u_thread_safe w"
  by (simp_all add: ucx_unlock_def)

lemma unlock_ready [simp]: "ready_list q (ucx_unlock w) = ready_list q w"
  by (cases q) (simp_all add: ucx_unlock_def)

text \<open>A callback called from a posting function changes the application's state only.\<close>

lemma ucx_guarded_extern:
  fixes w :: "('c, 'e, 'u) ucx_world"
  shows "ustatic (ucx_guarded a (ucx_extern f cb r t) w) = ustatic w"
    "heap (ucx_guarded a (ucx_extern f cb r t) w) = heap w" "counters (ucx_guarded a (ucx_extern f cb r t) w) = counters w"
    "handles (ucx_guarded a (ucx_extern f cb r t) w) = handles w"
    "uenv (ucx_guarded a (ucx_extern f cb r t) w) = f cb r t (uenv w)"
  by (cases a; simp add: ucx_guarded_def ucx_extern_def ustatic_def uenv_def Let_def split: prod.splits)+

section \<open>Sends\<close>

text \<open>Between the operations the mutex is free.\<close>

definition usame :: "('c, 'e, 'u) ucx_world \<Rightarrow> ('c, 'e, 'u) ucx_world \<Rightarrow> bool" where
  "usame w v \<longleftrightarrow> u_thread_safe v = u_thread_safe w \<and> mutex_locked v = mutex_locked w \<and> cancel_found v = cancel_found w"

lemma connect_ok:
  assumes "connect lib c rank w = Inr (ep, u)" "ucx_ok lib vw"
  shows "uinv vw X E u \<longleftrightarrow> uinv vw X E w" "heap u = heap w" "usame w u" "u_live u = u_live w" "u_data u = u_data w"
proof -
  have "u = w \<or> (\<exists>x ec. u = w\<lparr>ucx := x, endpoint_cache := ec\<rparr> \<and> same_view vw x (ucx w))"
  proof (cases "endpoint_cache w c rank")
    case None
    then obtain a rc x where a: "address_map w rank = Some a" "ucp_ep_create lib c a (ucx w) = ((rc, ep), x)"
        "u = w\<lparr>ucx := x, endpoint_cache := (endpoint_cache w)(c := (endpoint_cache w c)(rank \<mapsto> ep))\<rparr>"
      using assms(1) by (auto simp: connect_def check_ucx_def split: option.splits prod.splits if_splits)
    have "same_view vw (snd (ucp_ep_create lib c a (ucx w))) (ucx w)"
      using assms(2) by (simp add: ucx_ok_def)
    then show ?thesis
      using a by auto
  qed (use assms(1) in \<open>simp add: connect_def\<close>)
  then have f: "heap u = heap w" "counters u = counters w" "handles u = handles w" "u_data u = u_data w" "u_live u = u_live w"
      "same_view vw (ucx u) (ucx w)" "cancel_req_queue u = cancel_req_queue w" "ctx_cancel_queue u = ctx_cancel_queue w"
      "send_req_queue u = send_req_queue w" "recv_req_queue u = recv_req_queue w" "ctx_recv_queue u = ctx_recv_queue w"
      "usame w u"
    by (auto simp: same_view_def usame_def)
  have "ready_list q u = ready_list q w" for q
    by (rule ready_list_cong [OF f(9-11)])
  then show "uinv vw X E u \<longleftrightarrow> uinv vw X E w"
    by (intro uinv_cong f)
  show "heap u = heap w" "usame w u" "u_live u = u_live w" "u_data u = u_data w"
    using f by simp_all
qed

lemma usame_trans: "usame u v \<Longrightarrow> usame v w \<Longrightarrow> usame u w"
  by (simp add: usame_def)

lemma uinv_called:
  assumes "uinv vw {} {} w" "ustatic v = ustatic w" "heap v = heap w" "counters v = counters w" "handles v = handles w"
  shows "uinv vw {} {} v \<and> usame w v"
proof -
  have "ready_list q v = ready_list q w" for q
    using assms(2) by (intro ready_list_cong) (simp_all add: ustatic_fields)
  then have "uinv vw {} {} v \<longleftrightarrow> uinv vw {} {} w"
    using assms(2) by (intro uinv_cong assms) (simp_all add: ustatic_fields same_view_def)
  then show ?thesis
    using assms by (simp add: usame_def ustatic_fields)
qed

lemma posted_state:
  "heap (posted p s w) = (heap w)(p \<mapsto> \<lparr>m_ref_count = 2, m_t = s\<lparr>m_ready := False, m_canceled := False, m_self_ptr := Some p\<rparr>\<rparr>)"
  "waiting (s\<lparr>m_ready := False, m_canceled := False, m_self_ptr := Some p\<rparr>) p"
  by (simp_all add: posted_def waiting_def)

lemma ucx_send_inv:
  fixes w :: "('c, 'e, 'u) ucx_world"
  assumes inv: "uinv vw {} {} w" and ok: "ucx_ok lib vw" and p: "heap w p = None"
    and s: "ucx_send lib (ucx_extern f) c p buf sz dst tag cb w = Inr (res, v)"
  shows "uinv vw {} {} v \<and> usame w v"
proof -
  from s obtain ep x where x: "connect lib c dst w = Inr (ep, x)"
    by (auto simp: ucx_send_def bind_res_eq_Inr)
  note co = connect_ok [OF x ok]
  have ix: "uinv vw {} {} x" "heap x p = None"
    using co(1,2) inv p by simp_all
  obtain ret u where l: "ucp_tag_send_nb lib ep buf sz (send_tag tag (u_rank x)) (ucx x) = (ret, u)"
    by fastforce
  have sn: "send_nb_ok vw (ucx x) (ret, u)"
    using ok l unfolding ucx_ok_def by metis
  let ?a = "allocated ret u x" and ?s = "ucx_new_state c (Scheduled_sends c) dst tag cb ret"
  let ?b = "\<lparr>m_ref_count = 2, m_t = ?s\<lparr>m_ready := False, m_canceled := False, m_self_ptr := Some p\<rparr>\<rparr>"
  have sa: "usame x ?a"
    by (simp add: usame_def allocated_def)
  have st: "store_inv ?a"
    by (rule store_inv_heap_cong [OF _ _ _ uinvD(1) [OF ix(1)]]) simp_all
  note sp = store_inv_posted [OF st, of p ?s]
  have "uinv vw {} {} v \<and> usame ?a v"
  proof (cases ret)
    case Ucs_ok
    have "uinv vw {} {} ?a \<longleftrightarrow> uinv vw {} {} x"
      by (rule uinv_cong) (use sn Ucs_ok in \<open>simp_all add: send_nb_ok_def same_view_def\<close>)
    then have ia: "uinv vw {} {} ?a"
      using ix(1) by simp
    show ?thesis
    proof (cases "has_reached_recursion_depth (ucx_depth (Some c) ?a)")
      case False
      then have "v = ucx_guarded (Some c) (ucx_extern f cb dst tag) ?a"
        using s x l Ucs_ok by (simp add: ucx_send_def Let_def)
      then show ?thesis
        using uinv_called [OF ia ucx_guarded_extern(1-4)] by simp
    next
      case True
      then have v: "v = move_to_handle p (enqueue_send c p (posted p ?s ?a))"
        using s x l Ucs_ok by (simp add: ucx_send_def Let_def post_request_eq)
      have "uinv vw {} {} v"
      proof (rule uinv_new_queued [OF ia, where a = "Send_ready c" and b = ?b])
        show "waiting (m_t ?b) p"
          by (simp add: waiting_def)
        show "ready_list y v = (if y = Send_ready c then ready_list y ?a @ [p] else ready_list y ?a)" for y
          by (cases y) (simp_all add: v enqueue_send_def move_to_handle_def posted_def allocated_def)
        show "store_inv v"
          by (rule store_inv_heap_cong [OF _ _ _ sp]) (simp_all add: v enqueue_send_def move_to_handle_def ix)
      qed (use ix in \<open>simp_all add: v enqueue_send_def move_to_handle_def posted_def same_view_def\<close>)
      then show ?thesis
        by (simp add: v usame_def enqueue_send_def move_to_handle_def posted_def)
    qed
  next
    case (Ucs_ptr r)
    have v: "v = move_to_handle p ((posted p ?s ?a)\<lparr>u_data := (u_data x)(r := rd_construct False p)\<rparr>)"
      using s x l Ucs_ptr by (simp add: ucx_send_def Let_def post_request_eq rd_set_def)
    have "uinv vw {} {} v"
    proof (rule uinv_attach [OF ix(1,2)])
      show "\<not> alloc vw (ucx x) r" "out vw (ucx v) = (out vw (ucx x))(r := True)" "alloc vw (ucx v) = (alloc vw (ucx x))(r := True)"
        using sn Ucs_ptr by (simp_all add: send_nb_ok_def v)
      show "store_inv v"
        by (rule store_inv_heap_cong [OF _ _ _ sp]) (simp_all add: v move_to_handle_def ix)
      show "heap v = (heap x)(p \<mapsto> ?b)" "m_ucx_ptr (m_t ?b) = Ucs_ptr r" "waiting (m_t ?b) p"
        using Ucs_ptr by (simp_all add: v posted_state ucx_new_state_def waiting_def)
      show "ready_list y v = ready_list y x" for y
        by (cases y) (simp_all add: v move_to_handle_def posted_def allocated_def)
    qed (use Ucs_ptr in \<open>simp_all add: v\<close>)
    then show ?thesis
      by (simp add: v usame_def move_to_handle_def posted_def)
  next
    case (Ucs_err e)
    then show ?thesis
      using s x l by (simp add: ucx_send_def Let_def)
  qed
  then show ?thesis
    using co(3) sa usame_trans by blast
qed

section \<open>Receives\<close>

text \<open>The callback of an early completed receive finds no request.\<close>

lemma early_events:
  assumes "set evs \<subseteq> {Recv_event r UCS_OK}" "u_live w r" "u_data w r = rd_destroyed"
  shows "fold_res (run_event lib cbk) evs w = Inr w"
  using assms by (induction evs) (auto simp: recv_callback_def rd_get_def rd_destroyed_def rd_empty_def)

lemma ucx_recv_post_inv:
  fixes w :: "('c, 'e, 'u) ucx_world"
  assumes inv: "uinv vw {} {} w" and ok: "ucx_ok lib vw" and p: "heap w p = None" and m: "\<not> mutex_locked w"
    and s: "ucx_recv_post lib (ucx_extern f) a sched c p buf sz src tag cb w = Inr (res, v)"
  shows "uinv vw {} {} v \<and> usame w v"
proof -
  define x where "x = (if u_thread_safe w then w\<lparr>mutex_locked := True\<rparr> else w)"
  have lk: "ucx_lock w = Inr x"
    using m by (simp add: ucx_lock_def x_def)
  have ix: "uinv vw {} {} x" "heap x p = None" "u_thread_safe x = u_thread_safe w" "mutex_locked x = u_thread_safe w" "cancel_found x = cancel_found w"
    using inv p m by (simp_all add: x_def)
  obtain ret evs u where l: "ucp_tag_recv_nb lib buf sz (recv_tag tag src) (recv_mask src) (ucx x) = ((ret, evs), u)"
    by (metis prod.collapse)
  have rn: "recv_nb_ok lib vw (ucx x) ((ret, evs), u)"
    using ok l unfolding ucx_ok_def by metis
  note mi = uinvD(3) [OF ix(1)]
  show ?thesis
  proof (cases ret)
    case (Ucs_ptr r)
    let ?a = "allocated ret u x" and ?s = "ucx_new_state c sched src tag cb ret"
    let ?b = "\<lparr>m_ref_count = 2, m_t = ?s\<lparr>m_ready := False, m_canceled := False, m_self_ptr := Some p\<rparr>\<rparr>"
    have nr: "\<not> alloc vw (ucx x) r" "alloc vw u = (alloc vw (ucx x))(r := True)"
      using rn Ucs_ptr by (simp_all add: recv_nb_ok_def)
    have fresh: "u_live ?a r" "u_data ?a r = rd_destroyed" "\<not> u_live x r"
      using nr(1) Ucs_ptr memoryD(1) [OF mi] memoryD(2) [OF mi, of r] by simp_all
    have st: "store_inv ?a"
      by (rule store_inv_heap_cong [OF _ _ _ uinvD(1) [OF ix(1)]]) simp_all
    show ?thesis
    proof (cases "ucp_request_check_status lib r u = UCS_INPROGRESS")
      case True
      then have e: "evs = []" "out vw u = (out vw (ucx x))(r := True)"
        using rn Ucs_ptr by (simp_all add: recv_nb_ok_def)
      have v: "v = move_to_handle p (ucx_unlock ((posted p ?s ?a)\<lparr>u_data := (u_data x)(r := rd_construct (a = None) p)\<rparr>))"
        using s lk l Ucs_ptr True e(1) fresh(1) by (simp add: ucx_recv_post_def Let_def post_request_eq rd_set_def)
      have "uinv vw {} {} v"
      proof (rule uinv_attach [OF ix(1,2) nr(1)])
        show "store_inv v"
          by (rule store_inv_heap_cong [OF _ _ _ store_inv_posted [OF st, of p ?s]]) (simp_all add: v move_to_handle_def ix)
        show "heap v = (heap x)(p \<mapsto> ?b)" "m_ucx_ptr (m_t ?b) = Ucs_ptr r" "waiting (m_t ?b) p"
          using Ucs_ptr by (simp_all add: v posted_state ucx_new_state_def waiting_def)
        show "ready_list y v = ready_list y x" for y
          by (cases y) (simp_all add: v move_to_handle_def posted_def allocated_def ucx_unlock_def)
      qed (use Ucs_ptr e nr in \<open>simp_all add: v\<close>)
      then show ?thesis
        using m ix by (simp add: v usame_def move_to_handle_def posted_def allocated_def ucx_unlock_def)
    next
      case False
      then have e: "set evs \<subseteq> {Recv_event r UCS_OK}" "out vw u = out vw (ucx x)"
        using rn Ucs_ptr by (simp_all add: recv_nb_ok_def)
      note ev = early_events [OF e(1) fresh(1,2), of lib "ucx_extern f"]
      define z where "z = ?a\<lparr>u_live := (u_live ?a)(r := False), ucx := ucp_request_free lib r u\<rparr>"
      let ?y = "ucx_unlock z"
      have fr: "request_free lib r ?a = Inr z"
        using fresh(1) by (simp add: request_free_def z_def)
      have ly: "u_live ?y = u_live x" "same_view vw (ucx ?y) (ucx x)"
        using fresh(3) Ucs_ptr ok e(2) nr memoryD(1) [OF mi] by (auto simp: ucx_ok_def same_view_def fun_eq_iff z_def)
      have ry: "ready_list q ?y = ready_list q x" for q
        by (cases q) (simp_all add: allocated_def ucx_unlock_def z_def)
      have "uinv vw {} {} ?y \<longleftrightarrow> uinv vw {} {} x"
        by (rule uinv_cong) (use ly ry in \<open>simp_all add: z_def\<close>)
      then have iy: "uinv vw {} {} ?y" "usame w ?y" "heap ?y p = None"
        using ix m by (simp_all add: usame_def ucx_unlock_def allocated_def z_def)
      show ?thesis
      proof (cases "has_reached_recursion_depth (ucx_depth a ?y)")
        case dr: False
        then have "v = ucx_guarded a (ucx_extern f cb src tag) ?y"
          using s lk l Ucs_ptr False ev fr by (simp add: ucx_recv_post_def Let_def)
        then show ?thesis
          using uinv_called [OF iy(1) ucx_guarded_extern(1-4)] iy(2) usame_trans by blast
      next
        case True
        let ?q = "case a of Some c \<Rightarrow> Recv_ready c | None \<Rightarrow> Ctx_ready"
        have v: "v = move_to_handle p (case a of Some c \<Rightarrow> enqueue_recv c p (posted p ?s ?y) | None \<Rightarrow> ctx_enqueue_recv p (posted p ?s ?y))"
          using s lk l Ucs_ptr False ev fr True by (cases a) (simp_all add: ucx_recv_post_def Let_def post_request_eq)
        have sy: "store_inv (move_to_handle p (posted p ?s ?y))"
          by (rule store_inv_posted [OF uinvD(1) [OF iy(1)] iy(3)])
        have "uinv vw {} {} v"
        proof (rule uinv_new_queued [OF iy(1,3), where a = ?q and b = ?b])
          show "waiting (m_t ?b) p"
            by (simp add: waiting_def)
          show "ready_list z v = (if z = ?q then ready_list z ?y @ [p] else ready_list z ?y)" for z
            by (cases z; cases a)
               (simp_all add: v enqueue_recv_def ctx_enqueue_recv_def move_to_handle_def posted_def ucx_unlock_def)
          show "store_inv v"
            by (rule store_inv_heap_cong [OF _ _ _ sy])
               (cases a; simp add: v enqueue_recv_def ctx_enqueue_recv_def move_to_handle_def)+
        qed (cases a; simp add: v enqueue_recv_def ctx_enqueue_recv_def move_to_handle_def posted_def same_view_def)+
        moreover have "usame ?y v"
          by (cases a) (simp_all add: v usame_def enqueue_recv_def ctx_enqueue_recv_def move_to_handle_def posted_def)
        ultimately show ?thesis
          using iy(2) usame_trans by blast
      qed
    qed
  qed (use s lk l rn in \<open>auto simp: ucx_recv_post_def recv_nb_ok_def\<close>)
qed

end
