(* ===== verification/Ucx_Cancel.thy ===== *)
theory Ucx_Cancel
  imports Ucx_Posting
begin

text \<open>
  Cancellation on the UCX transport, destruction of request objects, and the runs of a process.
\<close>

section \<open>Cancellation\<close>

lemma cancel_scan_eq: "cancel_scan p q found vec = (found \<or> p \<in> set q, vec @ filter (\<lambda>x. x \<noteq> p) q)"
  by (induction q arbitrary: found vec) auto

lemma cancel_finish_eq:
  fixes w :: "('c, 'e, 'u) ucx_world"
  assumes "heap w p = Some b" "m_self_ptr (m_t b) = Some p" "m_ucx_ptr (m_t b) = Ucs_ptr r" "u_live w r" "\<not> mutex_locked w"
  shows "cancel_finish lib p w = cancel_request p (detach lib r w)"
  using assms
  by (cases w)
     (simp add: cancel_finish_def cancel_request_def release_self_ref_def set_canceled_def load_state_def store_state_def
      decr_counter_def rd_set_def ucx_lock_def ucx_unlock_def request_free_def detach_def drop_ref_def)

text \<open>The end of a cancellation UCX has confirmed; \<open>x\<close> is the state with \<open>p\<close> taken off its queue.\<close>

lemma cancel_finish_ok:
  fixes w x :: "('c, 'e, 'u) ucx_world"
  assumes inv: "uinv vw {} {} w" and ok: "ucx_ok lib vw" and p: "cancelled w p" and m: "\<not> mutex_locked x"
    and c: "\<And>y. cancelled x y \<longleftrightarrow> cancelled w y \<and> y \<noteq> p" "cancel_unique x"
    and x: "heap x = heap w" "counters x = counters w" "handles x = handles w" "u_data x = u_data w" "u_live x = u_live w"
      "ucx x = ucx w" "\<And>q. ready_list q x = ready_list q w"
  shows "\<exists>v. cancel_finish lib p x = Inr v \<and> uinv vw {} {} v \<and> usame x v \<and> canceled v p"
proof -
  note i = uinvD [OF inv]
  obtain r where r: "target w r = Some p"
    using memoryD(8) [OF i(3) p] by blast
  have o: "\<not> out vw (ucx w) r"
    using memoryD(6) [OF i(3) r] p by blast
  have "is_waiting w p"
    using placesD(2) [OF i(2), of "At_req r" p] r by simp
  then obtain b where b: "heap w p = Some b" "waiting (m_t b) p"
    by (auto simp: is_waiting_heap)
  have bx: "heap x p = Some b" "m_self_ptr (m_t b) = Some p" "m_ucx_ptr (m_t b) = Ucs_ptr r" "u_live x r"
    using b memoryD(5) [OF i(3) r] target_live [OF i(3) r] x by (simp_all add: state_of_def waiting_def)
  let ?d = "detach lib r x"
  have sd: "store_inv ?d"
    by (rule store_inv_heap_cong [OF _ _ _ i(1)]) (simp_all add: x)
  have cu: "cancel_unique ?d"
    by (rule cancel_unique_cong [OF c(2)]) (simp_all add: state_of_def)
  have cd: "cancelled ?d = (\<lambda>y. cancelled w y \<and> y \<noteq> p)"
    using c(1) by (simp add: fun_eq_iff)
  have id: "uinv vw (insert p {}) ({} - {r}) ?d"
    by (rule uinv_detach_gen(1) [OF inv ok r o cd cu sd]) (simp_all add: x)
  have wd: "is_waiting ?d p"
    using bx(1) b(2) by (simp add: is_waiting_def)
  obtain v where v: "cancel_request p ?d = Inr v" "store_inv v" "canceled v p" "off_store v = off_store ?d" "handles v = handles ?d"
    "\<And>x. x \<noteq> p \<Longrightarrow> heap v x = heap ?d x" "\<not> pending v p"
    by (rule cancel_request_ok [OF sd wd]) (rule that)
  have sv: "ustatic v = ustatic ?d"
    using v(4) ustatic_off_store(2) by metis
  have "uinv vw {} {} v"
    by (rule uinv_completed [where p = p and w = ?d]) (use id v sv in simp_all)
  moreover have "cancel_finish lib p x = Inr v"
    unfolding cancel_finish_eq [OF bx m] by (rule v(1))
  moreover have "usame x v"
    using sv by (simp add: usame_def ustatic_fields detach_def)
  ultimately show ?thesis
    using v(3) by blast
qed

lemma filtered_unique:
  assumes "cancel_unique w" "p \<in> set (cancel_req_queue w c)"
    and v: "cancel_req_queue v = (cancel_req_queue w)(c := filter (\<lambda>x. x \<noteq> p) (cancel_req_queue w c))"
      "ctx_cancel_queue v = ctx_cancel_queue w" "heap v = heap w"
  shows "cancelled v y \<longleftrightarrow> cancelled w y \<and> y \<noteq> p" "cancel_unique v"
proof -
  have u: "p \<notin> set (ctx_cancel_queue w)" "\<And>d. p \<in> set (cancel_req_queue w d) \<Longrightarrow> d = c"
    using assms(1,2) unfolding cancel_unique_def by metis+
  have q: "z \<in> set (cancel_req_queue v d) \<longleftrightarrow> z \<in> set (cancel_req_queue w d) \<and> z \<noteq> p" for z d
    using u(2) [of d] by (auto simp: v(1))
  show "cancelled v y \<longleftrightarrow> cancelled w y \<and> y \<noteq> p"
    unfolding cancelled_def q v(2) using u(1) by blast
  show "cancel_unique v"
    unfolding cancel_unique_def
  proof (intro allI ballI)
    fix d z assume "z \<in> set (cancel_req_queue v d)"
    then have "z \<in> set (cancel_req_queue w d)"
      using q by blast
    then show "d = m_comm (state_of v z) \<and> z \<notin> set (ctx_cancel_queue v)"
      using assms(1) v(2,3) by (simp add: cancel_unique_def state_of_def)
  qed
qed

lemma ctx_filtered_unique:
  assumes "cancel_unique w" "p \<in> set (ctx_cancel_queue w)"
    and v: "ctx_cancel_queue v = filter (\<lambda>x. x \<noteq> p) (ctx_cancel_queue w)" "cancel_req_queue v = cancel_req_queue w" "heap v = heap w"
  shows "cancelled v y \<longleftrightarrow> cancelled w y \<and> y \<noteq> p" "cancel_unique v"
proof -
  have u: "p \<notin> set (cancel_req_queue w d)" for d
    using assms(1,2) unfolding cancel_unique_def by blast
  show "cancelled v y \<longleftrightarrow> cancelled w y \<and> y \<noteq> p"
    unfolding cancelled_def v(1,2) using u by auto
  show "cancel_unique v"
    using assms(1) unfolding cancel_unique_def by (simp add: v state_of_def)
qed

text \<open>The common start of the two functions: the cancellation is requested and the receive worker
  drained.\<close>

lemma cancel_start_ok:
  fixes w :: "('c, 'e, 'u) ucx_world"
  assumes inv: "uinv vw {} {} w" and ok: "ucx_ok lib vw" and m: "\<not> mutex_locked w" and r: "target w r = Some p"
  obtains x u where
    "bind_res (ucx_lock w) (\<lambda>w. bind_res (load_state p w) (\<lambda>s. request_cancel_ucx lib (m_ucx_ptr s) w)) = Inr x"
    "drain_worker lib (ucx_extern f) Recv_worker x = Some (Inr u)" "uinv vw {} {} u" "uinv vw {} {} (ucx_unlock u)"
    "usame w (ucx_unlock u)" "\<not> mutex_locked (ucx_unlock u)" "handles u = handles w"
proof -
  note i = uinvD [OF inv]
  have "is_waiting w p"
    using placesD(2) [OF i(2), of "At_req r" p] r by simp
  then obtain b where b: "heap w p = Some b" "m_ucx_ptr (m_t b) = Ucs_ptr r"
    using memoryD(5) [OF i(3) r] by (auto simp: is_waiting_heap state_of_def)
  define y where "y = (if u_thread_safe w then w\<lparr>mutex_locked := True\<rparr> else w)"
  let ?x = "y\<lparr>ucx := ucp_request_cancel lib r (ucx w)\<rparr>"
  have y: "heap y = heap w" "u_live y = u_live w" "ucx y = ucx w" "uinv vw {} {} y" "handles y = handles w"
    "u_thread_safe y = u_thread_safe w" "mutex_locked y = u_thread_safe w" "cancel_found y = cancel_found w"
    using inv m by (simp_all add: y_def)
  have eq: "bind_res (ucx_lock w) (\<lambda>w. bind_res (load_state p w) (\<lambda>s. request_cancel_ucx lib (m_ucx_ptr s) w)) = Inr ?x"
    using m b target_live [OF i(3) r] y by (simp add: ucx_lock_def load_state_def request_cancel_ucx_def y_def)
  have "uinv vw {} {} ?x \<longleftrightarrow> uinv vw {} {} y"
  proof (rule uinv_cong)
    show "same_view vw (ucx ?x) (ucx y)"
      using ok y(3) by (simp add: ucx_ok_def)
    show "ready_list q ?x = ready_list q y" for q
      by (rule ready_list_cong) simp_all
  qed simp_all
  then obtain u where u: "drain_worker lib (ucx_extern f) Recv_worker ?x = Some (Inr u)" "uinv vw {} {} u" "uframe vw ?x u"
    using drain_worker_ok [OF _ ok, of ?x f Recv_worker] y(4) by blast
  have "uinv vw {} {} (ucx_unlock u) \<longleftrightarrow> uinv vw {} {} u"
    by (rule uinv_cong) (simp_all add: same_view_def)
  moreover have "usame w (ucx_unlock u)" "\<not> mutex_locked (ucx_unlock u)" "handles u = handles w"
    using u(3) y m by (auto simp: usame_def uframe_def ucx_unlock_def)
  ultimately show thesis
    using eq u by (intro that [of ?x u]) simp_all
qed

lemma ucx_cancel_recv_ok:
  fixes w :: "('c, 'e, 'u) ucx_world"
  assumes inv: "uinv vw {} {} w" and ok: "ucx_ok lib vw" and m: "\<not> mutex_locked w" and r: "target w r = Some p"
  shows "\<exists>found v. ucx_cancel_recv lib (ucx_extern f) c p w = Some (Inr (found, v)) \<and> uinv vw {} {} v \<and> usame w v \<and>
    (found \<longrightarrow> canceled v p)"
proof -
  obtain x u where u:
    "bind_res (ucx_lock w) (\<lambda>w. bind_res (load_state p w) (\<lambda>s. request_cancel_ucx lib (m_ucx_ptr s) w)) = Inr x"
    "drain_worker lib (ucx_extern f) Recv_worker x = Some (Inr u)" "uinv vw {} {} u" "uinv vw {} {} (ucx_unlock u)"
    "usame w (ucx_unlock u)" "\<not> mutex_locked (ucx_unlock u)" "handles u = handles w"
    by (rule cancel_start_ok [OF inv ok m r, of f])
  let ?u = "ucx_unlock u"
  let ?v = "?u\<lparr>cancel_req_queue := (cancel_req_queue ?u)(c := filter (\<lambda>y. y \<noteq> p) (cancel_req_queue ?u c))\<rparr>"
  have rl: "ready_list q ?v = ready_list q ?u" for q
    by (rule ready_list_cong) simp_all
  show ?thesis
  proof (cases "p \<in> set (cancel_req_queue ?u c)")
    case True
    note f = filtered_unique [OF memoryD(9) [OF uinvD(3) [OF u(4)]] True, where v = ?v]
    have c: "cancelled ?u p"
      using True by (auto simp: cancelled_def)
    obtain v where "cancel_finish lib p ?v = Inr v" "uinv vw {} {} v" "usame ?v v" "canceled v p"
      using cancel_finish_ok [OF u(4) ok c, of ?v] f rl u(6) by auto
    then show ?thesis
      using u True unfolding ucx_cancel_recv_def by (auto simp: cancel_scan_eq Let_def usame_def)
  next
    case False
    then have "filter (\<lambda>y. y \<noteq> p) (cancel_req_queue ?u c) = cancel_req_queue ?u c"
      by (intro filter_True) auto
    then have "?v = ?u"
      by simp
    then show ?thesis
      using u False unfolding ucx_cancel_recv_def by (auto simp: cancel_scan_eq Let_def)
  qed
qed

text \<open>The context's version is right as long as its static flag has not been set.\<close>

lemma ucx_ctx_cancel_recv_ok:
  fixes w :: "('c, 'e, 'u) ucx_world"
  assumes inv: "uinv vw {} {} w" and ok: "ucx_ok lib vw" and m: "\<not> mutex_locked w" and r: "target w r = Some p"
    and fl: "\<not> cancel_found w"
  shows "\<exists>found v. ucx_ctx_cancel_recv lib (ucx_extern f) p w = Some (Inr (found, v)) \<and> uinv vw {} {} v \<and>
    \<not> mutex_locked v \<and> cancel_found v = found \<and> (found \<longrightarrow> canceled v p)"
proof -
  obtain x u where u:
    "bind_res (ucx_lock w) (\<lambda>w. bind_res (load_state p w) (\<lambda>s. request_cancel_ucx lib (m_ucx_ptr s) w)) = Inr x"
    "drain_worker lib (ucx_extern f) Recv_worker x = Some (Inr u)" "uinv vw {} {} u" "uinv vw {} {} (ucx_unlock u)"
    "usame w (ucx_unlock u)" "\<not> mutex_locked (ucx_unlock u)" "handles u = handles w"
    by (rule cancel_start_ok [OF inv ok m r, of f])
  have nf: "cancel_found u = False"
    using u(5) fl by (auto simp: usame_def ucx_unlock_def split: if_splits)
  let ?f = "p \<in> set (ctx_cancel_queue u)"
  define v where "v = ucx_unlock (u\<lparr>ctx_cancel_queue := filter (\<lambda>y. y \<noteq> p) (ctx_cancel_queue u), cancel_found := ?f\<rparr>)"
  have rl: "ready_list q v = ready_list q u" for q
    by (rule ready_list_cong) (simp_all add: v_def ucx_unlock_def)
  have v: "heap v = heap u" "counters v = counters u" "handles v = handles u" "u_data v = u_data u" "u_live v = u_live u"
      "ucx v = ucx u" "cancel_req_queue v = cancel_req_queue u" "cancel_found v = ?f" "\<not> mutex_locked v"
      "ctx_cancel_queue v = filter (\<lambda>y. y \<noteq> p) (ctx_cancel_queue u)"
    using u(6) by (auto simp: v_def ucx_unlock_def)
  have eq: "ucx_ctx_cancel_recv lib (ucx_extern f) p w = Some (bind_res (if ?f then cancel_finish lib p v else Inr v) (\<lambda>w. Inr (?f, w)))"
    using u(1,2) nf unfolding ucx_ctx_cancel_recv_def v_def by (simp add: cancel_scan_eq Let_def)
  show ?thesis
  proof (cases ?f)
    case True
    note fu = ctx_filtered_unique [OF memoryD(9) [OF uinvD(3) [OF u(3)]] True v(10,7,1)]
    have c: "cancelled u p"
      using True by (auto simp: cancelled_def)
    obtain z where "cancel_finish lib p v = Inr z" "uinv vw {} {} z" "usame v z" "canceled z p"
      using cancel_finish_ok [OF u(3) ok c v(9) fu v(1-6) rl] by blast
    then show ?thesis
      using eq True v(8,9) by (auto simp: usame_def)
  next
    case False
    then have "ctx_cancel_queue v = ctx_cancel_queue u"
      unfolding v(10) by (intro filter_True) auto
    then have "uinv vw {} {} v \<longleftrightarrow> uinv vw {} {} u"
      by (intro uinv_cong) (use v rl in \<open>simp_all add: same_view_def\<close>)
    then show ?thesis
      using eq False v(8,9) u(3) by auto
  qed
qed

section \<open>Request objects\<close>

lemma ucx_drop_handle_ok:
  fixes w :: "('c, 'e, 'u) ucx_world"
  assumes inv: "uinv vw {} {} w" and h: "0 < handles w p"
  shows "\<exists>v. drop_handle p w = Inr v \<and> uinv vw {} {} v \<and> usame w v"
proof -
  note i = uinvD [OF inv]
  obtain v where v: "drop_handle p w = Inr v" "store_inv v" "off_store v = off_store w" "\<And>x. pending v x = pending w x"
    "\<And>x. is_waiting v x = is_waiting w x" "\<And>x. is_waiting w x \<Longrightarrow> state_of v x = state_of w x"
    by (rule drop_handle_waiting [OF i(1) h]) (rule that)
  have "ustatic v = ustatic w"
    using v(3) ustatic_off_store(2) by metis
  then have st: "u_data v = u_data w" "u_live v = u_live w" "ucx v = ucx w" "cancel_req_queue v = cancel_req_queue w"
      "ctx_cancel_queue v = ctx_cancel_queue w" "send_req_queue v = send_req_queue w" "recv_req_queue v = recv_req_queue w"
      "ctx_recv_queue v = ctx_recv_queue w" "usame w v"
    by (simp_all add: ustatic_fields usame_def)
  have rl: "ready_list q v = ready_list q w" for q
    by (rule ready_list_cong [OF st(6-8)])
  have tg: "target v r = target w r" for r
    using st(1) by (intro target_cong) simp
  have hd: "held v a y \<longleftrightarrow> held w a y" for a y
    by (rule held_cong [OF st(1) rl])
  have "places_inv {} v"
    using i(2) unfolding places_inv_def hd rl v(4,5) .
  moreover have sv: "state_of v y = state_of w y" if "target w r = Some y" for r y
    using v(6) placesD(2) [OF i(2), of "At_req r" y] that by simp
  have "cancelled v = cancelled w"
    using st by (simp add: cancelled_def fun_eq_iff)
  moreover have "cancel_unique v"
    by (rule cancel_unique_cong [OF memoryD(9) [OF i(3)] st(4,5)]) (use memoryD(8) [OF i(3)] sv in blast)
  ultimately have "memory_inv vw {} v"
    using i(3) sv unfolding memory_inv_def tg st(1-3) by (auto split: if_splits)
  with v(1,2) st(9) \<open>places_inv {} v\<close> show ?thesis
    by (auto intro: uinvI)
qed

section \<open>Runs\<close>

text \<open>The calls of a user.  \<open>p\<close> is the address the allocator returns for a new request state.  A
  receive is cancelled only while UCX has it.\<close>

inductive ucx_step ::
    "'u ucx_lib \<Rightarrow> ('c \<Rightarrow> rank_type \<Rightarrow> tag_type \<Rightarrow> api_state \<times> 'e \<Rightarrow> api_state \<times> 'e) \<Rightarrow>
     ('c, 'e, 'u) ucx_world \<Rightarrow> ('c, 'e, 'u) ucx_world \<Rightarrow> bool"
  for lib f where
  u_send: "heap w p = None \<Longrightarrow> ucx_send lib (ucx_extern f) c p buf sz dst tag cb w = Inr (h, v) \<Longrightarrow> ucx_step lib f w v"
| u_recv: "heap w p = None \<Longrightarrow> ucx_recv lib (ucx_extern f) c p buf sz src tag cb w = Inr (h, v) \<Longrightarrow> ucx_step lib f w v"
| u_shared_recv: "heap w p = None \<Longrightarrow> ucx_shared_recv lib (ucx_extern f) c p buf sz src tag cb w = Inr (h, v) \<Longrightarrow> ucx_step lib f w v"
| u_progress: "ucx_comm_progress lib (ucx_extern f) c w = Some (Inr v) \<Longrightarrow> ucx_step lib f w v"
| u_ctx_progress: "ucx_ctx_progress lib (ucx_extern f) w = Some (Inr v) \<Longrightarrow> ucx_step lib f w v"
| u_cancel: "target w r = Some p \<Longrightarrow> ucx_cancel_recv lib (ucx_extern f) c p w = Some (Inr (b, v)) \<Longrightarrow> ucx_step lib f w v"
| u_ctx_cancel: "target w r = Some p \<Longrightarrow> \<not> cancel_found w \<Longrightarrow>
    ucx_ctx_cancel_recv lib (ucx_extern f) p w = Some (Inr (b, v)) \<Longrightarrow> ucx_step lib f w v"
| u_drop: "0 < handles w p \<Longrightarrow> drop_handle p w = Inr v \<Longrightarrow> ucx_step lib f w v"

definition ucx_init :: "bool \<Rightarrow> rank_type \<Rightarrow> (rank_type \<Rightarrow> 8 word list option) \<Rightarrow> api_state \<Rightarrow> 'e \<Rightarrow> 'u \<Rightarrow> ('c, 'e, 'u) ucx_world" where
  "ucx_init ts rank db a e u =
     \<lparr>heap = (\<lambda>_. None), counters = (\<lambda>_. 0), handles = (\<lambda>_. 0), api = a, u_thread_safe = ts, u_rank = rank,
      send_req_queue = (\<lambda>_. []), recv_req_queue = (\<lambda>_. []), cancel_req_queue = (\<lambda>_. []), ctx_recv_queue = [],
      ctx_cancel_queue = [], cancel_found = False, mutex_locked = False, u_depth = (\<lambda>_. 0), u_ctx_depth = 0,
      u_data = (\<lambda>_. rd_destroyed), u_live = (\<lambda>_. False), endpoint_cache = (\<lambda>_ _. None), address_map = db,
      app = e, ucx = u\<rparr>"

lemma ucx_kept:
  assumes "ucx_step lib f w v" "uinv vw {} {} w" "\<not> mutex_locked w" "ucx_ok lib vw"
  shows "uinv vw {} {} v \<and> \<not> mutex_locked v"
  using assms(1)
proof cases
  case (u_send p c buf sz dst tag cb h)
  then show ?thesis
    using ucx_send_inv [OF assms(2,4)] assms(3) by (auto simp: usame_def)
next
  case (u_recv p c buf sz src tag cb h)
  then show ?thesis
    using ucx_recv_post_inv [OF assms(2,4) _ assms(3)] assms(3) by (auto simp: usame_def ucx_recv_def)
next
  case (u_shared_recv p c buf sz src tag cb h)
  then show ?thesis
    using ucx_recv_post_inv [OF assms(2,4) _ assms(3)] assms(3) by (auto simp: usame_def ucx_shared_recv_def)
next
  case (u_progress c)
  then show ?thesis
    using ucx_comm_progress_ok [OF assms(2,4), of f c] assms(3) by (auto simp: uframe_def)
next
  case u_ctx_progress
  then show ?thesis
    using ucx_ctx_progress_ok [OF assms(2,4), of f] assms(3) by (auto simp: uframe_def)
next
  case (u_cancel r p c b)
  then show ?thesis
    using ucx_cancel_recv_ok [OF assms(2,4,3) u_cancel(1), of f c] assms(3) by (auto simp: usame_def)
next
  case (u_ctx_cancel r p b)
  then show ?thesis
    using ucx_ctx_cancel_recv_ok [OF assms(2,4,3) u_ctx_cancel(1,2), of f] by auto
next
  case (u_drop p)
  then show ?thesis
    using ucx_drop_handle_ok [OF assms(2) u_drop(1)] assms(3) by (auto simp: usame_def)
qed

lemma ucx_init_inv:
  assumes "out vw u = (\<lambda>_. False)" "alloc vw u = (\<lambda>_. False)"
  shows "uinv vw {} {} (ucx_init ts rank db a e u :: ('c, 'e, 'u) ucx_world)"
proof -
  let ?w = "ucx_init ts rank db a e u :: ('c, 'e, 'u) ucx_world"
  have rl: "ready_list q ?w = []" for q
    by (cases q) (simp_all add: ucx_init_def)
  have tg: "target ?w r = None" for r
    by (rule target_destroyed) (simp add: ucx_init_def)
  have hd: "\<not> held ?w x p" for x p
    using rl tg by (cases x) simp_all
  have "store_inv ?w" "places_inv {} ?w"
    by (simp_all add: places_inv_def hd rl) (simp_all add: ucx_init_def store_inv_def owned_def request_refs_def pending_def pending_on_def)
  moreover have "memory_inv vw {} ?w"
    unfolding memory_inv_def tg using assms by (simp add: ucx_init_def cancelled_def cancel_unique_def)
  ultimately show ?thesis
    by (intro uinvI)
qed

lemma ucx_runs:
  assumes "(ucx_step lib f)\<^sup>*\<^sup>* (ucx_init ts rank db a e u) w" "ucx_ok lib vw"
    "out vw u = (\<lambda>_. False)" "alloc vw u = (\<lambda>_. False)"
  shows "uinv vw {} {} w \<and> \<not> mutex_locked w"
  using assms(1)
proof (induction rule: rtranclp_induct)
  case base
  have "uinv vw {} {} (ucx_init ts rank db a e u)"
    by (rule ucx_init_inv [OF assms(3,4)])
  then show ?case
    by (simp add: ucx_init_def)
next
  case (step v w)
  then show ?case
    using ucx_kept [OF step.hyps(2) _ _ assms(2)] by blast
qed

end
