(* ===== verification/Ucx_Properties.thy ===== *)
theory Ucx_Properties
  imports Ucx_Cancel
begin

text \<open>
  What the UCX transport guarantees: runs are safe and lose no request, progress ends, tags match the
  right messages; and the cases in which a request is lost or an operation is undefined.
\<close>

section \<open>An example library\<close>

text \<open>Requests are numbered.  A receive whose tag is among the arrived ones completes when it is posted;
  progress of the receive worker reports the requests in \<open>ready_ops\<close>, all at once.\<close>

record ex_ucx =
  next_op :: nat
  live_ops :: "nat set"
  open_ops :: "nat set"
  ready_ops :: "nat list"
  arrived :: "64 word list"

definition ex_progress :: "worker_id \<Rightarrow> ex_ucx \<Rightarrow> (bool \<times> ucx_event list) \<times> ex_ucx" where
  "ex_progress wk u =
     (let rs = filter (\<lambda>r. r \<in> open_ops u \<and> r < next_op u) (remdups (ready_ops u)) in
      if wk = Recv_worker then ((rs \<noteq> [], map (\<lambda>r. Recv_event r UCS_OK) rs), u\<lparr>ready_ops := [], open_ops := open_ops u - set rs\<rparr>)
      else ((False, []), u))"

definition ex_ucx_lib :: "ex_ucx ucx_lib" where
  "ex_ucx_lib = \<lparr>
     ucp_tag_send_nb = (\<lambda>_ _ _ _ u. (Ucs_ok, u)),
     ucp_tag_recv_nb = (\<lambda>_ _ t _ u.
       ((Ucs_ptr (next_op u), []),
        u\<lparr>next_op := next_op u + 1, live_ops := insert (next_op u) {r \<in> live_ops u. r < next_op u},
          open_ops := (if t \<in> set (arrived u) then {r \<in> open_ops u. r < next_op u} else insert (next_op u) {r \<in> open_ops u. r < next_op u})\<rparr>)),
     ucp_request_check_status = (\<lambda>r u. if r \<in> open_ops u then UCS_INPROGRESS else UCS_OK),
     ucp_request_free = (\<lambda>r u. u\<lparr>live_ops := live_ops u - {r}\<rparr>),
     ucp_request_cancel = (\<lambda>_ u. u),
     ucp_worker_progress = ex_progress,
     ucp_ep_create = (\<lambda>_ _ u. ((0, 0), u))\<rparr>"

definition ex_view :: "ex_ucx ucx_view" where
  "ex_view = \<lparr>out = (\<lambda>u r. r \<in> open_ops u \<and> r < next_op u), alloc = (\<lambda>u r. r \<in> live_ops u \<and> r < next_op u),
     work = (\<lambda>u. length (ready_ops u))\<rparr>"

lemma ex_ucx_ok: "ucx_ok ex_ucx_lib ex_view"
  unfolding ucx_ok_def
proof (intro conjI allI)
  fix wk u
  show "progress_ok ex_view u (ucp_worker_progress ex_ucx_lib wk u)"
    by (cases wk) (auto simp: progress_ok_def ex_ucx_lib_def ex_view_def ex_progress_def Let_def comp_def fun_eq_iff image_iff)
qed (auto simp: send_nb_ok_def recv_nb_ok_def same_view_def ex_ucx_lib_def ex_view_def fun_eq_iff UCS_OK_def UCS_INPROGRESS_def)

definition ex_ucx0 :: "64 word list \<Rightarrow> nat list \<Rightarrow> ex_ucx" where
  "ex_ucx0 ts rs = \<lparr>next_op = 0, live_ops = {}, open_ops = {}, ready_ops = rs, arrived = ts\<rparr>"

definition ex_ulog :: "nat \<Rightarrow> rank_type \<Rightarrow> tag_type \<Rightarrow> api_state \<times> nat list \<Rightarrow> api_state \<times> nat list" where
  "ex_ulog c r t = map_prod id (\<lambda>l. l @ [c])"

definition ex_uinit :: "bool \<Rightarrow> 64 word list \<Rightarrow> nat list \<Rightarrow> (nat, nat list, ex_ucx) ucx_world" where
  "ex_uinit ts arr rs = ucx_init ts 0 (\<lambda>_. None) empty_api [] (ex_ucx0 arr rs)"

lemma ex_uinit_view: "out ex_view (ex_ucx0 arr rs) = (\<lambda>_. False)" "alloc ex_view (ex_ucx0 arr rs) = (\<lambda>_. False)"
  by (simp_all add: ex_view_def ex_ucx0_def fun_eq_iff)

text \<open>A receive is posted at address 1 and is in progress as UCX request 0.\<close>

definition ex_uposted :: "bool \<Rightarrow> nat list \<Rightarrow> (nat, nat list, ex_ucx) ucx_world" where
  "ex_uposted ts rs = (ex_uinit ts [] rs)
     \<lparr>heap := [1 \<mapsto> \<lparr>m_ref_count = 2, m_t = \<lparr>m_comm = 0, m_scheduled = Scheduled_recvs 0, m_rank = 4, m_tag = 5, m_cb = 9,
        m_ready = False, m_canceled = False, m_self_ptr = Some 1, m_ucx_ptr = Ucs_ptr 0\<rparr>\<rparr>],
      counters := (\<lambda>_. 0)(Scheduled_recvs 0 := 1), handles := (\<lambda>_. 0)(1 := 1),
      u_data := (\<lambda>_. rd_destroyed)(0 := rd_construct False 1), u_live := (\<lambda>_. False)(0 := True),
      ucx := \<lparr>next_op = 1, live_ops = {0}, open_ops = {0}, ready_ops = rs, arrived = []\<rparr>\<rparr>"

lemmas ex_u_simps = ucx_recv_def ucx_recv_post_def ucx_lock_def ucx_unlock_def ex_ucx_lib_def ex_uinit_def ucx_init_def ex_ucx0_def
  allocated_def post_request_eq posted_def move_to_handle_def rd_set_def rd_construct_def ucx_new_state_def Let_def
  UCS_OK_def UCS_INPROGRESS_def

lemma ex_uposted_recv: "ucx_recv ex_ucx_lib cbk 0 1 100 8 4 5 9 (ex_uinit ts [] rs) = Inr (Some 1, ex_uposted ts rs)"
  by (simp add: ex_u_simps ex_uposted_def)

lemma ex_uposted_run: "(ucx_step ex_ucx_lib ex_ulog)\<^sup>*\<^sup>* (ex_uinit ts [] rs) (ex_uposted ts rs)"
  by (rule r_into_rtranclp, rule u_recv [OF _ ex_uposted_recv]) (simp add: ex_uinit_def ucx_init_def)

lemma ex_uposted_inv: "uinv ex_view {} {} (ex_uposted ts rs)" "\<not> mutex_locked (ex_uposted ts rs)"
  using ucx_runs [OF ex_uposted_run [unfolded ex_uinit_def] ex_ucx_ok ex_uinit_view] by simp_all

section \<open>Safety\<close>



section \<open>Completions\<close>



section \<open>Tags\<close>

lemma recv_mask_any: "recv_mask any_source = 0xffffffff00000000"
  by (simp add: recv_mask_def)

lemma recv_mask_all: "src \<noteq> any_source \<Longrightarrow> recv_mask src = -1"
  by (simp add: recv_mask_def)

lemma bit_32: "bit w n \<Longrightarrow> n < 32" for w :: "32 word"
  using bit_imp_le_length [of w n] by simp

lemma rank_bits:
  fixes s :: "32 word"
  assumes "0 \<le>s s"
  shows "scast s = (ucast s :: 64 word)"
proof (rule bit_word_eqI)
  have "\<not> bit s 31"
    using assms bit_last_iff [of s] by (simp add: word_sle_eq)
  then show "bit (scast s :: 64 word) n \<longleftrightarrow> bit (ucast s :: 64 word) n" if "n < LENGTH(64)" for n
    using that bit_32 [of s n] by (cases "n = 31") (auto simp: bit_simps min_def)
qed

lemma tag_bits:
  fixes t :: "32 word"
  assumes "n < 64"
  shows "bit (push_bit 32 (scast t :: 64 word)) n \<longleftrightarrow> 32 \<le> n \<and> bit t (n - 32)"
proof (cases "n = 63")
  case True
  then show ?thesis
    by (simp add: bit_simps min_def)
next
  case False
  then show ?thesis
    using assms by (auto simp: bit_simps min_def)
qed

lemma send_tag_bits:
  assumes "0 \<le>s s" "n < 64"
  shows "bit (send_tag t s) n \<longleftrightarrow> (if n < 32 then bit s n else bit t (n - 32))"
  using assms(2) tag_bits [OF assms(2), of t] bit_32 [of s n]
  by (auto simp: send_tag_def rank_bits [OF assms(1)] bit_or_iff bit_unsigned_iff)

lemma mask_bits: "bit (recv_mask any_source) n \<longleftrightarrow> 32 \<le> n \<and> n < 64"
proof -
  have eq: "(0xffffffff00000000 :: 64 word) = push_bit 32 (mask 32)"
    by (simp add: mask_eq_exp_minus_1 push_bit_eq_mult)
  have "bit (push_bit 32 (mask 32) :: 64 word) n \<longleftrightarrow> 32 \<le> n \<and> n < 64"
    unfolding bit_push_bit_iff bit_mask_iff by auto
  then show ?thesis
    unfolding recv_mask_any eq .
qed

text \<open>C18: which messages a receive takes.  UCX compares the tag of the message with the tag of the
  receive under the mask of the receive.  They agree exactly if the message has the tag the receive
  names and comes from the rank the receive names, or the receive names \<open>any_source\<close>.\<close>

theorem ucx_tag_match:
  assumes "0 \<le>s s" "src = any_source \<or> 0 \<le>s src"
  shows "send_tag t s AND recv_mask src = recv_tag t' src AND recv_mask src \<longleftrightarrow> t = t' \<and> (src = any_source \<or> src = s)"
proof (cases "src = any_source")
  case True
  have "bit (recv_tag t' src) n \<longleftrightarrow> 32 \<le> n \<and> bit t' (n - 32)" if "n < 64" for n
    using tag_bits [OF that, of t'] True by (simp add: recv_tag_def)
  then have "send_tag t s AND recv_mask src = recv_tag t' src AND recv_mask src \<longleftrightarrow>
      (\<forall>n. n < 64 \<longrightarrow> 32 \<le> n \<longrightarrow> bit t (n - 32) = bit t' (n - 32))"
    using send_tag_bits [OF assms(1), of _ t]
    by (auto simp: True bit_eq_iff bit_and_iff mask_bits)
  also have "\<dots> \<longleftrightarrow> (\<forall>n. n < 32 \<longrightarrow> bit t n = bit t' n)"
  proof
    assume a: "\<forall>n. n < 64 \<longrightarrow> 32 \<le> n \<longrightarrow> bit t (n - 32) = bit t' (n - 32)"
    show "\<forall>n. n < 32 \<longrightarrow> bit t n = bit t' n"
    proof (intro allI impI)
      show "bit t n = bit t' n" if "n < 32" for n
        using a [rule_format, of "n + 32"] that by simp
    qed
  qed simp
  also have "\<dots> \<longleftrightarrow> t = t'"
    by (auto intro!: bit_word_eqI)
  finally show ?thesis
    using True by simp
next
  case False
  then have "recv_tag t' src = send_tag t' src" "0 \<le>s src"
    using assms(2) by (simp_all add: recv_tag_def send_tag_def eq_commute)
  note b = this(1) send_tag_bits [OF assms(1), of _ t] send_tag_bits [OF this(2), of _ t']
  have "send_tag t s = send_tag t' src \<longleftrightarrow>
      (\<forall>n. n < 64 \<longrightarrow> (if n < 32 then bit s n else bit t (n - 32)) = (if n < 32 then bit src n else bit t' (n - 32)))"
    using b(2,3) by (auto simp: bit_eq_iff)
  also have "\<dots> \<longleftrightarrow> (\<forall>n. n < 32 \<longrightarrow> bit s n = bit src n) \<and> (\<forall>n. n < 32 \<longrightarrow> bit t n = bit t' n)"
  proof
    assume a: "\<forall>n. n < 64 \<longrightarrow> (if n < 32 then bit s n else bit t (n - 32)) = (if n < 32 then bit src n else bit t' (n - 32))"
    have "bit s n = bit src n" "bit t n = bit t' n" if "n < 32" for n
      using a [rule_format, of n] a [rule_format, of "n + 32"] that by simp_all
    then show "(\<forall>n. n < 32 \<longrightarrow> bit s n = bit src n) \<and> (\<forall>n. n < 32 \<longrightarrow> bit t n = bit t' n)"
      by blast
  qed auto
  also have "\<dots> \<longleftrightarrow> s = src \<and> t = t'"
    by (auto intro!: bit_word_eqI)
  finally show ?thesis
    using False b(1) by (auto simp: recv_mask_all)
qed

theorem ucx_tag_match_witness:
  "send_tag 7 3 AND recv_mask any_source = recv_tag 7 any_source AND recv_mask any_source \<and>
    \<not> send_tag 7 3 AND recv_mask 4 = recv_tag 7 4 AND recv_mask 4"
  using ucx_tag_match [of 3 any_source 7 7] ucx_tag_match [of 3 4 7 7] by (simp add: word_sle_eq any_source_def)

section \<open>Requests that are lost, and undefined cancellations\<close>

text \<open>C19: in a thread safe context a receive that UCX has completed cannot be cancelled any more.  The
  callback frees the UCX request and queues the request state, which is not ready yet; \<open>cancel\<close> looks at
  the state only, finds it not ready and hands the freed UCX request to UCX.\<close>

theorem ucx_cancel_after_completion:
  fixes w :: "('c, 'e, 'u) ucx_world"
  assumes "uinv vw X E w" "ucx_ok lib vw" "r \<in> E" "u_thread_safe w" "rd_req (u_data w r) = Some p"
    "recv_callback lib (ucx_extern f) r UCS_OK w = Inr v"
  shows "request_is_ready (Some p) v = Inr False \<and>
    ucx_cancel_recv lib (ucx_extern f) c p (v\<lparr>mutex_locked := False\<rparr>) =
      Some (Inl (Undefined_behaviour ''cancellation of a freed ucx request''))"
proof -
  obtain p' where p: "target w r = Some p'" "uinv vw (insert p' X) (E - {r}) (detach lib r w)" "p' \<notin> X" "is_waiting w p'"
    by (rule uinv_detach [OF assms(1-3)])
  then have pp: "p' = p"
    using assms(5) by (simp add: target_def)
  have lv: "u_live w r"
    by (rule target_live [OF uinvD(3) [OF assms(1)] p(1)])
  obtain b where b: "heap w p = Some b" "waiting (m_t b) p" "m_ucx_ptr (m_t b) = Ucs_ptr r"
    using p(4) memoryD(5) [OF uinvD(3) [OF assms(1)] p(1)] unfolding pp by (auto simp: is_waiting_heap state_of_def)
  have v: "v = enqueue_recv (m_comm (m_t b)) p (detach lib r w)"
    using assms(4-6) lv b(1)
    by (simp add: recv_callback_def rd_get_def rd_empty_def load_state_def rd_set_def request_free_def detach_def)
  have "heap v p = Some b" "\<not> u_live v r"
    using b(1) by (simp_all add: v enqueue_recv_def)
  then show ?thesis
    using b(2,3)
    by (simp add: request_is_ready_def load_state_def waiting_def ucx_cancel_recv_def ucx_lock_def request_cancel_ucx_def)
qed

theorem ucx_cancel_after_completion_witness:
  "\<exists>v. recv_callback ex_ucx_lib (ucx_extern ex_ulog) 0 UCS_OK
      ((ex_uposted True [0])\<lparr>ucx := (ucx (ex_uposted True [0]))\<lparr>ready_ops := [], open_ops := {}\<rparr>\<rparr>) = Inr v \<and>
    ucx_cancel_recv ex_ucx_lib (ucx_extern ex_ulog) 0 1 (v\<lparr>mutex_locked := False\<rparr>) =
      Some (Inl (Undefined_behaviour ''cancellation of a freed ucx request''))"
proof -
  let ?w = "ex_uposted True [0]"
  let ?u = "(ucx ?w)\<lparr>ready_ops := [], open_ops := {}\<rparr>"
  have "ucp_worker_progress ex_ucx_lib Recv_worker (ucx ?w) = ((True, [Recv_event 0 UCS_OK]), ?u)"
    by (simp add: ex_ucx_lib_def ex_progress_def ex_uposted_def)
  then have pr: "progress_ok ex_view (ucx ?w) ((True, [Recv_event 0 UCS_OK]), ?u)"
    using ex_ucx_ok unfolding ucx_ok_def by metis
  have i: "uinv ex_view {} {0} (?w\<lparr>ucx := ?u\<rparr>)"
    using uinv_reported [OF ex_uposted_inv(1) pr] by simp
  have t: "u_thread_safe (?w\<lparr>ucx := ?u\<rparr>)" "rd_req (u_data (?w\<lparr>ucx := ?u\<rparr>) 0) = Some 1"
    by (simp_all add: ex_uposted_def ex_uinit_def ucx_init_def rd_construct_def)
  obtain v where "recv_callback ex_ucx_lib (ucx_extern ex_ulog) 0 UCS_OK (?w\<lparr>ucx := ?u\<rparr>) = Inr v"
    using recv_callback_ok [OF i ex_ucx_ok] by blast
  then show ?thesis
    using ucx_cancel_after_completion [OF i ex_ucx_ok _ t, of ex_ulog v 0] by auto
qed

text \<open>Progress of several communicators, one after the other.\<close>

fun ucx_progress_all ::
    "'u ucx_lib \<Rightarrow> ('c, 'e, 'u) ucx_callback \<Rightarrow> nat list \<Rightarrow> ('c, 'e, 'u) ucx_world \<Rightarrow> ('c, 'e, 'u) ucx_world result option" where
  "ucx_progress_all lib cbk [] w = Some (Inr w)"
| "ucx_progress_all lib cbk (c # cs) w = bind_opt (ucx_comm_progress lib cbk c w) (ucx_progress_all lib cbk cs)"

text \<open>A receive that completes when it is posted, at a point where the recursion limit is reached,
  is pushed to the queue of completed receives; but when the context is not thread safe no progress
  function consumes this queue.  However often and on whichever communicators progress is called, the
  receive stays pending and its callback is not called.\<close>

theorem ucx_recv_stuck:
  fixes w :: "('c, 'e, 'u) ucx_world"
  assumes "uinv vw {} {} w" "ucx_ok lib vw" "\<not> u_thread_safe w" "p \<in> set (recv_req_queue w d)"
  shows "\<exists>v. ucx_progress_all lib (ucx_extern f) cs w = Some (Inr v) \<and> p \<in> set (recv_req_queue v d) \<and> pending v p"
  using assms(1,3,4)
proof (induction cs arbitrary: w)
  case Nil
  have "is_waiting w p"
    using placesD(2) [OF uinvD(2) [OF Nil(1)], of "In_queue (Recv_ready d)" p] Nil(3) by simp
  then show ?case
    using Nil by (auto simp: is_waiting_heap waiting_def pending_heap)
next
  case (Cons c cs)
  obtain v where v: "ucx_comm_progress lib (ucx_extern f) c w = Some (Inr v)" "uinv vw {} {} v" "uframe vw w v"
    using ucx_comm_progress_ok [OF Cons.prems(1) assms(2), of f c] by blast
  then have "\<not> u_thread_safe v" "p \<in> set (recv_req_queue v d)"
    using Cons.prems(2,3) by (simp_all add: uframe_def)
  then show ?case
    using Cons.IH [OF v(2)] v(1) by simp
qed

theorem ucx_recv_stuck_witness:
  "\<exists>v u. ucx_recv ex_ucx_lib (ucx_extern ex_ulog) 0 1 100 8 4 5 9
       ((ex_uinit False [recv_tag 5 4] [])\<lparr>u_depth := (\<lambda>_. 21)\<rparr>) = Inr (Some 1, v) \<and>
     ucx_progress_all ex_ucx_lib (ucx_extern ex_ulog) [0, 1, 0, 0] v = Some (Inr u) \<and> pending u 1"
proof -
  let ?w = "(ex_uinit False [recv_tag 5 4] [])\<lparr>u_depth := (\<lambda>_. 21)\<rparr> :: (nat, nat list, ex_ucx) ucx_world"
  have e: "out ex_view (ex_ucx0 [recv_tag 5 4] []) = (\<lambda>_. False)" "alloc ex_view (ex_ucx0 [recv_tag 5 4] []) = (\<lambda>_. False)"
    by (rule ex_uinit_view)+
  have "uinv ex_view {} {} ?w \<longleftrightarrow> uinv ex_view {} {} (ex_uinit False [recv_tag 5 4] [])"
  proof (rule uinv_cong)
    show "ready_list q ?w = ready_list q (ex_uinit False [recv_tag 5 4] [])" for q
      by (cases q) simp_all
  qed (simp_all add: same_view_def)
  moreover have "uinv ex_view {} {} (ex_uinit False [recv_tag 5 4] [])"
    unfolding ex_uinit_def by (rule ucx_init_inv [OF e])
  ultimately have i: "uinv ex_view {} {} ?w"
    by blast
  obtain v where v: "ucx_recv ex_ucx_lib (ucx_extern ex_ulog) 0 1 100 8 4 5 9 ?w = Inr (Some 1, v)"
      "recv_req_queue v 0 = [1]" "\<not> u_thread_safe v"
    by (simp add: ex_u_simps has_reached_recursion_depth_def OOMPH_RECURSION_DEPTH_def ucx_depth_def request_free_def enqueue_recv_def)
  have "uinv ex_view {} {} v"
    using ucx_recv_post_inv [OF i ex_ucx_ok _ _ v(1) [unfolded ucx_recv_def]] by (simp add: ex_uinit_def ucx_init_def)
  from ucx_recv_stuck [OF this ex_ucx_ok v(3), of 1 0 ex_ulog "[0, 1, 0, 0]"] v show ?thesis
    by auto
qed

text \<open>The cancellation of a shared receive keeps its result in a static variable that is never
  reset.  After one cancellation has succeeded, the next one reports success even if UCX has cancelled
  nothing: the request is marked cancelled and the UCX request is freed while UCX still works on it.\<close>

theorem ucx_ctx_cancel_flag:
  fixes w :: "('c, 'e, 'u) ucx_world"
  assumes "uinv vw {} {} w" "ucx_ok lib vw" "\<not> mutex_locked w" "cancel_found w" "target w r = Some p" "out vw (ucx w) r"
    "ucp_worker_progress lib Recv_worker (ucp_request_cancel lib r (ucx w)) = ((False, []), u)"
  shows "\<exists>v. ucx_ctx_cancel_recv lib (ucx_extern f) p w = Some (Inr (True, v)) \<and> canceled v p \<and> out vw (ucx v) r \<and> \<not> u_live v r"
proof -
  note i = uinvD [OF assms(1)]
  have "is_waiting w p"
    using placesD(2) [OF i(2), of "At_req r" p] assms(5) by simp
  then obtain b where b: "heap w p = Some b" "waiting (m_t b) p" "m_ucx_ptr (m_t b) = Ucs_ptr r"
    using memoryD(5) [OF i(3) assms(5)] by (auto simp: is_waiting_heap state_of_def)
  have lv: "u_live w r"
    by (rule target_live [OF i(3) assms(5)])
  have nc: "p \<notin> set (ctx_cancel_queue w)"
    using memoryD(6) [OF i(3) assms(5,6)] by (auto simp: cancelled_def)
  define y where "y = (if u_thread_safe w then w\<lparr>mutex_locked := True\<rparr> else w)"
  have st: "bind_res (ucx_lock w) (\<lambda>w. bind_res (load_state p w) (\<lambda>s. request_cancel_ucx lib (m_ucx_ptr s) w)) =
      Inr (y\<lparr>ucx := ucp_request_cancel lib r (ucx w)\<rparr>)"
    using assms(3) b lv by (simp add: ucx_lock_def load_state_def request_cancel_ucx_def y_def)
  have dr: "drain_worker lib (ucx_extern f) Recv_worker (y\<lparr>ucx := ucp_request_cancel lib r (ucx w)\<rparr>) = Some (Inr (y\<lparr>ucx := u\<rparr>))"
    using assms(7) by (subst drain_worker.simps) (simp add: worker_progress_def)
  define z where "z = ucx_unlock (y\<lparr>ucx := u, ctx_cancel_queue := filter (\<lambda>x. x \<noteq> p) (ctx_cancel_queue w), cancel_found := True\<rparr>)"
  have sc: "cancel_scan p (ctx_cancel_queue w) True [] = (True, filter (\<lambda>x. x \<noteq> p) (ctx_cancel_queue w))"
    by (simp add: cancel_scan_eq)
  have eq: "ucx_ctx_cancel_recv lib (ucx_extern f) p w = Some (bind_res (cancel_finish lib p z) (\<lambda>w. Inr (True, w)))"
    using st dr sc assms(4) unfolding ucx_ctx_cancel_recv_def z_def by (simp add: y_def)
  have z: "heap z = heap w" "counters z = counters w" "handles z = handles w" "u_live z = u_live w" "\<not> mutex_locked z" "ucx z = u"
    using assms(3) by (simp_all add: z_def y_def ucx_unlock_def)
  let ?v = "completed (\<lambda>r. r\<lparr>m_self_ptr := None, m_ready := True, m_canceled := True\<rparr>) p (detach lib r z)"
  have hz: "heap (detach lib r z) p = Some b" "\<not> m_ready (m_t b)" "m_self_ptr (m_t b) = Some p"
    using b z by (simp_all add: waiting_def)
  have "cancel_finish lib p z = Inr ?v"
    using cancel_finish_eq [of z p b r lib] cancel_request_eq [OF hz(1,3)] b lv z hz by (simp add: waiting_def)
  moreover have sd: "store_inv (detach lib r z)"
    by (rule store_inv_heap_cong [OF _ _ _ i(1)]) (simp_all add: z)
  have "canceled ?v p"
    unfolding canceled_def completed_heap [OF sd hz(1,2)] using hz(1) by (simp add: completed_def)
  moreover have "out vw u r"
  proof -
    have "progress_ok vw (ucp_request_cancel lib r (ucx w)) ((False, []), u)" "same_view vw (ucp_request_cancel lib r (ucx w)) (ucx w)"
      using assms(2,7) unfolding ucx_ok_def by metis+
    then show ?thesis
      using assms(6) by (simp add: progress_ok_def same_view_def)
  qed
  then have "out vw (ucx ?v) r \<and> \<not> u_live ?v r"
    using assms(2) hz(1) z(6) by (simp add: completed_def ucx_ok_def)
  ultimately show ?thesis
    using eq by simp
qed

theorem ucx_ctx_cancel_flag_witness:
  "\<exists>v. ucx_ctx_cancel_recv ex_ucx_lib (ucx_extern ex_ulog) 1 ((ex_uposted False [])\<lparr>cancel_found := True\<rparr>) = Some (Inr (True, v)) \<and>
     canceled v 1 \<and> out ex_view (ucx v) 0 \<and> \<not> u_live v 0"
proof -
  let ?w = "(ex_uposted False [])\<lparr>cancel_found := True\<rparr>"
  have "uinv ex_view {} {} ?w \<longleftrightarrow> uinv ex_view {} {} (ex_uposted False [])"
  proof (rule uinv_cong)
    show "ready_list q ?w = ready_list q (ex_uposted False [])" for q
      by (cases q) simp_all
  qed (simp_all add: same_view_def)
  then have i: "uinv ex_view {} {} ?w"
    using ex_uposted_inv(1) by blast
  have "target ?w 0 = Some 1" "out ex_view (ucx ?w) 0" "cancel_found ?w" "\<not> mutex_locked ?w"
    by (simp_all add: ex_uposted_def target_def rd_construct_def ex_view_def ex_uinit_def ucx_init_def)
  moreover have "ucp_worker_progress ex_ucx_lib Recv_worker (ucp_request_cancel ex_ucx_lib 0 (ucx ?w)) = ((False, []), ucx ?w)"
    by (simp add: ex_ucx_lib_def ex_progress_def ex_uposted_def)
  ultimately show ?thesis
    using ucx_ctx_cancel_flag [OF i ex_ucx_ok] by blast
qed

end
