(* ===== verification/Context_Base.thy ===== *)
theory Context_Base
  imports Oomph_Prelude
begin

text \<open>
  Construction of a context (\<open>context_base.hpp\<close>, \<open>mpi_comm.hpp\<close>, \<open>rank_topology.cpp\<close>) and the holder of
  its MPI communicator (\<open>mpi_comm_holder.hpp\<close>, \<open>moved_bit.hpp\<close>).  The MPI calls are fields of a record.
\<close>

section \<open>MPI\<close>

record mpi_env =
  env_comm_rank :: "nat \<Rightarrow> int \<times> rank_type"
  env_comm_size :: "nat \<Rightarrow> int \<times> rank_type"
  env_split_shared :: "nat \<Rightarrow> rank_type \<Rightarrow> int \<times> nat"
  env_allgather :: "nat \<Rightarrow> rank_type \<Rightarrow> rank_type list"
  env_comm_free :: "nat \<Rightarrow> int"
  env_query_thread :: "int \<times> int"

definition MPI_THREAD_SINGLE :: int where "MPI_THREAD_SINGLE = 0"
definition MPI_THREAD_MULTIPLE :: int where "MPI_THREAD_MULTIPLE = 3"

definition mpi_checked :: "int \<times> 'a \<Rightarrow> 'a result" where
  "mpi_checked r = (if fst r \<noteq> 0 then Inl (Runtime_error ''OOMPH Error: MPI Call failed'') else Inr (snd r))"

section \<open>Communicator with rank and size\<close>

record mpi_comm =
  mc_comm :: nat
  mc_rank :: rank_type
  mc_size :: rank_type

definition mpi_comm_ctor :: "mpi_env \<Rightarrow> nat \<Rightarrow> mpi_comm result" where
  "mpi_comm_ctor env comm =
     bind_res (mpi_checked (env_comm_rank env comm)) (\<lambda>r.
     bind_res (mpi_checked (env_comm_size env comm)) (\<lambda>s.
     Inr \<lparr>mc_comm = comm, mc_rank = r, mc_size = s\<rparr>))"

section \<open>Topology\<close>

record rank_topology =
  rt_comm :: nat
  rt_rank :: rank_type
  rt_rank_set :: "rank_type set"

text \<open>The vector of \<open>size\<close> zeros is overwritten by the gathered ranks.\<close>

definition rank_topology_ctor :: "mpi_env \<Rightarrow> nat \<Rightarrow> rank_topology result" where
  "rank_topology_ctor env comm =
     bind_res (mpi_checked (env_comm_rank env comm)) (\<lambda>rank.
     bind_res (mpi_checked (env_split_shared env comm rank)) (\<lambda>shared.
     bind_res (mpi_checked (env_comm_rank env shared)) (\<lambda>local.
     bind_res (mpi_checked (env_comm_size env shared)) (\<lambda>sz.
     let ranks = overwrite (env_allgather env shared rank) (replicate (unat sz) 0) in
     bind_res (mpi_checked (env_comm_free env shared, ())) (\<lambda>_.
     Inr \<lparr>rt_comm = comm, rt_rank = local, rt_rank_set = set ranks\<rparr>)))))"

definition is_local :: "rank_topology \<Rightarrow> rank_type \<Rightarrow> bool" where
  "is_local t r \<longleftrightarrow> r \<in> rt_rank_set t"

definition local_size :: "rank_topology \<Rightarrow> nat" where
  "local_size t = card (rt_rank_set t)"

section \<open>Context base\<close>

record context_base =
  cb_mpi_comm :: mpi_comm
  cb_thread_safe :: bool
  cb_topology :: rank_topology

text \<open>The second component of the result tells whether the warning is printed.\<close>

definition context_base_ctor :: "mpi_env \<Rightarrow> nat \<Rightarrow> bool \<Rightarrow> (context_base \<times> bool) result" where
  "context_base_ctor env comm thread_safe =
     bind_res (mpi_comm_ctor env comm) (\<lambda>mc.
     bind_res (rank_topology_ctor env comm) (\<lambda>rt.
     bind_res (mpi_checked (env_query_thread env)) (\<lambda>safety.
     let ctx = \<lparr>cb_mpi_comm = mc, cb_thread_safe = thread_safe, cb_topology = rt\<rparr> in
     if thread_safe \<and> safety \<noteq> MPI_THREAD_MULTIPLE then Inl (Runtime_error ''oomph: MPI is not thread safe!'')
     else Inr (ctx, \<not> thread_safe \<and> safety \<noteq> MPI_THREAD_SINGLE \<and> mc_rank mc = 0))))"

text \<open>A process that is one of \<open>n\<close>, with rank \<open>r\<close>, on a machine where \<open>node\<close> says on which node a rank
  runs: the split communicator (\<open>shared\<close>) has the ranks of the node of \<open>r\<close> in order.\<close>

definition env_ok :: "mpi_env \<Rightarrow> nat \<Rightarrow> nat \<Rightarrow> nat \<Rightarrow> (nat \<Rightarrow> nat) \<Rightarrow> bool" where
  "env_ok env comm n r node \<longleftrightarrow>
     (let here = filter (\<lambda>i. node i = node r) [0..<n] in
      r < n \<and> n < 2 ^ 31 \<and> env_comm_rank env comm = (0, of_nat r) \<and> env_comm_size env comm = (0, of_nat n) \<and>
      (\<exists>shared. env_split_shared env comm (of_nat r) = (0, shared) \<and> env_comm_free env shared = 0 \<and>
         env_comm_rank env shared = (0, of_nat (length (filter (\<lambda>i. i < r) here))) \<and>
         env_comm_size env shared = (0, of_nat (length here)) \<and>
         env_allgather env shared (of_nat r) = map of_nat here) \<and>
      fst (env_query_thread env) = 0)"

lemma of_nat_rank_inj: "i < 2 ^ 31 \<Longrightarrow> j < 2 ^ 31 \<Longrightarrow> of_nat i = (of_nat j :: rank_type) \<longleftrightarrow> i = j"
  by (auto dest!: arg_cong [of _ _ unat] simp: unat_of_nat)

lemma rank_topology_correct:
  assumes "env_ok env comm n r node"
  shows "\<exists>t. rank_topology_ctor env comm = Inr t \<and> (\<forall>i < n. is_local t (of_nat i) \<longleftrightarrow> node i = node r) \<and>
    local_size t = card {i. i < n \<and> node i = node r} \<and> unat (rt_rank t) < local_size t"
proof -
  let ?here = "filter (\<lambda>i. node i = node r) [0..<n]"
  obtain shared where e: "r < n" "n < 2 ^ 31" "env_comm_rank env comm = (0, of_nat r)"
      "env_split_shared env comm (of_nat r) = (0, shared)" "env_comm_free env shared = 0"
      "env_comm_rank env shared = (0, of_nat (length (filter (\<lambda>i. i < r) ?here)))"
      "env_comm_size env shared = (0, of_nat (length ?here))" "env_allgather env shared (of_nat r) = map of_nat ?here"
    using assms by (auto simp: env_ok_def Let_def)
  have st: "set ?here = {i. i < n \<and> node i = node r}"
    by auto
  have ln: "length ?here = card {i. i < n \<and> node i = node r}"
    using distinct_card [of ?here] st by simp
  have small: "length ?here < 2 ^ 32"
    using length_filter_le [of "\<lambda>i. node i = node r" "[0..<n]"] e(2) by simp
  let ?t = "\<lparr>rt_comm = comm, rt_rank = of_nat (length (filter (\<lambda>i. i < r) ?here)), rt_rank_set = of_nat ` set ?here\<rparr> :: rank_topology"
  have "unat (of_nat (length ?here) :: rank_type) = length ?here"
    using small by (simp add: unat_of_nat)
  then have "rank_topology_ctor env comm = Inr ?t"
    using e by (simp add: rank_topology_ctor_def mpi_checked_def overwrite_def Let_def)
  moreover have "is_local ?t (of_nat i) \<longleftrightarrow> node i = node r" if "i < n" for i
  proof -
    have "of_nat i = (of_nat j :: rank_type) \<longleftrightarrow> i = j" if "j < n" for j
      using \<open>i < n\<close> that e(2) by (intro of_nat_rank_inj) auto
    then show ?thesis
      using that st by (auto simp: is_local_def)
  qed
  moreover have c: "local_size ?t = card {i. i < n \<and> node i = node r}"
  proof -
    have "inj_on (of_nat :: nat \<Rightarrow> rank_type) (set ?here)"
      using e(2) by (intro inj_onI) (auto simp: of_nat_rank_inj)
    then show ?thesis
      unfolding local_size_def st [symmetric] by (simp add: card_image)
  qed
  moreover have "unat (rt_rank ?t) < local_size ?t"
  proof -
    have "length (filter (\<lambda>i. i < r) ?here) < length ?here"
      using e(1) by (intro length_filter_less [of r]) auto
    then show ?thesis
      using small c ln by (simp add: unat_of_nat)
  qed
  ultimately show ?thesis
    by blast
qed

lemma context_base_thread_safety:
  assumes "env_ok env comm n r node"
  shows "(\<exists>c. context_base_ctor env comm ts = Inr c) \<longleftrightarrow> (ts \<longrightarrow> snd (env_query_thread env) = MPI_THREAD_MULTIPLE)"
proof -
  obtain t where "rank_topology_ctor env comm = Inr t"
    using rank_topology_correct [OF assms] by blast
  then show ?thesis
    using assms by (auto simp: context_base_ctor_def mpi_comm_ctor_def mpi_checked_def env_ok_def Let_def)
qed

section \<open>The holder of the MPI communicator\<close>

text \<open>Objects of class \<open>mpi_comm_holder\<close> live in variables.  Each holds a communicator and a \<open>moved_bit\<close>;
  \<open>live\<close> says which duplicated communicators have not been freed.\<close>

record comm_holder =
  ch_m :: nat
  ch_moved :: bool

record holder_state =
  holders :: "nat \<Rightarrow> comm_holder option"
  comm_live :: "nat \<Rightarrow> bool"

text \<open>\<open>moved_bit\<close>: the move constructor and the move assignment take the bit and set the other's.\<close>

definition moved_bit_move :: "bool \<Rightarrow> bool \<times> bool" where
  "moved_bit_move other = (other, True)"

text \<open>\<open>c\<close> is the communicator \<open>MPI_Comm_dup\<close> returns.\<close>

definition holder_ctor :: "nat \<Rightarrow> nat \<Rightarrow> holder_state \<Rightarrow> holder_state" where
  "holder_ctor i c s = s\<lparr>holders := (holders s)(i \<mapsto> \<lparr>ch_m = c, ch_moved = False\<rparr>), comm_live := (comm_live s)(c := True)\<rparr>"

definition holder_move :: "nat \<Rightarrow> nat \<Rightarrow> holder_state \<Rightarrow> holder_state result" where
  "holder_move i j s =
     (case holders s j of
        None \<Rightarrow> Inl (Undefined_behaviour ''no such holder'')
      | Some h \<Rightarrow>
          (case moved_bit_move (ch_moved h) of (b, b') \<Rightarrow>
             Inr (s\<lparr>holders := (holders s)(j \<mapsto> h\<lparr>ch_moved := b'\<rparr>, i \<mapsto> \<lparr>ch_m = ch_m h, ch_moved = b\<rparr>)\<rparr>)))"

definition holder_dtor :: "nat \<Rightarrow> holder_state \<Rightarrow> holder_state result" where
  "holder_dtor i s =
     (case holders s i of
        None \<Rightarrow> Inl (Undefined_behaviour ''no such holder'')
      | Some h \<Rightarrow>
          if ch_moved h then Inr (s\<lparr>holders := (holders s)(i := None)\<rparr>)
          else if comm_live s (ch_m h)
          then Inr (s\<lparr>holders := (holders s)(i := None), comm_live := (comm_live s)(ch_m h := False)\<rparr>)
          else Inl (Undefined_behaviour ''communicator freed twice''))"

definition holder_owns :: "holder_state \<Rightarrow> nat \<Rightarrow> nat option" where
  "holder_owns s i = (case holders s i of None \<Rightarrow> None | Some h \<Rightarrow> if ch_moved h then None else Some (ch_m h))"

definition holder_inv :: "holder_state \<Rightarrow> bool" where
  "holder_inv s \<longleftrightarrow> uniquely (holder_owns s) (comm_live s)"

lemma holder_inv_ctor:
  assumes "holder_inv s" "holders s i = None" "\<not> comm_live s c"
  shows "holder_inv (holder_ctor i c s)"
proof -
  have "holder_owns s i = None"
    using assms(2) by (simp add: holder_owns_def)
  moreover have "holder_owns (holder_ctor i c s) = (holder_owns s)(i := Some c)"
    by (auto simp: holder_owns_def holder_ctor_def)
  ultimately show ?thesis
    using uniquely_take [of "holder_owns s" "comm_live s" i c] assms by (simp add: holder_inv_def holder_ctor_def)
qed

text \<open>The move constructor: the new object is a fresh variable.\<close>

lemma holder_inv_move:
  assumes "holder_inv s" "holders s i = None" "holders s j \<noteq> None"
  shows "\<exists>v. holder_move i j s = Inr v \<and> holder_inv v"
proof -
  obtain h where h: "holders s j = Some h"
    using assms(3) by blast
  have ij: "i \<noteq> j" and n: "holder_owns s i = None"
    using assms(2) h by (auto simp: holder_owns_def)
  let ?v = "s\<lparr>holders := (holders s)(j \<mapsto> h\<lparr>ch_moved := True\<rparr>, i \<mapsto> \<lparr>ch_m = ch_m h, ch_moved = ch_moved h\<rparr>)\<rparr>"
  have "holder_owns ?v = (holder_owns s)(j := None, i := holder_owns s j)"
    using ij h by (auto simp: holder_owns_def)
  then have "holder_inv ?v"
    using uniquely_move [of "holder_owns s" "comm_live s" i j] assms(1) n by (simp add: holder_inv_def)
  then show ?thesis
    using h by (simp add: holder_move_def moved_bit_move_def)
qed

lemma holder_inv_dtor:
  assumes "holder_inv s" "holders s i \<noteq> None"
  shows "\<exists>v. holder_dtor i s = Inr v \<and> holder_inv v"
proof -
  obtain h where h: "holders s i = Some h"
    using assms(2) by blast
  have live: "comm_live s (ch_m h)" if "\<not> ch_moved h"
    using uniquely_live [of "holder_owns s" "comm_live s" i] assms(1) h that by (simp add: holder_inv_def holder_owns_def)
  let ?v = "if ch_moved h then s\<lparr>holders := (holders s)(i := None)\<rparr>
    else s\<lparr>holders := (holders s)(i := None), comm_live := (comm_live s)(ch_m h := False)\<rparr>"
  have "holder_owns ?v = (holder_owns s)(i := None)" "comm_live ?v = (\<lambda>a. comm_live s a \<and> holder_owns s i \<noteq> Some a)"
    using h by (auto simp: holder_owns_def fun_eq_iff)
  then have "holder_inv ?v"
    using uniquely_drop [of "holder_owns s" "comm_live s" i] assms(1) by (simp only: holder_inv_def)
  moreover have "holder_dtor i s = Inr ?v"
    using h live by (simp add: holder_dtor_def)
  ultimately show ?thesis
    by blast
qed

text \<open>The move assignment is the same member-wise move, onto an object that may own a communicator:
  that communicator is then owned by nobody and never freed.\<close>

lemma holder_move_assign_leaks:
  assumes inv: "holder_inv s" and h: "holder_owns s i = Some a" "holder_owns s j = Some b" "i \<noteq> j"
  shows "\<exists>v. holder_move i j s = Inr v \<and> comm_live v a \<and> (\<forall>k. holder_owns v k \<noteq> Some a)"
proof -
  obtain g where g: "holders s j = Some g" "\<not> ch_moved g"
    using h(2) by (auto simp: holder_owns_def split: option.splits if_splits)
  let ?v = "s\<lparr>holders := (holders s)(j \<mapsto> g\<lparr>ch_moved := True\<rparr>, i \<mapsto> \<lparr>ch_m = ch_m g, ch_moved = False\<rparr>)\<rparr>"
  have ow: "holder_owns ?v = (holder_owns s)(j := None, i := holder_owns s j)"
    using h(3) g by (auto simp: holder_owns_def)
  have uq: "k = i" if "holder_owns s k = Some a" for k
    using inv h(1) that unfolding holder_inv_def uniquely_def by blast
  have "holder_owns ?v k \<noteq> Some a" for k
    using uq [of k] uq [of j] h(3) unfolding ow by auto
  moreover have "comm_live s a"
    using uniquely_live [of "holder_owns s" "comm_live s" i a] inv h(1) by (simp add: holder_inv_def)
  moreover have "holder_move i j s = Inr ?v"
    using g by (simp add: holder_move_def moved_bit_move_def)
  ultimately show ?thesis
    by auto
qed

end
