(* ===== verification/Ucx_Address.thy ===== *)
theory Ucx_Address
  imports Context_Base Ucx_Transport
begin

text \<open>
  How the ranks learn the addresses of each other's workers in the UCX transport: the database over MPI
  (\<open>ucx/address_db_mpi.hpp\<close>), the one over PMIx (\<open>ucx/address_db_pmi.hpp\<close>, \<open>ucx/pmi.hpp\<close>), and what
  \<open>worker_t::connect\<close> gets from either.  All ranks of the job are in the state, since the calls are
  collective; MPI and PMIx are parameters.
\<close>

type_synonym bytes = "8 word list"

section \<open>The interface of a database\<close>

text \<open>The interface (\<open>type_erased_address_db_t\<close>): \<open>init\<close>, called by all ranks with their
  addresses, and \<open>find\<close> at one of them.  \<open>ok\<close> says what is relied on of the library \<open>p\<close> below.\<close>

locale address_db =
  fixes ok :: "'p \<Rightarrow> nat \<Rightarrow> bool"
    and init_all :: "'p \<Rightarrow> bytes list \<Rightarrow> 's result"
    and find_at :: "'p \<Rightarrow> nat \<Rightarrow> rank_type \<Rightarrow> 's \<Rightarrow> bytes result"
  assumes init_find: "\<lbrakk>ok p (length as); length as < 2 ^ 31; \<forall>a\<in>set as. length a < 2 ^ 31\<rbrakk>
      \<Longrightarrow> \<exists>s. init_all p as = Inr s \<and> (\<forall>i<length as. \<forall>j<length as. find_at p i (of_nat j) s = Inr (as ! j))"
begin

definition db_view :: "'p \<Rightarrow> nat \<Rightarrow> 's \<Rightarrow> rank_type \<Rightarrow> bytes option" where
  "db_view p i s r = (case find_at p i r s of Inr a \<Rightarrow> Some a | Inl _ \<Rightarrow> None)"

lemma db_view_peer:
  assumes "ok p (length as)" "length as < 2 ^ 31" "\<forall>a\<in>set as. length a < 2 ^ 31" "init_all p as = Inr s"
    and "i < length as" "j < length as"
  shows "db_view p i s (of_nat j) = Some (as ! j)"
  using init_find [OF assms(1-3)] assms(4-6) by (auto simp: db_view_def)

lemma connect_peer:
  assumes "ok p (length as)" "length as < 2 ^ 31" "\<forall>a\<in>set as. length a < 2 ^ 31" "init_all p as = Inr s"
    and "i < length as" "j < length as"
    and "endpoint_cache w c (of_nat j) = None" "ucp_ep_create lib c (as ! j) (ucx w) = ((UCS_OK, ep), u)"
  shows "connect lib c (of_nat j) (w\<lparr>address_map := db_view p i s\<rparr>)
    = Inr (ep, w\<lparr>address_map := db_view p i s, ucx := u,
        endpoint_cache := (endpoint_cache w)(c := (endpoint_cache w c)(of_nat j \<mapsto> ep))\<rparr>)"
  using db_view_peer [OF assms(1-6)] assms(7,8) by (simp add: connect_def check_ucx_def)

end

section \<open>The database over MPI\<close>

text \<open>The database of one rank; \<open>adb_var\<close> is the local variable \<open>size\<close> of \<open>init\<close>.\<close>

record adb =
  adb_rank :: rank_type
  adb_size :: rank_type
  adb_value :: bytes
  adb_map :: "rank_type \<Rightarrow> bytes option"
  adb_var :: size_t

definition adb_ctor :: "rank_type \<Rightarrow> rank_type \<Rightarrow> adb" where
  "adb_ctor r n = \<lparr>adb_rank = r, adb_size = n, adb_value = [], adb_map = Map.empty, adb_var = 0\<rparr>"

definition adb_find :: "rank_type \<Rightarrow> adb \<Rightarrow> bytes result" where
  "adb_find k d =
     (case adb_map d k of
        Some a \<Rightarrow> Inr a
      | None \<Rightarrow> Inl (Runtime_error ''Cound not find peer address in the MPI address xdatabase.''))"

text \<open>The two broadcasts of round \<open>r\<close>, what a rank passes as the root and what it does with what it
  receives otherwise.  The vector made for the address has \<open>size\<close> zeros, of which the broadcast
  overwrites as many as come.\<close>

datatype bcast_call = Bcast_size rank_type | Bcast_data rank_type

datatype payload = P_size size_t | P_data bytes

fun call_root :: "bcast_call \<Rightarrow> rank_type" where
  "call_root (Bcast_size r) = r"
| "call_root (Bcast_data r) = r"

fun adb_offer :: "bcast_call \<Rightarrow> adb \<Rightarrow> payload" where
  "adb_offer (Bcast_size r) d = P_size (of_nat (length (adb_value d)))"
| "adb_offer (Bcast_data r) d = P_data (adb_value d)"

fun adb_accept :: "bcast_call \<Rightarrow> payload \<Rightarrow> adb \<Rightarrow> adb" where
  "adb_accept (Bcast_size r) (P_size n) d = (if r = adb_rank d then d else d\<lparr>adb_var := n\<rparr>)"
| "adb_accept (Bcast_data r) (P_data bs) d =
     (if r = adb_rank d then d
      else d\<lparr>adb_map := (adb_map d)(r \<mapsto>
             overwrite (take (unat (adb_var d)) bs) (replicate (unat (adb_var d)) 0))\<rparr>)"
| "adb_accept _ _ d = d"

text \<open>\<open>MPI_Bcast\<close> takes the root and what each rank passes, and gives a return code and what each rank
  has afterwards.  The loop of \<open>init\<close> does the same calls in the same order on every rank.\<close>

type_synonym mpi_bcast = "nat \<Rightarrow> payload list \<Rightarrow> int \<times> payload list"

definition adb_call :: "mpi_bcast \<Rightarrow> bcast_call \<Rightarrow> adb list \<Rightarrow> adb list result" where
  "adb_call bc c ds =
     bind_res (mpi_checked (bc (unat (call_root c)) (map (adb_offer c) ds)))
       (\<lambda>ps. Inr (map2 (adb_accept c) ps ds))"

definition init_calls :: "nat \<Rightarrow> bcast_call list" where
  "init_calls n = concat (map (\<lambda>r. [Bcast_size (of_nat r), Bcast_data (of_nat r)]) [0..<n])"

definition adb_set_own :: "bytes \<Rightarrow> adb \<Rightarrow> adb" where
  "adb_set_own a d = d\<lparr>adb_value := a, adb_map := (adb_map d)(adb_rank d \<mapsto> a)\<rparr>"

definition adb_init_all :: "mpi_bcast \<Rightarrow> bytes list \<Rightarrow> adb list result" where
  "adb_init_all bc as =
     (let n = length as in
      fold_res (adb_call bc) (init_calls n)
        (map2 (\<lambda>i a. adb_set_own a (adb_ctor (of_nat i) (of_nat n))) [0..<n] as))"

definition adb_find_at :: "mpi_bcast \<Rightarrow> nat \<Rightarrow> rank_type \<Rightarrow> adb list \<Rightarrow> bytes result" where
  "adb_find_at bc i r ds = adb_find r (ds ! i)"

text \<open>The documented behaviour of a broadcast among \<open>n\<close> ranks: all have what the root passed.\<close>

definition bcast_ok :: "mpi_bcast \<Rightarrow> nat \<Rightarrow> bool" where
  "bcast_ok bc n \<longleftrightarrow>
     (\<forall>r xs. r < n \<longrightarrow> length xs = n \<longrightarrow> bc r xs = (0, replicate n (xs ! r)))"

text \<open>After the rounds of the ranks below \<open>k\<close> a rank knows their addresses and its own, and nothing else.\<close>

definition adb_after :: "bytes list \<Rightarrow> nat \<Rightarrow> adb list \<Rightarrow> bool" where
  "adb_after as k ds \<longleftrightarrow> length ds = length as \<and>
     (\<forall>i<length as. adb_rank (ds ! i) = of_nat i \<and> adb_value (ds ! i) = as ! i \<and>
        (\<forall>r. adb_map (ds ! i) r =
           (if unat r < length as \<and> (unat r < k \<or> unat r = i) then Some (as ! unat r) else None)))"

lemma unat_rank: "j < 2 ^ 31 \<Longrightarrow> unat (of_nat j :: rank_type) = j"
  by (simp add: unat_of_nat)

lemma rank_inj: "i < 2 ^ 31 \<Longrightarrow> j < 2 ^ 31 \<Longrightarrow> (of_nat i :: rank_type) = of_nat j \<longleftrightarrow> i = j"
  by (metis unat_rank)

lemma adb_call_ok:
  assumes "bcast_ok bc (length ds)" "unat (call_root c) < length ds"
  shows "adb_call bc c ds = Inr (map (adb_accept c (adb_offer c (ds ! unat (call_root c)))) ds)"
  using assms by (simp add: adb_call_def bcast_ok_def mpi_checked_def zip_replicate1 o_def)

lemma adb_round:
  assumes bc: "bcast_ok bc (length as)" and n: "length as < 2 ^ 31"
    and len: "\<forall>a\<in>set as. length a < 2 ^ 31" and k: "k < length as" and ds: "adb_after as k ds"
  shows "\<exists>ds'. fold_res (adb_call bc) [Bcast_size (of_nat k), Bcast_data (of_nat k)] ds = Inr ds' \<and> adb_after as (Suc k) ds'"
proof -
  let ?k = "of_nat k :: rank_type" and ?n = "of_nat (length (as ! k)) :: size_t"
  have k2: "unat ?k = k" "k < 2 ^ 31"
    using n k by (simp_all add: unat_rank)
  have len_ds: "length ds = length as" and v: "adb_value (ds ! k) = as ! k"
    using ds k by (simp_all add: adb_after_def)
  have "length (as ! k) < 2 ^ 31"
    using len k by simp
  then have nk: "unat ?n = length (as ! k)"
    by (simp add: unat_of_nat)
  let ?d1 = "map (adb_accept (Bcast_size ?k) (P_size ?n)) ds"
  let ?d2 = "map (adb_accept (Bcast_data ?k) (P_data (as ! k))) ?d1"
  have 1: "adb_call bc (Bcast_size ?k) ds = Inr ?d1"
    using adb_call_ok [of bc ds "Bcast_size ?k"] bc k k2 len_ds v by simp
  have v1: "adb_value (?d1 ! k) = as ! k"
    using v k len_ds by simp
  have 2: "adb_call bc (Bcast_data ?k) ?d1 = Inr ?d2"
    using adb_call_ok [of bc ?d1 "Bcast_data ?k"] bc k k2 len_ds v1 by simp
  have "adb_after as (Suc k) ?d2"
    unfolding adb_after_def
  proof (intro conjI allI impI)
    fix i assume i: "i < length as"
    have d: "adb_rank (ds ! i) = of_nat i" "adb_value (ds ! i) = as ! i"
      and m: "\<And>r. adb_map (ds ! i) r = (if unat r < length as \<and> (unat r < k \<or> unat r = i) then Some (as ! unat r) else None)"
      using ds i by (simp_all add: adb_after_def)
    have e: "?k = of_nat i \<longleftrightarrow> i = k"
      using rank_inj [of k i] i n k2 by auto
    show "adb_rank (?d2 ! i) = of_nat i" "adb_value (?d2 ! i) = as ! i"
      using i len_ds d by simp_all
    fix r :: rank_type
    have "adb_map (?d2 ! i) = (if i = k then adb_map (ds ! i) else (adb_map (ds ! i))(?k \<mapsto> as ! k))"
      using i len_ds d e nk by (cases "i = k") (auto simp: overwrite_def)
    moreover have "r = ?k \<longleftrightarrow> unat r = k"
      using k2 by (simp add: word_unat_eq_iff)
    ultimately show "adb_map (?d2 ! i) r = (if unat r < length as \<and> (unat r < Suc k \<or> unat r = i) then Some (as ! unat r) else None)"
      using m [of r] k by (auto simp: less_Suc_eq)
  qed (simp add: len_ds)
  with 1 2 show ?thesis
    by simp
qed

lemma adb_rounds:
  assumes "bcast_ok bc (length as)" "length as < 2 ^ 31" "\<forall>a\<in>set as. length a < 2 ^ 31" "adb_after as 0 ds" "k \<le> length as"
  shows "\<exists>ds'. fold_res (adb_call bc) (init_calls k) ds = Inr ds' \<and> adb_after as k ds'"
  using assms(5)
proof (induction k)
  case 0
  then show ?case
    using assms(4) by (simp add: init_calls_def)
next
  case (Suc k)
  then obtain d where d: "fold_res (adb_call bc) (init_calls k) ds = Inr d" "adb_after as k d"
    by auto
  have "init_calls (Suc k) = init_calls k @ [Bcast_size (of_nat k), Bcast_data (of_nat k)]"
    by (simp add: init_calls_def)
  then have "fold_res (adb_call bc) (init_calls (Suc k)) ds
      = fold_res (adb_call bc) [Bcast_size (of_nat k), Bcast_data (of_nat k)] d"
    by (simp only: fold_res_append d(1) bind_res_simps)
  with adb_round [OF assms(1-3) _ d(2)] Suc.prems show ?case
    by simp
qed

lemma adb_start: "length as < 2 ^ 31 \<Longrightarrow>
    adb_after as 0 (map2 (\<lambda>i a. adb_set_own a (adb_ctor (of_nat i) (of_nat (length as)))) [0..<length as] as)"
  by (auto simp: adb_after_def adb_set_own_def adb_ctor_def unat_rank word_unat_eq_iff)

lemma adb_init_all_ok:
  assumes "bcast_ok bc (length as)" "length as < 2 ^ 31" "\<forall>a\<in>set as. length a < 2 ^ 31"
  shows "\<exists>ds. adb_init_all bc as = Inr ds \<and> adb_after as (length as) ds"
  using adb_rounds [OF assms adb_start [OF assms(2)] order_refl]
  by (simp add: adb_init_all_def Let_def)

lemma adb_after_find:
  "adb_after as (length as) ds \<Longrightarrow> i < length as \<Longrightarrow> adb_find r (ds ! i) =
     (if unat r < length as then Inr (as ! unat r)
      else Inl (Runtime_error ''Cound not find peer address in the MPI address xdatabase.''))"
  by (auto simp: adb_after_def adb_find_def)

interpretation mpi_db: address_db bcast_ok adb_init_all adb_find_at
proof
  fix bc :: mpi_bcast and as :: "bytes list"
  assume a: "bcast_ok bc (length as)" "length as < 2 ^ 31" "\<forall>a\<in>set as. length a < 2 ^ 31"
  then obtain ds where "adb_init_all bc as = Inr ds" "adb_after as (length as) ds"
    using adb_init_all_ok by blast
  with a(2) show "\<exists>s. adb_init_all bc as = Inr s \<and>
      (\<forall>i<length as. \<forall>j<length as. adb_find_at bc i (of_nat j) s = Inr (as ! j))"
    by (auto simp: adb_find_at_def adb_after_find unat_rank)
qed

section \<open>The database over PMIx\<close>

text \<open>The calls of PMIx, for the process with a given PMIx rank; \<open>'k\<close> is the state of the servers.  The
  exceptions are given without the name space, the rank and the code in their messages.\<close>

datatype pmix_value = Byte_object bytes | Other_value

record 'k pmix_lib =
  PMIx_Init :: "nat \<Rightarrow> int \<times> 32 word"
  PMIx_job_size :: "32 word \<Rightarrow> int \<times> 32 word"
  PMIx_Put :: "32 word \<Rightarrow> string \<Rightarrow> bytes \<Rightarrow> 'k \<Rightarrow> int \<times> 'k"
  PMIx_Commit :: "32 word \<Rightarrow> 'k \<Rightarrow> int \<times> 'k"
  PMIx_Fence :: "'k \<Rightarrow> int \<times> 'k"
  PMIx_Get :: "32 word \<Rightarrow> string \<Rightarrow> 'k \<Rightarrow> int \<times> pmix_value"

record pmi =
  myproc_rank :: "32 word"
  nprocs :: "32 word"

definition pmi_ctor :: "'k pmix_lib \<Rightarrow> nat \<Rightarrow> pmi result" where
  "pmi_ctor lib i =
     (case PMIx_Init lib i of (rc, r) \<Rightarrow>
        if rc \<noteq> 0 then Inl (Runtime_error ''PMIx_Init failed'')
        else case PMIx_job_size lib r of (rc, n) \<Rightarrow>
          if rc \<noteq> 0 then Inl (Runtime_error ''PMIx_Get job size failed'')
          else Inr \<lparr>myproc_rank = r, nprocs = n\<rparr>)"

definition pmi_set :: "'k pmix_lib \<Rightarrow> pmi \<Rightarrow> string \<Rightarrow> bytes \<Rightarrow> 'k \<Rightarrow> 'k result" where
  "pmi_set lib p key data k =
     (case PMIx_Put lib (myproc_rank p) key data k of (rc, k) \<Rightarrow>
        if rc \<noteq> 0 then Inl (Runtime_error ''PMIx_Put failed'')
        else case PMIx_Commit lib (myproc_rank p) k of (rc, k) \<Rightarrow>
          if rc \<noteq> 0 then Inl (Runtime_error ''PMIx_Commit failed'') else Inr k)"

definition pmi_get :: "'k pmix_lib \<Rightarrow> 32 word \<Rightarrow> string \<Rightarrow> 'k \<Rightarrow> bytes result" where
  "pmi_get lib peer key k =
     (case PMIx_Get lib peer key k of (rc, v) \<Rightarrow>
        if rc \<noteq> 0 then Inl (Runtime_error ''PMIx_Get'')
        else case v of Byte_object b \<Rightarrow> Inr b | Other_value \<Rightarrow> Inl (Runtime_error ''PMIx_Get''))"

definition pmi_exchange :: "'k pmix_lib \<Rightarrow> 'k \<Rightarrow> 'k result" where
  "pmi_exchange lib k =
     (case PMIx_Fence lib k of (rc, k) \<Rightarrow> if rc \<noteq> 0 then Inl (Runtime_error ''PMIx_Fence failed'') else Inr k)"

text \<open>\<open>std::to_string\<close> of an \<open>int\<close>.\<close>

fun decimal :: "nat \<Rightarrow> string" where
  "decimal n = (if n < 10 then [char_of (48 + n)] else decimal (n div 10) @ [char_of (48 + n mod 10)])"

declare decimal.simps [simp del]

definition to_string :: "int \<Rightarrow> string" where
  "to_string i = (if i < 0 then ''-'' @ decimal (nat (- i)) else decimal (nat i))"

text \<open>The database of one rank.  The constructor takes the number \<open>make_instance\<close> gives; the exchange
  of the PMIx ranks is collective and separate.\<close>

record apd =
  apd_pmi :: pmi
  apd_rank_map :: "rank_type list"
  apd_rank :: rank_type
  apd_size :: rank_type
  apd_suffix :: string
  apd_key :: string

definition apd_local :: "'k pmix_lib \<Rightarrow> nat \<Rightarrow> nat \<Rightarrow> int \<Rightarrow> apd result" where
  "apd_local lib n i inst =
     bind_res (pmi_ctor lib i) (\<lambda>p.
     let suffix = ''_'' @ to_string inst in
     if nprocs p \<noteq> of_nat n then Inl (Runtime_error ''PMIx and MPI sizes are different. Bailing out.'')
     else Inr \<lparr>apd_pmi = p, apd_rank_map = replicate n (myproc_rank p), apd_rank = myproc_rank p,
       apd_size = nprocs p, apd_suffix = suffix, apd_key = ''ghex-rank-address'' @ suffix\<rparr>)"

definition apd_remap :: "nat \<Rightarrow> rank_type list \<Rightarrow> apd \<Rightarrow> apd" where
  "apd_remap i m d = d\<lparr>apd_rank_map := m, apd_rank := of_nat i\<rparr>"

definition apd_find :: "'k pmix_lib \<Rightarrow> rank_type \<Rightarrow> 'k \<Rightarrow> apd \<Rightarrow> bytes result" where
  "apd_find lib r k d =
     (if length (apd_rank_map d) \<le> unat r then Inl (Undefined_behaviour ''rank out of range'')
      else case pmi_get lib (apd_rank_map d ! unat r) (apd_key d) k of
        Inl (Runtime_error msg) \<Rightarrow> Inl (Runtime_error (''PMIx could not find peer address: '' @ msg))
      | res \<Rightarrow> res)"

definition apd_put :: "'k pmix_lib \<Rightarrow> bytes \<Rightarrow> apd \<Rightarrow> 'k \<Rightarrow> 'k result" where
  "apd_put lib a d k = pmi_set lib (apd_pmi d) (apd_key d) a k"

text \<open>All ranks: construction with the all-to-all exchange, then \<open>init\<close>, in which the ranks put their
  addresses in any order (\<open>pe_order\<close>) and meet in the fence.\<close>

record 'k pmi_env =
  pe_lib :: "'k pmix_lib"
  pe_alltoall :: "rank_type list list \<Rightarrow> int \<times> rank_type list list"
  pe_instance :: "nat \<Rightarrow> int"
  pe_order :: "nat list"
  pe_store :: 'k

definition apd_ctor_all :: "'k pmi_env \<Rightarrow> nat \<Rightarrow> apd list result" where
  "apd_ctor_all e n =
     bind_res (map_res (\<lambda>i. apd_local (pe_lib e) n i (pe_instance e i)) [0..<n]) (\<lambda>ds.
     bind_res (mpi_checked (pe_alltoall e (map apd_rank_map ds))) (\<lambda>ms.
     Inr (map2 (\<lambda>i (m, d). apd_remap i m d) [0..<n] (zip ms ds))))"

definition apd_init_all :: "'k pmi_env \<Rightarrow> bytes list \<Rightarrow> (apd list \<times> 'k) result" where
  "apd_init_all e as =
     bind_res (apd_ctor_all e (length as)) (\<lambda>ds.
     bind_res (fold_res (\<lambda>i. apd_put (pe_lib e) (as ! i) (ds ! i)) (pe_order e) (pe_store e)) (\<lambda>k.
     bind_res (pmi_exchange (pe_lib e) k) (\<lambda>k. Inr (ds, k))))"

definition apd_find_at :: "'k pmi_env \<Rightarrow> nat \<Rightarrow> rank_type \<Rightarrow> apd list \<times> 'k \<Rightarrow> bytes result" where
  "apd_find_at e i r s = apd_find (pe_lib e) r (snd s) (fst s ! i)"

text \<open>What is relied on: PMIx knows \<open>n\<close> processes with different ranks; a value put is staged by its
  process, published by a commit, and seen by all after a fence; the all-to-all exchange transposes;
  every rank has made as many databases before, and takes part in \<open>init\<close> once.\<close>

definition pmix_ok ::
    "'k pmix_lib \<Rightarrow> ('k \<Rightarrow> 32 word \<Rightarrow> string \<Rightarrow> bytes option) \<Rightarrow> ('k \<Rightarrow> 32 word \<Rightarrow> string \<Rightarrow> bytes option) \<Rightarrow>
     ('k \<Rightarrow> 32 word \<Rightarrow> string \<Rightarrow> bytes option) \<Rightarrow> bool" where
  "pmix_ok lib staged committed visible \<longleftrightarrow>
     (\<forall>r key b k. fst (PMIx_Put lib r key b k) = 0 \<and>
        staged (snd (PMIx_Put lib r key b k)) = (staged k)(r := (staged k r)(key \<mapsto> b)) \<and>
        committed (snd (PMIx_Put lib r key b k)) = committed k) \<and>
     (\<forall>r k. fst (PMIx_Commit lib r k) = 0 \<and> staged (snd (PMIx_Commit lib r k)) = staged k \<and>
        committed (snd (PMIx_Commit lib r k)) = (committed k)(r := staged k r)) \<and>
     (\<forall>k. fst (PMIx_Fence lib k) = 0 \<and> visible (snd (PMIx_Fence lib k)) = committed k) \<and>
     (\<forall>r key b k. visible k r key = Some b \<longrightarrow> PMIx_Get lib r key k = (0, Byte_object b))"

definition pmi_env_ok :: "'k pmi_env \<Rightarrow> nat \<Rightarrow> bool" where
  "pmi_env_ok e n \<longleftrightarrow>
     (\<exists>staged committed visible. pmix_ok (pe_lib e) staged committed visible) \<and>
     (\<forall>i<n. fst (PMIx_Init (pe_lib e) i) = 0) \<and>
     inj_on (\<lambda>i. snd (PMIx_Init (pe_lib e) i)) {..<n} \<and>
     (\<forall>r. PMIx_job_size (pe_lib e) r = (0, of_nat n)) \<and>
     (\<forall>xss. length xss = n \<longrightarrow> pe_alltoall e xss = (0, map (\<lambda>i. map (\<lambda>xs. xs ! i) xss) [0..<n])) \<and>
     (\<forall>i<n. pe_instance e i = pe_instance e 0) \<and>
     set (pe_order e) = {..<n} \<and> distinct (pe_order e)"

lemma apd_ctor_all_ok:
  assumes "pmi_env_ok e n"
  defines "rk \<equiv> (\<lambda>i. snd (PMIx_Init (pe_lib e) i))" and "sfx \<equiv> ''_'' @ to_string (pe_instance e 0)"
  shows "apd_ctor_all e n = Inr (map (\<lambda>i. \<lparr>apd_pmi = \<lparr>myproc_rank = rk i, nprocs = of_nat n\<rparr>, apd_rank_map = map rk [0..<n],
    apd_rank = of_nat i, apd_size = of_nat n, apd_suffix = sfx, apd_key = ''ghex-rank-address'' @ sfx\<rparr>) [0..<n])"
proof -
  let ?g = "\<lambda>i. \<lparr>apd_pmi = \<lparr>myproc_rank = rk i, nprocs = of_nat n\<rparr>, apd_rank_map = replicate n (rk i),
    apd_rank = rk i, apd_size = of_nat n, apd_suffix = sfx, apd_key = ''ghex-rank-address'' @ sfx\<rparr>"
  have l: "map_res (\<lambda>i. apd_local (pe_lib e) n i (pe_instance e i)) [0..<n] = Inr (map ?g [0..<n])"
  proof (rule map_res_Inr)
    fix i assume "i \<in> set [0..<n]"
    then have i: "i < n"
      by simp
    have "fst (PMIx_Init (pe_lib e) i) = 0" "PMIx_job_size (pe_lib e) (rk i) = (0, of_nat n)"
      "pe_instance e i = pe_instance e 0"
      using assms(1) i unfolding pmi_env_ok_def by blast+
    moreover from this(1) have "PMIx_Init (pe_lib e) i = (0, rk i)"
      by (simp add: rk_def prod_eq_iff)
    ultimately show "apd_local (pe_lib e) n i (pe_instance e i) = Inr (?g i)"
      by (simp add: apd_local_def pmi_ctor_def Let_def sfx_def)
  qed
  have t: "map (\<lambda>i. map (\<lambda>xs. xs ! i) (map apd_rank_map (map ?g [0..<n]))) [0..<n] = replicate n (map rk [0..<n])"
    by (rule nth_equalityI) (simp_all add: o_def)
  have a: "pe_alltoall e xss = (0, map (\<lambda>i. map (\<lambda>xs. xs ! i) xss) [0..<n])" if "length xss = n" for xss
    using assms(1) that unfolding pmi_env_ok_def by blast
  have "pe_alltoall e (map apd_rank_map (map ?g [0..<n])) = (0, replicate n (map rk [0..<n]))"
    by (subst a) (simp, simp only: t)
  with l show ?thesis
    by (simp add: apd_ctor_all_def mpi_checked_def)
      (rule nth_equalityI, simp_all add: apd_remap_def)
qed

lemma apd_put_all:
  assumes p: "pmix_ok lib staged committed visible"
    and rk: "inj_on rk {..<n}" and ys: "set ys = {..<n}"
    and d: "\<And>i. i < n \<Longrightarrow> myproc_rank (apd_pmi (ds ! i)) = rk i \<and> apd_key (ds ! i) = key"
  shows "\<exists>k'. fold_res (\<lambda>i. apd_put lib (as ! i) (ds ! i)) ys k = Inr k' \<and> (\<forall>i<n. committed k' (rk i) key = Some (as ! i))"
proof -
  let ?I = "\<lambda>ys k. set ys \<subseteq> {..<n} \<and> (\<forall>i<n. i \<notin> set ys \<longrightarrow> committed k (rk i) key = Some (as ! i))"
  have "\<exists>k'. fold_res (\<lambda>i. apd_put lib (as ! i) (ds ! i)) ys k = Inr k' \<and> ?I [] k'"
  proof (rule fold_res_invariant)
    show "?I ys k"
      using ys by auto
    fix y ys k assume I: "?I (y # ys) k"
    then have y: "y < n"
      by simp
    let ?k1 = "snd (PMIx_Put lib (rk y) key (as ! y) k)"
    let ?k2 = "snd (PMIx_Commit lib (rk y) ?k1)"
    have "apd_put lib (as ! y) (ds ! y) k = Inr ?k2"
      using p d [OF y] by (simp add: apd_put_def pmi_set_def pmix_ok_def split_def)
    moreover have c: "committed ?k2 = (committed k)(rk y := (staged k (rk y))(key \<mapsto> as ! y))"
      using p by (simp add: pmix_ok_def)
    have "committed ?k2 (rk i) key = Some (as ! i)" if i: "i < n" "i \<notin> set ys" for i
    proof (cases "i = y")
      case False
      then have "rk i \<noteq> rk y"
        using rk i y by (auto dest: inj_onD)
      with c I i False show ?thesis
        by simp
    qed (simp add: c)
    ultimately show "\<exists>k'. apd_put lib (as ! y) (ds ! y) k = Inr k' \<and> ?I ys k'"
      using I by auto
  qed
  then show ?thesis
    by simp
qed

interpretation pmi_db: address_db pmi_env_ok apd_init_all apd_find_at
proof
  fix e :: "'k pmi_env" and as :: "bytes list"
  let ?n = "length as" and ?rk = "\<lambda>i. snd (PMIx_Init (pe_lib e) i)"
  assume ok: "pmi_env_ok e ?n" and n: "?n < 2 ^ 31"
  define key where "key = ''ghex-rank-address'' @ ''_'' @ to_string (pe_instance e 0)"
  obtain ds where ds: "apd_ctor_all e ?n = Inr ds"
    and d: "\<And>i. i < ?n \<Longrightarrow> myproc_rank (apd_pmi (ds ! i)) = ?rk i \<and> apd_key (ds ! i) = key"
    and m: "\<And>i. i < ?n \<Longrightarrow> apd_rank_map (ds ! i) = map ?rk [0..<?n]"
    using apd_ctor_all_ok [OF ok] by (simp add: key_def)
  obtain staged committed visible where p: "pmix_ok (pe_lib e) staged committed visible"
    using ok by (auto simp: pmi_env_ok_def)
  have "inj_on ?rk {..<?n}" "set (pe_order e) = {..<?n}"
    using ok by (simp_all add: pmi_env_ok_def)
  from apd_put_all [OF p this d] obtain k where
    k: "fold_res (\<lambda>i. apd_put (pe_lib e) (as ! i) (ds ! i)) (pe_order e) (pe_store e) = Inr k"
      "\<forall>i<?n. committed k (?rk i) key = Some (as ! i)"
    by blast
  let ?k = "snd (PMIx_Fence (pe_lib e) k)"
  have f: "pmi_exchange (pe_lib e) k = Inr ?k" "visible ?k = committed k"
    using p by (simp_all add: pmix_ok_def pmi_exchange_def split_def)
  have g: "PMIx_Get (pe_lib e) (?rk j) key ?k = (0, Byte_object (as ! j))" if "j < ?n" for j
    using p k(2) f(2) that unfolding pmix_ok_def by simp
  have "apd_find_at e i (of_nat j) (ds, ?k) = Inr (as ! j)" if i: "i < ?n" "j < ?n" for i j
    using m [OF i(1)] d [OF i(1)] g [OF i(2)] i(2) n
    by (simp add: apd_find_at_def apd_find_def pmi_get_def unat_rank)
  with ds k(1) f(1) show "\<exists>s. apd_init_all e as = Inr s \<and>
      (\<forall>i<?n. \<forall>j<?n. apd_find_at e i (of_nat j) s = Inr (as ! j))"
    by (intro exI [of _ "(ds, ?k)"]) (simp add: apd_init_all_def)
qed

section \<open>The exchange as a directory\<close>

text \<open>C24: For any addresses of the ranks' workers, when every rank calls \<open>init\<close> of the database over MPI,
  all calls return, and the databases of all ranks then are one and the same directory: \<open>find(r)\<close> gives
  the address of rank \<open>r\<close>, byte for byte, for every rank of the communicator, and the exception of the
  code for every other number.  Relied on is that a broadcast gives all ranks what the root passed, and
  that ranks and sizes of addresses fit an \<open>int\<close>.\<close>

theorem exchange_directory:
  assumes "bcast_ok bc (length as)" "length as < 2 ^ 31" "\<forall>a\<in>set as. length a < 2 ^ 31"
  shows "\<exists>ds. adb_init_all bc as = Inr ds \<and> length ds = length as \<and>
    (\<forall>i<length as. \<forall>r. adb_find r (ds ! i) =
       (if unat r < length as then Inr (as ! unat r)
        else Inl (Runtime_error ''Cound not find peer address in the MPI address xdatabase.'')))"
  using adb_init_all_ok [OF assms] adb_after_find by (fastforce simp: adb_after_def)

theorem exchange_directory_witness:
  "\<exists>ds. adb_init_all (\<lambda>r xs. (0, replicate (length xs) (xs ! r))) [[1, 2], [], [3]] = Inr ds \<and>
     adb_find 0 (ds ! 2) = Inr [1, 2] \<and> adb_find 2 (ds ! 1) = Inr [3] \<and> adb_find 1 (ds ! 0) = Inr [] \<and>
     adb_find (-1) (ds ! 0) = Inl (Runtime_error ''Cound not find peer address in the MPI address xdatabase.'')"
proof -
  let ?bc = "\<lambda>r xs. (0, replicate (length xs) (xs ! r)) :: int \<times> payload list" and ?as = "[[1, 2], [], [3]] :: bytes list"
  have "bcast_ok ?bc (length ?as)" "length ?as < 2 ^ 31" "\<forall>a\<in>set ?as. length a < 2 ^ 31"
    by (simp_all add: bcast_ok_def)
  from exchange_directory [OF this] obtain ds where ds: "adb_init_all ?bc ?as = Inr ds"
    and f: "\<forall>i<3. \<forall>r. adb_find r (ds ! i) = (if unat r < 3 then Inr (?as ! unat r)
        else Inl (Runtime_error ''Cound not find peer address in the MPI address xdatabase.''))"
    by auto
  have "unat (-1 :: rank_type) = 2 ^ 32 - 1"
    by (simp add: unsigned_minus_1_eq_mask mask_eq_exp_minus_1)
  then show ?thesis
    using ds f by (intro exI [of _ ds]) simp
qed

end
