(* ===== verification/Ucx_Endpoints.thy ===== *)
theory Ucx_Endpoints
  imports Complex_Main Context_Base Ucx_Transport
begin

text \<open>
  The end of a UCX context: endpoints and their close handles (\<open>ucx/endpoint.hpp\<close>), the destructors of the
  communicator (\<open>ucx/communicator.hpp\<close>) and of the context (\<open>ucx/context.cpp\<close>), and the worker handle
  (\<open>ucx/worker.hpp\<close>).  Sends and receives have completed by then, so the calls of
  \<open>ucp_worker_progress\<close> run no callback of the library.
\<close>

section \<open>Endpoints and close handles\<close>

record 'u close_lib =
  cl_worker_progress :: "nat \<Rightarrow> 'u \<Rightarrow> 'u"
  cl_check_status :: "nat \<Rightarrow> 'u \<Rightarrow> int"
  cl_request_free :: "nat \<Rightarrow> 'u \<Rightarrow> 'u"
  cl_ep_close_nb :: "nat \<Rightarrow> 'u \<Rightarrow> ucs_ptr \<times> 'u"

record endpoint =
  ep_rank :: rank_type
  ep_h :: nat
  ep_worker :: nat
  ep_moved :: bool

definition endpoint_move :: "endpoint \<Rightarrow> endpoint \<times> endpoint" where
  "endpoint_move other =
     (case moved_bit_move (ep_moved other) of (b, b') \<Rightarrow> (other\<lparr>ep_moved := b\<rparr>, other\<lparr>ep_moved := b'\<rparr>))"

record close_handle =
  ch_done :: bool
  ch_worker :: nat
  ch_status :: nat

text \<open>The default handle leaves the other members uninitialised; they are not read.\<close>

definition ch_default :: close_handle where
  "ch_default = \<lparr>ch_done = True, ch_worker = 0, ch_status = 0\<rparr>"

definition ch_ctor :: "nat \<Rightarrow> nat \<Rightarrow> close_handle" where
  "ch_ctor wk status = \<lparr>ch_done = False, ch_worker = wk, ch_status = status\<rparr>"

definition ch_move :: "close_handle \<Rightarrow> close_handle \<times> close_handle" where
  "ch_move other = (other, other\<lparr>ch_done := True\<rparr>)"

text \<open>The state: UCX, and which of the requests that closing returned have not been freed.\<close>

record 'u close_world =
  cw_alloc :: "nat \<Rightarrow> bool"
  cw_u :: 'u

definition cw_progress :: "'u close_lib \<Rightarrow> nat \<Rightarrow> 'u close_world \<Rightarrow> 'u close_world" where
  "cw_progress lib wk w = w\<lparr>cw_u := cl_worker_progress lib wk (cw_u w)\<rparr>"

definition cw_free :: "'u close_lib \<Rightarrow> nat \<Rightarrow> 'u close_world \<Rightarrow> 'u close_world result" where
  "cw_free lib r w =
     (if cw_alloc w r then Inr \<lparr>cw_alloc = (cw_alloc w)(r := False), cw_u = cl_request_free lib r (cw_u w)\<rparr>
      else Inl (Undefined_behaviour ''close request freed twice''))"

definition ch_progress :: "'u close_lib \<Rightarrow> close_handle \<Rightarrow> 'u close_world \<Rightarrow> (close_handle \<times> 'u close_world) result" where
  "ch_progress lib h w =
     (if \<not> ch_done h then
        let w = cw_progress lib (ch_worker h) w in
        if UCS_OK \<noteq> cl_check_status lib (ch_status h) (cw_u w)
        then bind_res (cw_free lib (ch_status h) w) (\<lambda>w. Inr (h\<lparr>ch_done := True\<rparr>, w))
        else Inr (h, w)
      else Inr (h, w))"

definition ch_ready :: "'u close_lib \<Rightarrow> close_handle \<Rightarrow> 'u close_world \<Rightarrow> (bool \<times> close_handle \<times> 'u close_world) result" where
  "ch_ready lib h w = bind_res (ch_progress lib h w) (\<lambda>(h, w). Inr (ch_done h, h, w))"

definition endpoint_close :: "'u close_lib \<Rightarrow> endpoint \<Rightarrow> 'u close_world \<Rightarrow> close_handle \<times> 'u close_world" where
  "endpoint_close lib ep w =
     (if ep_moved ep then (ch_default, w)
      else case cl_ep_close_nb lib (ep_h ep) (cw_u w) of
        (Ucs_ok, u) \<Rightarrow> (ch_default, w\<lparr>cw_u := u\<rparr>)
      | (Ucs_err _, u) \<Rightarrow> (ch_default, w\<lparr>cw_u := u\<rparr>)
      | (Ucs_ptr r, u) \<Rightarrow> (ch_ctor (ep_worker ep) r, \<lparr>cw_alloc = (cw_alloc w)(r := True), cw_u = u\<rparr>))"

section \<open>Destructors\<close>

text \<open>The destructor of the communicator: all endpoints in the cache of its worker; \<open>hs\<close> is
  \<open>m_endpoint_handles\<close>.\<close>

fun ucx_comm_dtor :: "'u close_lib \<Rightarrow> endpoint list \<Rightarrow> close_handle list \<Rightarrow> 'u close_world \<Rightarrow> (close_handle list \<times> 'u close_world) result" where
  "ucx_comm_dtor lib [] hs w = Inr (hs, w)"
| "ucx_comm_dtor lib (ep # eps) hs w =
     (case endpoint_close lib ep w of (h, w) \<Rightarrow>
        bind_res (ch_progress lib h w) (\<lambda>(h, w). ucx_comm_dtor lib eps (hs @ [h]) w))"

text \<open>One pass of the loop over the handles: those that are not ready are moved to \<open>tmp\<close>.\<close>

fun close_round :: "'u close_lib \<Rightarrow> nat \<Rightarrow> close_handle list \<Rightarrow> 'u close_world \<Rightarrow> (close_handle list \<times> 'u close_world) result" where
  "close_round lib rw [] w = Inr ([], w)"
| "close_round lib rw (h # hs) w =
     bind_res (ch_ready lib h (cw_progress lib rw w)) (\<lambda>(b, h, w).
     bind_res (close_round lib rw hs w) (\<lambda>(tmp, w).
     Inr (if b then tmp else fst (ch_move h) # tmp, w)))"

text \<open>The loop: \<open>clock k\<close> is the time in milliseconds measured at the end of pass \<open>k\<close>.\<close>

definition t_timeout :: real where "t_timeout = 1000"

partial_function (option) close_loop ::
    "'u close_lib \<Rightarrow> nat \<Rightarrow> (nat \<Rightarrow> real) \<Rightarrow> nat \<Rightarrow> real \<Rightarrow> close_handle list \<Rightarrow> 'u close_world \<Rightarrow> (close_handle list \<times> 'u close_world) result option" where
  "close_loop lib rw clock k elapsed hs w =
     (if hs \<noteq> [] \<and> elapsed < t_timeout then
        (case close_round lib rw hs w of
           Inl e \<Rightarrow> Some (Inl e)
         | Inr (tmp, w) \<Rightarrow> close_loop lib rw clock (Suc k) (clock k) tmp w)
      else Some (Inr (hs, w)))"

text \<open>The loop around the second barrier; \<open>test k\<close> is the flag of the \<open>k\<close>-th \<open>MPI_Test\<close>.\<close>

partial_function (option) ibarrier_loop ::
    "'u close_lib \<Rightarrow> nat \<Rightarrow> (nat \<Rightarrow> bool) \<Rightarrow> nat \<Rightarrow> 'u close_world \<Rightarrow> 'u close_world option" where
  "ibarrier_loop lib rw test k w =
     (let w = cw_progress lib rw w in if test k then Some w else ibarrier_loop lib rw test (Suc k) w)"

definition ucx_ctx_dtor ::
    "'u close_lib \<Rightarrow> nat \<Rightarrow> (nat \<Rightarrow> real) \<Rightarrow> (nat \<Rightarrow> bool) \<Rightarrow> close_handle list list \<Rightarrow> 'u close_world \<Rightarrow> 'u close_world result option" where
  "ucx_ctx_dtor lib rw clock test workers w =
     bind_opt (close_loop lib rw clock 0 0 (map (fst \<circ> ch_move) (concat workers)) w) (\<lambda>(hs, w).
     bind_opt (Some (fold_res (\<lambda>h. cw_free lib (ch_status h)) hs w)) (\<lambda>w.
     map_option Inr (ibarrier_loop lib rw test 0 w)))"

text \<open>All communicators are destroyed, then the context; \<open>caches\<close> are the endpoints of their workers.\<close>

fun comm_dtors :: "'u close_lib \<Rightarrow> endpoint list list \<Rightarrow> 'u close_world \<Rightarrow> (close_handle list list \<times> 'u close_world) result" where
  "comm_dtors lib [] w = Inr ([], w)"
| "comm_dtors lib (c # cs) w =
     bind_res (ucx_comm_dtor lib c [] w) (\<lambda>(hs, w).
     bind_res (comm_dtors lib cs w) (\<lambda>(hss, w). Inr (hs # hss, w)))"

definition ucx_shutdown ::
    "'u close_lib \<Rightarrow> nat \<Rightarrow> (nat \<Rightarrow> real) \<Rightarrow> (nat \<Rightarrow> bool) \<Rightarrow> endpoint list list \<Rightarrow> 'u close_world \<Rightarrow> 'u close_world result option" where
  "ucx_shutdown lib rw clock test caches w =
     bind_opt (Some (comm_dtors lib caches w)) (\<lambda>(hss, w). ucx_ctx_dtor lib rw clock test hss w)"

section \<open>Requests of the handles\<close>

text \<open>What is relied on of UCX: the pointer that closing returns is not one of the allocated requests
  (\<open>lv\<close>), and progress does not free requests.\<close>

definition close_ok :: "'u close_lib \<Rightarrow> ('u \<Rightarrow> nat \<Rightarrow> bool) \<Rightarrow> bool" where
  "close_ok lib lv \<longleftrightarrow>
     (\<forall>wk u. lv (cl_worker_progress lib wk u) = lv u) \<and>
     (\<forall>r u. lv (cl_request_free lib r u) = (lv u)(r := False)) \<and>
     (\<forall>ep u. case fst (cl_ep_close_nb lib ep u) of
        Ucs_ptr r \<Rightarrow> \<not> lv u r \<and> lv (snd (cl_ep_close_nb lib ep u)) = (lv u)(r := True)
      | _ \<Rightarrow> lv (snd (cl_ep_close_nb lib ep u)) = lv u)"

definition owned :: "close_handle list \<Rightarrow> nat list" where
  "owned hs = map ch_status (filter (\<lambda>h. \<not> ch_done h) hs)"

text \<open>The allocated requests are \<open>B\<close> and those of the handles, each handle having its own.\<close>

definition close_inv :: "('u \<Rightarrow> nat \<Rightarrow> bool) \<Rightarrow> close_handle list \<Rightarrow> nat set \<Rightarrow> 'u close_world \<Rightarrow> bool" where
  "close_inv lv hs B w \<longleftrightarrow> distinct (owned hs) \<and> B \<inter> set (owned hs) = {} \<and>
     {r. cw_alloc w r} = B \<union> set (owned hs) \<and> lv (cw_u w) = cw_alloc w"

lemma owned_simps [simp]:
  "owned [] = []"
  "owned (h # hs) = (if ch_done h then owned hs else ch_status h # owned hs)"
  "owned (hs @ hs') = owned hs @ owned hs'"
  "owned (map (fst \<circ> ch_move) hs) = owned hs"
  by (auto simp: owned_def ch_move_def comp_def)

lemma close_inv_progress: "close_ok lib lv \<Longrightarrow> close_inv lv hs B (cw_progress lib wk w) = close_inv lv hs B w"
  by (simp add: close_inv_def cw_progress_def close_ok_def)

text \<open>A handle at the head of the list, seen apart from the others.\<close>

lemma close_inv_Cons: "close_inv lv (h # hs) B w \<longleftrightarrow>
    (if ch_done h then close_inv lv hs B w else ch_status h \<notin> B \<and> close_inv lv hs (insert (ch_status h) B) w)"
  by (auto simp: close_inv_def)

lemma close_inv_cong: "owned hs = owned hs' \<Longrightarrow> close_inv lv hs = close_inv lv hs'"
  by (simp add: close_inv_def fun_eq_iff)

lemma cw_free_inv:
  assumes "close_ok lib lv" "close_inv lv (h # hs) B w" "\<not> ch_done h"
  shows "\<exists>v. cw_free lib (ch_status h) w = Inr v \<and> close_inv lv hs B v"
proof -
  have w: "cw_alloc w (ch_status h)" "{r. cw_alloc w r} = insert (ch_status h) (B \<union> set (owned hs))"
    "ch_status h \<notin> B \<union> set (owned hs)" "distinct (owned hs)" "B \<inter> set (owned hs) = {}"
    using assms(2,3) by (auto simp: close_inv_def)
  let ?v = "\<lparr>cw_alloc = (cw_alloc w)(ch_status h := False), cw_u = cl_request_free lib (ch_status h) (cw_u w)\<rparr>"
  have "{r. cw_alloc ?v r} = {r. cw_alloc w r} - {ch_status h}"
    by auto
  then have "close_inv lv hs B ?v"
    using assms w by (auto simp: close_inv_def close_ok_def)
  with w(1) show ?thesis
    by (auto simp: cw_free_def)
qed

lemma ch_progress_inv:
  assumes ok: "close_ok lib lv" and inv: "close_inv lv (h # hs) B w"
  shows "\<exists>h' v. ch_progress lib h w = Inr (h', v) \<and> close_inv lv (h' # hs) B v"
proof (cases "ch_done h")
  case False
  have i: "close_inv lv (h # hs) B (cw_progress lib (ch_worker h) w)"
    using inv ok by (simp add: close_inv_progress)
  from cw_free_inv [OF ok i False] obtain v where
    v: "cw_free lib (ch_status h) (cw_progress lib (ch_worker h) w) = Inr v" "close_inv lv hs B v"
    by blast
  then have "close_inv lv (h\<lparr>ch_done := True\<rparr> # hs) B v"
    by (simp add: close_inv_Cons)
  with v i False show ?thesis
    by (simp add: ch_progress_def Let_def)
qed (use inv in \<open>simp add: ch_progress_def\<close>)

lemma endpoint_close_inv:
  assumes "close_ok lib lv" "close_inv lv hs B w"
  shows "\<exists>h v. endpoint_close lib ep w = (h, v) \<and> close_inv lv (h # hs) B v"
proof (cases "cl_ep_close_nb lib (ep_h ep) (cw_u w)")
  case (Pair p u)
  have p: "case p of Ucs_ptr r \<Rightarrow> \<not> lv (cw_u w) r \<and> lv u = (lv (cw_u w))(r := True) | _ \<Rightarrow> lv u = lv (cw_u w)"
    using assms(1) [unfolded close_ok_def, THEN conjunct2, THEN conjunct2, rule_format, of "ep_h ep" "cw_u w"]
    by (simp only: Pair fst_conv snd_conv)
  show ?thesis
  proof (cases "ep_moved ep")
    case False
    with Pair p assms(2) show ?thesis
      by (cases p) (auto simp: endpoint_close_def close_inv_def ch_default_def ch_ctor_def)
  qed (use assms(2) in \<open>simp add: endpoint_close_def ch_default_def close_inv_Cons\<close>)
qed

lemma ucx_comm_dtor_inv:
  assumes ok: "close_ok lib lv"
  shows "close_inv lv hs B w \<Longrightarrow> \<exists>hs' v. ucx_comm_dtor lib eps hs w = Inr (hs', v) \<and> close_inv lv hs' B v"
proof (induction eps arbitrary: hs w)
  case (Cons ep eps)
  obtain h v where h: "endpoint_close lib ep w = (h, v)" "close_inv lv (h # hs) B v"
    using endpoint_close_inv [OF ok Cons.prems] by blast
  obtain g u where g: "ch_progress lib h v = Inr (g, u)" "close_inv lv (g # hs) B u"
    using ch_progress_inv [OF ok h(2)] by blast
  have "close_inv lv (hs @ [g]) B u"
    using g(2) by (auto simp: close_inv_def)
  from Cons.IH [OF this] h(1) g(1) show ?case
    by simp
qed simp

text \<open>The requests of a list of handles can be counted to \<open>B\<close>.\<close>

lemma close_inv_append: "close_inv lv (hs @ hs') B w \<longleftrightarrow>
    distinct (owned hs) \<and> B \<inter> set (owned hs) = {} \<and> close_inv lv hs' (B \<union> set (owned hs)) w"
  by (auto simp: close_inv_def)

lemma comm_dtors_inv:
  assumes ok: "close_ok lib lv"
  shows "close_inv lv [] B w \<Longrightarrow> \<exists>hss v. comm_dtors lib cs w = Inr (hss, v) \<and> close_inv lv (concat hss) B v"
proof (induction cs arbitrary: B w)
  case (Cons c cs)
  obtain hs v where h: "ucx_comm_dtor lib c [] w = Inr (hs, v)" "close_inv lv hs B v"
    using ucx_comm_dtor_inv [OF ok Cons.prems] by blast
  then have "close_inv lv [] (B \<union> set (owned hs)) v"
    using close_inv_append [of lv hs "[]"] by simp
  from Cons.IH [OF this] obtain hss u where
    u: "comm_dtors lib cs v = Inr (hss, u)" "close_inv lv (concat hss) (B \<union> set (owned hs)) u"
    by blast
  moreover have "close_inv lv (hs @ concat hss) B u"
    using u(2) h(2) by (subst close_inv_append) (simp add: close_inv_def)
  ultimately show ?case
    using h(1) by simp
qed simp

lemma close_round_inv:
  assumes ok: "close_ok lib lv"
  shows "close_inv lv hs B w \<Longrightarrow>
    \<exists>t v. close_round lib rw hs w = Inr (t, v) \<and> close_inv lv t B v \<and> (\<forall>h\<in>set t. \<not> ch_done h)"
proof (induction hs arbitrary: B w)
  case (Cons h hs)
  obtain g u where g: "ch_progress lib h (cw_progress lib rw w) = Inr (g, u)" "close_inv lv (g # hs) B u"
    using ch_progress_inv [OF ok, of h hs B "cw_progress lib rw w"] Cons.prems ok
    by (auto simp: close_inv_progress)
  let ?B = "if ch_done g then B else insert (ch_status g) B"
  have "close_inv lv hs ?B u"
    using g(2) by (simp add: close_inv_Cons split: if_splits)
  from Cons.IH [OF this] obtain t v where
    t: "close_round lib rw hs u = Inr (t, v)" "close_inv lv t ?B v" "\<forall>h\<in>set t. \<not> ch_done h"
    by blast
  have "close_round lib rw (h # hs) w = Inr (if ch_done g then t else g # t, v)"
    using g(1) t(1) by (simp add: ch_ready_def ch_move_def)
  moreover have "close_inv lv (if ch_done g then t else g # t) B v"
    using t(2) g(2) by (auto simp: close_inv_Cons)
  ultimately show ?case
    using t(3) by auto
qed simp

text \<open>The loop ends when the clock has passed the limit at the latest.\<close>

lemma close_loop_inv:
  assumes ok: "close_ok lib lv"
  shows "\<lbrakk>close_inv lv hs B w; t_timeout \<le> (if d = 0 then e else clock (k + d - 1)); e < t_timeout \<or> (\<forall>h\<in>set hs. \<not> ch_done h)\<rbrakk> \<Longrightarrow>
    \<exists>t v. close_loop lib rw clock k e hs w = Some (Inr (t, v)) \<and> close_inv lv t B v \<and> (\<forall>h\<in>set t. \<not> ch_done h)"
proof (induction d arbitrary: k e hs w)
  case 0
  then show ?case
    by (subst close_loop.simps) auto
next
  case (Suc d)
  show ?case
  proof (cases "hs \<noteq> [] \<and> e < t_timeout")
    case True
    obtain t v where t: "close_round lib rw hs w = Inr (t, v)" "close_inv lv t B v" "\<forall>h\<in>set t. \<not> ch_done h"
      using close_round_inv [OF ok Suc.prems(1)] by blast
    have "t_timeout \<le> (if d = 0 then clock k else clock (Suc k + d - 1))"
      using Suc.prems(2) by (cases "d = 0") simp_all
    from Suc.IH [OF t(2) this] t True show ?thesis
      by (subst close_loop.simps) simp
  next
    case False
    with Suc.prems show ?thesis
      by (subst close_loop.simps) auto
  qed
qed

lemma free_rest:
  assumes ok: "close_ok lib lv"
  shows "close_inv lv hs B w \<Longrightarrow> \<forall>h\<in>set hs. \<not> ch_done h \<Longrightarrow>
    \<exists>v. fold_res (\<lambda>h. cw_free lib (ch_status h)) hs w = Inr v \<and> close_inv lv [] B v"
proof (induction hs arbitrary: w)
  case (Cons h hs)
  obtain v where "cw_free lib (ch_status h) w = Inr v" "close_inv lv hs B v"
    using cw_free_inv [OF ok Cons.prems(1)] Cons.prems(2) by auto
  with Cons.IH [of v] Cons.prems(2) show ?case
    by simp
qed simp

lemma ibarrier_loop_inv:
  assumes ok: "close_ok lib lv"
  shows "close_inv lv hs B w \<Longrightarrow> test (k + d) \<Longrightarrow> \<exists>v. ibarrier_loop lib rw test k w = Some v \<and> close_inv lv hs B v"
proof (induction d arbitrary: k w)
  case 0
  then show ?case
    by (subst ibarrier_loop.simps) (simp add: close_inv_progress [OF ok])
next
  case (Suc d)
  have "close_inv lv hs B (cw_progress lib rw w)"
    using Suc.prems(1) by (simp add: close_inv_progress [OF ok])
  from Suc.IH [OF this, of "Suc k"] Suc.prems show ?case
    by (subst ibarrier_loop.simps) (auto simp: Let_def close_inv_progress [OF ok])
qed

lemma ucx_ctx_dtor_inv:
  assumes ok: "close_ok lib lv" and inv: "close_inv lv (concat hss) B w"
    and clock: "t_timeout \<le> clock N" and test: "test M"
  shows "\<exists>v. ucx_ctx_dtor lib rw clock test hss w = Some (Inr v) \<and> close_inv lv [] B v"
proof -
  let ?hs = "map (fst \<circ> ch_move) (concat hss)"
  have "close_inv lv ?hs B w"
    using inv by (simp add: close_inv_cong [of ?hs "concat hss"])
  then obtain t v where t: "close_loop lib rw clock 0 0 ?hs w = Some (Inr (t, v))" "close_inv lv t B v" "\<forall>h\<in>set t. \<not> ch_done h"
    using close_loop_inv [OF ok, where hs = ?hs and B = B and w = w and d = "Suc N" and e = 0 and clock = clock and k = 0 and rw = rw] clock
    by (auto simp: t_timeout_def)
  obtain u where u: "fold_res (\<lambda>h. cw_free lib (ch_status h)) t v = Inr u" "close_inv lv [] B u"
    using free_rest [OF ok t(2,3)] by blast
  obtain x where "ibarrier_loop lib rw test 0 u = Some x" "close_inv lv [] B x"
    using ibarrier_loop_inv [OF ok u(2), of test 0 M] test by auto
  with t(1) u(1) show ?thesis
    by (simp add: ucx_ctx_dtor_def bind_opt_def)
qed

section \<open>Shutdown\<close>

text \<open>C26: When all communicators and then the context are destroyed, with any endpoints, the destructors
  return, whatever status the closing of the endpoints reports and even if some never close: the loop
  over the close handles is bounded by the clock, the second barrier by the other ranks.  No close request
  is freed twice, and none is left: those allocated afterwards are those allocated before.\<close>

theorem shutdown_frees_requests:
  assumes "close_ok lib lv" "lv (cw_u w) = cw_alloc w"
    and "t_timeout \<le> clock N" "test M"
  shows "\<exists>v. ucx_shutdown lib rw clock test caches w = Some (Inr v) \<and> cw_alloc v = cw_alloc w"
proof -
  have "close_inv lv [] {r. cw_alloc w r} w"
    using assms(2) by (simp add: close_inv_def)
  then obtain hss u where u: "comm_dtors lib caches w = Inr (hss, u)" "close_inv lv (concat hss) {r. cw_alloc w r} u"
    using comm_dtors_inv [OF assms(1)] by blast
  obtain v where v: "ucx_ctx_dtor lib rw clock test hss u = Some (Inr v)" "close_inv lv [] {r. cw_alloc w r} v"
    using ucx_ctx_dtor_inv [where clock = clock and N = N and test = test and M = M, OF assms(1) u(2) assms(3,4)] by blast
  have "cw_alloc v = cw_alloc w"
    using v(2) by (auto simp: close_inv_def fun_eq_iff)
  with u(1) v(1) show ?thesis
    by (simp add: ucx_shutdown_def bind_opt_def)
qed

text \<open>UCX with requests numbered in order, of which those with an even number stay in progress.\<close>

definition ex_close_lib :: "(nat set \<times> nat) close_lib" where
  "ex_close_lib = \<lparr>cl_worker_progress = (\<lambda>_ u. u),
     cl_check_status = (\<lambda>r _. if even r then UCS_INPROGRESS else UCS_OK),
     cl_request_free = (\<lambda>r u. (fst u - {r}, snd u)),
     cl_ep_close_nb = (\<lambda>_ u. (Ucs_ptr (snd u), (insert (snd u) {r \<in> fst u. r < snd u}, snd u + 1)))\<rparr>"

lemma ex_close_ok: "close_ok ex_close_lib (\<lambda>u r. r \<in> fst u \<and> r < snd u)"
  by (auto simp: close_ok_def ex_close_lib_def fun_eq_iff)

definition ex_endpoint :: "nat \<Rightarrow> endpoint" where
  "ex_endpoint n = \<lparr>ep_rank = of_nat n, ep_h = n, ep_worker = 1, ep_moved = False\<rparr>"

theorem shutdown_frees_requests_witness:
  "\<exists>v. ucx_shutdown ex_close_lib 0 (\<lambda>k. 400 * real k) (\<lambda>k. 2 \<le> k) [[ex_endpoint 0, ex_endpoint 1], [], [ex_endpoint 2]]
     \<lparr>cw_alloc = (\<lambda>_. False), cw_u = ({}, 0)\<rparr> = Some (Inr v) \<and> cw_alloc v = (\<lambda>_. False)"
  using shutdown_frees_requests [OF ex_close_ok, of "\<lparr>cw_alloc = (\<lambda>_. False), cw_u = ({}, 0)\<rparr>"
      "\<lambda>k. 400 * real k" 3 "\<lambda>k. 2 \<le> k" 2 0 "[[ex_endpoint 0, ex_endpoint 1], [], [ex_endpoint 2]]"]
  by (simp add: t_timeout_def)

section \<open>When a handle is done\<close>

text \<open>The test of the status: a request still in progress is freed and counted as done after one call, and
  one that is complete is kept, at every call, until the time is up.\<close>

lemma ch_progress_in_progress:
  assumes "\<not> ch_done h" "cw_alloc w (ch_status h)"
    and "cl_check_status lib (ch_status h) (cl_worker_progress lib (ch_worker h) (cw_u w)) = UCS_INPROGRESS"
  shows "\<exists>v. ch_progress lib h w = Inr (h\<lparr>ch_done := True\<rparr>, v) \<and> \<not> cw_alloc v (ch_status h)"
  using assms by (simp add: ch_progress_def cw_progress_def cw_free_def UCS_OK_def UCS_INPROGRESS_def Let_def)

lemma close_round_complete:
  assumes "\<And>u. cl_check_status lib (ch_status h) u = UCS_OK" "\<not> ch_done h"
  shows "close_round lib rw [h] w = Inr ([h], cw_progress lib (ch_worker h) (cw_progress lib rw w))"
  using assms by (simp add: ch_ready_def ch_progress_def ch_move_def cw_progress_def Let_def)

lemma close_loop_complete:
  assumes ok: "\<And>u. cl_check_status lib (ch_status h) u = UCS_OK" "\<not> ch_done h"
  shows "\<lbrakk>\<forall>i<n. clock (k + i) < t_timeout; e < t_timeout; close_loop lib rw clock k e [h] w = Some (Inr (t, v))\<rbrakk>
    \<Longrightarrow> \<exists>u. close_loop lib rw clock (k + n) (if n = 0 then e else clock (k + n - 1)) [h] u = Some (Inr (t, v))"
proof (induction n arbitrary: k e w)
  case 0
  then show ?case
    by auto
next
  case (Suc n)
  let ?w = "cw_progress lib (ch_worker h) (cw_progress lib rw w)"
  have c: "\<forall>i<n. clock (Suc k + i) < t_timeout"
    using Suc.prems(1) by (metis Suc_less_eq add_Suc add_Suc_right)
  have k: "clock k < t_timeout"
    using Suc.prems(1) [rule_format, of 0] by simp
  have "close_loop lib rw clock (Suc k) (clock k) [h] ?w = Some (Inr (t, v))"
    using Suc.prems(2,3) by (subst (asm) close_loop.simps) (simp add: close_round_complete [OF ok] del: close_round.simps)
  from Suc.IH [OF c k this] show ?case
    by (cases n) auto
qed

section \<open>Worker handles\<close>

text \<open>A worker is created with its handle and destroyed by it.  Handles live in variables; \<open>ws_live\<close> are the
  workers of UCX that exist.\<close>

record worker_handle =
  wh_worker :: nat
  wh_moved :: bool

record worker_state =
  ws_handles :: "nat \<Rightarrow> worker_handle option"
  ws_live :: "nat \<Rightarrow> bool"

definition wh_destroy :: "worker_handle \<Rightarrow> (nat \<Rightarrow> bool) \<Rightarrow> (nat \<Rightarrow> bool) result" where
  "wh_destroy h l =
     (if \<not> wh_moved h then if l (wh_worker h) then Inr (l(wh_worker h := False)) else Inl (Undefined_behaviour ''worker destroyed twice'')
      else Inr l)"

text \<open>The constructor of \<open>worker_t\<close>: creation and the address of the worker, each of which may fail.  The
  handle is marked as owning at the end.\<close>

definition worker_ctor ::
    "nat \<Rightarrow> int \<times> nat \<Rightarrow> (nat \<Rightarrow> int \<times> 8 word list) \<Rightarrow> worker_state \<Rightarrow> 8 word list result \<times> worker_state" where
  "worker_ctor i created get_address s =
     (case created of (rc, wk) \<Rightarrow>
        if rc \<noteq> UCS_OK then (Inl (Runtime_error ''OOMPH Error: UCX Call failed''), s)
        else let s = s\<lparr>ws_live := (ws_live s)(wk := True)\<rparr> in
          case get_address wk of (rc, a) \<Rightarrow>
            if rc \<noteq> UCS_OK then (Inl (Runtime_error ''OOMPH Error: UCX Call failed''), s)
            else (Inr a, s\<lparr>ws_handles := (ws_handles s)(i \<mapsto> \<lparr>wh_worker = wk, wh_moved = False\<rparr>)\<rparr>))"

definition wh_move_assign :: "nat \<Rightarrow> nat \<Rightarrow> worker_state \<Rightarrow> worker_state result" where
  "wh_move_assign i j s =
     (case (ws_handles s i, ws_handles s j) of
        (Some this, Some other) \<Rightarrow>
          bind_res (wh_destroy this (ws_live s)) (\<lambda>l.
          case moved_bit_move (wh_moved other) of (b, b') \<Rightarrow>
            Inr (s\<lparr>ws_live := l,
              ws_handles := (ws_handles s)(j \<mapsto> other\<lparr>wh_moved := b'\<rparr>, i \<mapsto> \<lparr>wh_worker = wh_worker other, wh_moved = b\<rparr>)\<rparr>))
      | _ \<Rightarrow> Inl (Undefined_behaviour ''no such handle''))"

definition wh_dtor :: "nat \<Rightarrow> worker_state \<Rightarrow> worker_state result" where
  "wh_dtor i s =
     (case ws_handles s i of
        None \<Rightarrow> Inl (Undefined_behaviour ''no such handle'')
      | Some h \<Rightarrow> bind_res (wh_destroy h (ws_live s)) (\<lambda>l. Inr \<lparr>ws_handles = (ws_handles s)(i := None), ws_live = l\<rparr>))"

definition wh_owns :: "worker_state \<Rightarrow> nat \<Rightarrow> nat option" where
  "wh_owns s i = (case ws_handles s i of None \<Rightarrow> None | Some h \<Rightarrow> if wh_moved h then None else Some (wh_worker h))"

definition wh_inv :: "worker_state \<Rightarrow> bool" where
  "wh_inv s \<longleftrightarrow> uniquely (wh_owns s) (ws_live s)"

lemma wh_destroy_owned:
  assumes "wh_inv s" "ws_handles s i = Some h"
  shows "wh_destroy h (ws_live s) = Inr (\<lambda>a. ws_live s a \<and> wh_owns s i \<noteq> Some a)"
  using assms uniquely_live [of "wh_owns s" "ws_live s" i "wh_worker h"]
  by (auto simp: wh_destroy_def wh_inv_def wh_owns_def fun_eq_iff)

lemma wh_dtor_inv:
  assumes "wh_inv s" "ws_handles s i \<noteq> None"
  shows "\<exists>v. wh_dtor i s = Inr v \<and> wh_inv v"
proof -
  obtain h where h: "ws_handles s i = Some h"
    using assms(2) by blast
  let ?v = "\<lparr>ws_handles = (ws_handles s)(i := None), ws_live = (\<lambda>a. ws_live s a \<and> wh_owns s i \<noteq> Some a)\<rparr>"
  have "wh_owns ?v = (wh_owns s)(i := None)"
    by (auto simp: wh_owns_def)
  then have "wh_inv ?v"
    using uniquely_drop [of "wh_owns s" "ws_live s" i] assms(1) by (simp add: wh_inv_def)
  with h show ?thesis
    by (simp add: wh_dtor_def wh_destroy_owned [OF assms(1) h])
qed

lemma wh_move_assign_inv:
  assumes "wh_inv s" "ws_handles s i \<noteq> None" "ws_handles s j \<noteq> None" "i \<noteq> j"
  shows "\<exists>v. wh_move_assign i j s = Inr v \<and> wh_inv v"
proof -
  obtain h g where h: "ws_handles s i = Some h" "ws_handles s j = Some g"
    using assms(2,3) by blast
  let ?l = "\<lambda>a. ws_live s a \<and> wh_owns s i \<noteq> Some a"
  let ?v = "s\<lparr>ws_live := ?l, ws_handles := (ws_handles s)(j \<mapsto> g\<lparr>wh_moved := True\<rparr>, i \<mapsto> \<lparr>wh_worker = wh_worker g, wh_moved = wh_moved g\<rparr>)\<rparr>"
  have u: "uniquely ((wh_owns s)(i := None)) ?l"
    using uniquely_drop [of "wh_owns s" "ws_live s" i] assms(1) by (simp add: wh_inv_def)
  have "wh_owns ?v = ((wh_owns s)(i := None))(j := None, i := ((wh_owns s)(i := None)) j)"
    using assms(4) h by (auto simp: wh_owns_def)
  then have "wh_inv ?v"
    using uniquely_move [OF u, of i j] by (simp add: wh_inv_def)
  with h show ?thesis
    by (simp add: wh_move_assign_def wh_destroy_owned [OF assms(1) h(1)] moved_bit_move_def)
qed

lemma worker_ctor_inv:
  assumes "wh_inv s" "ws_handles s i = None" "\<not> ws_live s wk"
  shows "fst (worker_ctor i (UCS_OK, wk) (\<lambda>_. (UCS_OK, a)) s) = Inr a \<and> wh_inv (snd (worker_ctor i (UCS_OK, wk) (\<lambda>_. (UCS_OK, a)) s))"
proof -
  let ?v = "snd (worker_ctor i (UCS_OK, wk) (\<lambda>_. (UCS_OK, a)) s)"
  have "wh_owns ?v = (wh_owns s)(i := Some wk)" "ws_live ?v = (ws_live s)(wk := True)"
    by (auto simp: wh_owns_def worker_ctor_def Let_def)
  moreover have "wh_owns s i = None"
    using assms(2) by (simp add: wh_owns_def)
  ultimately show ?thesis
    using uniquely_take [of "wh_owns s" "ws_live s" i wk] assms by (simp add: wh_inv_def worker_ctor_def Let_def)
qed

text \<open>When the address cannot be read, the worker exists and no handle owns it.\<close>

lemma worker_ctor_leak:
  assumes "wh_inv s" "\<not> ws_live s wk" "rc \<noteq> UCS_OK"
  shows "\<exists>e v. worker_ctor i (UCS_OK, wk) (\<lambda>_. (rc, a)) s = (Inl e, v) \<and> ws_live v wk \<and> (\<forall>k. wh_owns v k \<noteq> Some wk)"
  using assms uniquely_live [of "wh_owns s" "ws_live s"]
  by (auto simp: worker_ctor_def Let_def wh_inv_def wh_owns_def)

end
