(* ===== verification/Ucx_Context.thy ===== *)
theory Ucx_Context
  imports Ucx_Cancel Ucx_Address Ucx_Endpoints
begin

text \<open>
  Start of a UCX context (\<open>ucx/context.hpp\<close>, \<open>ucx/context.cpp\<close>): initialisation of UCX, the shared receive
  worker, the exchange of the addresses, and the workers of the communicators.  All ranks are in the
  model, since the exchange is collective.
\<close>

section \<open>Parameters of a context\<close>

record ucp_params =
  cp_features :: "string list"
  cp_mt_workers_shared :: bool
  cp_estimated_num_eps :: rank_type
  cp_tag_sender_mask :: "64 word"
  cp_request_size :: size_t

datatype ucs_thread_mode = UCS_THREAD_MODE_SINGLE | UCS_THREAD_MODE_SERIALIZED | UCS_THREAD_MODE_MULTI

record ucp_attr =
  at_request_size :: size_t
  at_thread_mode :: ucs_thread_mode

text \<open>The calls of UCX at one rank.  Creating a worker takes the number of the worker among those of the
  context.\<close>

record ctx_lib =
  ucp_config_read :: int
  ucp_init :: "ucp_params \<Rightarrow> int \<times> nat"
  ucp_context_query :: "nat \<Rightarrow> ucp_attr"
  ucp_worker_create :: "nat \<Rightarrow> ucs_thread_mode \<Rightarrow> nat \<Rightarrow> int \<times> nat"
  ucp_worker_get_address :: "nat \<Rightarrow> int \<times> bytes"

text \<open>The context: the UCX context, the receive worker (worker handle 0) with its address, and the workers
  of the communicators (worker handles from 1).\<close>

record ucx_context =
  uc_thread_safe :: bool
  uc_context :: nat
  uc_req_size :: size_t
  uc_address :: bytes
  uc_num_workers :: nat
  uc_workers :: worker_state

definition ctx_params :: "bool \<Rightarrow> rank_type \<Rightarrow> size_t \<Rightarrow> ucp_params" where
  "ctx_params thread_safe est_size data_size =
     \<lparr>cp_features = [''UCP_FEATURE_TAG'', ''UCP_FEATURE_RMA''], cp_mt_workers_shared = thread_safe,
      cp_estimated_num_eps = est_size, cp_tag_sender_mask = 0xffffffffffffffff, cp_request_size = data_size\<rparr>"

definition no_workers :: worker_state where
  "no_workers = \<lparr>ws_handles = (\<lambda>_. None), ws_live = (\<lambda>_. False)\<rparr>"

text \<open>The constructor up to the exchange of addresses.  \<open>data_size\<close> is \<open>request_data_size\<close>.\<close>

definition ucx_context_ctor :: "ctx_lib \<Rightarrow> bool \<Rightarrow> rank_type \<Rightarrow> size_t \<Rightarrow> ucx_context result" where
  "ucx_context_ctor lib thread_safe est_size data_size =
     check_ucx (ucp_config_read lib)
       (case ucp_init lib (ctx_params thread_safe est_size data_size) of (rc, c) \<Rightarrow>
          check_ucx rc
            (let attr = ucp_context_query lib c in
             if thread_safe \<and> at_thread_mode attr \<noteq> UCS_THREAD_MODE_MULTI
             then Inl (Runtime_error ''ucx cannot be used with multi-threaded context'')
             else case worker_ctor 0 (ucp_worker_create lib c UCS_THREAD_MODE_SINGLE 0) (ucp_worker_get_address lib) no_workers of
               (Inl e, _) \<Rightarrow> Inl e
             | (Inr a, ws) \<Rightarrow>
                 Inr \<lparr>uc_thread_safe = thread_safe, uc_context = c, uc_req_size = at_request_size attr,
                   uc_address = a, uc_num_workers = 0, uc_workers = ws\<rparr>))"

text \<open>A communicator gets a worker of its own; the result is the number of its handle.\<close>

definition ucx_get_communicator :: "ctx_lib \<Rightarrow> ucx_context \<Rightarrow> nat result \<times> ucx_context" where
  "ucx_get_communicator lib c =
     (let mode = (if uc_thread_safe c then UCS_THREAD_MODE_SERIALIZED else UCS_THREAD_MODE_SINGLE);
          i = Suc (uc_num_workers c) in
      case worker_ctor i (ucp_worker_create lib (uc_context c) mode i) (ucp_worker_get_address lib) (uc_workers c) of
        (Inl e, ws) \<Rightarrow> (Inl e, c\<lparr>uc_workers := ws\<rparr>)
      | (Inr _, ws) \<Rightarrow> (Inr i, c\<lparr>uc_workers := ws, uc_num_workers := i\<rparr>))"

text \<open>All ranks construct a context, with the database over MPI.\<close>

definition ucx_contexts :: "mpi_bcast \<Rightarrow> ctx_lib list \<Rightarrow> bool \<Rightarrow> size_t \<Rightarrow> (ucx_context list \<times> adb list) result" where
  "ucx_contexts bc libs thread_safe data_size =
     bind_res (map_res (\<lambda>lib. ucx_context_ctor lib thread_safe (of_nat (length libs)) data_size) libs) (\<lambda>cs.
     bind_res (adb_init_all bc (map uc_address cs)) (\<lambda>ds. Inr (cs, ds)))"

section \<open>Construction\<close>

text \<open>What is relied on: the calls succeed, workers that are created are new, and with a thread safe
  context UCX supports several threads.\<close>

definition ctx_lib_ok :: "ctx_lib \<Rightarrow> bool \<Rightarrow> bool" where
  "ctx_lib_ok lib thread_safe \<longleftrightarrow>
     ucp_config_read lib = UCS_OK \<and> (\<forall>p. fst (ucp_init lib p) = UCS_OK) \<and>
     (\<forall>c. thread_safe \<longrightarrow> at_thread_mode (ucp_context_query lib c) = UCS_THREAD_MODE_MULTI) \<and>
     (\<forall>c m i. fst (ucp_worker_create lib c m i) = UCS_OK) \<and>
     (\<forall>c m m' i j. i \<noteq> j \<longrightarrow> snd (ucp_worker_create lib c m i) \<noteq> snd (ucp_worker_create lib c m' j)) \<and>
     (\<forall>wk. fst (ucp_worker_get_address lib wk) = UCS_OK \<and> length (snd (ucp_worker_get_address lib wk)) < 2 ^ 31)"

text \<open>The handles with numbers up to \<open>uc_num_workers\<close> own the workers that exist.\<close>

definition ctx_inv :: "ctx_lib \<Rightarrow> ucx_context \<Rightarrow> bool" where
  "ctx_inv lib c \<longleftrightarrow> wh_inv (uc_workers c) \<and>
     (\<forall>i. ws_handles (uc_workers c) i \<noteq> None \<longleftrightarrow> i \<le> uc_num_workers c) \<and>
     (\<forall>i wk. wh_owns (uc_workers c) i = Some wk \<longrightarrow> (\<exists>m. wk = snd (ucp_worker_create lib (uc_context c) m i)))"

definition recv_address :: "ctx_lib \<Rightarrow> bool \<Rightarrow> rank_type \<Rightarrow> size_t \<Rightarrow> bytes" where
  "recv_address lib thread_safe est_size data_size =
     snd (ucp_worker_get_address lib
       (snd (ucp_worker_create lib (snd (ucp_init lib (ctx_params thread_safe est_size data_size))) UCS_THREAD_MODE_SINGLE 0)))"

lemma ctx_ctor_ok:
  assumes "ctx_lib_ok lib thread_safe"
  shows "\<exists>c. ucx_context_ctor lib thread_safe n d = Inr c \<and> uc_address c = recv_address lib thread_safe n d \<and>
    uc_thread_safe c = thread_safe \<and> ctx_inv lib c"
proof -
  define c where "c = snd (ucp_init lib (ctx_params thread_safe n d))"
  define wk where "wk = snd (ucp_worker_create lib c UCS_THREAD_MODE_SINGLE 0)"
  let ?a = "recv_address lib thread_safe n d"
  let ?ws = "\<lparr>ws_handles = [0 \<mapsto> \<lparr>wh_worker = wk, wh_moved = False\<rparr>], ws_live = (\<lambda>_. False)(wk := True)\<rparr>"
  let ?r = "\<lparr>uc_thread_safe = thread_safe, uc_context = c, uc_req_size = at_request_size (ucp_context_query lib c),
    uc_address = ?a, uc_num_workers = 0, uc_workers = ?ws\<rparr>"
  have l: "ucp_config_read lib = UCS_OK" "ucp_init lib (ctx_params thread_safe n d) = (UCS_OK, c)"
    "\<not> (thread_safe \<and> at_thread_mode (ucp_context_query lib c) \<noteq> UCS_THREAD_MODE_MULTI)"
    "ucp_worker_create lib c UCS_THREAD_MODE_SINGLE 0 = (UCS_OK, wk)" "ucp_worker_get_address lib wk = (UCS_OK, ?a)"
    using assms by (auto simp: ctx_lib_ok_def prod_eq_iff recv_address_def c_def wk_def)
  have w: "worker_ctor 0 (UCS_OK, wk) (ucp_worker_get_address lib) no_workers = (Inr ?a, ?ws)"
    by (simp add: worker_ctor_def l(5) no_workers_def Let_def)
  have e: "ucx_context_ctor lib thread_safe n d = Inr ?r"
    unfolding ucx_context_ctor_def l(1) l(2) prod.case l(4) w by (use l(3) in \<open>simp add: check_ucx_def Let_def\<close>)
  have o: "wh_owns ?ws = (\<lambda>_. None)(0 := Some wk)"
    by (auto simp: wh_owns_def)
  have "uniquely (wh_owns ?ws) (ws_live ?ws)"
    unfolding o uniquely_def by auto
  moreover have "\<exists>m. x = snd (ucp_worker_create lib c m i)" if "wh_owns ?ws i = Some x" for i x
    using that unfolding o by (auto simp: wk_def split: if_splits)
  ultimately have "ctx_inv lib ?r"
    by (auto simp: ctx_inv_def wh_inv_def)
  with e show ?thesis
    by simp
qed

lemma get_communicator_ok:
  assumes ok: "ctx_lib_ok lib ts" and inv: "ctx_inv lib c"
  shows "fst (ucx_get_communicator lib c) = Inr (Suc (uc_num_workers c)) \<and> ctx_inv lib (snd (ucx_get_communicator lib c)) \<and>
    uc_num_workers (snd (ucx_get_communicator lib c)) = Suc (uc_num_workers c)"
proof -
  let ?i = "Suc (uc_num_workers c)"
  define m where "m = (if uc_thread_safe c then UCS_THREAD_MODE_SERIALIZED else UCS_THREAD_MODE_SINGLE)"
  define wk where "wk = snd (ucp_worker_create lib (uc_context c) m ?i)"
  define a where "a = snd (ucp_worker_get_address lib wk)"
  let ?s = "uc_workers c"
  let ?v = "?s\<lparr>ws_live := (ws_live ?s)(wk := True), ws_handles := (ws_handles ?s)(?i \<mapsto> \<lparr>wh_worker = wk, wh_moved = False\<rparr>)\<rparr>"
  have l: "ucp_worker_create lib (uc_context c) m ?i = (UCS_OK, wk)" "ucp_worker_get_address lib wk = (UCS_OK, a)"
    using ok by (simp_all add: ctx_lib_ok_def prod_eq_iff wk_def a_def)
  have none: "ws_handles ?s ?i = None"
    using inv unfolding ctx_inv_def by (metis Suc_n_not_le_n)
  have fresh: "\<not> ws_live ?s wk"
  proof
    assume "ws_live ?s wk"
    then obtain i where i: "wh_owns ?s i = Some wk"
      using inv unfolding ctx_inv_def wh_inv_def uniquely_def by blast
    then have "i \<noteq> ?i"
      using none by (auto simp: wh_owns_def)
    moreover obtain m' where "wk = snd (ucp_worker_create lib (uc_context c) m' i)"
      using inv i unfolding ctx_inv_def by blast
    ultimately show False
      using ok unfolding ctx_lib_ok_def wk_def by metis
  qed
  have e: "worker_ctor ?i (UCS_OK, wk) (ucp_worker_get_address lib) ?s = (Inr a, ?v)"
    by (simp add: worker_ctor_def l(2) Let_def)
  have g: "ucx_get_communicator lib c = (Inr ?i, c\<lparr>uc_workers := ?v, uc_num_workers := ?i\<rparr>)"
    unfolding ucx_get_communicator_def Let_def m_def [symmetric] l(1) e by simp
  have o: "wh_owns ?v = (wh_owns ?s)(?i := Some wk)"
    by (auto simp: wh_owns_def)
  have "wh_inv ?v"
    using uniquely_take [of "wh_owns ?s" "ws_live ?s" ?i wk] inv none fresh
    by (simp add: wh_inv_def ctx_inv_def o) (simp add: wh_owns_def)
  moreover have "\<forall>i. ws_handles ?v i \<noteq> None \<longleftrightarrow> i \<le> ?i"
    using inv by (auto simp: ctx_inv_def le_Suc_eq)
  moreover have "\<forall>i wk. wh_owns ?v i = Some wk \<longrightarrow> (\<exists>m. wk = snd (ucp_worker_create lib (uc_context c) m i))"
    using inv unfolding o ctx_inv_def by (auto simp: wk_def)
  ultimately show ?thesis
    using g by (simp add: ctx_inv_def)
qed

lemma contexts_ok:
  fixes d :: size_t
  assumes libs: "\<forall>lib\<in>set libs. ctx_lib_ok lib ts" and bc: "bcast_ok bc (length libs)" "length libs < 2 ^ 31"
  defines "as \<equiv> map (\<lambda>lib. recv_address lib ts (of_nat (length libs)) d) libs"
  shows "\<exists>cs ds. ucx_contexts bc libs ts d = Inr (cs, ds) \<and> map uc_address cs = as \<and>
    list_all2 ctx_inv libs cs \<and> adb_init_all bc as = Inr ds"
proof -
  let ?n = "of_nat (length libs) :: rank_type"
  define mk where "mk = (\<lambda>lib. projr (ucx_context_ctor lib ts ?n d))"
  have mk: "ucx_context_ctor lib ts ?n d = Inr (mk lib)" "uc_address (mk lib) = recv_address lib ts ?n d" "ctx_inv lib (mk lib)"
    if "lib \<in> set libs" for lib
    using ctx_ctor_ok [of lib ts ?n d] libs that by (auto simp: mk_def)
  have a: "map uc_address (map mk libs) = as"
    using mk(2) by (simp add: as_def)
  have "\<forall>a\<in>set as. length a < 2 ^ 31"
    using libs by (auto simp: as_def recv_address_def ctx_lib_ok_def)
  then obtain ds where ds: "adb_init_all bc as = Inr ds"
    using adb_init_all_ok [of bc as] bc by (auto simp: as_def)
  have "map_res (\<lambda>lib. ucx_context_ctor lib ts ?n d) libs = Inr (map mk libs)"
    by (rule map_res_Inr) (rule mk(1))
  then have "ucx_contexts bc libs ts d = Inr (map mk libs, ds)"
    using a ds by (simp add: ucx_contexts_def)
  moreover have "list_all2 ctx_inv libs (map mk libs)"
    using mk(3) by (auto simp: list_all2_conv_all_nth)
  ultimately show ?thesis
    using a ds by (intro exI [of _ "map mk libs"] exI [of _ ds]) simp
qed

text \<open>The worker's view of the database is its map.\<close>

lemma db_view_map: "mpi_db.db_view bc i ds = adb_map (ds ! i)"
  by (auto simp: fun_eq_iff mpi_db.db_view_def adb_find_at_def adb_find_def split: option.splits)

section \<open>Ranks reach each other\<close>


definition ex_ctx_lib :: "8 word \<Rightarrow> ctx_lib" where
  "ex_ctx_lib r = \<lparr>ucp_config_read = UCS_OK, ucp_init = (\<lambda>_. (UCS_OK, 7)),
     ucp_context_query = (\<lambda>_. \<lparr>at_request_size = 128, at_thread_mode = UCS_THREAD_MODE_MULTI\<rparr>),
     ucp_worker_create = (\<lambda>_ _ i. (UCS_OK, i)), ucp_worker_get_address = (\<lambda>wk. (UCS_OK, [r, of_nat wk]))\<rparr>"

text \<open>A UCX of which only the creation of endpoints is used; it keeps the address.\<close>

definition ex_ep_lib :: "8 word list ucx_lib" where
  "ex_ep_lib = \<lparr>ucp_tag_send_nb = (\<lambda>_ _ _ _ u. (Ucs_ok, u)), ucp_tag_recv_nb = (\<lambda>_ _ _ _ u. ((Ucs_ok, []), u)),
     ucp_request_check_status = (\<lambda>_ _. UCS_OK), ucp_request_free = (\<lambda>_ u. u), ucp_request_cancel = (\<lambda>_ u. u),
     ucp_worker_progress = (\<lambda>_ u. ((False, []), u)), ucp_ep_create = (\<lambda>_ a u. ((UCS_OK, 5), a))\<rparr>"


section \<open>A constructor that throws\<close>

text \<open>The member \<open>m_context\<close>, an \<open>ucp_context_h_holder\<close>, has no initial value; the handle is set by a successful
  \<open>ucp_init\<close>.\<close>

definition holder_handle :: "ctx_lib \<Rightarrow> bool \<Rightarrow> rank_type \<Rightarrow> size_t \<Rightarrow> nat option" where
  "holder_handle lib thread_safe est_size data_size =
     (if ucp_config_read lib \<noteq> UCS_OK then None
      else case ucp_init lib (ctx_params thread_safe est_size data_size) of (rc, c) \<Rightarrow> if rc \<noteq> UCS_OK then None else Some c)"

text \<open>Its destructor calls \<open>ucp_cleanup\<close>, whatever the handle.\<close>

definition ctx_holder_dtor :: "nat option \<Rightarrow> unit result" where
  "ctx_holder_dtor h =
     (case h of None \<Rightarrow> Inl (Undefined_behaviour ''ucp_cleanup of an uninitialised handle'') | Some c \<Rightarrow> Inr ())"

text \<open>The constructor with the destruction of the members that exist already when its body throws.\<close>

definition ucx_context_new :: "ctx_lib \<Rightarrow> bool \<Rightarrow> rank_type \<Rightarrow> size_t \<Rightarrow> ucx_context result" where
  "ucx_context_new lib thread_safe est_size data_size =
     (case ucx_context_ctor lib thread_safe est_size data_size of
        Inr c \<Rightarrow> Inr c
      | Inl e \<Rightarrow> bind_res (ctx_holder_dtor (holder_handle lib thread_safe est_size data_size)) (\<lambda>_. Inl e))"

text \<open>Errors at the start of UCX.  If the configuration cannot be read or UCX cannot be initialised, the
  constructor of the context throws, and the destruction of its members passes a handle that was never
  set to \<open>ucp_cleanup\<close>.  All later errors, that is a UCX without support for threads where that is needed, and a worker
  that cannot be made, arrive at the caller as the exception that was meant.\<close>

theorem ucx_init_failure:
  "(ucp_config_read lib \<noteq> UCS_OK \<or> fst (ucp_init lib (ctx_params thread_safe n d)) \<noteq> UCS_OK \<longrightarrow>
    ucx_context_new lib thread_safe n d = Inl (Undefined_behaviour ''ucp_cleanup of an uninitialised handle'')) \<and>
   (ucp_config_read lib = UCS_OK \<and> fst (ucp_init lib (ctx_params thread_safe n d)) = UCS_OK \<longrightarrow>
    ucx_context_new lib thread_safe n d = ucx_context_ctor lib thread_safe n d \<and>
    (\<forall>e. ucx_context_new lib thread_safe n d = Inl e \<longrightarrow> (\<exists>msg. e = Runtime_error msg)))"
proof (cases "ucp_config_read lib = UCS_OK \<and> fst (ucp_init lib (ctx_params thread_safe n d)) = UCS_OK")
  case True
  then obtain c where c: "ucp_config_read lib = UCS_OK" "ucp_init lib (ctx_params thread_safe n d) = (UCS_OK, c)"
    by (metis prod.collapse)
  have "ucx_context_new lib thread_safe n d = ucx_context_ctor lib thread_safe n d"
    using c by (simp add: ucx_context_new_def holder_handle_def ctx_holder_dtor_def split: sum.split)
  moreover have "\<exists>msg. e = Runtime_error msg" if "worker_ctor i r g s = (Inl e, t)" for i r g s e t
    using that by (auto simp: worker_ctor_def Let_def split: prod.splits if_splits)
  then have "\<exists>msg. e = Runtime_error msg" if "ucx_context_ctor lib thread_safe n d = Inl e" for e
    using that c by (auto simp: ucx_context_ctor_def check_ucx_def Let_def split: if_splits prod.splits sum.splits)
  ultimately show ?thesis
    using True by simp
next
  case False
  obtain rc c where "ucp_init lib (ctx_params thread_safe n d) = (rc, c)"
    by fastforce
  then show ?thesis
    using False
    by (auto simp: ucx_context_new_def holder_handle_def ctx_holder_dtor_def ucx_context_ctor_def check_ucx_def)
qed

theorem ucx_init_failure_witness:
  "ucx_context_new ((ex_ctx_lib 10)\<lparr>ucp_init := (\<lambda>_. (-1, 0))\<rparr>) True 2 16 =
     Inl (Undefined_behaviour ''ucp_cleanup of an uninitialised handle'')"
  by (rule ucx_init_failure [THEN conjunct1, rule_format]) (simp add: ex_ctx_lib_def UCS_OK_def)

end
