(* ===== verification/Lf_Transport.thy ===== *)
theory Lf_Transport
  imports Completion Request_Api
begin

text \<open>
  The libfabric transport (\<open>libfabric/communicator.hpp\<close>, \<open>operation_context.cpp\<close>, \<open>controller.hpp\<close>,
  \<open>context.hpp\<close>).  Libfabric is a record of functions on a state \<open>'f\<close>.  The context of an operation is a
  member of the request state, so the address of the request state stands for it.
\<close>

unbundle bit_operations_syntax

section \<open>Libfabric\<close>

definition FI_MSG :: "64 word" where "FI_MSG = 2"
definition FI_TAGGED :: "64 word" where "FI_TAGGED = 8"
definition FI_RECV :: "64 word" where "FI_RECV = 1024"
definition FI_SEND :: "64 word" where "FI_SEND = 2048"

definition FI_EAGAIN :: int where "FI_EAGAIN = 11"
definition FI_ENOENT :: int where "FI_ENOENT = 2"
definition FI_ECANCELED :: int where "FI_ECANCELED = 125"

type_synonym fi_addr_t = "64 word"

record cq_entry =
  ce_flags :: "64 word"
  ce_context :: ptr

text \<open>Reading a completion queue: entries; nothing (zero or \<open>-FI_EAGAIN\<close>); an error entry
  (\<open>-FI_EAVAIL\<close>, read with \<open>fi_cq_readerr\<close>) with its code and context; another error code.\<close>

datatype cq_result = Cq_entries "cq_entry list" | Cq_none | Cq_err int "ptr option" | Cq_other int

datatype cq_id = Tx_cq | Rx_cq

record 'f fi_lib =
  fi_tsend :: "ptr \<Rightarrow> size_t \<Rightarrow> fi_addr_t \<Rightarrow> 64 word \<Rightarrow> ptr \<Rightarrow> 'f \<Rightarrow> int \<times> 'f"
  fi_tinject :: "ptr \<Rightarrow> size_t \<Rightarrow> fi_addr_t \<Rightarrow> 64 word \<Rightarrow> 'f \<Rightarrow> int \<times> 'f"
  fi_trecv :: "ptr \<Rightarrow> size_t \<Rightarrow> fi_addr_t \<Rightarrow> 64 word \<Rightarrow> 64 word \<Rightarrow> ptr \<Rightarrow> 'f \<Rightarrow> int \<times> 'f"
  fi_cancel :: "ptr \<Rightarrow> 'f \<Rightarrow> int \<times> 'f"
  fi_cq_read :: "cq_id \<Rightarrow> 32 word \<Rightarrow> 'f \<Rightarrow> cq_result \<times> 'f"

section \<open>State\<close>

text \<open>The variant \<open>m_req\<close> of an operation context tells whether the request is a shared one.\<close>

record 'c lf_request_state = "'c request_state" +
  m_op_shared :: bool

text \<open>\<open>tx_busy\<close>: another thread holds the lock of the send queue.\<close>

record ('c, 'e, 'f) lf_world = "'c lf_request_state request_store" +
  m_send_cb_queue :: "nat \<Rightarrow> ptr list"
  m_recv_cb_queue :: "nat \<Rightarrow> ptr list"
  m_recv_cb_cancel :: "nat \<Rightarrow> ptr list"
  ctx_recv_cb_queue :: "ptr list"
  ctx_recv_cb_cancel :: "ptr list"
  lf_depth :: "nat \<Rightarrow> nat"
  lf_ctx_depth :: nat
  m_ctxt_tag :: "64 word"
  tx_inject_size :: size_t
  max_completions_per_poll :: "32 word"
  tx_busy :: bool
  lf_app :: 'e
  fab :: 'f

type_synonym ('c, 'e, 'f) lf_callback =
  "'c \<Rightarrow> rank_type \<Rightarrow> tag_type \<Rightarrow> ('c, 'e, 'f) lf_world \<Rightarrow> ('c, 'e, 'f) lf_world"

datatype lf_queue = L_send nat | L_recv nat | L_cancel nat | L_ctx | L_ctx_cancel

fun lf_list :: "lf_queue \<Rightarrow> ('c, 'e, 'f) lf_world \<Rightarrow> ptr list" where
  "lf_list (L_send c) w = m_send_cb_queue w c"
| "lf_list (L_recv c) w = m_recv_cb_queue w c"
| "lf_list (L_cancel c) w = m_recv_cb_cancel w c"
| "lf_list L_ctx w = ctx_recv_cb_queue w"
| "lf_list L_ctx_cancel w = ctx_recv_cb_cancel w"

fun lf_set :: "lf_queue \<Rightarrow> ptr list \<Rightarrow> ('c, 'e, 'f) lf_world \<Rightarrow> ('c, 'e, 'f) lf_world" where
  "lf_set (L_send c) xs w = w\<lparr>m_send_cb_queue := (m_send_cb_queue w)(c := xs)\<rparr>"
| "lf_set (L_recv c) xs w = w\<lparr>m_recv_cb_queue := (m_recv_cb_queue w)(c := xs)\<rparr>"
| "lf_set (L_cancel c) xs w = w\<lparr>m_recv_cb_cancel := (m_recv_cb_cancel w)(c := xs)\<rparr>"
| "lf_set L_ctx xs w = w\<lparr>ctx_recv_cb_queue := xs\<rparr>"
| "lf_set L_ctx_cancel xs w = w\<lparr>ctx_recv_cb_cancel := xs\<rparr>"

text \<open>\<open>while (!queue.push(s)) {}\<close> on a lock free queue that grows.\<close>

definition lf_push :: "lf_queue \<Rightarrow> ptr \<Rightarrow> ('c, 'e, 'f) lf_world \<Rightarrow> ('c, 'e, 'f) lf_world" where
  "lf_push q p w = lf_set q (lf_list q w @ [p]) w"

text \<open>The recursion depth of a communicator or of the context, and a scope with an \<open>increment_guard\<close>.\<close>

definition lf_depth_of :: "nat option \<Rightarrow> ('c, 'e, 'f) lf_world \<Rightarrow> nat" where
  "lf_depth_of a w = (case a of Some c \<Rightarrow> lf_depth w c | None \<Rightarrow> lf_ctx_depth w)"

definition lf_add_depth :: "nat option \<Rightarrow> (nat \<Rightarrow> nat) \<Rightarrow> ('c, 'e, 'f) lf_world \<Rightarrow> ('c, 'e, 'f) lf_world" where
  "lf_add_depth a g w =
     (case a of
        Some c \<Rightarrow> w\<lparr>lf_depth := (lf_depth w)(c := g (lf_depth w c))\<rparr>
      | None \<Rightarrow> w\<lparr>lf_ctx_depth := g (lf_ctx_depth w)\<rparr>)"

definition lf_guarded ::
    "nat option \<Rightarrow> (('c, 'e, 'f) lf_world \<Rightarrow> ('c, 'e, 'f) lf_world result) \<Rightarrow> ('c, 'e, 'f) lf_world \<Rightarrow> ('c, 'e, 'f) lf_world result" where
  "lf_guarded a g w =
     bind_res (g (lf_add_depth a (\<lambda>n. n + 1) w)) (\<lambda>w. Inr (lf_add_depth a (\<lambda>n. n - 1) w))"

section \<open>Operation contexts\<close>

definition handle_cancelled :: "ptr \<Rightarrow> ('c, 'e, 'f) lf_world \<Rightarrow> ('c, 'e, 'f) lf_world result" where
  "handle_cancelled p w =
     bind_res (load_state p w) (\<lambda>s.
     Inr (if m_op_shared s then lf_push L_ctx_cancel p w else lf_push (L_cancel (m_comm s)) p w))"

text \<open>\<open>user\<close> is the communicator that polls, if any.\<close>

definition handle_tagged_recv_completion ::
    "('c, 'e, 'f) lf_callback \<Rightarrow> nat option \<Rightarrow> ptr \<Rightarrow> ('c, 'e, 'f) lf_world \<Rightarrow> ('c, 'e, 'f) lf_world result" where
  "handle_tagged_recv_completion cbk user p w =
     bind_res (load_state p w) (\<lambda>s.
     if \<not> m_op_shared s then
       if user = Some (m_comm s) then
         if \<not> has_reached_recursion_depth (lf_depth_of (Some (m_comm s)) w)
         then lf_guarded (Some (m_comm s)) (complete_request cbk p) w
         else Inr (lf_push (L_recv (m_comm s)) p w)
       else Inr (lf_push (L_recv (m_comm s)) p w)
     else
       if \<not> has_reached_recursion_depth (lf_depth_of None w)
       then lf_guarded None (complete_request cbk p) w
       else Inr (lf_push L_ctx p w))"

definition handle_tagged_send_completion ::
    "('c, 'e, 'f) lf_callback \<Rightarrow> nat option \<Rightarrow> ptr \<Rightarrow> ('c, 'e, 'f) lf_world \<Rightarrow> ('c, 'e, 'f) lf_world result" where
  "handle_tagged_send_completion cbk user p w =
     bind_res (load_state p w) (\<lambda>s.
     if \<not> m_op_shared s then
       if user = Some (m_comm s) then
         if \<not> has_reached_recursion_depth (lf_depth_of (Some (m_comm s)) w)
         then lf_guarded (Some (m_comm s)) (complete_request cbk p) w
         else Inr (lf_push (L_send (m_comm s)) p w)
       else Inr (lf_push (L_send (m_comm s)) p w)
     else
       if \<not> has_reached_recursion_depth (lf_depth_of None w)
       then lf_guarded None (complete_request cbk p) w
       else Inr (lf_push L_ctx p w))"

section \<open>Polling\<close>

text \<open>The loop over the entries read; it returns \<open>processed\<close>, to which each handler adds one.  The
  performance counters of the controller are of the disabled kind (\<open>simple_counter<int, false>\<close>), whose
  operations do nothing, and have no counterpart here.\<close>

fun send_entries ::
    "('c, 'e, 'f) lf_callback \<Rightarrow> nat option \<Rightarrow> cq_entry list \<Rightarrow> int \<Rightarrow> ('c, 'e, 'f) lf_world \<Rightarrow> (int \<times> ('c, 'e, 'f) lf_world) result" where
  "send_entries cbk user [] n w = Inr (n, w)"
| "send_entries cbk user (e # es) n w =
     (if ce_flags e AND (FI_TAGGED OR FI_SEND OR FI_MSG) \<noteq> 0
      then bind_res (handle_tagged_send_completion cbk user (ce_context e) w) (send_entries cbk user es (n + 1))
      else Inl (Terminate ''unknown txcq completion''))"

fun recv_entries ::
    "('c, 'e, 'f) lf_callback \<Rightarrow> nat option \<Rightarrow> cq_entry list \<Rightarrow> int \<Rightarrow> ('c, 'e, 'f) lf_world \<Rightarrow> (int \<times> ('c, 'e, 'f) lf_world) result" where
  "recv_entries cbk user [] n w = Inr (n, w)"
| "recv_entries cbk user (e # es) n w =
     (if ce_flags e AND (FI_TAGGED OR FI_RECV) \<noteq> 0
      then bind_res (handle_tagged_recv_completion cbk user (ce_context e) w) (recv_entries cbk user es (n + 1))
      else Inl (Terminate ''unknown rxcq completion''))"

definition poll_send_queue ::
    "'f fi_lib \<Rightarrow> ('c, 'e, 'f) lf_callback \<Rightarrow> nat option \<Rightarrow> ('c, 'e, 'f) lf_world \<Rightarrow> (int \<times> ('c, 'e, 'f) lf_world) result" where
  "poll_send_queue lib cbk user w =
     (if tx_busy w then Inr (-1, w)
      else case fi_cq_read lib Tx_cq (max_completions_per_poll w) (fab w) of (r, f) \<Rightarrow>
        (case r of
           Cq_err code ctxt \<Rightarrow>
             (case ctxt of
                None \<Rightarrow> Inl (Undefined_behaviour ''null operation context'')
              | Some p \<Rightarrow> Inl (Terminate ''handle_error''))
         | Cq_entries es \<Rightarrow> send_entries cbk user es 0 (w\<lparr>fab := f\<rparr>)
         | _ \<Rightarrow> Inr (0, w\<lparr>fab := f\<rparr>)))"

definition poll_recv_queue ::
    "'f fi_lib \<Rightarrow> ('c, 'e, 'f) lf_callback \<Rightarrow> nat option \<Rightarrow> ('c, 'e, 'f) lf_world \<Rightarrow> (int \<times> ('c, 'e, 'f) lf_world) result" where
  "poll_recv_queue lib cbk user w =
     (case fi_cq_read lib Rx_cq (max_completions_per_poll w) (fab w) of (r, f) \<Rightarrow>
        (case r of
           Cq_err code ctxt \<Rightarrow>
             if code = FI_ECANCELED
             then (case ctxt of
                     None \<Rightarrow> Inl (Undefined_behaviour ''null operation context'')
                   | Some p \<Rightarrow> bind_res (handle_cancelled p (w\<lparr>fab := f\<rparr>)) (\<lambda>w. Inr (0, w)))
             else (case ctxt of None \<Rightarrow> Inr (0, w\<lparr>fab := f\<rparr>) | Some p \<Rightarrow> Inl (Terminate ''handle_error''))
         | Cq_entries es \<Rightarrow> recv_entries cbk user es 0 (w\<lparr>fab := f\<rparr>)
         | _ \<Rightarrow> Inr (0, w\<lparr>fab := f\<rparr>)))"

text \<open>\<open>poll_for_work_completions\<close>: polls again as long as a queue delivered as many completions as one
  poll takes.  The counts are \<open>uint32_t\<close>, summed up in a \<open>progress_status\<close>.\<close>

partial_function (option) poll_for_work_completions ::
    "'f fi_lib \<Rightarrow> ('c, 'e, 'f) lf_callback \<Rightarrow> nat option \<Rightarrow> 32 word \<times> 32 word \<Rightarrow> ('c, 'e, 'f) lf_world \<Rightarrow>
     ((32 word \<times> 32 word) \<times> ('c, 'e, 'f) lf_world) result option" where
  "poll_for_work_completions lib cbk user st w =
     (case poll_send_queue lib cbk user w of
        Inl e \<Rightarrow> Some (Inl e)
      | Inr (ns, w1) \<Rightarrow>
          (case poll_recv_queue lib cbk user w1 of
             Inl e \<Rightarrow> Some (Inl e)
           | Inr (nr, w2) \<Rightarrow>
               if word_of_int ns = max_completions_per_poll w2 \<or> word_of_int nr = max_completions_per_poll w2
               then poll_for_work_completions lib cbk user (fst st + word_of_int ns, snd st + word_of_int nr) w2
               else Some (Inr ((fst st + word_of_int ns, snd st + word_of_int nr), w2))))"

section \<open>Communicator\<close>

text \<open>The tag of a message: 24 bits of the context's tag and 24 bits of the message's tag.\<close>

definition make_tag64 :: "32 word \<Rightarrow> 64 word \<Rightarrow> 64 word" where
  "make_tag64 tag ctxt = push_bit 24 (ctxt AND 0x0000000000FFFFFF) OR (ucast tag AND 0x0000000000FFFFFF)"

definition lf_num_tag_bits :: nat where
  "lf_num_tag_bits = 32"

text \<open>\<open>execute_fi_function\<close>: repeats the call, polling in between, until it is accepted.\<close>

partial_function (option) execute_fi_function ::
    "'f fi_lib \<Rightarrow> ('c, 'e, 'f) lf_callback \<Rightarrow> nat \<Rightarrow> ('f \<Rightarrow> int \<times> 'f) \<Rightarrow> ('c, 'e, 'f) lf_world \<Rightarrow>
     ('c, 'e, 'f) lf_world result option" where
  "execute_fi_function lib cbk c F w =
     (case F (fab w) of (ret, f) \<Rightarrow>
        if ret = 0 then Some (Inr (w\<lparr>fab := f\<rparr>))
        else if ret = - FI_EAGAIN then
          (case poll_for_work_completions lib cbk (Some c) (0, 0) (w\<lparr>fab := f\<rparr>) of
             None \<Rightarrow> None
           | Some r \<Rightarrow>
               (case r of
                  Inl e \<Rightarrow> Some (Inl e)
                | Inr sv \<Rightarrow> execute_fi_function lib cbk c F (snd sv)))
        else if ret = - FI_ENOENT then Some (Inl (Terminate ''No destination endpoint, terminating.''))
        else Some (Inl (Terminate ''fabric_error'')))"

definition send_tagged_region ::
    "'f fi_lib \<Rightarrow> ('c, 'e, 'f) lf_callback \<Rightarrow> nat \<Rightarrow> ptr \<Rightarrow> size_t \<Rightarrow> fi_addr_t \<Rightarrow> 64 word \<Rightarrow> ptr \<Rightarrow>
     ('c, 'e, 'f) lf_world \<Rightarrow> ('c, 'e, 'f) lf_world result option" where
  "send_tagged_region lib cbk c buf sz dst tag ctxt = execute_fi_function lib cbk c (fi_tsend lib buf sz dst tag ctxt)"

definition inject_tagged_region ::
    "'f fi_lib \<Rightarrow> ('c, 'e, 'f) lf_callback \<Rightarrow> nat \<Rightarrow> ptr \<Rightarrow> size_t \<Rightarrow> fi_addr_t \<Rightarrow> 64 word \<Rightarrow>
     ('c, 'e, 'f) lf_world \<Rightarrow> ('c, 'e, 'f) lf_world result option" where
  "inject_tagged_region lib cbk c buf sz dst tag = execute_fi_function lib cbk c (fi_tinject lib buf sz dst tag)"

definition recv_tagged_region ::
    "'f fi_lib \<Rightarrow> ('c, 'e, 'f) lf_callback \<Rightarrow> nat \<Rightarrow> ptr \<Rightarrow> size_t \<Rightarrow> fi_addr_t \<Rightarrow> 64 word \<Rightarrow> ptr \<Rightarrow>
     ('c, 'e, 'f) lf_world \<Rightarrow> ('c, 'e, 'f) lf_world result option" where
  "recv_tagged_region lib cbk c buf sz src tag ctxt =
     (let ignore = 0 in execute_fi_function lib cbk c (fi_trecv lib buf sz src tag ignore ctxt))"

definition lf_bind :: "'a result option \<Rightarrow> ('a \<Rightarrow> 'b result option) \<Rightarrow> 'b result option" where
  "lf_bind r g = (case r of None \<Rightarrow> None | Some (Inl e) \<Rightarrow> Some (Inl e) | Some (Inr a) \<Rightarrow> g a)"

text \<open>Construction of a request.  The local pointer to it is counted among the user's request objects,
  to which it is moved when the posting function returns.\<close>

definition lf_make_request ::
    "nat \<Rightarrow> counter_id \<Rightarrow> bool \<Rightarrow> ptr \<Rightarrow> rank_type \<Rightarrow> tag_type \<Rightarrow> 'c \<Rightarrow> ('c, 'e, 'f) lf_world \<Rightarrow> ('c, 'e, 'f) lf_world result" where
  "lf_make_request c sched shared p rank tag cb w =
     bind_res (post_request p
       \<lparr>m_comm = c, m_scheduled = sched, m_rank = rank, m_tag = tag, m_cb = cb,
        m_ready = False, m_canceled = False, m_self_ptr = None, m_op_shared = shared\<rparr> w) (\<lambda>w.
     Inr (move_to_handle p w))"

definition lf_send ::
    "'f fi_lib \<Rightarrow> ('c, 'e, 'f) lf_callback \<Rightarrow> nat \<Rightarrow> ptr \<Rightarrow> ptr \<Rightarrow> size_t \<Rightarrow> rank_type \<Rightarrow> tag_type \<Rightarrow> 'c \<Rightarrow>
     ('c, 'e, 'f) lf_world \<Rightarrow> (ptr option \<times> ('c, 'e, 'f) lf_world) result option" where
  "lf_send lib cbk c p buf sz dst tag cb w =
     (let stag = make_tag64 tag (m_ctxt_tag w) in
      if sz \<le> tx_inject_size w then
        lf_bind (inject_tagged_region lib cbk c buf sz (scast dst) stag w) (\<lambda>w.
        if \<not> has_reached_recursion_depth (lf_depth_of (Some c) w)
        then Some (bind_res (lf_guarded (Some c) (\<lambda>w. Inr (cbk cb dst tag w)) w) (\<lambda>w. Inr (None, w)))
        else Some (bind_res (lf_make_request c (Scheduled_sends c) False p dst tag cb w) (\<lambda>w.
                   Inr (Some p, lf_push (L_send c) p w))))
      else
        lf_bind (Some (lf_make_request c (Scheduled_sends c) False p dst tag cb w)) (\<lambda>w.
        lf_bind (send_tagged_region lib cbk c buf sz (scast dst) stag p w) (\<lambda>w.
        Some (Inr (Some p, w)))))"

definition lf_recv ::
    "'f fi_lib \<Rightarrow> ('c, 'e, 'f) lf_callback \<Rightarrow> nat \<Rightarrow> ptr \<Rightarrow> ptr \<Rightarrow> size_t \<Rightarrow> rank_type \<Rightarrow> tag_type \<Rightarrow> 'c \<Rightarrow>
     ('c, 'e, 'f) lf_world \<Rightarrow> (ptr option \<times> ('c, 'e, 'f) lf_world) result option" where
  "lf_recv lib cbk c p buf sz src tag cb w =
     (let stag = make_tag64 tag (m_ctxt_tag w) in
      lf_bind (Some (lf_make_request c (Scheduled_recvs c) False p src tag cb w)) (\<lambda>w.
      lf_bind (recv_tagged_region lib cbk c buf sz (scast src) stag p w) (\<lambda>w.
      Some (Inr (Some p, w)))))"

definition lf_shared_recv ::
    "'f fi_lib \<Rightarrow> ('c, 'e, 'f) lf_callback \<Rightarrow> nat \<Rightarrow> ptr \<Rightarrow> ptr \<Rightarrow> size_t \<Rightarrow> rank_type \<Rightarrow> tag_type \<Rightarrow> 'c \<Rightarrow>
     ('c, 'e, 'f) lf_world \<Rightarrow> (ptr option \<times> ('c, 'e, 'f) lf_world) result option" where
  "lf_shared_recv lib cbk c p buf sz src tag cb w =
     (let stag = make_tag64 tag (m_ctxt_tag w) in
      lf_bind (Some (lf_make_request c Shared_scheduled_recvs True p src tag cb w)) (\<lambda>w.
      lf_bind (recv_tagged_region lib cbk c buf sz (scast src) stag p w) (\<lambda>w.
      lf_bind (Some (poll_recv_queue lib cbk (Some c) w)) (\<lambda>(_, w).
      Some (Inr (Some p, w))))))"

partial_function (option) lf_consume ::
    "('c, 'e, 'f) lf_callback \<Rightarrow> lf_queue \<Rightarrow> ('c, 'e, 'f) lf_world \<Rightarrow> ('c, 'e, 'f) lf_world result option" where
  "lf_consume cbk q w =
     (case lf_list q w of
        [] \<Rightarrow> Some (Inr w)
      | p # ps \<Rightarrow>
          (case complete_request cbk p (lf_set q ps w) of
             Inl e \<Rightarrow> Some (Inl e)
           | Inr v \<Rightarrow> lf_consume cbk q v))"

definition clear_callback_queues ::
    "('c, 'e, 'f) lf_callback \<Rightarrow> nat \<Rightarrow> ('c, 'e, 'f) lf_world \<Rightarrow> ('c, 'e, 'f) lf_world result option" where
  "clear_callback_queues cbk c w =
     lf_bind (lf_consume cbk (L_send c) w) (\<lambda>w.
     lf_bind (lf_consume cbk (L_recv c) w) (\<lambda>w.
     lf_consume cbk L_ctx w))"

definition lf_comm_progress ::
    "'f fi_lib \<Rightarrow> ('c, 'e, 'f) lf_callback \<Rightarrow> nat \<Rightarrow> ('c, 'e, 'f) lf_world \<Rightarrow> ('c, 'e, 'f) lf_world result option" where
  "lf_comm_progress lib cbk c w =
     lf_bind (poll_for_work_completions lib cbk (Some c) (0, 0) w) (\<lambda>(_, w). clear_callback_queues cbk c w)"

definition lf_ctx_progress ::
    "'f fi_lib \<Rightarrow> ('c, 'e, 'f) lf_callback \<Rightarrow> ('c, 'e, 'f) lf_world \<Rightarrow> ('c, 'e, 'f) lf_world result option" where
  "lf_ctx_progress lib cbk w =
     lf_bind (poll_for_work_completions lib cbk None (0, 0) w) (\<lambda>(_, w). Some (Inr w))"

lemmas region_defs = send_tagged_region_def inject_tagged_region_def recv_tagged_region_def

section \<open>Cancellation\<close>

text \<open>The inner loop: pops the cancelled requests until \<open>p\<close> is found, the others go to a stack, which is
  pushed back top first.  The result is whether \<open>p\<close> was found, and the queue afterwards.\<close>

fun cancel_pops :: "ptr \<Rightarrow> ptr list \<Rightarrow> ptr list \<Rightarrow> bool \<times> ptr list" where
  "cancel_pops p [] stack = (False, stack)"
| "cancel_pops p (x # xs) stack = (if x = p then (True, xs @ stack) else cancel_pops p xs (x # stack))"

partial_function (option) lf_cancel_loop ::
    "'f fi_lib \<Rightarrow> ('c, 'e, 'f) lf_callback \<Rightarrow> nat option \<Rightarrow> lf_queue \<Rightarrow> ptr \<Rightarrow> ('c, 'e, 'f) lf_world \<Rightarrow>
     ('c, 'e, 'f) lf_world result option" where
  "lf_cancel_loop lib cbk user q p w =
     (case poll_recv_queue lib cbk user w of
        Inl e \<Rightarrow> Some (Inl e)
      | Inr nw \<Rightarrow>
          (case cancel_pops p (lf_list q (snd nw)) [] of (found, xs) \<Rightarrow>
             if found then Some (cancel_request p (lf_set q xs (snd nw)))
             else lf_cancel_loop lib cbk user q p (lf_set q xs (snd nw))))"

definition lf_cancel_recv ::
    "'f fi_lib \<Rightarrow> ('c, 'e, 'f) lf_callback \<Rightarrow> nat \<Rightarrow> ptr \<Rightarrow> ('c, 'e, 'f) lf_world \<Rightarrow>
     (bool \<times> ('c, 'e, 'f) lf_world) result option" where
  "lf_cancel_recv lib cbk c p w =
     (case fi_cancel lib p (fab w) of (ret, f) \<Rightarrow>
        if ret \<noteq> 0 then Some (Inr (False, w\<lparr>fab := f\<rparr>))
        else lf_bind (lf_cancel_loop lib cbk (Some c) (L_cancel c) p (w\<lparr>fab := f\<rparr>)) (\<lambda>w. Some (Inr (True, w))))"

definition lf_ctx_cancel_recv ::
    "'f fi_lib \<Rightarrow> ('c, 'e, 'f) lf_callback \<Rightarrow> ptr \<Rightarrow> ('c, 'e, 'f) lf_world \<Rightarrow>
     (bool \<times> ('c, 'e, 'f) lf_world) result option" where
  "lf_ctx_cancel_recv lib cbk p w =
     (case fi_cancel lib p (fab w) of (ret, f) \<Rightarrow>
        if ret \<noteq> 0 then Some (Inr (False, w\<lparr>fab := f\<rparr>))
        else lf_bind (lf_cancel_loop lib cbk None L_ctx_cancel p (w\<lparr>fab := f\<rparr>)) (\<lambda>w. Some (Inr (True, w))))"

end
