(* ===== verification/Lf_Invariant.thy ===== *)
theory Lf_Invariant
  imports Lf_Transport "HOL-Library.Sublist"
begin

text \<open>
  The invariant of the libfabric transport.  Every request that has not completed is held in one place:
  its operation is outstanding, its completion has been read but not handled, or it stands in one queue
  of a communicator or of the context.  The invariant is a statement about each request, so that an
  operation is checked on the requests it touches.
\<close>

section \<open>What is relied on of libfabric\<close>

text \<open>\<open>fout\<close>: the operation contexts with an outstanding operation; \<open>fwork\<close>: a bound of the number of
  completions that can be read before anything else happens.\<close>

record 'f fi_view =
  fout :: "'f \<Rightarrow> ptr \<Rightarrow> bool"
  fwork :: "'f \<Rightarrow> nat"

definition entry_flags_ok :: "cq_id \<Rightarrow> cq_entry \<Rightarrow> bool" where
  "entry_flags_ok q e \<longleftrightarrow>
     (case q of
        Tx_cq \<Rightarrow> ce_flags e AND (FI_TAGGED OR FI_SEND OR FI_MSG) \<noteq> 0
      | Rx_cq \<Rightarrow> ce_flags e AND (FI_TAGGED OR FI_RECV) \<noteq> 0)"

text \<open>An accepted operation is outstanding until its completion is read, or the error entry that says
  that it was cancelled.\<close>

definition post_ok :: "'f fi_view \<Rightarrow> ptr \<Rightarrow> 'f \<Rightarrow> int \<times> 'f \<Rightarrow> bool" where
  "post_ok vw p u res \<longleftrightarrow> fout vw (snd res) = (if fst res = 0 then (fout vw u)(p := True) else fout vw u)"

definition cq_read_ok :: "'f fi_view \<Rightarrow> cq_id \<Rightarrow> 32 word \<Rightarrow> 'f \<Rightarrow> cq_result \<times> 'f \<Rightarrow> bool" where
  "cq_read_ok vw q n u res \<longleftrightarrow>
     fwork vw (snd res) \<le> fwork vw u \<and>
     (case fst res of
        Cq_entries es \<Rightarrow>
          es \<noteq> [] \<and> length es \<le> unat n \<and> distinct (map ce_context es) \<and>
          (\<forall>e \<in> set es. entry_flags_ok q e \<and> fout vw u (ce_context e)) \<and>
          fout vw (snd res) = (\<lambda>p. fout vw u p \<and> p \<notin> ce_context ` set es) \<and> fwork vw (snd res) < fwork vw u
      | Cq_err code ctxt \<Rightarrow>
          q = Rx_cq \<and> code = FI_ECANCELED \<and>
          (\<exists>p. ctxt = Some p \<and> fout vw u p \<and> fout vw (snd res) = (fout vw u)(p := False))
      | _ \<Rightarrow> fout vw (snd res) = fout vw u)"

definition fi_ok :: "'f fi_lib \<Rightarrow> 'f fi_view \<Rightarrow> bool" where
  "fi_ok lib vw \<longleftrightarrow>
     (\<forall>buf sz a t p u. post_ok vw p u (fi_tsend lib buf sz a t p u)) \<and>
     (\<forall>buf sz a t m p u. post_ok vw p u (fi_trecv lib buf sz a t m p u)) \<and>
     (\<forall>buf sz a t u. fout vw (snd (fi_tinject lib buf sz a t u)) = fout vw u) \<and>
     (\<forall>p u. fout vw (snd (fi_cancel lib p u)) = fout vw u) \<and>
     (\<forall>q n u. cq_read_ok vw q n u (fi_cq_read lib q n u))"

section \<open>Callbacks\<close>

definition lenv :: "('c, 'e, 'f) lf_world \<Rightarrow> api_state \<times> 'e" where
  "lenv w = (api w, lf_app w)"

definition lf_extern ::
    "('c \<Rightarrow> rank_type \<Rightarrow> tag_type \<Rightarrow> api_state \<times> 'e \<Rightarrow> api_state \<times> 'e) \<Rightarrow> ('c, 'e, 'f) lf_callback" where
  "lf_extern f c r t w = (case f c r t (lenv w) of (a, e) \<Rightarrow> w\<lparr>api := a, lf_app := e\<rparr>)"

lemma lf_extern_outside: "outside (lf_extern f) = lf_extern f"
  by (simp add: fun_eq_iff outside_def lf_extern_def off_store_def lenv_def split: prod.splits)

text \<open>The settings and recursion depths, and everything but the store and what callbacks change.\<close>

definition lsettings where
  "lsettings w = (lf_depth w, lf_ctx_depth w, m_ctxt_tag w, tx_inject_size w, max_completions_per_poll w, tx_busy w)"

definition lstatic where
  "lstatic w = (lsettings w, (\<lambda>q. lf_list q w), fab w)"

definition lcall_of ::
    "('c \<Rightarrow> rank_type \<Rightarrow> tag_type \<Rightarrow> api_state \<times> 'e \<Rightarrow> api_state \<times> 'e) \<Rightarrow> ('c, 'e, 'f) lf_world \<Rightarrow> ptr \<Rightarrow>
     api_state \<times> 'e \<Rightarrow> api_state \<times> 'e" where
  "lcall_of f w p = f (m_cb (state_of w p)) (m_rank (state_of w p)) (m_tag (state_of w p))"

lemma lf_list_cong:
  "m_send_cb_queue v = m_send_cb_queue w \<Longrightarrow> m_recv_cb_queue v = m_recv_cb_queue w \<Longrightarrow>
   m_recv_cb_cancel v = m_recv_cb_cancel w \<Longrightarrow> ctx_recv_cb_queue v = ctx_recv_cb_queue w \<Longrightarrow>
   ctx_recv_cb_cancel v = ctx_recv_cb_cancel w \<Longrightarrow> lf_list q v = lf_list q w"
  by (cases q) simp_all

lemma lf_list_simps [simp]:
  "lf_list q (w\<lparr>heap := h\<rparr>) = lf_list q w" "lf_list q (w\<lparr>counters := n\<rparr>) = lf_list q w"
  "lf_list q (w\<lparr>handles := g\<rparr>) = lf_list q w" "lf_list q (w\<lparr>fab := x\<rparr>) = lf_list q w"
  "lf_list q (w\<lparr>api := a, lf_app := e\<rparr>) = lf_list q w" "lf_list q (lf_add_depth d k w) = lf_list q w"
  by (rule lf_list_cong; simp add: lf_add_depth_def split: option.splits)+

lemma lstatic_off_store:
  fixes u :: "('c, 'e, 'f) lf_world"
  shows "lenv (off_store u) = lenv u" "lstatic (off_store u) = lstatic u"
  by (simp_all add: off_store_def lenv_def lstatic_def lsettings_def)

lemma effect_lf:
  fixes w :: "('c, 'e, 'f) lf_world"
  assumes "off_store v = effect_of (lf_extern f) w p (off_store w)"
  shows "lenv v = lcall_of f w p (lenv w)" "lstatic v = lstatic w"
  unfolding lstatic_off_store [of v, symmetric] assms
  by (simp_all add: effect_of_def lstatic_off_store lcall_of_def lf_extern_def split: prod.splits)
     (simp_all add: lenv_def lstatic_def lsettings_def off_store_def)

lemma lf_complete_ok:
  fixes w :: "('c, 'e, 'f) lf_world"
  assumes "store_inv w" "is_waiting w p"
  obtains v where "complete_request (lf_extern f) p w = Inr v" "store_inv v" "finished v p"
    "lenv v = lcall_of f w p (lenv w)" "lstatic v = lstatic w" "handles v = handles w"
    "\<And>x. x \<noteq> p \<Longrightarrow> heap v x = heap w x"
proof -
  obtain v where v: "complete_request (lf_extern f) p w = Inr v" "store_inv v" "finished v p"
    "off_store v = effect_of (lf_extern f) w p (off_store w)" "handles v = handles w"
    "\<And>x. x \<noteq> p \<Longrightarrow> heap v x = heap w x"
    by (rule complete_request_outside [OF assms, of "lf_extern f", unfolded lf_extern_outside]) (rule that)
  then show thesis
    using effect_lf [OF v(4)] by (intro that [of v]) simp_all
qed

lemma finished_not_waiting: "finished w p \<Longrightarrow> \<not> is_waiting w p \<and> \<not> pending w p"
  by (auto simp: finished_def is_waiting_def pending_def waiting_def split: option.splits)

section \<open>Queues\<close>

lemma lf_set_simps [simp]:
  "lf_list q' (lf_set q xs w) = (if q' = q then xs else lf_list q' w)"
  "heap (lf_set q xs w) = heap w" "counters (lf_set q xs w) = counters w" "handles (lf_set q xs w) = handles w"
  "fab (lf_set q xs w) = fab w" "lenv (lf_set q xs w) = lenv w" "lsettings (lf_set q xs w) = lsettings w"
  by (cases q; cases q'; simp add: lenv_def lsettings_def)+

lemma lf_push_simps [simp]:
  "lf_list q' (lf_push q p w) = (if q' = q then lf_list q w @ [p] else lf_list q' w)"
  "heap (lf_push q p w) = heap w" "counters (lf_push q p w) = counters w" "handles (lf_push q p w) = handles w"
  "fab (lf_push q p w) = fab w" "lenv (lf_push q p w) = lenv w" "lsettings (lf_push q p w) = lsettings w"
  by (simp_all add: lf_push_def)

section \<open>The invariant\<close>

datatype lf_place = At_fabric | Reported | In_lf_queue lf_queue

fun lheld :: "'f fi_view \<Rightarrow> ptr set \<Rightarrow> ('c, 'e, 'f) lf_world \<Rightarrow> lf_place \<Rightarrow> ptr \<Rightarrow> bool" where
  "lheld vw E w At_fabric p \<longleftrightarrow> fout vw (fab w) p"
| "lheld vw E w Reported p \<longleftrightarrow> p \<in> E"
| "lheld vw E w (In_lf_queue q) p \<longleftrightarrow> p \<in> set (lf_list q w)"

text \<open>\<open>X\<close> are waiting requests held nowhere: they are being posted or completed.\<close>

definition lok :: "'f fi_view \<Rightarrow> ptr set \<Rightarrow> ptr set \<Rightarrow> ('c, 'e, 'f) lf_world \<Rightarrow> ptr \<Rightarrow> bool" where
  "lok vw X E w p \<longleftrightarrow>
     (if is_waiting w p
      then (if p \<in> X then \<forall>a. \<not> lheld vw E w a p else \<exists>a. \<forall>b. lheld vw E w b p \<longleftrightarrow> b = a)
      else p \<notin> X \<and> \<not> pending w p \<and> (\<forall>a. \<not> lheld vw E w a p))"

definition linv :: "'f fi_view \<Rightarrow> ptr set \<Rightarrow> ptr set \<Rightarrow> ('c, 'e, 'f) lf_world \<Rightarrow> bool" where
  "linv vw X E w \<longleftrightarrow> store_inv w \<and> (\<forall>q. distinct (lf_list q w)) \<and> (\<forall>p. lok vw X E w p)"

lemma linvD:
  assumes "linv vw X E w"
  shows "store_inv w" "distinct (lf_list q w)" "lok vw X E w p"
  using assms by (simp_all add: linv_def)

lemma lok_cong:
  assumes "heap v p = heap w p" "p \<in> X' \<longleftrightarrow> p \<in> X" "\<And>a. lheld vw E' v a p \<longleftrightarrow> lheld vw E w a p"
  shows "lok vw X' E' v p \<longleftrightarrow> lok vw X E w p"
  using assms by (simp add: lok_def is_waiting_def pending_def)

text \<open>An operation that touches the request \<open>p\<close> only.\<close>

lemma linv_at:
  assumes "linv vw X E w" "store_inv v" "\<And>q. distinct (lf_list q v)" "lok vw X' E' v p"
    "\<And>x. x \<noteq> p \<Longrightarrow> heap v x = heap w x" "\<And>x. x \<noteq> p \<Longrightarrow> x \<in> X' \<longleftrightarrow> x \<in> X"
    "\<And>x a. x \<noteq> p \<Longrightarrow> lheld vw E' v a x \<longleftrightarrow> lheld vw E w a x"
  shows "linv vw X' E' v"
  unfolding linv_def
proof (intro conjI allI)
  show "lok vw X' E' v x" for x
    using assms(4) lok_cong [of v x w X' X vw E' E] assms(5-7) [of x] linvD(3) [OF assms(1), of x]
    by (cases "x = p") simp_all
qed (use assms in simp_all)

lemma held_waiting:
  assumes "linv vw X E w" "lheld vw E w a p"
  shows "is_waiting w p" "p \<notin> X" "lheld vw E w b p \<longleftrightarrow> b = a"
  using linvD(3) [OF assms(1), of p] assms(2) by (auto simp: lok_def split: if_splits)

lemma loose_waiting:
  assumes "linv vw X E w" "p \<in> X"
  shows "is_waiting w p" "\<not> lheld vw E w a p"
  using linvD(3) [OF assms(1), of p] assms(2) by (auto simp: lok_def split: if_splits)

lemma linv_store_cong:
  assumes "linv vw X E w" "heap v = heap w" "counters v = counters w" "handles v = handles w"
    "\<And>q. lf_list q v = lf_list q w" "fout vw (fab v) = fout vw (fab w)"
  shows "linv vw X E v"
proof -
  have "lheld vw E v a x \<longleftrightarrow> lheld vw E w a x" for a x
    using assms(5,6) by (cases a) simp_all
  then have "lok vw X E v x" for x
    using lok_cong [of v x w X X vw E E] linvD(3) [OF assms(1)] assms(2) by simp
  moreover have "store_inv v"
    using store_inv_cong [of v w] assms(2-4) linvD(1) [OF assms(1)] by blast
  ultimately show ?thesis
    using linvD(2) [OF assms(1)] assms(5) by (simp add: linv_def)
qed

section \<open>How operations change it\<close>

lemma lok_loose: "is_waiting v p \<Longrightarrow> p \<in> X \<Longrightarrow> (\<And>a. \<not> lheld vw E v a p) \<Longrightarrow> lok vw X E v p"
  by (simp add: lok_def)

lemma lok_held: "is_waiting v p \<Longrightarrow> p \<notin> X \<Longrightarrow> (\<And>b. lheld vw E v b p \<longleftrightarrow> b = a) \<Longrightarrow> lok vw X E v p"
  by (auto simp: lok_def)

lemma linv_push:
  assumes inv: "linv vw (insert p X) E w" and p: "p \<notin> X"
  shows "linv vw X E (lf_push q p w)"
proof (rule linv_at [OF inv, where p = p])
  have wt: "is_waiting w p" and nh: "\<And>a. \<not> lheld vw E w a p"
    using loose_waiting [OF inv, of p] by simp_all
  show "store_inv (lf_push q p w)"
    using store_inv_cong [of "lf_push q p w" w] linvD(1) [OF inv] by simp
  show "distinct (lf_list q' (lf_push q p w))" for q'
    using linvD(2) [OF inv] nh [of "In_lf_queue q"] by simp
  have "lheld vw E (lf_push q p w) b p \<longleftrightarrow> b = In_lf_queue q" for b
    using nh [of b] by (cases b) auto
  then show "lok vw X E (lf_push q p w) p"
    using wt p by (intro lok_held [where a = "In_lf_queue q"]) (simp_all add: is_waiting_def)
  show "lheld vw E (lf_push q p w) a x \<longleftrightarrow> lheld vw E w a x" if "x \<noteq> p" for x a
    using that by (cases a) simp_all
qed simp_all

text \<open>A request is taken out of a queue.\<close>

lemma linv_take:
  assumes inv: "linv vw X E w" and p: "p \<in> set (lf_list q w)" and xs: "mset (lf_list q w) = add_mset p (mset xs)"
  shows "linv vw (insert p X) E (lf_set q xs w)" "p \<notin> X" "is_waiting w p"
proof -
  note h = held_waiting [OF inv, of "In_lf_queue q" p, unfolded lheld.simps, OF p]
  show "p \<notin> X" "is_waiting w p"
    using h by simp_all
  have "distinct (p # xs)"
    using linvD(2) [OF inv, of q] mset_eq_imp_distinct_iff [of "p # xs" "lf_list q w"] xs by simp
  then have d: "p \<notin> set xs" "distinct xs"
    by simp_all
  have st: "set (lf_list q w) = insert p (set xs)"
    using mset_eq_setD [of "p # xs" "lf_list q w"] xs by simp
  show "linv vw (insert p X) E (lf_set q xs w)"
  proof (rule linv_at [OF inv, where p = p])
    show "store_inv (lf_set q xs w)"
      using store_inv_cong [of "lf_set q xs w" w] linvD(1) [OF inv] by simp
    show "distinct (lf_list q' (lf_set q xs w))" for q'
      using linvD(2) [OF inv] d by simp
    have "\<not> lheld vw E (lf_set q xs w) a p" for a
    proof (cases a)
      case (In_lf_queue q')
      then show ?thesis
        using h(3) [of a] d by simp
    qed (use h(3) [of a] in simp_all)
    then show "lok vw (insert p X) E (lf_set q xs w) p"
      using h(1) by (intro lok_loose) (simp_all add: is_waiting_def)
    show "lheld vw E (lf_set q xs w) a x \<longleftrightarrow> lheld vw E w a x" if "x \<noteq> p" for x a
      using that st by (cases a) auto
  qed simp_all
qed

text \<open>A loose request completes or is cancelled.\<close>

lemma linv_finished:
  assumes inv: "linv vw (insert p X) E w" and p: "p \<notin> X" and v: "store_inv v" "lstatic v = lstatic w"
    "\<not> is_waiting v p" "\<not> pending v p" and h: "\<And>x. x \<noteq> p \<Longrightarrow> heap v x = heap w x"
  shows "linv vw X E v"
proof (rule linv_at [OF inv v(1), where p = p])
  have ll: "lf_list q v = lf_list q w" "fab v = fab w" for q
    using v(2) by (simp_all add: lstatic_def fun_eq_iff)
  have hd: "lheld vw E v a x \<longleftrightarrow> lheld vw E w a x" for a x
    using ll by (cases a) simp_all
  then show "lheld vw E v a x \<longleftrightarrow> lheld vw E w a x" if "x \<noteq> p" for a x
    by simp
  show "distinct (lf_list q v)" for q
    using ll linvD(2) [OF inv] by simp
  show "lok vw X E v p"
    using v(3,4) p hd loose_waiting(2) [OF inv, of p] by (simp add: lok_def)
qed (use h in simp_all)

text \<open>Completions are read: the requests are reported.\<close>

lemma linv_reported:
  assumes inv: "linv vw X {} w" and E: "\<And>x. x \<in> E \<Longrightarrow> fout vw (fab w) x"
    and f: "fout vw f = (\<lambda>x. fout vw (fab w) x \<and> x \<notin> E)"
  shows "linv vw X E (w\<lparr>fab := f\<rparr>)"
  unfolding linv_def
proof (intro conjI allI)
  show "store_inv (w\<lparr>fab := f\<rparr>)"
    using store_inv_cong [of "w\<lparr>fab := f\<rparr>" w] linvD(1) [OF inv] by simp
  show "distinct (lf_list q (w\<lparr>fab := f\<rparr>))" for q
    using linvD(2) [OF inv] by simp
  show "lok vw X E (w\<lparr>fab := f\<rparr>) x" for x
  proof (cases "x \<in> E")
    case True
    note h = held_waiting [OF inv, of At_fabric x, unfolded lheld.simps, OF E [OF True]]
    have "lheld vw E (w\<lparr>fab := f\<rparr>) b x \<longleftrightarrow> b = Reported" for b
      using h(3) [of b] True f by (cases b) simp_all
    then show ?thesis
      using h by (intro lok_held) (simp_all add: is_waiting_def)
  next
    case False
    then have "lheld vw E (w\<lparr>fab := f\<rparr>) a x \<longleftrightarrow> lheld vw {} w a x" for a
      using f by (cases a) simp_all
    then show ?thesis
      using lok_cong [of "w\<lparr>fab := f\<rparr>" x w X X vw E "{}"] linvD(3) [OF inv, of x] by simp
  qed
qed

lemma linv_handle:
  assumes inv: "linv vw X E w" and p: "p \<in> E"
  shows "linv vw (insert p X) (E - {p}) w" "p \<notin> X" "is_waiting w p"
proof -
  note h = held_waiting [OF inv, of Reported p, unfolded lheld.simps, OF p]
  show "p \<notin> X" "is_waiting w p"
    using h by simp_all
  show "linv vw (insert p X) (E - {p}) w"
  proof (rule linv_at [OF inv linvD(1,2) [OF inv], where p = p])
    have "\<not> lheld vw (E - {p}) w a p" for a
      using h(3) [of a] by (cases a) simp_all
    then show "lok vw (insert p X) (E - {p}) w p"
      using h(1) by (intro lok_loose) simp_all
    show "lheld vw (E - {p}) w a x \<longleftrightarrow> lheld vw E w a x" if "x \<noteq> p" for x a
      using that by (cases a) simp_all
  qed simp_all
qed

text \<open>The operation of a loose request is accepted.\<close>

lemma linv_accepted:
  assumes inv: "linv vw (insert p X) E w" and p: "p \<notin> X" and f: "fout vw f = (fout vw (fab w))(p := True)"
  shows "linv vw X E (w\<lparr>fab := f\<rparr>)"
proof (rule linv_at [OF inv, where p = p])
  have wt: "is_waiting w p" and nh: "\<And>a. \<not> lheld vw E w a p"
    using loose_waiting [OF inv, of p] by simp_all
  show "store_inv (w\<lparr>fab := f\<rparr>)"
    using store_inv_cong [of "w\<lparr>fab := f\<rparr>" w] linvD(1) [OF inv] by simp
  have "lheld vw E (w\<lparr>fab := f\<rparr>) b p \<longleftrightarrow> b = At_fabric" for b
    using nh [of b] f by (cases b) simp_all
  then show "lok vw X E (w\<lparr>fab := f\<rparr>) p"
    using wt p by (intro lok_held) (simp_all add: is_waiting_def)
  show "lheld vw E (w\<lparr>fab := f\<rparr>) a x \<longleftrightarrow> lheld vw E w a x" if "x \<noteq> p" for x a
    using that f by (cases a) simp_all
  show "distinct (lf_list q (w\<lparr>fab := f\<rparr>))" for q
    using linvD(2) [OF inv] by simp
qed simp_all

end
