(* ===== verification/Lf_Progress.thy ===== *)
theory Lf_Progress
  imports Lf_Invariant
begin

text \<open>
  Progress of the libfabric transport: handling of completions, polling of the completion queues and
  consumption of the callback queues.  They end and do not fail, and the callbacks they call are those
  of the requests that completed meanwhile, each called once.
\<close>

section \<open>Frames\<close>

text \<open>From \<open>w\<close> to \<open>v\<close> some waiting requests completed, and the callbacks of exactly these were called.\<close>

definition lframe ::
    "('c \<Rightarrow> rank_type \<Rightarrow> tag_type \<Rightarrow> api_state \<times> 'e \<Rightarrow> api_state \<times> 'e) \<Rightarrow> ('c, 'e, 'f) lf_world \<Rightarrow> ('c, 'e, 'f) lf_world \<Rightarrow> bool" where
  "lframe f w v \<longleftrightarrow>
     lsettings v = lsettings w \<and> handles v = handles w \<and>
     (\<forall>x. is_waiting v x \<or> \<not> is_waiting w x \<longrightarrow> heap v x = heap w x) \<and>
     (\<forall>x. is_waiting w x \<longrightarrow> is_waiting v x \<or> finished v x) \<and>
     (\<exists>ps. distinct ps \<and> set ps = {x. is_waiting w x \<and> \<not> is_waiting v x} \<and> lenv v = fold (lcall_of f w) ps (lenv w))"

lemma is_waiting_cong: "heap v x = heap w x \<Longrightarrow> is_waiting v x \<longleftrightarrow> is_waiting w x"
  by (simp add: is_waiting_def)

lemma lframe_same:
  assumes "lsettings v = lsettings w" "handles v = handles w" "heap v = heap w" "lenv v = lenv w"
  shows "lframe f w v"
proof -
  have "is_waiting v x \<longleftrightarrow> is_waiting w x" for x
    using assms(3) by (intro is_waiting_cong) simp
  then show ?thesis
    using assms by (auto simp: lframe_def intro: exI [of _ "[]"])
qed

lemma lframeD:
  assumes "lframe f w v"
  shows "lsettings v = lsettings w" "handles v = handles w" "is_waiting v x \<Longrightarrow> heap v x = heap w x"
    "\<not> is_waiting w x \<Longrightarrow> heap v x = heap w x" "is_waiting w x \<Longrightarrow> \<not> is_waiting v x \<Longrightarrow> finished v x"
    "is_waiting v x \<Longrightarrow> is_waiting w x"
proof -
  show h: "is_waiting v x \<Longrightarrow> heap v x = heap w x" and "\<not> is_waiting w x \<Longrightarrow> heap v x = heap w x"
    using assms unfolding lframe_def by blast+
  show "is_waiting v x \<Longrightarrow> is_waiting w x"
    using is_waiting_cong [OF h] by blast
qed (use assms in \<open>auto simp: lframe_def\<close>)

lemma lframe_finished:
  assumes "lframe f w v" "finished w x"
  shows "finished v x"
proof -
  have "heap v x = heap w x" "handles v x = handles w x"
    using lframeD(2,4) [OF assms(1)] finished_not_waiting [OF assms(2)] by auto
  then show ?thesis
    using assms(2) finished_cong [of v x w] by blast
qed

lemma lcall_of_cong: "heap v x = heap w x \<Longrightarrow> lcall_of f v x = lcall_of f w x"
  by (simp add: lcall_of_def state_of_def)

lemma lframe_trans:
  assumes a: "lframe f w v" and b: "lframe f v u"
  shows "lframe f w u"
  unfolding lframe_def
proof (intro conjI allI impI)
  show "heap u x = heap w x" if "is_waiting u x \<or> \<not> is_waiting w x" for x
    using that lframeD(3,4,6) [OF a, of x] lframeD(3,4,6) [OF b, of x] by metis
  show "is_waiting u x \<or> finished u x" if "is_waiting w x" for x
    using that lframeD(5) [OF a, of x] lframeD(5) [OF b, of x] lframe_finished [OF b, of x] by blast
  obtain ps where ps: "distinct ps" "set ps = {x. is_waiting w x \<and> \<not> is_waiting v x}"
      "lenv v = fold (lcall_of f w) ps (lenv w)"
    using a unfolding lframe_def by blast
  obtain qs where qs: "distinct qs" "set qs = {x. is_waiting v x \<and> \<not> is_waiting u x}"
      "lenv u = fold (lcall_of f v) qs (lenv v)"
    using b unfolding lframe_def by blast
  have "lcall_of f v x = lcall_of f w x" if "x \<in> set qs" for x
    using that qs(2) by (intro lcall_of_cong lframeD(3) [OF a]) simp
  then have "fold (lcall_of f v) qs (lenv v) = fold (lcall_of f w) qs (lenv v)"
    by (intro fold_cong) simp_all
  moreover have "set (ps @ qs) = {x. is_waiting w x \<and> \<not> is_waiting u x}"
    using ps(2) qs(2) lframeD(6) [OF a] lframeD(6) [OF b] by auto
  moreover have "distinct (ps @ qs)"
    using ps(1,2) qs(1,2) by auto
  ultimately show "\<exists>ps. distinct ps \<and> set ps = {x. is_waiting w x \<and> \<not> is_waiting u x} \<and> lenv u = fold (lcall_of f w) ps (lenv w)"
    using ps(3) qs(3) by (intro exI [of _ "ps @ qs"]) simp
qed (use lframeD(1,2) [OF a] lframeD(1,2) [OF b] in simp_all)

text \<open>Polling moreover only appends to the queues, and reads completions.\<close>

definition lpolled where
  "lpolled vw f w v \<longleftrightarrow>
     lframe f w v \<and> (\<forall>q. prefix (lf_list q w) (lf_list q v)) \<and> fwork vw (fab v) \<le> fwork vw (fab w)"

lemma lpolled_trans: "lpolled vw f w v \<Longrightarrow> lpolled vw f v u \<Longrightarrow> lpolled vw f w u"
  unfolding lpolled_def using lframe_trans prefix_order.trans order_trans by metis

section \<open>Completion of one request\<close>

lemma complete_framed:
  fixes w :: "('c, 'e, 'f) lf_world"
  assumes inv: "linv vw (insert p X) E w" and p: "p \<notin> X"
  shows "\<exists>v. complete_request (lf_extern f) p w = Inr v \<and> linv vw X E v \<and> lframe f w v \<and> lstatic v = lstatic w \<and> finished v p"
proof -
  have wt: "is_waiting w p"
    using loose_waiting(1) [OF inv, of p] by simp
  obtain v where v: "complete_request (lf_extern f) p w = Inr v" "store_inv v" "finished v p"
    "lenv v = lcall_of f w p (lenv w)" "lstatic v = lstatic w" "handles v = handles w"
    "\<And>x. x \<noteq> p \<Longrightarrow> heap v x = heap w x"
    by (rule lf_complete_ok [OF linvD(1) [OF inv] wt, of f]) (rule that)
  note n = finished_not_waiting [OF v(3)]
  have wv: "is_waiting v x \<longleftrightarrow> is_waiting w x" if "x \<noteq> p" for x
    using v(7) [OF that] by (rule is_waiting_cong)
  have "lframe f w v"
    unfolding lframe_def
  proof (intro conjI allI impI)
    show "lsettings v = lsettings w"
      using v(5) by (simp add: lstatic_def)
    show "heap v x = heap w x" if "is_waiting v x \<or> \<not> is_waiting w x" for x
      using that wt n v(7) [of x] by (cases "x = p") simp_all
    show "is_waiting v x \<or> finished v x" if "is_waiting w x" for x
      using that v(3) wv [of x] by (cases "x = p") simp_all
    have "{x. is_waiting w x \<and> \<not> is_waiting v x} = {p}"
      using wt n wv by auto
    then show "\<exists>ps. distinct ps \<and> set ps = {x. is_waiting w x \<and> \<not> is_waiting v x} \<and> lenv v = fold (lcall_of f w) ps (lenv w)"
      using v(4) by (intro exI [of _ "[p]"]) simp
  qed (rule v(6))
  moreover have "linv vw X E v"
    using n by (intro linv_finished [OF inv p v(2,5) _ _ v(7)]) simp_all
  ultimately show ?thesis
    using v(1,3,5) by blast
qed

lemma lf_add_depth_simps [simp]:
  "heap (lf_add_depth a g w) = heap w" "counters (lf_add_depth a g w) = counters w"
  "handles (lf_add_depth a g w) = handles w" "fab (lf_add_depth a g w) = fab w" "lenv (lf_add_depth a g w) = lenv w"
  by (simp_all add: lf_add_depth_def lenv_def split: option.splits)

lemma lsettings_guard:
  assumes "lsettings v = lsettings (lf_add_depth a (\<lambda>n. n + 1) w)"
  shows "lsettings (lf_add_depth a (\<lambda>n. n - 1) v) = lsettings w"
  using assms by (auto simp: lsettings_def lf_add_depth_def fun_eq_iff split: option.splits)

lemma lframe_cong:
  assumes "lframe f w' v'" "heap w' = heap w" "handles w' = handles w" "lenv w' = lenv w"
    "heap v' = heap v" "handles v' = handles v" "lenv v' = lenv v" "lsettings v = lsettings w"
  shows "lframe f w v"
proof -
  have "lcall_of f w' = lcall_of f w" "is_waiting w' = is_waiting w" "is_waiting v' = is_waiting v" "finished v' = finished v"
    using assms finished_cong [of v' _ v] by (simp_all add: fun_eq_iff lcall_of_def state_of_def is_waiting_def)
  then show ?thesis
    using assms by (simp add: lframe_def)
qed

lemma guarded_complete:
  fixes w :: "('c, 'e, 'f) lf_world"
  assumes inv: "linv vw (insert p X) E w" and p: "p \<notin> X"
  shows "\<exists>v. lf_guarded a (complete_request (lf_extern f) p) w = Inr v \<and> linv vw X E v \<and> lframe f w v \<and>
    (\<forall>q. lf_list q v = lf_list q w) \<and> fab v = fab w"
proof -
  let ?w = "lf_add_depth a (\<lambda>n. n + 1) w"
  have "linv vw (insert p X) E ?w"
    by (rule linv_store_cong [OF inv]) simp_all
  from complete_framed [OF this p, of f] obtain v where
    v: "complete_request (lf_extern f) p ?w = Inr v" "linv vw X E v" "lframe f ?w v" "lstatic v = lstatic ?w"
    by blast
  let ?v = "lf_add_depth a (\<lambda>n. n - 1) v"
  have "lf_guarded a (complete_request (lf_extern f) p) w = Inr ?v"
    using v(1) by (simp add: lf_guarded_def)
  moreover have "linv vw X E ?v"
    by (rule linv_store_cong [OF v(2)]) simp_all
  moreover have "lsettings ?v = lsettings w"
    by (rule lsettings_guard) (use v(4) in \<open>simp add: lstatic_def\<close>)
  then have "lframe f w ?v"
    by (intro lframe_cong [OF v(3)]) simp_all
  moreover have "lf_list q ?v = lf_list q w" "fab ?v = fab w" for q
    using v(4) by (simp_all add: lstatic_def fun_eq_iff)
  ultimately show ?thesis
    by blast
qed

section \<open>Completion handlers\<close>

definition handled where
  "handled vw f X E p w v \<longleftrightarrow> linv vw X (E - {p}) v \<and> lpolled vw f w v \<and> fab v = fab w"

lemma handled_push:
  assumes "linv vw X E w" "p \<in> E"
  shows "handled vw f X E p w (lf_push q p w)"
  using linv_push [OF linv_handle(1,2) [OF assms]]
  by (auto simp: handled_def lpolled_def intro: lframe_same)

lemma handled_complete:
  assumes "linv vw X E w" "p \<in> E"
  shows "\<exists>v. lf_guarded a (complete_request (lf_extern f) p) w = Inr v \<and> handled vw f X E p w v"
  using guarded_complete [OF linv_handle(1,2) [OF assms], of a f]
  by (auto simp: handled_def lpolled_def)

lemma waiting_load: "is_waiting w p \<Longrightarrow> load_state p w = Inr (state_of w p)"
  by (auto simp: is_waiting_heap load_state_def state_of_def)

lemma handle_completion:
  fixes w :: "('c, 'e, 'f) lf_world"
  assumes "linv vw X E w" "p \<in> E"
  shows "\<exists>v. handle_tagged_recv_completion (lf_extern f) user p w = Inr v \<and> handled vw f X E p w v"
    "\<exists>v. handle_tagged_send_completion (lf_extern f) user p w = Inr v \<and> handled vw f X E p w v"
    "\<exists>v. handle_cancelled p w = Inr v \<and> handled vw f X E p w v"
proof -
  have ld: "load_state p w = Inr (state_of w p)"
    by (rule waiting_load [OF linv_handle(3) [OF assms]])
  note h = handled_push [OF assms, of f] handled_complete [OF assms, of _ f]
  show "\<exists>v. handle_tagged_recv_completion (lf_extern f) user p w = Inr v \<and> handled vw f X E p w v"
    "\<exists>v. handle_tagged_send_completion (lf_extern f) user p w = Inr v \<and> handled vw f X E p w v"
    "\<exists>v. handle_cancelled p w = Inr v \<and> handled vw f X E p w v"
    using h ld
    by (simp_all add: handle_tagged_recv_completion_def handle_tagged_send_completion_def handle_cancelled_def)
qed

section \<open>Polling\<close>

text \<open>The two loops over the entries have the same shape.\<close>

lemma entries_ok:
  fixes w :: "('c, 'e, 'f) lf_world"
  assumes nil: "\<And>n w. loop [] n w = Inr (n, w)"
    and step: "\<And>e es n w. entry_flags_ok q e \<Longrightarrow> loop (e # es) n w = bind_res (h (ce_context e) w) (loop es (n + 1))"
    and h: "\<And>X E p w. linv vw X E w \<Longrightarrow> p \<in> E \<Longrightarrow> \<exists>v. h p w = Inr v \<and> handled vw f X E p w v"
    and inv: "linv vw X (ce_context ` set es) w" "distinct (map ce_context es)" "\<forall>e \<in> set es. entry_flags_ok q e"
  shows "\<exists>v. loop es n w = Inr (n + int (length es), v) \<and> linv vw X {} v \<and> lpolled vw f w v"
  using inv
proof (induction es arbitrary: n w)
  case Nil
  then show ?case
    using nil by (auto simp: lpolled_def intro: lframe_same)
next
  case (Cons e es)
  obtain v where v: "h (ce_context e) w = Inr v" "handled vw f X (ce_context ` set (e # es)) (ce_context e) w v"
    using h [OF Cons.prems(1), of "ce_context e"] by auto
  have E: "ce_context ` set (e # es) - {ce_context e} = ce_context ` set es"
    using Cons.prems(2) by auto
  have "linv vw X (ce_context ` set es) v" "lpolled vw f w v"
    using v(2) unfolding handled_def E by blast+
  with Cons.IH [of v "n + 1"] Cons.prems(2,3) obtain u where
    "loop es (n + 1) v = Inr (n + 1 + int (length es), u)" "linv vw X {} u" "lpolled vw f v u" "lpolled vw f w v"
    by auto
  then show ?case
    using v(1) Cons.prems(3) lpolled_trans [of vw f w v u] by (auto simp: step add_ac)
qed

lemma send_entries_ok:
  assumes "linv vw X (ce_context ` set es) w" "distinct (map ce_context es)" "\<forall>e \<in> set es. entry_flags_ok Tx_cq e"
  shows "\<exists>v. send_entries (lf_extern f) user es n w = Inr (n + int (length es), v) \<and> linv vw X {} v \<and> lpolled vw f w v"
  by (rule entries_ok [where q = Tx_cq and h = "handle_tagged_send_completion (lf_extern f) user"])
    (use assms in \<open>simp_all add: handle_completion entry_flags_ok_def\<close>)

lemma recv_entries_ok:
  assumes "linv vw X (ce_context ` set es) w" "distinct (map ce_context es)" "\<forall>e \<in> set es. entry_flags_ok Rx_cq e"
  shows "\<exists>v. recv_entries (lf_extern f) user es n w = Inr (n + int (length es), v) \<and> linv vw X {} v \<and> lpolled vw f w v"
  by (rule entries_ok [where q = Rx_cq and h = "handle_tagged_recv_completion (lf_extern f) user"])
    (use assms in \<open>simp_all add: handle_completion entry_flags_ok_def\<close>)

text \<open>The outcome of polling one queue: the number of entries, positive only if work was done.\<close>

definition polled_once where
  "polled_once vw f X w n v \<longleftrightarrow>
     linv vw X {} v \<and> lpolled vw f w v \<and> - 1 \<le> n \<and> nat n \<le> unat (max_completions_per_poll w) \<and>
     (0 < n \<longrightarrow> fwork vw (fab v) < fwork vw (fab w))"

lemma polled_fab:
  assumes "linv vw X {} w" "fout vw u = fout vw (fab w)" "fwork vw u \<le> fwork vw (fab w)"
  shows "polled_once vw f X w 0 (w\<lparr>fab := u\<rparr>)"
  using linv_store_cong [OF assms(1), of "w\<lparr>fab := u\<rparr>"] assms(2,3)
  by (auto simp: polled_once_def lpolled_def lsettings_def lenv_def intro: lframe_same)

lemma lframe_fab: "lframe f (w\<lparr>fab := u\<rparr>) v \<Longrightarrow> lframe f w v"
  by (rule lframe_cong [of f "w\<lparr>fab := u\<rparr>" v]) (auto simp: lframe_def lenv_def lsettings_def)

lemma polled_entries:
  assumes "cq_read_ok vw q (max_completions_per_poll w) (fab w) (Cq_entries es, u)"
    "linv vw X {} v" "lpolled vw f (w\<lparr>fab := u\<rparr>) v"
  shows "polled_once vw f X w (int (length es)) v"
proof -
  have "length es \<le> unat (max_completions_per_poll w)" "fwork vw u < fwork vw (fab w)"
    using assms(1) by (simp_all add: cq_read_ok_def)
  then show ?thesis
    using assms(2,3) lframe_fab [of f u w v] by (auto simp: polled_once_def lpolled_def)
qed

lemma cq_entries_inv:
  assumes "cq_read_ok vw q n (fab w) (Cq_entries es, u)" "linv vw X {} w"
  shows "linv vw X (ce_context ` set es) (w\<lparr>fab := u\<rparr>)" "distinct (map ce_context es)" "\<forall>e \<in> set es. entry_flags_ok q e"
  using assms(1) by (auto simp: cq_read_ok_def intro!: linv_reported [OF assms(2)])

lemma poll_send_queue_ok:
  fixes w :: "('c, 'e, 'f) lf_world"
  assumes inv: "linv vw X {} w" and ok: "fi_ok lib vw"
  shows "\<exists>n v. poll_send_queue lib (lf_extern f) user w = Inr (n, v) \<and> polled_once vw f X w n v"
proof (cases "tx_busy w")
  case True
  then show ?thesis
    using inv
    by (auto simp: poll_send_queue_def polled_once_def lpolled_def intro: lframe_same)
next
  case False
  obtain r u where l: "fi_cq_read lib Tx_cq (max_completions_per_poll w) (fab w) = (r, u)"
    by fastforce
  have c: "cq_read_ok vw Tx_cq (max_completions_per_poll w) (fab w) (r, u)"
    using ok l unfolding fi_ok_def by metis
  show ?thesis
  proof (cases r)
    case (Cq_entries es)
    note e = cq_entries_inv [OF c [unfolded Cq_entries] inv]
    show ?thesis
      using send_entries_ok [OF e, of f user 0] polled_entries [OF c [unfolded Cq_entries]] False l Cq_entries
      by (auto simp: poll_send_queue_def)
  qed (use c l False polled_fab [OF inv, of u f] in \<open>auto simp: poll_send_queue_def cq_read_ok_def\<close>)
qed

lemma poll_recv_queue_ok:
  fixes w :: "('c, 'e, 'f) lf_world"
  assumes inv: "linv vw X {} w" and ok: "fi_ok lib vw"
  shows "\<exists>n v. poll_recv_queue lib (lf_extern f) user w = Inr (n, v) \<and> polled_once vw f X w n v"
proof -
  obtain r u where l: "fi_cq_read lib Rx_cq (max_completions_per_poll w) (fab w) = (r, u)"
    by fastforce
  have c: "cq_read_ok vw Rx_cq (max_completions_per_poll w) (fab w) (r, u)"
    using ok l unfolding fi_ok_def by metis
  show ?thesis
  proof (cases r)
    case (Cq_entries es)
    note e = cq_entries_inv [OF c [unfolded Cq_entries] inv]
    show ?thesis
      using recv_entries_ok [OF e, of f user 0] polled_entries [OF c [unfolded Cq_entries]] l Cq_entries
      by (auto simp: poll_recv_queue_def)
  next
    case (Cq_err code ctxt)
    then obtain p where p: "code = FI_ECANCELED" "ctxt = Some p" "fout vw (fab w) p" "fout vw u = (fout vw (fab w))(p := False)"
        "fwork vw u \<le> fwork vw (fab w)"
      using c by (auto simp: cq_read_ok_def)
    have "linv vw X {p} (w\<lparr>fab := u\<rparr>)"
      using p by (intro linv_reported [OF inv]) (auto simp: fun_eq_iff)
    from handle_completion(3) [OF this, of p f] obtain v where
      "handle_cancelled p (w\<lparr>fab := u\<rparr>) = Inr v" "handled vw f X {p} p (w\<lparr>fab := u\<rparr>) v"
      by auto
    then show ?thesis
      using p Cq_err l lframe_fab [of f u w v] by (auto simp: poll_recv_queue_def polled_once_def handled_def lpolled_def)
  qed (use c l polled_fab [OF inv, of u f] in \<open>auto simp: poll_recv_queue_def cq_read_ok_def\<close>)
qed

section \<open>The polling loop\<close>

text \<open>The number of completions one poll asks for is positive and bounded by the array they are read into.\<close>

definition poll_size_ok :: "('c, 'e, 'f) lf_world \<Rightarrow> bool" where
  "poll_size_ok w \<longleftrightarrow> 0 < max_completions_per_poll w \<and> max_completions_per_poll w \<le> 256"

lemma poll_size_cong: "lsettings v = lsettings w \<Longrightarrow> poll_size_ok v \<longleftrightarrow> poll_size_ok w"
  by (simp add: poll_size_ok_def lsettings_def)

lemma retry_positive:
  assumes "poll_size_ok w" "word_of_int n = max_completions_per_poll w" "- 1 \<le> n" "nat n \<le> unat (max_completions_per_poll w)"
  shows "0 < n"
proof (rule ccontr)
  assume "\<not> 0 < n"
  then have "n = 0 \<or> n = -1"
    using assms(3) by linarith
  moreover have "max_completions_per_poll w \<noteq> 0" "max_completions_per_poll w \<noteq> -1"
    using assms(1) word_order.extremum_uniqueI [of "256 :: 32 word"] by (auto simp: poll_size_ok_def)
  ultimately show False
    using assms(2) by auto
qed

lemma poll_ok:
  fixes w :: "('c, 'e, 'f) lf_world"
  assumes "linv vw X {} w" "fi_ok lib vw" "poll_size_ok w"
  shows "\<exists>st' v. poll_for_work_completions lib (lf_extern f) user st w = Some (Inr (st', v)) \<and> linv vw X {} v \<and> lpolled vw f w v"
  using assms(1,3)
proof (induction "fwork vw (fab w)" arbitrary: w st rule: less_induct)
  case less
  obtain ns v1 where 1: "poll_send_queue lib (lf_extern f) user w = Inr (ns, v1)" "polled_once vw f X w ns v1"
    using poll_send_queue_ok [OF less.prems(1) assms(2)] by blast
  have i1: "linv vw X {} v1"
    using 1(2) by (simp add: polled_once_def)
  obtain nr v2 where 2: "poll_recv_queue lib (lf_extern f) user v1 = Inr (nr, v2)" "polled_once vw f X v1 nr v2"
    using poll_recv_queue_ok [OF i1 assms(2)] by blast
  have p: "lpolled vw f w v2" "linv vw X {} v2"
    using 1(2) 2(2) lpolled_trans by (auto simp: polled_once_def)
  have st: "lsettings v1 = lsettings w" "lsettings v2 = lsettings w"
    using 1(2) 2(2) by (auto simp: polled_once_def lpolled_def lframe_def)
  have mx: "max_completions_per_poll v2 = max_completions_per_poll w" "max_completions_per_poll v1 = max_completions_per_poll w"
    using st by (simp_all add: lsettings_def)
  show ?case
  proof (cases "word_of_int ns = max_completions_per_poll v2 \<or> word_of_int nr = max_completions_per_poll v2")
    case True
    then have "0 < ns \<or> 0 < nr"
      using retry_positive [OF less.prems(2)] 1(2) 2(2) mx by (auto simp: polled_once_def)
    then have "fwork vw (fab v2) < fwork vw (fab w)"
      using 1(2) 2(2) by (auto simp: polled_once_def lpolled_def)
    from less.hyps [OF this p(2)] poll_size_cong [OF st(2)] less.prems(2) show ?thesis
      using True 1(1) 2(1) p(1) lpolled_trans [of vw f w v2]
      by (subst poll_for_work_completions.simps) (fastforce simp: mx)
  next
    case False
    then show ?thesis
      using 1(1) 2(1) p by (subst poll_for_work_completions.simps) simp
  qed
qed

section \<open>Callback queues\<close>

text \<open>Consuming a queue completes every request in it.\<close>

lemma lf_consume_ok:
  fixes w :: "('c, 'e, 'f) lf_world"
  assumes "linv vw {} {} w"
  shows "\<exists>v. lf_consume (lf_extern f) q w = Some (Inr v) \<and> linv vw {} {} v \<and> lframe f w v \<and> fab v = fab w \<and>
    (\<forall>x. lf_list x v = (if x = q then [] else lf_list x w)) \<and> (\<forall>p \<in> set (lf_list q w). finished v p)"
  using assms
proof (induction "lf_list q w" arbitrary: w)
  case Nil
  then show ?case
    by (subst lf_consume.simps) (auto intro: lframe_same simp: Nil.hyps [symmetric])
next
  case (Cons p ps)
  let ?w = "lf_set q ps w"
  have q: "lf_list q w = p # ps"
    using Cons.hyps(2) by simp
  have t: "linv vw {p} {} ?w"
    using linv_take(1) [OF Cons.prems, of p q ps] q by simp
  obtain v where v: "complete_request (lf_extern f) p ?w = Inr v" "linv vw {} {} v" "lframe f ?w v" "lstatic v = lstatic ?w" "finished v p"
    using complete_framed [OF t, of f] by auto
  have ll: "lf_list x v = (if x = q then ps else lf_list x w)" "fab v = fab w" for x
    using v(4) by (simp_all add: lstatic_def fun_eq_iff)
  have fr: "lframe f w v"
    by (rule lframe_cong [OF v(3)]) (use lframeD(1) [OF v(3)] in simp_all)
  from Cons.hyps(1) [of v] ll v(2) obtain u where
    u: "lf_consume (lf_extern f) q v = Some (Inr u)" "linv vw {} {} u" "lframe f v u" "fab u = fab v"
      "\<forall>x. lf_list x u = (if x = q then [] else lf_list x v)" "\<forall>p \<in> set ps. finished u p"
    by auto
  have "finished u p"
    by (rule lframe_finished [OF u(3) v(5)])
  then show ?case
    using v(1) u ll q lframe_trans [OF fr u(3)] by (subst lf_consume.simps) simp
qed

lemma lf_bind_simps [simp]:
  "lf_bind None g = None" "lf_bind (Some (Inl e)) g = Some (Inl e)" "lf_bind (Some (Inr a)) g = g a"
  by (simp_all add: lf_bind_def)

lemma clear_callback_queues_ok:
  fixes w :: "('c, 'e, 'f) lf_world"
  assumes "linv vw {} {} w"
  shows "\<exists>v. clear_callback_queues (lf_extern f) c w = Some (Inr v) \<and> linv vw {} {} v \<and> lframe f w v \<and> fab v = fab w \<and>
    (\<forall>x. lf_list x v = (if x \<in> {L_send c, L_recv c, L_ctx} then [] else lf_list x w)) \<and>
    (\<forall>q \<in> {L_send c, L_recv c, L_ctx}. \<forall>p \<in> set (lf_list q w). finished v p)"
proof -
  obtain v1 where 1: "lf_consume (lf_extern f) (L_send c) w = Some (Inr v1)" "linv vw {} {} v1" "lframe f w v1" "fab v1 = fab w"
      "\<forall>x. lf_list x v1 = (if x = L_send c then [] else lf_list x w)" "\<forall>p \<in> set (lf_list (L_send c) w). finished v1 p"
    using lf_consume_ok [OF assms, of f "L_send c"] by blast
  obtain v2 where 2: "lf_consume (lf_extern f) (L_recv c) v1 = Some (Inr v2)" "linv vw {} {} v2" "lframe f v1 v2" "fab v2 = fab v1"
      "\<forall>x. lf_list x v2 = (if x = L_recv c then [] else lf_list x v1)" "\<forall>p \<in> set (lf_list (L_recv c) v1). finished v2 p"
    using lf_consume_ok [OF 1(2), of f "L_recv c"] by blast
  obtain v where 3: "lf_consume (lf_extern f) L_ctx v2 = Some (Inr v)" "linv vw {} {} v" "lframe f v2 v" "fab v = fab v2"
      "\<forall>x. lf_list x v = (if x = L_ctx then [] else lf_list x v2)" "\<forall>p \<in> set (lf_list L_ctx v2). finished v p"
    using lf_consume_ok [OF 2(2), of f L_ctx] by blast
  have "clear_callback_queues (lf_extern f) c w = Some (Inr v)"
    using 1(1) 2(1) 3(1) by (simp add: clear_callback_queues_def)
  moreover have "lframe f w v"
    by (rule lframe_trans [OF lframe_trans [OF 1(3) 2(3)] 3(3)])
  moreover have "finished v p" if "q \<in> {L_send c, L_recv c, L_ctx}" "p \<in> set (lf_list q w)" for q p
    using that 1(5,6) 2(5,6) 3(6) lframe_finished [OF 3(3)] lframe_finished [OF 2(3)]
    by (auto simp del: lf_list.simps)
  moreover have "lf_list x v = (if x \<in> {L_send c, L_recv c, L_ctx} then [] else lf_list x w)" for x
    using 1(5) 2(5) 3(5) by (simp del: lf_list.simps)
  ultimately show ?thesis
    using 3(2,4) 2(4) 1(4) by (intro exI [of _ v] conjI allI ballI) (simp_all only:)
qed

section \<open>Progress\<close>

lemma lf_comm_progress_ok:
  fixes w :: "('c, 'e, 'f) lf_world"
  assumes "linv vw {} {} w" "fi_ok lib vw" "poll_size_ok w"
  shows "\<exists>v. lf_comm_progress lib (lf_extern f) c w = Some (Inr v) \<and> linv vw {} {} v \<and> lframe f w v \<and>
    (\<forall>q \<in> {L_send c, L_recv c, L_ctx}. lf_list q v = [] \<and> (\<forall>p \<in> set (lf_list q w). finished v p))"
proof -
  obtain st v1 where 1: "poll_for_work_completions lib (lf_extern f) (Some c) (0, 0) w = Some (Inr (st, v1))"
      "linv vw {} {} v1" "lpolled vw f w v1"
    using poll_ok [OF assms] by blast
  obtain v where 2: "clear_callback_queues (lf_extern f) c v1 = Some (Inr v)" "linv vw {} {} v" "lframe f v1 v"
      "\<forall>x. lf_list x v = (if x \<in> {L_send c, L_recv c, L_ctx} then [] else lf_list x v1)"
      "\<forall>q \<in> {L_send c, L_recv c, L_ctx}. \<forall>p \<in> set (lf_list q v1). finished v p"
    using clear_callback_queues_ok [OF 1(2), of f c] by blast
  have "finished v p" if "q \<in> {L_send c, L_recv c, L_ctx}" "p \<in> set (lf_list q w)" for q p
    using that 2(5) 1(3) set_mono_prefix unfolding lpolled_def by blast
  moreover have "lframe f w v"
    using 1(3) 2(3) lframe_trans by (auto simp: lpolled_def)
  moreover have "lf_comm_progress lib (lf_extern f) c w = Some (Inr v)"
    using 1(1) 2(1) by (simp add: lf_comm_progress_def)
  moreover have "lf_list q v = []" if "q \<in> {L_send c, L_recv c, L_ctx}" for q
    using 2(4) that by (simp del: lf_list.simps)
  ultimately show ?thesis
    using 2(2) by blast
qed

lemma lf_ctx_progress_ok:
  fixes w :: "('c, 'e, 'f) lf_world"
  assumes "linv vw {} {} w" "fi_ok lib vw" "poll_size_ok w"
  shows "\<exists>v. lf_ctx_progress lib (lf_extern f) w = Some (Inr v) \<and> linv vw {} {} v \<and> lframe f w v"
  using poll_ok [OF assms, of f None "(0, 0)"] by (auto simp: lf_ctx_progress_def lpolled_def)

end
