(* ===== verification/Lf_Posting.thy ===== *)
theory Lf_Posting
  imports Lf_Progress
begin

text \<open>
  Posting and cancelling on the libfabric transport, destruction of request objects, and the runs of a
  process.
\<close>

section \<open>Calls that are repeated until accepted\<close>

lemma execute_returns:
  fixes w :: "('c, 'e, 'f) lf_world"
  assumes e: "execute_fi_function lib (lf_extern f) c F w = Some (Inr v)"
    and inv: "linv vw X {} w" "poll_size_ok w" and ok: "fi_ok lib vw"
    and F: "\<And>u. fst (F u) \<noteq> 0 \<Longrightarrow> fout vw (snd (F u)) = fout vw u"
  shows "\<exists>x u. linv vw X {} x \<and> lframe f w x \<and> F (fab x) = (0, u) \<and> v = x\<lparr>fab := u\<rparr>"
proof -
  define P where "P lib' cbk (c' :: nat) F' w r \<longleftrightarrow> (lib' = lib \<longrightarrow> cbk = lf_extern f \<longrightarrow> F' = F \<longrightarrow>
     linv vw X {} w \<longrightarrow> poll_size_ok w \<longrightarrow> (\<forall>v. r = Inr v \<longrightarrow>
     (\<exists>x u. linv vw X {} x \<and> lframe f w x \<and> F (fab x) = (0, u) \<and> v = x\<lparr>fab := u\<rparr>)))"
    for lib' :: "'f fi_lib" and cbk :: "('c, 'e, 'f) lf_callback" and c' F' and w :: "('c, 'e, 'f) lf_world" and r :: "('c, 'e, 'f) lf_world result"
  have "P lib (lf_extern f) c F w (Inr v)"
  proof (rule execute_fi_function.raw_induct [OF _ e])
    fix self lib' cbk c' F' w r
    assume IH: "\<And>lib cbk c F w y. self lib cbk c F w = Some y \<Longrightarrow> P lib cbk c F w y"
      and b: "(case F' (fab w) of (ret, g) \<Rightarrow>
        if ret = 0 then Some (Inr (w\<lparr>fab := g\<rparr>))
        else if ret = - FI_EAGAIN then
          (case poll_for_work_completions lib' cbk (Some c') (0, 0) (w\<lparr>fab := g\<rparr>) of
             None \<Rightarrow> None
           | Some r \<Rightarrow> (case r of Inl e \<Rightarrow> Some (Inl e) | Inr sv \<Rightarrow> self lib' cbk c' F' (snd sv)))
        else if ret = - FI_ENOENT then Some (Inl (Terminate ''No destination endpoint, terminating.''))
        else Some (Inl (Terminate ''fabric_error''))) = Some r"
    obtain ret g where l: "F' (fab w) = (ret, g)"
      by fastforce
    show "P lib' cbk c' F' w r"
      unfolding P_def
    proof (intro impI allI)
      fix v assume a: "lib' = lib" "cbk = lf_extern f" "F' = F" "linv vw X {} w" "poll_size_ok w" "r = Inr v"
      consider "ret = 0" | "ret = - FI_EAGAIN" "ret \<noteq> 0"
        using b l a(6) by (auto split: if_splits)
      then show "\<exists>x u. linv vw X {} x \<and> lframe f w x \<and> F (fab x) = (0, u) \<and> v = x\<lparr>fab := u\<rparr>"
      proof cases
        case 1
        then show ?thesis
          using a l b lframe_same [of w w f] by auto
      next
        case 2
        let ?w = "w\<lparr>fab := g\<rparr>"
        have "fout vw g = fout vw (fab w)"
          using F [of "fab w"] l a(3) 2 by simp
        then have i: "linv vw X {} ?w"
          by (intro linv_store_cong [OF a(4)]) simp_all
        have "poll_size_ok ?w"
          using a(5) by (simp add: poll_size_ok_def)
        from poll_ok [OF i ok this, of f "Some c'" "(0, 0)"] obtain st x where
          x: "poll_for_work_completions lib (lf_extern f) (Some c') (0, 0) ?w = Some (Inr (st, x))" "linv vw X {} x" "lpolled vw f ?w x"
          by blast
        have fr: "lframe f w x"
          using x(3) lframe_fab [of f g w x] by (simp add: lpolled_def)
        have "self lib (lf_extern f) c' F x = Some (Inr v)"
          using b l a 2 x(1) by simp
        from IH [OF this] have "\<exists>y u. linv vw X {} y \<and> lframe f x y \<and> F (fab y) = (0, u) \<and> v = y\<lparr>fab := u\<rparr>"
          using x(2) a(5) poll_size_cong [OF lframeD(1) [OF fr]] by (simp add: P_def)
        then show ?thesis
          using lframe_trans [OF fr] by blast
      qed
    qed
  qed
  then show ?thesis
    using inv by (simp add: P_def)
qed

section \<open>New requests\<close>

lemma posted_lists [simp]: "lf_list q (move_to_handle p (posted p s w)) = lf_list q w"
  by (rule lf_list_cong) (simp_all add: move_to_handle_def posted_def)

lemma make_request_ok:
  fixes w :: "('c, 'e, 'f) lf_world"
  assumes inv: "linv vw {} {} w" and p: "heap w p = None"
  shows "\<exists>v. lf_make_request c sched sh p rank tag cb w = Inr v \<and> linv vw {p} {} v \<and> lsettings v = lsettings w \<and> lenv v = lenv w"
proof -
  let ?s = "\<lparr>m_comm = c, m_scheduled = sched, m_rank = rank, m_tag = tag, m_cb = cb,
        m_ready = False, m_canceled = False, m_self_ptr = None, m_op_shared = sh\<rparr>"
  let ?v = "move_to_handle p (posted p ?s w)"
  have h: "heap ?v = (heap w)(p \<mapsto> \<lparr>m_ref_count = 2, m_t = ?s\<lparr>m_self_ptr := Some p\<rparr>\<rparr>)"
    by (simp add: move_to_handle_def posted_def)
  have np: "\<not> lheld vw {} w a p" for a
    using held_waiting(1) [OF inv, of a p] p by (auto simp: is_waiting_def)
  have hd: "lheld vw {} ?v a x \<longleftrightarrow> lheld vw {} w a x" for a x
    by (cases a) (simp_all add: move_to_handle_def posted_def)
  have "linv vw {p} {} ?v"
  proof (rule linv_at [OF inv store_inv_posted [OF linvD(1) [OF inv] p], where p = p])
    show "distinct (lf_list q ?v)" for q
      using linvD(2) [OF inv] by simp
    show "lok vw {p} {} ?v p"
      using np hd h by (intro lok_loose) (simp_all add: is_waiting_def waiting_def)
  qed (use h hd in simp_all)
  moreover have "lf_make_request c sched sh p rank tag cb w = Inr ?v"
    by (simp add: lf_make_request_def post_request_eq)
  moreover have "lsettings ?v = lsettings w" "lenv ?v = lenv w"
    by (simp_all add: move_to_handle_def posted_def lsettings_def lenv_def)
  ultimately show ?thesis
    by blast
qed

text \<open>A request is made and its operation posted.\<close>

lemma post_operation_ok:
  fixes w :: "('c, 'e, 'f) lf_world"
  assumes inv: "linv vw {} {} w" "poll_size_ok w" and ok: "fi_ok lib vw" and p: "heap w p = None"
    and F: "\<And>u. post_ok vw p u (F u)"
    and r: "lf_bind (Some (lf_make_request c sched sh p rank tag cb w)) (execute_fi_function lib (lf_extern f) c F) = Some (Inr v)"
  shows "linv vw {} {} v \<and> lsettings v = lsettings w"
proof -
  obtain x where x: "lf_make_request c sched sh p rank tag cb w = Inr x" "linv vw {p} {} x" "lsettings x = lsettings w"
    using make_request_ok [OF inv(1) p] by blast
  have "poll_size_ok x"
    using inv(2) poll_size_cong [OF x(3)] by simp
  moreover have "execute_fi_function lib (lf_extern f) c F x = Some (Inr v)"
    using r x(1) by simp
  moreover have "fout vw (snd (F u)) = fout vw u" if "fst (F u) \<noteq> 0" for u
    using F [of u] that by (simp add: post_ok_def)
  ultimately obtain y u where y: "linv vw {p} {} y" "lframe f x y" "F (fab y) = (0, u)" "v = y\<lparr>fab := u\<rparr>"
    using execute_returns [OF _ x(2) _ ok] by blast
  have "fout vw u = (fout vw (fab y))(p := True)"
    using F [of "fab y"] y(3) by (simp add: post_ok_def)
  then have "linv vw {} {} v"
    unfolding y(4) by (rule linv_accepted [OF y(1), rotated]) simp
  moreover have "lsettings v = lsettings w"
    using lframeD(1) [OF y(2)] x(3) y(4) by (simp add: lsettings_def)
  ultimately show ?thesis
    by blast
qed

lemma lf_bind_SomeInr: "lf_bind r g = Some (Inr b) \<longleftrightarrow> (\<exists>a. r = Some (Inr a) \<and> g a = Some (Inr b))"
  by (auto simp: lf_bind_def split: option.splits sum.splits)

lemma lf_recv_ok:
  fixes w :: "('c, 'e, 'f) lf_world"
  assumes "linv vw {} {} w" "poll_size_ok w" "fi_ok lib vw" "heap w p = None"
    "lf_recv lib (lf_extern f) c p buf sz src tag cb w = Some (Inr (h, v))"
  shows "linv vw {} {} v \<and> lsettings v = lsettings w"
proof (rule post_operation_ok [OF assms(1-4)])
  let ?F = "fi_trecv lib buf sz (scast src) (make_tag64 tag (m_ctxt_tag w)) 0 p"
  show "post_ok vw p u (?F u)" for u
    using assms(3) by (simp add: fi_ok_def)
  show "lf_bind (Some (lf_make_request c (Scheduled_recvs c) False p src tag cb w)) (execute_fi_function lib (lf_extern f) c ?F) = Some (Inr v)"
    using assms(5) by (auto simp: lf_recv_def region_defs Let_def lf_bind_SomeInr)
qed

lemma lf_shared_recv_ok:
  fixes w :: "('c, 'e, 'f) lf_world"
  assumes "linv vw {} {} w" "poll_size_ok w" "fi_ok lib vw" "heap w p = None"
    "lf_shared_recv lib (lf_extern f) c p buf sz src tag cb w = Some (Inr (h, v))"
  shows "linv vw {} {} v \<and> lsettings v = lsettings w"
proof -
  let ?F = "fi_trecv lib buf sz (scast src) (make_tag64 tag (m_ctxt_tag w)) 0 p"
  obtain x n where x: "lf_bind (Some (lf_make_request c Shared_scheduled_recvs True p src tag cb w))
        (execute_fi_function lib (lf_extern f) c ?F) = Some (Inr x)"
      "poll_recv_queue lib (lf_extern f) (Some c) x = Inr (n, v)"
    using assms(5) by (auto simp: lf_shared_recv_def region_defs Let_def lf_bind_SomeInr)
  have "post_ok vw p u (?F u)" for u
    using assms(3) by (simp add: fi_ok_def)
  then have i: "linv vw {} {} x" "lsettings x = lsettings w"
    using post_operation_ok [OF assms(1-4) _ x(1)] by blast+
  obtain m u where "poll_recv_queue lib (lf_extern f) (Some c) x = Inr (m, u)" "polled_once vw f {} x m u"
    using poll_recv_queue_ok [OF i(1) assms(3)] by blast
  then show ?thesis
    using x(2) i(2) by (auto simp: polled_once_def lpolled_def lframe_def)
qed

lemma guarded_callback:
  assumes inv: "linv vw X E w" and r: "lf_guarded a (\<lambda>w. Inr (lf_extern f cb dst tag w)) w = Inr v"
  shows "linv vw X E v \<and> lsettings v = lsettings w"
proof -
  let ?u = "lf_extern f cb dst tag (lf_add_depth a (\<lambda>n. n + 1) w)"
  have v: "v = lf_add_depth a (\<lambda>n. n - 1) ?u"
    using r by (simp add: lf_guarded_def)
  have "heap ?u = heap w" "counters ?u = counters w" "handles ?u = handles w" "fab ?u = fab w" "\<And>q. lf_list q ?u = lf_list q w"
    "lsettings ?u = lsettings (lf_add_depth a (\<lambda>n. n + 1) w)"
    by (simp_all add: lf_extern_def lsettings_def split: prod.splits)
  then show ?thesis
    using lsettings_guard unfolding v by (intro conjI linv_store_cong [OF inv]) simp_all
qed

lemma lf_send_ok:
  fixes w :: "('c, 'e, 'f) lf_world"
  assumes inv: "linv vw {} {} w" "poll_size_ok w" and ok: "fi_ok lib vw"
    and s: "lf_send lib (lf_extern f) c p buf sz dst tag cb w = Some (Inr (h, v))"
    and p: "heap w p = None"
  shows "linv vw {} {} v \<and> lsettings v = lsettings w"
proof (cases "sz \<le> tx_inject_size w")
  case False
  let ?F = "fi_tsend lib buf sz (scast dst) (make_tag64 tag (m_ctxt_tag w)) p"
  show ?thesis
  proof (rule post_operation_ok [OF inv ok p])
    show "post_ok vw p u (?F u)" for u
      using ok by (simp add: fi_ok_def)
    show "lf_bind (Some (lf_make_request c (Scheduled_sends c) False p dst tag cb w)) (execute_fi_function lib (lf_extern f) c ?F) = Some (Inr v)"
      using s False by (auto simp: lf_send_def region_defs Let_def lf_bind_SomeInr)
  qed
next
  case True
  let ?F = "fi_tinject lib buf sz (scast dst) (make_tag64 tag (m_ctxt_tag w))"
  from s True obtain x where x: "execute_fi_function lib (lf_extern f) c ?F w = Some (Inr x)"
    by (auto simp: lf_send_def region_defs Let_def lf_bind_SomeInr)
  have inj: "fout vw (snd (?F u)) = fout vw u" for u
    using ok by (simp add: fi_ok_def)
  obtain y u where y: "linv vw {} {} y" "lframe f w y" "?F (fab y) = (0, u)" "x = y\<lparr>fab := u\<rparr>"
    using execute_returns [OF x inv ok inj] by blast
  have "fout vw u = fout vw (fab y)"
    using inj [of "fab y"] y(3) by simp
  then have ix: "linv vw {} {} x" "lsettings x = lsettings w"
    using linv_store_cong [OF y(1), of x] lframeD(1) [OF y(2)] by (simp_all add: y(4) lsettings_def)
  have px: "heap x p = None"
    using lframeD(4) [OF y(2), of p] p y(4) by (simp add: is_waiting_def)
  show ?thesis
  proof (cases "has_reached_recursion_depth (lf_depth_of (Some c) x)")
    case False
    then have "lf_guarded (Some c) (\<lambda>w. Inr (lf_extern f cb dst tag w)) x = Inr v"
      using s True x by (auto simp: lf_send_def region_defs Let_def bind_res_eq_Inr)
    then show ?thesis
      using guarded_callback [OF ix(1)] ix(2) by auto
  next
    case rd: True
    obtain z where z: "lf_make_request c (Scheduled_sends c) False p dst tag cb x = Inr z" "linv vw {p} {} z" "lsettings z = lsettings x"
      using make_request_ok [OF ix(1) px] by blast
    have "v = lf_push (L_send c) p z"
      using s True x rd z(1) by (simp add: lf_send_def region_defs Let_def)
    then show ?thesis
      using linv_push [of vw p "{}" "{}" z] z(2,3) ix(2) by simp
  qed
qed

end
