(* ===== verification/Lf_Runs.thy ===== *)
theory Lf_Runs
  imports Lf_Posting
begin

text \<open>
  Cancellation on the libfabric transport, destruction of request objects, and the runs of a process.
\<close>

section \<open>Cancellation\<close>

lemma cancel_pops_mset:
  assumes "cancel_pops p q stack = (found, xs)"
  shows "found \<longleftrightarrow> p \<in> set q" "mset q + mset stack = (if found then add_mset p (mset xs) else mset xs)"
  using assms by (induction p q stack rule: cancel_pops.induct) (auto split: if_splits)

lemma linv_perm:
  assumes inv: "linv vw X E w" and xs: "mset xs = mset (lf_list q w)"
  shows "linv vw X E (lf_set q xs w)"
proof -
  have "lheld vw E (lf_set q xs w) a x \<longleftrightarrow> lheld vw E w a x" for a x
    using mset_eq_setD [OF xs] by (cases a) auto
  then have "lok vw X E (lf_set q xs w) x" for x
    using lok_cong [of "lf_set q xs w" x w X X vw E E] linvD(3) [OF inv, of x] by simp
  moreover have "store_inv (lf_set q xs w)"
    using store_inv_cong [of "lf_set q xs w" w] linvD(1) [OF inv] by simp
  moreover have "distinct (lf_list q' (lf_set q xs w))" for q'
    using linvD(2) [OF inv] mset_eq_imp_distinct_iff [OF xs] by simp
  ultimately show ?thesis
    by (simp add: linv_def)
qed

lemma cancel_found:
  fixes w :: "('c, 'e, 'f) lf_world"
  assumes inv: "linv vw {} {} w" and c: "cancel_pops p (lf_list q w) [] = (True, xs)"
  shows "\<exists>v. cancel_request p (lf_set q xs w) = Inr v \<and> linv vw {} {} v \<and> lsettings v = lsettings w \<and> canceled v p \<and>
    handles v = handles w \<and> lenv v = lenv w"
proof -
  note m = cancel_pops_mset [OF c]
  have t: "linv vw {p} {} (lf_set q xs w)"
    by (rule linv_take(1) [OF inv]) (use m in simp_all)
  note lw = loose_waiting(1) [OF t, of p, simplified]
  obtain v where v: "cancel_request p (lf_set q xs w) = Inr v" "store_inv v" "canceled v p"
    "off_store v = off_store (lf_set q xs w)" "handles v = handles (lf_set q xs w)"
    "\<And>x. x \<noteq> p \<Longrightarrow> heap v x = heap (lf_set q xs w) x" "\<not> pending v p" "\<not> is_waiting v p"
    by (rule cancel_request_ok [OF linvD(1) [OF t] lw]) (rule that)
  have st: "lstatic v = lstatic (lf_set q xs w)" "lenv v = lenv (lf_set q xs w)"
    using v(4) lstatic_off_store by metis+
  have "linv vw {} {} v"
    by (rule linv_finished [OF t _ v(2) st(1) v(8,7,6)]) simp_all
  then show ?thesis
    using v(1,3,5) st by (simp add: lstatic_def)
qed

lemma cancel_loop_returns:
  fixes w :: "('c, 'e, 'f) lf_world"
  assumes e: "lf_cancel_loop lib (lf_extern f) user q p w = Some r" and inv: "linv vw {} {} w" and ok: "fi_ok lib vw"
  shows "\<exists>v. r = Inr v \<and> linv vw {} {} v \<and> lsettings v = lsettings w \<and> canceled v p"
proof -
  define P where "P lib' cbk (user' :: nat option) (q' :: lf_queue) (p' :: ptr) w r \<longleftrightarrow>
     (lib' = lib \<longrightarrow> cbk = lf_extern f \<longrightarrow> linv vw {} {} w \<longrightarrow>
     (\<exists>v. r = Inr v \<and> linv vw {} {} v \<and> lsettings v = lsettings w \<and> canceled v p'))"
    for lib' :: "'f fi_lib" and cbk :: "('c, 'e, 'f) lf_callback" and user' q' p'
      and w :: "('c, 'e, 'f) lf_world" and r :: "('c, 'e, 'f) lf_world result"
  have "P lib (lf_extern f) user q p w r"
  proof (rule lf_cancel_loop.raw_induct [OF _ e])
    fix self lib' cbk user q p w r
    assume IH: "\<And>lib cbk user q p w y. self lib cbk user q p w = Some y \<Longrightarrow> P lib cbk user q p w y"
      and b: "(case poll_recv_queue lib' cbk user w of
        Inl e \<Rightarrow> Some (Inl e)
      | Inr nw \<Rightarrow>
          (case cancel_pops p (lf_list q (snd nw)) [] of (found, xs) \<Rightarrow>
             if found then Some (cancel_request p (lf_set q xs (snd nw)))
             else self lib' cbk user q p (lf_set q xs (snd nw)))) = Some r"
    show "P lib' cbk user q p w r"
      unfolding P_def
    proof (intro impI)
      assume a: "lib' = lib" "cbk = lf_extern f" "linv vw {} {} w"
      obtain n x where x: "poll_recv_queue lib (lf_extern f) user w = Inr (n, x)" "polled_once vw f {} w n x"
        using poll_recv_queue_ok [OF a(3) ok] by blast
      have ix: "linv vw {} {} x" "lsettings x = lsettings w"
        using x(2) by (auto simp: polled_once_def lpolled_def lframe_def)
      obtain found xs where c: "cancel_pops p (lf_list q x) [] = (found, xs)"
        by fastforce
      show "\<exists>v. r = Inr v \<and> linv vw {} {} v \<and> lsettings v = lsettings w \<and> canceled v p"
      proof (cases found)
        case True
        then have "r = cancel_request p (lf_set q xs x)"
          using b a x(1) c by simp
        then show ?thesis
          using cancel_found [OF ix(1), of p q xs] c True ix(2) by auto
      next
        case False
        then have "self lib (lf_extern f) user q p (lf_set q xs x) = Some r"
          using b a x(1) c by simp
        moreover have "linv vw {} {} (lf_set q xs x)"
          using cancel_pops_mset(2) [OF c] False by (intro linv_perm [OF ix(1)]) simp
        ultimately show ?thesis
          using IH ix(2) unfolding P_def by fastforce
      qed
    qed
  qed
  then show ?thesis
    using inv by (simp add: P_def)
qed

lemma fi_cancel_inv:
  assumes "linv vw {} {} w" "fi_ok lib vw" "fi_cancel lib p (fab w) = (ret, u)"
  shows "linv vw {} {} (w\<lparr>fab := u\<rparr>)"
proof -
  have "fout vw (snd (fi_cancel lib p (fab w))) = fout vw (fab w)"
    using assms(2) by (simp add: fi_ok_def)
  then show ?thesis
    using assms(3) by (intro linv_store_cong [OF assms(1)]) simp_all
qed

lemma lf_cancel_recv_ok:
  fixes w :: "('c, 'e, 'f) lf_world"
  assumes "linv vw {} {} w" "fi_ok lib vw"
  shows "lf_cancel_recv lib (lf_extern f) c p w = Some r \<Longrightarrow>
      \<exists>b v. r = Inr (b, v) \<and> linv vw {} {} v \<and> lsettings v = lsettings w \<and> (b \<longrightarrow> canceled v p)"
    "lf_ctx_cancel_recv lib (lf_extern f) p w = Some r \<Longrightarrow>
      \<exists>b v. r = Inr (b, v) \<and> linv vw {} {} v \<and> lsettings v = lsettings w \<and> (b \<longrightarrow> canceled v p)"
proof -
  obtain ret u where l: "fi_cancel lib p (fab w) = (ret, u)"
    by fastforce
  note i = fi_cancel_inv [OF assms l]
  note k = cancel_loop_returns [OF _ i assms(2)]
  have s: "lsettings (w\<lparr>fab := u\<rparr>) = lsettings w"
    by (simp add: lsettings_def)
  show "lf_cancel_recv lib (lf_extern f) c p w = Some r \<Longrightarrow>
      \<exists>b v. r = Inr (b, v) \<and> linv vw {} {} v \<and> lsettings v = lsettings w \<and> (b \<longrightarrow> canceled v p)"
    using l i k [of f "Some c" "L_cancel c" p] s
    by (fastforce simp: lf_cancel_recv_def lf_bind_def split: if_splits option.splits sum.splits)
  show "lf_ctx_cancel_recv lib (lf_extern f) p w = Some r \<Longrightarrow>
      \<exists>b v. r = Inr (b, v) \<and> linv vw {} {} v \<and> lsettings v = lsettings w \<and> (b \<longrightarrow> canceled v p)"
    using l i k [of f None "L_ctx_cancel" p] s
    by (fastforce simp: lf_ctx_cancel_recv_def lf_bind_def split: if_splits option.splits sum.splits)
qed

section \<open>Request objects\<close>

lemma lf_drop_handle_ok:
  fixes w :: "('c, 'e, 'f) lf_world"
  assumes inv: "linv vw {} {} w" and h: "0 < handles w p"
  shows "\<exists>v. drop_handle p w = Inr v \<and> linv vw {} {} v \<and> lsettings v = lsettings w"
proof -
  obtain v where v: "drop_handle p w = Inr v" "store_inv v" "off_store v = off_store w" "\<And>x. pending v x = pending w x"
    "\<And>x. is_waiting v x = is_waiting w x"
    by (rule drop_handle_waiting [OF linvD(1) [OF inv] h]) (rule that)
  have st: "lstatic v = lstatic w"
    using v(3) lstatic_off_store by metis
  then have ll: "lf_list q v = lf_list q w" "fab v = fab w" "lsettings v = lsettings w" for q
    by (simp_all add: lstatic_def fun_eq_iff)
  have hd: "lheld vw {} v a x \<longleftrightarrow> lheld vw {} w a x" for a x
    using ll by (cases a) simp_all
  have "linv vw {} {} v"
    using inv v(2) ll(1) unfolding linv_def lok_def hd v(4,5) by simp
  then show ?thesis
    using v(1) ll(3) by blast
qed

section \<open>Runs\<close>

text \<open>The calls of a user.  \<open>p\<close> is the address the allocator returns for a new request state.\<close>

inductive lf_step ::
    "'f fi_lib \<Rightarrow> ('c \<Rightarrow> rank_type \<Rightarrow> tag_type \<Rightarrow> api_state \<times> 'e \<Rightarrow> api_state \<times> 'e) \<Rightarrow>
     ('c, 'e, 'f) lf_world \<Rightarrow> ('c, 'e, 'f) lf_world \<Rightarrow> bool"
  for lib f where
  l_send: "heap w p = None \<Longrightarrow> lf_send lib (lf_extern f) c p buf sz dst tag cb w = Some (Inr (h, v)) \<Longrightarrow> lf_step lib f w v"
| l_recv: "heap w p = None \<Longrightarrow> lf_recv lib (lf_extern f) c p buf sz src tag cb w = Some (Inr (h, v)) \<Longrightarrow> lf_step lib f w v"
| l_shared_recv: "heap w p = None \<Longrightarrow> lf_shared_recv lib (lf_extern f) c p buf sz src tag cb w = Some (Inr (h, v)) \<Longrightarrow> lf_step lib f w v"
| l_progress: "lf_comm_progress lib (lf_extern f) c w = Some (Inr v) \<Longrightarrow> lf_step lib f w v"
| l_ctx_progress: "lf_ctx_progress lib (lf_extern f) w = Some (Inr v) \<Longrightarrow> lf_step lib f w v"
| l_cancel: "lf_cancel_recv lib (lf_extern f) c p w = Some (Inr (b, v)) \<Longrightarrow> lf_step lib f w v"
| l_ctx_cancel: "lf_ctx_cancel_recv lib (lf_extern f) p w = Some (Inr (b, v)) \<Longrightarrow> lf_step lib f w v"
| l_drop: "0 < handles w p \<Longrightarrow> drop_handle p w = Inr v \<Longrightarrow> lf_step lib f w v"

definition lf_init :: "64 word \<Rightarrow> size_t \<Rightarrow> 32 word \<Rightarrow> bool \<Rightarrow> api_state \<Rightarrow> 'e \<Rightarrow> 'f \<Rightarrow> ('c, 'e, 'f) lf_world" where
  "lf_init ct ij mx busy a e u =
     \<lparr>heap = (\<lambda>_. None), counters = (\<lambda>_. 0), handles = (\<lambda>_. 0), api = a,
      m_send_cb_queue = (\<lambda>_. []), m_recv_cb_queue = (\<lambda>_. []), m_recv_cb_cancel = (\<lambda>_. []), ctx_recv_cb_queue = [],
      ctx_recv_cb_cancel = [], lf_depth = (\<lambda>_. 0), lf_ctx_depth = 0, m_ctxt_tag = ct, tx_inject_size = ij,
      max_completions_per_poll = mx, tx_busy = busy, lf_app = e, fab = u\<rparr>"

lemma lf_kept:
  assumes "lf_step lib f w v" "linv vw {} {} w" "poll_size_ok w" "fi_ok lib vw"
  shows "linv vw {} {} v \<and> lsettings v = lsettings w"
  using assms(1)
proof cases
  case (l_send p c buf sz dst tag cb h)
  then show ?thesis
    using lf_send_ok [OF assms(2-4) l_send(2,1)] by simp
next
  case (l_recv p c buf sz src tag cb h)
  then show ?thesis
    using lf_recv_ok [OF assms(2-4) l_recv] by simp
next
  case (l_shared_recv p c buf sz src tag cb h)
  then show ?thesis
    using lf_shared_recv_ok [OF assms(2-4) l_shared_recv] by simp
next
  case (l_progress c)
  then show ?thesis
    using lf_comm_progress_ok [OF assms(2,4,3), of f c] by (auto simp: lframe_def)
next
  case l_ctx_progress
  then show ?thesis
    using lf_ctx_progress_ok [OF assms(2,4,3), of f] by (auto simp: lframe_def)
next
  case (l_cancel c p b)
  then show ?thesis
    using lf_cancel_recv_ok(1) [OF assms(2,4)] by blast
next
  case (l_ctx_cancel p b)
  then show ?thesis
    using lf_cancel_recv_ok(2) [OF assms(2,4)] by blast
next
  case (l_drop p)
  then show ?thesis
    using lf_drop_handle_ok [OF assms(2) l_drop(1)] by auto
qed

lemma lf_init_inv:
  assumes "fout vw u = (\<lambda>_. False)"
  shows "linv vw {} {} (lf_init ct ij mx busy a e u :: ('c, 'e, 'f) lf_world)"
proof -
  let ?w = "lf_init ct ij mx busy a e u :: ('c, 'e, 'f) lf_world"
  have ll: "lf_list q ?w = []" for q
    by (cases q) (simp_all add: lf_init_def)
  have hd: "\<not> lheld vw {} ?w x p" for x p
    using ll assms by (cases x) (simp_all, simp add: lf_init_def)
  have "\<not> is_waiting ?w p" "\<not> pending ?w p" for p
    by (simp_all add: lf_init_def is_waiting_def pending_def)
  then have "lok vw {} {} ?w p" for p
    using hd by (simp add: lok_def)
  moreover have "store_inv ?w"
    by (simp add: lf_init_def store_inv_def owned_def request_refs_def pending_def pending_on_def)
  ultimately show ?thesis
    by (simp add: linv_def ll)
qed

lemma lf_runs:
  fixes w :: "('c, 'e, 'f) lf_world"
  assumes "(lf_step lib f)\<^sup>*\<^sup>* (lf_init ct ij mx busy a e u) w" "fi_ok lib vw" "fout vw u = (\<lambda>_. False)" "0 < mx" "mx \<le> 256"
  shows "linv vw {} {} w \<and> lsettings w = lsettings (lf_init ct ij mx busy a e u :: ('c, 'e, 'f) lf_world) \<and> poll_size_ok w"
  using assms(1)
proof (induction rule: rtranclp_induct)
  case base
  show ?case
    using lf_init_inv [OF assms(3)] assms(4,5) by (simp add: poll_size_ok_def lf_init_def)
next
  case (step v w)
  then show ?case
    using lf_kept [OF step.hyps(2) _ _ assms(2)] poll_size_cong by auto
qed

section \<open>Receives that complete instead\<close>

text \<open>Handling of a receive leaves the queues of cancelled requests alone.\<close>

lemma complete_lists:
  assumes "complete_request (lf_extern f) p w = Inr v"
  shows "lf_list q v = lf_list q w"
  using assms
  by (auto simp: complete_request_def release_self_ref_def invoke_cb_def drop_ref_def load_state_def store_state_def
      decr_counter_def bind_res_eq_Inr lf_extern_def Let_def split: if_splits option.splits prod.splits)

lemma guarded_lists:
  "lf_guarded a (complete_request (lf_extern f) p) w = Inr v \<Longrightarrow> lf_list q v = lf_list q w"
  by (auto simp: lf_guarded_def bind_res_eq_Inr dest: complete_lists)

lemma recv_entries_cancel_queues:
  assumes "recv_entries (lf_extern f) user es n w = Inr (m, v)"
  shows "lf_list (L_cancel c) v = lf_list (L_cancel c) w"
  using assms
proof (induction es arbitrary: n w)
  case (Cons e es)
  then obtain x where x: "handle_tagged_recv_completion (lf_extern f) user (ce_context e) w = Inr x"
      "recv_entries (lf_extern f) user es (n + 1) x = Inr (m, v)"
    by (auto simp: bind_res_eq_Inr split: if_splits)
  have "lf_list (L_cancel c) x = lf_list (L_cancel c) w"
    using x(1) by (auto simp: handle_tagged_recv_completion_def bind_res_eq_Inr simp del: lf_list.simps
        dest: guarded_lists split: if_splits)
  then show ?case
    using Cons.IH [OF x(2)] by simp
qed simp

end
