(* ===== verification/Lf_Properties.thy ===== *)
theory Lf_Properties
  imports Lf_Runs
begin

text \<open>
  The properties of the libfabric transport, and a small provider on which they are evaluated: it
  completes operations in the order they were posted, one at each read, and a cancellation is confirmed
  unless the provider is late.
\<close>

section \<open>An example provider\<close>

record ex_fab =
  tx_ops :: "ptr list"
  rx_ops :: "ptr list"
  to_cancel :: "ptr list"

definition ex_take :: "ptr \<Rightarrow> ex_fab \<Rightarrow> ex_fab" where
  "ex_take p u = u\<lparr>tx_ops := removeAll p (tx_ops u), rx_ops := removeAll p (rx_ops u)\<rparr>"

fun ex_cq_read :: "bool \<Rightarrow> cq_id \<Rightarrow> 32 word \<Rightarrow> ex_fab \<Rightarrow> cq_result \<times> ex_fab" where
  "ex_cq_read late Tx_cq n u =
     (case tx_ops u of
        [] \<Rightarrow> (Cq_none, u)
      | p # ps \<Rightarrow> if n = 0 then (Cq_none, u) else (Cq_entries [\<lparr>ce_flags = FI_SEND, ce_context = p\<rparr>], ex_take p u))"
| "ex_cq_read late Rx_cq n u =
     (case rx_ops u of
        [] \<Rightarrow> (Cq_none, u)
      | p # ps \<Rightarrow>
          if n = 0 then (Cq_none, u)
          else if \<not> late \<and> p \<in> set (to_cancel u) then (Cq_err FI_ECANCELED (Some p), ex_take p u)
          else (Cq_entries [\<lparr>ce_flags = FI_RECV, ce_context = p\<rparr>], ex_take p u))"

definition ex_fi :: "bool \<Rightarrow> ex_fab fi_lib" where
  "ex_fi late =
     \<lparr>fi_tsend = (\<lambda>buf sz a t p u. (0, u\<lparr>tx_ops := tx_ops u @ [p]\<rparr>)),
      fi_tinject = (\<lambda>buf sz a t u. (0, u)),
      fi_trecv = (\<lambda>buf sz a t m p u. (0, u\<lparr>rx_ops := rx_ops u @ [p]\<rparr>)),
      fi_cancel = (\<lambda>p u. (0, u\<lparr>to_cancel := to_cancel u @ [p]\<rparr>)),
      fi_cq_read = ex_cq_read late\<rparr>"

definition ex_fview :: "ex_fab fi_view" where
  "ex_fview = \<lparr>fout = (\<lambda>u p. p \<in> set (tx_ops u) \<or> p \<in> set (rx_ops u)), fwork = (\<lambda>u. length (tx_ops u) + length (rx_ops u))\<rparr>"

lemma ex_take_view:
  "fout ex_fview (ex_take p u) = (fout ex_fview u)(p := False)"
  "fwork ex_fview (ex_take p u) \<le> fwork ex_fview u"
  "fout ex_fview u p \<Longrightarrow> fwork ex_fview (ex_take p u) < fwork ex_fview u"
proof -
  have le: "length (removeAll p (tx_ops u)) \<le> length (tx_ops u)" "length (removeAll p (rx_ops u)) \<le> length (rx_ops u)"
    by (simp_all add: length_removeAll_less_eq)
  show "fout ex_fview (ex_take p u) = (fout ex_fview u)(p := False)"
    by (auto simp: ex_fview_def ex_take_def fun_eq_iff)
  show "fwork ex_fview (ex_take p u) \<le> fwork ex_fview u"
    unfolding ex_fview_def ex_take_def using add_mono [OF le] by simp
  show "fwork ex_fview (ex_take p u) < fwork ex_fview u" if "fout ex_fview u p"
  proof -
    have "length (removeAll p (tx_ops u)) < length (tx_ops u) \<or> length (removeAll p (rx_ops u)) < length (rx_ops u)"
      using that length_removeAll_less [of p "tx_ops u"] length_removeAll_less [of p "rx_ops u"] by (auto simp: ex_fview_def)
    then have "length (removeAll p (tx_ops u)) + length (removeAll p (rx_ops u)) < length (tx_ops u) + length (rx_ops u)"
      using le by linarith
    then show ?thesis
      by (simp add: ex_fview_def ex_take_def)
  qed
qed

lemma ex_fi_ok: "fi_ok (ex_fi late) ex_fview"
proof -
  have "cq_read_ok ex_fview q n u (ex_cq_read late q n u)" for q n u
  proof (cases q)
    case Tx_cq
    show ?thesis
    proof (cases "tx_ops u")
      case (Cons p ps)
      then have "fout ex_fview u p"
        by (simp add: ex_fview_def)
      then show ?thesis
        using Cons Tx_cq ex_take_view [where p = p and u = u]
        by (auto simp: cq_read_ok_def entry_flags_ok_def FI_TAGGED_def FI_SEND_def FI_MSG_def word_neq_0_conv unat_gt_0 Suc_leI fun_eq_iff)
    qed (simp add: Tx_cq cq_read_ok_def)
  next
    case Rx_cq
    show ?thesis
    proof (cases "rx_ops u")
      case (Cons p ps)
      then have "fout ex_fview u p"
        by (simp add: ex_fview_def)
      then show ?thesis
        using Cons Rx_cq ex_take_view [where p = p and u = u]
        by (auto simp: cq_read_ok_def entry_flags_ok_def FI_TAGGED_def FI_RECV_def word_neq_0_conv unat_gt_0 Suc_leI fun_eq_iff)
    qed (simp add: Rx_cq cq_read_ok_def)
  qed
  moreover have "fout ex_fview (u\<lparr>tx_ops := tx_ops u @ [p]\<rparr>) = (fout ex_fview u)(p := True)"
    "fout ex_fview (u\<lparr>rx_ops := rx_ops u @ [p]\<rparr>) = (fout ex_fview u)(p := True)"
    "fout ex_fview (u\<lparr>to_cancel := to_cancel u @ [p]\<rparr>) = fout ex_fview u" for u p
    by (auto simp: ex_fview_def fun_eq_iff)
  ultimately show ?thesis
    by (simp add: fi_ok_def ex_fi_def post_ok_def)
qed

definition ex_flog :: "nat \<Rightarrow> rank_type \<Rightarrow> tag_type \<Rightarrow> api_state \<times> nat list \<Rightarrow> api_state \<times> nat list" where
  "ex_flog c r t e = (fst e, snd e @ [c])"

definition ex_finit :: "32 word \<Rightarrow> (nat, nat list, ex_fab) lf_world" where
  "ex_finit mx = lf_init 7 0 mx False empty_api [] \<lparr>tx_ops = [], rx_ops = [], to_cancel = []\<rparr>"

text \<open>A receive with callback 9 has been posted.\<close>

definition ex_fposted :: "32 word \<Rightarrow> (nat, nat list, ex_fab) lf_world" where
  "ex_fposted mx =
     (move_to_handle 1 (posted 1
       \<lparr>m_comm = 0, m_scheduled = Scheduled_recvs 0, m_rank = 4, m_tag = 5, m_cb = 9,
        m_ready = False, m_canceled = False, m_self_ptr = None, m_op_shared = False\<rparr> (ex_finit mx)))
       \<lparr>fab := \<lparr>tx_ops = [], rx_ops = [1], to_cancel = []\<rparr>\<rparr>"

lemma ex_fposted_recv: "lf_recv (ex_fi late) cbk 0 1 100 8 4 5 9 (ex_finit mx) = Some (Inr (Some 1, ex_fposted mx))"
  by (subst lf_recv_def)
     (simp add: lf_make_request_def region_defs post_request_eq execute_fi_function.simps ex_fi_def ex_fposted_def ex_finit_def lf_init_def
        move_to_handle_def posted_def)

lemma ex_finit_view: "fout ex_fview \<lparr>tx_ops = [], rx_ops = [], to_cancel = []\<rparr> = (\<lambda>_. False)"
  by (simp add: ex_fview_def)

lemma ex_fposted_run: "(lf_step (ex_fi late) ex_flog)\<^sup>*\<^sup>* (ex_finit mx) (ex_fposted mx)"
  by (rule r_into_rtranclp, rule l_recv [OF _ ex_fposted_recv]) (simp add: ex_finit_def lf_init_def)

lemma ex_fposted_inv: "linv ex_fview {} {} (ex_fposted 1)" "poll_size_ok (ex_fposted 1)"
  using lf_runs [OF ex_fposted_run [unfolded ex_finit_def] ex_fi_ok ex_finit_view] by simp_all

lemma ex_fposted_waiting: "is_waiting (ex_fposted 1) 1"
  by (simp add: ex_fposted_def is_waiting_def waiting_def move_to_handle_def posted_def)

section \<open>Safety\<close>



section \<open>Progress\<close>



lemma poll_zero:
  fixes w :: "('c, 'e, 'f) lf_world"
  assumes "poll_for_work_completions lib cbk user st w = Some r" "fi_ok lib vw" "max_completions_per_poll w = 0"
    "\<And>q u code ctxt. fst (fi_cq_read lib q 0 u) \<noteq> Cq_err code ctxt"
  shows False
proof -
  define P where "P lib' cbk (user' :: nat option) st' w r \<longleftrightarrow> (lib' = lib \<longrightarrow> max_completions_per_poll w = 0 \<longrightarrow> False)"
    for lib' :: "'f fi_lib" and cbk :: "('c, 'e, 'f) lf_callback" and user' and st' :: "32 word \<times> 32 word"
      and w :: "('c, 'e, 'f) lf_world" and r :: "((32 word \<times> 32 word) \<times> ('c, 'e, 'f) lf_world) result"
  have none: "fst (fi_cq_read lib q 0 u) = Cq_none \<or> (\<exists>e. fst (fi_cq_read lib q 0 u) = Cq_other e)" for q u
  proof -
    have "cq_read_ok vw q 0 u (fi_cq_read lib q 0 u)"
      using assms(2) by (simp add: fi_ok_def)
    then show ?thesis
      using assms(4) [of q u] by (cases "fst (fi_cq_read lib q 0 u)") (auto simp: cq_read_ok_def)
  qed
  have ps: "\<exists>n u. poll_send_queue lib cbk user w = Inr (n, w\<lparr>fab := u\<rparr>)" if "max_completions_per_poll w = 0"
    for cbk :: "('c, 'e, 'f) lf_callback" and user w
  proof (cases "tx_busy w")
    case True
    then show ?thesis
      by (intro exI [of _ "-1"] exI [of _ "fab w"]) (simp add: poll_send_queue_def)
  next
    case False
    then show ?thesis
      using none [of Tx_cq "fab w"] that by (auto simp: poll_send_queue_def split: prod.splits)
  qed
  have pr: "\<exists>u. poll_recv_queue lib cbk user w = Inr (0, w\<lparr>fab := u\<rparr>)" if "max_completions_per_poll w = 0"
    for cbk :: "('c, 'e, 'f) lf_callback" and user w
    using none [of Rx_cq "fab w"] that by (auto simp: poll_recv_queue_def split: prod.splits)
  have "P lib cbk user st w r"
  proof (rule poll_for_work_completions.raw_induct [OF _ assms(1)])
    fix self lib' cbk user st w r
    assume IH: "\<And>lib cbk user st w y. self lib cbk user st w = Some y \<Longrightarrow> P lib cbk user st w y"
      and b: "(case poll_send_queue lib' cbk user w of
        Inl e \<Rightarrow> Some (Inl e)
      | Inr (ns, w1) \<Rightarrow>
          (case poll_recv_queue lib' cbk user w1 of
             Inl e \<Rightarrow> Some (Inl e)
           | Inr (nr, w2) \<Rightarrow>
               if word_of_int ns = max_completions_per_poll w2 \<or> word_of_int nr = max_completions_per_poll w2
               then self lib' cbk user (fst st + word_of_int ns, snd st + word_of_int nr) w2
               else Some (Inr ((fst st + word_of_int ns, snd st + word_of_int nr), w2)))) = Some r"
    show "P lib' cbk user st w r"
      unfolding P_def
    proof (intro impI)
      assume a: "lib' = lib" "max_completions_per_poll w = 0"
      obtain n u where 1: "poll_send_queue lib cbk user w = Inr (n, w\<lparr>fab := u\<rparr>)"
        using ps [OF a(2)] by blast
      obtain u' where 2: "poll_recv_queue lib cbk user (w\<lparr>fab := u\<rparr>) = Inr (0, w\<lparr>fab := u'\<rparr>)"
        using pr [of "w\<lparr>fab := u\<rparr>" cbk user] a(2) by auto
      have "self lib cbk user (fst st + word_of_int n, snd st) (w\<lparr>fab := u'\<rparr>) = Some r"
        using b a 1 2 by simp
      then show False
        using IH a(2) unfolding P_def by fastforce
    qed
  qed
  then show False
    using assms(3) by (simp add: P_def)
qed

text \<open>A poll size of zero makes the polling loop run forever, because a poll that delivers nothing
  has then delivered as many completions as it asked for.  So progress does not return.\<close>

theorem lf_poll_size_zero:
  assumes "fi_ok lib vw" "max_completions_per_poll w = 0" "\<forall>q u code ctxt. fst (fi_cq_read lib q 0 u) \<noteq> Cq_err code ctxt"
  shows "poll_for_work_completions lib cbk user st w = None \<and> lf_comm_progress lib cbk c w = None \<and> lf_ctx_progress lib cbk w = None"
proof -
  have "poll_for_work_completions lib cbk user st w = None" for user st
    using poll_zero [OF _ assms(1,2)] assms(3) by (metis not_Some_eq)
  then show ?thesis
    by (simp add: lf_comm_progress_def lf_ctx_progress_def)
qed

theorem lf_poll_size_zero_witness:
  "lf_comm_progress (ex_fi False) (lf_extern ex_flog) 0 (ex_fposted 0) = None"
proof -
  have "fst (ex_cq_read False q 0 u) \<noteq> Cq_err code ctxt" for q u code ctxt
    by (cases q) (simp_all split: list.splits)
  then have "\<forall>q u code ctxt. fst (fi_cq_read (ex_fi False) q 0 u) \<noteq> Cq_err code ctxt"
    by (simp add: ex_fi_def)
  moreover have "max_completions_per_poll (ex_fposted 0) = 0"
    by (simp add: ex_fposted_def ex_finit_def lf_init_def move_to_handle_def posted_def)
  ultimately show ?thesis
    using lf_poll_size_zero [OF ex_fi_ok] by blast
qed

section \<open>Tags\<close>

lemma tag64_bit:
  "bit (make_tag64 tag ctxt) n \<longleftrightarrow> (n < 24 \<and> bit tag n) \<or> (24 \<le> n \<and> n < 48 \<and> bit ctxt (n - 24))"
proof -
  have m: "(0x0000000000FFFFFF :: 64 word) = mask 24"
    by (simp add: mask_eq_exp_minus_1)
  show ?thesis
    unfolding make_tag64_def m by (auto simp: bit_simps)
qed

text \<open>C32: of the tag of a message 24 bits are sent along.  Two messages are told apart exactly if the
  low 24 bits of their tags or of the tags of their contexts differ.  The 32 bits the context announces
  are not available: two tags within its range are sent as the same tag.\<close>

theorem lf_tag_bits:
  "(make_tag64 t c = make_tag64 t' c' \<longleftrightarrow> take_bit 24 t = take_bit 24 t' \<and> take_bit 24 c = take_bit 24 c') \<and>
   (\<exists>x y :: 32 word. x \<noteq> y \<and> unat x < 2 ^ lf_num_tag_bits \<and> unat y < 2 ^ lf_num_tag_bits \<and> make_tag64 x c = make_tag64 y c)"
proof
  show eq: "make_tag64 t c = make_tag64 t' c' \<longleftrightarrow> take_bit 24 t = take_bit 24 t' \<and> take_bit 24 c = take_bit 24 c'"
    for t t' :: "32 word" and c c' :: "64 word"
  proof
    assume e: "make_tag64 t c = make_tag64 t' c'"
    have "bit (take_bit 24 t) n \<longleftrightarrow> bit (take_bit 24 t') n" for n
      using arg_cong [OF e, of "\<lambda>x. bit x n"] by (auto simp: tag64_bit bit_simps)
    moreover have "bit (take_bit 24 c) n \<longleftrightarrow> bit (take_bit 24 c') n" for n
      using arg_cong [OF e, of "\<lambda>x. bit x (n + 24)"] by (auto simp: tag64_bit bit_simps)
    ultimately show "take_bit 24 t = take_bit 24 t' \<and> take_bit 24 c = take_bit 24 c'"
      by (simp add: bit_eq_iff)
  next
    assume e: "take_bit 24 t = take_bit 24 t' \<and> take_bit 24 c = take_bit 24 c'"
    have "bit t n \<longleftrightarrow> bit t' n" "bit c n \<longleftrightarrow> bit c' n" if "n < 24" for n
      using arg_cong [OF conjunct1 [OF e], of "\<lambda>x. bit x n"] arg_cong [OF conjunct2 [OF e], of "\<lambda>x. bit x n"] that
      by (auto simp: bit_simps)
    then show "make_tag64 t c = make_tag64 t' c'"
      by (intro bit_eqI) (auto simp: tag64_bit)
  qed
  have "make_tag64 0 c = make_tag64 0x1000000 c"
    unfolding eq by (simp add: take_bit_eq_mask mask_eq_exp_minus_1)
  moreover have "unat (0x1000000 :: 32 word) < 2 ^ lf_num_tag_bits" "unat (0 :: 32 word) < 2 ^ lf_num_tag_bits"
    by (simp_all add: lf_num_tag_bits_def)
  moreover have "(0 :: 32 word) \<noteq> 0x1000000"
    by simp
  ultimately show "\<exists>x y :: 32 word. x \<noteq> y \<and> unat x < 2 ^ lf_num_tag_bits \<and> unat y < 2 ^ lf_num_tag_bits \<and> make_tag64 x c = make_tag64 y c"
    by blast
qed

section \<open>Cancellation\<close>

text \<open>C31: a cancellation that libfabric confirms at the next read of the receive queue returns true and
  leaves the request cancelled, with the callback not called.\<close>

theorem lf_cancel_confirmed:
  fixes w :: "('c, 'e, 'f) lf_world"
  assumes "linv vw {} {} w" "fi_ok lib vw" "is_waiting w p" "m_comm (state_of w p) = c" "\<not> m_op_shared (state_of w p)"
    "fi_cancel lib p (fab w) = (0, u)" "fi_cq_read lib Rx_cq (max_completions_per_poll w) u = (Cq_err FI_ECANCELED (Some p), u')"
  shows "\<exists>v. lf_cancel_recv lib (lf_extern f) c p w = Some (Inr (True, v)) \<and> linv vw {} {} v \<and> canceled v p \<and> lenv v = lenv w"
proof -
  let ?w = "w\<lparr>fab := u\<rparr>" and ?x = "w\<lparr>fab := u'\<rparr>"
  note i = fi_cancel_inv [OF assms(1,2,6)]
  have ld: "load_state p ?x = Inr (state_of w p)"
    using waiting_load [OF assms(3)] by (simp add: load_state_def)
  let ?y = "lf_push (L_cancel c) p ?x"
  have y: "poll_recv_queue lib (lf_extern f) (Some c) ?w = Inr (0, ?y)"
    using assms(4,5,7) ld by (simp add: poll_recv_queue_def handle_cancelled_def)
  obtain n z where "poll_recv_queue lib (lf_extern f) (Some c) ?w = Inr (n, z)" "polled_once vw f {} ?w n z"
    using poll_recv_queue_ok [OF i assms(2)] by blast
  then have iy: "linv vw {} {} ?y"
    using y by (simp add: polled_once_def)
  obtain found xs where c: "cancel_pops p (lf_list (L_cancel c) ?y) [] = (found, xs)"
    by fastforce
  have "found"
    using cancel_pops_mset(1) [OF c] by simp
  note ct = c [unfolded eqTrueI [OF \<open>found\<close>]]
  obtain v where v: "cancel_request p (lf_set (L_cancel c) xs ?y) = Inr v" "linv vw {} {} v" "canceled v p" "lenv v = lenv ?y"
    using cancel_found [OF iy ct] by blast
  have "lf_cancel_loop lib (lf_extern f) (Some c) (L_cancel c) p ?w = Some (Inr v)"
    using y ct v(1) by (subst lf_cancel_loop.simps) (simp del: lf_list.simps)
  then have "lf_cancel_recv lib (lf_extern f) c p w = Some (Inr (True, v))"
    using assms(6) by (simp add: lf_cancel_recv_def)
  moreover have "lenv ?y = lenv w"
    by (simp add: lenv_def) (simp add: lf_push_def)
  ultimately show ?thesis
    using v by auto
qed

theorem lf_cancel_confirmed_witness:
  "\<exists>v. lf_cancel_recv (ex_fi False) (lf_extern ex_flog) 0 1 (ex_fposted 1) = Some (Inr (True, v)) \<and> canceled v 1 \<and> lenv v = (empty_api, [])"
proof -
  let ?w = "ex_fposted 1" and ?u = "\<lparr>tx_ops = [], rx_ops = [1], to_cancel = [1]\<rparr>"
  have s: "m_comm (state_of ?w 1) = 0" "\<not> m_op_shared (state_of ?w 1)"
    by (simp_all add: ex_fposted_def state_of_def move_to_handle_def posted_def)
  have l: "fi_cancel (ex_fi False) 1 (fab ?w) = (0, ?u)"
    "fi_cq_read (ex_fi False) Rx_cq (max_completions_per_poll ?w) ?u = (Cq_err FI_ECANCELED (Some 1), ex_take 1 ?u)"
    by (simp_all add: ex_fi_def ex_fposted_def ex_finit_def lf_init_def move_to_handle_def posted_def)
  have "lenv ?w = (empty_api, [])"
    by (simp add: ex_fposted_def ex_finit_def lf_init_def lenv_def move_to_handle_def posted_def)
  then show ?thesis
    using lf_cancel_confirmed [OF ex_fposted_inv(1) ex_fi_ok ex_fposted_waiting s l, of ex_flog] by auto
qed

lemma poll_recv_cancel_queue:
  assumes "poll_recv_queue lib (lf_extern f) user w = Inr (n, x)"
    "\<forall>n u code ctxt. fst (fi_cq_read lib Rx_cq n u) \<noteq> Cq_err code ctxt"
  shows "lf_list (L_cancel c) x = lf_list (L_cancel c) w"
proof -
  obtain r u where l: "fi_cq_read lib Rx_cq (max_completions_per_poll w) (fab w) = (r, u)"
    by fastforce
  have "r \<noteq> Cq_err code ctxt" for code ctxt
    using assms(2) l by (metis fst_conv)
  then show ?thesis
    using assms(1) l recv_entries_cancel_queues [of f user _ 0 "w\<lparr>fab := u\<rparr>" n x c]
    by (cases r) (auto simp: poll_recv_queue_def)
qed

text \<open>Libfabric may accept a cancellation and complete the receive as usual.  Then \<open>cancel_recv\<close> never
  returns: it waits for the request to appear among the cancelled ones.\<close>

theorem lf_cancel_never_returns:
  fixes w :: "('c, 'e, 'f) lf_world"
  assumes "linv vw {} {} w" "fi_ok lib vw" "fi_cancel lib p (fab w) = (0, u)" "p \<notin> set (m_recv_cb_cancel w c)"
    "\<forall>n u code ctxt. fst (fi_cq_read lib Rx_cq n u) \<noteq> Cq_err code ctxt"
  shows "lf_cancel_recv lib (lf_extern f) c p w = None"
proof -
  let ?q = "L_cancel c"
  define P where "P lib' cbk (user' :: nat option) q' p' w r \<longleftrightarrow>
     (lib' = lib \<longrightarrow> cbk = lf_extern f \<longrightarrow> q' = ?q \<longrightarrow> linv vw {} {} w \<longrightarrow> p' \<notin> set (lf_list q' w) \<longrightarrow> False)"
    for lib' :: "'f fi_lib" and cbk :: "('c, 'e, 'f) lf_callback" and user' and q' :: lf_queue and p' :: ptr
      and w :: "('c, 'e, 'f) lf_world" and r :: "('c, 'e, 'f) lf_world result"
  have "P lib (lf_extern f) user ?q p w r" if "lf_cancel_loop lib (lf_extern f) user ?q p w = Some r" for user w r
  proof (rule lf_cancel_loop.raw_induct [OF _ that])
    fix self lib' cbk user q p w r
    assume IH: "\<And>lib cbk user q p w y. self lib cbk user q p w = Some y \<Longrightarrow> P lib cbk user q p w y"
      and b: "(case poll_recv_queue lib' cbk user w of
        Inl e \<Rightarrow> Some (Inl e)
      | Inr nw \<Rightarrow>
          (case cancel_pops p (lf_list q (snd nw)) [] of (found, xs) \<Rightarrow>
             if found then Some (cancel_request p (lf_set q xs (snd nw)))
             else self lib' cbk user q p (lf_set q xs (snd nw)))) = Some r"
    show "P lib' cbk user q p w r"
      unfolding P_def
    proof (intro impI)
      assume a: "lib' = lib" "cbk = lf_extern f" "q = ?q" "linv vw {} {} w" "p \<notin> set (lf_list q w)"
      obtain n x where x: "poll_recv_queue lib (lf_extern f) user w = Inr (n, x)" "polled_once vw f {} w n x"
        using poll_recv_queue_ok [OF a(4) assms(2)] by blast
      have ix: "linv vw {} {} x" "p \<notin> set (lf_list ?q x)"
        using x a(3,5) poll_recv_cancel_queue [OF x(1) assms(5)] by (simp_all add: polled_once_def del: lf_list.simps)
      obtain found xs where c: "cancel_pops p (lf_list ?q x) [] = (found, xs)"
        by fastforce
      note m = cancel_pops_mset [OF c]
      have nf: "\<not> found" "mset xs = mset (lf_list ?q x)"
        using m ix(2) by (auto simp del: lf_list.simps)
      have "self lib (lf_extern f) user ?q p (lf_set ?q xs x) = Some r"
        using b a x(1) c nf(1) by (simp del: lf_list.simps lf_set.simps)
      moreover have "p \<notin> set xs"
        using mset_eq_setD [OF nf(2)] ix(2) by simp
      ultimately show False
        using IH linv_perm [OF ix(1) nf(2)] unfolding P_def by (metis lf_set_simps(1))
    qed
  qed
  then have "lf_cancel_loop lib (lf_extern f) (Some c) ?q p (w\<lparr>fab := u\<rparr>) = None"
    using fi_cancel_inv [OF assms(1-3)] assms(4) unfolding P_def by (metis lf_list.simps(3) lf_list_simps(4) not_Some_eq)
  then show ?thesis
    using assms(3) by (simp add: lf_cancel_recv_def)
qed

theorem lf_cancel_never_returns_witness:
  "lf_cancel_recv (ex_fi True) (lf_extern ex_flog) 0 1 (ex_fposted 1) = None"
proof -
  have "fst (fi_cq_read (ex_fi True) Rx_cq n u) \<noteq> Cq_err code ctxt" for n u code ctxt
    by (simp add: ex_fi_def split: list.splits)
  moreover have "fi_cancel (ex_fi True) 1 (fab (ex_fposted 1)) = (0, \<lparr>tx_ops = [], rx_ops = [1], to_cancel = [1]\<rparr>)"
    "1 \<notin> set (m_recv_cb_cancel (ex_fposted 1) 0)"
    by (simp_all add: ex_fi_def ex_fposted_def ex_finit_def lf_init_def move_to_handle_def posted_def)
  ultimately show ?thesis
    by (intro lf_cancel_never_returns [OF ex_fposted_inv(1) ex_fi_ok]) simp_all
qed

end
