(* ===== verification/Context_Lifetime.thy ===== *)
theory Context_Lifetime
  imports Oomph_Prelude
begin

text \<open>
  Lifetime of contexts and communicators (\<open>context.cpp\<close>, \<open>context_base.hpp\<close>, \<open>communicator_state.cpp\<close>,
  \<open>communicator_set_impl.hpp\<close>, \<open>unique_ptr_set.hpp\<close>).  A context owns the communicators made by it.  The
  state a communicator object points to registers its communicator in a process wide set, under the
  context and the thread, and takes it out again when it is destroyed; the set serves the barrier, which
  makes progress on the communicators of the calling thread.
\<close>

section \<open>Model\<close>

text \<open>\<open>contexts\<close>: the live contexts with their \<open>m_comms_set\<close>.  \<open>impls\<close>: the live communicators with their
  \<open>m_context\<close>.  \<open>comm_states\<close>: the live communicator states with their \<open>m_impl\<close>.  \<open>m_map\<close>: the process
  wide set; an entry that does not exist and an empty one, which access creates, are the same here.\<close>

record life =
  contexts :: "ptr \<Rightarrow> ptr set option"
  impls :: "ptr \<Rightarrow> ptr option"
  comm_states :: "ptr \<Rightarrow> ptr option"
  m_map :: "ptr \<Rightarrow> nat \<Rightarrow> ptr set"

definition no_life :: life where
  "no_life = \<lparr>contexts = (\<lambda>_. None), impls = (\<lambda>_. None), comm_states = (\<lambda>_. None), m_map = (\<lambda>_ _. {})\<rparr>"

subsection \<open>The set of owned communicators\<close>

definition ups_insert :: "ptr \<Rightarrow> ptr set \<Rightarrow> ptr set" where
  "ups_insert p s = insert p s"

text \<open>\<open>m_ptrs.erase(m_ptrs.find(p))\<close>, then the deleter; erasing the end iterator is undefined.\<close>

definition ups_remove :: "ptr \<Rightarrow> ptr \<Rightarrow> life \<Rightarrow> life result" where
  "ups_remove ctx p w =
     (case contexts w ctx of
        None \<Rightarrow> Inl (Undefined_behaviour ''context destroyed'')
      | Some s \<Rightarrow>
          if p \<in> s then Inr (w\<lparr>contexts := (contexts w)(ctx \<mapsto> s - {p}), impls := (impls w)(p := None)\<rparr>)
          else Inl (Undefined_behaviour ''erase of the end iterator''))"

definition ups_destroy :: "ptr set \<Rightarrow> life \<Rightarrow> life" where
  "ups_destroy s w = w\<lparr>impls := (\<lambda>p. if p \<in> s then None else impls w p)\<rparr>"

subsection \<open>The process wide set\<close>

definition cs_insert :: "nat \<Rightarrow> ptr \<Rightarrow> ptr \<Rightarrow> life \<Rightarrow> life" where
  "cs_insert tid ctx c w = w\<lparr>m_map := (m_map w)(ctx := (m_map w ctx)(tid := insert c (m_map w ctx tid)))\<rparr>"

definition cs_erase :: "nat \<Rightarrow> ptr \<Rightarrow> ptr \<Rightarrow> life \<Rightarrow> life" where
  "cs_erase tid ctx c w = w\<lparr>m_map := (m_map w)(ctx := (m_map w ctx)(tid := m_map w ctx tid - {c}))\<rparr>"

definition cs_erase_context :: "ptr \<Rightarrow> life \<Rightarrow> life" where
  "cs_erase_context ctx w = w\<lparr>m_map := (m_map w)(ctx := (\<lambda>_. {}))\<rparr>"

text \<open>Progress on the communicators of a thread, in the order of \<open>std::set\<close>.  \<open>prog\<close> is the progress
  function of the transport.\<close>

definition cs_progress :: "(ptr \<Rightarrow> 'a \<Rightarrow> 'a result) \<Rightarrow> nat \<Rightarrow> ptr \<Rightarrow> life \<Rightarrow> 'a \<Rightarrow> 'a result" where
  "cs_progress prog tid ctx w =
     fold_res (\<lambda>c a. if impls w c = None then Inl (Undefined_behaviour ''communicator destroyed'') else prog c a)
       (sorted_list_of_set (m_map w ctx tid))"

subsection \<open>Contexts and communicators\<close>

definition context_ctor :: "ptr \<Rightarrow> life \<Rightarrow> life" where
  "context_ctor ctx w = w\<lparr>contexts := (contexts w)(ctx \<mapsto> {})\<rparr>"

text \<open>\<open>context_impl::get_communicator\<close>; \<open>p\<close> is the address of the new communicator.\<close>

definition impl_get_communicator :: "ptr \<Rightarrow> ptr \<Rightarrow> life \<Rightarrow> life result" where
  "impl_get_communicator ctx p w =
     (case contexts w ctx of
        None \<Rightarrow> Inl (Undefined_behaviour ''context destroyed'')
      | Some s \<Rightarrow> Inr (w\<lparr>impls := (impls w)(p \<mapsto> ctx), contexts := (contexts w)(ctx \<mapsto> ups_insert p s)\<rparr>))"

definition communicator_state_ctor :: "nat \<Rightarrow> ptr \<Rightarrow> ptr \<Rightarrow> life \<Rightarrow> life result" where
  "communicator_state_ctor tid q p w =
     (case impls w p of
        None \<Rightarrow> Inl (Undefined_behaviour ''communicator destroyed'')
      | Some ctx \<Rightarrow> Inr (cs_insert tid ctx p (w\<lparr>comm_states := (comm_states w)(q \<mapsto> p)\<rparr>)))"

text \<open>\<open>context::get_communicator\<close>; \<open>q\<close> is the address of the communicator state.\<close>

definition context_get_communicator :: "nat \<Rightarrow> ptr \<Rightarrow> ptr \<Rightarrow> ptr \<Rightarrow> life \<Rightarrow> life result" where
  "context_get_communicator tid ctx p q w =
     bind_res (impl_get_communicator ctx p w) (communicator_state_ctor tid q p)"

text \<open>\<open>communicator_base::release\<close>\<close>

definition communicator_release :: "ptr \<Rightarrow> life \<Rightarrow> life result" where
  "communicator_release p w =
     (case impls w p of
        None \<Rightarrow> Inl (Undefined_behaviour ''communicator destroyed'')
      | Some ctx \<Rightarrow> ups_remove ctx p w)"

definition communicator_state_dtor :: "nat \<Rightarrow> ptr \<Rightarrow> life \<Rightarrow> life result" where
  "communicator_state_dtor tid q w =
     (case comm_states w q of
        None \<Rightarrow> Inl (Undefined_behaviour ''communicator state destroyed'')
      | Some p \<Rightarrow>
          (case impls w p of
             None \<Rightarrow> Inl (Undefined_behaviour ''communicator destroyed'')
           | Some ctx \<Rightarrow>
               bind_res (communicator_release p (cs_erase tid ctx p w)) (\<lambda>w.
               Inr (w\<lparr>comm_states := (comm_states w)(q := None)\<rparr>))))"

text \<open>\<open>context::~context\<close>, then the destruction of the context, which destroys the communicators left.\<close>

definition context_dtor :: "ptr \<Rightarrow> life \<Rightarrow> life result" where
  "context_dtor ctx w =
     (case contexts w ctx of
        None \<Rightarrow> Inl (Undefined_behaviour ''context destroyed'')
      | Some s \<Rightarrow> Inr ((ups_destroy s (cs_erase_context ctx w))\<lparr>contexts := (contexts w)(ctx := None)\<rparr>))"

section \<open>Disciplined use\<close>

text \<open>The state of a communicator is destroyed by the thread that made it, and before the context.  The
  second component remembers for each communicator state the thread that made it.\<close>

inductive life_step :: "life \<times> (ptr \<Rightarrow> nat) \<Rightarrow> life \<times> (ptr \<Rightarrow> nat) \<Rightarrow> bool" where
  make_context: "contexts w ctx = None \<Longrightarrow> life_step (w, own) (context_ctor ctx w, own)"
| make_communicator: "impls w p = None \<Longrightarrow> comm_states w q = None \<Longrightarrow> context_get_communicator tid ctx p q w = Inr v \<Longrightarrow>
    life_step (w, own) (v, own(q := tid))"
| drop_communicator: "communicator_state_dtor (own q) q w = Inr v \<Longrightarrow> life_step (w, own) (v, own)"
| drop_context: "(\<And>q p. comm_states w q = Some p \<Longrightarrow> impls w p \<noteq> Some ctx) \<Longrightarrow> context_dtor ctx w = Inr v \<Longrightarrow>
    life_step (w, own) (v, own)"

definition life_inv :: "life \<Rightarrow> (ptr \<Rightarrow> nat) \<Rightarrow> bool" where
  "life_inv w own \<longleftrightarrow>
     (\<forall>p ctx. impls w p = Some ctx \<longleftrightarrow> (\<exists>s. contexts w ctx = Some s \<and> p \<in> s)) \<and>
     (\<forall>q p. comm_states w q = Some p \<longrightarrow> impls w p \<noteq> None) \<and>
     (\<forall>q r p. comm_states w q = Some p \<longrightarrow> comm_states w r = Some p \<longrightarrow> q = r) \<and>
     (\<forall>ctx tid p. p \<in> m_map w ctx tid \<longleftrightarrow> impls w p = Some ctx \<and> (\<exists>q. comm_states w q = Some p \<and> own q = tid)) \<and>
     (\<forall>ctx tid. finite (m_map w ctx tid))"

lemma life_invD:
  assumes "life_inv w own"
  shows "impls w p = Some ctx \<longleftrightarrow> (\<exists>s. contexts w ctx = Some s \<and> p \<in> s)"
    "comm_states w q = Some p \<Longrightarrow> \<exists>ctx. impls w p = Some ctx"
    "comm_states w q = Some p \<Longrightarrow> comm_states w r = Some p \<Longrightarrow> q = r"
    "p \<in> m_map w ctx tid \<longleftrightarrow> impls w p = Some ctx \<and> (\<exists>q. comm_states w q = Some p \<and> own q = tid)"
    "finite (m_map w ctx tid)"
  using assms unfolding life_inv_def by blast+

lemma life_inv_init: "life_inv no_life own"
  by (simp add: life_inv_def no_life_def)

lemma life_inv_context:
  assumes "life_inv w own" "contexts w ctx = None"
  shows "life_inv (context_ctor ctx w) own"
  using assms by (auto simp: life_inv_def context_ctor_def)

lemma life_inv_communicator:
  assumes inv: "life_inv w own" and fresh: "impls w p = None" "comm_states w q = None"
    and v: "context_get_communicator tid ctx p q w = Inr v"
  shows "life_inv v (own(q := tid))"
proof -
  note i = life_invD [OF inv]
  obtain s where s: "contexts w ctx = Some s"
    using v by (auto simp: context_get_communicator_def impl_get_communicator_def bind_res_eq_Inr split: option.splits)
  have v: "impls v = (impls w)(p \<mapsto> ctx)" "contexts v = (contexts w)(ctx \<mapsto> insert p s)" "comm_states v = (comm_states w)(q \<mapsto> p)"
    "m_map v = (m_map w)(ctx := (m_map w ctx)(tid := insert p (m_map w ctx tid)))"
    using v s by (auto simp: context_get_communicator_def impl_get_communicator_def communicator_state_ctor_def cs_insert_def ups_insert_def)
  have np: "comm_states w r \<noteq> Some p" for r
    using i(2) [of r p] fresh(1) by auto
  have ns: "p \<notin> s" "\<And>c t. p \<notin> m_map w c t"
    using i(1) [of p ctx] i(4) [of p] s fresh(1) by auto
  show ?thesis
    unfolding life_inv_def
  proof (intro conjI allI impI)
    show "impls v x = Some c \<longleftrightarrow> (\<exists>s. contexts v c = Some s \<and> x \<in> s)" for x c
      using i(1) [of x c] i(1) [of p c] s ns(1) fresh(1) by (auto simp: v)
    show "impls v x \<noteq> None" if "comm_states v r = Some x" for r x
      using that i(2) [of r x] by (auto simp: v split: if_splits)
    show "r = r'" if "comm_states v r = Some x" "comm_states v r' = Some x" for r r' x
      using that i(3) [of r x r'] np by (auto simp: v split: if_splits)
    show "x \<in> m_map v c t \<longleftrightarrow> impls v x = Some c \<and> (\<exists>r. comm_states v r = Some x \<and> (own(q := tid)) r = t)" for c t x
    proof (cases "x = p")
      case True
      then show ?thesis
        using np ns(2) by (auto simp: v)
    next
      case False
      have "comm_states v r = Some x \<and> (own(q := tid)) r = t \<longleftrightarrow> comm_states w r = Some x \<and> own r = t" for r
        using False fresh(2) by (cases "r = q") (auto simp: v)
      then have "(\<exists>r. comm_states v r = Some x \<and> (own(q := tid)) r = t) \<longleftrightarrow> (\<exists>r. comm_states w r = Some x \<and> own r = t)"
        by (simp only:)
      then show ?thesis
        using i(4) [of x c t] False by (auto simp: v)
    qed
    show "finite (m_map v c t)" for c t
      using i(5) by (simp add: v)
  qed
qed

lemma communicator_state_dtor_eq:
  assumes inv: "life_inv w own" and q: "comm_states w q = Some p" "impls w p = Some ctx"
  obtains s where "contexts w ctx = Some s" "communicator_state_dtor tid q w =
    Inr (w\<lparr>m_map := (m_map w)(ctx := (m_map w ctx)(tid := m_map w ctx tid - {p})), contexts := (contexts w)(ctx \<mapsto> s - {p}),
           impls := (impls w)(p := None), comm_states := (comm_states w)(q := None)\<rparr>)"
proof -
  obtain s where s: "contexts w ctx = Some s" "p \<in> s"
    using life_invD(1) [OF inv, of p ctx] q(2) by blast
  then show thesis
    using q by (intro that [of s]) (simp_all add: communicator_state_dtor_def communicator_release_def ups_remove_def cs_erase_def)
qed

lemma life_inv_drop:
  assumes inv: "life_inv w own" and v: "communicator_state_dtor (own q) q w = Inr v"
  shows "life_inv v own"
proof -
  note i = life_invD [OF inv]
  obtain p where p: "comm_states w q = Some p"
    using v by (auto simp: communicator_state_dtor_def split: option.splits)
  obtain ctx where ctx: "impls w p = Some ctx"
    using i(2) [OF p] by blast
  obtain s where s: "contexts w ctx = Some s" and e: "communicator_state_dtor (own q) q w =
    Inr (w\<lparr>m_map := (m_map w)(ctx := (m_map w ctx)(own q := m_map w ctx (own q) - {p})), contexts := (contexts w)(ctx \<mapsto> s - {p}),
           impls := (impls w)(p := None), comm_states := (comm_states w)(q := None)\<rparr>)"
    using communicator_state_dtor_eq [OF inv p ctx] by metis
  have v: "impls v = (impls w)(p := None)" "contexts v = (contexts w)(ctx \<mapsto> s - {p})" "comm_states v = (comm_states w)(q := None)"
    "m_map v = (m_map w)(ctx := (m_map w ctx)(own q := m_map w ctx (own q) - {p}))"
    using v e by auto
  have only: "comm_states w r = Some p \<Longrightarrow> r = q" for r
    using i(3) [of r p q] p by blast
  show ?thesis
    unfolding life_inv_def
  proof (intro conjI allI impI)
    show "impls v x = Some c \<longleftrightarrow> (\<exists>s. contexts v c = Some s \<and> x \<in> s)" for x c
      using i(1) [of x c] i(1) [of p c] s ctx by (auto simp: v)
    show "impls v x \<noteq> None" if "comm_states v r = Some x" for r x
      using that i(2) [of r x] only by (auto simp: v split: if_splits)
    show "r = r'" if "comm_states v r = Some x" "comm_states v r' = Some x" for r r' x
      using that i(3) [of r x r'] by (auto simp: v split: if_splits)
    show "x \<in> m_map v c t \<longleftrightarrow> impls v x = Some c \<and> (\<exists>r. comm_states v r = Some x \<and> own r = t)" for c t x
    proof (cases "x = p")
      case True
      have "p \<notin> m_map v c t"
        using i(4) [of p c t] ctx only by (auto simp: v)
      then show ?thesis
        using True by (simp add: v)
    next
      case False
      have "comm_states v r = Some x \<longleftrightarrow> comm_states w r = Some x" for r
        using False p by (cases "r = q") (auto simp: v)
      then have "(\<exists>r. comm_states v r = Some x \<and> own r = t) \<longleftrightarrow> (\<exists>r. comm_states w r = Some x \<and> own r = t)"
        by (simp only:)
      then show ?thesis
        using i(4) [of x c t] False by (auto simp: v)
    qed
    show "finite (m_map v c t)" for c t
      using i(5) by (simp add: v)
  qed
qed

lemma life_inv_drop_context:
  assumes inv: "life_inv w own" and none: "\<And>q p. comm_states w q = Some p \<Longrightarrow> impls w p \<noteq> Some ctx"
    and v: "context_dtor ctx w = Inr v"
  shows "life_inv v own"
proof -
  note i = life_invD [OF inv]
  obtain s where s: "contexts w ctx = Some s"
    using v by (auto simp: context_dtor_def split: option.splits)
  have ms: "x \<in> s \<longleftrightarrow> impls w x = Some ctx" for x
    using i(1) [of x ctx] s by simp
  have v: "impls v = (\<lambda>p. if p \<in> s then None else impls w p)" "contexts v = (contexts w)(ctx := None)" "comm_states v = comm_states w"
    "m_map v = (m_map w)(ctx := (\<lambda>_. {}))"
    using v s by (auto simp: context_dtor_def ups_destroy_def cs_erase_context_def)
  show ?thesis
    unfolding life_inv_def
  proof (intro conjI allI impI)
    show "impls v x = Some c \<longleftrightarrow> (\<exists>s. contexts v c = Some s \<and> x \<in> s)" for x c
      using i(1) [of x c] ms [of x] by (auto simp: v)
    show "impls v x \<noteq> None" if "comm_states v r = Some x" for r x
      using that i(2) [of r x] none [of r x] ms [of x] by (auto simp: v)
    show "r = r'" if "comm_states v r = Some x" "comm_states v r' = Some x" for r r' x
      using that i(3) [of r x r'] by (auto simp: v)
    show "x \<in> m_map v c t \<longleftrightarrow> impls v x = Some c \<and> (\<exists>r. comm_states v r = Some x \<and> own r = t)" for c t x
      using i(4) [of x c t] none [of _ x] ms [of x] by (auto simp: v)
    show "finite (m_map v c t)" for c t
      using i(5) by (simp add: v)
  qed
qed

lemma life_inv_runs:
  assumes "life_step\<^sup>*\<^sup>* (no_life, o0) s"
  shows "life_inv (fst s) (snd s)"
  using assms
proof (induction rule: rtranclp_induct)
  case base
  show ?case
    by (simp add: life_inv_init)
next
  case (step s t)
  from step.hyps(2) step.IH show ?case
    by (cases rule: life_step.cases) (auto simp del: fun_upd_apply intro: life_inv_context life_inv_communicator life_inv_drop life_inv_drop_context)
qed

section \<open>Properties\<close>

lemma fold_res_all:
  assumes "\<And>x a. x \<in> set xs \<Longrightarrow> f x a = g x a"
  shows "fold_res f xs a = fold_res g xs a"
  using assms by (induction xs arbitrary: a) (auto simp: bind_res_def split: sum.splits)

lemma fold_res_stops:
  assumes "c \<in> set xs" "\<And>a. f c a = Inl e" "\<And>x a e'. f x a = Inl e' \<Longrightarrow> e' = e"
  shows "fold_res f xs a = Inl e"
  using assms(1)
proof (induction xs arbitrary: a)
  case (Cons x xs)
  show ?case
  proof (cases "f x a")
    case (Inl e')
    then show ?thesis
      using assms(3) by simp
  next
    case (Inr b)
    then show ?thesis
      using Cons assms(2) by (cases "x = c") auto
  qed
qed simp

text \<open>C38: when each communicator is destroyed by the thread that made it and before its context, the
  process wide set never holds a destroyed communicator.  The progress the barrier makes for a thread
  is progress on exactly the communicators of the context that this thread made and that still exist,
  each once, in the order of their addresses.  Destroying a communicator does not fail.\<close>

theorem communicators_live:
  assumes "life_step\<^sup>*\<^sup>* (no_life, o0) (w, own)"
  shows "set (sorted_list_of_set (m_map w ctx tid)) = {p. impls w p = Some ctx \<and> (\<exists>q. comm_states w q = Some p \<and> own q = tid)} \<and>
    distinct (sorted_list_of_set (m_map w ctx tid)) \<and>
    cs_progress prog tid ctx w a = fold_res prog (sorted_list_of_set (m_map w ctx tid)) a \<and>
    (\<forall>q p. comm_states w q = Some p \<longrightarrow> (\<exists>v. communicator_state_dtor (own q) q w = Inr v))"
proof -
  have inv: "life_inv w own"
    using life_inv_runs [OF assms] by simp
  note i = life_invD [OF inv]
  have st: "set (sorted_list_of_set (m_map w ctx tid)) = m_map w ctx tid"
    using i(5) by simp
  moreover have "cs_progress prog tid ctx w a = fold_res prog (sorted_list_of_set (m_map w ctx tid)) a"
    unfolding cs_progress_def by (rule fold_res_all) (use st i(4) in auto)
  moreover have "\<exists>v. communicator_state_dtor (own q) q w = Inr v" if "comm_states w q = Some p" for q p
    using i(2) [OF that] communicator_state_dtor_eq [OF inv that] by metis
  ultimately show ?thesis
    using i(4) by auto
qed

definition ex_life :: life where
  "ex_life = \<lparr>contexts = [1 \<mapsto> {2}], impls = [2 \<mapsto> 1], comm_states = [3 \<mapsto> 2], m_map = (\<lambda>_ _. {})(1 := (\<lambda>_. {})(5 := {2}))\<rparr>"

lemma ex_life_run: "life_step\<^sup>*\<^sup>* (no_life, \<lambda>_. 0) (ex_life, (\<lambda>_. 0)(3 := 5))"
proof -
  have "life_step (no_life, \<lambda>_. 0) (context_ctor 1 no_life, \<lambda>_. 0)"
    by (rule make_context) (simp add: no_life_def)
  moreover have "life_step (context_ctor 1 no_life, \<lambda>_. 0) (ex_life, (\<lambda>_. 0)(3 := 5))"
    by (rule make_communicator [where p = 2 and ctx = 1])
      (simp_all add: no_life_def context_ctor_def context_get_communicator_def impl_get_communicator_def ups_insert_def
        communicator_state_ctor_def cs_insert_def ex_life_def)
  ultimately show ?thesis
    by (meson converse_rtranclp_into_rtranclp r_into_rtranclp)
qed

theorem communicators_live_witness:
  "cs_progress (\<lambda>c a. Inr (a @ [c])) 5 1 ex_life [] = Inr [2] \<and> (\<exists>v. communicator_state_dtor 5 3 ex_life = Inr v)"
proof -
  have e: "m_map ex_life 1 5 = {2}" "comm_states ex_life 3 = Some 2"
    by (simp_all add: ex_life_def)
  show ?thesis
    using communicators_live [OF ex_life_run, of 1 5 "\<lambda>c a. Inr (a @ [c])" "[]"] e by (auto dest: spec [of _ 3])
qed

text \<open>A communicator may be destroyed by another thread than the one that made it, because
  communicator objects can be moved.  It is then searched under the wrong thread and stays in the
  process wide set, and the next progress of the thread that made it uses a destroyed communicator.\<close>

theorem destroyed_by_other_thread:
  assumes "life_inv w own" "comm_states w q = Some p" "impls w p = Some ctx" "tid \<noteq> own q" "\<forall>c a. \<exists>b. prog c a = Inr b"
  shows "\<exists>v. communicator_state_dtor tid q w = Inr v \<and> p \<in> m_map v ctx (own q) \<and> impls v p = None \<and>
    cs_progress prog (own q) ctx v a = Inl (Undefined_behaviour ''communicator destroyed'')"
proof -
  obtain s where e: "communicator_state_dtor tid q w =
    Inr (w\<lparr>m_map := (m_map w)(ctx := (m_map w ctx)(tid := m_map w ctx tid - {p})), contexts := (contexts w)(ctx \<mapsto> s - {p}),
           impls := (impls w)(p := None), comm_states := (comm_states w)(q := None)\<rparr>)" (is "_ = Inr ?v")
    by (rule communicator_state_dtor_eq [OF assms(1-3), of tid]) (rule that)
  define v where "v = ?v"
  have s: "communicator_state_dtor tid q w = Inr v" and v: "impls v = (impls w)(p := None)"
      "m_map v = (m_map w)(ctx := (m_map w ctx)(tid := m_map w ctx tid - {p}))"
    using e by (simp_all add: v_def)
  have p: "p \<in> m_map v ctx (own q)"
    using life_invD(4) [OF assms(1), of p ctx "own q"] assms(2-4) by (auto simp: v)
  moreover have "finite (m_map v ctx (own q))"
    using life_invD(5) [OF assms(1)] by (simp add: v)
  moreover have ok: "prog c a \<noteq> Inl e" for c a e
    using assms(5) by (metis Inl_Inr_False)
  ultimately have "cs_progress prog (own q) ctx v a = Inl (Undefined_behaviour ''communicator destroyed'')"
    unfolding cs_progress_def by (intro fold_res_stops [where c = p]) (auto simp: v split: if_splits)
  then show ?thesis
    using s p by (auto simp: v)
qed

theorem destroyed_by_other_thread_witness:
  "\<exists>v. communicator_state_dtor 6 3 ex_life = Inr v \<and>
     cs_progress (\<lambda>c a. Inr (a @ [c])) 5 1 v [] = Inl (Undefined_behaviour ''communicator destroyed'')"
proof -
  have "life_inv ex_life ((\<lambda>_. 0)(3 := 5))"
    using life_inv_runs [OF ex_life_run] by simp
  moreover have "comm_states ex_life 3 = Some 2" "impls ex_life 2 = Some 1"
    by (simp_all add: ex_life_def)
  ultimately show ?thesis
    using destroyed_by_other_thread [of ex_life "(\<lambda>_. 0)(3 := 5)" 3 2 1 6 "\<lambda>c a. Inr (a @ [c])" "[]"] by auto
qed

end
