(* ===== verification/Buffer_Data.thy ===== *)
theory Buffer_Data
  imports Message_Buffer
begin

text \<open>
  What is inside a message buffer: how buffers are made (\<open>make_buffer\<close> and \<open>make_buffer_core\<close> of
  \<open>context.hpp\<close>, \<open>context.cpp\<close> and \<open>communicator.cpp\<close>), access to elements, conversion of the element
  type, and the copies between host and device (\<open>message_buffer.hpp\<close>, \<open>message_buffer.cpp\<close>).  The heap
  (hwmalloc) is a record of functions.
\<close>

section \<open>The heap\<close>

record 'h heap_lib =
  hl_allocate :: "size_t \<Rightarrow> int option \<Rightarrow> 'h \<Rightarrow> ptr \<times> 'h"
  hl_register :: "ptr option \<Rightarrow> (ptr \<times> int) option \<Rightarrow> size_t \<Rightarrow> 'h \<Rightarrow> ptr \<times> 'h"
  hl_on_device :: "'h \<Rightarrow> ptr \<Rightarrow> bool"
  hl_device_ptr :: "'h \<Rightarrow> ptr \<Rightarrow> ptr"
  hl_device_id :: "'h \<Rightarrow> ptr \<Rightarrow> int"
  memcpy_to_device :: "ptr \<Rightarrow> ptr \<Rightarrow> size_t \<Rightarrow> 'h \<Rightarrow> 'h"
  memcpy_to_host :: "ptr \<Rightarrow> ptr \<Rightarrow> size_t \<Rightarrow> 'h \<Rightarrow> 'h"

text \<open>Observations: the number of bytes at an address that may be used, and the bytes of host and device.\<close>

record 'h heap_view =
  extent :: "'h \<Rightarrow> ptr \<Rightarrow> nat"
  host_byte :: "'h \<Rightarrow> ptr \<Rightarrow> 8 word"
  dev_byte :: "'h \<Rightarrow> ptr \<Rightarrow> 8 word"

definition heap_ok :: "'h heap_lib \<Rightarrow> 'h heap_view \<Rightarrow> bool" where
  "heap_ok lib vw \<longleftrightarrow>
     (\<forall>n d h. extent vw (snd (hl_allocate lib n d h)) (fst (hl_allocate lib n d h)) = unat n) \<and>
     (\<forall>dst src n h. hl_device_ptr lib (memcpy_to_device lib dst src n h) = hl_device_ptr lib h \<and>
        host_byte vw (memcpy_to_device lib dst src n h) = host_byte vw h \<and>
        dev_byte vw (memcpy_to_device lib dst src n h) =
          (\<lambda>a. if dst \<le> a \<and> a < dst + unat n then host_byte vw h (src + (a - dst)) else dev_byte vw h a)) \<and>
     (\<forall>dst src n h. hl_device_ptr lib (memcpy_to_host lib dst src n h) = hl_device_ptr lib h \<and>
        dev_byte vw (memcpy_to_host lib dst src n h) = dev_byte vw h \<and>
        host_byte vw (memcpy_to_host lib dst src n h) =
          (\<lambda>a. if dst \<le> a \<and> a < dst + unat n then dev_byte vw h (src + (a - dst)) else host_byte vw h a))"

section \<open>Making buffers\<close>

definition make_buffer_core :: "'h heap_lib \<Rightarrow> size_t \<Rightarrow> 'h \<Rightarrow> ptr \<times> 'h" where
  "make_buffer_core lib sz h = hl_allocate lib sz None h"

definition make_buffer_core_user :: "'h heap_lib \<Rightarrow> ptr \<Rightarrow> size_t \<Rightarrow> 'h \<Rightarrow> ptr \<times> 'h" where
  "make_buffer_core_user lib p sz h = hl_register lib (Some p) None sz h"

definition make_buffer_core_device :: "'h heap_lib \<Rightarrow> size_t \<Rightarrow> int \<Rightarrow> 'h \<Rightarrow> ptr \<times> 'h" where
  "make_buffer_core_device lib sz dev h = hl_allocate lib sz (Some dev) h"

definition make_buffer_core_user_device :: "'h heap_lib \<Rightarrow> ptr \<Rightarrow> size_t \<Rightarrow> int \<Rightarrow> 'h \<Rightarrow> ptr \<times> 'h" where
  "make_buffer_core_user_device lib dp sz dev h = hl_register lib None (Some (dp, dev)) sz h"

definition make_buffer_core_user_both :: "'h heap_lib \<Rightarrow> ptr \<Rightarrow> ptr \<Rightarrow> size_t \<Rightarrow> int \<Rightarrow> 'h \<Rightarrow> ptr \<times> 'h" where
  "make_buffer_core_user_both lib p dp sz dev h = hl_register lib (Some p) (Some (dp, dev)) sz h"

text \<open>A buffer of \<open>n\<close> elements over an allocation; the functions differ in how they obtain it.\<close>

definition buffer_of :: "size_t \<Rightarrow> ptr \<times> 'h \<Rightarrow> message_buffer \<times> 'h" where
  "buffer_of n r = (\<lparr>mb_ptr = Some (fst r), mb_heap = Some (fst r), mb_size = n\<rparr>, snd r)"

definition make_buffer :: "'h heap_lib \<Rightarrow> size_t \<Rightarrow> size_t \<Rightarrow> 'h \<Rightarrow> message_buffer \<times> 'h" where
  "make_buffer lib size_T n h = buffer_of n (make_buffer_core lib (n * size_T) h)"

definition make_buffer_user :: "'h heap_lib \<Rightarrow> size_t \<Rightarrow> ptr \<Rightarrow> size_t \<Rightarrow> 'h \<Rightarrow> message_buffer \<times> 'h" where
  "make_buffer_user lib size_T p n h = buffer_of n (make_buffer_core_user lib p (n * size_T) h)"

definition make_device_buffer :: "'h heap_lib \<Rightarrow> size_t \<Rightarrow> size_t \<Rightarrow> int \<Rightarrow> 'h \<Rightarrow> message_buffer \<times> 'h" where
  "make_device_buffer lib size_T n dev h = buffer_of n (make_buffer_core_device lib (n * size_T) dev h)"

definition make_device_buffer_user :: "'h heap_lib \<Rightarrow> size_t \<Rightarrow> ptr \<Rightarrow> size_t \<Rightarrow> int \<Rightarrow> 'h \<Rightarrow> message_buffer \<times> 'h" where
  "make_device_buffer_user lib size_T dp n dev h = buffer_of n (make_buffer_core_user_device lib dp (n * size_T) dev h)"

definition make_device_buffer_both :: "'h heap_lib \<Rightarrow> size_t \<Rightarrow> ptr \<Rightarrow> ptr \<Rightarrow> size_t \<Rightarrow> int \<Rightarrow> 'h \<Rightarrow> message_buffer \<times> 'h" where
  "make_device_buffer_both lib size_T p dp n dev h = buffer_of n (make_buffer_core_user_both lib p dp (n * size_T) dev h)"

section \<open>Elements\<close>

text \<open>\<open>data\<close>, \<open>end\<close> and \<open>operator[]\<close>: addresses of elements.\<close>

definition mb_data :: "message_buffer \<Rightarrow> ptr option" where
  "mb_data m = mb_ptr m"

definition mb_at :: "size_t \<Rightarrow> message_buffer \<Rightarrow> size_t \<Rightarrow> ptr option" where
  "mb_at size_T m i = map_option (\<lambda>a. a + unat i * unat size_T) (mb_data m)"

definition mb_end :: "size_t \<Rightarrow> message_buffer \<Rightarrow> ptr option" where
  "mb_end size_T m = mb_at size_T m (mb_size m)"

text \<open>Conversion to a buffer of another element type.\<close>

definition mb_convert :: "size_t \<Rightarrow> size_t \<Rightarrow> message_buffer \<Rightarrow> message_buffer" where
  "mb_convert size_U size_T m = m\<lparr>mb_size := mb_convert_size (mb_size m) size_U size_T\<rparr>"

section \<open>Device copies\<close>

definition mb_on_device :: "'h heap_lib \<Rightarrow> message_buffer \<Rightarrow> 'h \<Rightarrow> bool result" where
  "mb_on_device lib m h =
     (case mb_heap m of None \<Rightarrow> Inl (Undefined_behaviour ''null heap pointer'') | Some a \<Rightarrow> Inr (hl_on_device lib h a))"

definition mb_device_data :: "'h heap_lib \<Rightarrow> message_buffer \<Rightarrow> 'h \<Rightarrow> ptr result" where
  "mb_device_data lib m h =
     (case mb_heap m of None \<Rightarrow> Inl (Undefined_behaviour ''null heap pointer'') | Some a \<Rightarrow> Inr (hl_device_ptr lib h a))"

definition mb_device_id :: "'h heap_lib \<Rightarrow> message_buffer \<Rightarrow> 'h \<Rightarrow> int result" where
  "mb_device_id lib m h =
     (case mb_heap m of None \<Rightarrow> Inl (Undefined_behaviour ''null heap pointer'') | Some a \<Rightarrow> Inr (hl_device_id lib h a))"

definition clone_to_device :: "'h heap_lib \<Rightarrow> size_t \<Rightarrow> message_buffer \<Rightarrow> 'h \<Rightarrow> 'h result" where
  "clone_to_device lib size_T m h =
     (case mb_ptr m of
        None \<Rightarrow> Inl (Undefined_behaviour ''null buffer'')
      | Some a \<Rightarrow> bind_res (mb_device_data lib m h) (\<lambda>d. Inr (memcpy_to_device lib d a (mb_size m * size_T) h)))"

definition clone_to_host :: "'h heap_lib \<Rightarrow> size_t \<Rightarrow> message_buffer \<Rightarrow> 'h \<Rightarrow> 'h result" where
  "clone_to_host lib size_T m h =
     (case mb_ptr m of
        None \<Rightarrow> Inl (Undefined_behaviour ''null buffer'')
      | Some a \<Rightarrow> bind_res (mb_device_data lib m h) (\<lambda>d. Inr (memcpy_to_host lib a d (mb_size m * size_T) h)))"

section \<open>An example heap\<close>

text \<open>Allocations are at address 100; the device copy of an address is at the same address.\<close>

record ex_heap =
  eh_extent :: "ptr \<Rightarrow> nat"
  eh_host :: "ptr \<Rightarrow> 8 word"
  eh_dev :: "ptr \<Rightarrow> 8 word"

definition ex_heap_lib :: "ex_heap heap_lib" where
  "ex_heap_lib =
     \<lparr>hl_allocate = (\<lambda>n d h. (100, h\<lparr>eh_extent := (eh_extent h)(100 := unat n)\<rparr>)),
      hl_register = (\<lambda>p d n h. (case p of Some a \<Rightarrow> a | None \<Rightarrow> 100, h)),
      hl_on_device = (\<lambda>h a. True), hl_device_ptr = (\<lambda>h a. a), hl_device_id = (\<lambda>h a. 0),
      memcpy_to_device = (\<lambda>dst src n h. h\<lparr>eh_dev := (\<lambda>a. if dst \<le> a \<and> a < dst + unat n then eh_host h (src + (a - dst)) else eh_dev h a)\<rparr>),
      memcpy_to_host = (\<lambda>dst src n h. h\<lparr>eh_host := (\<lambda>a. if dst \<le> a \<and> a < dst + unat n then eh_dev h (src + (a - dst)) else eh_host h a)\<rparr>)\<rparr>"

definition ex_heap_view :: "ex_heap heap_view" where
  "ex_heap_view = \<lparr>extent = eh_extent, host_byte = eh_host, dev_byte = eh_dev\<rparr>"

lemma ex_heap_ok: "heap_ok ex_heap_lib ex_heap_view"
  by (simp add: heap_ok_def ex_heap_lib_def ex_heap_view_def fun_eq_iff)

definition ex_heap0 :: ex_heap where
  "ex_heap0 = \<lparr>eh_extent = (\<lambda>_. 0), eh_host = (\<lambda>a. of_nat a), eh_dev = (\<lambda>_. 0)\<rparr>"

section \<open>Properties\<close>

lemma unat_mult_nowrap: "unat (n :: size_t) * unat s < 2 ^ 64 \<Longrightarrow> unat (n * s) = unat n * unat s"
  by (simp add: unat_word_ariths)

text \<open>C39: all elements of a buffer of \<open>n\<close> elements lie within its allocation exactly if the number of
  bytes does not overflow.  \<open>make_buffer\<close> does not check the product: for a larger \<open>n\<close> it returns a buffer
  that claims \<open>n\<close> elements over a smaller allocation.\<close>

theorem make_buffer_bounds:
  assumes "heap_ok lib vw" "make_buffer lib size_T n h = (m, h')" "0 < size_T"
  shows "mb_size m = n \<and> (\<exists>a. mb_data m = Some a \<and>
    ((\<forall>i < n. \<exists>p. mb_at size_T m i = Some p \<and> p + unat size_T \<le> a + extent vw h' a) \<longleftrightarrow> unat n * unat size_T < 2 ^ 64))"
proof -
  obtain a where a: "hl_allocate lib (n * size_T) None h = (a, h')" "m = \<lparr>mb_ptr = Some a, mb_heap = Some a, mb_size = n\<rparr>"
    using assms(2) by (cases "hl_allocate lib (n * size_T) None h") (auto simp: make_buffer_def make_buffer_core_def buffer_of_def)
  have e: "extent vw h' a = unat (n * size_T)"
    using assms(1) a(1) unfolding heap_ok_def by (metis fst_conv snd_conv)
  have at: "mb_at size_T m i = Some (a + unat i * unat size_T)" for i
    by (simp add: mb_at_def mb_data_def a(2))
  have "(\<forall>i < n. unat i * unat size_T + unat size_T \<le> unat (n * size_T)) \<longleftrightarrow> unat n * unat size_T < 2 ^ 64"
  proof
    assume all: "\<forall>i < n. unat i * unat size_T + unat size_T \<le> unat (n * size_T)"
    show "unat n * unat size_T < 2 ^ 64"
    proof (cases "n = 0")
      case False
      then have k: "unat (n - 1) = unat n - 1" "0 < unat n"
        by (simp_all add: unat_minus_one unat_gt_0)
      then have "n - 1 < n"
        by (simp add: word_less_nat_alt)
      then have "unat (n - 1) * unat size_T + unat size_T \<le> unat (n * size_T)"
        using all by blast
      moreover have "unat (n - 1) * unat size_T + unat size_T = unat n * unat size_T"
        using k by (cases "unat n") simp_all
      ultimately show ?thesis
        using unsigned_less [of "n * size_T", where ?'a = nat] by simp
    qed simp
  next
    assume l: "unat n * unat size_T < 2 ^ 64"
    show "\<forall>i < n. unat i * unat size_T + unat size_T \<le> unat (n * size_T)"
    proof (intro allI impI)
      fix i assume "i < n"
      then have "Suc (unat i) * unat size_T \<le> unat n * unat size_T"
        by (intro mult_le_mono1) (simp add: word_less_nat_alt)
      then show "unat i * unat size_T + unat size_T \<le> unat (n * size_T)"
        using unat_mult_nowrap [OF l] by simp
    qed
  qed
  then have "(\<forall>i < n. \<exists>p. mb_at size_T m i = Some p \<and> p + unat size_T \<le> a + extent vw h' a) \<longleftrightarrow> unat n * unat size_T < 2 ^ 64"
    unfolding at e by (simp add: add.assoc)
  then show ?thesis
    using a(2) by (simp add: mb_data_def)
qed

theorem make_buffer_bounds_witness:
  "mb_size (fst (make_buffer ex_heap_lib 8 0x2000000000000001 ex_heap0)) = 0x2000000000000001 \<and>
   extent ex_heap_view (snd (make_buffer ex_heap_lib 8 0x2000000000000001 ex_heap0)) 100 = 8 \<and>
   (\<exists>i < 0x2000000000000001. \<exists>p. mb_at 8 (fst (make_buffer ex_heap_lib 8 0x2000000000000001 ex_heap0)) i = Some p \<and> 108 < p + 8)"
proof -
  let ?r = "make_buffer ex_heap_lib 8 0x2000000000000001 ex_heap0"
  have r: "?r = (\<lparr>mb_ptr = Some 100, mb_heap = Some 100, mb_size = 0x2000000000000001\<rparr>, ex_heap0\<lparr>eh_extent := (\<lambda>_. 0)(100 := 8)\<rparr>)"
    by (simp add: make_buffer_def make_buffer_core_def buffer_of_def ex_heap_lib_def ex_heap0_def)
  have x: "extent ex_heap_view (ex_heap0\<lparr>eh_extent := (\<lambda>_. 0)(100 := 8)\<rparr>) 100 = 8"
    by (simp add: ex_heap_view_def)
  have "\<exists>i < 0x2000000000000001. \<not> (\<exists>p. mb_at 8 (fst ?r) i = Some p \<and> p + 8 \<le> 108)"
    using make_buffer_bounds [OF ex_heap_ok r] x unfolding r by (auto simp: mb_data_def)
  then show ?thesis
    unfolding r using x by (force simp: mb_at_def mb_data_def)
qed

text \<open>A buffer converted to another element type and back has its old number of elements exactly
  if its bytes are a multiple of the other element size; otherwise elements are lost, never gained, and
  the converted elements lie within the bytes of the buffer.\<close>

theorem convert_roundtrip:
  assumes "0 < size_T" "0 < size_U" "unat (mb_size m) * unat size_T < 2 ^ 64"
  shows "(mb_convert size_U size_T (mb_convert size_T size_U m) = m \<longleftrightarrow> unat size_U dvd unat (mb_size m) * unat size_T) \<and>
    mb_size (mb_convert size_U size_T (mb_convert size_T size_U m)) \<le> mb_size m \<and>
    unat (mb_size (mb_convert size_T size_U m)) * unat size_U \<le> unat (mb_size m) * unat size_T"
proof -
  let ?n = "unat (mb_size m)" and ?t = "unat size_T" and ?u = "unat size_U"
  have pos: "0 < ?t" "0 < ?u"
    using assms(1,2) by (simp_all add: unat_gt_0)
  let ?k = "(?n * ?t) div ?u"
  have c: "unat (mb_size (mb_convert size_T size_U m)) = ?k"
    using unat_mult_nowrap [OF assms(3)] by (simp add: mb_convert_def mb_convert_size_def unat_div)
  have le: "?k * ?u \<le> ?n * ?t"
    by simp
  have "unat (mb_size (mb_convert size_T size_U m)) * ?u < 2 ^ 64"
    unfolding c by (rule le_less_trans [OF le assms(3)])
  from unat_mult_nowrap [OF this] have c': "unat (mb_size (mb_convert size_U size_T (mb_convert size_T size_U m))) = (?k * ?u) div ?t"
    using c by (simp add: mb_convert_def mb_convert_size_def unat_div)
  have l: "(?k * ?u) div ?t \<le> ?n"
    using div_le_mono [OF le, of ?t] pos by simp
  have "(?k * ?u) div ?t = ?n \<longleftrightarrow> ?u dvd ?n * ?t"
  proof
    assume "(?k * ?u) div ?t = ?n"
    then have "?n * ?t \<le> ?k * ?u"
      by (metis div_times_less_eq_dividend)
    then have "?k * ?u = ?n * ?t"
      using le by simp
    then show "?u dvd ?n * ?t"
      by (metis dvd_triv_right)
  qed (use pos in simp)
  moreover have "mb_convert size_U size_T (mb_convert size_T size_U m) = m \<longleftrightarrow> (?k * ?u) div ?t = ?n"
    using c' by (cases m) (auto simp: mb_convert_def word_unat_eq_iff)
  ultimately show ?thesis
    using c c' l le by (simp add: word_le_nat_alt)
qed

theorem convert_roundtrip_witness:
  "mb_convert 8 4 (mb_convert 4 8 \<lparr>mb_ptr = Some 1, mb_heap = Some 1, mb_size = 6\<rparr>) = \<lparr>mb_ptr = Some 1, mb_heap = Some 1, mb_size = 6\<rparr> \<and>
   mb_convert 8 4 (mb_convert 4 8 \<lparr>mb_ptr = Some 1, mb_heap = Some 1, mb_size = 7\<rparr>) \<noteq> \<lparr>mb_ptr = Some 1, mb_heap = Some 1, mb_size = 7\<rparr>"
  using convert_roundtrip [of 4 8 "\<lparr>mb_ptr = Some 1, mb_heap = Some 1, mb_size = 6\<rparr>"]
    convert_roundtrip [of 4 8 "\<lparr>mb_ptr = Some 1, mb_heap = Some 1, mb_size = 7\<rparr>"] by simp

text \<open>Cloning a buffer to the device and later back restores the bytes of all its elements,
  whatever happened to the host memory in between, and changes no other byte of the host.\<close>

theorem clone_roundtrip:
  assumes "heap_ok lib vw" "mb_ptr m = Some a" "mb_heap m = Some a" "unat (mb_size m) * unat size_T < 2 ^ 64"
    "clone_to_device lib size_T m h = Inr h1" "dev_byte vw h2 = dev_byte vw h1" "hl_device_ptr lib h2 = hl_device_ptr lib h1"
  shows "\<exists>h3. clone_to_host lib size_T m h2 = Inr h3 \<and>
    host_byte vw h3 = (\<lambda>x. if a \<le> x \<and> x < a + unat (mb_size m) * unat size_T then host_byte vw h x else host_byte vw h2 x)"
proof -
  let ?d = "hl_device_ptr lib h a"
  have h1: "h1 = memcpy_to_device lib ?d a (mb_size m * size_T) h"
    using assms(2,3,5) by (simp add: clone_to_device_def mb_device_data_def)
  have d: "hl_device_ptr lib h2 a = ?d"
    using assms(1,7) unfolding h1 heap_ok_def by simp
  have db: "dev_byte vw h2 = (\<lambda>x. if ?d \<le> x \<and> x < ?d + unat (mb_size m) * unat size_T then host_byte vw h (a + (x - ?d)) else dev_byte vw h x)"
    using assms(1,6) unat_mult_nowrap [OF assms(4)] unfolding h1 heap_ok_def by simp
  let ?h3 = "memcpy_to_host lib a ?d (mb_size m * size_T) h2"
  have "clone_to_host lib size_T m h2 = Inr ?h3"
    using assms(2,3) d by (simp add: clone_to_host_def mb_device_data_def)
  moreover have "host_byte vw ?h3 = (\<lambda>x. if a \<le> x \<and> x < a + unat (mb_size m) * unat size_T then dev_byte vw h2 (?d + (x - a)) else host_byte vw h2 x)"
    using assms(1) unat_mult_nowrap [OF assms(4)] unfolding heap_ok_def by simp
  ultimately show ?thesis
    unfolding db by (auto simp: fun_eq_iff)
qed

theorem clone_roundtrip_witness:
  "\<exists>h3. clone_to_host ex_heap_lib 4 \<lparr>mb_ptr = Some 100, mb_heap = Some 100, mb_size = 3\<rparr>
     (ex_heap0\<lparr>eh_dev := (\<lambda>a. if 100 \<le> a \<and> a < 112 then of_nat a else 0), eh_host := (\<lambda>_. 0)\<rparr>) = Inr h3 \<and> eh_host h3 104 = 104 \<and> eh_host h3 112 = 0"
proof -
  let ?m = "\<lparr>mb_ptr = Some 100, mb_heap = Some 100, mb_size = 3\<rparr>"
  let ?h1 = "ex_heap0\<lparr>eh_dev := (\<lambda>a. if 100 \<le> a \<and> a < 112 then of_nat a else 0)\<rparr>"
  let ?h2 = "?h1\<lparr>eh_host := (\<lambda>_. 0)\<rparr>"
  have c: "clone_to_device ex_heap_lib 4 ?m ex_heap0 = Inr ?h1"
    by (simp add: clone_to_device_def mb_device_data_def ex_heap_lib_def ex_heap0_def fun_eq_iff)
  have "dev_byte ex_heap_view ?h2 = dev_byte ex_heap_view ?h1" "hl_device_ptr ex_heap_lib ?h2 = hl_device_ptr ex_heap_lib ?h1"
    by (simp_all add: ex_heap_view_def ex_heap_lib_def)
  from clone_roundtrip [OF ex_heap_ok _ _ _ c this, of 100] show ?thesis
    by (auto simp: ex_heap_view_def ex_heap0_def fun_eq_iff)
qed

end
