(* ===== verification/Lf_Memory.thy ===== *)
theory Lf_Memory
  imports Oomph_Prelude
begin

text \<open>
  Registered memory of the libfabric transport (\<open>libfabric/memory_region.hpp\<close>).  A memory segment owns a
  registration with the fabric; handles point into it and own nothing.  Segments live in variables, so
  that moves between them can be followed.  The calls of libfabric are fields of a record.
\<close>

unbundle bit_operations_syntax

section \<open>Libfabric\<close>

text \<open>The attributes of a registration.\<close>

datatype hmem_iface = FI_HMEM_SYSTEM | FI_HMEM_CUDA

record mr_attr =
  mr_base :: ptr
  mr_len :: size_t
  mr_access :: "64 word"
  mr_offset :: "64 word"
  mr_requested_key :: "64 word"
  mr_iface :: hmem_iface
  mr_device :: int

record 'f mr_lib =
  fi_mr_regattr :: "mr_attr \<Rightarrow> 'f \<Rightarrow> (int \<times> nat) \<times> 'f"
  fi_mr_bind :: "nat \<Rightarrow> nat \<Rightarrow> 'f \<Rightarrow> int \<times> 'f"
  fi_mr_enable :: "nat \<Rightarrow> 'f \<Rightarrow> int \<times> 'f"
  fi_close_mr :: "nat \<Rightarrow> 'f \<Rightarrow> int \<times> 'f"

section \<open>Handles and segments\<close>

record memory_handle =
  mh_address :: "ptr option"
  mh_region :: "nat option"
  mh_size :: "32 word"
  mh_used_space :: "32 word"

record memory_segment = memory_handle +
  ms_base_addr :: "ptr option"

definition mh_null :: memory_handle where
  "mh_null = \<lparr>mh_address = None, mh_region = None, mh_size = 0, mh_used_space = 0\<rparr>"

text \<open>The constructor from a region: the size is narrowed to 32 bits.\<close>

definition mh_ctor :: "nat option \<Rightarrow> ptr option \<Rightarrow> size_t \<Rightarrow> memory_handle" where
  "mh_ctor region addr sz = \<lparr>mh_address = addr, mh_region = region, mh_size = ucast sz, mh_used_space = 0\<rparr>"

text \<open>Moves: the pair of the new value and what is left of the other.\<close>

definition mh_move_ctor :: "('z) memory_handle_scheme \<Rightarrow> memory_handle \<times> 'z memory_handle_scheme" where
  "mh_move_ctor h =
     (\<lparr>mh_address = mh_address h, mh_region = mh_region h, mh_size = mh_size h, mh_used_space = mh_used_space h\<rparr>,
      h\<lparr>mh_region := None\<rparr>)"

definition mh_move_assign :: "'z memory_handle_scheme \<Rightarrow> 'z memory_handle_scheme \<Rightarrow> 'z memory_handle_scheme \<times> 'z memory_handle_scheme" where
  "mh_move_assign this other =
     (this\<lparr>mh_address := mh_address other, mh_region := mh_region other, mh_size := mh_size other, mh_used_space := mh_used_space other\<rparr>,
      other\<lparr>mh_region := None\<rparr>)"

definition set_message_length :: "32 word \<Rightarrow> 'z memory_handle_scheme \<Rightarrow> 'z memory_handle_scheme" where
  "set_message_length n h = h\<lparr>mh_used_space := n\<rparr>"

definition release_region :: "'z memory_handle_scheme \<Rightarrow> 'z memory_handle_scheme" where
  "release_region h = h\<lparr>mh_region := None\<rparr>"

text \<open>Deregistration; the result is 0 or -1.\<close>

definition deregister :: "'f mr_lib \<Rightarrow> 'z memory_handle_scheme \<Rightarrow> 'f \<Rightarrow> int \<times> 'z memory_handle_scheme \<times> 'f" where
  "deregister lib h f =
     (case mh_region h of
        None \<Rightarrow> (0, h, f)
      | Some r \<Rightarrow>
          (case fi_close_mr lib r f of (ret, f) \<Rightarrow>
             if ret \<noteq> 0 then (-1, h, f) else (0, h\<lparr>mh_region := None\<rparr>, f)))"

section \<open>Registration\<close>

definition mr_access_flags :: "64 word" where
  "mr_access_flags = 0x100 OR 0x200 OR 0x400 OR 0x800"

definition fi_register_memory ::
    "'f mr_lib \<Rightarrow> int \<Rightarrow> int \<Rightarrow> ptr \<Rightarrow> size_t \<Rightarrow> 64 word \<Rightarrow> 64 word \<Rightarrow> 64 word \<Rightarrow> 'f \<Rightarrow> (nat \<times> 'f) result" where
  "fi_register_memory lib current_device device_id buf len flags offs key f =
     (let attr = \<lparr>mr_base = buf, mr_len = len, mr_access = flags, mr_offset = offs, mr_requested_key = key,
                  mr_iface = (if 0 \<le> device_id then FI_HMEM_CUDA else FI_HMEM_SYSTEM),
                  mr_device = (if 0 \<le> device_id then current_device else 0)\<rparr> in
      case fi_mr_regattr lib attr f of ((ret, mr), f) \<Rightarrow>
        if ret \<noteq> 0 then Inl (Terminate ''register_memory'') else Inr (mr, f))"

text \<open>The state: segments in variables, the fabric, and the counter of keys.\<close>

record 'f mr_state =
  segs :: "nat \<Rightarrow> memory_segment option"
  mr_key :: "64 word"
  mr_fab :: 'f

text \<open>Construction by registration.  \<open>bnd\<close> is the endpoint to bind to, if any.\<close>

definition ms_ctor ::
    "'f mr_lib \<Rightarrow> int \<Rightarrow> nat \<Rightarrow> ptr \<Rightarrow> size_t \<Rightarrow> nat option \<Rightarrow> int \<Rightarrow> 'f mr_state \<Rightarrow> 'f mr_state result" where
  "ms_ctor lib current_device i buf len bnd device_id s =
     bind_res (fi_register_memory lib current_device device_id buf len mr_access_flags 0 (mr_key s) (mr_fab s)) (\<lambda>(mr, f).
     let seg = \<lparr>mh_address = Some buf, mh_region = Some mr, mh_size = ucast len, mh_used_space = ucast len, ms_base_addr = Some buf\<rparr>;
         done = (\<lambda>f. Inr (s\<lparr>segs := (segs s)(i \<mapsto> seg), mr_key := mr_key s + 1, mr_fab := f\<rparr>)) in
     case bnd of
       None \<Rightarrow> done f
     | Some ep \<Rightarrow>
         (case fi_mr_bind lib mr ep f of (ret, f) \<Rightarrow>
            if ret \<noteq> 0 then Inl (Terminate ''fi_mr_bind'')
            else case fi_mr_enable lib mr f of (ret, f) \<Rightarrow>
              if ret \<noteq> 0 then Inl (Terminate ''fi_mr_enable'') else done f))"

definition ms_move_ctor :: "nat \<Rightarrow> nat \<Rightarrow> 'f mr_state \<Rightarrow> 'f mr_state result" where
  "ms_move_ctor i j s =
     (case segs s j of
        None \<Rightarrow> Inl (Undefined_behaviour ''no such segment'')
      | Some h \<Rightarrow>
          (case mh_move_ctor h of (n, h') \<Rightarrow>
             Inr (s\<lparr>segs := (segs s)
               (j \<mapsto> h'\<lparr>ms_base_addr := None\<rparr>, i \<mapsto> memory_handle.extend n (memory_segment.fields (ms_base_addr h)))\<rparr>)))"

text \<open>The move assignment: a temporary handle is made from the other segment by the move constructor of
  the base, and dropped; then the region of the other segment is taken.\<close>

definition ms_move_assign :: "nat \<Rightarrow> nat \<Rightarrow> 'f mr_state \<Rightarrow> 'f mr_state result" where
  "ms_move_assign i j s =
     (case (segs s i, segs s j) of
        (Some this, Some other) \<Rightarrow>
          (let other1 = snd (mh_move_ctor other);
               s1 = s\<lparr>segs := (segs s)(j \<mapsto> other1)\<rparr>;
               this1 = (the (segs s1 i))\<lparr>mh_region := mh_region other1\<rparr>;
               s2 = s1\<lparr>segs := (segs s1)(i \<mapsto> this1)\<rparr> in
           Inr (s2\<lparr>segs := (segs s2)(j \<mapsto> (the (segs s2 j))\<lparr>mh_region := None\<rparr>)\<rparr>))
      | _ \<Rightarrow> Inl (Undefined_behaviour ''no such segment''))"

definition ms_dtor :: "'f mr_lib \<Rightarrow> nat \<Rightarrow> 'f mr_state \<Rightarrow> 'f mr_state result" where
  "ms_dtor lib i s =
     (case segs s i of
        None \<Rightarrow> Inl (Undefined_behaviour ''no such segment'')
      | Some h \<Rightarrow> (case deregister lib h (mr_fab s) of (_, _, f) \<Rightarrow> Inr (s\<lparr>segs := (segs s)(i := None), mr_fab := f\<rparr>)))"

definition ms_get_handle :: "size_t \<Rightarrow> size_t \<Rightarrow> memory_segment \<Rightarrow> memory_handle" where
  "ms_get_handle offs sz m = mh_ctor (mh_region m) (map_option (\<lambda>a. a + unat offs) (ms_base_addr m)) sz"

section \<open>Ownership\<close>

text \<open>What is relied on of libfabric: \<open>reg\<close> are the open registrations.  A registration is new, binding
  and enabling change nothing, closing an open one succeeds.\<close>

definition mr_ok :: "'f mr_lib \<Rightarrow> ('f \<Rightarrow> nat \<Rightarrow> bool) \<Rightarrow> bool" where
  "mr_ok lib reg \<longleftrightarrow>
     (\<forall>a f ret mr f'. fi_mr_regattr lib a f = ((ret, mr), f') \<longrightarrow>
        (if ret = 0 then \<not> reg f mr \<and> reg f' = (reg f)(mr := True) else reg f' = reg f)) \<and>
     (\<forall>mr ep f. reg (snd (fi_mr_bind lib mr ep f)) = reg f) \<and>
     (\<forall>mr f. reg (snd (fi_mr_enable lib mr f)) = reg f) \<and>
     (\<forall>mr f. reg f mr \<longrightarrow> fst (fi_close_mr lib mr f) = 0 \<and> reg (snd (fi_close_mr lib mr f)) = (reg f)(mr := False))"

definition seg_owns :: "'f mr_state \<Rightarrow> nat \<Rightarrow> nat option" where
  "seg_owns s i = (case segs s i of None \<Rightarrow> None | Some h \<Rightarrow> mh_region h)"

definition mr_inv :: "('f \<Rightarrow> nat \<Rightarrow> bool) \<Rightarrow> 'f mr_state \<Rightarrow> bool" where
  "mr_inv reg s \<longleftrightarrow> uniquely (seg_owns s) (reg (mr_fab s))"

lemma ms_ctor_inv:
  assumes inv: "mr_inv reg s" and ok: "mr_ok lib reg" and i: "segs s i = None"
    and v: "ms_ctor lib cd i buf len bnd dev s = Inr v"
  shows "mr_inv reg v"
proof -
  obtain mr f where r: "fi_register_memory lib cd dev buf len mr_access_flags 0 (mr_key s) (mr_fab s) = Inr (mr, f)"
    using v by (auto simp: ms_ctor_def bind_res_eq_Inr)
  have f: "\<not> reg (mr_fab s) mr" "reg f = (reg (mr_fab s))(mr := True)"
    using r ok unfolding fi_register_memory_def mr_ok_def
    by (auto simp: Let_def split: prod.splits if_splits)
  have own: "seg_owns v = (seg_owns s)(i := Some mr)" "reg (mr_fab v) = reg f"
    using v r ok unfolding mr_ok_def
    by (auto simp: ms_ctor_def seg_owns_def Let_def split: option.splits prod.splits if_splits) (metis snd_conv)+
  moreover have "seg_owns s i = None"
    using i by (simp add: seg_owns_def)
  ultimately show ?thesis
    using uniquely_take [of "seg_owns s" "reg (mr_fab s)" i mr] inv f by (simp add: mr_inv_def)
qed

lemma ms_move_ctor_inv:
  assumes inv: "mr_inv reg s" and i: "segs s i = None" and v: "ms_move_ctor i j s = Inr v"
  shows "mr_inv reg v"
proof -
  obtain h where h: "segs s j = Some h"
    using v by (auto simp: ms_move_ctor_def split: option.splits)
  have "i \<noteq> j" "seg_owns s i = None"
    using i h by (auto simp: seg_owns_def)
  moreover have "seg_owns v = (seg_owns s)(j := None, i := seg_owns s j)" "mr_fab v = mr_fab s"
    using v h \<open>i \<noteq> j\<close>
    by (auto simp: ms_move_ctor_def mh_move_ctor_def seg_owns_def memory_handle.extend_def memory_segment.fields_def)
  ultimately show ?thesis
    using uniquely_move [of "seg_owns s" "reg (mr_fab s)" i j] inv by (simp add: mr_inv_def)
qed

lemma ms_dtor_inv:
  assumes inv: "mr_inv reg s" and ok: "mr_ok lib reg" and i: "segs s i = Some h"
  shows "\<exists>v. ms_dtor lib i s = Inr v \<and> mr_inv reg v \<and> (\<forall>r. mh_region h = Some r \<longrightarrow> \<not> reg (mr_fab v) r)"
proof -
  obtain ret h' f where d: "deregister lib h (mr_fab s) = (ret, h', f)"
    by (metis prod.collapse)
  let ?v = "s\<lparr>segs := (segs s)(i := None), mr_fab := f\<rparr>"
  have f: "reg f = (\<lambda>a. reg (mr_fab s) a \<and> seg_owns s i \<noteq> Some a)"
  proof (cases "mh_region h")
    case None
    then show ?thesis
      using d i by (simp add: deregister_def seg_owns_def)
  next
    case (Some r)
    then have "reg (mr_fab s) r"
      using uniquely_live [of "seg_owns s" "reg (mr_fab s)" i r] inv i by (simp add: mr_inv_def seg_owns_def)
    then have "fst (fi_close_mr lib r (mr_fab s)) = 0" "reg (snd (fi_close_mr lib r (mr_fab s))) = (reg (mr_fab s))(r := False)"
      using ok unfolding mr_ok_def by blast+
    then have "reg f = (reg (mr_fab s))(r := False)"
      using d Some by (simp add: deregister_def split: prod.splits)
    then show ?thesis
      using Some i by (auto simp: seg_owns_def fun_eq_iff)
  qed
  have "seg_owns ?v = (seg_owns s)(i := None)"
    by (auto simp: seg_owns_def)
  then have "mr_inv reg ?v"
    using uniquely_drop [of "seg_owns s" "reg (mr_fab s)" i] inv f by (simp add: mr_inv_def)
  moreover have "ms_dtor lib i s = Inr ?v"
    using d i by (simp add: ms_dtor_def)
  ultimately show ?thesis
    using f i by (auto simp: seg_owns_def)
qed

section \<open>Properties\<close>

text \<open>Programs over segments that do not use the move assignment.\<close>

inductive mr_step :: "'f mr_lib \<Rightarrow> 'f mr_state \<Rightarrow> 'f mr_state \<Rightarrow> bool" for lib where
  mr_make: "segs s i = None \<Longrightarrow> ms_ctor lib cd i buf len bnd dev s = Inr v \<Longrightarrow> mr_step lib s v"
| mr_move: "segs s i = None \<Longrightarrow> ms_move_ctor i j s = Inr v \<Longrightarrow> mr_step lib s v"
| mr_drop: "ms_dtor lib i s = Inr v \<Longrightarrow> mr_step lib s v"

lemma mr_runs:
  assumes "(mr_step lib)\<^sup>*\<^sup>* s v" "mr_inv reg s" "mr_ok lib reg"
  shows "mr_inv reg v"
  using assms(1,2)
proof (induction rule: rtranclp_induct)
  case (step u v)
  have i: "mr_inv reg u"
    using step by blast
  show ?case
    using step.hyps(2)
  proof cases
    case (mr_make j cd buf len bnd dev)
    then show ?thesis
      using ms_ctor_inv [OF i assms(3)] by blast
  next
    case (mr_move j k)
    then show ?thesis
      using ms_move_ctor_inv [OF i] by blast
  next
    case (mr_drop j)
    then obtain h where "segs u j = Some h"
      by (auto simp: ms_dtor_def split: option.splits)
    then show ?thesis
      using ms_dtor_inv [OF i assms(3)] mr_drop by force
  qed
qed

text \<open>An example fabric: the open registrations are a list of numbers.\<close>

definition ex_mr :: "(nat set \<times> nat) mr_lib" where
  "ex_mr =
     \<lparr>fi_mr_regattr = (\<lambda>a (S, n). if n \<in> S then ((-1, 0), (S, n)) else ((0, n), (insert n S, n + 1))),
      fi_mr_bind = (\<lambda>mr ep f. (0, f)), fi_mr_enable = (\<lambda>mr f. (0, f)), fi_close_mr = (\<lambda>mr (S, n). (0, (S - {mr}, n)))\<rparr>"

lemma ex_mr_ok: "mr_ok ex_mr (\<lambda>f r. r \<in> fst f)"
  by (auto simp: mr_ok_def ex_mr_def fun_eq_iff split: if_splits)

definition ex_mr0 :: "(nat set \<times> nat) mr_state" where
  "ex_mr0 = \<lparr>segs = (\<lambda>_. None), mr_key = 0, mr_fab = ({}, 0)\<rparr>"

definition ex_seg :: "ptr \<Rightarrow> nat \<Rightarrow> memory_segment" where
  "ex_seg a r = \<lparr>mh_address = Some a, mh_region = Some r, mh_size = 64, mh_used_space = 64, ms_base_addr = Some a\<rparr>"

text \<open>Two segments, in the variables 0 and 1.\<close>

definition ex_mr2 :: "(nat set \<times> nat) mr_state" where
  "ex_mr2 = \<lparr>segs = (\<lambda>_. None)(0 \<mapsto> ex_seg 100 0, 1 \<mapsto> ex_seg 200 1), mr_key = 2, mr_fab = ({0, 1}, 2)\<rparr>"

lemma ex_mr2_run: "(mr_step ex_mr)\<^sup>*\<^sup>* ex_mr0 ex_mr2"
proof -
  let ?s1 = "\<lparr>segs = (\<lambda>_. None)(0 \<mapsto> ex_seg 100 0), mr_key = 1, mr_fab = ({0}, 1)\<rparr>"
  have "mr_step ex_mr ex_mr0 ?s1"
    by (rule mr_make [where i = 0 and buf = 100 and len = 64 and bnd = None and dev = "-1" and cd = 0])
      (simp_all add: ex_mr0_def ms_ctor_def fi_register_memory_def ex_mr_def ex_seg_def)
  moreover have "mr_step ex_mr ?s1 ex_mr2"
    by (rule mr_make [where i = 1 and buf = 200 and len = 64 and bnd = None and dev = "-1" and cd = 0])
      (auto simp: ex_mr2_def ms_ctor_def fi_register_memory_def ex_mr_def ex_seg_def)
  ultimately show ?thesis
    by (meson converse_rtranclp_into_rtranclp r_into_rtranclp)
qed

lemma ex_mr0_inv: "mr_inv (\<lambda>f r. r \<in> fst f) ex_mr0"
  by (simp add: mr_inv_def uniquely_def seg_owns_def ex_mr0_def)

text \<open>As long as segments are made, moved into new segments and destroyed, every open registration
  belongs to exactly one segment, and destroying that segment closes it.  The move assignment breaks
  this: it loses the registrations of both segments.  Afterwards neither owns a region, both
  registrations are open, and no destructor will ever close them.\<close>

theorem segment_registrations:
  assumes "(mr_step lib)\<^sup>*\<^sup>* s v" "mr_inv reg s" "mr_ok lib reg"
  shows "(\<forall>r. reg (mr_fab v) r \<longrightarrow> (\<exists>!i. seg_owns v i = Some r)) \<and>
    (\<forall>i r. seg_owns v i = Some r \<longrightarrow> (\<exists>u. ms_dtor lib i v = Inr u \<and> \<not> reg (mr_fab u) r)) \<and>
    (\<forall>i j a b. i \<noteq> j \<longrightarrow> seg_owns v i = Some a \<longrightarrow> seg_owns v j = Some b \<longrightarrow>
       (\<exists>u. ms_move_assign i j v = Inr u \<and> reg (mr_fab u) a \<and> reg (mr_fab u) b \<and>
          (\<forall>k. seg_owns u k \<noteq> Some a \<and> seg_owns u k \<noteq> Some b)))"
proof -
  have inv: "mr_inv reg v"
    by (rule mr_runs [OF assms])
  note uq = inv [unfolded mr_inv_def]
  have "\<exists>u. ms_dtor lib i v = Inr u \<and> \<not> reg (mr_fab u) r" if own: "seg_owns v i = Some r" for i r
  proof -
    obtain h where "segs v i = Some h" "mh_region h = Some r"
      using own by (auto simp: seg_owns_def split: option.splits)
    then show ?thesis
      using ms_dtor_inv [OF inv assms(3)] by blast
  qed
  moreover have "\<exists>u. ms_move_assign i j v = Inr u \<and> reg (mr_fab u) a \<and> reg (mr_fab u) b \<and>
      (\<forall>k. seg_owns u k \<noteq> Some a \<and> seg_owns u k \<noteq> Some b)"
    if ij: "i \<noteq> j" and a: "seg_owns v i = Some a" and b: "seg_owns v j = Some b" for i j a b
  proof -
    obtain g h where g: "segs v i = Some g" "segs v j = Some h"
      using a b by (auto simp: seg_owns_def split: option.splits)
    let ?u = "v\<lparr>segs := (segs v)(j \<mapsto> h\<lparr>mh_region := None\<rparr>, i \<mapsto> g\<lparr>mh_region := None\<rparr>)\<rparr>"
    have "ms_move_assign i j v = Inr ?u"
      using ij g by (simp add: ms_move_assign_def mh_move_ctor_def Let_def fun_upd_twist)
    moreover have "seg_owns ?u = (seg_owns v)(j := None, i := None)"
      using ij by (auto simp: seg_owns_def)
    moreover have "k = i" if "seg_owns v k = Some a" for k
      using uniquely_holder [OF uq] uniquely_live [OF uq a] a that by blast
    moreover have "k = j" if "seg_owns v k = Some b" for k
      using uniquely_holder [OF uq] uniquely_live [OF uq b] b that by blast
    ultimately show ?thesis
      using uniquely_live [OF uq a] uniquely_live [OF uq b] by (intro exI [of _ ?u]) auto
  qed
  moreover have "\<exists>!i. seg_owns v i = Some r" if "reg (mr_fab v) r" for r
    by (rule uniquely_holder [OF uq that])
  ultimately show ?thesis
    by blast
qed

theorem segment_registrations_witness:
  "\<exists>u. ms_move_assign 0 1 ex_mr2 = Inr u \<and> fst (mr_fab u) = {0, 1} \<and> seg_owns u 0 \<noteq> Some 0 \<and> seg_owns u 1 \<noteq> Some 1"
proof -
  have "seg_owns ex_mr2 0 = Some 0" "seg_owns ex_mr2 1 = Some 1"
    by (simp_all add: seg_owns_def ex_mr2_def ex_seg_def)
  then obtain u where u: "ms_move_assign 0 1 ex_mr2 = Inr u" "seg_owns u 0 \<noteq> Some 0" "seg_owns u 1 \<noteq> Some 1"
    using segment_registrations [OF ex_mr2_run ex_mr0_inv ex_mr_ok] by (metis zero_neq_one)
  then have "fst (mr_fab u) = {0, 1}"
    by (auto simp: ms_move_assign_def ex_mr2_def Let_def)
  then show ?thesis
    using u by blast
qed

end
