(* ===== verification/Lf_Start.thy ===== *)
theory Lf_Start
  imports Oomph_Prelude
begin

text \<open>
  Settings and addresses of the libfabric transport: the variables of the environment
  (\<open>libfabric/controller_base.hpp\<close>), localities (\<open>libfabric/locality.hpp\<close>), and the exchange of the addresses of
  all ranks, which fills the address vector (\<open>libfabric/controller.hpp\<close>).  The constructor of
  \<open>fabric_error\<close> calls \<open>std::terminate\<close>, so that where the code makes one, thrown or not, the outcome
  here is termination.
\<close>

section \<open>Numbers in strings\<close>

text \<open>\<open>std::atoi\<close> and \<open>std::strtoul\<close> with base 0: leading white space, a sign, and the digits that follow.  A
  value of \<open>atoi\<close> that is not an \<open>int\<close> is undefined; \<open>strtoul\<close> gives the largest number.\<close>

definition is_space :: "char \<Rightarrow> bool" where
  "is_space c \<longleftrightarrow> (let n = of_char c :: nat in n = 32 \<or> 9 \<le> n \<and> n \<le> 13)"

definition digit_val :: "char \<Rightarrow> nat option" where
  "digit_val c =
     (let n = of_char c :: nat in
      if 48 \<le> n \<and> n \<le> 57 then Some (n - 48)
      else if 97 \<le> n \<and> n \<le> 122 then Some (n - 87)
      else if 65 \<le> n \<and> n \<le> 90 then Some (n - 55)
      else None)"

fun read_digits :: "nat \<Rightarrow> nat \<Rightarrow> string \<Rightarrow> nat" where
  "read_digits base acc [] = acc"
| "read_digits base acc (c # cs) =
     (case digit_val c of
        Some d \<Rightarrow> if d < base then read_digits base (acc * base + d) cs else acc
      | None \<Rightarrow> acc)"

definition read_sign :: "string \<Rightarrow> bool \<times> string" where
  "read_sign s =
     (case s of
        c # cs \<Rightarrow> if c = CHR ''-'' then (True, cs) else if c = CHR ''+'' then (False, cs) else (False, s)
      | [] \<Rightarrow> (False, s))"

definition number_of :: "string \<Rightarrow> int" where
  "number_of s =
     (case read_sign (dropWhile is_space s) of (neg, ds) \<Rightarrow>
        if neg then - int (read_digits 10 0 ds) else int (read_digits 10 0 ds))"

definition atoi :: "string \<Rightarrow> int result" where
  "atoi s =
     (if - (2 ^ 31) \<le> number_of s \<and> number_of s < 2 ^ 31 then Inr (number_of s)
      else Inl (Undefined_behaviour ''atoi''))"

definition has_hex_prefix :: "string \<Rightarrow> bool" where
  "has_hex_prefix s \<longleftrightarrow>
     (case s of
        a # b # c # _ \<Rightarrow> a = CHR ''0'' \<and> (b = CHR ''x'' \<or> b = CHR ''X'') \<and> (case digit_val c of Some d \<Rightarrow> d < 16 | None \<Rightarrow> False)
      | _ \<Rightarrow> False)"

definition strtoul :: "string \<Rightarrow> 64 word" where
  "strtoul s =
     (case read_sign (dropWhile is_space s) of (neg, ds) \<Rightarrow>
        let n = (if has_hex_prefix ds then read_digits 16 0 (drop 2 ds)
                 else if ds \<noteq> [] \<and> hd ds = CHR ''0'' then read_digits 8 0 ds
                 else read_digits 10 0 ds) in
        if 2 ^ 64 \<le> n then - 1 else if neg then - of_nat n else of_nat n)"

section \<open>Settings\<close>

datatype fi_progress = FI_PROGRESS_AUTO | FI_PROGRESS_MANUAL

datatype endpoint_type = Single | Multiple | ThreadlocalTx | ScalableTx | ScalableTxRx

type_synonym environment = "string \<Rightarrow> string option"

definition libfabric_progress_type :: "environment \<Rightarrow> fi_progress" where
  "libfabric_progress_type env = (if env ''LIBFABRIC_AUTO_PROGRESS'' = None then FI_PROGRESS_MANUAL else FI_PROGRESS_AUTO)"

definition libfabric_progress_string :: "environment \<Rightarrow> string" where
  "libfabric_progress_string env = (if libfabric_progress_type env = FI_PROGRESS_AUTO then ''auto'' else ''manual'')"

fun endpoint_number :: "endpoint_type \<Rightarrow> int" where
  "endpoint_number Single = 0"
| "endpoint_number Multiple = 1"
| "endpoint_number ThreadlocalTx = 2"
| "endpoint_number ScalableTx = 3"
| "endpoint_number ScalableTxRx = 4"

fun endpoint_name :: "endpoint_type \<Rightarrow> string" where
  "endpoint_name Single = ''single''"
| "endpoint_name Multiple = ''multiple''"
| "endpoint_name ThreadlocalTx = ''threadlocal''"
| "endpoint_name ScalableTx = ''scalableTx''"
| "endpoint_name ScalableTxRx = ''scalableTxRx''"

text \<open>The types are tried in the order of the code; \<open>atoi\<close> is called only if the name differs.\<close>

fun pick_endpoint :: "string \<Rightarrow> endpoint_type list \<Rightarrow> endpoint_type result" where
  "pick_endpoint s [] = Inr Single"
| "pick_endpoint s (t # ts) =
     (if s = endpoint_name t then Inr t
      else bind_res (atoi s) (\<lambda>v. if v = endpoint_number t then Inr t else pick_endpoint s ts))"

definition libfabric_endpoint_type :: "environment \<Rightarrow> endpoint_type result" where
  "libfabric_endpoint_type env =
     (case env ''LIBFABRIC_ENDPOINT_TYPE'' of
        None \<Rightarrow> Inr Single
      | Some s \<Rightarrow> pick_endpoint s [Multiple, ThreadlocalTx, ScalableTx, ScalableTxRx])"

definition libfabric_endpoint_string :: "environment \<Rightarrow> string result" where
  "libfabric_endpoint_string env = bind_res (libfabric_endpoint_type env) (\<lambda>t. Inr (endpoint_name t))"

definition libfabric_completions_per_poll :: "environment \<Rightarrow> int result" where
  "libfabric_completions_per_poll env = (case env ''LIBFABRIC_POLL_SIZE'' of None \<Rightarrow> Inr 4 | Some s \<Rightarrow> atoi s)"

definition libfabric_rendezvous_threshold :: "environment \<Rightarrow> 32 word \<Rightarrow> 32 word" where
  "libfabric_rendezvous_threshold env def_val =
     (case env ''LIBFABRIC_RENDEZVOUS_THRESHOLD'' of None \<Rightarrow> def_val | Some s \<Rightarrow> ucast (strtoul s))"

text \<open>The first part of \<open>initialize\<close>: \<open>max_completions_per_poll_\<close>, \<open>msg_rendezvous_threshold_\<close> and
  \<open>endpoint_type_\<close>.\<close>

definition lf_settings :: "environment \<Rightarrow> nat \<Rightarrow> (32 word \<times> 32 word \<times> endpoint_type) result" where
  "lf_settings env threads =
     bind_res (libfabric_completions_per_poll env) (\<lambda>n.
     let threshold = libfabric_rendezvous_threshold env (if threads = 1 then 0x400 else 0x4000) in
     bind_res (libfabric_endpoint_type env) (\<lambda>t. Inr (word_of_int n, threshold, t)))"

text \<open>Every endpoint type can be chosen by its name and is reported by it.\<close>

lemma endpoint_type_roundtrip:
  assumes "env ''LIBFABRIC_ENDPOINT_TYPE'' = Some (endpoint_name t)"
  shows "libfabric_endpoint_type env = Inr t \<and> libfabric_endpoint_string env = Inr (endpoint_name t)"
proof -
  have a: "atoi (endpoint_name u) = Inr 0" for u
    by (cases u) (simp_all add: atoi_def number_of_def read_sign_def is_space_def digit_val_def Let_def)
  have "pick_endpoint (endpoint_name t) [Multiple, ThreadlocalTx, ScalableTx, ScalableTxRx] = Inr t"
    using a [of t] by (cases t) simp_all
  with assms show ?thesis
    by (simp add: libfabric_endpoint_type_def libfabric_endpoint_string_def)
qed

text \<open>The poll size is usable, that is positive and within the array of 256 entries the completions are
  read into, exactly if the variable is not set or is a number from 1 to 256.  Any text that is not a
  number gives 0, and a negative number a size beyond the array.\<close>

lemma poll_size_setting:
  assumes "lf_settings env threads = Inr (n, threshold, t)"
  shows "0 < n \<and> n \<le> 256 \<longleftrightarrow>
    (case env ''LIBFABRIC_POLL_SIZE'' of None \<Rightarrow> True | Some s \<Rightarrow> 1 \<le> number_of s \<and> number_of s \<le> 256)"
proof (cases "env ''LIBFABRIC_POLL_SIZE''")
  case None
  then show ?thesis
    using assms by (auto simp: lf_settings_def libfabric_completions_per_poll_def bind_res_eq_Inr Let_def)
next
  case (Some s)
  define v where "v = number_of s"
  have v: "- (2 ^ 31) \<le> v" "v < 2 ^ 31" "n = word_of_int v"
    using assms Some by (auto simp: lf_settings_def libfabric_completions_per_poll_def atoi_def bind_res_eq_Inr Let_def v_def split: if_splits)
  have "uint n = v mod 2 ^ 32"
    using v(3) by (simp add: uint_word_of_int)
  also have "v mod 2 ^ 32 = (if 0 \<le> v then v else v + 2 ^ 32)"
  proof (cases "0 \<le> v")
    case False
    then have "(v + 2 ^ 32) mod 2 ^ 32 = v + 2 ^ 32"
      by (intro mod_pos_pos_trivial) (use v in simp_all)
    with False show ?thesis
      by (simp only: mod_add_self2 if_False)
  qed (use v in simp)
  finally have "uint n = (if 0 \<le> v then v else v + 2 ^ 32)" .
  then show ?thesis
    using v Some by (auto simp: word_less_def word_le_def v_def [symmetric])
qed

section \<open>Localities\<close>

text \<open>The address of an endpoint as libfabric gives it, byte by byte, and its index in the address vector.\<close>

record locality =
  loc_data :: "8 word list"
  fi_address :: "64 word"

text \<open>\<open>sz\<close> is \<open>locality_defs::array_size\<close>, a setting of the build.\<close>

definition loc_default :: "nat \<Rightarrow> locality" where
  "loc_default sz = \<lparr>loc_data = replicate sz 0, fi_address = 0\<rparr>"

definition loc_of_data :: "8 word list \<Rightarrow> locality" where
  "loc_of_data bs = \<lparr>loc_data = bs, fi_address = 0\<rparr>"

definition loc_with_address :: "locality \<Rightarrow> 64 word \<Rightarrow> locality" where
  "loc_with_address l a = \<lparr>loc_data = loc_data l, fi_address = a\<rparr>"

text \<open>For socket addresses: the address is the second group of four bytes, lowest byte first, and the port
  the bytes 2 and 3, highest byte first.\<close>

definition ip_address :: "locality \<Rightarrow> 32 word" where
  "ip_address l = word_rcat (rev (take 4 (drop 4 (loc_data l))))"

definition loc_port :: "locality \<Rightarrow> 16 word" where
  "loc_port l = 256 * ucast (loc_data l ! 2) + ucast (loc_data l ! 3)"

definition loc_valid :: "locality \<Rightarrow> bool" where
  "loc_valid l \<longleftrightarrow> ip_address l \<noteq> 0"

definition loc_less_than :: "locality \<Rightarrow> locality \<Rightarrow> bool" where
  "loc_less_than a b \<longleftrightarrow>
     (if ip_address a < ip_address b then True
      else if ip_address a = ip_address b then loc_port a < loc_port b else False)"

definition loc_less :: "locality \<Rightarrow> locality \<Rightarrow> bool" where
  "loc_less a b \<longleftrightarrow> ip_address a < ip_address b \<or> ip_address a = ip_address b \<and> fi_address a < fi_address b"

definition loc_equal :: "locality \<Rightarrow> locality \<Rightarrow> bool" where
  "loc_equal a b \<longleftrightarrow> loc_data a = loc_data b \<and> fi_address a = fi_address b"

lemma loc_less_order:
  "\<not> loc_less a a" "loc_less a b \<Longrightarrow> loc_less b c \<Longrightarrow> loc_less a c"
  "loc_equal a b \<Longrightarrow> \<not> loc_less a b"
  by (auto simp: loc_less_def loc_equal_def ip_address_def)

section \<open>The address vector\<close>

record 'a av_lib =
  fi_av_insert :: "8 word list \<Rightarrow> 'a \<Rightarrow> (int \<times> 64 word) \<times> 'a"
  fi_av_lookup :: "64 word \<Rightarrow> 'a \<Rightarrow> int \<times> 8 word list"

definition insert_address :: "'a av_lib \<Rightarrow> locality \<Rightarrow> 'a \<Rightarrow> (locality \<times> 'a) result" where
  "insert_address lib l av =
     (case fi_av_insert lib (loc_data l) av of ((ret, fi_addr), av) \<Rightarrow>
        if ret < 0 then Inl (Terminate ''fi_av_insert'')
        else if ret = 0 then Inl (Terminate ''fi_av_insert did not return 1'')
        else Inr (loc_with_address l fi_addr, av))"

definition debug_print_av_vector :: "'a av_lib \<Rightarrow> nat \<Rightarrow> nat \<Rightarrow> 'a \<Rightarrow> unit result" where
  "debug_print_av_vector lib sz n av =
     fold_res (\<lambda>i _. case fi_av_lookup lib (of_nat i) av of (ret, bs) \<Rightarrow>
         if ret = 0 \<and> length bs = sz then Inr ()
         else Inl (Runtime_error ''debug_print_av_vector : address vector traversal failure''))
       [0..<n] ()"

text \<open>The address of an endpoint; \<open>name\<close> is what \<open>fi_getname\<close> returns, \<open>junk\<close> the array before.\<close>

definition get_endpoint_address :: "nat \<Rightarrow> 8 word list \<Rightarrow> int \<times> 8 word list \<Rightarrow> locality result" where
  "get_endpoint_address sz junk name =
     (case name of (ret, bs) \<Rightarrow>
        if ret \<noteq> 0 \<or> sz < length bs then Inl (Terminate ''fi_getname - size error or other problem'')
        else Inr (loc_of_data (overwrite bs junk)))"

section \<open>Exchange of addresses\<close>

text \<open>\<open>memcpy\<close> or a receive into a buffer at an offset.\<close>

definition put_at :: "nat \<Rightarrow> 'a list \<Rightarrow> 'a list \<Rightarrow> 'a list" where
  "put_at k ys xs = take k xs @ ys @ drop (k + length ys) xs"

text \<open>Rank 0 receives the address of every other rank and sends all of them to every rank.  \<open>xfer i j\<close> is what
  rank \<open>j\<close> receives of what rank \<open>i\<close> sends to it; \<open>hs\<close> are the addresses \<open>here_\<close> of the ranks.\<close>

type_synonym transfer = "nat \<Rightarrow> nat \<Rightarrow> 8 word list \<Rightarrow> 8 word list"

definition gather_localities :: "transfer \<Rightarrow> nat \<Rightarrow> 8 word list list \<Rightarrow> 8 word list" where
  "gather_localities xfer sz hs =
     fold (\<lambda>i buf. put_at (i * sz) (xfer i 0 (hs ! i)) buf) [1..<length hs]
       (put_at 0 (hs ! 0) (replicate (length hs * sz) 0))"

definition localities_at :: "transfer \<Rightarrow> nat \<Rightarrow> 8 word list list \<Rightarrow> nat \<Rightarrow> 8 word list" where
  "localities_at xfer sz hs rank =
     (let all = gather_localities xfer sz hs in
      if 0 < rank then put_at 0 (xfer 0 rank all) (replicate (length hs * sz) 0) else all)"

definition populate :: "'a av_lib \<Rightarrow> nat \<Rightarrow> nat \<Rightarrow> 8 word list \<Rightarrow> 'a \<Rightarrow> 'a result" where
  "populate lib sz n buf av =
     fold_res (\<lambda>i av. bind_res (insert_address lib (loc_of_data (put_at 0 (take sz (drop (i * sz) buf)) (loc_data (loc_default sz)))) av)
         (\<lambda>(_, av). Inr av)) [0..<n] av"

definition exchange_addresses :: "'a av_lib \<Rightarrow> transfer \<Rightarrow> nat \<Rightarrow> 8 word list list \<Rightarrow> nat \<Rightarrow> 'a \<Rightarrow> 'a result" where
  "exchange_addresses lib xfer sz hs rank av =
     bind_res (populate lib sz (length hs) (localities_at xfer sz hs rank) av) (\<lambda>av.
     bind_res (debug_print_av_vector lib sz (length hs) av) (\<lambda>_. Inr av))"

text \<open>An address vector of type \<open>FI_AV_TABLE\<close>: addresses get their numbers in the order of insertion.\<close>

definition av_table_ok :: "'a av_lib \<Rightarrow> ('a \<Rightarrow> 8 word list list) \<Rightarrow> bool" where
  "av_table_ok lib tab \<longleftrightarrow>
     (\<forall>a av. fst (fi_av_insert lib a av) = (1, of_nat (length (tab av))) \<and> tab (snd (fi_av_insert lib a av)) = tab av @ [a]) \<and>
     (\<forall>i av. i < length (tab av) \<longrightarrow> i < 2 ^ 31 \<longrightarrow> fi_av_lookup lib (of_nat i) av = (0, tab av ! i))"

lemma put_at_concat:
  assumes "i < length hs" "\<forall>h\<in>set hs. length h = sz" "length h = sz"
  shows "put_at (i * sz) h (concat hs) = concat (hs[i := h])"
proof -
  have l: "length (concat hs') = length hs' * sz" if "\<forall>h\<in>set hs'. length h = sz" for hs' :: "'a list list"
    using that by (induction hs') auto
  have s: "\<forall>h\<in>set (take i hs). length h = sz"
    using assms(2) by (auto dest: in_set_takeD)
  have c: "concat hs = concat (take i hs) @ hs ! i @ concat (drop (Suc i) hs)"
    using assms(1) by (metis concat.simps(2) concat_append id_take_nth_drop)
  have "hs ! i \<in> set hs"
    using assms(1) by simp
  then have "length (hs ! i) = sz" "length (concat (take i hs)) = i * sz"
    using assms(1,2) l [OF s] by simp_all
  then show ?thesis
    using assms(1,3) by (subst c) (simp add: put_at_def upd_conv_take_nth_drop)
qed

lemma gather_prefix:
  fixes hs :: "8 word list list"
  assumes "\<forall>h\<in>set hs. length h = sz" "hs \<noteq> []" "\<And>i h. xfer i 0 h = h" "k \<le> length hs" "0 < k"
  shows "fold (\<lambda>i buf. put_at (i * sz) (xfer i 0 (hs ! i)) buf) [1..<k]
    (put_at 0 (hs ! 0) (replicate (length hs * sz) 0)) = concat (take k hs @ replicate (length hs - k) (replicate sz 0))"
  using assms(5,4)
proof (induction k rule: nat_induct_non_zero)
  case 1
  have z: "replicate (length hs * sz) 0 = concat (replicate (length hs) (replicate sz (0 :: 8 word)))"
    by (induction hs) (auto simp: replicate_add)
  have "put_at 0 (hs ! 0) (concat (replicate (length hs) (replicate sz 0))) = concat ((replicate (length hs) (replicate sz 0))[0 := hs ! 0])"
    using put_at_concat [of 0 "replicate (length hs) (replicate sz 0)" sz "hs ! 0"] assms(1,2) by simp
  moreover have "(replicate (length hs) (replicate sz 0))[0 := hs ! 0] = take 1 hs @ replicate (length hs - 1) (replicate sz 0)"
    using assms(2) by (cases hs) simp_all
  ultimately show ?case
    by (simp only: z upt_rec [of 1 1] less_irrefl if_False fold_simps id_apply)
next
  case (Suc k)
  let ?l = "take k hs @ replicate (length hs - k) (replicate sz 0)"
  have k: "k < length hs"
    using Suc.prems by simp
  have "put_at (k * sz) (hs ! k) (concat ?l) = concat (?l[k := hs ! k])"
    by (rule put_at_concat) (use assms(1) k in \<open>auto dest: in_set_takeD\<close>)
  also have "?l[k := hs ! k] = take (Suc k) hs @ replicate (length hs - Suc k) (replicate sz 0)"
    using k by (simp add: list_update_append take_Suc_conv_app_nth Suc_diff_Suc [symmetric])
  finally show ?case
    using Suc assms(3) k by simp
qed

lemma localities_at_ok:
  assumes "\<forall>h\<in>set hs. length h = sz" "hs \<noteq> []" "\<And>i j h. xfer i j h = h"
  shows "localities_at xfer sz hs rank = concat hs"
proof -
  have "gather_localities xfer sz hs = concat hs"
    using gather_prefix [of hs sz xfer "length hs"] assms by (simp add: gather_localities_def)
  moreover have "length (concat hs) = length hs * sz"
    using assms(1) by (induction hs) auto
  ultimately show ?thesis
    by (simp add: localities_at_def Let_def assms(3) put_at_def)
qed

lemma slice_concat:
  assumes "i < length hs" "\<forall>h\<in>set hs. length h = sz"
  shows "take sz (drop (i * sz) (concat hs)) = hs ! i"
  using assms
proof (induction hs arbitrary: i)
  case (Cons h hs)
  then show ?case
    by (cases i) (simp_all add: add.commute)
qed simp

lemma populate_ok:
  assumes av: "av_table_ok lib tab" and hs: "\<forall>h\<in>set hs. length h = sz" and k: "k \<le> length hs"
  shows "\<exists>av'. fold_res (\<lambda>i av. bind_res (insert_address lib (loc_of_data (put_at 0 (take sz (drop (i * sz) (concat hs)))
      (loc_data (loc_default sz)))) av) (\<lambda>(_, av). Inr av)) [0..<k] av = Inr av' \<and> tab av' = tab av @ take k hs"
  using k
proof (induction k)
  case (Suc k)
  then obtain u where u: "fold_res (\<lambda>i av. bind_res (insert_address lib (loc_of_data (put_at 0 (take sz (drop (i * sz) (concat hs)))
      (loc_data (loc_default sz)))) av) (\<lambda>(_, av). Inr av)) [0..<k] av = Inr u" "tab u = tab av @ take k hs"
    by auto
  have k: "k < length hs"
    using Suc.prems by simp
  have "hs ! k \<in> set hs"
    using k by simp
  then have "length (hs ! k) = sz"
    using hs by blast
  then have p: "put_at 0 (take sz (drop (k * sz) (concat hs))) (loc_data (loc_default sz)) = hs ! k"
    by (simp add: slice_concat [OF k hs] put_at_def loc_default_def)
  obtain fi u' where i: "fi_av_insert lib (hs ! k) u = ((1, fi), u')" "tab u' = tab u @ [hs ! k]"
    using av unfolding av_table_ok_def by (metis prod.collapse)
  show ?case
    using u i k by (simp add: fold_res_append p insert_address_def loc_of_data_def take_Suc_conv_app_nth)
qed simp

lemma exchange_ok:
  assumes "av_table_ok lib tab" "\<forall>h\<in>set hs. length h = sz" "hs \<noteq> []" "\<And>i j h. xfer i j h = h" "tab av = []" "length hs < 2 ^ 31"
  shows "\<exists>av'. exchange_addresses lib xfer sz hs rank av = Inr av' \<and> tab av' = hs"
proof -
  obtain u where u: "populate lib sz (length hs) (concat hs) av = Inr u" "tab u = hs"
    using populate_ok [OF assms(1,2) order_refl, of av] assms(5) by (auto simp: populate_def)
  have "fi_av_lookup lib (of_nat i) u = (0, hs ! i)" if "i < length hs" for i
    using assms(1,6) u(2) that by (simp add: av_table_ok_def)
  then have "debug_print_av_vector lib sz n u = Inr ()" if "n \<le> length hs" for n
    using that assms(2) by (induction n) (simp_all add: debug_print_av_vector_def fold_res_append)
  with u localities_at_ok [OF assms(2-4)] show ?thesis
    by (simp add: exchange_addresses_def)
qed

text \<open>C27: The address vectors of all ranks are filled alike.  When the ranks exchange their addresses, every rank
  ends up with the address of rank \<open>j\<close> at the number under which the communicator sends to rank \<open>j\<close>, the rank
  itself widened to 64 bits, and with no others.  Relied on: messages arrive as they were sent, and the
  address vector is a table (\<open>FI_AV_TABLE\<close>) and empty at first.\<close>

theorem ranks_addressed:
  assumes "av_table_ok lib tab" "tab av = []" "\<forall>i j h. xfer i j h = h"
    and "\<forall>h\<in>set hs. length h = sz" "length hs < 2 ^ 31" "j < length hs"
  shows "\<exists>av'. exchange_addresses lib xfer sz hs rank av = Inr av' \<and> tab av' = hs \<and>
    fi_av_lookup lib (scast (of_nat j :: rank_type)) av' = (0, hs ! j)"
proof -
  have "hs \<noteq> []"
    using assms(6) by auto
  then obtain av' where av': "exchange_addresses lib xfer sz hs rank av = Inr av'" "tab av' = hs"
    using exchange_ok [OF assms(1,4), of xfer av rank] assms(2,3,5) by blast
  have "sint (of_nat j :: rank_type) = int j"
    using assms(5,6) by (simp add: sint_uint unat_of_nat uint_nat signed_take_bit_int_eq_self)
  then have "scast (of_nat j :: rank_type) = (of_nat j :: 64 word)"
    by (simp add: scast_eq)
  then have "fi_av_lookup lib (scast (of_nat j :: rank_type)) av' = (0, hs ! j)"
    using assms(1,5,6) av'(2) by (simp add: av_table_ok_def)
  with av' show ?thesis
    by blast
qed

definition ex_av_lib :: "8 word list list av_lib" where
  "ex_av_lib = \<lparr>fi_av_insert = (\<lambda>a av. ((1, of_nat (length av)), av @ [a])),
     fi_av_lookup = (\<lambda>i av. if unat i < length av then (0, av ! unat i) else (-1, []))\<rparr>"

lemma ex_av_lib_ok: "av_table_ok ex_av_lib (\<lambda>av. av)"
  by (auto simp: av_table_ok_def ex_av_lib_def unat_of_nat)

theorem ranks_addressed_witness:
  "\<exists>av. exchange_addresses ex_av_lib (\<lambda>_ _ h. h) 2 [[1, 2], [3, 4], [5, 6]] 1 [] = Inr av \<and>
     av = [[1, 2], [3, 4], [5, 6]] \<and> fi_av_lookup ex_av_lib (scast (of_nat 2 :: rank_type)) av = (0, [5, 6])"
  using ranks_addressed [OF ex_av_lib_ok, of "[]" "\<lambda>_ _ h. h" "[[1, 2], [3, 4], [5, 6]]" 2 2 1] by auto

end
