(* ===== verification/Lf_Controller.thy ===== *)
theory Lf_Controller
  imports Lf_Start
begin

text \<open>
  The endpoints of the libfabric controller (\<open>libfabric/controller_base.hpp\<close>): opening of the fabric, creation
  of the endpoints for each endpoint type, the endpoints the threads take, and the destructor, which
  closes everything.  Objects of libfabric are numbers (\<open>fid\<close>); the state says which are open.
\<close>

section \<open>Libfabric\<close>

text \<open>Each call returns a code, zero being success; those that create an object return it.\<close>

record 'f ep_lib =
  el_getinfo :: int
  el_fabric :: "'f \<Rightarrow> (int \<times> nat) \<times> 'f"
  el_domain :: "nat \<Rightarrow> 'f \<Rightarrow> (int \<times> nat) \<times> 'f"
  el_av_open :: "nat \<Rightarrow> 'f \<Rightarrow> (int \<times> nat) \<times> 'f"
  el_endpoint :: "bool \<Rightarrow> 'f \<Rightarrow> (int \<times> nat) \<times> 'f"
  el_scalable_ep :: "nat \<Rightarrow> 'f \<Rightarrow> (int \<times> nat) \<times> 'f"
  el_tx_ctx_cnt :: nat
  el_tx_context :: "nat \<Rightarrow> nat \<Rightarrow> 'f \<Rightarrow> (int \<times> nat) \<times> 'f"
  el_cq_open :: "'f \<Rightarrow> (int \<times> nat) \<times> 'f"
  el_bind :: "nat \<Rightarrow> nat \<Rightarrow> 'f \<Rightarrow> int \<times> 'f"
  el_enable :: "nat \<Rightarrow> 'f \<Rightarrow> int \<times> 'f"
  el_close :: "nat \<Rightarrow> 'f \<Rightarrow> int \<times> 'f"

record 'f fids =
  fid_open :: "nat \<Rightarrow> bool"
  fid_fab :: 'f

definition open_fid :: "('f \<Rightarrow> (int \<times> nat) \<times> 'f) \<Rightarrow> string \<Rightarrow> 'f fids \<Rightarrow> (nat \<times> 'f fids) result" where
  "open_fid call msg s =
     (case call (fid_fab s) of ((ret, x), f) \<Rightarrow>
        if ret \<noteq> 0 then Inl (Terminate msg) else Inr (x, \<lparr>fid_open = (fid_open s)(x := True), fid_fab = f\<rparr>))"

definition finvoke :: "string \<Rightarrow> ('f \<Rightarrow> int \<times> 'f) \<Rightarrow> 'f fids \<Rightarrow> 'f fids result" where
  "finvoke msg call s =
     (case call (fid_fab s) of (ret, f) \<Rightarrow> if ret \<noteq> 0 then Inl (Terminate msg) else Inr (s\<lparr>fid_fab := f\<rparr>))"

definition fidclose :: "'f ep_lib \<Rightarrow> nat \<Rightarrow> 'f fids \<Rightarrow> 'f fids result" where
  "fidclose lib x s =
     (if \<not> fid_open s x then Inl (Undefined_behaviour ''close of an object that is not open'')
      else case el_close lib x (fid_fab s) of (ret, f) \<Rightarrow>
        if ret \<noteq> 0 then Inl (Terminate ''fi_close error'')
        else Inr \<lparr>fid_open = (fid_open s)(x := False), fid_fab = f\<rparr>)"

section \<open>Endpoints\<close>

record endpoint_wrapper =
  ew_ep :: "nat option"
  ew_rq :: "nat option"
  ew_tq :: "nat option"

definition ew_null :: endpoint_wrapper where
  "ew_null = \<lparr>ew_ep = None, ew_rq = None, ew_tq = None\<rparr>"

definition close_opt :: "'f ep_lib \<Rightarrow> nat option \<Rightarrow> 'f fids \<Rightarrow> 'f fids result" where
  "close_opt lib x s = (case x of None \<Rightarrow> Inr s | Some x \<Rightarrow> fidclose lib x s)"

definition ew_cleanup :: "'f ep_lib \<Rightarrow> endpoint_wrapper \<Rightarrow> 'f fids \<Rightarrow> 'f fids result" where
  "ew_cleanup lib e s =
     bind_res (close_opt lib (ew_ep e) s) (\<lambda>s.
     bind_res (close_opt lib (ew_rq e) s) (\<lambda>s.
     close_opt lib (ew_tq e) s))"

text \<open>A \<open>stack_endpoint\<close> with a pool returns its endpoint to it at the end of the thread.\<close>

datatype pool = Tx_pool | Rx_pool

record stack_endpoint =
  se_endpoint :: endpoint_wrapper
  se_pool :: "pool option"

text \<open>The controller.  \<open>tl_tx\<close>, \<open>tl_stx\<close> and \<open>tl_srx\<close> are the thread local variables of the threads that
  have set them.\<close>

record 'f controller =
  c_type :: endpoint_type
  c_tx_endpoints :: "endpoint_wrapper list"
  c_rx_endpoints :: "endpoint_wrapper list"
  c_ep_tx :: endpoint_wrapper
  c_ep_rx :: endpoint_wrapper
  tl_tx :: "(nat \<times> stack_endpoint) list"
  tl_stx :: "(nat \<times> stack_endpoint) list"
  tl_srx :: "(nat \<times> stack_endpoint) list"
  c_fabric :: nat
  c_domain :: nat
  c_av :: nat
  c_fids :: "'f fids"

definition create_completion_queue :: "'f ep_lib \<Rightarrow> 'f fids \<Rightarrow> (nat \<times> 'f fids) result" where
  "create_completion_queue lib = open_fid (el_cq_open lib) ''fi_cq_open''"

definition new_endpoint_active :: "'f ep_lib \<Rightarrow> bool \<Rightarrow> 'f fids \<Rightarrow> (nat \<times> 'f fids) result" where
  "new_endpoint_active lib tx = open_fid (el_endpoint lib tx) ''fi_endpoint (too many threadlocal endpoints?)''"

definition bind_address_vector_to_endpoint :: "'f ep_lib \<Rightarrow> nat \<Rightarrow> nat \<Rightarrow> 'f fids \<Rightarrow> 'f fids result" where
  "bind_address_vector_to_endpoint lib ep av = finvoke ''bind address_vector'' (el_bind lib ep av)"

definition bind_queue_to_endpoint :: "'f ep_lib \<Rightarrow> nat \<Rightarrow> nat \<Rightarrow> 'f fids \<Rightarrow> 'f fids result" where
  "bind_queue_to_endpoint lib ep cq = finvoke ''bind cq'' (el_bind lib ep cq)"

definition enable_endpoint :: "'f ep_lib \<Rightarrow> nat \<Rightarrow> 'f fids \<Rightarrow> 'f fids result" where
  "enable_endpoint lib ep = finvoke ''fi_enable'' (el_enable lib ep)"

definition create_rx_endpoint :: "'f ep_lib \<Rightarrow> nat \<Rightarrow> 'f fids \<Rightarrow> (endpoint_wrapper \<times> 'f fids) result" where
  "create_rx_endpoint lib av s =
     bind_res (new_endpoint_active lib False s) (\<lambda>(ep, s).
     bind_res (bind_address_vector_to_endpoint lib ep av s) (\<lambda>s.
     bind_res (create_completion_queue lib s) (\<lambda>(cq, s).
     bind_res (bind_queue_to_endpoint lib ep cq s) (\<lambda>s.
     Inr (\<lparr>ew_ep = Some ep, ew_rq = Some cq, ew_tq = None\<rparr>, s)))))"

definition bind_tx_queue_to_rx_endpoint :: "'f ep_lib \<Rightarrow> nat \<Rightarrow> 'f fids \<Rightarrow> (nat \<times> 'f fids) result" where
  "bind_tx_queue_to_rx_endpoint lib ep s =
     bind_res (create_completion_queue lib s) (\<lambda>(cq, s).
     bind_res (bind_queue_to_endpoint lib ep cq s) (\<lambda>s. Inr (cq, s)))"

text \<open>The endpoint for sending: of type \<open>multiple\<close>, and of a thread for type \<open>threadlocal\<close>, where the queue is made
  first.\<close>

definition create_tx_multiple :: "'f ep_lib \<Rightarrow> nat \<Rightarrow> 'f fids \<Rightarrow> (endpoint_wrapper \<times> 'f fids) result" where
  "create_tx_multiple lib av s =
     bind_res (new_endpoint_active lib True s) (\<lambda>(ep, s).
     bind_res (create_completion_queue lib s) (\<lambda>(cq, s).
     bind_res (bind_queue_to_endpoint lib ep cq s) (\<lambda>s.
     bind_res (bind_address_vector_to_endpoint lib ep av s) (\<lambda>s.
     bind_res (enable_endpoint lib ep s) (\<lambda>s.
     Inr (\<lparr>ew_ep = Some ep, ew_rq = None, ew_tq = Some cq\<rparr>, s))))))"

definition create_tx_threadlocal :: "'f ep_lib \<Rightarrow> nat \<Rightarrow> 'f fids \<Rightarrow> (endpoint_wrapper \<times> 'f fids) result" where
  "create_tx_threadlocal lib av s =
     bind_res (create_completion_queue lib s) (\<lambda>(cq, s).
     bind_res (new_endpoint_active lib True s) (\<lambda>(ep, s).
     bind_res (bind_queue_to_endpoint lib ep cq s) (\<lambda>s.
     bind_res (bind_address_vector_to_endpoint lib ep av s) (\<lambda>s.
     bind_res (enable_endpoint lib ep s) (\<lambda>s.
     Inr (\<lparr>ew_ep = Some ep, ew_rq = None, ew_tq = Some cq\<rparr>, s))))))"

text \<open>The contexts of a scalable endpoint.\<close>

definition new_endpoint_scalable :: "'f ep_lib \<Rightarrow> nat \<Rightarrow> 'f fids \<Rightarrow> ((nat \<times> nat) \<times> 'f fids) result" where
  "new_endpoint_scalable lib threads s =
     (if el_getinfo lib \<noteq> 0 then Inl (Terminate ''fi_getinfo'')
      else let n = min (el_tx_ctx_cnt lib) threads in
        bind_res (open_fid (el_scalable_ep lib n) ''fi_scalable_ep'' s) (\<lambda>(ep, s). Inr ((ep, n), s)))"

definition create_tx_context :: "'f ep_lib \<Rightarrow> nat \<Rightarrow> nat \<Rightarrow> 'f fids \<Rightarrow> (endpoint_wrapper \<times> 'f fids) result" where
  "create_tx_context lib ep_sx i s =
     bind_res (open_fid (el_tx_context lib ep_sx i) ''fi_tx_context'' s) (\<lambda>(ep, s).
     bind_res (create_completion_queue lib s) (\<lambda>(cq, s).
     bind_res (bind_queue_to_endpoint lib ep cq s) (\<lambda>s.
     bind_res (enable_endpoint lib ep s) (\<lambda>s.
     Inr (\<lparr>ew_ep = Some ep, ew_rq = None, ew_tq = Some cq\<rparr>, s)))))"

fun create_tx_contexts :: "'f ep_lib \<Rightarrow> nat \<Rightarrow> nat list \<Rightarrow> endpoint_wrapper list \<Rightarrow> 'f fids \<Rightarrow> (endpoint_wrapper list \<times> 'f fids) result" where
  "create_tx_contexts lib ep_sx [] es s = Inr (es, s)"
| "create_tx_contexts lib ep_sx (i # is) es s =
     bind_res (create_tx_context lib ep_sx i s) (\<lambda>(e, s). create_tx_contexts lib ep_sx is (es @ [e]) s)"

section \<open>Initialisation\<close>

definition open_fabric :: "'f ep_lib \<Rightarrow> 'f fids \<Rightarrow> ((nat \<times> nat) \<times> 'f fids) result" where
  "open_fabric lib s =
     (if el_getinfo lib \<noteq> 0 then Inl (Terminate ''Failed to get fabric info'')
      else bind_res (open_fid (el_fabric lib) ''Failed to get fi_fabric'' s) (\<lambda>(fb, s).
        bind_res (open_fid (el_domain lib fb) ''fi_domain'' s) (\<lambda>(d, s). Inr ((fb, d), s))))"

text \<open>The receive endpoint, which all types have but \<open>scalableTxRx\<close>; \<open>dummy\<close> is the setting of the build that gives
  it a queue for sends that is not used.\<close>

definition init_rx :: "'f ep_lib \<Rightarrow> bool \<Rightarrow> endpoint_type \<Rightarrow> nat \<Rightarrow> 'f fids \<Rightarrow> (endpoint_wrapper \<times> 'f fids) result" where
  "init_rx lib dummy t av s =
     (if t = ScalableTxRx then Inr (ew_null, s)
      else bind_res (create_rx_endpoint lib av s) (\<lambda>(rx, s).
        if t = Single \<or> dummy then
          (case ew_ep rx of
             None \<Rightarrow> Inl (Undefined_behaviour ''no endpoint'')
           | Some ep \<Rightarrow> bind_res (bind_tx_queue_to_rx_endpoint lib ep s) (\<lambda>(cq, s). Inr (rx\<lparr>ew_tq := Some cq\<rparr>, s)))
        else Inr (rx, s)))"

definition init_tx :: "'f ep_lib \<Rightarrow> endpoint_type \<Rightarrow> nat \<Rightarrow> nat \<Rightarrow> 'f fids \<Rightarrow> ((endpoint_wrapper \<times> endpoint_wrapper list) \<times> 'f fids) result" where
  "init_tx lib t threads av s =
     (case t of
        Multiple \<Rightarrow> bind_res (create_tx_multiple lib av s) (\<lambda>(tx, s). Inr ((tx, []), s))
      | Single \<Rightarrow> Inr ((ew_null, []), s)
      | ThreadlocalTx \<Rightarrow> Inr ((ew_null, []), s)
      | _ \<Rightarrow>
          bind_res (new_endpoint_scalable lib threads s) (\<lambda>((sx, n), s).
          bind_res (finvoke ''fi_scalable_ep_bind'' (el_bind lib sx av) s) (\<lambda>s.
          bind_res (create_tx_contexts lib sx [0..<n] [] s) (\<lambda>(es, s).
          Inr ((\<lparr>ew_ep = Some sx, ew_rq = None, ew_tq = None\<rparr>, es), s)))))"

text \<open>\<open>initialize\<close> for \<open>n\<close> ranks, up to the exchange of addresses.\<close>

definition lf_initialize :: "'f ep_lib \<Rightarrow> bool \<Rightarrow> endpoint_type \<Rightarrow> nat \<Rightarrow> nat \<Rightarrow> 'f fids \<Rightarrow> 'f controller result" where
  "lf_initialize lib dummy t n threads s =
     bind_res (open_fabric lib s) (\<lambda>((fb, d), s).
     bind_res (open_fid (el_av_open lib n) ''fi_av_open'' s) (\<lambda>(av, s).
     bind_res (init_rx lib dummy t av s) (\<lambda>(rx, s).
     bind_res (init_tx lib t threads av s) (\<lambda>((tx, es), s).
     (case ew_ep rx of
        None \<Rightarrow> Inl (Undefined_behaviour ''null receive endpoint'')
      | Some ep \<Rightarrow>
          bind_res (enable_endpoint lib ep s) (\<lambda>s.
          Inr \<lparr>c_type = t, c_tx_endpoints = es, c_rx_endpoints = [], c_ep_tx = tx, c_ep_rx = rx,
            tl_tx = [], tl_stx = [], tl_srx = [], c_fabric = fb, c_domain = d, c_av = av, c_fids = s\<rparr>))))))"

section \<open>Threads\<close>

definition tl_get :: "(nat \<times> stack_endpoint) list \<Rightarrow> nat \<Rightarrow> endpoint_wrapper option" where
  "tl_get l thr =
     (case map_of l thr of Some e \<Rightarrow> (if ew_ep (se_endpoint e) = None then None else Some (se_endpoint e)) | None \<Rightarrow> None)"

definition get_rx_endpoint :: "nat \<Rightarrow> 'f controller \<Rightarrow> (endpoint_wrapper \<times> 'f controller) result" where
  "get_rx_endpoint thr c =
     (if c_type c = ScalableTxRx then
        (case tl_get (tl_srx c) thr of
           Some e \<Rightarrow> Inr (e, c)
         | None \<Rightarrow>
             (case c_rx_endpoints c of
                [] \<Rightarrow> Inl (Runtime_error ''rx endpoint wrapper pop fail'')
              | e # es \<Rightarrow> Inr (e, c\<lparr>c_rx_endpoints := es, tl_srx := (thr, \<lparr>se_endpoint = e, se_pool = Some Rx_pool\<rparr>) # tl_srx c\<rparr>)))
      else Inr (c_ep_rx c, c))"

definition get_tx_endpoint :: "'f ep_lib \<Rightarrow> nat \<Rightarrow> 'f controller \<Rightarrow> (endpoint_wrapper \<times> 'f controller) result" where
  "get_tx_endpoint lib thr c =
     (case c_type c of
        ThreadlocalTx \<Rightarrow>
          (case tl_get (tl_tx c) thr of
             Some e \<Rightarrow> Inr (e, c)
           | None \<Rightarrow>
               bind_res (create_tx_threadlocal lib (c_av c) (c_fids c)) (\<lambda>(e, s).
               Inr (e, c\<lparr>c_fids := s, c_tx_endpoints := c_tx_endpoints c @ [e],
                 tl_tx := (thr, \<lparr>se_endpoint = e, se_pool = None\<rparr>) # tl_tx c\<rparr>)))
      | Multiple \<Rightarrow> Inr (c_ep_tx c, c)
      | Single \<Rightarrow> Inr (c_ep_rx c, c)
      | _ \<Rightarrow>
          (case tl_get (tl_stx c) thr of
             Some e \<Rightarrow> Inr (e, c)
           | None \<Rightarrow>
               (case c_tx_endpoints c of
                  [] \<Rightarrow> Inl (Runtime_error ''tx endpoint wrapper pop fail'')
                | e # es \<Rightarrow> Inr (e, c\<lparr>c_tx_endpoints := es, tl_stx := (thr, \<lparr>se_endpoint = e, se_pool = Some Tx_pool\<rparr>) # tl_stx c\<rparr>))))"

text \<open>The end of a thread: the destructors of its thread local endpoints.\<close>

definition se_dtor :: "stack_endpoint \<Rightarrow> 'f controller \<Rightarrow> 'f controller" where
  "se_dtor e c =
     (case se_pool e of
        None \<Rightarrow> c
      | Some Tx_pool \<Rightarrow> c\<lparr>c_tx_endpoints := c_tx_endpoints c @ [se_endpoint e]\<rparr>
      | Some Rx_pool \<Rightarrow> c\<lparr>c_rx_endpoints := c_rx_endpoints c @ [se_endpoint e]\<rparr>)"

definition thread_exit :: "nat \<Rightarrow> 'f controller \<Rightarrow> 'f controller" where
  "thread_exit thr c =
     (let es = map snd (filter (\<lambda>p. fst p = thr) (tl_srx c @ tl_stx c @ tl_tx c));
          keep = filter (\<lambda>p. fst p \<noteq> thr) in
      fold se_dtor es (c\<lparr>tl_tx := keep (tl_tx c), tl_stx := keep (tl_stx c), tl_srx := keep (tl_srx c)\<rparr>))"

text \<open>The destructor.  The handler around the closing of the domain is never entered, since the error object
  ends the program.\<close>

definition controller_dtor :: "'f ep_lib \<Rightarrow> 'f controller \<Rightarrow> 'f fids result" where
  "controller_dtor lib c =
     bind_res (fold_res (ew_cleanup lib) (c_tx_endpoints c) (c_fids c)) (\<lambda>s.
     bind_res (fold_res (ew_cleanup lib) (c_rx_endpoints c) s) (\<lambda>s.
     bind_res (ew_cleanup lib (c_ep_tx c) s) (\<lambda>s.
     bind_res (ew_cleanup lib (c_ep_rx c) s) (\<lambda>s.
     bind_res (fidclose lib (c_av c) s) (\<lambda>s.
     bind_res (fidclose lib (c_domain c) s) (\<lambda>s.
     fidclose lib (c_fabric c) s))))))"

section \<open>Which objects are open\<close>

text \<open>What is relied on of libfabric, with \<open>op\<close> the open objects: an object that is created was not open, and only
  closing closes.\<close>

definition creates :: "('f \<Rightarrow> nat \<Rightarrow> bool) \<Rightarrow> ('f \<Rightarrow> (int \<times> nat) \<times> 'f) \<Rightarrow> bool" where
  "creates op call \<longleftrightarrow> (\<forall>f x f'. call f = ((0, x), f') \<longrightarrow> \<not> op f x \<and> op f' = (op f)(x := True))"

definition keeps :: "('f \<Rightarrow> nat \<Rightarrow> bool) \<Rightarrow> ('f \<Rightarrow> int \<times> 'f) \<Rightarrow> bool" where
  "keeps op call \<longleftrightarrow> (\<forall>f. op (snd (call f)) = op f)"

definition ep_lib_ok :: "'f ep_lib \<Rightarrow> ('f \<Rightarrow> nat \<Rightarrow> bool) \<Rightarrow> bool" where
  "ep_lib_ok lib op \<longleftrightarrow>
     creates op (el_fabric lib) \<and> (\<forall>fb. creates op (el_domain lib fb)) \<and> (\<forall>n. creates op (el_av_open lib n)) \<and>
     (\<forall>tx. creates op (el_endpoint lib tx)) \<and> (\<forall>n. creates op (el_scalable_ep lib n)) \<and>
     (\<forall>ep i. creates op (el_tx_context lib ep i)) \<and> creates op (el_cq_open lib) \<and>
     (\<forall>x y. keeps op (el_bind lib x y)) \<and> (\<forall>x. keeps op (el_enable lib x)) \<and>
     (\<forall>x f f'. el_close lib x f = (0, f') \<longrightarrow> op f' = (op f)(x := False))"

definition owns_fids :: "('f \<Rightarrow> nat \<Rightarrow> bool) \<Rightarrow> nat list \<Rightarrow> 'f fids \<Rightarrow> bool" where
  "owns_fids op L s \<longleftrightarrow> distinct L \<and> (\<forall>x. fid_open s x \<longleftrightarrow> x \<in> set L) \<and> op (fid_fab s) = fid_open s"

lemma owns_fids_perm: "mset L = mset L' \<Longrightarrow> owns_fids op L s \<Longrightarrow> owns_fids op L' s"
  using mset_eq_imp_distinct_iff [of L L'] mset_eq_setD [of L L'] by (simp add: owns_fids_def)

text \<open>What holds if a call returns.\<close>

definition returns :: "'a result \<Rightarrow> ('a \<Rightarrow> bool) \<Rightarrow> bool" where
  "returns r Q \<longleftrightarrow> (\<forall>a. r = Inr a \<longrightarrow> Q a)"

lemma returns_bind: "returns r P \<Longrightarrow> (\<And>a. P a \<Longrightarrow> returns (f a) Q) \<Longrightarrow> returns (bind_res r f) Q"
  by (cases r) (simp_all add: returns_def)

lemma returns_bind2:
  "returns r (\<lambda>(x, s). P x s) \<Longrightarrow> (\<And>x s. P x s \<Longrightarrow> returns (f x s) Q) \<Longrightarrow> returns (bind_res r (\<lambda>(x, s). f x s)) Q"
  by (cases r) (auto simp: returns_def)

lemma returns_bind3:
  "returns r (\<lambda>((x, y), s). P x y s) \<Longrightarrow> (\<And>x y s. P x y s \<Longrightarrow> returns (f x y s) Q) \<Longrightarrow>
    returns (bind_res r (\<lambda>((x, y), s). f x y s)) Q"
  by (cases r) (auto simp: returns_def)

lemma returns_Inr [simp]: "returns (Inr a) Q = Q a" and returns_Inl [simp]: "returns (Inl e) Q"
  by (simp_all add: returns_def)

lemma open_fid_owns:
  assumes "creates op call" "owns_fids op L s"
  shows "returns (open_fid call msg s) (\<lambda>(x, s). owns_fids op (x # L) s)"
proof (cases "call (fid_fab s)")
  case (Pair r f)
  obtain ret x where r: "r = (ret, x)"
    by (cases r)
  have "\<not> op (fid_fab s) x \<and> op f = (op (fid_fab s))(x := True)" if "ret = 0"
    using assms(1) Pair r that unfolding creates_def by blast
  with assms(2) Pair r show ?thesis
    by (auto simp: open_fid_def owns_fids_def returns_def)
qed

lemma finvoke_owns:
  assumes "keeps op call" "owns_fids op L s"
  shows "returns (finvoke msg call s) (owns_fids op L)"
proof (cases "call (fid_fab s)")
  case (Pair ret f)
  have "op (snd (call (fid_fab s))) = op (fid_fab s)"
    using assms(1) unfolding keeps_def by blast
  with assms(2) Pair show ?thesis
    by (auto simp: finvoke_def owns_fids_def returns_def)
qed

text \<open>The outcome of a call is what is wanted, or the program has ended.\<close>

definition or_terminates :: "'a result \<Rightarrow> ('a \<Rightarrow> bool) \<Rightarrow> bool" where
  "or_terminates r Q \<longleftrightarrow> (case r of Inl (Terminate _) \<Rightarrow> True | Inl _ \<Rightarrow> False | Inr a \<Rightarrow> Q a)"

lemma or_terminates_bind:
  "or_terminates r P \<Longrightarrow> (\<And>a. P a \<Longrightarrow> or_terminates (f a) Q) \<Longrightarrow> or_terminates (bind_res r f) Q"
  by (cases r) (auto simp: or_terminates_def split: oomph_error.splits)

lemma or_terminates_Inr [simp]: "or_terminates (Inr a) Q = Q a"
  by (simp add: or_terminates_def)

lemma fidclose_owns:
  assumes "ep_lib_ok lib op" "owns_fids op (x # L) s"
  shows "or_terminates (fidclose lib x s) (owns_fids op L)"
proof (cases "el_close lib x (fid_fab s)")
  case (Pair ret f)
  have x: "fid_open s x" "x \<notin> set L" "distinct L" "op (fid_fab s) = fid_open s" "\<forall>y. fid_open s y \<longleftrightarrow> y = x \<or> y \<in> set L"
    using assms(2) by (auto simp: owns_fids_def)
  have "op f = (op (fid_fab s))(x := False)" if "ret = 0"
    using assms(1) Pair that unfolding ep_lib_ok_def by blast
  with x Pair show ?thesis
    by (auto simp: fidclose_def or_terminates_def owns_fids_def)
qed

definition ew_fids :: "endpoint_wrapper \<Rightarrow> nat list" where
  "ew_fids e = (case ew_ep e of None \<Rightarrow> [] | Some x \<Rightarrow> [x]) @ (case ew_rq e of None \<Rightarrow> [] | Some x \<Rightarrow> [x]) @
     (case ew_tq e of None \<Rightarrow> [] | Some x \<Rightarrow> [x])"

lemma close_opt_owns:
  assumes "ep_lib_ok lib op" "owns_fids op ((case x of None \<Rightarrow> [] | Some x \<Rightarrow> [x]) @ L) s"
  shows "or_terminates (close_opt lib x s) (owns_fids op L)"
  using assms fidclose_owns [OF assms(1)] by (cases x) (auto simp: close_opt_def)

lemma ew_cleanup_owns:
  assumes "ep_lib_ok lib op" "owns_fids op (ew_fids e @ L) s"
  shows "or_terminates (ew_cleanup lib e s) (owns_fids op L)"
  unfolding ew_cleanup_def
proof (rule or_terminates_bind, rule close_opt_owns [OF assms(1)])
  show "owns_fids op ((case ew_ep e of None \<Rightarrow> [] | Some x \<Rightarrow> [x]) @ (case ew_rq e of None \<Rightarrow> [] | Some x \<Rightarrow> [x]) @
     (case ew_tq e of None \<Rightarrow> [] | Some x \<Rightarrow> [x]) @ L) s"
    using assms(2) by (simp add: ew_fids_def)
next
  fix s assume "owns_fids op ((case ew_rq e of None \<Rightarrow> [] | Some x \<Rightarrow> [x]) @ (case ew_tq e of None \<Rightarrow> [] | Some x \<Rightarrow> [x]) @ L) s"
  then show "or_terminates (bind_res (close_opt lib (ew_rq e) s) (close_opt lib (ew_tq e))) (owns_fids op L)"
    by (intro or_terminates_bind [OF close_opt_owns [OF assms(1)]] close_opt_owns [OF assms(1)])
qed

lemma cleanups_owns:
  assumes "ep_lib_ok lib op"
  shows "owns_fids op (concat (map ew_fids es) @ L) s \<Longrightarrow> or_terminates (fold_res (ew_cleanup lib) es s) (owns_fids op L)"
proof (induction es arbitrary: s)
  case (Cons e es)
  show ?case
    unfolding fold_res.simps
    by (rule or_terminates_bind [OF ew_cleanup_owns [OF assms]]) (use Cons in simp_all)
qed simp

text \<open>The fids of the stack endpoints that go back to a pool, and of the whole controller.\<close>

definition held_fids :: "stack_endpoint list \<Rightarrow> nat list" where
  "held_fids es = concat (map (\<lambda>e. ew_fids (se_endpoint e)) (filter (\<lambda>e. se_pool e \<noteq> None) es))"

lemma held_fids_simps [simp]:
  "held_fids [] = []"
  "held_fids (e # es) = (if se_pool e = None then [] else ew_fids (se_endpoint e)) @ held_fids es"
  "held_fids (es @ es') = held_fids es @ held_fids es'"
  by (simp_all add: held_fids_def)

definition thread_fids :: "'f controller \<Rightarrow> nat list" where
  "thread_fids c = held_fids (map snd (tl_srx c @ tl_stx c @ tl_tx c))"

definition own_fids :: "'f controller \<Rightarrow> nat list" where
  "own_fids c = concat (map ew_fids (c_tx_endpoints c)) @ concat (map ew_fids (c_rx_endpoints c)) @
     ew_fids (c_ep_tx c) @ ew_fids (c_ep_rx c) @ [c_av c, c_domain c, c_fabric c]"

definition ctl_inv :: "('f \<Rightarrow> nat \<Rightarrow> bool) \<Rightarrow> 'f controller \<Rightarrow> bool" where
  "ctl_inv op c \<longleftrightarrow> owns_fids op (own_fids c @ thread_fids c) (c_fids c)"

lemma controller_dtor_owns:
  assumes ok: "ep_lib_ok lib op" and inv: "ctl_inv op c"
  shows "or_terminates (controller_dtor lib c) (owns_fids op (thread_fids c))"
  unfolding controller_dtor_def
proof (intro or_terminates_bind [OF cleanups_owns [OF ok]] or_terminates_bind [OF ew_cleanup_owns [OF ok]]
    or_terminates_bind [OF fidclose_owns [OF ok]] fidclose_owns [OF ok])
  show "owns_fids op (concat (map ew_fids (c_tx_endpoints c)) @ concat (map ew_fids (c_rx_endpoints c)) @
     ew_fids (c_ep_tx c) @ ew_fids (c_ep_rx c) @ c_av c # c_domain c # c_fabric c # thread_fids c) (c_fids c)"
    using inv by (simp add: ctl_inv_def own_fids_def)
qed

section \<open>Creation\<close>

lemma ep_lib_calls:
  assumes "ep_lib_ok lib op"
  shows "creates op (el_fabric lib)" "creates op (el_domain lib fb)" "creates op (el_av_open lib n)"
    "creates op (el_endpoint lib tx)" "creates op (el_scalable_ep lib n)" "creates op (el_tx_context lib ep i)"
    "creates op (el_cq_open lib)" "keeps op (el_bind lib x y)" "keeps op (el_enable lib x)"
  using assms by (simp_all add: ep_lib_ok_def)

lemma create_owns:
  assumes ok: "ep_lib_ok lib op" and s: "owns_fids op L s"
  shows "returns (create_completion_queue lib s) (\<lambda>(x, s). owns_fids op (x # L) s)"
    "returns (new_endpoint_active lib tx s) (\<lambda>(x, s). owns_fids op (x # L) s)"
    "returns (bind_address_vector_to_endpoint lib ep av s) (owns_fids op L)"
    "returns (bind_queue_to_endpoint lib ep cq s) (owns_fids op L)"
    "returns (enable_endpoint lib ep s) (owns_fids op L)"
  unfolding create_completion_queue_def new_endpoint_active_def bind_address_vector_to_endpoint_def
    bind_queue_to_endpoint_def enable_endpoint_def
  by (rule open_fid_owns finvoke_owns; rule ep_lib_calls [OF ok] s)+

lemma swap_owns: "owns_fids op (x # y # L) s \<Longrightarrow> owns_fids op (y # x # L) s"
  by (rule owns_fids_perm [of "x # y # L"]) (simp_all add: add_mset_commute)

lemmas create_steps = returns_bind2 [OF create_owns(1)] returns_bind2 [OF create_owns(2)]
  returns_bind [OF create_owns(3)] returns_bind [OF create_owns(4)] returns_bind [OF create_owns(5)]

lemma create_rx_owns:
  assumes ok: "ep_lib_ok lib op" and s: "owns_fids op L s"
  shows "returns (create_rx_endpoint lib av s) (\<lambda>(e, s). owns_fids op (ew_fids e @ L) s \<and> ew_ep e \<noteq> None \<and> ew_tq e = None)"
  unfolding create_rx_endpoint_def using s
  by - ((rule create_steps [OF ok], assumption)+, simp add: ew_fids_def swap_owns)

lemma create_tx_owns:
  assumes ok: "ep_lib_ok lib op" and s: "owns_fids op L s"
  shows "returns (create_tx_multiple lib av s) (\<lambda>(e, s). owns_fids op (ew_fids e @ L) s)"
    "returns (create_tx_threadlocal lib av s) (\<lambda>(e, s). owns_fids op (ew_fids e @ L) s)"
  unfolding create_tx_multiple_def create_tx_threadlocal_def using s
  by - ((rule create_steps [OF ok], assumption)+, simp add: ew_fids_def swap_owns)+

lemma create_tx_context_owns:
  assumes ok: "ep_lib_ok lib op" and s: "owns_fids op L s"
  shows "returns (create_tx_context lib sx i s) (\<lambda>(e, s). owns_fids op (ew_fids e @ L) s)"
  unfolding create_tx_context_def
  by (rule returns_bind2 [OF open_fid_owns [OF ep_lib_calls(6) [OF ok] s]])
    ((rule create_steps [OF ok], assumption)+, simp add: ew_fids_def swap_owns)

lemma create_tx_contexts_owns:
  assumes ok: "ep_lib_ok lib op"
  shows "owns_fids op (concat (map ew_fids es) @ L) s \<Longrightarrow>
    returns (create_tx_contexts lib sx is es s) (\<lambda>(es, s). owns_fids op (concat (map ew_fids es) @ L) s)"
proof (induction "is" arbitrary: es s)
  case (Cons i "is")
  show ?case
    unfolding create_tx_contexts.simps
  proof (rule returns_bind2 [OF create_tx_context_owns [OF ok Cons.prems]])
    fix e s assume "owns_fids op (ew_fids e @ concat (map ew_fids es) @ L) s"
    then have "owns_fids op (concat (map ew_fids (es @ [e])) @ L) s"
      by (rule owns_fids_perm [rotated]) simp
    then show "returns (create_tx_contexts lib sx is (es @ [e]) s) (\<lambda>(es, s). owns_fids op (concat (map ew_fids es) @ L) s)"
      by (rule Cons.IH)
  qed
qed simp

lemma init_rx_owns:
  assumes ok: "ep_lib_ok lib op" and s: "owns_fids op L s"
  shows "returns (init_rx lib dummy t av s) (\<lambda>(e, s). owns_fids op (ew_fids e @ L) s)"
proof (cases "t = ScalableTxRx")
  case False
  show ?thesis
    unfolding init_rx_def if_not_P [OF False]
  proof (rule returns_bind2 [OF create_rx_owns [OF ok s]])
    fix e s assume e: "owns_fids op (ew_fids e @ L) s \<and> ew_ep e \<noteq> None \<and> ew_tq e = None"
    then obtain ep where ep: "ew_ep e = Some ep"
      by blast
    have "returns (bind_tx_queue_to_rx_endpoint lib ep s) (\<lambda>(cq, s). owns_fids op (cq # ew_fids e @ L) s)"
      unfolding bind_tx_queue_to_rx_endpoint_def using e
      by - (elim conjE, (rule create_steps [OF ok], assumption)+, simp)
    moreover have "mset (ew_fids (e\<lparr>ew_tq := Some cq\<rparr>)) = add_mset cq (mset (ew_fids e))" for cq
      using e by (simp add: ew_fids_def)
    ultimately have "returns (bind_res (bind_tx_queue_to_rx_endpoint lib ep s) (\<lambda>(cq, s). Inr (e\<lparr>ew_tq := Some cq\<rparr>, s)))
        (\<lambda>(e, s). owns_fids op (ew_fids e @ L) s)"
      by (elim returns_bind2) (auto intro: owns_fids_perm [rotated])
    with e ep show "returns (if t = Single \<or> dummy then case ew_ep e of None \<Rightarrow> Inl (Undefined_behaviour ''no endpoint'')
        | Some ep \<Rightarrow> bind_res (bind_tx_queue_to_rx_endpoint lib ep s) (\<lambda>(cq, s). Inr (e\<lparr>ew_tq := Some cq\<rparr>, s))
        else Inr (e, s)) (\<lambda>(e, s). owns_fids op (ew_fids e @ L) s)"
      by simp
  qed
qed (use s in \<open>simp add: init_rx_def ew_fids_def ew_null_def\<close>)

lemma new_scalable_owns:
  assumes ok: "ep_lib_ok lib op" and s: "owns_fids op L s"
  shows "returns (new_endpoint_scalable lib threads s) (\<lambda>((sx, n), s). owns_fids op (sx # L) s)"
proof -
  have "returns (bind_res (open_fid (el_scalable_ep lib n) ''fi_scalable_ep'' s) (\<lambda>(ep, s). Inr ((ep, n), s)))
      (\<lambda>((sx, n), s). owns_fids op (sx # L) s)" for n
    by (rule returns_bind2 [OF open_fid_owns [OF ep_lib_calls(5) [OF ok] s]]) simp
  then show ?thesis
    by (simp add: new_endpoint_scalable_def Let_def)
qed

lemma scalable_owns:
  assumes ok: "ep_lib_ok lib op" and s: "owns_fids op L s"
  shows "returns (bind_res (new_endpoint_scalable lib threads s) (\<lambda>((sx, n), s).
      bind_res (finvoke ''fi_scalable_ep_bind'' (el_bind lib sx av) s) (\<lambda>s.
      bind_res (create_tx_contexts lib sx [0..<n] [] s) (\<lambda>(es, s).
      Inr ((\<lparr>ew_ep = Some sx, ew_rq = None, ew_tq = None\<rparr>, es), s)))))
    (\<lambda>((tx, es), s). owns_fids op (concat (map ew_fids es) @ ew_fids tx @ L) s)"
proof (rule returns_bind3 [OF new_scalable_owns [OF ok s]], rule returns_bind [OF finvoke_owns [OF ep_lib_calls(8) [OF ok]]], assumption)
  fix sx n and s :: "'a fids"
  assume "owns_fids op (sx # L) s"
  then have "owns_fids op (concat (map ew_fids []) @ sx # L) s"
    by simp
  from create_tx_contexts_owns [OF ok this]
  show "returns (bind_res (create_tx_contexts lib sx [0..<n] [] s) (\<lambda>(es, s). Inr ((\<lparr>ew_ep = Some sx, ew_rq = None, ew_tq = None\<rparr>, es), s)))
      (\<lambda>((tx, es), s). owns_fids op (concat (map ew_fids es) @ ew_fids tx @ L) s)"
    by (rule returns_bind2) (simp add: ew_fids_def)
qed

lemma init_tx_owns:
  assumes ok: "ep_lib_ok lib op" and s: "owns_fids op L s"
  shows "returns (init_tx lib t threads av s) (\<lambda>((tx, es), s). owns_fids op (concat (map ew_fids es) @ ew_fids tx @ L) s)"
proof -
  have "returns (bind_res (create_tx_multiple lib av s) (\<lambda>(tx, s). Inr ((tx, []), s)))
     (\<lambda>((tx, es), s). owns_fids op (concat (map ew_fids es) @ ew_fids tx @ L) s)"
    by (rule returns_bind2 [OF create_tx_owns(1) [OF ok s]]) simp
  with scalable_owns [OF ok s] s show ?thesis
    by (cases t) (simp_all add: init_tx_def ew_fids_def ew_null_def)
qed

lemma open_fabric_owns:
  assumes ok: "ep_lib_ok lib op" and s: "owns_fids op [] s"
  shows "returns (open_fabric lib s) (\<lambda>((fb, d), s). owns_fids op [d, fb] s)"
proof (cases "el_getinfo lib = 0")
  case True
  have "returns (bind_res (open_fid (el_fabric lib) ''Failed to get fi_fabric'' s) (\<lambda>(fb, s).
      bind_res (open_fid (el_domain lib fb) ''fi_domain'' s) (\<lambda>(d, s). Inr ((fb, d), s)))) (\<lambda>((fb, d), s). owns_fids op [d, fb] s)"
    by (rule returns_bind2 [OF open_fid_owns [OF ep_lib_calls(1) [OF ok] s]],
        rule returns_bind2 [OF open_fid_owns [OF ep_lib_calls(2) [OF ok]]], assumption) simp
  with True show ?thesis
    by (simp add: open_fabric_def)
qed (simp add: open_fabric_def)

lemma initialize_inv:
  assumes ok: "ep_lib_ok lib op" and s: "owns_fids op [] s"
  shows "returns (lf_initialize lib dummy t n threads s) (\<lambda>c. ctl_inv op c \<and> thread_fids c = [])"
  unfolding lf_initialize_def
proof (rule returns_bind3 [OF open_fabric_owns [OF ok s]],
    rule returns_bind2 [OF open_fid_owns [OF ep_lib_calls(3) [OF ok]]], assumption,
    rule returns_bind2 [OF init_rx_owns [OF ok]], assumption,
    rule returns_bind3 [OF init_tx_owns [OF ok]], assumption)
  fix fb d av rx tx es and s :: "'a fids"
  assume y: "owns_fids op (concat (map ew_fids es) @ ew_fids tx @ ew_fids rx @ [av, d, fb]) s"
  show "returns (case ew_ep rx of None \<Rightarrow> Inl (Undefined_behaviour ''null receive endpoint'')
     | Some ep \<Rightarrow> bind_res (enable_endpoint lib ep s) (\<lambda>s.
          Inr \<lparr>c_type = t, c_tx_endpoints = es, c_rx_endpoints = [], c_ep_tx = tx, c_ep_rx = rx,
            tl_tx = [], tl_stx = [], tl_srx = [], c_fabric = fb, c_domain = d, c_av = av, c_fids = s\<rparr>))
     (\<lambda>c. ctl_inv op c \<and> thread_fids c = [])"
  proof (cases "ew_ep rx")
    case (Some ep)
    show ?thesis
      unfolding Some option.case
      by (rule returns_bind [OF create_owns(5) [OF ok y]])
        (simp add: ctl_inv_def own_fids_def thread_fids_def held_fids_def)
  qed simp
qed

section \<open>Runs\<close>

inductive ctl_step :: "'f ep_lib \<Rightarrow> 'f controller \<Rightarrow> 'f controller \<Rightarrow> bool" for lib where
  ctl_tx: "get_tx_endpoint lib thr c = Inr (e, v) \<Longrightarrow> ctl_step lib c v"
| ctl_rx: "get_rx_endpoint thr c = Inr (e, v) \<Longrightarrow> ctl_step lib c v"
| ctl_exit: "ctl_step lib c (thread_exit thr c)"

definition all_fids :: "'f controller \<Rightarrow> nat multiset" where
  "all_fids c = mset (own_fids c) + mset (thread_fids c)"

lemma ctl_inv_all: "c_fids v = c_fids c \<Longrightarrow> all_fids v = all_fids c \<Longrightarrow> ctl_inv op c \<Longrightarrow> ctl_inv op v"
  unfolding ctl_inv_def all_fids_def
  using owns_fids_perm [of "own_fids c @ thread_fids c" "own_fids v @ thread_fids v" op "c_fids c"] by simp

lemma get_rx_inv:
  assumes "get_rx_endpoint thr c = Inr (e, v)" "ctl_inv op c"
  shows "ctl_inv op v"
proof (rule ctl_inv_all [OF _ _ assms(2)])
  show "c_fids v = c_fids c" "all_fids v = all_fids c"
    using assms(1) by (auto simp: get_rx_endpoint_def all_fids_def own_fids_def thread_fids_def split: if_splits option.splits list.splits)
qed

lemma get_tx_inv:
  assumes ok: "ep_lib_ok lib op" and c: "get_tx_endpoint lib thr c = Inr (e, v)" and inv: "ctl_inv op c"
  shows "ctl_inv op v"
proof (cases "c_type c = ThreadlocalTx \<and> tl_get (tl_tx c) thr = None")
  case True
  then obtain s where s: "create_tx_threadlocal lib (c_av c) (c_fids c) = Inr (e, s)"
    and v: "v = c\<lparr>c_fids := s, c_tx_endpoints := c_tx_endpoints c @ [e], tl_tx := (thr, \<lparr>se_endpoint = e, se_pool = None\<rparr>) # tl_tx c\<rparr>"
    using c by (auto simp: get_tx_endpoint_def bind_res_eq_Inr)
  have "owns_fids op (ew_fids e @ own_fids c @ thread_fids c) s"
    using create_tx_owns(2) [OF ok, of "own_fids c @ thread_fids c" "c_fids c" "c_av c"] inv s by (simp add: ctl_inv_def returns_def)
  then have "owns_fids op (own_fids v @ thread_fids v) s"
    by (rule owns_fids_perm [rotated]) (simp add: v own_fids_def thread_fids_def)
  then show ?thesis
    by (simp add: ctl_inv_def v)
next
  case False
  have "c_fids v = c_fids c" "all_fids v = all_fids c"
    using c False by (auto simp: get_tx_endpoint_def all_fids_def own_fids_def thread_fids_def split: endpoint_type.splits option.splits list.splits)
  then show ?thesis
    by (rule ctl_inv_all [OF _ _ inv])
qed

lemma se_dtor_fids:
  "c_fids (se_dtor e c) = c_fids c" "thread_fids (se_dtor e c) = thread_fids c" "c_type (se_dtor e c) = c_type c"
  "mset (own_fids (se_dtor e c)) = mset (own_fids c) + mset (held_fids [e])"
  by (simp_all add: se_dtor_def thread_fids_def own_fids_def split: option.split pool.split)

lemma se_dtors_fids:
  "c_fids (fold se_dtor es c) = c_fids c \<and> thread_fids (fold se_dtor es c) = thread_fids c \<and>
   c_type (fold se_dtor es c) = c_type c \<and>
   mset (own_fids (fold se_dtor es c)) = mset (own_fids c) + mset (held_fids es)"
  by (induction es arbitrary: c) (simp_all add: se_dtor_fids)

lemma held_fids_split:
  "mset (held_fids (map snd (filter (\<lambda>p. fst p \<noteq> thr) l))) + mset (held_fids (map snd (filter (\<lambda>p. fst p = thr) l)))
    = mset (held_fids (map snd l))"
  by (induction l) simp_all

lemma thread_exit_inv:
  assumes "ctl_inv op c"
  shows "ctl_inv op (thread_exit thr c)"
proof (rule ctl_inv_all [OF _ _ assms])
  let ?k = "filter (\<lambda>p. fst p \<noteq> thr)"
  let ?c = "c\<lparr>tl_tx := ?k (tl_tx c), tl_stx := ?k (tl_stx c), tl_srx := ?k (tl_srx c)\<rparr>"
  show "c_fids (thread_exit thr c) = c_fids c"
    by (simp add: thread_exit_def Let_def se_dtors_fids)
  have "thread_fids ?c = held_fids (map snd (?k (tl_srx c @ tl_stx c @ tl_tx c)))"
    by (simp add: thread_fids_def)
  then have "mset (thread_fids ?c) + mset (held_fids (map snd (filter (\<lambda>p. fst p = thr) (tl_srx c @ tl_stx c @ tl_tx c)))) = mset (thread_fids c)"
    using held_fids_split [of thr "tl_srx c @ tl_stx c @ tl_tx c"] by (simp only: thread_fids_def)
  then show "all_fids (thread_exit thr c) = all_fids c"
    by (simp add: all_fids_def thread_exit_def Let_def se_dtors_fids union_ac) (simp add: own_fids_def union_ac)
qed

lemma ctl_runs:
  assumes "(ctl_step lib)\<^sup>*\<^sup>* c v" "ctl_inv op c" "ep_lib_ok lib op"
  shows "ctl_inv op v"
  using assms(1,2)
proof (induction rule: rtranclp_induct)
  case (step u v)
  then have i: "ctl_inv op u"
    by blast
  from step.hyps(2) show ?case
    by cases (use i assms(3) in \<open>auto intro: get_tx_inv get_rx_inv thread_exit_inv\<close>)
qed

text \<open>Only with scalable endpoints do threads hold endpoints that are not in a pool.\<close>

definition scalable :: "endpoint_type \<Rightarrow> bool" where
  "scalable t \<longleftrightarrow> t = ScalableTx \<or> t = ScalableTxRx"

lemma thread_exit_held: "thread_fids c = [] \<Longrightarrow> thread_fids (thread_exit thr c) = []"
  using held_fids_split [of thr "tl_srx c @ tl_stx c @ tl_tx c"]
  by (simp add: thread_exit_def Let_def se_dtors_fids) (simp add: thread_fids_def)

lemma ctl_step_held:
  assumes "ctl_step lib c v" "\<not> scalable (c_type c)" "thread_fids c = []"
  shows "\<not> scalable (c_type v) \<and> thread_fids v = []"
  using assms(1)
proof cases
  case (ctl_tx thr e)
  then show ?thesis
    using assms(2,3) by (auto simp: get_tx_endpoint_def scalable_def bind_res_eq_Inr thread_fids_def split: endpoint_type.splits option.splits)
next
  case (ctl_rx thr e)
  then show ?thesis
    using assms(2,3) by (auto simp: get_rx_endpoint_def scalable_def)
next
  case (ctl_exit thr)
  then show ?thesis
    using assms(2) thread_exit_held [OF assms(3)] by (simp add: thread_exit_def Let_def se_dtors_fids)
qed

lemma ctl_runs_held:
  assumes "(ctl_step lib)\<^sup>*\<^sup>* c v" "\<not> scalable (c_type c)" "thread_fids c = []"
  shows "thread_fids v = []"
proof -
  have "\<not> scalable (c_type v) \<and> thread_fids v = []"
    using assms by (induction rule: rtranclp_induct) (auto dest: ctl_step_held)
  then show ?thesis ..
qed

lemma initialize_type: "lf_initialize lib dummy t n threads s = Inr c \<Longrightarrow> c_type c = t"
  by (auto simp: lf_initialize_def bind_res_eq_Inr split: option.splits)

text \<open>With the type \<open>scalableTxRx\<close> there is no receive endpoint, and \<open>initialize\<close> uses it.\<close>

lemma ends_bind:
  "or_terminates r (\<lambda>_. True) \<Longrightarrow> (\<And>a. or_terminates (f a) Q) \<Longrightarrow> or_terminates (bind_res r f) Q"
  by (rule or_terminates_bind)

lemma calls_end:
  "or_terminates (open_fid f msg u) (\<lambda>_. True)" "or_terminates (finvoke msg g u) (\<lambda>_. True)"
  by (simp_all add: open_fid_def finvoke_def or_terminates_def split: prod.split)

lemma create_tx_contexts_end: "or_terminates (create_tx_contexts lib sx ks es u) (\<lambda>_. True)"
proof (induction ks arbitrary: es u)
  case (Cons k ks)
  have "or_terminates (create_tx_context lib sx k u) (\<lambda>_. True)"
    unfolding create_tx_context_def create_completion_queue_def bind_queue_to_endpoint_def enable_endpoint_def split_def
    by (intro ends_bind calls_end) simp
  then show ?case
    unfolding create_tx_contexts.simps split_def by (rule ends_bind) (rule Cons.IH)
qed simp

lemma scalable_start_ends:
  "or_terminates (open_fabric lib u) (\<lambda>_. True)" "or_terminates (init_tx lib ScalableTxRx threads av u) (\<lambda>_. True)"
proof -
  have "or_terminates (bind_res (open_fid (el_fabric lib) m u) (\<lambda>p. bind_res (open_fid (el_domain lib (fst p)) m' (snd p))
      (\<lambda>q. Inr ((fst p, fst q), snd q)))) (\<lambda>_. True)" for m m'
    by (intro ends_bind calls_end) simp
  then show "or_terminates (open_fabric lib u) (\<lambda>_. True)"
    by (simp add: open_fabric_def split_def or_terminates_def)
  have "or_terminates (bind_res (open_fid (el_scalable_ep lib k) m u) (\<lambda>p. Inr ((fst p, k), snd p))) (\<lambda>_. True)" for k m
    by (intro ends_bind calls_end) simp
  then have "or_terminates (new_endpoint_scalable lib threads u) (\<lambda>_. True)"
    by (simp add: new_endpoint_scalable_def split_def Let_def or_terminates_def)
  then show "or_terminates (init_tx lib ScalableTxRx threads av u) (\<lambda>_. True)"
    unfolding init_tx_def endpoint_type.case split_def by (intro ends_bind calls_end create_tx_contexts_end) simp_all
qed

lemma ends_in_bind:
  assumes "or_terminates r (\<lambda>_. True)" "\<And>a. or_terminates (f a) (\<lambda>_. False) \<or> f a = Inl e"
  shows "or_terminates (bind_res r f) (\<lambda>_. False) \<or> bind_res r f = Inl e"
  using assms by (cases r) (auto simp: or_terminates_def split: oomph_error.splits)

lemma initialize_scalableTxRx:
  fixes lib :: "'f ep_lib"
  shows "or_terminates (lf_initialize lib dummy ScalableTxRx n threads s) (\<lambda>_. False) \<or>
    lf_initialize lib dummy ScalableTxRx n threads s = Inl (Undefined_behaviour ''null receive endpoint'')"
proof -
  let ?r = "\<lambda>m. bind_res (open_fabric lib s) (\<lambda>p. bind_res (open_fid (el_av_open lib n) m (snd p)) (\<lambda>q.
      bind_res (init_tx lib ScalableTxRx threads (fst q) (snd q)) (\<lambda>x. Inl (Undefined_behaviour ''null receive endpoint'') :: 'f controller result)))"
  have "or_terminates (?r m) (\<lambda>_. False) \<or> ?r m = Inl (Undefined_behaviour ''null receive endpoint'')" for m
    by (intro ends_in_bind scalable_start_ends calls_end) simp
  then show ?thesis
    by (simp add: lf_initialize_def init_rx_def ew_null_def split_def)
qed

section \<open>Properties\<close>

text \<open>C29: The controller closes what it opened.  It is initialised with any of the endpoint types, threads take
  endpoints for sending and receiving, and end, in any order; then the destructor runs.  Unless libfabric
  refuses to close an object, which ends the program, the destructor returns; nothing is closed twice, and
  what remains open are the endpoints that threads still hold.  With the types \<open>single\<close>, \<open>multiple\<close> and
  \<open>threadlocal\<close> there are none: everything is closed.\<close>

theorem controller_closes_all:
  assumes ok: "ep_lib_ok lib op" and s: "op (fid_fab s) = (\<lambda>_. False)" "fid_open s = (\<lambda>_. False)"
    and init: "lf_initialize lib dummy t n threads s = Inr c" and run: "(ctl_step lib)\<^sup>*\<^sup>* c v"
  shows "or_terminates (controller_dtor lib v) (\<lambda>u. \<forall>x. fid_open u x \<longleftrightarrow> x \<in> set (thread_fids v)) \<and>
    (\<not> scalable t \<longrightarrow> thread_fids v = [])"
proof -
  have "owns_fids op [] s"
    using s by (simp add: owns_fids_def)
  then have c: "ctl_inv op c" "thread_fids c = []"
    using initialize_inv [OF ok] init by (auto simp: returns_def)
  have "or_terminates (controller_dtor lib v) (owns_fids op (thread_fids v))"
    by (rule controller_dtor_owns [OF ok ctl_runs [OF run c(1) ok]])
  then have "or_terminates (controller_dtor lib v) (\<lambda>u. \<forall>x. fid_open u x \<longleftrightarrow> x \<in> set (thread_fids v))"
    by (auto simp: or_terminates_def owns_fids_def split: sum.splits oomph_error.splits)
  moreover have "thread_fids v = []" if "\<not> scalable t"
    using ctl_runs_held [OF run _ c(2)] that initialize_type [OF init] by blast
  ultimately show ?thesis
    by blast
qed

text \<open>A libfabric that numbers its objects.\<close>

definition ex_open :: "nat set \<times> nat \<Rightarrow> (int \<times> nat) \<times> nat set \<times> nat" where
  "ex_open f = ((0, snd f), (insert (snd f) {r \<in> fst f. r < snd f}, snd f + 1))"

definition ex_fid_lib :: "(nat set \<times> nat) ep_lib" where
  "ex_fid_lib = \<lparr>el_getinfo = 0, el_fabric = ex_open, el_domain = (\<lambda>_. ex_open), el_av_open = (\<lambda>_. ex_open),
     el_endpoint = (\<lambda>_. ex_open), el_scalable_ep = (\<lambda>_. ex_open), el_tx_ctx_cnt = 2, el_tx_context = (\<lambda>_ _. ex_open),
     el_cq_open = ex_open, el_bind = (\<lambda>_ _ f. (0, f)), el_enable = (\<lambda>_ f. (0, f)), el_close = (\<lambda>x f. (0, (fst f - {x}, snd f)))\<rparr>"

lemma ex_fid_lib_ok: "ep_lib_ok ex_fid_lib (\<lambda>f r. r \<in> fst f \<and> r < snd f)"
  by (auto simp: ep_lib_ok_def creates_def keeps_def ex_fid_lib_def ex_open_def fun_eq_iff)

lemmas ex_ctl_simps = lf_initialize_def open_fabric_def open_fid_def finvoke_def init_rx_def init_tx_def create_rx_endpoint_def
  create_tx_multiple_def create_tx_threadlocal_def new_endpoint_active_def create_completion_queue_def bind_address_vector_to_endpoint_def
  bind_queue_to_endpoint_def enable_endpoint_def bind_tx_queue_to_rx_endpoint_def new_endpoint_scalable_def create_tx_context_def
  get_tx_endpoint_def tl_get_def

text \<open>With scalable endpoints, thread 7 takes an endpoint and does not end.\<close>

theorem controller_closes_all_witness:
  "\<exists>c e v. lf_initialize ex_fid_lib False ScalableTx 4 2 \<lparr>fid_open = (\<lambda>_. False), fid_fab = ({}, 0)\<rparr> = Inr c \<and>
     get_tx_endpoint ex_fid_lib 7 c = Inr (e, v) \<and> thread_fids v = [6, 7] \<and>
     or_terminates (controller_dtor ex_fid_lib v) (\<lambda>u. \<forall>x. fid_open u x \<longleftrightarrow> x = 6 \<or> x = 7)"
proof -
  let ?s = "\<lparr>fid_open = (\<lambda>_. False), fid_fab = ({}, 0)\<rparr> :: (nat set \<times> nat) fids"
  obtain c e v where c: "lf_initialize ex_fid_lib False ScalableTx 4 2 ?s = Inr c" "get_tx_endpoint ex_fid_lib 7 c = Inr (e, v)"
    "thread_fids v = [6, 7]"
    by (simp add: ex_ctl_simps ex_fid_lib_def ex_open_def thread_fids_def ew_fids_def upt_rec)
  have "(\<lambda>r. r \<in> fst (fid_fab ?s) \<and> r < snd (fid_fab ?s)) = (\<lambda>_. False)" "fid_open ?s = (\<lambda>_. False)"
    by simp_all
  moreover have "(ctl_step ex_fid_lib)\<^sup>*\<^sup>* c v"
    using ctl_tx [OF c(2)] by (rule r_into_rtranclp)
  ultimately show ?thesis
    using controller_closes_all [OF ex_fid_lib_ok _ _ c(1), of v] c
    by auto
qed

end
