(* ===== verification/Unique_Function.thy ===== *)
theory Unique_Function
  imports Oomph_Prelude
begin

text \<open>
  The type erased, move only function object of \<open>util/unique_function.hpp\<close>, in which callbacks are kept.  Small
  function objects are stored in a buffer inside the object, large ones on the heap.  Objects live in
  variables; a function object is a value of type \<open>'c\<close>.
\<close>

section \<open>Size of the buffer\<close>

text \<open>What the compiler makes of the types, on a machine with pointers of 8 bytes and largest alignment 16: the size
  of \<open>std::aligned_storage_t<s, 16>\<close>, and of \<open>unique_function_impl\<close>, a pointer to the virtual function table
  followed by the function object, of size \<open>s\<close> and alignment \<open>a\<close>.\<close>

definition round_up :: "nat \<Rightarrow> nat \<Rightarrow> nat" where
  "round_up a s = (s + a - 1) div a * a"

definition buffer_size :: "nat \<Rightarrow> nat" where
  "buffer_size s = round_up 16 s"

definition impl_size :: "nat \<Rightarrow> nat \<Rightarrow> nat" where
  "impl_size s a = round_up (max 8 a) (round_up a 8 + s)"

definition sbo_size :: nat where "sbo_size = 40"

definition is_large :: "nat \<Rightarrow> bool" where
  "is_large s \<longleftrightarrow> s > sbo_size"

text \<open>The test that decides whether a function object is small looks at its own size, without the pointer.  With the
  size 40 of the code the buffer is long enough all the same, because its size is rounded up; with 48 it
  would not be.\<close>

lemma sbo_fits:
  assumes "a \<in> {1, 2, 4, 8, 16}" "a dvd s" "\<not> is_large s"
  shows "impl_size s a \<le> buffer_size sbo_size"
proof -
  have "s \<le> 40" "s \<le> 32" if "a = 16"
    using assms that by (auto simp: is_large_def sbo_size_def dvd_def)
  moreover have "s \<le> 40"
    using assms by (simp add: is_large_def sbo_size_def)
  ultimately show ?thesis
    using assms(1) by (auto simp: impl_size_def buffer_size_def round_up_def sbo_size_def)
qed

lemma sbo_48_overflows: "impl_size 48 8 > buffer_size 48"
  by (simp add: impl_size_def buffer_size_def round_up_def)

section \<open>Model\<close>

text \<open>The variant: empty, a pointer to the heap, or the buffer, in which there is an object or none.\<close>

datatype 'c holder = Monostate | Heap_ptr ptr | Buffer "'c option"

record 'c uf_state =
  uf_vars :: "nat \<Rightarrow> 'c holder option"
  uf_heap :: "ptr \<Rightarrow> 'c option"

abbreviation set_holder :: "nat \<Rightarrow> 'c holder \<Rightarrow> 'c uf_state \<Rightarrow> 'c uf_state" where
  "set_holder i h s \<equiv> s\<lparr>uf_vars := (uf_vars s)(i \<mapsto> h)\<rparr>"

text \<open>Construction from a function object of size \<open>sz\<close>; \<open>p\<close> is the address \<open>new\<close> returns.\<close>

definition uf_construct :: "nat \<Rightarrow> ptr \<Rightarrow> 'c \<Rightarrow> nat \<Rightarrow> 'c uf_state \<Rightarrow> 'c uf_state" where
  "uf_construct i p f sz s =
     (if is_large sz then set_holder i (Heap_ptr p) (s\<lparr>uf_heap := (uf_heap s)(p \<mapsto> f)\<rparr>)
      else set_holder i (Buffer (Some f)) s)"

definition uf_default :: "nat \<Rightarrow> 'c uf_state \<Rightarrow> 'c uf_state" where
  "uf_default i s = set_holder i Monostate s"

text \<open>\<open>destroy\<close> leaves the variant as it is.\<close>

definition uf_destroy :: "nat \<Rightarrow> 'c uf_state \<Rightarrow> 'c uf_state result" where
  "uf_destroy i s =
     (case uf_vars s i of
        None \<Rightarrow> Inl (Undefined_behaviour ''no such object'')
      | Some Monostate \<Rightarrow> Inr s
      | Some (Heap_ptr p) \<Rightarrow>
          if uf_heap s p = None then Inl (Undefined_behaviour ''deleted twice'') else Inr (s\<lparr>uf_heap := (uf_heap s)(p := None)\<rparr>)
      | Some (Buffer None) \<Rightarrow> Inl (Undefined_behaviour ''destroyed twice'')
      | Some (Buffer (Some f)) \<Rightarrow> Inr (set_holder i (Buffer None) s))"

text \<open>The move of the variant copies a pointer, or the bytes of the buffer, which are not an object yet.\<close>

definition move_holder :: "nat \<Rightarrow> nat \<Rightarrow> 'c uf_state \<Rightarrow> 'c uf_state result" where
  "move_holder i j s =
     (case uf_vars s j of
        None \<Rightarrow> Inl (Undefined_behaviour ''no such object'')
      | Some (Buffer b) \<Rightarrow> Inr (if i = j then s else set_holder i (Buffer None) s)
      | Some h \<Rightarrow> Inr (set_holder i h s))"

definition move_construct :: "nat \<Rightarrow> nat \<Rightarrow> 'c uf_state \<Rightarrow> 'c uf_state result" where
  "move_construct i j s =
     (case uf_vars s j of
        None \<Rightarrow> Inl (Undefined_behaviour ''no such object'')
      | Some (Buffer None) \<Rightarrow> Inl (Undefined_behaviour ''move of a destroyed object'')
      | Some (Buffer (Some f)) \<Rightarrow> Inr (set_holder j Monostate (set_holder i (Buffer (Some f)) s))
      | Some _ \<Rightarrow> Inr (set_holder j Monostate s))"

definition uf_move_ctor :: "nat \<Rightarrow> nat \<Rightarrow> 'c uf_state \<Rightarrow> 'c uf_state result" where
  "uf_move_ctor i j s = bind_res (move_holder i j s) (move_construct i j)"

definition uf_move_assign :: "nat \<Rightarrow> nat \<Rightarrow> 'c uf_state \<Rightarrow> 'c uf_state result" where
  "uf_move_assign i j s = bind_res (uf_destroy i s) (\<lambda>s. bind_res (move_holder i j s) (move_construct i j))"

definition uf_assign :: "nat \<Rightarrow> ptr \<Rightarrow> 'c \<Rightarrow> nat \<Rightarrow> 'c uf_state \<Rightarrow> 'c uf_state result" where
  "uf_assign i p f sz s = bind_res (uf_destroy i s) (\<lambda>s. Inr (uf_construct i p f sz s))"

definition uf_dtor :: "nat \<Rightarrow> 'c uf_state \<Rightarrow> 'c uf_state result" where
  "uf_dtor i s = bind_res (uf_destroy i s) (\<lambda>s. Inr (s\<lparr>uf_vars := (uf_vars s)(i := None)\<rparr>))"

text \<open>\<open>operator()\<close> calls the function object that \<open>get\<close> finds.  \<open>get\<close> is \<open>noexcept\<close>, so that the exception of
  \<open>std::get\<close> on an empty object ends the program.\<close>

definition uf_get :: "nat \<Rightarrow> 'c uf_state \<Rightarrow> 'c result" where
  "uf_get i s =
     (case uf_vars s i of
        None \<Rightarrow> Inl (Undefined_behaviour ''no such object'')
      | Some (Buffer (Some f)) \<Rightarrow> Inr f
      | Some (Buffer None) \<Rightarrow> Inl (Undefined_behaviour ''call of a destroyed object'')
      | Some (Heap_ptr p) \<Rightarrow> (case uf_heap s p of Some f \<Rightarrow> Inr f | None \<Rightarrow> Inl (Undefined_behaviour ''call of a deleted object''))
      | Some Monostate \<Rightarrow> Inl (Terminate ''bad_variant_access''))"

definition uf_bool :: "nat \<Rightarrow> 'c uf_state \<Rightarrow> bool" where
  "uf_bool i s \<longleftrightarrow> uf_vars s i \<noteq> Some Monostate"

section \<open>Specification\<close>

text \<open>A variable that exists holds at most one function.  The operations of a program, and their effect.\<close>

type_synonym 'c holds = "nat \<Rightarrow> 'c option option"

datatype 'c uf_op =
    Default nat
  | Construct nat ptr 'c nat
  | Move_ctor nat nat
  | Move_assign nat nat
  | Assign nat ptr 'c nat
  | Destruct nat

fun uf_run :: "'c uf_op \<Rightarrow> 'c uf_state \<Rightarrow> 'c uf_state result" where
  "uf_run (Default i) s = Inr (uf_default i s)"
| "uf_run (Construct i p f sz) s = Inr (uf_construct i p f sz s)"
| "uf_run (Move_ctor i j) s = uf_move_ctor i j s"
| "uf_run (Move_assign i j) s = uf_move_assign i j s"
| "uf_run (Assign i p f sz) s = uf_assign i p f sz s"
| "uf_run (Destruct i) s = uf_dtor i s"

fun spec_run :: "'c uf_op \<Rightarrow> 'c holds \<Rightarrow> 'c holds" where
  "spec_run (Default i) t = t(i \<mapsto> None)"
| "spec_run (Construct i p f sz) t = t(i \<mapsto> Some f)"
| "spec_run (Move_ctor i j) t = t(j \<mapsto> None, i := t j)"
| "spec_run (Move_assign i j) t = t(j \<mapsto> None, i := t j)"
| "spec_run (Assign i p f sz) t = t(i \<mapsto> Some f)"
| "spec_run (Destruct i) t = t(i := None)"

text \<open>What a program may do: constructors are for new variables, everything else for existing ones, \<open>new\<close> returns free
  memory, and a variable is not moved to itself.\<close>

fun uf_legal :: "'c uf_op \<Rightarrow> 'c uf_state \<Rightarrow> bool" where
  "uf_legal (Default i) s \<longleftrightarrow> uf_vars s i = None"
| "uf_legal (Construct i p f sz) s \<longleftrightarrow> uf_vars s i = None \<and> uf_heap s p = None"
| "uf_legal (Move_ctor i j) s \<longleftrightarrow> uf_vars s i = None \<and> uf_vars s j \<noteq> None"
| "uf_legal (Move_assign i j) s \<longleftrightarrow> uf_vars s i \<noteq> None \<and> uf_vars s j \<noteq> None \<and> i \<noteq> j"
| "uf_legal (Assign i p f sz) s \<longleftrightarrow> uf_vars s i \<noteq> None \<and> uf_heap s p = None"
| "uf_legal (Destruct i) s \<longleftrightarrow> uf_vars s i \<noteq> None"

fun uf_legal_run :: "'c uf_op list \<Rightarrow> 'c uf_state \<Rightarrow> bool" where
  "uf_legal_run [] s \<longleftrightarrow> True"
| "uf_legal_run (x # xs) s \<longleftrightarrow> uf_legal x s \<and> (case uf_run x s of Inr v \<Rightarrow> uf_legal_run xs v | Inl _ \<Rightarrow> True)"

definition uf_abs :: "'c uf_state \<Rightarrow> 'c holds" where
  "uf_abs s i =
     (case uf_vars s i of
        None \<Rightarrow> None
      | Some Monostate \<Rightarrow> Some None
      | Some (Heap_ptr p) \<Rightarrow> Some (uf_heap s p)
      | Some (Buffer b) \<Rightarrow> Some b)"

definition uf_ptr :: "'c uf_state \<Rightarrow> nat \<Rightarrow> ptr option" where
  "uf_ptr s i = (case uf_vars s i of Some (Heap_ptr p) \<Rightarrow> Some p | _ \<Rightarrow> None)"

text \<open>The objects on the heap are owned by one variable each, and every buffer holds an object.\<close>

definition uf_inv :: "'c uf_state \<Rightarrow> bool" where
  "uf_inv s \<longleftrightarrow> uniquely (uf_ptr s) (\<lambda>p. uf_heap s p \<noteq> None) \<and> (\<forall>i. uf_vars s i \<noteq> Some (Buffer None))"

section \<open>Refinement\<close>

definition without :: "nat \<Rightarrow> 'c uf_state \<Rightarrow> 'c uf_state" where
  "without i s = s\<lparr>uf_vars := (uf_vars s)(i := None)\<rparr>"

lemma uf_ptr_live: "uf_inv s \<Longrightarrow> uf_vars s i = Some (Heap_ptr p) \<Longrightarrow> uf_heap s p \<noteq> None"
  using uniquely_live [of "uf_ptr s" "\<lambda>p. uf_heap s p \<noteq> None" i p] by (simp add: uf_inv_def uf_ptr_def)

lemma uf_ptr_unique: "uf_inv s \<Longrightarrow> uf_vars s i = Some (Heap_ptr p) \<Longrightarrow> uf_vars s j = Some (Heap_ptr p) \<Longrightarrow> i = j"
proof -
  assume inv: "uf_inv s" and "uf_vars s i = Some (Heap_ptr p)" "uf_vars s j = Some (Heap_ptr p)"
  then have "uf_ptr s i = Some p" "uf_ptr s j = Some p"
    by (simp_all add: uf_ptr_def)
  with inv show "i = j"
    unfolding uf_inv_def uniquely_def by blast
qed

lemma uf_destroy_ok:
  assumes inv: "uf_inv s" and i: "uf_vars s i \<noteq> None"
  shows "\<exists>v. uf_destroy i s = Inr v \<and> uf_inv (without i v) \<and> uf_abs (without i v) = (uf_abs s)(i := None) \<and>
    (\<forall>p. uf_heap s p = None \<longrightarrow> uf_heap v p = None) \<and> (\<forall>j. j \<noteq> i \<longrightarrow> uf_vars v j = uf_vars s j)"
proof -
  obtain h where h: "uf_vars s i = Some h"
    using i by blast
  have u: "uniquely ((uf_ptr s)(i := None)) (\<lambda>a. uf_heap s a \<noteq> None \<and> uf_ptr s i \<noteq> Some a)"
    using uniquely_drop [of "uf_ptr s" "\<lambda>p. uf_heap s p \<noteq> None" i] inv by (simp add: uf_inv_def)
  have nb: "uf_vars s k \<noteq> Some (Buffer None)" for k
    using inv by (simp add: uf_inv_def)
  let ?v = "case h of Monostate \<Rightarrow> s | Heap_ptr p \<Rightarrow> s\<lparr>uf_heap := (uf_heap s)(p := None)\<rparr> | Buffer b \<Rightarrow> set_holder i (Buffer None) s"
  have v: "uf_destroy i s = Inr ?v"
    using h nb [of i] uf_ptr_live [OF inv, of i] by (auto simp: uf_destroy_def split: holder.split option.split)
  have ptr: "uf_ptr (without i ?v) = (uf_ptr s)(i := None)"
    by (auto simp: uf_ptr_def without_def fun_eq_iff split: holder.split)
  have heap: "(\<lambda>p. uf_heap (without i ?v) p \<noteq> None) = (\<lambda>a. uf_heap s a \<noteq> None \<and> uf_ptr s i \<noteq> Some a)"
    using h by (auto simp: uf_ptr_def without_def fun_eq_iff split: holder.split)
  have "uf_inv (without i ?v)"
    unfolding uf_inv_def ptr heap using u nb by (auto simp: without_def split: holder.split)
  moreover have "uf_abs (without i ?v) = (uf_abs s)(i := None)"
  proof
    fix k
    show "uf_abs (without i ?v) k = ((uf_abs s)(i := None)) k"
      using uf_ptr_unique [OF inv, of i _ k] h
      by (cases "k = i") (auto simp: uf_abs_def without_def split: holder.split option.split)
  qed
  ultimately show ?thesis
    using v by (intro exI [of _ ?v]) (auto split: holder.split)
qed

lemma uf_construct_ok:
  assumes inv: "uf_inv s" and i: "uf_vars s i = None" and p: "uf_heap s p = None"
  shows "uf_inv (uf_construct i p f sz s) \<and> uf_abs (uf_construct i p f sz s) = (uf_abs s)(i \<mapsto> Some f)"
proof (cases "is_large sz")
  case True
  let ?v = "uf_construct i p f sz s"
  have v: "?v = set_holder i (Heap_ptr p) (s\<lparr>uf_heap := (uf_heap s)(p \<mapsto> f)\<rparr>)"
    using True by (simp add: uf_construct_def)
  have "uf_ptr ?v = (uf_ptr s)(i := Some p)" "(\<lambda>q. uf_heap ?v q \<noteq> None) = (\<lambda>q. uf_heap s q \<noteq> None)(p := True)"
    by (auto simp: v uf_ptr_def fun_eq_iff)
  moreover have "uniquely ((uf_ptr s)(i := Some p)) ((\<lambda>q. uf_heap s q \<noteq> None)(p := True))"
    using uniquely_take [of "uf_ptr s" "\<lambda>q. uf_heap s q \<noteq> None" i p] inv i p by (simp add: uf_inv_def uf_ptr_def)
  ultimately have "uf_inv ?v"
    using inv by (simp add: uf_inv_def v)
  moreover have "uf_vars s k \<noteq> Some (Heap_ptr p)" for k
    using uf_ptr_live [OF inv, of k p] p by auto
  then have "uf_abs ?v = (uf_abs s)(i \<mapsto> Some f)"
    by (auto simp: v uf_abs_def fun_eq_iff split: option.split holder.split)
  ultimately show ?thesis
    by blast
next
  case False
  then have v: "uf_construct i p f sz s = set_holder i (Buffer (Some f)) s"
    by (simp add: uf_construct_def)
  have "uf_ptr (set_holder i (Buffer (Some f)) s) = uf_ptr s"
    using i by (auto simp: uf_ptr_def fun_eq_iff)
  then have "uf_inv (set_holder i (Buffer (Some f)) s)"
    using inv by (simp add: uf_inv_def)
  moreover have "uf_abs (set_holder i (Buffer (Some f)) s) = (uf_abs s)(i \<mapsto> Some f)"
    by (auto simp: uf_abs_def fun_eq_iff split: option.split holder.split)
  ultimately show ?thesis
    unfolding v by blast
qed

lemma uf_move_ok:
  assumes inv: "uf_inv s" and i: "uf_vars s i = None" and j: "uf_vars s j \<noteq> None"
  shows "\<exists>v. uf_move_ctor i j s = Inr v \<and> uf_inv v \<and> uf_abs v = (uf_abs s)(j \<mapsto> None, i := uf_abs s j)"
proof -
  obtain h where h: "uf_vars s j = Some h"
    using j by blast
  have ij: "i \<noteq> j"
    using i j by auto
  let ?v = "set_holder j Monostate (set_holder i h s)"
  have "h \<noteq> Buffer None"
    using inv h by (auto simp: uf_inv_def)
  then have v: "uf_move_ctor i j s = Inr ?v"
    using h ij by (cases h) (auto simp: uf_move_ctor_def move_holder_def move_construct_def split: option.split)
  have "uf_ptr ?v = (uf_ptr s)(j := None, i := uf_ptr s j)"
    using h ij by (auto simp: uf_ptr_def fun_eq_iff)
  then have "uniquely (uf_ptr ?v) (\<lambda>p. uf_heap ?v p \<noteq> None)"
    using uniquely_move [of "uf_ptr s" "\<lambda>p. uf_heap s p \<noteq> None" i j] inv i by (simp add: uf_inv_def uf_ptr_def)
  then have "uf_inv ?v"
    using inv \<open>h \<noteq> Buffer None\<close> by (auto simp: uf_inv_def)
  moreover have "uf_abs ?v = (uf_abs s)(j \<mapsto> None, i := uf_abs s j)"
    using h ij by (auto simp: uf_abs_def fun_eq_iff split: option.split holder.split)
  ultimately show ?thesis
    using v by blast
qed

text \<open>After \<open>destroy\<close> the variable is overwritten, as if it were new.\<close>

lemma overwrite_var:
  "i \<noteq> j \<Longrightarrow> bind_res (move_holder i j v) (move_construct i j) = uf_move_ctor i j (without i v)"
  "uf_construct i p f sz v = uf_construct i p f sz (without i v)"
  by (auto simp: uf_move_ctor_def move_holder_def without_def uf_construct_def split: option.split holder.split)

lemma uf_step_refines:
  assumes inv: "uf_inv s" and legal: "uf_legal x s"
  shows "\<exists>v. uf_run x s = Inr v \<and> uf_inv v \<and> uf_abs v = spec_run x (uf_abs s)"
proof (cases x)
  case (Default i)
  have "uf_ptr (uf_default i s) = uf_ptr s"
    using legal Default by (auto simp: uf_default_def uf_ptr_def fun_eq_iff)
  then have "uf_inv (uf_default i s)"
    using inv by (simp add: uf_inv_def uf_default_def)
  moreover have "uf_abs (uf_default i s) = (uf_abs s)(i \<mapsto> None)"
    by (auto simp: uf_default_def uf_abs_def fun_eq_iff split: option.split holder.split)
  ultimately show ?thesis
    using Default by simp
next
  case (Construct i p f sz)
  then show ?thesis
    using uf_construct_ok [OF inv, of i p f sz] legal by simp
next
  case (Move_ctor i j)
  then show ?thesis
    using uf_move_ok [OF inv, of i j] legal by simp
next
  case (Move_assign i j)
  with legal have l: "uf_vars s i \<noteq> None" "uf_vars s j \<noteq> None" "i \<noteq> j"
    by simp_all
  obtain v where v: "uf_destroy i s = Inr v" "uf_inv (without i v)" "uf_abs (without i v) = (uf_abs s)(i := None)" "uf_vars v j = uf_vars s j"
    using uf_destroy_ok [OF inv l(1)] l(3) by metis
  have "uf_vars (without i v) i = None" "uf_vars (without i v) j \<noteq> None"
    using l v(4) by (simp_all add: without_def)
  from uf_move_ok [OF v(2) this] v(1,3) l(3) Move_assign show ?thesis
    by (auto simp: uf_move_assign_def overwrite_var fun_upd_twist)
next
  case (Assign i p f sz)
  with legal have l: "uf_vars s i \<noteq> None" "uf_heap s p = None"
    by simp_all
  obtain v where v: "uf_destroy i s = Inr v" "uf_inv (without i v)" "uf_abs (without i v) = (uf_abs s)(i := None)" "uf_heap v p = None"
    using uf_destroy_ok [OF inv l(1)] l(2) by metis
  have "uf_vars (without i v) i = None" "uf_heap (without i v) p = None"
    using v(4) by (simp_all add: without_def)
  from uf_construct_ok [OF v(2) this, of f sz] v(1,3) Assign show ?thesis
    by (simp add: uf_assign_def overwrite_var(2) [of i p f sz v])
next
  case (Destruct i)
  then show ?thesis
    using uf_destroy_ok [OF inv, of i] legal by (auto simp: uf_dtor_def without_def)
qed

definition uf_empty :: "'c uf_state" where
  "uf_empty = \<lparr>uf_vars = (\<lambda>_. None), uf_heap = (\<lambda>_. None)\<rparr>"

lemma uf_run_refines:
  "uf_inv s \<Longrightarrow> uf_legal_run xs s \<Longrightarrow>
    \<exists>v. fold_res uf_run xs s = Inr v \<and> uf_inv v \<and> uf_abs v = fold spec_run xs (uf_abs s)"
proof (induction xs arbitrary: s)
  case (Cons x xs)
  obtain v where v: "uf_run x s = Inr v" "uf_inv v" "uf_abs v = spec_run x (uf_abs s)"
    using uf_step_refines [OF Cons.prems(1)] Cons.prems(2) by auto
  with Cons.IH [OF v(2)] Cons.prems(2) show ?case
    by simp
qed simp

text \<open>Assigning a wrapper to itself: a small function is moved after it has been destroyed, and a large one is
  deleted, which leaves the wrapper empty.\<close>

lemma uf_self_move_small:
  "uf_vars s i = Some (Buffer (Some f)) \<Longrightarrow> uf_move_assign i i s = Inl (Undefined_behaviour ''move of a destroyed object'')"
  by (simp add: uf_move_assign_def uf_destroy_def move_holder_def move_construct_def)

lemma uf_self_move_large:
  "uf_vars s i = Some (Heap_ptr p) \<Longrightarrow> uf_heap s p \<noteq> None \<Longrightarrow> \<exists>v. uf_move_assign i i s = Inr v \<and> uf_abs v i = Some None"
  by (simp add: uf_move_assign_def uf_destroy_def move_holder_def move_construct_def uf_abs_def)



end
