(* ===== verification/Fortran_Bindings.thy ===== *)
theory Fortran_Bindings
  imports Communicator_Api Buffer_Data Context_Lifetime Mpi_Example
begin

text \<open>
  The Fortran bindings (\<open>bindings/fortran\<close>): C functions over the C++ interface, and the Fortran
  procedures that handle their optional arguments.  A Fortran program holds a communicator through a
  pointer to an \<open>obj_wrapper\<close>, a message through a pointer to a C++ message buffer object, and a request
  as the bytes of a C++ request object beside a flag that says which kind of object they are.  The
  transport is a parameter, a record of its functions.
\<close>

section \<open>Data\<close>

text \<open>\<open>frequest_type\<close>: the bytes of \<open>data\<close> are zero (as a Fortran program initialises them), or an object
  that was constructed there, of the type it was constructed with.\<close>

datatype request_object =
    Zeroed
  | Send_request "ptr option"
  | Recv_request "ptr option"
  | Send_multi_request ptr

record frequest_type =
  fr_data :: request_object
  recv_request :: bool

text \<open>The function objects given to the communicator: a Fortran procedure, if any, and the user data.\<close>

datatype fort_callback =
    Callback "nat option" ptr
  | Callback_ref "nat option" ptr
  | Callback_multi "nat option" ptr
  | Callback_multi_ref "nat option" ptr

text \<open>A call of a Fortran callback procedure: the address of the message, rank, tag and user data.\<close>

record fort_call =
  fc_procedure :: nat
  fc_message :: ptr
  fc_rank :: "32 word"
  fc_tag :: "32 word"
  fc_user_data :: ptr

text \<open>What the bindings use of a transport, for each communicator.\<close>

record ('u, 'w) transport =
  tr_rank :: "nat \<Rightarrow> 32 word"
  tr_size :: "nat \<Rightarrow> 32 word"
  tr_send :: "nat \<Rightarrow> ('u, 'w) core"
  tr_recv :: "nat \<Rightarrow> ('u, 'w) core"
  tr_progress :: "nat \<Rightarrow> 'w \<Rightarrow> 'w result"
  tr_cancel :: "nat \<Rightarrow> ptr \<Rightarrow> 'w \<Rightarrow> (bool \<times> 'w) result"

text \<open>The state: the three globals of \<open>context_bind.cpp\<close> (of the barrier, its number of threads, and whether the object exists), the
  lifetimes of contexts and communicators, the \<open>obj_wrapper\<close>s with the address of the communicator state
  of the communicator in them, the message objects on the C++ heap, the live allocations of buffers, the
  heap and the bytes in it, the Fortran variables that hold a message or a communicator, the requests,
  and the store of the transport.\<close>

record ('h, 'w) fort =
  oomph_context :: "ptr option"
  oomph_barrier_obj :: "size_t option"
  barrier_alive :: bool
  fort_nthreads :: "32 word"
  fo_life :: life
  fo_wrappers :: "ptr \<Rightarrow> ptr option"
  fo_objects :: "ptr \<Rightarrow> bool"
  fo_live :: "ptr \<Rightarrow> bool"
  fo_heap :: 'h
  fo_bytes :: "ptr \<Rightarrow> 8 word"
  message_vars :: "ptr \<Rightarrow> ptr option"
  comm_vars :: "ptr \<Rightarrow> ptr option"
  frequests :: "ptr \<Rightarrow> frequest_type"
  fo_store :: 'w

section \<open>Context and barrier\<close>

definition fort_get_context :: "('h, 'w) fort \<Rightarrow> ptr result" where
  "fort_get_context f =
     (case oomph_context f of None \<Rightarrow> Inl (Undefined_behaviour ''null context'') | Some ctx \<Rightarrow> Inr ctx)"

definition fort_barrier :: "('h, 'w) fort \<Rightarrow> size_t result" where
  "fort_barrier f =
     (case oomph_barrier_obj f of
        None \<Rightarrow> Inl (Undefined_behaviour ''null barrier'')
      | Some n \<Rightarrow> if barrier_alive f then Inr n else Inl (Undefined_behaviour ''barrier destroyed''))"

text \<open>\<open>ctx\<close> is the address of the new context, \<open>enable_barrier\<close> the build option.  The number of threads is
  converted to \<open>size_t\<close> for the barrier.\<close>

definition oomph_init :: "bool \<Rightarrow> ptr \<Rightarrow> 32 word \<Rightarrow> ('h, 'w) fort \<Rightarrow> ('h, 'w) fort" where
  "oomph_init enable_barrier ctx n f =
     f\<lparr>oomph_context := Some ctx, fo_life := context_ctor ctx (fo_life f), fort_nthreads := n,
       oomph_barrier_obj := (if enable_barrier then Some (scast n) else oomph_barrier_obj f),
       barrier_alive := (enable_barrier \<or> barrier_alive f)\<rparr>"

text \<open>\<open>new oomph::context{ccomm, nthreads > 1}\<close>\<close>

definition init_thread_safe :: "32 word \<Rightarrow> bool" where
  "init_thread_safe n \<longleftrightarrow> 1 < sint n"

text \<open>\<open>delete\<close> of a null pointer does nothing; the globals keep their values, here the addresses of
  objects that are gone.\<close>

definition delete_context :: "('h, 'w) fort \<Rightarrow> ('h, 'w) fort result" where
  "delete_context f =
     (case oomph_context f of
        None \<Rightarrow> Inr f
      | Some ctx \<Rightarrow> bind_res (context_dtor ctx (fo_life f)) (\<lambda>l. Inr (f\<lparr>fo_life := l\<rparr>)))"

definition oomph_finalize :: "bool \<Rightarrow> ('h, 'w) fort \<Rightarrow> ('h, 'w) fort result" where
  "oomph_finalize enable_barrier f =
     bind_res (delete_context f) (\<lambda>f.
     if \<not> enable_barrier \<or> oomph_barrier_obj f = None then Inr f
     else if barrier_alive f then Inr (f\<lparr>barrier_alive := False\<rparr>)
     else Inl (Undefined_behaviour ''barrier destroyed''))"

text \<open>Which barrier function a call runs.\<close>

datatype barrier_call = Thread_barrier | Rank_barrier | Full_barrier

definition oomph_barrier :: "32 word \<Rightarrow> ('h, 'w) fort \<Rightarrow> (barrier_call \<times> size_t) result" where
  "oomph_barrier type f =
     bind_res (fort_barrier f) (\<lambda>n.
       Inr (if type = 2 then Thread_barrier else if type = 3 then Rank_barrier else Full_barrier, n))"

section \<open>Communicators\<close>

text \<open>\<open>a\<close> is the address of the wrapper, \<open>p\<close> and \<open>q\<close> those of the communicator and its state.\<close>

definition oomph_get_communicator ::
    "nat \<Rightarrow> ptr \<Rightarrow> ptr \<Rightarrow> ptr \<Rightarrow> ('h, 'w) fort \<Rightarrow> (ptr \<times> ('h, 'w) fort) result" where
  "oomph_get_communicator tid a p q f =
     bind_res (fort_get_context f) (\<lambda>ctx.
     bind_res (context_get_communicator tid ctx p q (fo_life f)) (\<lambda>l.
     Inr (a, f\<lparr>fo_life := l, fo_wrappers := (fo_wrappers f)(a \<mapsto> q)\<rparr>)))"

text \<open>The communicator in a wrapper.  The cast is not checked; the bindings wrap nothing else.\<close>

definition get_object_ptr_unsafe :: "ptr option \<Rightarrow> ('h, 'w) fort \<Rightarrow> nat result" where
  "get_object_ptr_unsafe wrapper f =
     (case wrapper of
        None \<Rightarrow> Inl (Undefined_behaviour ''null wrapper'')
      | Some a \<Rightarrow>
          (case fo_wrappers f a of
             None \<Rightarrow> Inl (Undefined_behaviour ''wrapper freed'')
           | Some q \<Rightarrow>
               (case comm_states (fo_life f) q of
                  None \<Rightarrow> Inl (Undefined_behaviour ''communicator state destroyed'')
                | Some p \<Rightarrow>
                    if impls (fo_life f) p = None then Inl (Undefined_behaviour ''communicator destroyed'')
                    else Inr p)))"

definition oomph_comm_rank :: "('u, 'w) transport \<Rightarrow> ptr option \<Rightarrow> ('h, 'w) fort \<Rightarrow> 32 word result" where
  "oomph_comm_rank T wrapper f = bind_res (get_object_ptr_unsafe wrapper f) (\<lambda>c. Inr (tr_rank T c))"

definition oomph_comm_size :: "('u, 'w) transport \<Rightarrow> ptr option \<Rightarrow> ('h, 'w) fort \<Rightarrow> 32 word result" where
  "oomph_comm_size T wrapper f = bind_res (get_object_ptr_unsafe wrapper f) (\<lambda>c. Inr (tr_size T c))"

definition oomph_comm_progress ::
    "('u, 'w) transport \<Rightarrow> ptr option \<Rightarrow> ('h, 'w) fort \<Rightarrow> ('h, 'w) fort result" where
  "oomph_comm_progress T wrapper f =
     bind_res (get_object_ptr_unsafe wrapper f) (\<lambda>c.
     bind_res (tr_progress T c (fo_store f)) (\<lambda>w. Inr (f\<lparr>fo_store := w\<rparr>)))"

text \<open>\<open>oomph_obj_free\<close> of the variable \<open>v\<close>: it is reset, then the wrapper and the communicator in it are
  destroyed.\<close>

definition oomph_obj_free :: "nat \<Rightarrow> ptr \<Rightarrow> ('h, 'w) fort \<Rightarrow> ('h, 'w) fort result" where
  "oomph_obj_free tid v f =
     (let wrapper = comm_vars f v; f = f\<lparr>comm_vars := (comm_vars f)(v := None)\<rparr> in
      case wrapper of
        None \<Rightarrow> Inr f
      | Some a \<Rightarrow>
          (case fo_wrappers f a of
             None \<Rightarrow> Inl (Undefined_behaviour ''wrapper freed twice'')
           | Some q \<Rightarrow>
               bind_res (communicator_state_dtor tid q (fo_life f)) (\<lambda>l.
               Inr (f\<lparr>fo_life := l, fo_wrappers := (fo_wrappers f)(a := None)\<rparr>))))"

section \<open>Messages\<close>

definition set_message :: "ptr \<Rightarrow> message_buffer \<Rightarrow> ('h, ('r, 'z) request_store_scheme) fort \<Rightarrow>
    ('h, ('r, 'z) request_store_scheme) fort" where
  "set_message x m f =
     f\<lparr>fo_store := (fo_store f)\<lparr>api := (api (fo_store f))\<lparr>messages := (messages (api (fo_store f)))(x := m)\<rparr>\<rparr>\<rparr>"

abbreviation message_of :: "('h, ('r, 'z) request_store_scheme) fort \<Rightarrow> ptr \<Rightarrow> message_buffer" where
  "message_of f x \<equiv> messages (api (fo_store f)) x"

text \<open>An object behind a pointer.\<close>

definition deref :: "ptr \<Rightarrow> ('h, 'w) fort \<Rightarrow> unit result" where
  "deref x f = (if fo_objects f x then Inr () else Inl (Undefined_behaviour ''message freed''))"

text \<open>\<open>oomph_message_new\<close>: \<open>x\<close> is the address of the new object, \<open>dev\<close> the current device if the build has
  device support.\<close>

definition oomph_message_new ::
    "'h heap_lib \<Rightarrow> int option \<Rightarrow> ptr \<Rightarrow> size_t \<Rightarrow> 32 word \<Rightarrow> ('h, ('r, 'z) request_store_scheme) fort \<Rightarrow>
     (ptr \<times> ('h, ('r, 'z) request_store_scheme) fort) result" where
  "oomph_message_new lib dev x n allocator f =
     bind_res (fort_get_context f) (\<lambda>ctx.
     bind_res
       (if allocator = 1 then Inr (make_buffer lib 1 n (fo_heap f))
        else case dev of
            Some d \<Rightarrow> if allocator = 2 then Inr (make_device_buffer lib 1 n d (fo_heap f))
              else Inl (Terminate ''unsupported allocator type'')
          | None \<Rightarrow> Inl (Terminate ''unsupported allocator type'')) (\<lambda>(m, h).
     Inr (x, (set_message x m f)\<lparr>fo_heap := h, fo_objects := (fo_objects f)(x := True),
               fo_live := (case mb_ptr m of None \<Rightarrow> fo_live f | Some a \<Rightarrow> (fo_live f)(a := True))\<rparr>)))"

text \<open>The destructor of the message at \<open>x\<close>, and the end of its storage.\<close>

definition destroy_message ::
    "ptr \<Rightarrow> ('h, ('r, 'z) request_store_scheme) fort \<Rightarrow> ('h, ('r, 'z) request_store_scheme) fort result" where
  "destroy_message x f =
     bind_res (mb_release (message_of f x) (fo_live f)) (\<lambda>l.
     Inr ((set_message x null_buffer f)\<lparr>fo_live := l, fo_objects := (fo_objects f)(x := False)\<rparr>))"

definition oomph_message_free ::
    "ptr option \<Rightarrow> ('h, ('r, 'z) request_store_scheme) fort \<Rightarrow> ('h, ('r, 'z) request_store_scheme) fort result" where
  "oomph_message_free message_ref f =
     (case message_ref of
        None \<Rightarrow> Inr f
      | Some v \<Rightarrow>
          bind_res (case message_vars f v of None \<Rightarrow> Inr f | Some x \<Rightarrow> bind_res (deref x f) (\<lambda>_. destroy_message x f)) (\<lambda>f.
          Inr (f\<lparr>message_vars := (message_vars f)(v := None)\<rparr>)))"

definition oomph_message_zero ::
    "ptr option \<Rightarrow> ('h, ('r, 'z) request_store_scheme) fort \<Rightarrow> ('h, ('r, 'z) request_store_scheme) fort result" where
  "oomph_message_zero message f =
     (case message of
        None \<Rightarrow> Inr f
      | Some x \<Rightarrow>
          bind_res (deref x f) (\<lambda>_.
          let n = mb_size (message_of f x) in
          case mb_data (message_of f x) of
            None \<Rightarrow> Inl (Undefined_behaviour ''memset of a null pointer'')
          | Some a \<Rightarrow> Inr (f\<lparr>fo_bytes := (\<lambda>b. if a \<le> b \<and> b < a + unat n then 0 else fo_bytes f b)\<rparr>)))"

definition oomph_message_data_wrapped ::
    "ptr option \<Rightarrow> ('h, ('r, 'z) request_store_scheme) fort \<Rightarrow> (ptr option \<times> size_t) result" where
  "oomph_message_data_wrapped message f =
     (case message of
        None \<Rightarrow> Inr (None, 0)
      | Some x \<Rightarrow> bind_res (deref x f) (\<lambda>_. Inr (mb_data (message_of f x), mb_size (message_of f x))))"

section \<open>Callbacks\<close>

text \<open>The call operators: whether a Fortran procedure is called, and with what.  \<open>x\<close> is the address of
  the parameter \<open>message\<close> where it is passed by value.  The other combinations do not compile.\<close>

fun fort_invoke :: "ptr \<Rightarrow> fort_callback \<Rightarrow> call_args \<Rightarrow> fort_call option" where
  "fort_invoke x (Callback cb ud) (Args (By_value m) r t) =
     map_option (\<lambda>p. \<lparr>fc_procedure = p, fc_message = x, fc_rank = r, fc_tag = t, fc_user_data = ud\<rparr>) cb"
| "fort_invoke x (Callback_ref cb ud) (Args (By_ref y) r t) =
     map_option (\<lambda>p. \<lparr>fc_procedure = p, fc_message = y, fc_rank = r, fc_tag = t, fc_user_data = ud\<rparr>) cb"
| "fort_invoke x (Callback_multi cb ud) (Multi_tags_args (By_value m) rs ts) =
     map_option (\<lambda>p. \<lparr>fc_procedure = p, fc_message = x, fc_rank = -1, fc_tag = -1, fc_user_data = ud\<rparr>) cb"
| "fort_invoke x (Callback_multi_ref cb ud) (Multi_tags_args (By_ref y) rs ts) =
     map_option (\<lambda>p. \<lparr>fc_procedure = p, fc_message = y, fc_rank = -1, fc_tag = -1, fc_user_data = ud\<rparr>) cb"
| "fort_invoke x _ _ = None"

fun message_arg :: "call_args \<Rightarrow> msg_arg" where
  "message_arg (Args a r t) = a"
| "message_arg (Multi_args a rs t) = a"
| "message_arg (Multi_tags_args a rs ts) = a"

text \<open>A whole call: a message passed by value is moved into the parameter and destroyed at the end.
  \<open>proc\<close> is what the Fortran procedures do.\<close>

definition run_callback ::
    "(fort_call \<Rightarrow> ('h, ('r, 'z) request_store_scheme) fort \<Rightarrow> ('h, ('r, 'z) request_store_scheme) fort result) \<Rightarrow>
     ptr \<Rightarrow> fort_callback \<Rightarrow> call_args \<Rightarrow> ('h, ('r, 'z) request_store_scheme) fort \<Rightarrow>
     ('h, ('r, 'z) request_store_scheme) fort result" where
  "run_callback proc x cb args f =
     (let call = (\<lambda>f. case fort_invoke x cb args of None \<Rightarrow> Inr f | Some c \<Rightarrow> proc c f) in
      case message_arg args of
        By_value m \<Rightarrow>
          bind_res (call ((set_message x m f)\<lparr>fo_objects := (fo_objects f)(x := True)\<rparr>)) (destroy_message x)
      | _ \<Rightarrow> call f)"

section \<open>Requests\<close>

text \<open>The reinterpreting casts.  Zero bytes read as the null pointer; an object of another type may not
  be read.\<close>

fun as_send_request :: "request_object \<Rightarrow> ptr option result" where
  "as_send_request Zeroed = Inr None"
| "as_send_request (Send_request m) = Inr m"
| "as_send_request _ = Inl (Undefined_behaviour ''object of another type'')"

fun as_recv_request :: "request_object \<Rightarrow> ptr option result" where
  "as_recv_request Zeroed = Inr None"
| "as_recv_request (Recv_request m) = Inr m"
| "as_recv_request _ = Inl (Undefined_behaviour ''object of another type'')"

text \<open>What the branches of the four functions have in common; the members of \<open>send_request\<close> and
  \<open>recv_request\<close> do the same.\<close>

definition request_of :: "frequest_type \<Rightarrow> ptr option result" where
  "request_of fr = (if recv_request fr then as_recv_request (fr_data fr) else as_send_request (fr_data fr))"

definition oomph_request_test ::
    "('u, (('c, 'x) request_state_base_scheme, 'z) request_store_scheme) transport \<Rightarrow> ptr \<Rightarrow>
     ('h, (('c, 'x) request_state_base_scheme, 'z) request_store_scheme) fort \<Rightarrow>
     (bool \<times> ('h, (('c, 'x) request_state_base_scheme, 'z) request_store_scheme) fort) result" where
  "oomph_request_test T a f =
     bind_res (request_of (frequests f a)) (\<lambda>m.
     bind_res (request_test (tr_progress T) m (fo_store f)) (\<lambda>(b, w). Inr (b, f\<lparr>fo_store := w\<rparr>)))"

definition oomph_request_ready ::
    "ptr \<Rightarrow> ('h, (('c, 'x) request_state_base_scheme, 'z) request_store_scheme) fort \<Rightarrow> bool result" where
  "oomph_request_ready a f =
     bind_res (request_of (frequests f a)) (\<lambda>m. request_is_ready m (fo_store f))"

definition oomph_request_wait ::
    "('u, (('c, 'x) request_state_base_scheme, 'z) request_store_scheme) transport \<Rightarrow> ptr \<Rightarrow>
     ('h, (('c, 'x) request_state_base_scheme, 'z) request_store_scheme) fort \<Rightarrow>
     ('h, (('c, 'x) request_state_base_scheme, 'z) request_store_scheme) fort result option" where
  "oomph_request_wait T a f =
     (case request_of (frequests f a) of
        Inl e \<Rightarrow> Some (Inl e)
      | Inr m \<Rightarrow> map_option (\<lambda>r. bind_res r (\<lambda>w. Inr (f\<lparr>fo_store := w\<rparr>))) (request_wait (tr_progress T) m (fo_store f)))"

definition oomph_request_cancel ::
    "('u, (('c, 'x) request_state_base_scheme, 'z) request_store_scheme) transport \<Rightarrow> ptr \<Rightarrow>
     ('h, (('c, 'x) request_state_base_scheme, 'z) request_store_scheme) fort \<Rightarrow>
     (bool \<times> ('h, (('c, 'x) request_state_base_scheme, 'z) request_store_scheme) fort) result" where
  "oomph_request_cancel T a f =
     (if recv_request (frequests f a)
      then bind_res (as_recv_request (fr_data (frequests f a))) (\<lambda>m.
           bind_res (request_cancel (tr_cancel T) m (fo_store f)) (\<lambda>(b, w). Inr (b, f\<lparr>fo_store := w\<rparr>)))
      else Inr (False, f))"

text \<open>\<open>oomph_request_init\<close> of the Fortran module.\<close>

definition oomph_request_init :: "ptr \<Rightarrow> ('h, 'w) fort \<Rightarrow> ('h, 'w) fort" where
  "oomph_request_init a f = f\<lparr>frequests := (frequests f)(a := \<lparr>fr_data = Zeroed, recv_request = False\<rparr>)\<rparr>"

text \<open>The size of \<open>data\<close> that \<open>sizes.cpp\<close> writes into the header, from the sizes of the two classes.\<close>

definition OOMPH_REQUEST_SIZE :: "nat \<Rightarrow> nat \<Rightarrow> nat" where
  "OOMPH_REQUEST_SIZE size_send size_recv = (if size_send > size_recv then size_send else size_recv)"

section \<open>Sending and receiving\<close>

text \<open>The test for null pointers, and the access to the communicator and the message.\<close>

definition require_args :: "ptr option \<Rightarrow> ptr option \<Rightarrow> ('h, 'w) fort \<Rightarrow> (nat \<times> ptr) result" where
  "require_args message wcomm f =
     (case message of
        None \<Rightarrow> Inl (Terminate ''NULL message or communicator'')
      | Some x \<Rightarrow>
          if wcomm = None then Inl (Terminate ''NULL message or communicator'')
          else bind_res (get_object_ptr_unsafe wcomm f) (\<lambda>c. bind_res (deref x f) (\<lambda>_. Inr (c, x))))"

text \<open>The message in the variable a reference points to.\<close>

definition referenced :: "ptr option \<Rightarrow> ('h, 'w) fort \<Rightarrow> ptr option" where
  "referenced message_ref f = (case message_ref of None \<Rightarrow> None | Some v \<Rightarrow> message_vars f v)"

definition clear_reference :: "ptr option \<Rightarrow> ('h, 'w) fort \<Rightarrow> ('h, 'w) fort" where
  "clear_reference message_ref f =
     (case message_ref of None \<Rightarrow> f | Some v \<Rightarrow> f\<lparr>message_vars := (message_vars f)(v := None)\<rparr>)"

text \<open>\<open>new(freq->data) decltype(req)(std::move(req)); freq->recv_request = ...\<close>  What was in \<open>data\<close> is not
  destroyed.\<close>

definition place_request :: "request_object \<Rightarrow> bool \<Rightarrow> ptr option \<Rightarrow> ('h, 'w) fort \<Rightarrow> ('h, 'w) fort result" where
  "place_request req is_recv freq f =
     (case freq of
        None \<Rightarrow> Inl (Undefined_behaviour ''null request'')
      | Some a \<Rightarrow> Inr (f\<lparr>frequests := (frequests f)(a := \<lparr>fr_data = req, recv_request = is_recv\<rparr>)\<rparr>))"

text \<open>\<open>if(!freq) return;\<close> before it: the request object is destroyed.  The state of a multiple send is
  not counted in the store.\<close>

definition return_request ::
    "request_object \<Rightarrow> bool \<Rightarrow> ptr option \<Rightarrow> ('h, ('r, 'z) request_store_scheme) fort \<Rightarrow>
     ('h, ('r, 'z) request_store_scheme) fort result" where
  "return_request req is_recv freq f =
     (if freq = None
      then (case req of
          Send_request (Some q) \<Rightarrow> bind_res (drop_handle q (fo_store f)) (\<lambda>w. Inr (f\<lparr>fo_store := w\<rparr>))
        | Recv_request (Some q) \<Rightarrow> bind_res (drop_handle q (fo_store f)) (\<lambda>w. Inr (f\<lparr>fo_store := w\<rparr>))
        | _ \<Rightarrow> Inr f)
      else place_request req is_recv freq f)"

text \<open>\<open>std::vector\<close> of \<open>n\<close> elements, assigned from an array of which \<open>xs\<close> can be read.\<close>

definition vector_from :: "32 word list \<Rightarrow> 32 word \<Rightarrow> 32 word list result" where
  "vector_from xs n =
     (if sint n < 0 then Inl (Logic_error ''std::length_error'')
      else if nat (sint n) \<le> length xs then Inr (take (nat (sint n)) xs)
      else Inl (Undefined_behaviour ''read past the end of an array''))"

subsection \<open>Send\<close>

text \<open>\<open>p\<close> is the address a request state would get.\<close>

definition oomph_comm_post_send ::
    "(fort_callback, ('r, 'z) request_store_scheme) transport \<Rightarrow> ptr \<Rightarrow> ptr option \<Rightarrow> ptr option \<Rightarrow> rank_type \<Rightarrow>
     tag_type \<Rightarrow> ptr option \<Rightarrow> ('h, ('r, 'z) request_store_scheme) fort \<Rightarrow>
     ('h, ('r, 'z) request_store_scheme) fort result" where
  "oomph_comm_post_send T p wcomm message rank tag freq f =
     bind_res (require_args message wcomm f) (\<lambda>(c, x).
     bind_res (comm_send (tr_send T c) p 1 x rank tag (fo_store f)) (\<lambda>(req, w).
     place_request (Send_request req) False freq (f\<lparr>fo_store := w\<rparr>)))"

definition oomph_comm_post_send_cb_wrapped ::
    "(fort_callback, ('r, 'z) request_store_scheme) transport \<Rightarrow> ptr \<Rightarrow> ptr option \<Rightarrow> ptr option \<Rightarrow> rank_type \<Rightarrow>
     tag_type \<Rightarrow> nat option \<Rightarrow> ptr option \<Rightarrow> ptr \<Rightarrow> ('h, ('r, 'z) request_store_scheme) fort \<Rightarrow>
     ('h, ('r, 'z) request_store_scheme) fort result" where
  "oomph_comm_post_send_cb_wrapped T p wcomm message rank tag cb freq user_data f =
     bind_res (require_args message wcomm f) (\<lambda>(c, x).
     bind_res (comm_send_lref (tr_send T c) p 1 x rank tag (Callback_ref cb user_data) (fo_store f)) (\<lambda>(req, w).
     return_request (Send_request req) False freq (f\<lparr>fo_store := w\<rparr>)))"

definition oomph_comm_send_cb_wrapped ::
    "(fort_callback, ('r, 'z) request_store_scheme) transport \<Rightarrow> ptr \<Rightarrow> ptr option \<Rightarrow> ptr option \<Rightarrow> rank_type \<Rightarrow>
     tag_type \<Rightarrow> nat option \<Rightarrow> ptr option \<Rightarrow> ptr \<Rightarrow> ('h, ('r, 'z) request_store_scheme) fort \<Rightarrow>
     ('h, ('r, 'z) request_store_scheme) fort result" where
  "oomph_comm_send_cb_wrapped T p wcomm message_ref rank tag cb freq user_data f =
     bind_res (require_args (referenced message_ref f) wcomm f) (\<lambda>(c, x).
     bind_res (comm_send_rref (tr_send T c) p 1 x rank tag (Callback cb user_data) (fo_store f)) (\<lambda>(req, w).
     return_request (Send_request req) False freq (clear_reference message_ref (f\<lparr>fo_store := w\<rparr>))))"

subsection \<open>Send to several destinations\<close>

text \<open>\<open>m\<close> is the address of the shared state, \<open>ps\<close> are those of the request states.\<close>

definition oomph_comm_post_send_multi_wrapped ::
    "(fort_callback, ('r, 'z) request_store_scheme) transport \<Rightarrow> ptr \<Rightarrow> ptr list \<Rightarrow> ptr option \<Rightarrow> ptr option \<Rightarrow>
     32 word list \<Rightarrow> 32 word \<Rightarrow> 32 word list \<Rightarrow> ptr option \<Rightarrow> ('h, ('r, 'z) request_store_scheme) fort \<Rightarrow>
     ('h, ('r, 'z) request_store_scheme) fort result" where
  "oomph_comm_post_send_multi_wrapped T m ps wcomm message ranks nranks tags freq f =
     bind_res (require_args message wcomm f) (\<lambda>(c, x).
     bind_res (vector_from ranks nranks) (\<lambda>ranks.
     bind_res (vector_from tags nranks) (\<lambda>tags.
     bind_res (send_multi_tags (tr_send T c) c m ps 1 x ranks tags (fo_store f)) (\<lambda>(req, w).
     place_request (Send_multi_request req) False freq (f\<lparr>fo_store := w\<rparr>)))))"

definition oomph_comm_post_send_multi_cb_wrapped ::
    "(fort_callback, ('r, 'z) request_store_scheme) transport \<Rightarrow> ptr \<Rightarrow> ptr list \<Rightarrow> ptr option \<Rightarrow> ptr option \<Rightarrow>
     32 word list \<Rightarrow> 32 word \<Rightarrow> 32 word list \<Rightarrow> nat option \<Rightarrow> ptr option \<Rightarrow> ptr \<Rightarrow>
     ('h, ('r, 'z) request_store_scheme) fort \<Rightarrow> ('h, ('r, 'z) request_store_scheme) fort result" where
  "oomph_comm_post_send_multi_cb_wrapped T m ps wcomm message ranks nranks tags cb freq user_data f =
     bind_res (require_args message wcomm f) (\<lambda>(c, x).
     bind_res (vector_from ranks nranks) (\<lambda>ranks.
     bind_res (vector_from tags nranks) (\<lambda>tags.
     bind_res (send_multi_tags_cb Lref (tr_send T c) c m ps 1 x ranks tags (Callback_multi_ref cb user_data) (fo_store f))
       (\<lambda>(req, w).
     return_request (Send_multi_request req) False freq (f\<lparr>fo_store := w\<rparr>)))))"

definition oomph_comm_send_multi_cb_wrapped ::
    "(fort_callback, ('r, 'z) request_store_scheme) transport \<Rightarrow> ptr \<Rightarrow> ptr list \<Rightarrow> ptr option \<Rightarrow> ptr option \<Rightarrow>
     32 word list \<Rightarrow> 32 word \<Rightarrow> 32 word list \<Rightarrow> nat option \<Rightarrow> ptr option \<Rightarrow> ptr \<Rightarrow>
     ('h, ('r, 'z) request_store_scheme) fort \<Rightarrow> ('h, ('r, 'z) request_store_scheme) fort result" where
  "oomph_comm_send_multi_cb_wrapped T m ps wcomm message_ref ranks nranks tags cb freq user_data f =
     bind_res (require_args (referenced message_ref f) wcomm f) (\<lambda>(c, x).
     bind_res (vector_from ranks nranks) (\<lambda>ranks.
     bind_res (vector_from tags nranks) (\<lambda>tags.
     bind_res (send_multi_tags_cb Rref (tr_send T c) c m ps 1 x ranks tags (Callback_multi cb user_data) (fo_store f))
       (\<lambda>(req, w).
     return_request (Send_multi_request req) False freq (clear_reference message_ref (f\<lparr>fo_store := w\<rparr>))))))"

subsection \<open>Receive\<close>

definition oomph_comm_post_recv ::
    "(fort_callback, ('r, 'z) request_store_scheme) transport \<Rightarrow> ptr \<Rightarrow> ptr option \<Rightarrow> ptr option \<Rightarrow> rank_type \<Rightarrow>
     tag_type \<Rightarrow> ptr option \<Rightarrow> ('h, ('r, 'z) request_store_scheme) fort \<Rightarrow>
     ('h, ('r, 'z) request_store_scheme) fort result" where
  "oomph_comm_post_recv T p wcomm message rank tag freq f =
     bind_res (require_args message wcomm f) (\<lambda>(c, x).
     bind_res (comm_recv (tr_recv T c) p 1 x rank tag (fo_store f)) (\<lambda>(req, w).
     place_request (Recv_request req) True freq (f\<lparr>fo_store := w\<rparr>)))"

definition oomph_comm_post_recv_cb_wrapped ::
    "(fort_callback, ('r, 'z) request_store_scheme) transport \<Rightarrow> ptr \<Rightarrow> ptr option \<Rightarrow> ptr option \<Rightarrow> rank_type \<Rightarrow>
     tag_type \<Rightarrow> nat option \<Rightarrow> ptr option \<Rightarrow> ptr \<Rightarrow> ('h, ('r, 'z) request_store_scheme) fort \<Rightarrow>
     ('h, ('r, 'z) request_store_scheme) fort result" where
  "oomph_comm_post_recv_cb_wrapped T p wcomm message rank tag cb freq user_data f =
     bind_res (require_args message wcomm f) (\<lambda>(c, x).
     bind_res (comm_recv_lref (tr_recv T c) p 1 x rank tag (Callback_ref cb user_data) (fo_store f)) (\<lambda>(req, w).
     return_request (Recv_request req) True freq (f\<lparr>fo_store := w\<rparr>)))"

definition oomph_comm_recv_cb_wrapped ::
    "(fort_callback, ('r, 'z) request_store_scheme) transport \<Rightarrow> ptr \<Rightarrow> ptr option \<Rightarrow> ptr option \<Rightarrow> rank_type \<Rightarrow>
     tag_type \<Rightarrow> nat option \<Rightarrow> ptr option \<Rightarrow> ptr \<Rightarrow> ('h, ('r, 'z) request_store_scheme) fort \<Rightarrow>
     ('h, ('r, 'z) request_store_scheme) fort result" where
  "oomph_comm_recv_cb_wrapped T p wcomm message_ref rank tag cb freq user_data f =
     bind_res (require_args (referenced message_ref f) wcomm f) (\<lambda>(c, x).
     bind_res (comm_recv_rref (tr_recv T c) p 1 x rank tag (Callback cb user_data) (fo_store f)) (\<lambda>(req, w).
     return_request (Recv_request req) True freq (clear_reference message_ref (f\<lparr>fo_store := w\<rparr>))))"

definition oomph_comm_resubmit_recv_wrapped ::
    "(fort_callback, ('r, 'z) request_store_scheme) transport \<Rightarrow> ptr \<Rightarrow> ptr option \<Rightarrow> ptr option \<Rightarrow> rank_type \<Rightarrow>
     tag_type \<Rightarrow> nat option \<Rightarrow> ptr option \<Rightarrow> ptr \<Rightarrow> ('h, ('r, 'z) request_store_scheme) fort \<Rightarrow>
     ('h, ('r, 'z) request_store_scheme) fort result" where
  "oomph_comm_resubmit_recv_wrapped T p wcomm message rank tag cb freq user_data f =
     bind_res (require_args message wcomm f) (\<lambda>(c, x).
     bind_res (comm_recv_rref (tr_recv T c) p 1 x rank tag (Callback cb user_data) (fo_store f)) (\<lambda>(req, w).
     return_request (Recv_request req) True freq (f\<lparr>fo_store := w\<rparr>)))"

section \<open>The Fortran procedures\<close>

text \<open>They call the C functions with a local request at \<open>l\<close>, whose bytes are zero at first, and copy it
  to the optional argument \<open>req\<close>.  The user data, if absent, is the undefined value \<open>ud\<close> of a local
  variable; an absent callback is a null pointer.\<close>

definition local_request ::
    "ptr \<Rightarrow> ptr option \<Rightarrow> (ptr option \<Rightarrow> ('h, 'w) fort \<Rightarrow> ('h, 'w) fort result) \<Rightarrow> ('h, 'w) fort \<Rightarrow>
     ('h, 'w) fort result" where
  "local_request l req post f =
     bind_res (post (Some l) (f\<lparr>frequests := (frequests f)(l := (frequests f l)\<lparr>fr_data := Zeroed\<rparr>)\<rparr>)) (\<lambda>f.
     Inr (case req of None \<Rightarrow> f | Some r \<Rightarrow> f\<lparr>frequests := (frequests f)(r := frequests f l)\<rparr>))"

definition present_or :: "ptr \<Rightarrow> ptr option \<Rightarrow> ptr" where
  "present_or ud user_data = (case user_data of None \<Rightarrow> ud | Some d \<Rightarrow> d)"

definition oomph_comm_post_send_cb where
  "oomph_comm_post_send_cb T p l ud wcomm message rank tag cb req user_data =
     local_request l req (\<lambda>freq.
       oomph_comm_post_send_cb_wrapped T p wcomm message rank tag cb freq (present_or ud user_data))"

definition oomph_comm_send_cb where
  "oomph_comm_send_cb T p l ud wcomm message_ref rank tag cb req user_data =
     local_request l req (\<lambda>freq.
       oomph_comm_send_cb_wrapped T p wcomm message_ref rank tag cb freq (present_or ud user_data))"

text \<open>The number of destinations is the size of the first array, for both arrays.\<close>

definition oomph_comm_post_send_multi where
  "oomph_comm_post_send_multi T m ps wcomm message ranks tags req =
     oomph_comm_post_send_multi_wrapped T m ps wcomm message ranks (of_nat (length ranks)) tags (Some req)"

definition oomph_comm_post_send_multi_cb where
  "oomph_comm_post_send_multi_cb T m ps l ud wcomm message ranks tags cb req user_data =
     local_request l req (\<lambda>freq.
       oomph_comm_post_send_multi_cb_wrapped T m ps wcomm message ranks (of_nat (length ranks)) tags cb freq
         (present_or ud user_data))"

definition oomph_comm_send_multi_cb where
  "oomph_comm_send_multi_cb T m ps l ud wcomm message_ref ranks tags cb req user_data =
     local_request l req (\<lambda>freq.
       oomph_comm_send_multi_cb_wrapped T m ps wcomm message_ref ranks (of_nat (length ranks)) tags cb freq
         (present_or ud user_data))"

definition oomph_comm_post_recv_cb where
  "oomph_comm_post_recv_cb T p l ud wcomm message rank tag cb req user_data =
     local_request l req (\<lambda>freq.
       oomph_comm_post_recv_cb_wrapped T p wcomm message rank tag cb freq (present_or ud user_data))"

definition oomph_comm_recv_cb where
  "oomph_comm_recv_cb T p l ud wcomm message_ref rank tag cb req user_data =
     local_request l req (\<lambda>freq.
       oomph_comm_recv_cb_wrapped T p wcomm message_ref rank tag cb freq (present_or ud user_data))"

definition oomph_comm_resubmit_recv where
  "oomph_comm_resubmit_recv T p l ud wcomm message rank tag cb req user_data =
     local_request l req (\<lambda>freq.
       oomph_comm_resubmit_recv_wrapped T p wcomm message rank tag cb freq (present_or ud user_data))"

section \<open>An example\<close>

text \<open>The bindings over the MPI transport and the example library.  Context 1 has communicator 2, whose
  wrapper is at 4; the message object at 5, in variable 6, owns the allocation at 100.\<close>

definition ex_fort_transport :: "(fort_callback, (fort_callback closure, ex_lib) mpi_world) transport" where
  "ex_fort_transport = \<lparr>tr_rank = (\<lambda>_. 0), tr_size = (\<lambda>_. 2),
     tr_send = mpi_send ex_mpi (exec_closure (\<lambda>_ _ w. w)), tr_recv = mpi_recv ex_mpi (exec_closure (\<lambda>_ _ w. w)),
     tr_progress = mpi_comm_progress ex_mpi (exec_closure (\<lambda>_ _ w. w)), tr_cancel = mpi_cancel_recv ex_mpi\<rparr>"

definition ex_message :: message_buffer where
  "ex_message = \<lparr>mb_ptr = Some 100, mb_heap = Some 100, mb_size = 8\<rparr>"

definition ex_fort :: "(unit, (fort_callback closure, ex_lib) mpi_world) fort" where
  "ex_fort = \<lparr>oomph_context = Some 1, oomph_barrier_obj = None, barrier_alive = False, fort_nthreads = 1,
     fo_life = ex_life, fo_wrappers = [4 \<mapsto> 3], fo_objects = (\<lambda>x. x = 5), fo_live = (\<lambda>a. a = 100), fo_heap = (),
     fo_bytes = (\<lambda>_. 0), message_vars = [6 \<mapsto> 5], comm_vars = [7 \<mapsto> 4],
     frequests = (\<lambda>_. \<lparr>fr_data = Zeroed, recv_request = False\<rparr>),
     fo_store = (init_world ex_lib0)\<lparr>api := \<lparr>messages = (\<lambda>_. null_buffer)(5 := ex_message), multi = (\<lambda>_. None)\<rparr>\<rparr>\<rparr>"

lemmas ex_fort_simps =
  ex_fort_def ex_fort_transport_def ex_life_def ex_message_def require_args_def get_object_ptr_unsafe_def deref_def
  referenced_def clear_reference_def place_request_def return_request_def post_plain_def post_rref_def post_msg_def
  mb_valid_def comm_recv_def comm_recv_rref_def comm_send_def move_message_def mb_moved_from_def null_buffer_def
  ex_lib0_def

lemma ex_fort_recv:
  "\<exists>g. oomph_comm_post_recv ex_fort_transport 1 (Some 4) (Some 5) 1 7 (Some 8) ex_fort = Inr g \<and>
     frequests g 8 = \<lparr>fr_data = Recv_request (Some 1), recv_request = True\<rparr> \<and>
     request_is_ready (Some 1) (fo_store g) = Inr False"
  by (simp add: oomph_comm_post_recv_def ex_fort_simps ex_simps request_is_ready_def)

section \<open>Types of requests\<close>

text \<open>The flag tells the type of the object in \<open>data\<close>.\<close>

fun data_typed :: "bool \<Rightarrow> request_object \<Rightarrow> bool" where
  "data_typed r Zeroed \<longleftrightarrow> True"
| "data_typed r (Send_request m) \<longleftrightarrow> \<not> r"
| "data_typed r (Recv_request m) \<longleftrightarrow> r"
| "data_typed r (Send_multi_request m) \<longleftrightarrow> False"

definition freq_typed :: "frequest_type \<Rightarrow> bool" where
  "freq_typed fr \<longleftrightarrow> data_typed (recv_request fr) (fr_data fr)"

definition requests_typed :: "('h, 'w) fort \<Rightarrow> bool" where
  "requests_typed f \<longleftrightarrow> (\<forall>a. freq_typed (frequests f a))"

text \<open>The object of a request of either type.\<close>

fun object_ref :: "request_object \<Rightarrow> ptr option" where
  "object_ref (Send_request m) = m"
| "object_ref (Recv_request m) = m"
| "object_ref _ = None"

text \<open>Progress: a typed request can be read.\<close>

lemma freq_typed_request_of: "freq_typed fr \<Longrightarrow> request_of fr = Inr (object_ref (fr_data fr))"
  by (cases "fr_data fr") (auto simp: freq_typed_def request_of_def)

lemma freq_typed_recv: "freq_typed fr \<Longrightarrow> recv_request fr \<Longrightarrow> as_recv_request (fr_data fr) = Inr (object_ref (fr_data fr))"
  using freq_typed_request_of [of fr] by (simp add: request_of_def)

text \<open>Preservation.\<close>

lemma requests_typed_upd [intro]:
  "requests_typed f \<Longrightarrow> freq_typed fr \<Longrightarrow> requests_typed (f\<lparr>frequests := (frequests f)(a := fr)\<rparr>)"
  by (simp add: requests_typed_def)

lemma requests_typed_store [simp]: "requests_typed (f\<lparr>fo_store := w\<rparr>) \<longleftrightarrow> requests_typed f"
  by (simp add: requests_typed_def)

lemma requests_typed_clear [simp]: "requests_typed (clear_reference v f) \<longleftrightarrow> requests_typed f"
  by (simp add: requests_typed_def clear_reference_def split: option.splits)

lemma place_request_typed:
  assumes "place_request req r freq f = Inr g" "requests_typed f" "data_typed r req"
  shows "requests_typed g"
  using assms by (auto simp: place_request_def freq_typed_def split: option.splits)

lemma return_request_typed:
  assumes "return_request req r freq f = Inr g" "requests_typed f" "freq = None \<or> data_typed r req"
  shows "requests_typed g"
proof (cases "freq = None")
  case True
  with assms show ?thesis
    by (auto simp: return_request_def bind_res_eq_Inr split: request_object.splits option.splits)
next
  case False
  with assms place_request_typed show ?thesis
    by (auto simp: return_request_def)
qed

lemma local_request_typed:
  assumes "local_request l req post f = Inr g" "requests_typed f"
    and "\<And>f g. post (Some l) f = Inr g \<Longrightarrow> requests_typed f \<Longrightarrow> requests_typed g"
  shows "requests_typed g"
proof -
  define f0 where "f0 = f\<lparr>frequests := (frequests f)(l := (frequests f l)\<lparr>fr_data := Zeroed\<rparr>)\<rparr>"
  have "requests_typed f0"
    using assms(2) by (simp add: requests_typed_def f0_def freq_typed_def)
  moreover obtain f1 where f1: "post (Some l) f0 = Inr f1"
      "g = (case req of None \<Rightarrow> f1 | Some r \<Rightarrow> f1\<lparr>frequests := (frequests f1)(r := frequests f1 l)\<rparr>)"
    using assms(1) unfolding local_request_def bind_res_eq_Inr f0_def by auto
  ultimately have "requests_typed f1"
    using assms(3) by blast
  then show ?thesis
    by (auto simp: f1(2) requests_typed_def split: option.splits)
qed

text \<open>The functions that post single messages; \<open>post_defs\<close> are their definitions.\<close>

lemmas post_defs =
  oomph_comm_post_send_def oomph_comm_post_send_cb_wrapped_def oomph_comm_send_cb_wrapped_def
  oomph_comm_post_recv_def oomph_comm_post_recv_cb_wrapped_def oomph_comm_recv_cb_wrapped_def
  oomph_comm_resubmit_recv_wrapped_def

lemmas multi_post_defs =
  oomph_comm_post_send_multi_wrapped_def oomph_comm_post_send_multi_cb_wrapped_def
  oomph_comm_send_multi_cb_wrapped_def

lemma posts_typed:
  assumes "requests_typed f"
  shows "oomph_comm_post_send T p wc x r t fr f = Inr g \<Longrightarrow> requests_typed g"
    and "oomph_comm_post_send_cb_wrapped T p wc x r t cb fr ud f = Inr g \<Longrightarrow> requests_typed g"
    and "oomph_comm_send_cb_wrapped T p wc x r t cb fr ud f = Inr g \<Longrightarrow> requests_typed g"
    and "oomph_comm_post_recv T p wc x r t fr f = Inr g \<Longrightarrow> requests_typed g"
    and "oomph_comm_post_recv_cb_wrapped T p wc x r t cb fr ud f = Inr g \<Longrightarrow> requests_typed g"
    and "oomph_comm_recv_cb_wrapped T p wc x r t cb fr ud f = Inr g \<Longrightarrow> requests_typed g"
    and "oomph_comm_resubmit_recv_wrapped T p wc x r t cb fr ud f = Inr g \<Longrightarrow> requests_typed g"
    and "oomph_comm_post_send_multi_cb_wrapped T p ps wc x rs n ts cb None ud f = Inr g \<Longrightarrow> requests_typed g"
    and "oomph_comm_send_multi_cb_wrapped T p ps wc x rs n ts cb None ud f = Inr g \<Longrightarrow> requests_typed g"
  using assms
  by (auto simp: post_defs multi_post_defs bind_res_eq_Inr split: prod.splits
      dest!: place_request_typed return_request_typed)

text \<open>What a program does with the bindings: every function, except that it takes no request from a
  multiple send.  The Fortran procedures for multiple sends always take one.  Memory for a new message
  object is not in use.  What a Fortran callback does are further steps of the program.\<close>

inductive fort_step ::
    "(fort_callback, (('c, 'x) request_state_base_scheme, 'z) request_store_scheme) transport \<Rightarrow>
     ('h, (('c, 'x) request_state_base_scheme, 'z) request_store_scheme) fort \<Rightarrow>
     ('h, (('c, 'x) request_state_base_scheme, 'z) request_store_scheme) fort \<Rightarrow> bool" for T where
  init: "fort_step T f (oomph_init eb ctx n f)"
| finalize: "oomph_finalize eb f = Inr g \<Longrightarrow> fort_step T f g"
| get_communicator: "oomph_get_communicator tid a p q f = Inr (b, g) \<Longrightarrow>
    fort_step T f (g\<lparr>comm_vars := (comm_vars g)(v \<mapsto> b)\<rparr>)"
| obj_free: "oomph_obj_free tid v f = Inr g \<Longrightarrow> fort_step T f g"
| comm_progress: "oomph_comm_progress T wc f = Inr g \<Longrightarrow> fort_step T f g"
| message_new: "oomph_message_new lib dev x n al f = Inr (y, g) \<Longrightarrow> \<not> fo_objects f x \<Longrightarrow>
    fort_step T f (g\<lparr>message_vars := (message_vars g)(v \<mapsto> y)\<rparr>)"
| message_copy: "fort_step T f (f\<lparr>message_vars := (message_vars f)(v := message_vars f u)\<rparr>)"
| message_free: "oomph_message_free v f = Inr g \<Longrightarrow> fort_step T f g"
| message_zero: "oomph_message_zero v f = Inr g \<Longrightarrow> fort_step T f g"
| request_init: "fort_step T f (oomph_request_init a f)"
| request_copy: "fort_step T f (f\<lparr>frequests := (frequests f)(a := frequests f b)\<rparr>)"
| request_test: "oomph_request_test T a f = Inr (b, g) \<Longrightarrow> fort_step T f g"
| request_wait: "oomph_request_wait T a f = Some (Inr g) \<Longrightarrow> fort_step T f g"
| request_cancel: "oomph_request_cancel T a f = Inr (b, g) \<Longrightarrow> fort_step T f g"
| post_send: "oomph_comm_post_send T p wc x r t fr f = Inr g \<Longrightarrow> fort_step T f g"
| post_send_cb: "oomph_comm_post_send_cb T p l ud wc x r t cb fr d f = Inr g \<Longrightarrow> fort_step T f g"
| send_cb: "oomph_comm_send_cb T p l ud wc x r t cb fr d f = Inr g \<Longrightarrow> fort_step T f g"
| post_recv: "oomph_comm_post_recv T p wc x r t fr f = Inr g \<Longrightarrow> fort_step T f g"
| post_recv_cb: "oomph_comm_post_recv_cb T p l ud wc x r t cb fr d f = Inr g \<Longrightarrow> fort_step T f g"
| recv_cb: "oomph_comm_recv_cb T p l ud wc x r t cb fr d f = Inr g \<Longrightarrow> fort_step T f g"
| resubmit: "oomph_comm_resubmit_recv T p l ud wc x r t cb fr d f = Inr g \<Longrightarrow> fort_step T f g"
| post_multi: "oomph_comm_post_send_multi_cb_wrapped T p ps wc x rs n ts cb None ud f = Inr g \<Longrightarrow> fort_step T f g"
| send_multi: "oomph_comm_send_multi_cb_wrapped T p ps wc x rs n ts cb None ud f = Inr g \<Longrightarrow> fort_step T f g"

text \<open>Functions that leave the requests alone.\<close>

lemma frequests_frame:
  "frequests (oomph_init eb ctx n f) = frequests f"
  "oomph_finalize eb f = Inr g \<Longrightarrow> frequests g = frequests f"
  "oomph_get_communicator tid a p q f = Inr (b, g) \<Longrightarrow> frequests g = frequests f"
  "oomph_obj_free tid v f = Inr g \<Longrightarrow> frequests g = frequests f"
  "oomph_comm_progress T wc f = Inr g \<Longrightarrow> frequests g = frequests f"
  by (auto simp: oomph_init_def oomph_finalize_def delete_context_def oomph_get_communicator_def oomph_obj_free_def
      oomph_comm_progress_def bind_res_eq_Inr Let_def split: option.splits if_splits)

lemma frequests_frame_store:
  "oomph_message_new lib dev x n al f = Inr (y, g) \<Longrightarrow> frequests g = frequests f"
  "oomph_message_free v f = Inr g \<Longrightarrow> frequests g = frequests f"
  "oomph_message_zero u f = Inr g \<Longrightarrow> frequests g = frequests f"
  by (auto simp: oomph_message_new_def oomph_message_free_def oomph_message_zero_def set_message_def
      destroy_message_def bind_res_eq_Inr Let_def split: option.splits if_splits)

lemma frequests_frame_request:
  "oomph_request_test T a f = Inr (b, g) \<Longrightarrow> frequests g = frequests f"
  "oomph_request_wait T a f = Some (Inr g) \<Longrightarrow> frequests g = frequests f"
  "oomph_request_cancel T a f = Inr (b, g) \<Longrightarrow> frequests g = frequests f"
  by (auto simp: oomph_request_test_def oomph_request_wait_def oomph_request_cancel_def bind_res_eq_Inr
      split: sum.splits if_splits)

lemma requests_typed_cong: "frequests g = frequests f \<Longrightarrow> requests_typed f \<Longrightarrow> requests_typed g"
  by (simp add: requests_typed_def)

lemma fort_step_typed:
  assumes "fort_step T f g" "requests_typed f"
  shows "requests_typed g"
  using assms(1)
proof cases
  case (request_copy a b)
  with assms(2) show ?thesis
    by (simp add: requests_typed_def)
next
  case (message_copy v u)
  with assms(2) show ?thesis
    by (simp add: requests_typed_def)
next
  case (request_init a)
  with assms(2) show ?thesis
    by (simp add: requests_typed_def oomph_request_init_def freq_typed_def)
next
  case (get_communicator tid a p q b h v)
  with frequests_frame(3) [OF get_communicator(2)] requests_typed_cong [OF _ assms(2), of g] show ?thesis
    by simp
next
  case (message_new lib dev x n al y h v)
  with frequests_frame_store(1) [OF message_new(2)] requests_typed_cong [OF _ assms(2), of g] show ?thesis
    by simp
next
  case (post_send_cb p l ud wc x r t cb fr d)
  with local_request_typed [OF _ assms(2)] posts_typed(2) show ?thesis
    unfolding oomph_comm_post_send_cb_def by blast
next
  case (send_cb p l ud wc x r t cb fr d)
  with local_request_typed [OF _ assms(2)] posts_typed(3) show ?thesis
    unfolding oomph_comm_send_cb_def by blast
next
  case (post_recv_cb p l ud wc x r t cb fr d)
  with local_request_typed [OF _ assms(2)] posts_typed(5) show ?thesis
    unfolding oomph_comm_post_recv_cb_def by blast
next
  case (recv_cb p l ud wc x r t cb fr d)
  with local_request_typed [OF _ assms(2)] posts_typed(6) show ?thesis
    unfolding oomph_comm_recv_cb_def by blast
next
  case (resubmit p l ud wc x r t cb fr d)
  with local_request_typed [OF _ assms(2)] posts_typed(7) show ?thesis
    unfolding oomph_comm_resubmit_recv_def by blast
qed (use assms(2) in \<open>auto intro: posts_typed requests_typed_cong frequests_frame frequests_frame_store
       frequests_frame_request\<close>)

text \<open>C8: types of requests.  A Fortran program starts with zeroed requests and uses the bindings in any
  order, but takes no request from a multiple send.  Then the flag of every request always tells the
  type of the object stored in it: testing, waiting and cancelling read the object at the type it was
  constructed with, and are the operations of the C++ request posted there (an empty one if none was).\<close>

theorem requests_read_typed:
  assumes "(fort_step T)\<^sup>*\<^sup>* f0 f" "\<And>a. fr_data (frequests f0 a) = Zeroed"
  shows "\<exists>m. fr_data (frequests f a) \<in> {Zeroed, if recv_request (frequests f a) then Recv_request m else Send_request m} \<and>
    (fr_data (frequests f a) = Zeroed \<longrightarrow> m = None) \<and>
    oomph_request_ready a f = request_is_ready m (fo_store f) \<and>
    oomph_request_test T a f =
      bind_res (request_test (tr_progress T) m (fo_store f)) (\<lambda>(b, w). Inr (b, f\<lparr>fo_store := w\<rparr>)) \<and>
    oomph_request_wait T a f =
      map_option (\<lambda>r. bind_res r (\<lambda>w. Inr (f\<lparr>fo_store := w\<rparr>))) (request_wait (tr_progress T) m (fo_store f)) \<and>
    oomph_request_cancel T a f =
      (if recv_request (frequests f a)
       then bind_res (request_cancel (tr_cancel T) m (fo_store f)) (\<lambda>(b, w). Inr (b, f\<lparr>fo_store := w\<rparr>))
       else Inr (False, f))"
proof -
  have "requests_typed f0"
    using assms(2) by (simp add: requests_typed_def freq_typed_def)
  with assms(1) have "requests_typed f"
    by (induction rule: rtranclp_induct) (auto intro: fort_step_typed)
  then have t: "freq_typed (frequests f a)"
    by (simp add: requests_typed_def)
  define m where "m = object_ref (fr_data (frequests f a))"
  have "fr_data (frequests f a) \<in> {Zeroed, if recv_request (frequests f a) then Recv_request m else Send_request m}"
    using t by (cases "fr_data (frequests f a)") (auto simp: m_def freq_typed_def)
  moreover have "fr_data (frequests f a) = Zeroed \<longrightarrow> m = None"
    by (simp add: m_def)
  ultimately show ?thesis
    using freq_typed_request_of [OF t] freq_typed_recv [OF t]
    by (intro exI [of _ m])
       (simp add: oomph_request_ready_def oomph_request_test_def oomph_request_wait_def oomph_request_cancel_def m_def)
qed

theorem requests_read_typed_witness:
  "\<exists>g. oomph_comm_post_recv ex_fort_transport 1 (Some 4) (Some 5) 1 7 (Some 8) ex_fort = Inr g \<and>
     oomph_request_ready 8 g = Inr False \<and> oomph_request_ready 9 g = Inr True"
proof -
  obtain g where g: "oomph_comm_post_recv ex_fort_transport 1 (Some 4) (Some 5) 1 7 (Some 8) ex_fort = Inr g"
      "frequests g 8 = \<lparr>fr_data = Recv_request (Some 1), recv_request = True\<rparr>"
      "request_is_ready (Some 1) (fo_store g) = Inr False" "frequests g 9 = \<lparr>fr_data = Zeroed, recv_request = False\<rparr>"
    using ex_fort_recv by (auto simp: oomph_comm_post_recv_def ex_fort_simps ex_simps)
  have "(fort_step ex_fort_transport)\<^sup>*\<^sup>* ex_fort g"
    using post_recv [OF g(1)] by blast
  note typed = requests_read_typed [OF this, unfolded ex_fort_def, simplified]
  show ?thesis
    using typed [of 8] typed [of 9] g by (auto simp: request_is_ready_def)
qed

text \<open>C9: the request of a multiple send.  It is stored as an object of its own class, with the flag of
  a plain send.  Testing or waiting for it, which the documentation of the procedure asks for, reads it as
  an object of another class: the behaviour is undefined.\<close>

theorem multi_request_confused:
  assumes "oomph_comm_post_send_multi_wrapped T m ps wc x ranks n tags (Some a) f = Inr g \<or>
    oomph_comm_post_send_multi_cb_wrapped T m ps wc x ranks n tags cb (Some a) ud f = Inr g \<or>
    oomph_comm_send_multi_cb_wrapped T m ps wc x ranks n tags cb (Some a) ud f = Inr g"
  shows "oomph_request_test T a g = Inl (Undefined_behaviour ''object of another type'') \<and>
    oomph_request_ready a g = Inl (Undefined_behaviour ''object of another type'') \<and>
    oomph_request_wait T a g = Some (Inl (Undefined_behaviour ''object of another type''))"
proof -
  have "\<exists>k. frequests g a = \<lparr>fr_data = Send_multi_request k, recv_request = False\<rparr>"
    using assms
    by (auto simp: multi_post_defs bind_res_eq_Inr place_request_def return_request_def split: prod.splits)
  then show ?thesis
    by (auto simp: oomph_request_test_def oomph_request_ready_def oomph_request_wait_def request_of_def)
qed

lemma ex_fort_multi:
  "\<exists>g. oomph_comm_post_send_multi_wrapped ex_fort_transport 1 [11, 12] (Some 4) (Some 5) [0, 1] 2 [7, 7] (Some 8) ex_fort = Inr g"
  by (simp add: oomph_comm_post_send_multi_wrapped_def vector_from_def send_multi_tags_def multi_body_def send_discard_def
      make_multi_def multi_state_n_def mpi_send_def mpi_isend_def drop_handle_def drop_ref_def block_destroy_def
      block_free_def ex_fort_simps ex_simps)

theorem multi_request_confused_witness:
  "\<exists>g. oomph_comm_post_send_multi_wrapped ex_fort_transport 1 [11, 12] (Some 4) (Some 5) [0, 1] 2 [7, 7] (Some 8) ex_fort = Inr g \<and>
     oomph_request_wait ex_fort_transport 8 g = Some (Inl (Undefined_behaviour ''object of another type''))"
  using ex_fort_multi multi_request_confused [where T = ex_fort_transport and f = ex_fort] by blast

section \<open>Lost messages\<close>

text \<open>A message object that exists and that no variable of the program points to.\<close>

definition lost_message :: "ptr \<Rightarrow> ('h, 'w) fort \<Rightarrow> bool" where
  "lost_message x f \<longleftrightarrow> fo_objects f x \<and> (\<forall>v. message_vars f v \<noteq> Some x)"

lemma lost_message_cong:
  "fo_objects g = fo_objects f \<Longrightarrow> message_vars g = message_vars f \<Longrightarrow> lost_message x g = lost_message x f"
  by (simp add: lost_message_def)

lemma lost_clear: "lost_message x f \<Longrightarrow> lost_message x (clear_reference v f)"
  by (auto simp: lost_message_def clear_reference_def split: option.splits)

lemma message_frame:
  "lost_message x (oomph_init eb ctx n f) = lost_message x f"
  "oomph_finalize eb f = Inr g \<Longrightarrow> lost_message x g = lost_message x f"
  "oomph_get_communicator tid a p q f = Inr (b, g) \<Longrightarrow> lost_message x g = lost_message x f"
  "oomph_obj_free tid v f = Inr g \<Longrightarrow> lost_message x g = lost_message x f"
  "oomph_comm_progress T wc f = Inr g \<Longrightarrow> lost_message x g = lost_message x f"
  by (auto simp: oomph_init_def oomph_finalize_def delete_context_def oomph_get_communicator_def oomph_obj_free_def
      oomph_comm_progress_def bind_res_eq_Inr Let_def lost_message_def split: option.splits if_splits)

lemma message_frame_request:
  "oomph_request_test T a f = Inr (b, g) \<Longrightarrow> lost_message x g = lost_message x f"
  "oomph_request_wait T a f = Some (Inr g) \<Longrightarrow> lost_message x g = lost_message x f"
  "oomph_request_cancel T a f = Inr (b, g) \<Longrightarrow> lost_message x g = lost_message x f"
  by (auto simp: oomph_request_test_def oomph_request_wait_def oomph_request_cancel_def bind_res_eq_Inr
      lost_message_def split: sum.splits if_splits)

lemma message_frame_message:
  "oomph_message_free v f = Inr g \<Longrightarrow> lost_message x f \<Longrightarrow> lost_message x g"
  "oomph_message_zero u f = Inr g \<Longrightarrow> lost_message x f \<Longrightarrow> lost_message x g"
  by (auto simp: oomph_message_free_def oomph_message_zero_def set_message_def deref_def
      destroy_message_def bind_res_eq_Inr Let_def lost_message_def split: option.splits if_splits)

lemma message_frame_place:
  "place_request req r freq f = Inr g \<Longrightarrow> lost_message x g = lost_message x f"
  "return_request req r freq f = Inr g \<Longrightarrow> lost_message x g = lost_message x f"
  by (auto simp: place_request_def return_request_def lost_message_def bind_res_eq_Inr
      split: option.splits request_object.splits if_splits)

lemma lost_store [simp]: "lost_message x (f\<lparr>fo_store := w\<rparr>) = lost_message x f"
  by (simp add: lost_message_def)

lemma posts_lost:
  assumes "lost_message y f"
  shows "oomph_comm_post_send T p wc x r t fr f = Inr g \<Longrightarrow> lost_message y g"
    and "oomph_comm_post_send_cb_wrapped T p wc x r t cb fr ud f = Inr g \<Longrightarrow> lost_message y g"
    and "oomph_comm_send_cb_wrapped T p wc x r t cb fr ud f = Inr g \<Longrightarrow> lost_message y g"
    and "oomph_comm_post_recv T p wc x r t fr f = Inr g \<Longrightarrow> lost_message y g"
    and "oomph_comm_post_recv_cb_wrapped T p wc x r t cb fr ud f = Inr g \<Longrightarrow> lost_message y g"
    and "oomph_comm_recv_cb_wrapped T p wc x r t cb fr ud f = Inr g \<Longrightarrow> lost_message y g"
    and "oomph_comm_resubmit_recv_wrapped T p wc x r t cb fr ud f = Inr g \<Longrightarrow> lost_message y g"
    and "oomph_comm_post_send_multi_cb_wrapped T p ps wc x rs n ts cb fr ud f = Inr g \<Longrightarrow> lost_message y g"
    and "oomph_comm_send_multi_cb_wrapped T p ps wc x rs n ts cb fr ud f = Inr g \<Longrightarrow> lost_message y g"
  using assms
  by (auto simp: post_defs multi_post_defs bind_res_eq_Inr message_frame_place lost_clear split: prod.splits)

lemma local_request_lost:
  assumes "local_request l req post f = Inr g" "lost_message x f"
    and "\<And>f g. post (Some l) f = Inr g \<Longrightarrow> lost_message x f \<Longrightarrow> lost_message x g"
  shows "lost_message x g"
proof -
  define f0 where "f0 = f\<lparr>frequests := (frequests f)(l := (frequests f l)\<lparr>fr_data := Zeroed\<rparr>)\<rparr>"
  have "lost_message x f0"
    using assms(2) by (simp add: lost_message_def f0_def)
  moreover obtain f1 where f1: "post (Some l) f0 = Inr f1"
      "g = (case req of None \<Rightarrow> f1 | Some r \<Rightarrow> f1\<lparr>frequests := (frequests f1)(r := frequests f1 l)\<rparr>)"
    using assms(1) unfolding local_request_def bind_res_eq_Inr f0_def by auto
  ultimately have "lost_message x f1"
    using assms(3) by blast
  then show ?thesis
    by (auto simp: f1(2) lost_message_def split: option.splits)
qed

lemma fort_step_lost:
  assumes "fort_step T f g" "lost_message x f"
  shows "lost_message x g"
  using assms(1)
proof cases
  case (get_communicator tid a p q b h v)
  with message_frame(3) [OF get_communicator(2), of x] assms(2) show ?thesis
    by (simp add: lost_message_def)
next
  case (message_new lib dev y n al z h v)
  then have "fo_objects h = (fo_objects f)(y := True)" "message_vars h = message_vars f" "z = y"
    by (auto simp: oomph_message_new_def set_message_def bind_res_eq_Inr split: if_splits option.splits)
  with message_new(1,3) assms(2) show ?thesis
    by (auto simp: lost_message_def)
next
  case (post_send_cb p l ud wc y r t cb fr d)
  with local_request_lost [OF _ assms(2)] posts_lost(2) show ?thesis
    unfolding oomph_comm_post_send_cb_def by blast
next
  case (send_cb p l ud wc y r t cb fr d)
  with local_request_lost [OF _ assms(2)] posts_lost(3) show ?thesis
    unfolding oomph_comm_send_cb_def by blast
next
  case (post_recv_cb p l ud wc y r t cb fr d)
  with local_request_lost [OF _ assms(2)] posts_lost(5) show ?thesis
    unfolding oomph_comm_post_recv_cb_def by blast
next
  case (recv_cb p l ud wc y r t cb fr d)
  with local_request_lost [OF _ assms(2)] posts_lost(6) show ?thesis
    unfolding oomph_comm_recv_cb_def by blast
next
  case (resubmit p l ud wc y r t cb fr d)
  with local_request_lost [OF _ assms(2)] posts_lost(7) show ?thesis
    unfolding oomph_comm_resubmit_recv_def by blast
next
  case (message_copy v u)
  with assms(2) show ?thesis
    by (auto simp: lost_message_def)
next
  case (request_copy a b)
  with assms(2) show ?thesis
    by (simp add: lost_message_def)
next
  case (request_init a)
  with assms(2) show ?thesis
    by (simp add: lost_message_def oomph_request_init_def)
qed (use assms(2) in \<open>blast intro: posts_lost message_frame_message message_frame [THEN iffD2]
       message_frame_request [THEN iffD2]\<close>)+

lemma clear_reference_lost:
  assumes "require_args (referenced (Some v) f) wc f = Inr (c, y)" "message_vars f v = Some x"
    and "\<forall>u. message_vars f u = Some x \<longrightarrow> u = v"
  shows "lost_message x (clear_reference (Some v) (f\<lparr>fo_store := w\<rparr>)) \<and>
    message_vars (clear_reference (Some v) (f\<lparr>fo_store := w\<rparr>)) v = None"
proof -
  have "fo_objects f x"
    using assms(1,2) by (auto simp: require_args_def referenced_def deref_def bind_res_eq_Inr split: if_splits)
  with assms(3) show ?thesis
    by (auto simp: lost_message_def clear_reference_def)
qed

text \<open>The functions that take a message over (\<open>send_cb\<close>, \<open>recv_cb\<close>, the multiple \<open>send_cb\<close>) move the
  buffer out of the message object and reset the user's variable, but do not delete the object, although
  the documentation says that the user's copy is freed.  If no other variable holds it, the object stays
  allocated and out of reach whatever the program does afterwards.\<close>

theorem taken_message_lost:
  assumes "oomph_comm_send_cb_wrapped T p wc (Some v) r t cb fr ud f = Inr g \<or>
      oomph_comm_recv_cb_wrapped T p wc (Some v) r t cb fr ud f = Inr g \<or>
      oomph_comm_send_multi_cb_wrapped T p ps wc (Some v) ranks n tags cb fr ud f = Inr g"
    and "message_vars f v = Some x" "\<forall>u. message_vars f u = Some x \<longrightarrow> u = v" "(fort_step T)\<^sup>*\<^sup>* g h"
  shows "message_vars g v = None \<and> fo_objects h x \<and> (\<forall>u. message_vars h u \<noteq> Some x)"
proof -
  obtain c y w req b where a: "require_args (referenced (Some v) f) wc f = Inr (c, y)"
      "return_request req b fr (clear_reference (Some v) (f\<lparr>fo_store := w\<rparr>)) = Inr g"
    using assms(1)
    by (elim disjE) (auto simp: post_defs multi_post_defs bind_res_eq_Inr split: prod.splits)
  define f' where "f' = clear_reference (Some v) (f\<lparr>fo_store := w\<rparr>)"
  have f': "lost_message x f'" "message_vars f' v = None" "return_request req b fr f' = Inr g"
    using clear_reference_lost [OF a(1) assms(2,3), of w] a(2) by (simp_all add: f'_def)
  have "message_vars g = message_vars f'"
    using f'(3) by (auto simp: return_request_def place_request_def bind_res_eq_Inr
        split: if_splits option.splits request_object.splits)
  moreover have "lost_message x g"
    using message_frame_place(2) [OF f'(3)] f'(1) by simp
  with assms(4) have "lost_message x h"
    by (induction rule: rtranclp_induct) (auto intro: fort_step_lost)
  ultimately show ?thesis
    using f'(2) by (simp add: lost_message_def)
qed

lemma ex_fort_recv_cb:
  "\<exists>g. oomph_comm_recv_cb_wrapped ex_fort_transport 1 (Some 4) (Some 6) 1 7 (Some 2) (Some 8) 9 ex_fort = Inr g"
  by (simp add: oomph_comm_recv_cb_wrapped_def ex_fort_simps ex_simps)

theorem taken_message_lost_witness:
  "\<exists>g h. oomph_comm_recv_cb_wrapped ex_fort_transport 1 (Some 4) (Some 6) 1 7 (Some 2) (Some 8) 9 ex_fort = Inr g \<and>
     oomph_message_free (Some 6) g = Inr h \<and> fo_objects h 5"
proof -
  obtain g where g: "oomph_comm_recv_cb_wrapped ex_fort_transport 1 (Some 4) (Some 6) 1 7 (Some 2) (Some 8) 9 ex_fort = Inr g"
    using ex_fort_recv_cb by blast
  have v: "message_vars ex_fort 6 = Some 5" "\<forall>u. message_vars ex_fort u = Some 5 \<longrightarrow> u = 6"
    by (simp_all add: ex_fort_def)
  note lost = taken_message_lost [OF disjI2 [OF disjI1 [OF g]] v]
  then have "message_vars g 6 = None"
    by blast
  then obtain h where h: "oomph_message_free (Some 6) g = Inr h"
    by (simp add: oomph_message_free_def)
  then have "(fort_step ex_fort_transport)\<^sup>*\<^sup>* g h"
    by (blast intro: message_free)
  from lost [OF this] g h show ?thesis
    by blast
qed

section \<open>Callbacks that own the message\<close>

lemma drop_handle_api: "drop_handle q w = Inr w' \<Longrightarrow> api w' = api w"
  by (auto simp: drop_handle_def drop_ref_def bind_res_eq_Inr)

lemma return_request_keeps:
  assumes "return_request req r None f = Inr g"
  shows "message_of g = message_of f \<and> fo_live g = fo_live f"
  using assms
  by (auto simp: return_request_def bind_res_eq_Inr drop_handle_api split: request_object.splits option.splits)

text \<open>A callback of \<open>recv_cb\<close> gets the message by value.  If the Fortran procedure resubmits the
  receive with the message it was given, the transport is asked to receive into the same buffer, with a
  new callback object that now owns the message, and the buffer is not released when the callback returns.
  If the procedure leaves the message alone, or there is none, the buffer is released exactly then.\<close>

theorem callback_message:
  fixes f :: "('h, ('r, 'z) request_store_scheme) fort"
  assumes "mb_ptr m = Some a" "mb_heap m = Some a" "fo_live f a"
    and "\<And>c q buf n r t cl w res w'. tr_recv T c q buf n r t cl w = Inr (res, w') \<Longrightarrow>
      messages (api w') x = messages (api w) x"
  shows "(\<forall>g. run_callback (\<lambda>c. oomph_comm_resubmit_recv_wrapped T p wc (Some (fc_message c)) (fc_rank c) (fc_tag c) cb None ud')
        x (Callback (Some k) ud) (Args (By_value m) r t) f = Inr g \<longrightarrow>
      fo_live g = fo_live f \<and>
      (\<exists>c w res. tr_recv T c p a (mb_size m) r t (Cb_rref (Callback cb ud') m) w = Inr res)) \<and>
    (\<forall>proc. (\<forall>c f'. \<exists>f''. proc c f' = Inr f'' \<and> message_of f'' x = message_of f' x \<and> fo_live f'' = fo_live f') \<longrightarrow>
      (\<exists>g. run_callback proc x (Callback cb ud) (Args (By_value m) r t) f = Inr g \<and>
        fo_live g = (fo_live f)(a := False)))"
proof (intro conjI allI impI)
  fix g
  define f0 where "f0 = (set_message x m f)\<lparr>fo_objects := (fo_objects f)(x := True)\<rparr>"
  assume "run_callback (\<lambda>c. oomph_comm_resubmit_recv_wrapped T p wc (Some (fc_message c)) (fc_rank c) (fc_tag c) cb None ud')
      x (Callback (Some k) ud) (Args (By_value m) r t) f = Inr g"
  then obtain h where h: "oomph_comm_resubmit_recv_wrapped T p wc (Some x) r t cb None ud' f0 = Inr h"
      "destroy_message x h = Inr g"
    by (auto simp: run_callback_def f0_def bind_res_eq_Inr)
  from h(1) obtain c req w where w: "post_rref (tr_recv T c) p 1 x r t (Callback cb ud') (fo_store f0) = Inr (req, w)"
      "return_request (Recv_request req) True None (f0\<lparr>fo_store := w\<rparr>) = Inr h"
    by (auto simp: oomph_comm_resubmit_recv_wrapped_def comm_recv_rref_def require_args_def bind_res_eq_Inr
        split: if_splits)
  have m: "messages (api (fo_store f0)) x = m"
    by (simp add: f0_def set_message_def)
  then have tr: "tr_recv T c p a (mb_size m) r t (Cb_rref (Callback cb ud') m) (move_message x (fo_store f0)) = Inr (req, w)"
    using w(1) assms(1,2) by (simp add: post_rref_def post_msg_def mb_valid_def)
  then have "messages (api w) x = mb_moved_from m"
    using assms(4) [OF tr] m by (simp add: move_message_def)
  with return_request_keeps [OF w(2)] have "message_of h x = mb_moved_from m" "fo_live h = fo_live f"
    by (simp_all add: f0_def set_message_def)
  with h(2) have "fo_live g = fo_live f"
    by (auto simp: destroy_message_def mb_release_def mb_moved_from_def set_message_def)
  with tr show "fo_live g = fo_live f"
    and "\<exists>c w res. tr_recv T c p a (mb_size m) r t (Cb_rref (Callback cb ud') m) w = Inr res"
    by blast+
next
  fix proc :: "fort_call \<Rightarrow> ('h, ('r, 'z) request_store_scheme) fort \<Rightarrow> ('h, ('r, 'z) request_store_scheme) fort result"
  define f0 where "f0 = (set_message x m f)\<lparr>fo_objects := (fo_objects f)(x := True)\<rparr>"
  have f0: "message_of f0 x = m" "fo_live f0 = fo_live f"
    by (simp_all add: f0_def set_message_def)
  assume "\<forall>c f'. \<exists>f''. proc c f' = Inr f'' \<and> message_of f'' x = message_of f' x \<and> fo_live f'' = fo_live f'"
  then obtain f1 where f1: "(case fort_invoke x (Callback cb ud) (Args (By_value m) r t) of
      None \<Rightarrow> Inr f0 | Some c \<Rightarrow> proc c f0) = Inr f1" "message_of f1 x = m" "fo_live f1 = fo_live f"
    using f0 by (cases cb) (simp, metis fort_invoke.simps(1) option.simps(5,9))
  then have "run_callback proc x (Callback cb ud) (Args (By_value m) r t) f = destroy_message x f1"
    by (simp only: run_callback_def Let_def message_arg.simps msg_arg.case f0_def [symmetric] bind_res_simps)
  then show "\<exists>g. run_callback proc x (Callback cb ud) (Args (By_value m) r t) f = Inr g \<and>
      fo_live g = (fo_live f)(a := False)"
    using f1(2,3) assms(1-3) by (simp add: destroy_message_def mb_release_def set_message_def)
qed

lemma exec_closure_messages: "messages (api (exec_closure (\<lambda>_ _ w. w) c r t w)) = messages (api w)"
  using closure_step_messages [of c r t "api w"] by (auto simp: exec_closure_def split: prod.splits option.splits)

lemma mpi_recv_messages:
  "tr_recv ex_fort_transport c q buf n r t cl w = Inr (res, w') \<Longrightarrow> messages (api w') = messages (api w)"
  by (auto simp: ex_fort_transport_def ex_simps call_guarded_def Let_def exec_closure_messages
      split: if_splits)

theorem callback_message_witness:
  "\<exists>g. run_callback (\<lambda>c f. Inr f) 20 (Callback (Some 2) 9) (Args (By_value ex_message) 1 7) ex_fort = Inr g \<and>
     \<not> fo_live g 100"
proof -
  have m: "mb_ptr ex_message = Some 100" "mb_heap ex_message = Some 100" "fo_live ex_fort 100"
    by (simp_all add: ex_message_def ex_fort_def)
  have "\<exists>g. run_callback (\<lambda>c f. Inr f) 20 (Callback (Some 2) 9) (Args (By_value ex_message) 1 7) ex_fort = Inr g \<and>
      fo_live g = (fo_live ex_fort)(100 := False)"
    using callback_message [OF m, of ex_fort_transport 20 1 "Some 4" "Some 2" 9 2 9 1 7] mpi_recv_messages by fastforce
  then show ?thesis
    by auto
qed

end
