(* ===== verification/Mpi_Rma.thy ===== *)
theory Mpi_Rma
  imports Mpi_Request_Queue
begin

text \<open>
  Channels and remote memory access over MPI (\<open>mpi/channel_base.hpp\<close>, \<open>mpi/recv_channel.hpp\<close>,
  \<open>mpi/send_channel.hpp\<close>, \<open>include/oomph/channel\<close>; \<open>mpi/rma_context.hpp\<close>, \<open>mpi/region.hpp\<close>,
  \<open>mpi/lock_cache.hpp\<close>, \<open>mpi/handle.hpp\<close>).  A channel is a ring of buffers in the memory of the receiver, each
  followed by a flag.  MPI is a parameter; the calls on the window are recorded in the order they are made,
  with their return codes, and judged by the rules of the MPI standard.
\<close>

section \<open>Layout of a channel\<close>

record channel_base =
  ch_size :: size_t
  ch_T_size :: size_t
  ch_levels :: size_t
  ch_capacity :: size_t
  ch_remote_rank :: rank_type
  ch_tag :: tag_type
  ch_connected :: bool
  ch_init_req :: mpi_handle

definition channel_ctor :: "size_t \<Rightarrow> size_t \<Rightarrow> rank_type \<Rightarrow> tag_type \<Rightarrow> size_t \<Rightarrow> channel_base" where
  "channel_ctor n T_size rank tag levels = \<lparr>ch_size = n, ch_T_size = T_size, ch_levels = levels,
     ch_capacity = levels, ch_remote_rank = rank, ch_tag = tag, ch_connected = False, ch_init_req = MPI_REQUEST_NULL\<rparr>"

text \<open>\<open>sizeof(flag_basic_type)\<close>, the size of \<open>MPI_Aint\<close>.\<close>

definition sizeof_flag :: size_t where
  "sizeof_flag = 8"

definition flag_offset :: "channel_base \<Rightarrow> size_t" where
  "flag_offset c = (ch_size c * ch_T_size c + 2 * sizeof_flag - 1) div sizeof_flag - 1"

definition channel_buffer_size :: "channel_base \<Rightarrow> size_t" where
  "channel_buffer_size c = ((flag_offset c + 1) * sizeof_flag + ch_T_size c - 1) div ch_T_size c"

definition flag_ptr :: "channel_base \<Rightarrow> ptr \<Rightarrow> ptr" where
  "flag_ptr c p = p + unat (flag_offset c * sizeof_flag)"

text \<open>\<open>connect\<close>: \<open>wait\<close> is the result of \<open>MPI_Wait\<close> on the initial message.\<close>

definition channel_connect :: "int \<Rightarrow> channel_base \<Rightarrow> channel_base result" where
  "channel_connect wait c = check_mpi wait (Inr (c\<lparr>ch_init_req := MPI_REQUEST_NULL, ch_connected := True\<rparr>))"

lemma round_up:
  fixes a b :: nat
  assumes "0 < b"
  shows "a \<le> (a + b - 1) div b * b" "(a + b - 1) div b * b < a + b"
proof -
  have "a + b - 1 = (a + b - 1) div b * b + (a + b - 1) mod b"
    by simp
  moreover have "(a + b - 1) mod b < b"
    using assms by simp
  ultimately show "a \<le> (a + b - 1) div b * b" "(a + b - 1) div b * b < a + b"
    using assms by linarith+
qed

text \<open>Without overflow the two functions are divisions that round up.\<close>

lemma unat_flag_offset:
  assumes "unat (ch_size c) * unat (ch_T_size c) + 16 < 2 ^ 64"
  shows "unat (flag_offset c) = (unat (ch_size c) * unat (ch_T_size c) + 7) div 8"
proof -
  define n where "n = unat (ch_size c) * unat (ch_T_size c)"
  have n: "unat (ch_size c * ch_T_size c) = n"
    using assms by (simp add: n_def unat_mult_lem [THEN iffD1])
  then have e: "ch_size c * ch_T_size c = of_nat n"
    using assms by (simp add: word_unat_eq_iff [of "ch_size c * ch_T_size c"] unat_of_nat n_def)
  have "flag_offset c = of_nat (n + 15) div 8 - 1"
    by (simp add: flag_offset_def sizeof_flag_def e add.commute)
  also have "of_nat (n + 15) div (8 :: size_t) = of_nat ((n + 15) div 8)"
  proof -
    have "unat (of_nat k :: size_t) = k" if "k \<le> n + 15" for k
      using that assms by (simp add: unat_of_nat n_def)
    then have "unat (of_nat (n + 15) :: size_t) = n + 15"
      "unat (of_nat ((n + 15) div 8) :: size_t) = (n + 15) div 8"
      by (meson div_le_dividend order_refl)+
    then show ?thesis
      by (simp only: word_unat_eq_iff unat_div) simp
  qed
  also have "of_nat ((n + 15) div 8) - (1 :: size_t) = of_nat ((n + 15) div 8 - 1)"
    by (rule of_nat_dec) simp
  finally have "unat (flag_offset c) = ((n + 15) div 8 - 1) mod 2 ^ 64"
    by (simp only: unat_of_nat) simp
  moreover have "(n + 15) div 8 - 1 = (n + 7) div 8"
    using div_add_self2 [of 8 "n + 7"] by simp
  moreover have "(n + 7) div 8 < 2 ^ 64"
    using assms by (simp add: n_def)
  ultimately show ?thesis
    by (simp add: n_def)
qed

lemma unat_channel_buffer_size:
  assumes "unat (ch_size c) * unat (ch_T_size c) + unat (ch_T_size c) + 16 < 2 ^ 64" "0 < ch_T_size c"
  shows "unat (channel_buffer_size c) = ((unat (flag_offset c) + 1) * 8 + unat (ch_T_size c) - 1) div unat (ch_T_size c)"
proof -
  define n where "n = (unat (flag_offset c) + 1) * 8 + unat (ch_T_size c) - 1"
  have "unat (flag_offset c) * 8 \<le> unat (ch_size c) * unat (ch_T_size c) + 7"
    using unat_flag_offset [of c] assms(1) by simp
  then have "n < 2 ^ 64"
    using assms(1) by (simp add: n_def)
  have "(flag_offset c + 1) * sizeof_flag + ch_T_size c - 1 = of_nat n"
  proof -
    have "of_nat n = of_nat ((unat (flag_offset c) + 1) * 8 + unat (ch_T_size c)) - (1 :: size_t)"
      unfolding n_def by (rule of_nat_dec [symmetric]) simp
    then show ?thesis
      by (simp add: sizeof_flag_def)
  qed
  then have "unat (channel_buffer_size c) = unat (of_nat n :: size_t) div unat (ch_T_size c)"
    by (simp only: channel_buffer_size_def unat_div)
  also have "unat (of_nat n :: size_t) = n"
    using \<open>n < 2 ^ 64\<close> by (simp add: unat_of_nat)
  finally show ?thesis
    by (simp only: n_def)
qed

text \<open>C40: the layout of a channel.  As long as the sizes do not overflow, the flag of a buffer starts at
  the first multiple of its own size after the payload, and payload and flag fit into the buffer, which is
  the smallest number of elements for which this holds.  So in the ring of \<open>levels\<close> buffers that the receiver
  allocates, every flag lies behind the payload of its own buffer and before the next buffer.\<close>

theorem channel_layout:
  assumes "unat (ch_size c) * unat (ch_T_size c) + unat (ch_T_size c) + 16 < 2 ^ 64" "0 < ch_T_size c"
  shows "unat (ch_size c) * unat (ch_T_size c) \<le> flag_ptr c 0 \<and>
    flag_ptr c 0 < unat (ch_size c) * unat (ch_T_size c) + 8 \<and> 8 dvd flag_ptr c 0 \<and>
    flag_ptr c 0 + 8 \<le> unat (channel_buffer_size c) * unat (ch_T_size c) \<and>
    unat (channel_buffer_size c) * unat (ch_T_size c) < flag_ptr c 0 + 8 + unat (ch_T_size c) \<and>
    (let b = unat (channel_buffer_size c) * unat (ch_T_size c) in
     \<forall>i < unat (ch_levels c). i * b + unat (ch_size c) * unat (ch_T_size c) \<le> flag_ptr c (i * b) \<and>
       flag_ptr c (i * b) + 8 \<le> (i + 1) * b \<and> (i + 1) * b \<le> unat (ch_levels c) * b)"
proof -
  define n where "n = unat (ch_size c) * unat (ch_T_size c)"
  have off: "unat (flag_offset c) = (n + 7) div 8"
    using unat_flag_offset [of c] assms(1) by (simp add: n_def)
  have up: "n \<le> (n + 7) div 8 * 8" "(n + 7) div 8 * 8 < n + 8"
    using round_up [of 8 n] by simp_all
  have "unat (flag_offset c * sizeof_flag) = (n + 7) div 8 * 8"
    using up(2) assms(1) off by (simp add: sizeof_flag_def unat_word_ariths(2) n_def)
  then have fp: "flag_ptr c p = p + (n + 7) div 8 * 8" for p
    by (simp add: flag_ptr_def)
  have T: "0 < unat (ch_T_size c)"
    using assms(2) by (simp add: unat_gt_0)
  define b where "b = unat (channel_buffer_size c) * unat (ch_T_size c)"
  have b: "(n + 7) div 8 * 8 + 8 \<le> b" "b < (n + 7) div 8 * 8 + 8 + unat (ch_T_size c)"
    using round_up [OF T, of "((n + 7) div 8 + 1) * 8"] unat_channel_buffer_size [OF assms] by (simp_all add: off b_def)
  have "i * b + n \<le> flag_ptr c (i * b) \<and> flag_ptr c (i * b) + 8 \<le> (i + 1) * b \<and> (i + 1) * b \<le> unat (ch_levels c) * b"
    if "i < unat (ch_levels c)" for i
    using that up(1) b(1) mult_le_mono1 [of "i + 1" "unat (ch_levels c)" b] by (simp add: fp)
  then show ?thesis
    using up b by (simp add: fp b_def n_def Let_def)
qed

theorem channel_layout_witness:
  "flag_ptr (channel_ctor 5 12 1 7 3) 0 = 64 \<and> unat (channel_buffer_size (channel_ctor 5 12 1 7 3)) = 6"
proof -
  let ?c = "channel_ctor 5 12 1 7 3"
  have l: "60 \<le> flag_ptr ?c 0 \<and> flag_ptr ?c 0 < 68 \<and> 8 dvd flag_ptr ?c 0 \<and>
      flag_ptr ?c 0 + 8 \<le> unat (channel_buffer_size ?c) * 12 \<and> unat (channel_buffer_size ?c) * 12 < flag_ptr ?c 0 + 20"
    using channel_layout [of ?c] by (simp add: channel_ctor_def)
  then have "flag_ptr ?c 0 = 64"
    by presburger
  with l show ?thesis
    by presburger
qed

section \<open>The window\<close>

datatype win_call =
    Info_create
  | Info_set
  | Win_create_dynamic
  | Info_free
  | Win_fence
  | Win_lock rank_type
  | Win_unlock rank_type
  | Win_attach ptr
  | Win_detach ptr
  | Win_free

text \<open>A context: the calls made so far, the ranks of the lock cache in the order of the set, and the
  \<open>rma_region\<close> objects, in variables, with the pointer each holds.\<close>

record rma_state =
  win_trace :: "(win_call \<times> int) list"
  m_ranks :: "rank_type list"
  regions :: "nat \<Rightarrow> ptr option"

text \<open>A call of MPI; \<open>mpi\<close> gives the return code after a history.\<close>

definition issue :: "((win_call \<times> int) list \<Rightarrow> win_call \<Rightarrow> int) \<Rightarrow> win_call \<Rightarrow> rma_state \<Rightarrow> int \<times> rma_state" where
  "issue mpi c s = (let rc = mpi (win_trace s) c in (rc, s\<lparr>win_trace := win_trace s @ [(c, rc)]\<rparr>))"

subsection \<open>Lock cache\<close>

definition lc_lock ::
    "((win_call \<times> int) list \<Rightarrow> win_call \<Rightarrow> int) \<Rightarrow> rank_type \<Rightarrow> rma_state \<Rightarrow> unit result \<times> rma_state" where
  "lc_lock mpi r s =
     (if r \<in> set (m_ranks s) then (Inr (), s)
      else case issue mpi (Win_lock r) (s\<lparr>m_ranks := insort_key sint r (m_ranks s)\<rparr>) of
          (rc, s) \<Rightarrow> (check_mpi rc (Inr ()), s))"

definition lc_dtor :: "((win_call \<times> int) list \<Rightarrow> win_call \<Rightarrow> int) \<Rightarrow> rma_state \<Rightarrow> rma_state" where
  "lc_dtor mpi s = (fold (\<lambda>r s. snd (issue mpi (Win_unlock r) s)) (m_ranks s) s)\<lparr>m_ranks := []\<rparr>"

subsection \<open>Regions\<close>

text \<open>An object whose constructor throws does not exist.\<close>

definition rma_region_ctor ::
    "((win_call \<times> int) list \<Rightarrow> win_call \<Rightarrow> int) \<Rightarrow> nat \<Rightarrow> ptr \<Rightarrow> rma_state \<Rightarrow> unit result \<times> rma_state" where
  "rma_region_ctor mpi i p s =
     (case issue mpi (Win_attach p) s of
        (rc, s) \<Rightarrow> (check_mpi rc (Inr ()), if rc = 0 then s\<lparr>regions := (regions s)(i \<mapsto> p)\<rparr> else s))"

definition rma_region_move :: "nat \<Rightarrow> nat \<Rightarrow> rma_state \<Rightarrow> rma_state" where
  "rma_region_move i j s = s\<lparr>regions := (regions s)(j := None, i := regions s j)\<rparr>"

definition rma_region_dtor :: "((win_call \<times> int) list \<Rightarrow> win_call \<Rightarrow> int) \<Rightarrow> nat \<Rightarrow> rma_state \<Rightarrow> rma_state" where
  "rma_region_dtor mpi i s =
     (case regions s i of
        None \<Rightarrow> s
      | Some p \<Rightarrow> (snd (issue mpi (Win_detach p) s))\<lparr>regions := (regions s)(i := None)\<rparr>)"

text \<open>Handles: the part of a region, and the key under which the other side addresses it.\<close>

definition region_get_handle :: "ptr \<Rightarrow> size_t \<Rightarrow> size_t \<Rightarrow> ptr \<times> size_t" where
  "region_get_handle p offset n = (p + unat offset, n)"

definition get_remote_key :: "(ptr \<Rightarrow> int \<times> 64 word) \<Rightarrow> ptr \<times> size_t \<Rightarrow> 64 word result" where
  "get_remote_key get_address h =
     (case get_address (fst h) of (rc, a) \<Rightarrow> if rc \<noteq> 0 then Inl (Terminate ''MPI Call failed'') else Inr a)"

subsection \<open>Context\<close>

text \<open>The constructor.  If it throws, the members that exist are destroyed: the heap, which is empty, and
  the holder of the window, whether a window was created or not.\<close>

fun run_checked ::
    "((win_call \<times> int) list \<Rightarrow> win_call \<Rightarrow> int) \<Rightarrow> (win_call \<times> bool) list \<Rightarrow> rma_state \<Rightarrow> unit result \<times> rma_state" where
  "run_checked mpi [] s = (Inr (), s)"
| "run_checked mpi ((c, checked) # cs) s =
     (case issue mpi c s of (rc, s) \<Rightarrow>
      if checked \<and> rc \<noteq> 0 then (check_mpi rc (Inr ()), s) else run_checked mpi cs s)"

definition rma_context_ctor ::
    "((win_call \<times> int) list \<Rightarrow> win_call \<Rightarrow> int) \<Rightarrow> rma_state \<Rightarrow> unit result \<times> rma_state" where
  "rma_context_ctor mpi s =
     (case run_checked mpi [(Info_create, True), (Info_set, True), (Win_create_dynamic, True), (Info_free, False),
        (Win_fence, True)] s of
        (Inr _, s) \<Rightarrow> (Inr (), s\<lparr>m_ranks := []\<rparr>)
      | (Inl e, s) \<Rightarrow> (Inl e, snd (issue mpi Win_free s)))"

text \<open>The destructor: the lock cache, the heap with its regions, in some order, and the window.\<close>

definition rma_context_dtor ::
    "((win_call \<times> int) list \<Rightarrow> win_call \<Rightarrow> int) \<Rightarrow> nat list \<Rightarrow> rma_state \<Rightarrow> rma_state" where
  "rma_context_dtor mpi order s = snd (issue mpi Win_free (fold (rma_region_dtor mpi) order (lc_dtor mpi s)))"

definition rma_init :: rma_state where
  "rma_init = \<lparr>win_trace = [], m_ranks = [], regions = (\<lambda>_. None)\<rparr>"

section \<open>The rules of MPI\<close>

text \<open>What a history leaves: whether the window exists, which ranks are locked, what is attached.\<close>

record win_view =
  v_window :: bool
  v_locked :: "rank_type set"
  v_attached :: "ptr set"

definition no_window :: win_view where
  "no_window = \<lparr>v_window = False, v_locked = {}, v_attached = {}\<rparr>"

fun win_effect :: "win_call \<Rightarrow> win_view \<Rightarrow> win_view" where
  "win_effect Win_create_dynamic v = v\<lparr>v_window := True\<rparr>"
| "win_effect (Win_lock r) v = v\<lparr>v_locked := insert r (v_locked v)\<rparr>"
| "win_effect (Win_unlock r) v = v\<lparr>v_locked := v_locked v - {r}\<rparr>"
| "win_effect (Win_attach p) v = v\<lparr>v_attached := insert p (v_attached v)\<rparr>"
| "win_effect (Win_detach p) v = v\<lparr>v_attached := v_attached v - {p}\<rparr>"
| "win_effect Win_free v = v\<lparr>v_window := False\<rparr>"
| "win_effect _ v = v"

fun win_allowed :: "win_call \<Rightarrow> win_view \<Rightarrow> bool" where
  "win_allowed Win_create_dynamic v \<longleftrightarrow> \<not> v_window v"
| "win_allowed Win_fence v \<longleftrightarrow> v_window v"
| "win_allowed (Win_lock r) v \<longleftrightarrow> v_window v \<and> r \<notin> v_locked v"
| "win_allowed (Win_unlock r) v \<longleftrightarrow> v_window v \<and> r \<in> v_locked v"
| "win_allowed (Win_attach p) v \<longleftrightarrow> v_window v \<and> p \<notin> v_attached v"
| "win_allowed (Win_detach p) v \<longleftrightarrow> v_window v \<and> p \<in> v_attached v"
| "win_allowed Win_free v \<longleftrightarrow> v_window v \<and> v_locked v = {}"
| "win_allowed _ v \<longleftrightarrow> True"

definition view_step :: "win_call \<times> int \<Rightarrow> win_view \<Rightarrow> win_view" where
  "view_step cr v = (if snd cr = 0 then win_effect (fst cr) v else v)"

definition view_of :: "(win_call \<times> int) list \<Rightarrow> win_view" where
  "view_of t = fold view_step t no_window"

fun win_legal :: "win_view \<Rightarrow> (win_call \<times> int) list \<Rightarrow> bool" where
  "win_legal v [] \<longleftrightarrow> True"
| "win_legal v (cr # t) \<longleftrightarrow> win_allowed (fst cr) v \<and> win_legal (view_step cr v) t"

text \<open>Unlocking and detaching succeed when they are allowed.\<close>

definition win_ok :: "((win_call \<times> int) list \<Rightarrow> win_call \<Rightarrow> int) \<Rightarrow> bool" where
  "win_ok mpi \<longleftrightarrow>
     (\<forall>t r. win_allowed (Win_unlock r) (view_of t) \<longrightarrow> mpi t (Win_unlock r) = 0) \<and>
     (\<forall>t p. win_allowed (Win_detach p) (view_of t) \<longrightarrow> mpi t (Win_detach p) = 0)"

lemma win_legal_append: "win_legal v (t @ u) \<longleftrightarrow> win_legal v t \<and> win_legal (fold view_step t v) u"
  by (induction t arbitrary: v) auto

lemma view_of_append [simp]: "view_of (t @ [cr]) = view_step cr (view_of t)"
  by (simp add: view_of_def)

lemma legal_issue:
  "win_legal no_window (t @ [cr]) \<longleftrightarrow> win_legal no_window t \<and> win_allowed (fst cr) (view_of t)"
  by (simp add: win_legal_append view_of_def)

section \<open>Use of a context\<close>

text \<open>The user locks ranks; the heap makes regions over memory that is not attached yet, moves them and
  destroys them.\<close>

inductive rma_step :: "((win_call \<times> int) list \<Rightarrow> win_call \<Rightarrow> int) \<Rightarrow> rma_state \<Rightarrow> rma_state \<Rightarrow> bool" for mpi where
  step_lock: "rma_step mpi s (snd (lc_lock mpi r s))"
| step_region: "regions s i = None \<Longrightarrow> (\<And>j. regions s j \<noteq> Some p) \<Longrightarrow> rma_step mpi s (snd (rma_region_ctor mpi i p s))"
| step_move: "regions s i = None \<Longrightarrow> rma_step mpi s (rma_region_move i j s)"
| step_dtor: "rma_step mpi s (rma_region_dtor mpi i s)"

definition rma_inv :: "rma_state \<Rightarrow> bool" where
  "rma_inv s \<longleftrightarrow> win_legal no_window (win_trace s) \<and> v_window (view_of (win_trace s)) \<and>
     v_locked (view_of (win_trace s)) = set (m_ranks s) \<and> distinct (m_ranks s) \<and>
     uniquely (regions s) (\<lambda>p. p \<in> v_attached (view_of (win_trace s)))"

definition locks_ok :: "(win_call \<times> int) list \<Rightarrow> bool" where
  "locks_ok t \<longleftrightarrow> (\<forall>r rc. (Win_lock r, rc) \<in> set t \<longrightarrow> rc = 0)"

lemma rma_inv_lock:
  assumes "rma_inv s" "locks_ok (win_trace (snd (lc_lock mpi r s)))"
  shows "rma_inv (snd (lc_lock mpi r s))"
proof (cases "r \<in> set (m_ranks s)")
  case True
  with assms show ?thesis
    by (simp add: lc_lock_def)
next
  case False
  with assms show ?thesis
    by (auto simp: lc_lock_def issue_def Let_def rma_inv_def legal_issue view_step_def locks_ok_def
        set_insort_key distinct_insort)
qed

lemma rma_inv_region:
  assumes "rma_inv s" "regions s i = None" "\<And>j. regions s j \<noteq> Some p"
  shows "rma_inv (snd (rma_region_ctor mpi i p s))"
proof -
  have p: "p \<notin> v_attached (view_of (win_trace s))"
    using assms(1,3) by (auto simp: rma_inv_def uniquely_def)
  have e: "(\<lambda>q. q \<in> v_attached (view_of (win_trace s)))(p := True) =
      (\<lambda>q. q = p \<or> q \<in> v_attached (view_of (win_trace s)))"
    by (simp add: fun_eq_iff)
  show ?thesis
    using assms(1,2) p uniquely_take [of "regions s" "\<lambda>q. q \<in> v_attached (view_of (win_trace s))" i p]
    by (auto simp: rma_region_ctor_def issue_def Let_def rma_inv_def legal_issue view_step_def e)
qed

lemma rma_inv_dtor:
  assumes "rma_inv s" "win_ok mpi"
  shows "rma_inv (rma_region_dtor mpi i s)"
proof (cases "regions s i")
  case None
  with assms show ?thesis
    by (simp add: rma_region_dtor_def)
next
  case (Some p)
  then have al: "win_allowed (Win_detach p) (view_of (win_trace s))"
    using assms(1) uniquely_live [of "regions s" _ i p] by (auto simp: rma_inv_def)
  then have "mpi (win_trace s) (Win_detach p) = 0"
    using assms(2) by (simp add: win_ok_def)
  moreover have "(\<lambda>q. q \<in> v_attached (view_of (win_trace s)) \<and> q \<noteq> p) =
      (\<lambda>q. q \<in> v_attached (view_of (win_trace s)) \<and> regions s i \<noteq> Some q)"
    using Some by auto
  ultimately show ?thesis
    using assms(1) al Some uniquely_drop [of "regions s" "\<lambda>q. q \<in> v_attached (view_of (win_trace s))" i]
    by (auto simp: rma_region_dtor_def issue_def Let_def rma_inv_def legal_issue view_step_def)
qed

lemma rma_inv_move: "rma_inv s \<Longrightarrow> regions s i = None \<Longrightarrow> rma_inv (rma_region_move i j s)"
  using uniquely_move [of "regions s" _ i j] by (auto simp: rma_inv_def rma_region_move_def)

lemma rma_step_trace: "rma_step mpi s t \<Longrightarrow> \<exists>u. win_trace t = win_trace s @ u"
  by (cases rule: rma_step.cases)
     (auto simp: lc_lock_def rma_region_ctor_def rma_region_move_def rma_region_dtor_def issue_def Let_def
       split: option.splits)

lemma rma_run_inv:
  assumes "(rma_step mpi)\<^sup>*\<^sup>* s t" "rma_inv s" "win_ok mpi" "locks_ok (win_trace t)"
  shows "rma_inv t"
  using assms(1,4)
proof (induction rule: rtranclp_induct)
  case base
  then show ?case
    using assms(2) by simp
next
  case (step t u)
  obtain v where "win_trace u = win_trace t @ v"
    using rma_step_trace [OF step.hyps(2)] by blast
  with step.prems have "locks_ok (win_trace t)"
    by (simp add: locks_ok_def)
  with step.IH have "rma_inv t"
    by blast
  with step.hyps(2) step.prems show ?case
    by (cases rule: rma_step.cases) (auto intro: rma_inv_lock rma_inv_region rma_inv_move rma_inv_dtor [OF _ assms(3)])
qed

text \<open>The destructor of the lock cache unlocks what is locked.\<close>

lemma unlock_all:
  assumes "rma_inv (s\<lparr>m_ranks := rs\<rparr>)" "win_ok mpi"
  shows "rma_inv ((fold (\<lambda>r s. snd (issue mpi (Win_unlock r) s)) rs s)\<lparr>m_ranks := []\<rparr>) \<and>
    regions (fold (\<lambda>r s. snd (issue mpi (Win_unlock r) s)) rs s) = regions s"
  using assms(1)
proof (induction rs arbitrary: s)
  case (Cons r rs)
  have al: "win_allowed (Win_unlock r) (view_of (win_trace s))"
    using Cons.prems by (simp add: rma_inv_def)
  then have rc: "mpi (win_trace s) (Win_unlock r) = 0"
    using assms(2) by (simp add: win_ok_def)
  define s1 where "s1 = snd (issue mpi (Win_unlock r) s)"
  have "rma_inv (s1\<lparr>m_ranks := rs\<rparr>)"
    using Cons.prems al rc by (auto simp: s1_def issue_def Let_def rma_inv_def legal_issue view_step_def)
  from Cons.IH [OF this] show ?case
    by (simp add: s1_def [symmetric]) (simp add: s1_def issue_def Let_def)
qed simp

lemma rma_inv_lc_dtor:
  assumes "rma_inv s" "win_ok mpi"
  shows "rma_inv (lc_dtor mpi s)" "regions (lc_dtor mpi s) = regions s" "m_ranks (lc_dtor mpi s) = []"
  using unlock_all [where s = s and rs = "m_ranks s" and mpi = mpi] assms by (simp_all add: lc_dtor_def)

lemma rma_region_dtor_frame:
  "regions (rma_region_dtor mpi i s) = (regions s)(i := None)" "m_ranks (rma_region_dtor mpi i s) = m_ranks s"
  by (auto simp: rma_region_dtor_def issue_def Let_def split: option.splits)

lemma region_dtors:
  assumes "rma_inv s" "win_ok mpi"
  shows "rma_inv (fold (rma_region_dtor mpi) is s) \<and> m_ranks (fold (rma_region_dtor mpi) is s) = m_ranks s \<and>
    regions (fold (rma_region_dtor mpi) is s) = (\<lambda>i. if i \<in> set is then None else regions s i)"
  using assms(1)
proof (induction "is" arbitrary: s)
  case (Cons i "is")
  from Cons.IH [OF rma_inv_dtor [OF Cons.prems assms(2), of i]] show ?case
    by (auto simp: rma_region_dtor_frame fun_eq_iff)
qed simp

lemma rma_context_ctor_inv:
  assumes "rma_context_ctor mpi rma_init = (Inr (), s)"
  shows "rma_inv s"
proof -
  have "\<exists>a. win_trace s = [(Info_create, 0), (Info_set, 0), (Win_create_dynamic, 0), (Info_free, a), (Win_fence, 0)] \<and>
      m_ranks s = [] \<and> regions s = (\<lambda>_. None)"
    using assms
    by (auto simp: rma_context_ctor_def rma_init_def issue_def Let_def check_mpi_def split: if_splits)
  then obtain a where t: "win_trace s = [(Info_create, 0), (Info_set, 0), (Win_create_dynamic, 0), (Info_free, a), (Win_fence, 0)]"
      "m_ranks s = []" "regions s = (\<lambda>_. None)"
    by blast
  have "view_of (win_trace s) = no_window\<lparr>v_window := True\<rparr>"
    by (simp add: t view_of_def view_step_def)
  with t show ?thesis
    by (auto simp: rma_inv_def view_step_def no_window_def uniquely_def)
qed

text \<open>C30: the window of a context.  Whatever ranks are locked and whatever regions are made, moved and
  destroyed, as long as no locking fails, every call from the constructor to the destructor keeps the rules
  of MPI: a rank is locked once and unlocked once, each memory that was attached is detached once, by the
  region that holds it last, and the window is freed when nothing is locked or attached any more.\<close>

theorem window_discipline:
  assumes "rma_context_ctor mpi rma_init = (Inr (), s0)" "(rma_step mpi)\<^sup>*\<^sup>* s0 s" "win_ok mpi"
    and "locks_ok (win_trace s)" "\<And>i. regions s i \<noteq> None \<Longrightarrow> i \<in> set order"
  shows "win_legal no_window (win_trace (rma_context_dtor mpi order s)) \<and>
    v_attached (view_of (win_trace (rma_context_dtor mpi order s))) = {} \<and>
    v_locked (view_of (win_trace (rma_context_dtor mpi order s))) = {}"
proof -
  define t where "t = fold (rma_region_dtor mpi) order (lc_dtor mpi s)"
  have "rma_inv s"
    using rma_run_inv [OF assms(2) rma_context_ctor_inv [OF assms(1)] assms(3,4)] .
  note lc = rma_inv_lc_dtor [OF this assms(3)]
  have t: "rma_inv t" "m_ranks t = []" "\<And>i. regions t i = None"
    using region_dtors [OF lc(1) assms(3), of order] lc(2,3) assms(5) by (auto simp: t_def simp del: not_None_eq)
  then have "v_attached (view_of (win_trace t)) = {}"
    using uniquely_none [of "regions t" "\<lambda>p. p \<in> v_attached (view_of (win_trace t))"] by (auto simp: rma_inv_def)
  with t show ?thesis
    by (auto simp: rma_context_dtor_def t_def [symmetric] issue_def Let_def legal_issue rma_inv_def view_step_def)
qed

lemma unlock_trace:
  "\<exists>u. win_trace (fold (\<lambda>r s. snd (issue mpi (Win_unlock r) s)) rs x) = win_trace x @ u \<and>
     map fst u = map Win_unlock rs"
proof (induction rs arbitrary: x)
  case (Cons r rs)
  from Cons.IH [of "snd (issue mpi (Win_unlock r) x)"] obtain u where
    "win_trace (fold (\<lambda>r s. snd (issue mpi (Win_unlock r) s)) (r # rs) x) =
       win_trace x @ (Win_unlock r, mpi (win_trace x) (Win_unlock r)) # u" "map fst u = map Win_unlock rs"
    by (auto simp: issue_def Let_def)
  then show ?case
    by (intro exI [of _ "(Win_unlock r, mpi (win_trace x) (Win_unlock r)) # u"]) simp
qed simp

lemma unlock_illegal:
  "Win_unlock r \<in> fst ` set x \<Longrightarrow> \<forall>y \<in> fst ` set x. \<exists>q. y = Win_unlock q \<Longrightarrow> r \<notin> v_locked v \<Longrightarrow> \<not> win_legal v x"
  by (induction x arbitrary: v) (auto simp: view_step_def image_iff, fastforce+)

text \<open>A locking that fails.  The rank is entered into the cache before MPI is asked, so after an error
  the next attempt makes no call and reports success although the rank is not locked, and the destructor
  unlocks a rank that was never locked.\<close>

theorem lock_failure:
  assumes "rma_inv s" "r \<notin> set (m_ranks s)" "mpi (win_trace s) (Win_lock r) \<noteq> 0"
  shows "\<exists>e t. lc_lock mpi r s = (Inl e, t) \<and> lc_lock mpi r t = (Inr (), t) \<and>
    r \<notin> v_locked (view_of (win_trace t)) \<and> \<not> win_legal no_window (win_trace (lc_dtor mpi t))"
proof -
  define t where "t = snd (lc_lock mpi r s)"
  have t: "win_trace t = win_trace s @ [(Win_lock r, mpi (win_trace s) (Win_lock r))]" "r \<in> set (m_ranks t)"
      "view_of (win_trace t) = view_of (win_trace s)"
    using assms(2,3) by (auto simp: t_def lc_lock_def issue_def Let_def set_insort_key view_step_def)
  obtain u where u: "win_trace (lc_dtor mpi t) = win_trace t @ u" "map fst u = map Win_unlock (m_ranks t)"
    using unlock_trace [of mpi "m_ranks t" t] by (auto simp: lc_dtor_def)
  then have "fst ` set u = Win_unlock ` set (m_ranks t)"
    by (metis list.set_map)
  moreover have "r \<notin> v_locked (view_of (win_trace t))"
    using assms(1,2) t(3) by (simp add: rma_inv_def)
  ultimately have "r \<notin> v_locked (view_of (win_trace t)) \<and> \<not> win_legal (view_of (win_trace t)) u"
    using unlock_illegal [of r u] t(2) by auto
  then show ?thesis
    using assms(2,3) t(2) u(1)
    by (intro exI [of _ "Runtime_error ''OOMPH Error: MPI Call failed''"] exI [of _ t])
       (auto simp: lc_lock_def issue_def Let_def check_mpi_def t_def win_legal_append view_of_def)
qed

text \<open>An MPI library that always succeeds, and one that fails to lock rank 3.\<close>

theorem window_discipline_witness:
  "win_legal no_window (win_trace (rma_context_dtor (\<lambda>_ _. 0) [0]
     (snd (lc_lock (\<lambda>_ _. 0) 3 (snd (rma_context_ctor (\<lambda>_ _. 0) rma_init))))))"
proof -
  define mpi :: "(win_call \<times> int) list \<Rightarrow> win_call \<Rightarrow> int" where "mpi = (\<lambda>_ _. 0)"
  define s0 where "s0 = snd (rma_context_ctor mpi rma_init)"
  have c: "rma_context_ctor mpi rma_init = (Inr (), s0)"
    by (simp add: s0_def mpi_def rma_context_ctor_def issue_def Let_def)
  have st: "(rma_step mpi)\<^sup>*\<^sup>* s0 (snd (lc_lock mpi 3 s0))"
    by (blast intro: step_lock)
  have ok: "win_ok mpi" "locks_ok (win_trace (snd (lc_lock mpi 3 s0)))" "regions (snd (lc_lock mpi 3 s0)) i = None" for i
    by (auto simp: win_ok_def mpi_def locks_ok_def lc_lock_def s0_def rma_context_ctor_def issue_def Let_def rma_init_def)
  show ?thesis
    using window_discipline [OF c st ok(1,2), of "[0]"] ok(3) by (simp add: mpi_def s0_def)
qed

theorem lock_failure_witness:
  "\<exists>t. lc_lock (\<lambda>_ c. if c = Win_lock 3 then 1 else 0) 3 t = (Inr (), t) \<and> 3 \<notin> v_locked (view_of (win_trace t))"
proof -
  define mpi :: "(win_call \<times> int) list \<Rightarrow> win_call \<Rightarrow> int" where "mpi = (\<lambda>_ c. if c = Win_lock 3 then 1 else 0)"
  define s0 where "s0 = snd (rma_context_ctor mpi rma_init)"
  have c: "rma_context_ctor mpi rma_init = (Inr (), s0)" and r: "3 \<notin> set (m_ranks s0)"
    by (simp_all add: s0_def mpi_def rma_context_ctor_def issue_def Let_def)
  have "mpi (win_trace s0) (Win_lock 3) \<noteq> 0"
    by (simp add: mpi_def)
  then show ?thesis
    using lock_failure [of s0 3 mpi] rma_context_ctor_inv [OF c] r by (auto simp: mpi_def)
qed

text \<open>If the window cannot be created, the holder frees a window that does not exist.\<close>

lemma ctor_failure_frees:
  assumes "\<And>t. mpi t Info_create = 0" "\<And>t. mpi t Info_set = 0" "\<And>t. mpi t Win_create_dynamic \<noteq> 0"
  shows "\<exists>e t. rma_context_ctor mpi rma_init = (Inl e, t) \<and> \<not> win_legal no_window (win_trace t)"
  using assms by (simp add: rma_context_ctor_def rma_init_def issue_def Let_def check_mpi_def view_step_def no_window_def)

section \<open>Channels\<close>

text \<open>The constructors.  \<open>allocate\<close> is the heap's, \<open>get_address\<close> is \<open>MPI_Get_address\<close>, \<open>post\<close> starts the
  exchange of the key (\<open>MPI_Isend\<close> or \<open>MPI_Irecv\<close>, with return code and handle).\<close>

record recv_channel_impl =
  rc_base :: channel_base
  rc_buffer :: ptr
  rc_local_key :: "64 word"

definition recv_channel_ctor ::
    "(size_t \<Rightarrow> 'h \<Rightarrow> ptr \<times> 'h) \<Rightarrow> (ptr \<Rightarrow> int \<times> 64 word) \<Rightarrow> ((win_call \<times> int) list \<Rightarrow> win_call \<Rightarrow> int) \<Rightarrow>
     (64 word \<Rightarrow> rank_type \<Rightarrow> tag_type \<Rightarrow> int \<times> mpi_handle) \<Rightarrow> size_t \<Rightarrow> size_t \<Rightarrow> rank_type \<Rightarrow> tag_type \<Rightarrow> size_t \<Rightarrow>
     'h \<times> rma_state \<Rightarrow> recv_channel_impl result \<times> 'h \<times> rma_state" where
  "recv_channel_ctor allocate get_address mpi post n T_size src tag levels = (\<lambda>(h, s).
     let b = channel_ctor n T_size src tag levels in
     case allocate (levels * channel_buffer_size b * T_size) h of (p, h) \<Rightarrow>
     case get_remote_key get_address (region_get_handle p 0 (levels * channel_buffer_size b * T_size)) of
       Inl e \<Rightarrow> (Inl e, h, s)
     | Inr key \<Rightarrow>
         (case lc_lock mpi src s of
            (Inl e, s) \<Rightarrow> (Inl e, h, s)
          | (Inr _, s) \<Rightarrow>
              (case post key src tag of (rc, req) \<Rightarrow>
                 (check_mpi rc (Inr \<lparr>rc_base = b\<lparr>ch_init_req := req\<rparr>, rc_buffer = p, rc_local_key = key\<rparr>), h, s))))"

record send_channel_impl =
  sc_base :: channel_base
  sc_remote_key :: "64 word"

text \<open>The key is undefined, here \<open>k0\<close>, until the message has arrived.\<close>

definition send_channel_ctor ::
    "64 word \<Rightarrow> ((win_call \<times> int) list \<Rightarrow> win_call \<Rightarrow> int) \<Rightarrow> (rank_type \<Rightarrow> tag_type \<Rightarrow> int \<times> mpi_handle) \<Rightarrow> size_t \<Rightarrow>
     size_t \<Rightarrow> rank_type \<Rightarrow> tag_type \<Rightarrow> size_t \<Rightarrow> rma_state \<Rightarrow> send_channel_impl result \<times> rma_state" where
  "send_channel_ctor k0 mpi post n T_size dst tag levels s =
     (case lc_lock mpi dst s of
        (Inl e, s) \<Rightarrow> (Inl e, s)
      | (Inr _, s) \<Rightarrow>
          (case post dst tag of (rc, req) \<Rightarrow>
             (check_mpi rc (Inr \<lparr>sc_base = (channel_ctor n T_size dst tag levels)\<lparr>ch_init_req := req\<rparr>, sc_remote_key = k0\<rparr>), s)))"

definition recv_channel_capacity :: "recv_channel_impl \<Rightarrow> size_t" where
  "recv_channel_capacity c = ch_capacity (rc_base c)"

text \<open>\<open>recv_channel_impl::get\<close> of the MPI transport: no buffer, index 0.\<close>

definition recv_channel_impl_get :: "recv_channel_impl \<Rightarrow> ptr option \<times> size_t" where
  "recv_channel_impl_get c = (None, 0)"

subsection \<open>Buffers of a channel\<close>

text \<open>\<open>recv_channel<T>::buffer\<close>, in variables.  \<open>rb_held\<close> are the places of the rings, by implementation and
  index, that were handed out and not released.\<close>

record channel_buffer =
  rb_ptr :: "ptr option"
  rb_size :: size_t
  rb_index :: size_t
  rb_impl :: ptr

record buffer_state =
  rb_vars :: "nat \<Rightarrow> channel_buffer"
  rb_held :: "ptr \<times> size_t \<Rightarrow> bool"

definition rb_release :: "nat \<Rightarrow> buffer_state \<Rightarrow> buffer_state result" where
  "rb_release i s =
     (let b = rb_vars s i; k = (rb_impl b, rb_index b) in
      if rb_ptr b = None then Inr s
      else if rb_held s k
        then Inr (s\<lparr>rb_held := (rb_held s)(k := False), rb_vars := (rb_vars s)(i := b\<lparr>rb_ptr := None\<rparr>)\<rparr>)
        else Inl (Undefined_behaviour ''place released twice''))"

definition rb_move_ctor :: "nat \<Rightarrow> nat \<Rightarrow> buffer_state \<Rightarrow> buffer_state" where
  "rb_move_ctor i j s =
     (let b = rb_vars s j in s\<lparr>rb_vars := (rb_vars s)(j := b\<lparr>rb_ptr := None\<rparr>, i := b)\<rparr>)"

definition rb_move_assign :: "nat \<Rightarrow> nat \<Rightarrow> buffer_state \<Rightarrow> buffer_state result" where
  "rb_move_assign i j s =
     bind_res (rb_release i s) (\<lambda>s.
     let b = rb_vars s j in Inr (s\<lparr>rb_vars := (rb_vars s)(j := b\<lparr>rb_ptr := None\<rparr>, i := b)\<rparr>))"

definition rb_end :: "size_t \<Rightarrow> channel_buffer \<Rightarrow> ptr option" where
  "rb_end T_size b = map_option (\<lambda>p. p + unat (rb_size b) * unat T_size) (rb_ptr b)"

text \<open>\<open>recv_channel<T>::get\<close> into the new object \<open>i\<close>: \<open>got\<close> is what the implementation \<open>c\<close> returns; a place it
  hands out is held from then on.\<close>

definition recv_channel_get :: "nat \<Rightarrow> ptr \<Rightarrow> size_t \<Rightarrow> ptr option \<times> size_t \<Rightarrow> buffer_state \<Rightarrow> buffer_state" where
  "recv_channel_get i c n got s =
     s\<lparr>rb_vars := (rb_vars s)(i := \<lparr>rb_ptr = fst got, rb_size = n, rb_index = snd got, rb_impl = c\<rparr>),
       rb_held := (if fst got = None then rb_held s else (rb_held s)((c, snd got) := True))\<rparr>"

datatype rb_op = Rb_get nat ptr size_t "ptr option \<times> size_t" | Rb_move_ctor nat nat | Rb_move_assign nat nat | Rb_dtor nat

fun rb_exec :: "rb_op \<Rightarrow> buffer_state \<Rightarrow> buffer_state result" where
  "rb_exec (Rb_get i c n got) s = Inr (recv_channel_get i c n got s)"
| "rb_exec (Rb_move_ctor i j) s = Inr (rb_move_ctor i j s)"
| "rb_exec (Rb_move_assign i j) s = rb_move_assign i j s"
| "rb_exec (Rb_dtor i) s = rb_release i s"

text \<open>Constructors run on storage without a live object, and a channel does not hand out a place that is
  held.  An object may be assigned to itself.\<close>

fun rb_legal :: "rb_op \<Rightarrow> buffer_state \<Rightarrow> bool" where
  "rb_legal (Rb_get i c n got) s \<longleftrightarrow> rb_ptr (rb_vars s i) = None \<and> (fst got = None \<or> \<not> rb_held s (c, snd got))"
| "rb_legal (Rb_move_ctor i j) s \<longleftrightarrow> rb_ptr (rb_vars s i) = None \<and> i \<noteq> j"
| "rb_legal _ s \<longleftrightarrow> True"

definition rb_holds :: "buffer_state \<Rightarrow> nat \<Rightarrow> (ptr \<times> size_t) option" where
  "rb_holds s i = (if rb_ptr (rb_vars s i) = None then None else Some (rb_impl (rb_vars s i), rb_index (rb_vars s i)))"

definition rb_inv :: "buffer_state \<Rightarrow> bool" where
  "rb_inv s \<longleftrightarrow> uniquely (rb_holds s) (rb_held s)"

lemma rb_holds_upd:
  "rb_holds (s\<lparr>rb_vars := (rb_vars s)(i := b), rb_held := l\<rparr>) =
     (rb_holds s)(i := if rb_ptr b = None then None else Some (rb_impl b, rb_index b))"
  by (auto simp: rb_holds_def fun_eq_iff)

lemma rb_release_ok:
  assumes "rb_inv s"
  shows "\<exists>t. rb_release i s = Inr t \<and> rb_inv t \<and> rb_holds t = (rb_holds s)(i := None)"
proof (cases "rb_ptr (rb_vars s i)")
  case None
  then have "(rb_holds s)(i := None) = rb_holds s"
    by (auto simp: rb_holds_def)
  with None assms show ?thesis
    by (simp add: rb_release_def Let_def)
next
  case (Some p)
  define k where "k = (rb_impl (rb_vars s i), rb_index (rb_vars s i))"
  have h: "rb_holds s i = Some k"
    using Some by (simp add: rb_holds_def k_def)
  define t where "t = s\<lparr>rb_held := (rb_held s)(k := False), rb_vars := (rb_vars s)(i := (rb_vars s i)\<lparr>rb_ptr := None\<rparr>)\<rparr>"
  have "rb_release i s = Inr t"
    using assms Some uniquely_live [of "rb_holds s" "rb_held s", OF _ h]
    by (simp add: rb_release_def Let_def rb_inv_def t_def k_def)
  moreover have ht: "rb_holds t = (rb_holds s)(i := None)"
    by (simp add: t_def rb_holds_def fun_eq_iff)
  moreover have "(\<lambda>a. rb_held s a \<and> rb_holds s i \<noteq> Some a) = rb_held t"
    using h by (auto simp: t_def fun_eq_iff)
  then have "rb_inv t"
    using uniquely_drop [of "rb_holds s" "rb_held s" i] assms ht by (simp add: rb_inv_def)
  ultimately show ?thesis
    by blast
qed

lemma rb_move_holds:
  "rb_holds (s\<lparr>rb_vars := (rb_vars s)(j := (rb_vars s j)\<lparr>rb_ptr := None\<rparr>, i := rb_vars s j)\<rparr>) =
     (rb_holds s)(j := None, i := rb_holds s j)"
  by (auto simp: rb_holds_def fun_eq_iff)

lemma rb_exec_ok:
  assumes "rb_inv s" "rb_legal op s"
  shows "\<exists>t. rb_exec op s = Inr t \<and> rb_inv t"
proof (cases op)
  case (Rb_get i c n got)
  then have i: "rb_holds s i = None"
    using assms(2) by (simp add: rb_holds_def)
  have "rb_inv (recv_channel_get i c n got s)"
  proof (cases "fst got")
    case None
    moreover have "(rb_holds s)(i := None) = rb_holds s"
      using i by auto
    ultimately show ?thesis
      using assms(1) rb_holds_upd [where s = s and i = i and l = "rb_held s"] by (simp add: recv_channel_get_def rb_inv_def)
  next
    case (Some p)
    then have "\<not> rb_held s (c, snd got)"
      using assms(2) Rb_get by simp
    with Some show ?thesis
      using uniquely_take [of "rb_holds s" "rb_held s" i "(c, snd got)"] i assms(1) rb_holds_upd [where s = s and i = i]
      by (simp add: recv_channel_get_def rb_inv_def)
  qed
  with Rb_get show ?thesis
    by simp
next
  case (Rb_move_ctor i j)
  then have "rb_holds s i = None"
    using assms(2) by (simp add: rb_holds_def)
  with Rb_move_ctor assms(1) show ?thesis
    using uniquely_move [of "rb_holds s" "rb_held s" i j] rb_move_holds [where s = s and i = i and j = j]
    by (simp add: rb_move_ctor_def Let_def rb_inv_def)
next
  case (Rb_move_assign i j)
  obtain t where t: "rb_release i s = Inr t" "rb_inv t" "rb_holds t = (rb_holds s)(i := None)"
    using rb_release_ok [OF assms(1)] by blast
  then show ?thesis
    using uniquely_move [of "rb_holds t" "rb_held t" i j] rb_move_holds [where s = t and i = i and j = j] Rb_move_assign
    by (simp add: rb_move_assign_def Let_def rb_inv_def)
next
  case (Rb_dtor i)
  with rb_release_ok [OF assms(1), of i] show ?thesis
    by auto
qed

inductive rb_reach :: "buffer_state \<Rightarrow> bool" where
  rb_start: "(\<And>i. rb_ptr (b i) = None) \<Longrightarrow> rb_reach \<lparr>rb_vars = b, rb_held = (\<lambda>_. False)\<rparr>"
| rb_next: "rb_reach s \<Longrightarrow> rb_legal op s \<Longrightarrow> rb_exec op s = Inr t \<Longrightarrow> rb_reach t"

text \<open>In every program with channel buffers, self assignment included, a place that is held has exactly
  one buffer object, and releasing never releases a place twice; the buffers the MPI implementation gives
  are empty.\<close>

lemma channel_buffers_safe:
  assumes "rb_reach s" "rb_legal op s"
  shows "(\<exists>t. rb_exec op s = Inr t) \<and> (rb_held s k \<longrightarrow> (\<exists>!i. rb_holds s i = Some k))"
proof -
  have "rb_inv s"
    using assms(1)
  proof (induction rule: rb_reach.induct)
    case (rb_start b)
    then show ?case
      by (simp add: rb_inv_def uniquely_def rb_holds_def)
  next
    case (rb_next s op t)
    then show ?case
      using rb_exec_ok [of s op] by auto
  qed
  then show ?thesis
    using rb_exec_ok [OF _ assms(2)] uniquely_holder [of "rb_holds s" "rb_held s" k] by (auto simp: rb_inv_def)
qed

lemma mpi_channel_empty: "rb_ptr (rb_vars (recv_channel_get i p n (recv_channel_impl_get c) s) i) = None"
  by (simp add: recv_channel_get_def recv_channel_impl_get_def)

end
