(* ===== verification/Mpi_Wait.thy ===== *)
theory Mpi_Wait
  imports Mpi_Example
begin

text \<open>
  Waiting for one request over MPI: \<open>send_request::wait\<close>, \<open>recv_request::wait\<close> and
  \<open>shared_recv_request::wait\<close> (\<open>request.cpp\<close>) with the progress of \<open>mpi/communicator.hpp\<close> and
  \<open>mpi/context.hpp\<close>.  The user's request object keeps its request state alive while it waits.
\<close>

section \<open>A request that is held\<close>

text \<open>The user has a request object for \<open>p\<close>, and \<open>p\<close>, if it exists, belongs to communicator \<open>c\<close>.\<close>

definition held :: "nat \<Rightarrow> ptr \<Rightarrow> (('c, 'x) request_state_base_scheme, 'z) request_store_scheme \<Rightarrow> bool" where
  "held c p w \<longleftrightarrow> 0 < handles w p \<and> (\<forall>b. heap w p = Some b \<longrightarrow> m_comm (m_t b) = c)"

text \<open>A callback does not destroy the request object that is waited for.\<close>

definition cb_holds where
  "cb_holds c p cbk \<longleftrightarrow> (\<forall>a r t w. held c p w \<longrightarrow> held c p (cbk a r t w))"

lemma held_store_cong: "heap v = heap w \<Longrightarrow> handles v = handles w \<Longrightarrow> held c p v \<longleftrightarrow> held c p w"
  by (simp add: held_def)

lemma held_store_state: "(\<And>r. m_comm (f r) = m_comm r) \<Longrightarrow> held c p (store_state q f w) \<longleftrightarrow> held c p w"
  by (auto simp: held_def store_state_def split: option.splits)

lemma held_decr [simp]: "held c p (decr_counter k w) \<longleftrightarrow> held c p w"
  by (simp add: held_def decr_counter_def)

lemma held_modify:
  "modify_state q f w = Inr v \<Longrightarrow> (\<And>r. m_comm (f r) = m_comm r) \<Longrightarrow> held c p w \<Longrightarrow> held c p v"
  by (auto simp: modify_state_def bind_res_eq_Inr held_store_state)

lemma held_drop_ref: "drop_ref m w = Inr v \<Longrightarrow> held c p w \<Longrightarrow> held c p v"
  by (auto simp: drop_ref_def block_destroy_def block_free_def bind_res_eq_Inr held_def Let_def
      split: option.splits if_splits)

lemma held_release:
  "release_self_ref q w = Inr (m, v) \<Longrightarrow> held c p w \<Longrightarrow> held c p (v :: (('c, 'x) request_state_scheme, 'z) request_store_scheme)"
  by (auto simp: release_self_ref_def bind_res_eq_Inr held_store_state split: if_splits)

lemma held_invoke:
  assumes "invoke_cb cbk q w = Inr v" "held c p w" "cb_holds c p cbk"
  shows "held c p v"
  using assms by (auto simp: invoke_cb_def bind_res_eq_Inr Let_def held_store_state cb_holds_def)

lemma held_complete:
  assumes "complete_request cbk q w = Inr v" "held c p w" "cb_holds c p cbk"
  shows "held c p v"
proof -
  obtain m w1 w2 where "release_self_ref q w = Inr (m, w1)" "invoke_cb cbk q w1 = Inr w2" "drop_ref m w2 = Inr v"
    using assms(1) by (auto simp: complete_request_def bind_res_eq_Inr)
  with held_release [OF _ assms(2)] held_invoke [OF _ _ assms(3)] held_drop_ref show ?thesis
    by blast
qed

lemma held_fold_complete:
  assumes "fold_res (complete_request cbk) ps w = Inr v" "held c p w" "cb_holds c p cbk"
  shows "held c p v"
  using assms(1,2)
proof (induction ps arbitrary: w)
  case (Cons q ps)
  then obtain u where "complete_request cbk q w = Inr u" "fold_res (complete_request cbk) ps u = Inr v"
    by (auto simp: bind_res_eq_Inr)
  with Cons.IH held_complete [OF _ Cons.prems(2) assms(3)] show ?case
    by blast
qed simp

section \<open>Progress keeps it\<close>

lemma held_upd_queue [simp]: "held c p (upd_queue q f w) \<longleftrightarrow> held c p w"
  by (simp add: held_def upd_queue_def)

lemma held_upd_shared [simp]: "held c p (upd_shared f w) \<longleftrightarrow> held c p w"
  by (simp add: held_def upd_shared_def)

lemma held_mpi_state [simp]: "held c p (w\<lparr>mpi_state := m\<rparr>) \<longleftrightarrow> held c p w"
  by (simp add: held_def)

lemma held_compact: "rq_compact q n i k j w = Inr v \<Longrightarrow> held c p w \<Longrightarrow> held c p v"
proof (induction q n i k j w rule: rq_compact.induct)
  case (2 q n i k j w)
  show ?case
  proof (cases "int i = indices (queue w q) ! k \<or> \<not> j < i")
    case True
    with 2 show ?thesis
      by (auto simp: Let_def split: if_splits)
  next
    case False
    with 2(4) obtain u where u: "modify_state (m_queue (queue w q) ! i) (m_index_update (\<lambda>_. j)) w = Inr u"
        "rq_compact q n (i + 1) k (j + 1) (upd_queue q (m_queue_update (\<lambda>xs. xs[j := m_queue (queue w q) ! i])) u) = Inr v"
      by (auto simp: Let_def bind_res_eq_Inr split: if_splits)
    moreover have "held c p u"
      using held_modify [OF u(1) _ 2(5)] by simp
    ultimately show ?thesis
      using 2(2) False 2(4) by (auto simp: Let_def split: if_splits)
  qed
qed simp

lemma held_rq_finish:
  assumes "bind_res (rq_compact q qs 0 0 0 w) (\<lambda>w.
      let ready = m_ready_queue (queue w q);
          w = upd_queue q (m_queue_update (\<lambda>xs. take (length xs - length ready) xs)) w in
      bind_res (fold_res (complete_request cbk) ready w) (\<lambda>w.
      Inr (length ready, upd_queue q (in_progress_update (\<lambda>_. False)) w))) = Inr (n, v)"
    and "held c p w" "cb_holds c p cbk"
  shows "held c p v"
proof -
  obtain u u' where u: "rq_compact q qs 0 0 0 w = Inr u" "v = upd_queue q (in_progress_update (\<lambda>_. False)) u'"
      "fold_res (complete_request cbk) (m_ready_queue (queue u q))
        (upd_queue q (m_queue_update (\<lambda>xs. take (length xs - length (m_ready_queue (queue u q))) xs)) u) = Inr u'"
    using assms(1) by (auto simp: bind_res_eq_Inr Let_def)
  have "held c p u"
    using held_compact [OF u(1) assms(2)] .
  with held_fold_complete [OF u(3) _ assms(3)] show ?thesis
    by (simp add: u(2))
qed

text \<open>A poll that is not empty, as one expression over the state \<open>w1\<close> in which MPI is asked.\<close>

lemma rq_progress_poll:
  fixes w :: "('c, 'm) mpi_world"
  assumes "\<not> (in_progress (queue w q) \<or> rq_size q (upd_queue q (in_progress_update (\<lambda>_. True)) w) = 0)"
  defines "qs \<equiv> rq_size q (upd_queue q (in_progress_update (\<lambda>_. True)) w)"
  defines "w1 \<equiv> upd_queue q (\<lambda>rq. rq\<lparr>m_ready_queue := [], reqs := [], indices := resize (qs + 1) 0 (indices rq)\<rparr>)
      (upd_queue q (in_progress_update (\<lambda>_. True)) w)"
  shows "rq_progress mpi cbk q w =
      bind_res (map_res (\<lambda>e. bind_res (load_state e w1) (\<lambda>r. Inr (m_req r))) (m_queue (queue w1 q))) (\<lambda>hs.
        case MPI_Testsome mpi hs (mpi_state w1) of ((rc, hs', outcount, idx), m) \<Rightarrow>
        let w = upd_queue q (\<lambda>rq. rq\<lparr>reqs := hs', indices := overwrite idx (indices rq)\<rparr>) (w1\<lparr>mpi_state := m\<rparr>) in
        check_mpi rc
          (if outcount = 0 then Inr (0, upd_queue q (in_progress_update (\<lambda>_. False)) w)
           else if outcount < 0 \<or> int qs < outcount
           then Inl (Undefined_behaviour ''indices[outcount] out of range'')
           else
             let w = upd_queue q (indices_update (\<lambda>xs. xs[nat outcount := int qs])) w in
             bind_res (rq_compact q qs 0 0 0 w) (\<lambda>w.
             let ready = m_ready_queue (queue w q);
                 w = upd_queue q (m_queue_update (\<lambda>xs. take (length xs - length ready) xs)) w in
             bind_res (fold_res (complete_request cbk) ready w) (\<lambda>w.
             Inr (length ready, upd_queue q (in_progress_update (\<lambda>_. False)) w)))))"
  using assms(1) unfolding rq_progress_def w1_def qs_def by (simp only: Let_def) simp

lemma held_rq_progress:
  assumes "rq_progress mpi cbk q w = Inr (n, v)" "held c p w" "cb_holds c p cbk"
  shows "held c p v"
proof (cases "in_progress (queue w q) \<or> rq_size q (upd_queue q (in_progress_update (\<lambda>_. True)) w) = 0")
  case True
  with assms(1) have "v = w \<or> v = upd_queue q (in_progress_update (\<lambda>_. False)) (upd_queue q (in_progress_update (\<lambda>_. True)) w)"
    unfolding rq_progress_def Let_def by (auto split: if_splits)
  with assms(2) show ?thesis
    by auto
next
  case False
  define qs where "qs = rq_size q (upd_queue q (in_progress_update (\<lambda>_. True)) w)"
  define w1 where "w1 = upd_queue q (\<lambda>rq. rq\<lparr>m_ready_queue := [], reqs := [],
      indices := resize (qs + 1) 0 (indices rq)\<rparr>)
      (upd_queue q (in_progress_update (\<lambda>_. True)) w)"
  have "held c p w1"
    using assms(2) by (simp add: w1_def)
  note e = rq_progress_poll [OF False, folded qs_def, folded w1_def]
  obtain hs where hs: "map_res (\<lambda>e. bind_res (load_state e w1) (\<lambda>r. Inr (m_req r))) (m_queue (queue w1 q)) = Inr hs"
    using assms(1) unfolding e bind_res_eq_Inr by blast
  obtain rc hs' oc idx m where t: "MPI_Testsome mpi hs (mpi_state w1) = ((rc, hs', oc, idx), m)"
    by (metis surj_pair)
  define w2 where "w2 = upd_queue q (\<lambda>rq. rq\<lparr>reqs := hs', indices := overwrite idx (indices rq)\<rparr>) (w1\<lparr>mpi_state := m\<rparr>)"
  have w2: "held c p w2"
    using \<open>held c p w1\<close> by (simp add: w2_def)
  then have "held c p (upd_queue q f w2)" for f
    by simp
  note fin = held_rq_finish [OF _ this assms(3)]
  show ?thesis
    using assms(1) w2 fin [where n = n and v = v]
    unfolding e hs bind_res_simps t prod.case w2_def [symmetric] Let_def check_mpi_def by (auto split: if_splits)
qed

lemma held_sq_poll: "sq_poll mpi n w = Inr (e, v) \<Longrightarrow> held c p w \<Longrightarrow> held c p v"
proof (induction mpi n w rule: sq_poll.induct)
  case (2 mpi n w)
  then show ?case
    by (auto simp: Let_def bind_res_eq_Inr held_store_state split: list.splits if_splits)
qed simp

lemma held_sq_progress:
  assumes "sq_progress mpi cbk w = Inr (n, v)" "held c p w" "cb_holds c p cbk"
  shows "held c p v"
proof (cases "sq_in_progress (m_req_queue w)")
  case True
  with assms show ?thesis
    by (simp add: sq_progress_def)
next
  case False
  then obtain found u where u: "sq_poll mpi (length (sq_queue (m_req_queue (upd_shared (sq_in_progress_update (\<lambda>_. True)) w))))
      (upd_shared (sq_in_progress_update (\<lambda>_. True)) w) = Inr (found, u)"
      "bind_res (Inr (found, u)) (\<lambda>(found, w).
        let w = upd_shared (\<lambda>s. s\<lparr>sq_queue := sq_queue s @ sq_local_queue s, sq_local_queue := []\<rparr>) w in
        case found of
          None \<Rightarrow> Inr (0, upd_shared (sq_in_progress_update (\<lambda>_. False)) w)
        | Some e \<Rightarrow>
            bind_res (release_self_ref e w) (\<lambda>(self, w).
            bind_res (invoke_cb cbk e w) (\<lambda>w.
            let w = upd_shared (sq_size_update (\<lambda>n. n - 1)) w in
            bind_res (drop_ref self w) (\<lambda>w.
            Inr (1, upd_shared (sq_in_progress_update (\<lambda>_. False)) w))))) = Inr (n, v)"
    using assms(1) by (auto simp: sq_progress_def Let_def bind_res_eq_Inr)
  have "held c p u"
    using held_sq_poll [OF u(1)] assms(2) by simp
  then show ?thesis
    using u(2) held_release [where c = c and p = p] held_invoke [where c = c and p = p, OF _ _ assms(3)]
      held_drop_ref [where c = c and p = p]
    by (fastforce simp: Let_def bind_res_eq_Inr split: option.splits)
qed

lemma held_comm_progress:
  assumes "mpi_comm_progress mpi cbk k w = Inr v" "held c p w" "cb_holds c p cbk"
  shows "held c p v"
  using assms(1,2) held_rq_progress [OF _ _ assms(3)] held_sq_progress [OF _ _ assms(3)]
  by (auto simp: mpi_comm_progress_def mpi_ctx_progress_def bind_res_eq_Inr)

lemma held_ctx_progress:
  assumes "mpi_ctx_progress mpi cbk w = Inr v" "held c p w" "cb_holds c p cbk"
  shows "held c p v"
  using assms(1,2) held_sq_progress [OF _ _ assms(3)] by (auto simp: mpi_ctx_progress_def bind_res_eq_Inr)

section \<open>Waiting\<close>

definition wait_inv :: "'m mpi_lib \<Rightarrow> ('c, 'm) callback \<Rightarrow> nat \<Rightarrow> ptr \<Rightarrow> ('c, 'm) mpi_world \<Rightarrow> bool" where
  "wait_inv mpi cbk c p w \<longleftrightarrow> mpi_state_inv w \<and> held c p w \<and> cb_holds c p cbk \<and> callback_ok cbk \<and> mpi_ok mpi"

definition is_ready :: "ptr \<Rightarrow> ('c, 'm) mpi_world \<Rightarrow> bool" where
  "is_ready p w \<longleftrightarrow> (\<exists>b. heap w p = Some b \<and> m_ready (m_t b))"

lemma wait_inv_state:
  assumes "wait_inv mpi cbk c p w"
  shows "\<exists>b. heap w p = Some b \<and> m_comm (m_t b) = c"
proof -
  have "store_inv w" "0 < handles w p"
    using assms by (simp_all add: wait_inv_def mpi_state_inv_def mpi_inv_def held_def)
  then have "heap w p \<noteq> None"
    using store_inv_handles by fastforce
  with assms show ?thesis
    by (auto simp: wait_inv_def held_def)
qed

lemma wait_inv_ready: "wait_inv mpi cbk c p w \<Longrightarrow> request_is_ready (Some p) w = Inr (is_ready p w)"
  using wait_inv_state by (fastforce simp: request_is_ready_def load_state_def is_ready_def)

lemma wait_inv_comm_progress:
  assumes "wait_inv mpi cbk c p w"
  shows "\<exists>v. mpi_comm_progress mpi cbk k w = Inr v \<and> wait_inv mpi cbk c p v"
  using assms mpi_comm_progress_ok [of w cbk mpi k] held_comm_progress [of mpi cbk k w _ c p]
  unfolding wait_inv_def by blast

lemma wait_inv_ctx_progress:
  assumes "wait_inv mpi cbk c p w"
  shows "\<exists>v. mpi_ctx_progress mpi cbk w = Inr v \<and> wait_inv mpi cbk c p v"
proof -
  have i: "mpi_inv w" "sq_local_queue (m_req_queue w) = []" "callback_ok cbk" "test_ok mpi"
    using assms by (simp_all add: wait_inv_def mpi_state_inv_def mpi_ok_def)
  then obtain n v where v: "sq_progress mpi cbk w = Inr (n, v)" "mpi_inv v" "cb_frame {} w v"
    using sq_progress_ok [OF i(1,3)] by metis
  then have "mpi_ctx_progress mpi cbk w = Inr v" "mpi_state_inv v"
    using i(2) by (simp_all add: mpi_ctx_progress_def mpi_state_inv_def cb_frame_def)
  with assms held_ctx_progress [of mpi cbk w v c p] show ?thesis
    by (auto simp: wait_inv_def)
qed

interpretation comm_wait: progress_engine "request_progress (mpi_comm_progress mpi cbk) p" "wait_inv mpi cbk c p"
  for mpi cbk c p
proof
  fix w :: "('a, 'b) mpi_world" assume i: "wait_inv mpi cbk c p w"
  with wait_inv_state wait_inv_comm_progress [OF i, of c]
  show "\<exists>v. request_progress (mpi_comm_progress mpi cbk) p w = Inr v \<and> wait_inv mpi cbk c p v"
    by (fastforce simp: request_progress_def load_state_def)
qed

interpretation ctx_wait: progress_engine "request_progress (\<lambda>_. mpi_ctx_progress mpi cbk) p" "wait_inv mpi cbk c p"
  for mpi cbk c p
proof
  fix w :: "('a, 'b) mpi_world" assume i: "wait_inv mpi cbk c p w"
  with wait_inv_state wait_inv_ctx_progress [OF i]
  show "\<exists>v. request_progress (\<lambda>_. mpi_ctx_progress mpi cbk) p w = Inr v \<and> wait_inv mpi cbk c p v"
    by (fastforce simp: request_progress_def load_state_def)
qed

text \<open>The progress a request makes is that of its communicator.\<close>

lemma request_progress_held:
  "wait_inv mpi cbk c p w \<Longrightarrow> request_progress (mpi_comm_progress mpi cbk) p w = mpi_comm_progress mpi cbk c w"
  "wait_inv mpi cbk c p w \<Longrightarrow> request_progress (\<lambda>_. mpi_ctx_progress mpi cbk) p w = mpi_ctx_progress mpi cbk w"
  using wait_inv_state by (fastforce simp: request_progress_def load_state_def)+

lemma iterate_comm_progress:
  "wait_inv mpi cbk c p w \<Longrightarrow>
     iterate (request_progress (mpi_comm_progress mpi cbk) p) n w = iterate (mpi_comm_progress mpi cbk c) n w"
proof (induction n arbitrary: w)
  case (Suc n)
  with wait_inv_comm_progress [OF Suc.prems, of c] show ?case
    by (auto simp: request_progress_held)
qed simp

lemma iterate_ctx_progress:
  "wait_inv mpi cbk c p w \<Longrightarrow>
     iterate (request_progress (\<lambda>_. mpi_ctx_progress mpi cbk) p) n w = iterate (mpi_ctx_progress mpi cbk) n w"
proof (induction n arbitrary: w)
  case (Suc n)
  with wait_inv_ctx_progress [OF Suc.prems] show ?case
    by (auto simp: request_progress_held)
qed simp



end
