(* ===== verification/Storage.thy ===== *)
theory Storage
  imports Shared_Ptr
begin

text \<open>
  Storage utilities (\<open>util/placement_new.hpp\<close>, \<open>util/stack_storage.hpp\<close>, \<open>util/stack_pimpl.hpp\<close>,
  \<open>util/heap_pimpl.hpp\<close>, \<open>util/pool_allocator.hpp\<close>, \<open>util/pool_factory.hpp\<close>).  A \<open>stack_storage\<close> holds at most one
  object in a buffer of its own, beside a flag; a \<open>heap_pimpl\<close> owns an object on the heap; a pool factory makes
  shared objects whose memory belongs to a pool, which may be destroyed before them.
\<close>

section \<open>Objects in a buffer\<close>

text \<open>\<open>m_impl\<close> is the object that is alive in the buffer, if any.  What the constructors and assignments of
  the stored type do is a parameter: \<open>mv v\<close> is the new object and what is left of \<open>v\<close>; \<open>asg u v\<close> is the same for
  the assignment to \<open>u\<close>.\<close>

record 'a stack_storage =
  m_impl :: "'a option"
  m_empty :: bool

type_synonym 'a stores = "nat \<Rightarrow> 'a stack_storage"

text \<open>The assertions of \<open>placement_new\<close>: the size, and the alignment of the buffer.\<close>

definition placement_new :: "nat \<Rightarrow> nat \<Rightarrow> nat \<Rightarrow> ptr \<Rightarrow> 'a \<Rightarrow> 'a stack_storage \<Rightarrow> 'a stack_storage result" where
  "placement_new size_T align_T buf_size addr v s =
     (if buf_size < size_T then Inl (Terminate ''assert(sizeof(T) <= size)'')
      else if \<not> align_T dvd addr then Inl (Terminate ''assert: alignment'')
      else Inr (s\<lparr>m_impl := Some v\<rparr>))"

definition placement_delete :: "'a stack_storage \<Rightarrow> 'a stack_storage result" where
  "placement_delete s =
     (case m_impl s of
        None \<Rightarrow> Inl (Undefined_behaviour ''destruction of an object that does not exist'')
      | Some v \<Rightarrow> Inr (s\<lparr>m_impl := None\<rparr>))"

definition ss_get :: "'a stack_storage \<Rightarrow> 'a result" where
  "ss_get s =
     (if m_empty s then Inl (Terminate ''assert(!m_empty)'')
      else case m_impl s of
          None \<Rightarrow> Inl (Undefined_behaviour ''object does not exist'')
        | Some v \<Rightarrow> Inr v)"

text \<open>The parameters of a type: size, alignment, and the address of each variable's buffer.\<close>

record 'a storage_type =
  st_size :: nat
  st_align :: nat
  st_buffer :: nat
  st_addr :: "nat \<Rightarrow> ptr"
  st_move :: "'a \<Rightarrow> 'a \<times> 'a"
  st_assign :: "'a \<Rightarrow> 'a \<Rightarrow> 'a \<times> 'a"

definition new_at :: "'a storage_type \<Rightarrow> nat \<Rightarrow> 'a \<Rightarrow> 'a stack_storage \<Rightarrow> 'a stack_storage result" where
  "new_at T i v = placement_new (st_size T) (st_align T) (st_buffer T) (st_addr T i) v"

definition ss_default :: "nat \<Rightarrow> 'a stores \<Rightarrow> 'a stores result" where
  "ss_default i s = Inr (s(i := (s i)\<lparr>m_empty := True\<rparr>))"

definition ss_construct :: "'a storage_type \<Rightarrow> nat \<Rightarrow> 'a \<Rightarrow> 'a stores \<Rightarrow> 'a stores result" where
  "ss_construct T i v s = bind_res (new_at T i v ((s i)\<lparr>m_empty := False\<rparr>)) (\<lambda>x. Inr (s(i := x)))"

text \<open>Construction in \<open>i\<close> from what is moved out of \<open>j\<close>.\<close>

definition move_into :: "'a storage_type \<Rightarrow> nat \<Rightarrow> nat \<Rightarrow> 'a stores \<Rightarrow> 'a stores result" where
  "move_into T i j s =
     bind_res (ss_get (s j)) (\<lambda>v.
     case st_move T v of (a, b) \<Rightarrow>
     bind_res (new_at T i a (s i)) (\<lambda>x. Inr (s(j := (s j)\<lparr>m_impl := Some b\<rparr>, i := x))))"

definition ss_move_ctor :: "'a storage_type \<Rightarrow> nat \<Rightarrow> nat \<Rightarrow> 'a stores \<Rightarrow> 'a stores result" where
  "ss_move_ctor T i j s =
     (let s = s(i := (s i)\<lparr>m_empty := m_empty (s j)\<rparr>) in
      if m_empty (s i) then Inr s else move_into T i j s)"

definition ss_move_assign :: "'a storage_type \<Rightarrow> nat \<Rightarrow> nat \<Rightarrow> 'a stores \<Rightarrow> 'a stores result" where
  "ss_move_assign T i j s =
     (if m_empty (s i) \<and> m_empty (s j) then Inr s
      else if m_empty (s i) then
        bind_res (move_into T i j s) (\<lambda>s. Inr (s(i := (s i)\<lparr>m_empty := False\<rparr>)))
      else if m_empty (s j) then
        bind_res (placement_delete (s i)) (\<lambda>x. Inr (s(i := x\<lparr>m_empty := True\<rparr>)))
      else
        bind_res (ss_get (s i)) (\<lambda>u. bind_res (ss_get (s j)) (\<lambda>v.
        case st_assign T u v of (a, b) \<Rightarrow>
        Inr (s(j := (s j)\<lparr>m_impl := Some b\<rparr>, i := (s i)\<lparr>m_impl := Some a\<rparr>)))))"

text \<open>The end of the storage: what is in the buffer is gone.\<close>

definition ss_dtor :: "nat \<Rightarrow> 'a stores \<Rightarrow> 'a stores result" where
  "ss_dtor i s = (if m_empty (s i) then Inr s else bind_res (placement_delete (s i)) (\<lambda>x. Inr (s(i := x\<lparr>m_empty := True\<rparr>))))"

subsection \<open>Specification: a variable that may hold a value\<close>

datatype 'a ss_op = Ss_default nat | Ss_construct nat 'a | Ss_move_ctor nat nat | Ss_move_assign nat nat | Ss_dtor nat

fun ss_exec :: "'a storage_type \<Rightarrow> 'a ss_op \<Rightarrow> 'a stores \<Rightarrow> 'a stores result" where
  "ss_exec T (Ss_default i) s = ss_default i s"
| "ss_exec T (Ss_construct i v) s = ss_construct T i v s"
| "ss_exec T (Ss_move_ctor i j) s = ss_move_ctor T i j s"
| "ss_exec T (Ss_move_assign i j) s = ss_move_assign T i j s"
| "ss_exec T (Ss_dtor i) s = ss_dtor i s"

definition ss_abs :: "'a stores \<Rightarrow> nat \<Rightarrow> 'a option" where
  "ss_abs s i = m_impl (s i)"

fun ss_spec :: "'a storage_type \<Rightarrow> 'a ss_op \<Rightarrow> (nat \<Rightarrow> 'a option) \<Rightarrow> nat \<Rightarrow> 'a option" where
  "ss_spec T (Ss_default i) m = m(i := None)"
| "ss_spec T (Ss_construct i v) m = m(i := Some v)"
| "ss_spec T (Ss_move_ctor i j) m =
     (case m j of None \<Rightarrow> m(i := None) | Some v \<Rightarrow> m(j := Some (snd (st_move T v)), i := Some (fst (st_move T v))))"
| "ss_spec T (Ss_move_assign i j) m =
     (case (m i, m j) of
        (_, None) \<Rightarrow> m(i := None)
      | (None, Some v) \<Rightarrow> m(j := Some (snd (st_move T v)), i := Some (fst (st_move T v)))
      | (Some u, Some v) \<Rightarrow> m(j := Some (snd (st_assign T u v)), i := Some (fst (st_assign T u v))))"
| "ss_spec T (Ss_dtor i) m = m(i := None)"

text \<open>Constructors run on storage without an object; an object is not moved into itself.\<close>

fun ss_legal :: "'a ss_op \<Rightarrow> 'a stores \<Rightarrow> bool" where
  "ss_legal (Ss_default i) s \<longleftrightarrow> m_impl (s i) = None"
| "ss_legal (Ss_construct i v) s \<longleftrightarrow> m_impl (s i) = None"
| "ss_legal (Ss_move_ctor i j) s \<longleftrightarrow> m_impl (s i) = None \<and> i \<noteq> j"
| "ss_legal (Ss_move_assign i j) s \<longleftrightarrow> i \<noteq> j"
| "ss_legal (Ss_dtor i) s \<longleftrightarrow> True"

text \<open>The flag tells whether there is an object; the buffer is large enough and aligned.\<close>

definition ss_inv :: "'a stores \<Rightarrow> bool" where
  "ss_inv s \<longleftrightarrow> (\<forall>i. m_empty (s i) \<longleftrightarrow> m_impl (s i) = None)"

definition st_ok :: "'a storage_type \<Rightarrow> bool" where
  "st_ok T \<longleftrightarrow> st_size T \<le> st_buffer T \<and> (\<forall>i. st_align T dvd st_addr T i)"

lemma new_at_ok: "st_ok T \<Longrightarrow> new_at T i v s = Inr (s\<lparr>m_impl := Some v\<rparr>)"
  by (simp add: new_at_def placement_new_def st_ok_def)

lemma ss_get_ok: "ss_inv s \<Longrightarrow> ss_abs s i = Some v \<Longrightarrow> ss_get (s i) = Inr v"
  by (simp add: ss_get_def ss_inv_def ss_abs_def)

lemma ss_exec_pointwise:
  assumes "ss_inv s" "ss_legal op s" "st_ok T"
  shows "case ss_exec T op s of Inl e \<Rightarrow> False | Inr t \<Rightarrow> ss_inv t \<and> (\<forall>k. ss_abs t k = ss_spec T op (ss_abs s) k)"
proof (cases op)
  case (Ss_move_ctor i j)
  with assms show ?thesis
    by (cases "m_impl (s j)"; cases "st_move T (the (m_impl (s j)))")
       (auto simp: ss_move_ctor_def move_into_def ss_get_def new_at_ok ss_inv_def ss_abs_def Let_def)
next
  case (Ss_move_assign i j)
  then have ij: "i \<noteq> j"
    using assms(2) by simp
  show ?thesis
  proof (cases "m_impl (s j)")
    case None
    with assms(1,3) Ss_move_assign ij show ?thesis
      by (cases "m_impl (s i)") (auto simp: ss_move_assign_def placement_delete_def ss_inv_def ss_abs_def)
  next
    case (Some v)
    with assms(1,3) Ss_move_assign ij show ?thesis
      by (cases "m_impl (s i)"; cases "st_move T v"; cases "st_assign T (the (m_impl (s i))) v")
         (auto simp: ss_move_assign_def move_into_def ss_get_def new_at_ok ss_inv_def ss_abs_def)
  qed
qed (use assms in \<open>auto simp: ss_default_def ss_construct_def ss_dtor_def placement_delete_def new_at_ok ss_inv_def
       ss_abs_def split: option.splits\<close>)

lemma ss_exec_refines:
  assumes "ss_inv s" "ss_legal op s" "st_ok T"
  shows "\<exists>t. ss_exec T op s = Inr t \<and> ss_inv t \<and> ss_abs t = ss_spec T op (ss_abs s)"
  using ss_exec_pointwise [OF assms] by (cases "ss_exec T op s") (auto simp: fun_eq_iff)

fun ss_run :: "'a storage_type \<Rightarrow> 'a ss_op list \<Rightarrow> 'a stores \<Rightarrow> 'a stores result" where
  "ss_run T [] s = Inr s"
| "ss_run T (op # ops) s = (if ss_legal op s then bind_res (ss_exec T op s) (ss_run T ops) else Inl (Logic_error ''misuse''))"

text \<open>C23: a \<open>stack_storage\<close> is a variable that may hold a value.  In every program of constructions, moves
  and destructions that respects the language (constructors run on storage without an object, no object is
  moved into itself), no operation fails, none destroys an object twice or leaves one behind, and the
  variables hold what the specification says.\<close>

theorem stack_storage_refines:
  assumes "st_ok T" "\<And>i. m_empty (s i) \<and> m_impl (s i) = None"
  shows "(\<exists>t. ss_run T ops s = Inr t \<and> ss_abs t = fold (ss_spec T) ops (ss_abs s)) \<or>
    ss_run T ops s = Inl (Logic_error ''misuse'')"
proof -
  have "(\<exists>t. ss_run T ops s = Inr t \<and> ss_abs t = fold (ss_spec T) ops (ss_abs s)) \<or>
      ss_run T ops s = Inl (Logic_error ''misuse'')" if "ss_inv s" for s
    using that
  proof (induction ops arbitrary: s)
    case (Cons op ops)
    show ?case
    proof (cases "ss_legal op s")
      case True
      then obtain t where "ss_exec T op s = Inr t" "ss_inv t" "ss_abs t = ss_spec T op (ss_abs s)"
        using ss_exec_refines [OF Cons.prems _ assms(1)] by blast
      with Cons.IH [of t] True show ?thesis
        by simp
    qed simp
  qed simp
  moreover have "ss_inv s"
    using assms(2) by (simp add: ss_inv_def)
  ultimately show ?thesis
    by blast
qed

definition ex_storage :: "nat storage_type" where
  "ex_storage = \<lparr>st_size = 8, st_align = 8, st_buffer = 16, st_addr = (\<lambda>i. 16 * i), st_move = (\<lambda>v. (v, 0)),
     st_assign = (\<lambda>u v. (v, 0))\<rparr>"

theorem stack_storage_refines_witness:
  "\<exists>t. ss_run ex_storage [Ss_construct 0 7, Ss_move_ctor 1 0, Ss_dtor 0, Ss_move_assign 1 0]
      (\<lambda>_. \<lparr>m_impl = None, m_empty = True\<rparr>) = Inr t \<and> ss_abs t 1 = None"
proof -
  let ?ops = "[Ss_construct 0 7, Ss_move_ctor 1 0, Ss_dtor 0, Ss_move_assign 1 0] :: nat ss_op list"
  let ?s = "(\<lambda>_. \<lparr>m_impl = None, m_empty = True\<rparr>) :: nat stores"
  have ok: "st_ok ex_storage"
    by (auto simp: st_ok_def ex_storage_def)
  have "ss_run ex_storage ?ops ?s \<noteq> Inl (Logic_error ''misuse'')"
    by (simp add: ss_construct_def ss_move_ctor_def ss_dtor_def ss_move_assign_def move_into_def ss_get_def
        placement_delete_def new_at_ok [OF ok])
      (simp add: ex_storage_def ss_dtor_def ss_move_assign_def placement_delete_def)
  then obtain t where "ss_run ex_storage ?ops ?s = Inr t" "ss_abs t = fold (ss_spec ex_storage) ?ops (ss_abs ?s)"
    using stack_storage_refines [OF ok, of ?s ?ops] by fastforce
  moreover have "fold (ss_spec ex_storage) ?ops (ss_abs ?s) 1 = None"
    by (simp add: ss_abs_def ex_storage_def)
  ultimately show ?thesis
    by metis
qed

section \<open>Objects on the heap\<close>

text \<open>\<open>heap_pimpl\<close>: variables with a unique pointer, and the objects on the heap.\<close>

record 'a pimpl_state =
  hp_vars :: "nat \<Rightarrow> ptr option"
  hp_heap :: "ptr \<Rightarrow> 'a option"

text \<open>\<open>delete\<close> of what a unique pointer holds.\<close>

definition hp_delete :: "ptr option \<Rightarrow> (ptr \<Rightarrow> 'a option) \<Rightarrow> (ptr \<Rightarrow> 'a option) result" where
  "hp_delete m h =
     (case m of
        None \<Rightarrow> Inr h
      | Some p \<Rightarrow> if h p = None then Inl (Undefined_behaviour ''deleted twice'') else Inr (h(p := None)))"

definition make_heap_pimpl :: "nat \<Rightarrow> ptr \<Rightarrow> 'a \<Rightarrow> 'a pimpl_state \<Rightarrow> 'a pimpl_state" where
  "make_heap_pimpl i p v s = s\<lparr>hp_vars := (hp_vars s)(i \<mapsto> p), hp_heap := (hp_heap s)(p \<mapsto> v)\<rparr>"

definition hp_move_ctor :: "nat \<Rightarrow> nat \<Rightarrow> 'a pimpl_state \<Rightarrow> 'a pimpl_state" where
  "hp_move_ctor i j s = s\<lparr>hp_vars := (hp_vars s)(j := None, i := hp_vars s j)\<rparr>"

text \<open>The assignment of \<open>std::unique_ptr\<close>: \<open>reset(other.release())\<close>, so the old object is deleted last; on the
  same variable nothing changes.\<close>

definition hp_move_assign :: "nat \<Rightarrow> nat \<Rightarrow> 'a pimpl_state \<Rightarrow> 'a pimpl_state result" where
  "hp_move_assign i j s =
     (if i = j then Inr s
      else bind_res (hp_delete (hp_vars s i) (hp_heap s)) (\<lambda>h.
        Inr (s\<lparr>hp_vars := (hp_vars s)(j := None, i := hp_vars s j), hp_heap := h\<rparr>)))"

definition hp_dtor :: "nat \<Rightarrow> 'a pimpl_state \<Rightarrow> 'a pimpl_state result" where
  "hp_dtor i s =
     bind_res (hp_delete (hp_vars s i) (hp_heap s)) (\<lambda>h. Inr (s\<lparr>hp_vars := (hp_vars s)(i := None), hp_heap := h\<rparr>))"

definition hp_get :: "nat \<Rightarrow> 'a pimpl_state \<Rightarrow> ptr option" where
  "hp_get i s = hp_vars s i"

text \<open>\<open>operator*\<close> and \<open>operator->\<close>\<close>

definition hp_deref :: "nat \<Rightarrow> 'a pimpl_state \<Rightarrow> 'a result" where
  "hp_deref i s =
     (case hp_get i s of
        None \<Rightarrow> Inl (Undefined_behaviour ''null pointer'')
      | Some p \<Rightarrow> (case hp_heap s p of None \<Rightarrow> Inl (Undefined_behaviour ''use after free'') | Some v \<Rightarrow> Inr v))"

definition hp_inv :: "'a pimpl_state \<Rightarrow> bool" where
  "hp_inv s \<longleftrightarrow> uniquely (hp_vars s) (\<lambda>p. hp_heap s p \<noteq> None)"

lemma hp_delete_ok:
  assumes "hp_inv s"
  shows "hp_delete (hp_vars s i) (hp_heap s) = Inr (\<lambda>p. if hp_vars s i = Some p then None else hp_heap s p)"
  using assms uniquely_live [of "hp_vars s" "\<lambda>p. hp_heap s p \<noteq> None" i]
  by (auto simp: hp_delete_def hp_inv_def fun_eq_iff split: option.splits)

lemma hp_inv_make:
  assumes "hp_inv s" "hp_vars s i = None" "hp_heap s p = None"
  shows "hp_inv (make_heap_pimpl i p v s)"
proof -
  have "(\<lambda>q. hp_heap s q \<noteq> None)(p := True) = (\<lambda>q. ((hp_heap s)(p \<mapsto> v)) q \<noteq> None)"
    by (auto simp: fun_eq_iff)
  then show ?thesis
    using uniquely_take [of "hp_vars s" "\<lambda>q. hp_heap s q \<noteq> None" i p] assms
    by (simp add: hp_inv_def make_heap_pimpl_def)
qed

lemma hp_inv_dtor:
  assumes "hp_inv s"
  shows "\<exists>t. hp_dtor i s = Inr t \<and> hp_inv t \<and> hp_vars t = (hp_vars s)(i := None)"
proof -
  have e: "(\<lambda>p. (if hp_vars s i = Some p then None else hp_heap s p) \<noteq> None) =
      (\<lambda>p. hp_heap s p \<noteq> None \<and> hp_vars s i \<noteq> Some p)"
    by (auto simp: fun_eq_iff)
  show ?thesis
    using uniquely_drop [of "hp_vars s" "\<lambda>p. hp_heap s p \<noteq> None" i] assms
    unfolding e [symmetric] by (simp add: hp_dtor_def hp_delete_ok hp_inv_def)
qed

lemma hp_inv_move_ctor: "hp_inv s \<Longrightarrow> hp_vars s i = None \<Longrightarrow> hp_inv (hp_move_ctor i j s)"
  using uniquely_move [of "hp_vars s" "\<lambda>p. hp_heap s p \<noteq> None" i j] by (simp add: hp_inv_def hp_move_ctor_def)

text \<open>An assignment is the destruction of the target and a move into it; no operation of a program of
  \<open>heap_pimpl\<close>s deletes an object twice or loses one.\<close>

lemma hp_inv_move_assign:
  assumes "hp_inv s"
  shows "\<exists>t. hp_move_assign i j s = Inr t \<and> hp_inv t"
proof (cases "i = j")
  case True
  with assms show ?thesis
    by (simp add: hp_move_assign_def)
next
  case False
  obtain t where t: "hp_dtor i s = Inr t" "hp_inv t" "hp_vars t = (hp_vars s)(i := None)"
    using hp_inv_dtor [OF assms] by blast
  then have "hp_move_assign i j s = Inr (hp_move_ctor i j t)"
    using False by (auto simp: hp_move_assign_def hp_dtor_def hp_move_ctor_def bind_res_eq_Inr fun_upd_twist)
  with hp_inv_move_ctor [OF t(2)] t(3) show ?thesis
    by simp
qed

lemma hp_deref_ok: "hp_inv s \<Longrightarrow> hp_get i s \<noteq> None \<Longrightarrow> \<exists>v. hp_deref i s = Inr v"
  using uniquely_live [of "hp_vars s" "\<lambda>p. hp_heap s p \<noteq> None" i]
  by (fastforce simp: hp_inv_def hp_deref_def hp_get_def split: option.splits)

section \<open>Pools\<close>

text \<open>A pool of \<open>boost\<close>: whether it exists, the size of its chunks, and the chunks that are handed out.\<close>

record boost_pool =
  pl_alive :: bool
  pl_requested_size :: nat
  pl_used :: "ptr set"

text \<open>\<open>pool_factory::pool_factory\<close>: chunks of the size of a control block.\<close>

definition pool_factory_ctor :: "nat \<Rightarrow> boost_pool" where
  "pool_factory_ctor block_size = \<lparr>pl_alive = True, pl_requested_size = block_size, pl_used = {}\<rparr>"

text \<open>The destructor of the pool gives all memory back, also the chunks that are in use.\<close>

definition pool_dtor :: "boost_pool \<Rightarrow> boost_pool" where
  "pool_dtor pl = pl\<lparr>pl_alive := False, pl_used := {}\<rparr>"

text \<open>\<open>allocate(n)\<close>; \<open>got\<close> is what \<open>malloc\<close> of the pool returns.\<close>

definition pool_allocate :: "nat \<Rightarrow> nat \<Rightarrow> ptr option \<Rightarrow> boost_pool \<Rightarrow> (ptr \<times> boost_pool) result" where
  "pool_allocate size_T n got pl =
     (if \<not> pl_alive pl then Inl (Undefined_behaviour ''pool destroyed'')
      else if pl_requested_size pl < size_T * n then Inl (Terminate ''assert: requested size'')
      else case got of
          None \<Rightarrow> Inl (Runtime_error ''std::bad_alloc'')
        | Some p \<Rightarrow> Inr (p, pl\<lparr>pl_used := insert p (pl_used pl)\<rparr>))"

definition pool_deallocate :: "ptr \<Rightarrow> boost_pool \<Rightarrow> boost_pool result" where
  "pool_deallocate p pl =
     (if \<not> pl_alive pl then Inl (Undefined_behaviour ''pool destroyed'')
      else if p \<in> pl_used pl then Inr (pl\<lparr>pl_used := pl_used pl - {p}\<rparr>)
      else Inl (Undefined_behaviour ''chunk not from this pool''))"

text \<open>\<open>pool_factory::make\<close> into the shared pointer \<open>i\<close>, and the destructor of such a pointer, whose block
  goes back to the pool with the last reference.\<close>

definition pool_factory_make ::
    "nat \<Rightarrow> nat \<Rightarrow> ptr option \<Rightarrow> 'a \<Rightarrow> ('a, 'b) sp_state_scheme \<times> boost_pool \<Rightarrow> (('a, 'b) sp_state_scheme \<times> boost_pool) result" where
  "pool_factory_make block_size i got v = (\<lambda>(s, pl).
     bind_res (pool_allocate block_size 1 got pl) (\<lambda>(p, pl).
     bind_res (sp_make i p v s) (\<lambda>s. Inr (s, pl))))"

definition pooled_destroy ::
    "nat \<Rightarrow> ('a, 'b) sp_state_scheme \<times> boost_pool \<Rightarrow> (('a, 'b) sp_state_scheme \<times> boost_pool) result" where
  "pooled_destroy i = (\<lambda>(s, pl).
     bind_res (sp_destroy i s) (\<lambda>t.
     case slot s i of
       None \<Rightarrow> Inr (t, pl)
     | Some p \<Rightarrow>
         if blocks t p = None then bind_res (pool_deallocate p pl) (\<lambda>pl. Inr (t, pl)) else Inr (t, pl)))"



end
