(* ===== verification/Device_Guard.thy ===== *)
theory Device_Guard
  imports Oomph_Prelude
begin

text \<open>
  Guards of the current device (\<open>device_guard.hpp\<close>).  Every transport calls its library under a guard: the
  device of the buffer is made the current one for the duration of the call, and the former one is
  restored by the destructor.  The functions of \<open>hwmalloc\<close> on the current device are parameters.
\<close>

section \<open>Guards\<close>

record 'g device_api =
  get_device_id :: "'g \<Rightarrow> int"
  set_device_id :: "int \<Rightarrow> 'g \<Rightarrow> 'g"

text \<open>What a guard uses of a pointer of \<open>hwmalloc\<close>.\<close>

record hw_pointer =
  on_device :: bool
  device_id :: int
  device_ptr :: ptr
  host_ptr :: ptr

text \<open>Without device support the current device is never read.\<close>

record device_guard_base =
  m_on_device :: bool
  m_new_device_id :: int
  m_current_device_id :: "int option"

record device_guard = device_guard_base +
  guard_ptr :: ptr

text \<open>\<open>enable\<close> is \<open>OOMPH_ENABLE_DEVICE\<close>.\<close>

definition device_guard_base_ctor ::
    "bool \<Rightarrow> 'g device_api \<Rightarrow> bool \<Rightarrow> int \<Rightarrow> 'g \<Rightarrow> device_guard_base \<times> 'g" where
  "device_guard_base_ctor enable api on new_id g =
     (if enable then
        let current = get_device_id api g in
        (\<lparr>m_on_device = on, m_new_device_id = new_id, m_current_device_id = Some current\<rparr>,
         if on \<and> current \<noteq> new_id then set_device_id api new_id g else g)
      else (\<lparr>m_on_device = on, m_new_device_id = new_id, m_current_device_id = None\<rparr>, g))"

definition device_guard_base_dtor ::
    "bool \<Rightarrow> 'g device_api \<Rightarrow> 'z device_guard_base_scheme \<Rightarrow> 'g \<Rightarrow> 'g" where
  "device_guard_base_dtor enable api d g =
     (if enable then
        case m_current_device_id d of
          None \<Rightarrow> g
        | Some current \<Rightarrow> if m_on_device d \<and> current \<noteq> m_new_device_id d then set_device_id api current g else g
      else g)"

definition device_guard_ctor :: "bool \<Rightarrow> 'g device_api \<Rightarrow> hw_pointer \<Rightarrow> 'g \<Rightarrow> device_guard \<times> 'g" where
  "device_guard_ctor enable api p g =
     (let on = (if enable then on_device p else False);
          new_id = (if enable then device_id p else 0);
          q = (if enable \<and> on_device p then device_ptr p else host_ptr p) in
      case device_guard_base_ctor enable api on new_id g of (b, g) \<Rightarrow>
        (device_guard_base.extend b \<lparr>guard_ptr = q\<rparr>, g))"

definition const_device_guard_ctor :: "bool \<Rightarrow> 'g device_api \<Rightarrow> hw_pointer \<Rightarrow> 'g \<Rightarrow> device_guard \<times> 'g" where
  "const_device_guard_ctor enable api p g =
     (let on = (if enable then on_device p else False);
          new_id = (if enable then device_id p else 0);
          q = (if enable \<and> on_device p then device_ptr p else host_ptr p) in
      case device_guard_base_ctor enable api on new_id g of (b, g) \<Rightarrow>
        (device_guard_base.extend b \<lparr>guard_ptr = q\<rparr>, g))"

definition guard_data :: "device_guard \<Rightarrow> ptr" where
  "guard_data d = guard_ptr d"

section \<open>Scopes\<close>

text \<open>A block with a guard as its first statement.  The destructor runs also when the block throws: \<open>'r\<close> is
  whatever the block ends with.\<close>

definition with_guard ::
    "bool \<Rightarrow> 'g device_api \<Rightarrow> hw_pointer \<Rightarrow> (ptr \<Rightarrow> 'g \<Rightarrow> 'r \<times> 'g) \<Rightarrow> 'g \<Rightarrow> 'r \<times> 'g" where
  "with_guard enable api p body g =
     (case device_guard_ctor enable api p g of (d, g) \<Rightarrow>
      case body (guard_data d) g of (r, g) \<Rightarrow> (r, device_guard_base_dtor enable api d g))"

fun nested_guards ::
    "bool \<Rightarrow> 'g device_api \<Rightarrow> hw_pointer list \<Rightarrow> (ptr list \<Rightarrow> 'g \<Rightarrow> 'r \<times> 'g) \<Rightarrow> 'g \<Rightarrow> 'r \<times> 'g" where
  "nested_guards enable api [] body g = body [] g"
| "nested_guards enable api (p # ps) body g =
     with_guard enable api p (\<lambda>d. nested_guards enable api ps (\<lambda>ds. body (d # ds))) g"

text \<open>The law of the library: the current device is the one that was set last.\<close>

definition device_api_ok :: "'g device_api \<Rightarrow> bool" where
  "device_api_ok api \<longleftrightarrow> (\<forall>d g. get_device_id api (set_device_id api d g) = d)"

definition pointer_data :: "bool \<Rightarrow> hw_pointer \<Rightarrow> ptr" where
  "pointer_data enable p = (if enable \<and> on_device p then device_ptr p else host_ptr p)"

definition pointer_device :: "bool \<Rightarrow> hw_pointer \<Rightarrow> int \<Rightarrow> int" where
  "pointer_device enable p current = (if enable \<and> on_device p then device_id p else current)"

lemma guard_ctor_data: "guard_data (fst (device_guard_ctor enable api p g)) = pointer_data enable p"
  by (simp add: device_guard_ctor_def device_guard_base_ctor_def guard_data_def pointer_data_def Let_def
      device_guard_base.extend_def)

lemma guard_ctor_device:
  "device_api_ok api \<Longrightarrow>
   get_device_id api (snd (device_guard_ctor enable api p g)) = pointer_device enable p (get_device_id api g)"
  by (simp add: device_guard_ctor_def device_guard_base_ctor_def device_api_ok_def pointer_device_def Let_def)

lemma guard_dtor_device:
  assumes "device_api_ok api" "get_device_id api h = pointer_device enable p (get_device_id api g)"
  shows "get_device_id api (device_guard_base_dtor enable api (fst (device_guard_ctor enable api p g)) h) =
    get_device_id api g"
  using assms
  by (auto simp: device_guard_ctor_def device_guard_base_ctor_def device_guard_base_dtor_def device_api_ok_def
      pointer_device_def Let_def device_guard_base.extend_def)

text \<open>Without device support a guard does nothing.\<close>

lemma with_guard_disabled: "with_guard False api p body g = body (host_ptr p) g"
  by (simp add: with_guard_def device_guard_ctor_def device_guard_base_ctor_def device_guard_base_dtor_def
      guard_data_def Let_def device_guard_base.extend_def)

lemma with_guard_spec:
  "\<exists>h. fst (with_guard enable api p body g) = fst (body (pointer_data enable p) h) \<and>
     h = snd (device_guard_ctor enable api p g) \<and>
     snd (with_guard enable api p body g) =
       device_guard_base_dtor enable api (fst (device_guard_ctor enable api p g)) (snd (body (pointer_data enable p) h))"
  using guard_ctor_data [of enable api p g] unfolding with_guard_def by (auto split: prod.split)

definition keeps_device :: "'g device_api \<Rightarrow> ('a \<Rightarrow> 'g \<Rightarrow> 'r \<times> 'g) \<Rightarrow> bool" where
  "keeps_device api body \<longleftrightarrow> (\<forall>x g. get_device_id api (snd (body x g)) = get_device_id api g)"

lemma with_guard_keeps:
  assumes ok: "device_api_ok api" and k: "\<And>x g. get_device_id api (snd (body x g)) = get_device_id api g"
  shows "get_device_id api (snd (with_guard enable api p body g)) = get_device_id api g"
  using with_guard_spec [of enable api p body g] guard_dtor_device [OF ok] guard_ctor_device [OF ok] k by metis

text \<open>Nested guards (for example of a send made in a callback) restore the current device, whether the
  block returns or throws.  The block itself runs on the device of the innermost buffer in device memory
  and gets the device address of each such buffer, the host address of the others.  The hypotheses are
  that \<open>hwmalloc\<close> reports the device that was set last and that the block changes the device only
  under guards of its own.\<close>

theorem device_guard_restores:
  assumes "device_api_ok api" "keeps_device api body"
  shows "get_device_id api (snd (nested_guards enable api ps body g)) = get_device_id api g \<and>
    (\<exists>h. fst (nested_guards enable api ps body g) = fst (body (map (pointer_data enable) ps) h) \<and>
         get_device_id api h = fold (pointer_device enable) ps (get_device_id api g))"
  using assms(2)
proof (induction ps arbitrary: body g)
  case Nil
  then show ?case
    by (auto simp: keeps_device_def)
next
  case (Cons p ps)
  let ?inner = "\<lambda>d. nested_guards enable api ps (\<lambda>ds. body (d # ds))"
  have kd: "keeps_device api (\<lambda>ds. body (d # ds))" for d
    using Cons.prems by (simp add: keeps_device_def)
  note IH = Cons.IH [OF kd]
  obtain h where h: "fst (with_guard enable api p ?inner g) = fst (?inner (pointer_data enable p) h)"
    "h = snd (device_guard_ctor enable api p g)"
    using with_guard_spec [of enable api p ?inner g] by blast
  have d: "get_device_id api h = pointer_device enable p (get_device_id api g)"
    using guard_ctor_device [OF assms(1)] h(2) by simp
  have "get_device_id api (snd (with_guard enable api p ?inner g)) = get_device_id api g"
    by (rule with_guard_keeps [OF assms(1)]) (use IH in blast)
  then show ?case
    using IH [of "pointer_data enable p" h] h(1) d by auto
qed

definition ex_device_api :: "(int list) device_api" where
  "ex_device_api = \<lparr>get_device_id = (\<lambda>g. if g = [] then 0 else last g), set_device_id = (\<lambda>d g. g @ [d])\<rparr>"

text \<open>Two buffers on the devices 1 and 2: the library is told 1, 2, 1, 0.\<close>

theorem device_guard_restores_witness:
  "let ps = [\<lparr>on_device = True, device_id = 1, device_ptr = 10, host_ptr = 11\<rparr>,
             \<lparr>on_device = True, device_id = 2, device_ptr = 20, host_ptr = 21\<rparr>];
       r = nested_guards True ex_device_api ps (\<lambda>ds g. ((ds, g), g)) [] in
   r = (([10, 20], [1, 2]), [1, 2, 1, 0]) \<and> get_device_id ex_device_api (snd r) = 0"
proof -
  have "device_api_ok ex_device_api" "keeps_device ex_device_api (\<lambda>ds g. ((ds, g), g))"
    by (simp_all add: device_api_ok_def keeps_device_def ex_device_api_def)
  note device_guard_restores [OF this, of True
    "[\<lparr>on_device = True, device_id = 1, device_ptr = 10, host_ptr = 11\<rparr>,
      \<lparr>on_device = True, device_id = 2, device_ptr = 20, host_ptr = 21\<rparr>]" "[]", THEN conjunct1]
  then show ?thesis
    by (simp add: with_guard_def device_guard_ctor_def device_guard_base_ctor_def device_guard_base_dtor_def
        guard_data_def ex_device_api_def Let_def device_guard_base.extend_def)
qed

end
