(* ===== verification/Nccl_Context.thy ===== *)
theory Nccl_Context
  imports Nccl_Transport Context_Base Device_Guard
begin

text \<open>
  Start and end of an NCCL context (\<open>nccl/context.hpp\<close>, \<open>nccl/nccl_communicator.hpp\<close>), the pool of events
  with the devices of its events (\<open>nccl/cuda_event_pool.hpp\<close>, \<open>nccl/cuda_event.hpp\<close>), and sending under a
  guard of the device.  All ranks are in the model of the start, since the exchange of the identifier is
  collective.  CUDA, NCCL and MPI are parameters.
\<close>

section \<open>The NCCL communicator\<close>

text \<open>The calls that were made, and the answers of the library given the calls before.\<close>

datatype 'id nccl_call =
    Get_unique_id
  | Comm_init nat 'id nat nat
  | Async_error nat
  | Device_synchronize
  | Comm_destroy nat

record 'id comm_lib =
  ncclGetUniqueId :: "'id nccl_call list \<Rightarrow> int \<times> 'id"
  ncclCommInitRank :: "'id nccl_call list \<Rightarrow> nat \<Rightarrow> 'id \<Rightarrow> nat \<Rightarrow> int \<times> nat"
  ncclCommGetAsyncError :: "'id nccl_call list \<Rightarrow> nat \<Rightarrow> int \<times> int"
  cudaDeviceSynchronize :: "'id nccl_call list \<Rightarrow> int"
  ncclCommDestroy :: "'id nccl_call list \<Rightarrow> nat \<Rightarrow> int"

text \<open>\<open>Comm_init n uid i c\<close> is a successful initialisation of rank \<open>i\<close> of \<open>n\<close>, giving the communicator \<open>c\<close>.\<close>

text \<open>The identifier, made by rank 0.\<close>

definition nccl_unique_id :: "'id comm_lib \<Rightarrow> 'id nccl_call list \<Rightarrow> 'id result \<times> 'id nccl_call list" where
  "nccl_unique_id lib t =
     (case ncclGetUniqueId lib t of (rc, uid) \<Rightarrow> (check_nccl rc (Inr uid), t @ [Get_unique_id]))"

text \<open>The loop that asks for the state of the communicator until it is no longer in progress (7).\<close>

partial_function (option) nccl_comm_poll ::
    "'id comm_lib \<Rightarrow> nat \<Rightarrow> 'id nccl_call list \<Rightarrow> (int result \<times> 'id nccl_call list) option" where
  "nccl_comm_poll lib c t =
     (case ncclCommGetAsyncError lib t c of (rc, r) \<Rightarrow>
        case check_nccl rc (Inr r) of
          Inl e \<Rightarrow> Some (Inl e, t @ [Async_error c])
        | Inr r \<Rightarrow> if r = 7 then nccl_comm_poll lib c (t @ [Async_error c]) else Some (Inr r, t @ [Async_error c]))"

definition nccl_comm_init ::
    "'id comm_lib \<Rightarrow> nat \<Rightarrow> 'id \<Rightarrow> nat \<Rightarrow> 'id nccl_call list \<Rightarrow> (nat result \<times> 'id nccl_call list) option" where
  "nccl_comm_init lib n uid i t =
     (case ncclCommInitRank lib t n uid i of (rc, c) \<Rightarrow>
        case check_nccl rc (Inr c) of
          Inl e \<Rightarrow> Some (Inl e, t)
        | Inr c \<Rightarrow>
            map_option (\<lambda>(r, t). (bind_res r (\<lambda>r. check_nccl r (Inr c)), t))
              (nccl_comm_poll lib c (t @ [Comm_init n uid i c])))"

text \<open>The constructors on all ranks.  \<open>bc\<close> is \<open>MPI_Bcast\<close> from rank 0, from the contents of \<open>id\<close> at each rank
  (\<open>junk\<close> at the ranks that have not set it) to a code and the contents afterwards.  If rank 0 throws before
  the broadcast, the others never return from it: \<open>None\<close>.\<close>

definition nccl_comm_ctors ::
    "('id list \<Rightarrow> int \<times> 'id list) \<Rightarrow> 'id \<Rightarrow> 'id comm_lib list \<Rightarrow> 'id nccl_call list list \<Rightarrow>
     (nat result \<times> 'id nccl_call list) option list" where
  "nccl_comm_ctors bc junk libs ts =
     (case nccl_unique_id (libs ! 0) (ts ! 0) of
        (Inl e, t) \<Rightarrow> Some (Inl e, t) # replicate (length libs - 1) None
      | (Inr uid, t) \<Rightarrow>
          (case bc (uid # replicate (length libs - 1) junk) of (rc, ids) \<Rightarrow>
             if rc \<noteq> 0 then map (\<lambda>t. Some (Inl (Runtime_error ''OOMPH Error: MPI Call failed''), t)) (ts[0 := t])
             else map (\<lambda>i. nccl_comm_init (libs ! i) (length libs) (ids ! i) i (ts[0 := t] ! i)) [0..<length libs]))"

text \<open>The object: the communicator and the bit that says whether it was moved from.\<close>

record nccl_comm =
  nc_comm :: nat
  nc_moved :: bool

text \<open>The defaulted moves, giving the target and the source afterwards.\<close>

definition nccl_comm_move :: "nccl_comm \<Rightarrow> nccl_comm \<times> nccl_comm" where
  "nccl_comm_move other =
     (case moved_bit_move (nc_moved other) of (b, b') \<Rightarrow> (other\<lparr>nc_moved := b\<rparr>, other\<lparr>nc_moved := b'\<rparr>))"

definition nccl_comm_dtor ::
    "'id comm_lib \<Rightarrow> nccl_comm \<Rightarrow> 'id nccl_call list \<Rightarrow> unit result \<times> 'id nccl_call list" where
  "nccl_comm_dtor lib c t =
     (if nc_moved c then (Inr (), t)
      else if cudaDeviceSynchronize lib t \<noteq> 0 then (Inl (Terminate ''cudaDeviceSynchronize''), t @ [Device_synchronize])
      else let t = t @ [Device_synchronize]; rc = ncclCommDestroy lib t (nc_comm c) in
        if rc \<noteq> 0 \<and> rc \<noteq> 7 then (Inl (Terminate ''ncclCommDestroy''), t)
        else (Inr (), t @ [Comm_destroy (nc_comm c)]))"

section \<open>The context\<close>

text \<open>The member is made by moving a temporary, which is destroyed at once.\<close>

definition nccl_context_comm ::
    "'id comm_lib \<Rightarrow> nat result \<times> 'id nccl_call list \<Rightarrow> nccl_comm result \<times> 'id nccl_call list" where
  "nccl_context_comm lib r =
     (case r of
        (Inl e, t) \<Rightarrow> (Inl e, t)
      | (Inr c, t) \<Rightarrow>
          (case nccl_comm_move \<lparr>nc_comm = c, nc_moved = False\<rparr> of (m, tmp) \<Rightarrow>
           case nccl_comm_dtor lib tmp t of (d, t) \<Rightarrow> (bind_res d (\<lambda>_. Inr m), t)))"

text \<open>The constructors of the contexts on all ranks; a thread safe context is refused before anything is
  created.\<close>

definition nccl_context_ctors ::
    "('id list \<Rightarrow> int \<times> 'id list) \<Rightarrow> 'id \<Rightarrow> bool \<Rightarrow> 'id comm_lib list \<Rightarrow> 'id nccl_call list list \<Rightarrow>
     (nccl_comm result \<times> 'id nccl_call list) option list" where
  "nccl_context_ctors bc junk thread_safe libs ts =
     (case check_not_thread_safe thread_safe of
        Inl e \<Rightarrow> map (\<lambda>t. Some (Inl e, t)) ts
      | Inr _ \<Rightarrow> map2 (\<lambda>lib. map_option (nccl_context_comm lib)) libs (nccl_comm_ctors bc junk libs ts))"

definition nccl_get_transport_option :: "string \<Rightarrow> string" where
  "nccl_get_transport_option opt = (if opt = ''name'' then ''nccl'' else ''unspecified'')"

section \<open>The start\<close>

text \<open>After finitely many questions the communicator is no longer in progress, and the answer is \<open>r\<close>.\<close>

definition settles :: "'id comm_lib \<Rightarrow> nat \<Rightarrow> int \<Rightarrow> 'id nccl_call list \<Rightarrow> nat \<Rightarrow> bool" where
  "settles lib c r t k \<longleftrightarrow>
     r \<noteq> 7 \<and> (\<forall>j<k. ncclCommGetAsyncError lib (t @ replicate j (Async_error c)) c = (0, 7)) \<and>
     ncclCommGetAsyncError lib (t @ replicate k (Async_error c)) c = (0, r)"

lemma poll_settles:
  "settles lib c r t k \<Longrightarrow> nccl_comm_poll lib c t = Some (Inr r, t @ replicate (Suc k) (Async_error c))"
proof (induction k arbitrary: t)
  case 0
  then show ?case
    by (subst nccl_comm_poll.simps) (simp add: settles_def check_nccl_def)
next
  case (Suc k)
  have a: "(t @ [Async_error c]) @ replicate j (Async_error c) = t @ replicate (Suc j) (Async_error c)" for j
    by simp
  have "settles lib c r (t @ [Async_error c]) k"
    using Suc.prems unfolding settles_def a by auto
  moreover have "ncclCommGetAsyncError lib t c = (0, 7)"
    using Suc.prems unfolding settles_def by (metis append_Nil2 replicate_0 zero_less_Suc)
  ultimately show ?case
    using Suc.IH by (subst nccl_comm_poll.simps) (simp add: check_nccl_def)
qed

text \<open>A communicator that stays in progress is waited for forever.\<close>

lemma poll_forever:
  assumes "\<And>t. ncclCommGetAsyncError lib t c = (0, 7)"
  shows "nccl_comm_poll lib c t = None"
proof -
  have "l = lib \<longrightarrow> d = c \<longrightarrow> False" if "nccl_comm_poll l d t = Some r" for l d t r
    using that
    by (induction rule: nccl_comm_poll.raw_induct [rotated, consumes 1, case_names step])
      (auto simp: assms check_nccl_def, blast)
  then show ?thesis
    by (metis option.exhaust)
qed

definition started :: "nat \<Rightarrow> 'id \<Rightarrow> nat \<Rightarrow> nat \<Rightarrow> nat \<Rightarrow> 'id nccl_call list" where
  "started n uid i c k = Comm_init n uid i c # replicate (Suc k) (Async_error c)"

text \<open>The library accepts rank \<open>i\<close> of \<open>n\<close> as the communicator \<open>c\<close>, which settles with the answer \<open>r\<close>.\<close>

definition accepts :: "'id comm_lib \<Rightarrow> nat \<Rightarrow> 'id \<Rightarrow> nat \<Rightarrow> nat \<Rightarrow> int \<Rightarrow> nat \<Rightarrow> 'id nccl_call list \<Rightarrow> bool" where
  "accepts lib n uid i c r k t \<longleftrightarrow>
     ncclCommInitRank lib t n uid i = (0, c) \<and> settles lib c r (t @ [Comm_init n uid i c]) k"

lemma init_ok:
  assumes "accepts lib n uid i c 0 k t"
  shows "nccl_comm_init lib n uid i t = Some (Inr c, t @ started n uid i c k)"
proof -
  have "settles lib c 0 (t @ [Comm_init n uid i c]) k"
    using assms by (simp add: accepts_def)
  note poll_settles [OF this]
  then show ?thesis
    using assms by (simp add: nccl_comm_init_def check_nccl_def accepts_def started_def)
qed

lemma init_failed:
  assumes "accepts lib n uid i c r k t" "r \<noteq> 0"
  shows "nccl_comm_init lib n uid i t =
    Some (Inl (Runtime_error ''OOMPH Error: NCCL Call failed''), t @ started n uid i c k)"
proof -
  have s: "settles lib c r (t @ [Comm_init n uid i c]) k"
    using assms by (simp add: accepts_def)
  then have "r \<noteq> 7"
    by (simp add: settles_def)
  then show ?thesis
    using assms poll_settles [OF s] by (simp add: nccl_comm_init_def check_nccl_def accepts_def started_def)
qed

definition bcast_id_ok :: "('id list \<Rightarrow> int \<times> 'id list) \<Rightarrow> bool" where
  "bcast_id_ok bc \<longleftrightarrow> (\<forall>x xs. bc (x # xs) = (0, replicate (Suc (length xs)) x))"

lemma ctors_after_id:
  assumes "ncclGetUniqueId (libs ! 0) (ts ! 0) = (0, uid)" "bcast_id_ok bc" "libs \<noteq> []"
  shows "nccl_comm_ctors bc junk libs ts =
    map (\<lambda>i. nccl_comm_init (libs ! i) (length libs) uid i (ts[0 := ts ! 0 @ [Get_unique_id]] ! i)) [0..<length libs]"
proof -
  have "bc (uid # replicate (length libs - 1) junk) = (0, replicate (length libs) uid)"
    using assms(2,3) by (cases libs) (simp_all add: bcast_id_ok_def)
  then show ?thesis
    using assms(1) by (simp add: nccl_comm_ctors_def nccl_unique_id_def check_nccl_def)
qed

lemma ctors_length: "length (nccl_comm_ctors bc junk libs ts) = length libs" if "length ts = length libs" "libs \<noteq> []"
  using that by (auto simp: nccl_comm_ctors_def split: prod.split sum.split)

lemma contexts_nth:
  assumes "length ts = length libs" "i < length libs"
  shows "nccl_context_ctors bc junk False libs ts ! i =
    map_option (nccl_context_comm (libs ! i)) (nccl_comm_ctors bc junk libs ts ! i)"
proof -
  have "length (nccl_comm_ctors bc junk libs ts) = length libs"
    by (rule ctors_length) (use assms in auto)
  then show ?thesis
    using assms(2) by (simp add: nccl_context_ctors_def check_not_thread_safe_def)
qed

lemma context_comm_ok: "nccl_context_comm lib (Inr c, t) = (Inr \<lparr>nc_comm = c, nc_moved = False\<rparr>, t)"
  by (simp add: nccl_context_comm_def nccl_comm_move_def moved_bit_move_def nccl_comm_dtor_def)

text \<open>C14: the start of NCCL contexts on all ranks.  Every constructor returns, however long NCCL reports that
  initialisation is in progress, if it does so finitely often; every rank has joined the communicator of
  the same identifier, made by rank 0, with its own rank and the common size; and the temporary object
  of the initialisation destroys nothing.  The destructor of the context waits for the device and destroys
  the communicator, once.\<close>

theorem nccl_contexts_start:
  assumes "libs \<noteq> []" "length ts = length libs" "bcast_id_ok bc"
    and "ncclGetUniqueId (libs ! 0) (ts ! 0) = (0, uid)"
    and "\<forall>i<length libs. accepts (libs ! i) (length libs) uid i (c i) 0 (k i) (ts[0 := ts ! 0 @ [Get_unique_id]] ! i)"
    and "i < length libs"
  shows "\<exists>t. nccl_context_ctors bc junk False libs ts ! i = Some (Inr \<lparr>nc_comm = c i, nc_moved = False\<rparr>, t) \<and>
      t = ts[0 := ts ! 0 @ [Get_unique_id]] ! i @ started (length libs) uid i (c i) (k i) \<and>
      (cudaDeviceSynchronize (libs ! i) t = 0 \<longrightarrow> ncclCommDestroy (libs ! i) (t @ [Device_synchronize]) (c i) = 0 \<longrightarrow>
       nccl_comm_dtor (libs ! i) \<lparr>nc_comm = c i, nc_moved = False\<rparr> t =
         (Inr (), t @ [Device_synchronize, Comm_destroy (c i)]))"
proof -
  have "nccl_comm_init (libs ! i) (length libs) uid i (ts[0 := ts ! 0 @ [Get_unique_id]] ! i) =
      Some (Inr (c i), ts[0 := ts ! 0 @ [Get_unique_id]] ! i @ started (length libs) uid i (c i) (k i))"
    by (rule init_ok) (use assms(5,6) in blast)
  then have "nccl_context_ctors bc junk False libs ts ! i =
      Some (Inr \<lparr>nc_comm = c i, nc_moved = False\<rparr>,
        ts[0 := ts ! 0 @ [Get_unique_id]] ! i @ started (length libs) uid i (c i) (k i))"
    unfolding contexts_nth [OF assms(2,6)] ctors_after_id [OF assms(4,3,1)] using assms(6) by (simp add: context_comm_ok)
  then show ?thesis
    by (simp add: nccl_comm_dtor_def)
qed

text \<open>A library of two ranks in which rank \<open>i\<close> is in progress for \<open>i\<close> questions.\<close>

definition ex_comm_lib :: "nat \<Rightarrow> int \<Rightarrow> nat comm_lib" where
  "ex_comm_lib i r = \<lparr>ncclGetUniqueId = (\<lambda>t. (0, 77)), ncclCommInitRank = (\<lambda>t n u i. (0, 100 + i)),
     ncclCommGetAsyncError = (\<lambda>t c. (0, if count_list t (Async_error c) < i then 7 else r)),
     cudaDeviceSynchronize = (\<lambda>t. 0), ncclCommDestroy = (\<lambda>t c. 0)\<rparr>"

definition ex_bcast_id :: "nat list \<Rightarrow> int \<times> nat list" where
  "ex_bcast_id xs = (0, replicate (length xs) (hd xs))"

theorem nccl_contexts_start_witness:
  "\<exists>t. nccl_context_ctors ex_bcast_id 0 False [ex_comm_lib 0 0, ex_comm_lib 1 0] [[], []] ! 1 =
       Some (Inr \<lparr>nc_comm = 101, nc_moved = False\<rparr>, t) \<and>
     nccl_comm_dtor (ex_comm_lib 1 0) \<lparr>nc_comm = 101, nc_moved = False\<rparr> t =
       (Inr (), t @ [Device_synchronize, Comm_destroy 101])"
proof -
  let ?libs = "[ex_comm_lib 0 0, ex_comm_lib 1 0]" and ?ts = "[[], []] :: nat nccl_call list list"
  have "accepts (?libs ! i) (length ?libs) 77 i (100 + i) 0 i (?ts[0 := ?ts ! 0 @ [Get_unique_id]] ! i)" if "i < 2" for i
    using that by (auto simp: accepts_def settles_def ex_comm_lib_def less_2_cases_iff)
  then have a: "\<forall>i<length ?libs. accepts (?libs ! i) (length ?libs) 77 i (100 + i) 0 i
      (?ts[0 := ?ts ! 0 @ [Get_unique_id]] ! i)"
    by simp
  have b: "bcast_id_ok ex_bcast_id"
    by (simp add: bcast_id_ok_def ex_bcast_id_def)
  have u: "ncclGetUniqueId (?libs ! 0) (?ts ! 0) = (0, 77)"
    by (simp add: ex_comm_lib_def)
  show ?thesis
    using nccl_contexts_start [OF _ _ b u a, of 1 0] by (simp add: ex_comm_lib_def)
qed

text \<open>Failures of the start.  If rank 0 cannot make an identifier its constructor throws, and the other
  ranks never return from the broadcast.  If the initialisation of a rank fails after NCCL has returned
  the communicator, the constructor throws and the communicator is never destroyed: an object whose
  constructor throws has no destructor call.\<close>

theorem nccl_start_failures:
  assumes "libs \<noteq> []" "length ts = length libs"
  shows "(fst (ncclGetUniqueId (libs ! 0) (ts ! 0)) \<notin> {0, 7} \<longrightarrow>
      nccl_context_ctors bc junk False libs ts =
        Some (Inl (Runtime_error ''OOMPH Error: NCCL Call failed''), ts ! 0 @ [Get_unique_id]) #
        replicate (length libs - 1) None) \<and>
    (\<forall>uid i r c k. ncclGetUniqueId (libs ! 0) (ts ! 0) = (0, uid) \<and> bcast_id_ok bc \<and> i < length libs \<and> r \<noteq> 0 \<and>
      accepts (libs ! i) (length libs) uid i c r k (ts[0 := ts ! 0 @ [Get_unique_id]] ! i) \<longrightarrow>
      (\<exists>t. nccl_context_ctors bc junk False libs ts ! i =
         Some (Inl (Runtime_error ''OOMPH Error: NCCL Call failed''), ts[0 := ts ! 0 @ [Get_unique_id]] ! i @ t) \<and>
       Comm_init (length libs) uid i c \<in> set t \<and> Comm_destroy c \<notin> set t))"
proof (intro conjI impI allI)
  assume "fst (ncclGetUniqueId (libs ! 0) (ts ! 0)) \<notin> {0, 7}"
  then have c: "nccl_comm_ctors bc junk libs ts =
      Some (Inl (Runtime_error ''OOMPH Error: NCCL Call failed''), ts ! 0 @ [Get_unique_id]) #
        replicate (length libs - 1) None"
    by (auto simp: nccl_comm_ctors_def nccl_unique_id_def check_nccl_def split: prod.split)
  have n: "map2 (\<lambda>lib. map_option (nccl_context_comm lib)) ls (replicate (length ls) None) = replicate (length ls) None"
    for ls :: "'a comm_lib list"
    by (induction ls) simp_all
  obtain l ls where "libs = l # ls"
    using assms(1) by (cases libs) auto
  then show "nccl_context_ctors bc junk False libs ts =
        Some (Inl (Runtime_error ''OOMPH Error: NCCL Call failed''), ts ! 0 @ [Get_unique_id]) #
        replicate (length libs - 1) None"
    using n [of ls] unfolding nccl_context_ctors_def c by (simp add: check_not_thread_safe_def nccl_context_comm_def)
next
  fix uid i r c k
  assume h: "ncclGetUniqueId (libs ! 0) (ts ! 0) = (0, uid) \<and> bcast_id_ok bc \<and> i < length libs \<and> r \<noteq> 0 \<and>
      accepts (libs ! i) (length libs) uid i c r k (ts[0 := ts ! 0 @ [Get_unique_id]] ! i)"
  then have "nccl_comm_init (libs ! i) (length libs) uid i (ts[0 := ts ! 0 @ [Get_unique_id]] ! i) =
      Some (Inl (Runtime_error ''OOMPH Error: NCCL Call failed''),
        ts[0 := ts ! 0 @ [Get_unique_id]] ! i @ started (length libs) uid i c k)"
    by (intro init_failed [where r = r]) auto
  then show "\<exists>t. nccl_context_ctors bc junk False libs ts ! i =
         Some (Inl (Runtime_error ''OOMPH Error: NCCL Call failed''), ts[0 := ts ! 0 @ [Get_unique_id]] ! i @ t) \<and>
       Comm_init (length libs) uid i c \<in> set t \<and> Comm_destroy c \<notin> set t"
    using h contexts_nth [OF assms(2), of i] ctors_after_id [of libs ts uid bc junk] assms(1)
    by (intro exI [of _ "started (length libs) uid i c k"]) (simp add: nccl_context_comm_def started_def)
qed

text \<open>Rank 1 is told of an error (1) at the second question.\<close>

theorem nccl_start_failures_witness:
  "\<exists>t. nccl_context_ctors ex_bcast_id 0 False [ex_comm_lib 0 0, ex_comm_lib 1 1] [[], []] ! 1 =
       Some (Inl (Runtime_error ''OOMPH Error: NCCL Call failed''), t) \<and>
     Comm_init 2 77 1 101 \<in> set t \<and> Comm_destroy 101 \<notin> set t"
proof -
  let ?libs = "[ex_comm_lib 0 0, ex_comm_lib 1 1]" and ?ts = "[[], []] :: nat nccl_call list list"
  have "accepts (?libs ! 1) (length ?libs) 77 1 101 1 1 (?ts[0 := ?ts ! 0 @ [Get_unique_id]] ! 1)"
    by (auto simp: accepts_def settles_def ex_comm_lib_def)
  moreover have "bcast_id_ok ex_bcast_id" "ncclGetUniqueId (?libs ! 0) (?ts ! 0) = (0, 77)"
    by (simp_all add: bcast_id_ok_def ex_bcast_id_def ex_comm_lib_def)
  ultimately have "\<exists>t. nccl_context_ctors ex_bcast_id 0 False ?libs ?ts ! 1 =
      Some (Inl (Runtime_error ''OOMPH Error: NCCL Call failed''), ?ts[0 := ?ts ! 0 @ [Get_unique_id]] ! 1 @ t) \<and>
      Comm_init (length ?libs) 77 1 101 \<in> set t \<and> Comm_destroy 101 \<notin> set t"
    by (intro nccl_start_failures [of ?libs ?ts ex_bcast_id 0, THEN conjunct2, rule_format]) auto
  then show ?thesis
    by (auto simp: numeral_2_eq_2)
qed

section \<open>The pool of events and devices\<close>

text \<open>The destructor of an event; \<open>destroy\<close> is \<open>cudaEventDestroy\<close>.\<close>

definition cuda_event_dtor :: "(nat \<Rightarrow> 'g \<Rightarrow> int \<times> 'g) \<Rightarrow> cuda_event \<Rightarrow> 'g \<Rightarrow> 'g result" where
  "cuda_event_dtor destroy ev g =
     (if m_moved ev then Inr g
      else case destroy (m_event ev) g of (rc, g) \<Rightarrow> if rc \<noteq> 0 then Inl (Terminate ''cudaEventDestroy'') else Inr g)"

definition cuda_event_get :: "cuda_event \<Rightarrow> nat result" where
  "cuda_event_get ev = (if m_moved ev then Inl (Terminate ''assert(!m_moved)'') else Inr (m_event ev))"

text \<open>The defaulted moves.\<close>

definition cuda_event_move :: "cuda_event \<Rightarrow> cuda_event \<times> cuda_event" where
  "cuda_event_move other =
     (case moved_bit_move (m_moved other) of (b, b') \<Rightarrow> (other\<lparr>m_moved := b\<rparr>, other\<lparr>m_moved := b'\<rparr>))"

text \<open>The constructor of the pool makes all its events, on the device that is current then.\<close>

fun event_pool_ctor :: "'g nccl_lib \<Rightarrow> nat \<Rightarrow> 'g \<Rightarrow> (cuda_event list \<times> 'g) result" where
  "event_pool_ctor lib 0 g = Inr ([], g)"
| "event_pool_ctor lib (Suc n) g =
     bind_res (cuda_event_new lib g) (\<lambda>(ev, g).
     bind_res (event_pool_ctor lib n g) (\<lambda>(evs, g). Inr (ev # evs, g)))"

text \<open>\<open>get_cuda_event_pool\<close>: a static variable, made at the first use.\<close>

definition get_cuda_event_pool ::
    "'g nccl_lib \<Rightarrow> cuda_event list option \<Rightarrow> 'g \<Rightarrow> (cuda_event list \<times> 'g) result" where
  "get_cuda_event_pool lib pool g = (case pool of None \<Rightarrow> event_pool_ctor lib 128 g | Some p \<Rightarrow> Inr (p, g))"

definition event_pool_clear ::
    "(nat \<Rightarrow> 'g \<Rightarrow> int \<times> 'g) \<Rightarrow> cuda_event list \<Rightarrow> 'g \<Rightarrow> (cuda_event list \<times> 'g) result" where
  "event_pool_clear destroy pool g = bind_res (fold_res (cuda_event_dtor destroy) pool g) (\<lambda>g. Inr ([], g))"

text \<open>Sending from a buffer of \<open>hwmalloc\<close>, under the guard of its device.\<close>

definition nccl_send_guarded ::
    "'g nccl_lib \<Rightarrow> 'g device_api \<Rightarrow> nat \<Rightarrow> hw_pointer \<Rightarrow> size_t \<Rightarrow> rank_type \<Rightarrow> nat \<Rightarrow> ('c, 'g) nccl_world \<Rightarrow>
     (nccl_request \<times> ('c, 'g) nccl_world) result" where
  "nccl_send_guarded lib dapi c p sz dst stream w =
     (case const_device_guard_ctor True dapi p (gpu w) of (d, g) \<Rightarrow>
      bind_res (nccl_send_raw lib c (guard_data d) sz dst stream (w\<lparr>gpu := g\<rparr>)) (\<lambda>(r, w).
      Inr (r, w\<lparr>gpu := device_guard_base_dtor True dapi d (gpu w)\<rparr>)))"

text \<open>Documented behaviour of CUDA: an event belongs to the device that was current when it was created, and
  recording it on a stream of another device fails (400, an invalid handle).  \<open>evdev\<close> and \<open>sdev\<close> give the
  device of an event and of a stream.\<close>

definition cuda_devices_ok ::
    "'g nccl_lib \<Rightarrow> 'g device_api \<Rightarrow> (nat \<Rightarrow> 'g \<Rightarrow> int) \<Rightarrow> (nat \<Rightarrow> int) \<Rightarrow> bool" where
  "cuda_devices_ok lib dapi evdev sdev \<longleftrightarrow>
     (\<forall>g. \<exists>e h. cudaEventCreateWithFlags lib g = ((0, e), h) \<and> get_device_id dapi h = get_device_id dapi g \<and>
        (\<forall>e'. evdev e' h = (if e' = e then get_device_id dapi g else evdev e' g))) \<and>
     (\<forall>e s g. fst (cudaEventRecord lib e s g) = (if evdev e g = sdev s then 0 else 400) \<and>
        (\<forall>e'. evdev e' (snd (cudaEventRecord lib e s g)) = evdev e' g)) \<and>
     (\<forall>p n r s g. fst (ncclSend lib p n r s g) = 0 \<and> (\<forall>e. evdev e (snd (ncclSend lib p n r s g)) = evdev e g)) \<and>
     (\<forall>d g e. evdev e (set_device_id dapi d g) = evdev e g)"

definition pool_on :: "(nat \<Rightarrow> 'g \<Rightarrow> int) \<Rightarrow> int \<Rightarrow> cuda_event list \<Rightarrow> 'g \<Rightarrow> bool" where
  "pool_on evdev d pool g \<longleftrightarrow> (\<forall>e\<in>set pool. \<not> m_moved e \<and> evdev (m_event e) g = d)"

lemma event_pool_ctor_on:
  assumes "cuda_devices_ok lib dapi evdev sdev"
  shows "\<exists>pool h. event_pool_ctor lib n g = Inr (pool, h) \<and> length pool = n \<and> get_device_id dapi h = get_device_id dapi g \<and>
    pool_on evdev (get_device_id dapi g) pool h \<and> (\<forall>e. evdev e g = get_device_id dapi g \<longrightarrow> evdev e h = get_device_id dapi g)"
proof (induction n arbitrary: g)
  case (Suc n)
  obtain e h where e: "cudaEventCreateWithFlags lib g = ((0, e), h)" "get_device_id dapi h = get_device_id dapi g"
    "\<And>e'. evdev e' h = (if e' = e then get_device_id dapi g else evdev e' g)"
    using assms unfolding cuda_devices_ok_def by metis
  obtain pool k where p: "event_pool_ctor lib n h = Inr (pool, k)" "length pool = n"
    "get_device_id dapi k = get_device_id dapi h" "pool_on evdev (get_device_id dapi h) pool k"
    "\<And>e. evdev e h = get_device_id dapi h \<Longrightarrow> evdev e k = get_device_id dapi h"
    using Suc.IH [of h] by blast
  have "pool_on evdev (get_device_id dapi g) (\<lparr>m_event = e, m_moved = False, m_recorded = False\<rparr> # pool) k"
    using p(4,5) e(2,3) by (simp add: pool_on_def)
  moreover have "evdev e' k = get_device_id dapi g" if "evdev e' g = get_device_id dapi g" for e'
    using p(5) [of e'] e(2,3) that by (auto split: if_splits)
  ultimately show ?case
    using e(1,2) p(1,2,3) by (simp add: cuda_event_new_def check_cuda_def)
qed (simp add: pool_on_def)

lemma evdev_guard:
  assumes "cuda_devices_ok lib dapi evdev sdev"
  shows "evdev e (snd (const_device_guard_ctor en dapi p g)) = evdev e g" "evdev e (device_guard_base_dtor en dapi d g) = evdev e g"
  using assms
  by (auto simp: cuda_devices_ok_def const_device_guard_ctor_def device_guard_base_ctor_def device_guard_base_dtor_def
      Let_def split: option.split)

text \<open>A send outside of a group takes the last event of the pool and records it on the stream.\<close>

lemma send_guarded_pool:
  assumes ok: "cuda_devices_ok lib dapi evdev sdev" and pool: "pool_on evdev d (event_pool w) (gpu w)" "event_pool w \<noteq> []"
    and g: "m_group_info w c = None" "dst \<noteq> own_rank w"
  shows "if sdev stream = d
    then \<exists>k. nccl_send_guarded lib dapi c p sz dst stream w =
           Inr (Cached_event ((last (event_pool w))\<lparr>m_recorded := True\<rparr>), w\<lparr>event_pool := butlast (event_pool w), gpu := k\<rparr>) \<and>
         (\<forall>e. evdev e k = evdev e (gpu w))
    else nccl_send_guarded lib dapi c p sz dst stream w = Inl (Runtime_error ''OOMPH Error: CUDA Call failed'')"
proof -
  obtain gd h where h: "const_device_guard_ctor True dapi p (gpu w) = (gd, h)"
    by (cases "const_device_guard_ctor True dapi p (gpu w)") auto
  have eh: "evdev e h = evdev e (gpu w)" for e
    using evdev_guard(1) [OF ok, of e True p "gpu w"] h by simp
  obtain k where k: "ncclSend lib (guard_data gd) sz dst stream h = (0, k)" "\<And>e. evdev e k = evdev e h"
    using ok unfolding cuda_devices_ok_def by (metis prod.collapse)
  have l: "\<not> m_moved (last (event_pool w))" "evdev (m_event (last (event_pool w))) k = d"
    using pool k(2) eh by (auto simp: pool_on_def)
  obtain rc m where m: "cudaEventRecord lib (m_event (last (event_pool w))) stream k = (rc, m)"
    "rc = (if d = sdev stream then 0 else 400)" "\<And>e. evdev e m = evdev e k"
    using ok l(2) unfolding cuda_devices_ok_def by (metis prod.collapse)
  have "evdev e (device_guard_base_dtor True dapi gd m) = evdev e (gpu w)" for e
    using evdev_guard(2) [OF ok, of e True gd m] m(3) k(2) eh by simp
  then show ?thesis
    using g pool(2) h k(1) m(1,2) l(1)
    by (simp add: nccl_send_guarded_def nccl_send_raw_def nccl_post_def is_group_active_def check_nccl_def Let_def
        event_pool_pop_def cuda_event_record_def check_cuda_def)
      (intro impI exI conjI, rule refl, simp)
qed


text \<open>A machine: the current device and the device of every event that was created.  Stream \<open>s\<close> is on device \<open>s\<close>.\<close>

definition ex_dev_lib :: "(int \<times> int list) nccl_lib" where
  "ex_dev_lib = \<lparr>
     cudaEventCreateWithFlags = (\<lambda>(d, es). ((0, length es), (d, es @ [d]))),
     cudaEventRecord = (\<lambda>e s (d, es). (if (if e < length es then es ! e else 0) = int s then 0 else 400, (d, es))),
     cudaEventQuery = (\<lambda>_ _. 0),
     ncclSend = (\<lambda>_ _ _ _ g. (0, g)), ncclRecv = (\<lambda>_ _ _ _ g. (0, g)),
     ncclGroupStart = (\<lambda>g. (0, g)), ncclGroupEnd = (\<lambda>g. (0, g))\<rparr>"

definition ex_dev_api :: "(int \<times> int list) device_api" where
  "ex_dev_api = \<lparr>get_device_id = fst, set_device_id = (\<lambda>d (_, es). (d, es))\<rparr>"

definition ex_evdev :: "nat \<Rightarrow> int \<times> int list \<Rightarrow> int" where
  "ex_evdev e g = (if e < length (snd g) then snd g ! e else 0)"

lemma ex_cuda_devices_ok: "cuda_devices_ok ex_dev_lib ex_dev_api ex_evdev int"
  by (auto simp: cuda_devices_ok_def ex_dev_lib_def ex_dev_api_def ex_evdev_def nth_append)

definition ex_dev_world :: "(nat, int \<times> int list) nccl_world" where
  "ex_dev_world =
     \<lparr>heap = (\<lambda>_. None), counters = (\<lambda>_. 0), handles = (\<lambda>_. 0), api = empty_api,
      nqueue = (\<lambda>_. \<lparr>nq_queue = [], nq_ready_queue = [], nq_in_progress = False\<rparr>),
      nshared = \<lparr>ns_queue = [], ns_size = 0, ns_in_progress = False, ns_local_queue = []\<rparr>,
      m_group_info = (\<lambda>_. None), group_events = (\<lambda>_. None),
      event_pool = [\<lparr>m_event = 0, m_moved = False, m_recorded = False\<rparr>], own_rank = 0, gpu = (0, [0])\<rparr>"


end
