(* ===== verification/Ucx_Region.thy ===== *)
theory Ucx_Region
  imports Ucx_Transport
begin

text \<open>
  Memory of the UCX transport (\<open>ucx/region.hpp\<close>, \<open>ucx/rma_context.hpp\<close>, \<open>ucx/handle.hpp\<close>): plain regions, which own
  nothing, and regions for remote access, which map memory with UCX and unmap it in their destructor.
  \<open>ucp_mem_map\<close> is a parameter.
\<close>

section \<open>Regions\<close>

record ucx_handle =
  h_ptr :: "ptr option"
  h_size :: size_t

text \<open>A region is an address, null (\<open>None\<close>) after a move.\<close>

definition ucx_region_move :: "ptr option \<Rightarrow> ptr option \<times> ptr option" where
  "ucx_region_move r = (r, None)"

definition ucx_get_handle :: "ptr option \<Rightarrow> size_t \<Rightarrow> size_t \<Rightarrow> ucx_handle" where
  "ucx_get_handle p offset n = \<lparr>h_ptr = map_option (\<lambda>a. a + unat offset) p, h_size = n\<rparr>"

section \<open>Regions for remote access\<close>

datatype ucs_memory_type = UCS_MEMORY_TYPE_HOST | UCS_MEMORY_TYPE_CUDA | UCS_MEMORY_TYPE_ROCM

datatype device_build = DEVICE_CUDA | DEVICE_HIP | DEVICE_EMULATE

record mem_map_params =
  mp_address :: "ptr option"
  mp_length :: size_t
  mp_memory_type :: "ucs_memory_type option"

text \<open>The build: whether the version of UCX has memory types (1.10 or later), \<open>OOMPH_ENABLE_DEVICE\<close>, the device.\<close>

record ucx_build =
  ub_memory_types :: bool
  ub_enable_device :: bool
  ub_device :: device_build

definition ucx_mem_params :: "ucx_build \<Rightarrow> ptr option \<Rightarrow> size_t \<Rightarrow> bool \<Rightarrow> mem_map_params" where
  "ucx_mem_params b p n gpu =
     (let params = \<lparr>mp_address = p, mp_length = n,
            mp_memory_type = (if ub_memory_types b then Some UCS_MEMORY_TYPE_HOST else None)\<rparr> in
      if (ub_enable_device b \<or> ub_device b \<noteq> DEVICE_EMULATE) \<and> gpu \<and> ub_memory_types b
      then case ub_device b of
          DEVICE_CUDA \<Rightarrow> params\<lparr>mp_memory_type := Some UCS_MEMORY_TYPE_CUDA\<rparr>
        | DEVICE_HIP \<Rightarrow> params\<lparr>mp_memory_type := Some UCS_MEMORY_TYPE_ROCM\<rparr>
        | DEVICE_EMULATE \<Rightarrow> params
      else params)"

record ucx_rma_region =
  rr_context :: nat
  rr_ptr :: "ptr option"
  rr_size :: size_t
  rr_memh :: nat

text \<open>The regions live in variables; \<open>mapped\<close> says which memory handles of UCX are in use.\<close>

record region_state =
  regions :: "nat \<Rightarrow> ucx_rma_region option"
  mapped :: "nat \<Rightarrow> bool"

text \<open>\<open>map\<close> is \<open>ucp_mem_map\<close>.  When it fails no object comes into being.\<close>

definition ucx_rma_region_ctor ::
    "ucx_build \<Rightarrow> (nat \<Rightarrow> mem_map_params \<Rightarrow> int \<times> nat) \<Rightarrow> nat \<Rightarrow> nat \<Rightarrow> ptr option \<Rightarrow> size_t \<Rightarrow> bool \<Rightarrow> region_state \<Rightarrow>
     region_state result" where
  "ucx_rma_region_ctor b mem_map i ctxt p n gpu s =
     (case mem_map ctxt (ucx_mem_params b p n gpu) of (rc, h) \<Rightarrow>
        check_ucx rc (Inr \<lparr>regions = (regions s)(i \<mapsto> \<lparr>rr_context = ctxt, rr_ptr = p, rr_size = n, rr_memh = h\<rparr>),
                          mapped = (mapped s)(h := True)\<rparr>))"

definition ucx_rma_region_move :: "nat \<Rightarrow> nat \<Rightarrow> region_state \<Rightarrow> region_state result" where
  "ucx_rma_region_move i j s =
     (case regions s j of
        None \<Rightarrow> Inl (Undefined_behaviour ''no such region'')
      | Some r \<Rightarrow> Inr (s\<lparr>regions := (regions s)(j \<mapsto> r\<lparr>rr_ptr := None\<rparr>, i \<mapsto> r)\<rparr>))"

definition ucx_rma_region_dtor :: "nat \<Rightarrow> region_state \<Rightarrow> region_state result" where
  "ucx_rma_region_dtor i s =
     (case regions s i of
        None \<Rightarrow> Inl (Undefined_behaviour ''no such region'')
      | Some r \<Rightarrow>
          if rr_ptr r = None then Inr (s\<lparr>regions := (regions s)(i := None)\<rparr>)
          else if mapped s (rr_memh r)
          then Inr \<lparr>regions = (regions s)(i := None), mapped = (mapped s)(rr_memh r := False)\<rparr>
          else Inl (Undefined_behaviour ''memory unmapped twice''))"

text \<open>The context for remote access: the UCX context is set at the end of the constructor of the
  transport's context.\<close>

definition set_ucp_context :: "nat \<Rightarrow> nat option \<Rightarrow> nat option" where
  "set_ucp_context c m = Some c"

definition ucx_make_region ::
    "ucx_build \<Rightarrow> (nat \<Rightarrow> mem_map_params \<Rightarrow> int \<times> nat) \<Rightarrow> nat option \<Rightarrow> nat \<Rightarrow> ptr option \<Rightarrow> size_t \<Rightarrow> bool \<Rightarrow> region_state \<Rightarrow>
     region_state result" where
  "ucx_make_region b mem_map m i p n gpu s =
     (case m of
        None \<Rightarrow> Inl (Undefined_behaviour ''uninitialised m_context'')
      | Some ctxt \<Rightarrow> ucx_rma_region_ctor b mem_map i ctxt p n gpu s)"

text \<open>\<open>register_memory\<close> and \<open>register_device_memory\<close> for \<open>hwmalloc\<close>.\<close>

definition ucx_register_memory where
  "ucx_register_memory b mem_map m i p n s = ucx_make_region b mem_map m i p n False s"

definition ucx_register_device_memory where
  "ucx_register_device_memory b mem_map m i p n s = ucx_make_region b mem_map m i p n True s"

section \<open>Ownership\<close>

definition region_owns :: "region_state \<Rightarrow> nat \<Rightarrow> nat option" where
  "region_owns s i = (case regions s i of None \<Rightarrow> None | Some r \<Rightarrow> if rr_ptr r = None then None else Some (rr_memh r))"

definition region_inv :: "region_state \<Rightarrow> bool" where
  "region_inv s \<longleftrightarrow> uniquely (region_owns s) (mapped s)"

definition no_regions :: region_state where
  "no_regions = \<lparr>regions = (\<lambda>_. None), mapped = (\<lambda>_. False)\<rparr>"

text \<open>What the heap does with regions: registration of memory at an address, moves to new variables, and
  destruction.  UCX gives each new mapping a handle that is not in use.\<close>

inductive region_step :: "region_state \<Rightarrow> region_state result \<Rightarrow> bool" where
  register: "\<lbrakk>regions s i = None; mem_map c (ucx_mem_params b (Some p) n gpu) = (UCS_OK, h); \<not> mapped s h\<rbrakk> \<Longrightarrow>
    region_step s (ucx_make_region b mem_map (Some c) i (Some p) n gpu s)"
| move: "\<lbrakk>regions s i = None; regions s j \<noteq> None\<rbrakk> \<Longrightarrow> region_step s (ucx_rma_region_move i j s)"
| destroy: "regions s i \<noteq> None \<Longrightarrow> region_step s (ucx_rma_region_dtor i s)"

inductive region_run :: "region_state \<Rightarrow> region_state \<Rightarrow> bool" where
  refl: "region_run s s"
| step: "\<lbrakk>region_run s t; region_step t (Inr u)\<rbrakk> \<Longrightarrow> region_run s u"

lemma region_step_inv:
  assumes "region_step s r" "region_inv s"
  shows "\<exists>t. r = Inr t \<and> region_inv t"
  using assms
proof (induction rule: region_step.induct)
  case (register s i mem_map c b p n gpu h)
  let ?t = "\<lparr>regions = (regions s)(i \<mapsto> \<lparr>rr_context = c, rr_ptr = Some p, rr_size = n, rr_memh = h\<rparr>), mapped = (mapped s)(h := True)\<rparr>"
  have "region_owns s i = None" "region_owns ?t = (region_owns s)(i := Some h)"
    using register(1) by (auto simp: region_owns_def)
  then have "region_inv ?t"
    using uniquely_take [of "region_owns s" "mapped s" i h] register(3,4) by (simp add: region_inv_def)
  then show ?case
    using register(2) by (simp add: ucx_make_region_def ucx_rma_region_ctor_def check_ucx_def)
next
  case (move s i j)
  obtain r where r: "regions s j = Some r"
    using move(2) by blast
  let ?t = "s\<lparr>regions := (regions s)(j \<mapsto> r\<lparr>rr_ptr := None\<rparr>, i \<mapsto> r)\<rparr>"
  have "i \<noteq> j" "region_owns s i = None"
    using move(1) r by (auto simp: region_owns_def)
  moreover have "region_owns ?t = (region_owns s)(j := None, i := region_owns s j)"
    using r \<open>i \<noteq> j\<close> by (auto simp: region_owns_def)
  ultimately have "region_inv ?t"
    using uniquely_move [of "region_owns s" "mapped s" i j] move(3) by (simp add: region_inv_def)
  then show ?case
    using r by (simp add: ucx_rma_region_move_def)
next
  case (destroy s i)
  obtain r where r: "regions s i = Some r"
    using destroy(1) by blast
  have live: "mapped s (rr_memh r)" if "rr_ptr r \<noteq> None"
    using uniquely_live [of "region_owns s" "mapped s" i] destroy(2) r that by (simp add: region_inv_def region_owns_def)
  let ?t = "\<lparr>regions = (regions s)(i := None), mapped = (\<lambda>a. mapped s a \<and> region_owns s i \<noteq> Some a)\<rparr>"
  have "region_owns ?t = (region_owns s)(i := None)"
    by (auto simp: region_owns_def)
  then have "region_inv ?t"
    using uniquely_drop [of "region_owns s" "mapped s" i] destroy(2) by (simp add: region_inv_def)
  moreover have "ucx_rma_region_dtor i s = Inr ?t"
    using r live by (auto simp: ucx_rma_region_dtor_def region_owns_def fun_eq_iff)
  ultimately show ?case
    by blast
qed

text \<open>Memory is unmapped exactly once: no operation on regions fails, each mapping in use belongs to one region,
  and when all regions are destroyed nothing is mapped.\<close>

theorem ucx_regions_unmapped:
  assumes "region_run no_regions s"
  shows "(\<forall>r. region_step s r \<longrightarrow> (\<exists>t. r = Inr t)) \<and> (\<forall>h. mapped s h \<longrightarrow> (\<exists>!i. region_owns s i = Some h)) \<and>
    ((\<forall>i. regions s i = None) \<longrightarrow> (\<forall>h. \<not> mapped s h))"
proof -
  have "region_inv s"
    using assms
  proof (induction no_regions s rule: region_run.induct)
    case refl
    then show ?case
      by (simp add: region_inv_def no_regions_def uniquely_def region_owns_def)
  next
    case (step t u)
    then show ?case
      using region_step_inv by blast
  qed
  then show ?thesis
    using region_step_inv uniquely_holder [of "region_owns s" "mapped s"] uniquely_none [of "region_owns s" "mapped s"]
    by (auto simp: region_inv_def region_owns_def)
qed

text \<open>The destructor asks the address whether there is a mapping: memory registered at the null address is
  mapped and never unmapped.\<close>

theorem null_region_leaks:
  assumes "mem_map c (ucx_mem_params b None n gpu) = (UCS_OK, h)"
  shows "\<exists>s t. ucx_make_region b mem_map (Some c) i None n gpu no_regions = Inr s \<and> ucx_rma_region_dtor i s = Inr t \<and>
    regions t i = None \<and> mapped t h"
  using assms by (simp add: ucx_make_region_def ucx_rma_region_ctor_def check_ucx_def ucx_rma_region_dtor_def)

text \<open>Device memory is registered as such with UCX 1.10 or later, and host memory as host memory.\<close>

lemma ucx_memory_types:
  "ub_memory_types b \<Longrightarrow>
   mp_memory_type (ucx_mem_params b p n gpu) = Some (if gpu then case ub_device b of DEVICE_CUDA \<Rightarrow> UCS_MEMORY_TYPE_CUDA
     | DEVICE_HIP \<Rightarrow> UCS_MEMORY_TYPE_ROCM | DEVICE_EMULATE \<Rightarrow> UCS_MEMORY_TYPE_HOST else UCS_MEMORY_TYPE_HOST)"
  by (simp add: ucx_mem_params_def Let_def split: device_build.split)

end
