(* ===== verification/Lf_Context.thy ===== *)
theory Lf_Context
  imports Lf_Controller Lf_Transport
begin

text \<open>
  The libfabric context (\<open>libfabric/context.cpp\<close>, \<open>libfabric/context.hpp\<close>), what it asks of libfabric
  (\<open>libfabric/controller_base.hpp\<close>, \<open>libfabric/controller.hpp\<close>), the controller that all contexts of a process share, and
  the performance counters (\<open>libfabric/simple_counter.hpp\<close>).
\<close>

section \<open>What is asked of libfabric\<close>

datatype lf_provider = GNI | CXI | EFA | TCP | VERBS | SOCKETS | PSM2

datatype fi_threading = FI_THREAD_SAFE | FI_THREAD_ENDPOINT | FI_THREAD_DOMAIN

datatype mr_mode = FI_MR_VIRT_ADDR | FI_MR_ALLOCATED | FI_MR_PROV_KEY | FI_MR_HMEM | FI_MR_LOCAL | FI_MR_MMU_NOTIFY | FI_MR_ENDPOINT

datatype av_type = FI_AV_UNSPEC | FI_AV_MAP | FI_AV_TABLE

text \<open>The build: the provider, \<open>OOMPH_ENABLE_DEVICE\<close>, and \<open>RX_CONTEXTS_SUPPORT\<close>.\<close>

record lf_build =
  lb_provider :: lf_provider
  lb_device :: bool
  lb_rx_contexts :: bool

definition threadlevel_flags :: "lf_build \<Rightarrow> fi_threading" where
  "threadlevel_flags b = (if lb_provider b = GNI then FI_THREAD_ENDPOINT else FI_THREAD_SAFE)"

definition caps_flags :: "lf_build \<Rightarrow> string list" where
  "caps_flags b =
     (if lb_device b \<and> lb_provider b \<noteq> TCP then [''FI_HMEM''] else []) @
     [''FI_MSG'', ''FI_TAGGED'', ''FI_RMA'', ''FI_READ'', ''FI_WRITE'', ''FI_RECV'', ''FI_SEND'', ''FI_TRANSMIT'',
      ''FI_REMOTE_READ'', ''FI_REMOTE_WRITE'']"

definition memory_registration_mode_flags :: "lf_build \<Rightarrow> mr_mode list" where
  "memory_registration_mode_flags b =
     [FI_MR_VIRT_ADDR, FI_MR_ALLOCATED, FI_MR_PROV_KEY] @ (if lb_device b then [FI_MR_HMEM] else []) @ [FI_MR_LOCAL] @
     (if lb_provider b = CXI \<or> lb_provider b = EFA then [FI_MR_MMU_NOTIFY, FI_MR_ENDPOINT] else [])"

record fi_hints =
  fh_addr_format :: "string option"
  fh_caps :: "string list"
  fh_prov_name :: string
  fh_mr_mode :: "mr_mode list"
  fh_progress :: fi_progress
  fh_threading :: fi_threading

definition fabric_hints :: "lf_build \<Rightarrow> environment \<Rightarrow> string \<Rightarrow> int \<Rightarrow> fi_hints" where
  "fabric_hints b env provider threads =
     \<lparr>fh_addr_format =
        (if lb_provider b \<in> {SOCKETS, TCP, VERBS} then Some ''FI_SOCKADDR_IN''
         else if lb_provider b = EFA then Some ''FI_ADDR_EFA'' else None),
      fh_caps = caps_flags b,
      fh_prov_name = (if provider = ''tcp'' \<or> provider = ''verbs'' then provider @ '';ofi_rxm'' else provider),
      fh_mr_mode = memory_registration_mode_flags b,
      fh_progress = libfabric_progress_type env,
      fh_threading = (if 1 < threads then threadlevel_flags b else FI_THREAD_DOMAIN)\<rparr>"

text \<open>The modes the controller notes are those of the hints, not those of the answer.\<close>

record mr_modes =
  mrlocal :: bool
  mrbind :: bool
  mrhmem :: bool

definition note_modes :: "fi_hints \<Rightarrow> mr_modes" where
  "note_modes h =
     \<lparr>mrlocal = (FI_MR_LOCAL \<in> set (fh_mr_mode h)), mrbind = (FI_MR_ENDPOINT \<in> set (fh_mr_mode h)),
      mrhmem = (FI_MR_HMEM \<in> set (fh_mr_mode h))\<rparr>"

text \<open>The sizes: half of what the provider offers, at most 512.\<close>

definition queue_depth :: "size_t \<Rightarrow> size_t" where
  "queue_depth n = min 512 (n div 2)"

text \<open>The attributes of the address vector.  The loop counts the bits of the number of contexts.\<close>

fun rx_ctx_bits_loop :: "nat \<Rightarrow> nat \<Rightarrow> nat \<Rightarrow> nat option" where
  "rx_ctx_bits_loop 0 n k = None"
| "rx_ctx_bits_loop (Suc fuel) n k = (if drop_bit (Suc k) n = 0 then Some (Suc k) else rx_ctx_bits_loop fuel n (Suc k))"

record av_attr =
  av_count :: nat
  av_rx_ctx_bits :: nat
  av_ep_per_node :: nat
  av_type_of :: av_type

definition address_vector_attr :: "lf_build \<Rightarrow> av_type \<Rightarrow> nat \<Rightarrow> nat \<Rightarrow> av_attr option" where
  "address_vector_attr b asked n num_rx_contexts =
     map_option (\<lambda>bits.
       \<lparr>av_count = n, av_rx_ctx_bits = bits, av_ep_per_node = (if 0 < num_rx_contexts then 2 else 0),
        av_type_of = (if asked \<noteq> FI_AV_UNSPEC then asked else FI_AV_TABLE)\<rparr>)
     (if lb_rx_contexts b then rx_ctx_bits_loop 32 num_rx_contexts 0 else Some 0)"

section \<open>Locks\<close>

definition bypass_tx_lock :: "lf_build \<Rightarrow> endpoint_type \<Rightarrow> bool" where
  "bypass_tx_lock b t =
     (if lb_provider b = GNI then True else if lb_provider b = CXI then False
      else threadlevel_flags b = FI_THREAD_SAFE \<or> t = ThreadlocalTx)"

definition bypass_rx_lock :: "lf_build \<Rightarrow> endpoint_type \<Rightarrow> bool" where
  "bypass_rx_lock b t =
     (if lb_provider b = GNI then True else threadlevel_flags b = FI_THREAD_SAFE \<or> t = ScalableTxRx)"

text \<open>A lock object: none, holding the mutex, or associated with it without holding it.  \<open>get\<close> waits while another
  thread holds the mutex (\<open>None\<close>).\<close>

datatype unique_lock = No_mutex | Owns | Not_owner

definition get_tx_lock :: "lf_build \<Rightarrow> endpoint_type \<Rightarrow> bool \<Rightarrow> unique_lock option" where
  "get_tx_lock b t held = (if bypass_tx_lock b t then Some No_mutex else if held then None else Some Owns)"

definition try_tx_lock :: "lf_build \<Rightarrow> endpoint_type \<Rightarrow> bool \<Rightarrow> unique_lock" where
  "try_tx_lock b t held = (if bypass_tx_lock b t then No_mutex else if held then Not_owner else Owns)"

definition get_rx_lock :: "lf_build \<Rightarrow> endpoint_type \<Rightarrow> bool \<Rightarrow> unique_lock option" where
  "get_rx_lock b t held = (if bypass_rx_lock b t then Some No_mutex else if held then None else Some Owns)"

definition try_rx_lock :: "lf_build \<Rightarrow> endpoint_type \<Rightarrow> bool \<Rightarrow> unique_lock" where
  "try_rx_lock b t held = (if bypass_rx_lock b t then No_mutex else if held then Not_owner else Owns)"

text \<open>The hints and the locks do not fit together when \<open>physical_concurrency\<close> reports one core or none.  The domain is
  then asked for with \<open>FI_THREAD_DOMAIN\<close>, where the caller serialises all calls, as a comment says the
  code does; but the locks of receiving are bypassed whatever the number of threads, and those of sending
  too but for CXI.\<close>

theorem threading_not_serialised:
  assumes "threads \<le> 1"
  shows "fh_threading (fabric_hints b env provider threads) = FI_THREAD_DOMAIN \<and>
    get_rx_lock b t held = Some No_mutex \<and> (lb_provider b \<noteq> CXI \<longrightarrow> get_tx_lock b t held = Some No_mutex)"
  using assms
  by (simp add: fabric_hints_def get_rx_lock_def get_tx_lock_def bypass_rx_lock_def bypass_tx_lock_def threadlevel_flags_def)

text \<open>What the controller calls required of the registration of memory is what it has offered: local
  registration always, registration with endpoints with CXI and EFA, device memory if enabled.\<close>

lemma modes_as_offered:
  "note_modes (fabric_hints b env provider threads) =
     \<lparr>mrlocal = True, mrbind = (lb_provider b = CXI \<or> lb_provider b = EFA), mrhmem = lb_device b\<rparr>"
  by (auto simp: note_modes_def fabric_hints_def memory_registration_mode_flags_def)

lemma queue_depth_bound: "queue_depth n \<le> 512 \<and> queue_depth n \<le> n div 2 \<and> (queue_depth n = 0 \<longleftrightarrow> n div 2 = 0)"
  by (auto simp: queue_depth_def min_def)

lemma rx_ctx_bits_fuel:
  assumes "n < 2 ^ (k + fuel)" "0 < fuel" "2 ^ k \<le> n \<or> k = 0"
  shows "\<exists>m. rx_ctx_bits_loop fuel n k = Some m \<and> 0 < m \<and> n < 2 ^ m \<and> (2 ^ (m - 1) \<le> n \<or> m = 1)"
  using assms
proof (induction fuel arbitrary: k)
  case (Suc fuel)
  show ?case
  proof (cases "n < 2 ^ Suc k")
    case True
    then show ?thesis
      using Suc.prems(3) by (auto simp: drop_bit_eq_div)
  next
    case False
    then have "0 < fuel"
      using Suc.prems(1) by (cases fuel) auto
    then obtain m where "rx_ctx_bits_loop fuel n (Suc k) = Some m \<and> 0 < m \<and> n < 2 ^ m \<and> (2 ^ (m - 1) \<le> n \<or> m = 1)"
      using Suc.IH [of "Suc k"] Suc.prems(1) False by auto
    moreover have "drop_bit (Suc k) n \<noteq> 0"
      using False by (simp add: drop_bit_eq_div div_eq_0_iff)
    ultimately show ?thesis
      by simp
  qed
qed simp

text \<open>The loop ends, with the number of bits of a number of contexts that is an \<open>int\<close>.\<close>

lemma rx_ctx_bits:
  "n < 2 ^ 31 \<Longrightarrow> \<exists>m. rx_ctx_bits_loop 32 n 0 = Some m \<and> 0 < m \<and> n < 2 ^ m \<and> (2 ^ (m - 1) \<le> n \<or> m = 1)"
  using rx_ctx_bits_fuel [of n 0 32] by simp

section \<open>Start of the controllers\<close>

text \<open>What a process brings: its environment, the number of cores, libfabric, the name \<open>fi_getname\<close> gives an
  endpoint, the array it is read into, and the initial state of libfabric and of the address vector.\<close>

record ('f, 'a) lf_process =
  lp_env :: environment
  lp_threads :: nat
  lp_lib :: "'f ep_lib"
  lp_name :: "nat \<Rightarrow> int \<times> 8 word list"
  lp_junk :: "8 word list"
  lp_fids :: "'f fids"
  lp_av :: 'a

record ('f, 'a) lf_instance =
  li_controller :: "'f controller"
  li_poll_size :: "32 word"
  li_threshold :: "32 word"
  li_here :: locality
  li_av :: 'a

text \<open>\<open>initialize\<close> up to the exchange of addresses: the settings, the endpoints, and the address of the receive
  endpoint, \<open>here_\<close>.\<close>

definition lf_local_start :: "bool \<Rightarrow> nat \<Rightarrow> nat \<Rightarrow> ('f, 'a) lf_process \<Rightarrow> ('f, 'a) lf_instance result" where
  "lf_local_start dummy sz n p =
     bind_res (lf_settings (lp_env p) (lp_threads p)) (\<lambda>(poll, threshold, t).
     bind_res (lf_initialize (lp_lib p) dummy t n (lp_threads p) (lp_fids p)) (\<lambda>c.
     case ew_ep (c_ep_rx c) of
       None \<Rightarrow> Inl (Undefined_behaviour ''null receive endpoint'')
     | Some ep \<Rightarrow>
         bind_res (get_endpoint_address sz (lp_junk p) (lp_name p ep)) (\<lambda>h.
         Inr \<lparr>li_controller = c, li_poll_size = poll, li_threshold = threshold, li_here = h, li_av = lp_av p\<rparr>)))"

text \<open>\<open>initialize\<close> on all ranks of a communicator; \<open>initialize_derived\<close> is the exchange.\<close>

definition lf_start ::
    "'a av_lib \<Rightarrow> transfer \<Rightarrow> bool \<Rightarrow> nat \<Rightarrow> ('f, 'a) lf_process list \<Rightarrow> ('f, 'a) lf_instance list result" where
  "lf_start avl xfer dummy sz ps =
     bind_res (map_res (lf_local_start dummy sz (length ps)) ps) (\<lambda>cs.
     map_res (\<lambda>i. bind_res (exchange_addresses avl xfer sz (map (loc_data \<circ> li_here) cs) i (li_av (cs ! i)))
         (\<lambda>av. Inr ((cs ! i)\<lparr>li_av := av\<rparr>))) [0..<length cs])"

text \<open>\<open>init_libfabric_controller\<close>, called by all processes \<open>qs\<close> of a communicator in the order of their ranks.  \<open>inst\<close> is
  the static variable \<open>instance\<close> of each process.  Only a process without an instance takes part in the exchange,
  so that if some have one and others do not, the latter wait for messages that are never sent: \<open>None\<close>.\<close>

definition init_libfabric_controller ::
    "'a av_lib \<Rightarrow> transfer \<Rightarrow> bool \<Rightarrow> nat \<Rightarrow> (nat \<Rightarrow> ('f, 'a) lf_process) \<Rightarrow> nat list \<Rightarrow> (nat \<rightharpoonup> ('f, 'a) lf_instance) \<Rightarrow>
     (nat \<rightharpoonup> ('f, 'a) lf_instance) result option" where
  "init_libfabric_controller avl xfer dummy sz proc qs inst =
     (if \<forall>q\<in>set qs. inst q \<noteq> None then Some (Inr inst)
      else if \<forall>q\<in>set qs. inst q = None
      then Some (bind_res (lf_start avl xfer dummy sz (map proc qs)) (\<lambda>cs. Inr (inst ++ map_of (zip qs cs))))
      else None)"

lemma map_res_len: "map_res f xs = Inr ys \<Longrightarrow> length ys = length xs \<and> (\<forall>i<length xs. f (xs ! i) = Inr (ys ! i))"
proof (induction xs arbitrary: ys)
  case (Cons x xs)
  then obtain y zs where "f x = Inr y" "map_res f xs = Inr zs" "ys = y # zs"
    by (auto simp: bind_res_eq_Inr)
  then show ?case
    using Cons.IH [of zs] by (auto simp: nth_Cons split: nat.split)
qed simp

lemma local_start_spec:
  assumes "lf_local_start dummy sz n p = Inr c" "length (lp_junk p) = sz"
  shows "length (loc_data (li_here c)) = sz \<and> li_av c = lp_av p"
proof -
  obtain ep h d poll thr where h: "get_endpoint_address sz (lp_junk p) (lp_name p ep) = Inr h"
    "c = \<lparr>li_controller = d, li_poll_size = poll, li_threshold = thr, li_here = h, li_av = lp_av p\<rparr>"
    using assms(1) by (fastforce simp: lf_local_start_def bind_res_eq_Inr split: option.splits prod.splits)
  then have "length (loc_data h) = sz"
    using assms(2) by (auto simp: get_endpoint_address_def loc_of_data_def length_overwrite split: prod.splits if_splits)
  then show ?thesis
    using h(2) by simp
qed

lemma start_ok:
  assumes av: "av_table_ok avl tab" and x: "\<forall>i j h. xfer i j h = h" and ps: "ps \<noteq> []" "length ps < 2 ^ 31"
    and p: "\<forall>p\<in>set ps. length (lp_junk p) = sz \<and> tab (lp_av p) = []"
    and r: "lf_start avl xfer dummy sz ps = Inr ds"
  shows "length ds = length ps \<and> (\<forall>d\<in>set ds. tab (li_av d) = map (loc_data \<circ> li_here) ds)"
proof -
  obtain cs where cs: "map_res (lf_local_start dummy sz (length ps)) ps = Inr cs"
    and ds: "map_res (\<lambda>i. bind_res (exchange_addresses avl xfer sz (map (loc_data \<circ> li_here) cs) i (li_av (cs ! i)))
         (\<lambda>av. Inr ((cs ! i)\<lparr>li_av := av\<rparr>))) [0..<length cs] = Inr ds"
    using r by (auto simp: lf_start_def bind_res_eq_Inr)
  let ?hs = "map (loc_data \<circ> li_here) cs"
  have l: "length cs = length ps" and c: "\<And>i. i < length ps \<Longrightarrow> lf_local_start dummy sz (length ps) (ps ! i) = Inr (cs ! i)"
    using map_res_len [OF cs] by auto
  have lc: "length (loc_data (li_here (cs ! i))) = sz" "tab (li_av (cs ! i)) = []" if "i < length cs" for i
    using local_start_spec [OF c, of i] p that l by simp_all
  then have hs: "\<forall>h\<in>set ?hs. length h = sz"
    by (auto simp: in_set_conv_nth)
  have e: "\<exists>u. exchange_addresses avl xfer sz ?hs i (li_av (cs ! i)) = Inr u \<and> tab u = ?hs" if "i < length cs" for i
    by (rule exchange_ok [OF av hs]) (use ps l lc(2) [OF that] x in auto)
  note d = map_res_len [OF ds]
  have n: "li_here (ds ! i) = li_here (cs ! i) \<and> tab (li_av (ds ! i)) = ?hs" if i: "i < length cs" for i
  proof -
    obtain u where u: "exchange_addresses avl xfer sz ?hs i (li_av (cs ! i)) = Inr u" "tab u = ?hs"
      using e [OF i] by blast
    have "Inr (ds ! i) = bind_res (exchange_addresses avl xfer sz ?hs i (li_av (cs ! i))) (\<lambda>av. Inr ((cs ! i)\<lparr>li_av := av\<rparr>))"
      using d i by simp
    then have "ds ! i = (cs ! i)\<lparr>li_av := u\<rparr>"
      unfolding u(1) by simp
    then show ?thesis
      using u(2) by simp
  qed
  have ld: "length ds = length cs"
    using d by simp
  have h: "li_here (ds ! i) = li_here (cs ! i)" if "i < length cs" for i
    using n [OF that] by blast
  have "map (loc_data \<circ> li_here) ds = ?hs"
    by (rule nth_equalityI) (simp_all add: ld h)
  moreover have "tab (li_av d) = ?hs" if "d \<in> set ds" for d
    using n that ld by (metis in_set_conv_nth)
  ultimately show ?thesis
    using ld l by metis
qed

definition address_of :: "(nat \<rightharpoonup> ('f, 'a) lf_instance) \<Rightarrow> nat \<Rightarrow> 8 word list" where
  "address_of inst q = loc_data (li_here (the (inst q)))"

lemma rank_address: "j < 2 ^ 31 \<Longrightarrow> scast (of_nat j :: rank_type) = (of_nat j :: 64 word)"
  by (simp add: scast_eq sint_uint unat_of_nat uint_nat signed_take_bit_int_eq_self)


definition ex_process :: "nat \<Rightarrow> (nat set \<times> nat, 8 word list list) lf_process" where
  "ex_process q = \<lparr>lp_env = (\<lambda>_. None), lp_threads = 2, lp_lib = ex_fid_lib, lp_name = (\<lambda>_. (0, [of_nat q, 1])),
     lp_junk = [0, 0], lp_fids = \<lparr>fid_open = (\<lambda>_. False), fid_fab = ({}, 0)\<rparr>, lp_av = []\<rparr>"

lemma ex_local_start:
  "\<exists>c. \<forall>q. lf_local_start False 2 2 (ex_process q) =
     Inr \<lparr>li_controller = c, li_poll_size = 4, li_threshold = 0x4000, li_here = loc_of_data [of_nat q, 1], li_av = []\<rparr>"
  by (simp add: lf_local_start_def ex_process_def lf_settings_def libfabric_completions_per_poll_def
      libfabric_rendezvous_threshold_def libfabric_endpoint_type_def ex_ctl_simps ex_fid_lib_def ex_open_def
      get_endpoint_address_def overwrite_def)

lemma ex_first_context:
  "\<exists>inst. init_libfabric_controller ex_av_lib (\<lambda>_ _ h. h) False 2 ex_process [0, 1] (\<lambda>_. None) = Some (Inr inst) \<and>
     address_of inst 0 = [0, 1] \<and> address_of inst 1 = [1, 1]"
proof -
  obtain c where c: "\<And>q. lf_local_start False 2 2 (ex_process q) =
     Inr \<lparr>li_controller = c, li_poll_size = 4, li_threshold = 0x4000, li_here = loc_of_data [of_nat q, 1], li_av = []\<rparr>"
    using ex_local_start by blast
  have e: "\<exists>u. exchange_addresses ex_av_lib (\<lambda>_ _ h. h) 2 [[0, 1], [1, 1]] i [] = Inr u" for i
    using exchange_ok [OF ex_av_lib_ok, of "[[0, 1], [1, 1]]" 2 "\<lambda>_ _ h. h" "[]" i] by auto
  obtain u v where "exchange_addresses ex_av_lib (\<lambda>_ _ h. h) 2 [[0, 1], [1, 1]] 0 [] = Inr u"
    "exchange_addresses ex_av_lib (\<lambda>_ _ h. h) 2 [[0, 1], [1, 1]] (Suc 0) [] = Inr v"
    using e by blast
  then show ?thesis
    using c
    by (auto simp: init_libfabric_controller_def lf_start_def loc_of_data_def upt_rec numeral_2_eq_2 [symmetric] address_of_def)
qed


section \<open>The context\<close>

text \<open>The tags \<open>m_ctxt_tag\<close> at all ranks: the address of the object at rank 0, by \<open>MPI_Bcast\<close> (\<open>bc\<close>, which returns a
  code and what the ranks have afterwards).\<close>

definition lf_context_tags :: "('t list \<Rightarrow> int \<times> 't list) \<Rightarrow> 't list \<Rightarrow> 't list result" where
  "lf_context_tags bc this =
     (case bc this of (rc, tags) \<Rightarrow> if rc \<noteq> 0 then Inl (Runtime_error ''OOMPH Error: MPI Call failed'') else Inr tags)"

text \<open>Registration of memory: with an endpoint if the controller has noted that it is needed.  The arguments of the
  segment are whether it is bound, the endpoint, and the device.\<close>

definition lf_make_region :: "mr_modes \<Rightarrow> nat \<Rightarrow> int \<Rightarrow> bool \<times> nat option \<times> int" where
  "lf_make_region m ep device_id = (if mrbind m then (True, Some ep, device_id) else (False, None, device_id))"

definition lf_register_memory :: "mr_modes \<Rightarrow> nat \<Rightarrow> bool \<times> nat option \<times> int" where
  "lf_register_memory m ep = lf_make_region m ep (-2)"

definition lf_register_device_memory :: "mr_modes \<Rightarrow> nat \<Rightarrow> int \<Rightarrow> bool \<times> nat option \<times> int" where
  "lf_register_device_memory m ep device_id = lf_make_region m ep device_id"

text \<open>\<open>std::to_string\<close>, \<open>strncpy\<close> of no more characters than the text has, and reading a string up to its end.\<close>

fun to_digits :: "nat \<Rightarrow> string" where
  "to_digits n = (if n < 10 then [char_of (48 + n)] else to_digits (n div 10) @ [char_of (48 + n mod 10)])"

declare to_digits.simps [simp del]

definition strncpy :: "string \<Rightarrow> string \<Rightarrow> nat \<Rightarrow> string" where
  "strncpy buf src n = take n src @ drop n buf"

definition c_string :: "string \<Rightarrow> string" where
  "c_string buf = takeWhile (\<lambda>c. c \<noteq> CHR 0x00) buf"

text \<open>\<open>get_transport_option\<close>: the result and the static variable \<open>buffer\<close> afterwards.\<close>

definition lf_get_transport_option :: "environment \<Rightarrow> 32 word \<Rightarrow> string \<Rightarrow> string \<Rightarrow> (string \<times> string) result" where
  "lf_get_transport_option env threshold buffer opt =
     (if opt = ''name'' then Inr (''libfabric'', buffer)
      else if opt = ''progress'' then Inr (libfabric_progress_string env, buffer)
      else if opt = ''endpoint'' then bind_res (libfabric_endpoint_string env) (\<lambda>t. Inr (t, buffer))
      else if opt = ''rendezvous_threshold'' then
        let temp = to_digits (unat threshold); buffer = strncpy buffer temp (min 31 (length temp)) in
        Inr (c_string buffer, buffer)
      else Inr (''unspecified'', buffer))"

text \<open>The tags of two contexts: every rank has the same tag, and two contexts can be told apart only if the
  addresses of their objects at rank 0 differ in the low 24 bits.\<close>

lemma context_tags_apart:
  assumes "\<And>x xs. bc (x # xs) = (0, replicate (Suc (length xs)) x)"
  shows "lf_context_tags bc (a # as) = Inr (replicate (Suc (length as)) (a :: 64 word)) \<and>
    (take_bit 24 a = take_bit 24 b \<longrightarrow> make_tag64 t a = make_tag64 t b)"
proof -
  have "a AND 0xFFFFFF = take_bit 24 a" for a :: "64 word"
    by (simp add: take_bit_eq_mask mask_eq_exp_minus_1)
  then show ?thesis
    by (simp add: lf_context_tags_def assms make_tag64_def)
qed

lemma digit_char:
  assumes "d < 10"
  shows "digit_val (char_of (48 + d)) = Some d" "char_of (48 + d) \<noteq> CHR 0x00" "\<not> is_space (char_of (48 + d))"
    "char_of (48 + d) \<noteq> CHR ''-''" "char_of (48 + d) \<noteq> CHR ''+''"
proof -
  have o: "of_char (char_of (48 + d) :: char) = 48 + d"
    using assms by simp
  then show "digit_val (char_of (48 + d)) = Some d" "\<not> is_space (char_of (48 + d))"
    using assms by (simp_all add: digit_val_def is_space_def)
  have "char_of (48 + d) \<noteq> c" if "of_char c < (48 :: nat)" for c :: char
    using o that by (metis not_add_less1)
  then show "char_of (48 + d) \<noteq> CHR 0x00" "char_of (48 + d) \<noteq> CHR ''-''" "char_of (48 + d) \<noteq> CHR ''+''"
    by simp_all
qed

lemma read_to_digits: "read_digits 10 acc (to_digits n @ cs) = read_digits 10 (acc * 10 ^ length (to_digits n) + n) cs"
proof (induction n arbitrary: cs rule: to_digits.induct)
  case (1 n)
  show ?case
  proof (cases "n < 10")
    case True
    then show ?thesis
      using digit_char(1) [of n] by (simp add: to_digits.simps [of n])
  next
    case False
    have "n mod 10 < 10"
      by simp
    then show ?thesis
      using False 1 [OF False, of "char_of (48 + n mod 10) # cs"] digit_char(1) [of "n mod 10"]
      by (simp add: to_digits.simps [of n] algebra_simps)
  qed
qed

lemma to_digits_chars: "set (to_digits n) \<subseteq> (\<lambda>d. char_of (48 + d)) ` {..<10 :: nat} \<and> to_digits n \<noteq> []"
proof (induction n rule: to_digits.induct)
  case (1 n)
  then show ?case
    by (cases "n < 10") (auto simp: to_digits.simps [of n])
qed

lemma to_digits_length: "0 < k \<Longrightarrow> n < 10 ^ k \<Longrightarrow> length (to_digits n) \<le> k"
proof (induction k arbitrary: n)
  case (Suc k)
  show ?case
  proof (cases "n < 10")
    case False
    then have "0 < k" "n div 10 < 10 ^ k"
      using Suc.prems(2) by (cases k, simp_all add: less_mult_imp_div_less mult.commute)
    then show ?thesis
      using Suc.IH False by (simp add: to_digits.simps [of n])
  qed (simp add: to_digits.simps [of n])
qed simp

lemma number_of_digits: "number_of (to_digits n) = int n"
proof -
  obtain d :: nat and ds where d: "to_digits n = char_of (48 + d) # ds" "d < 10"
    using to_digits_chars [of n] by (cases "to_digits n") auto
  have "read_sign (dropWhile is_space (to_digits n)) = (False, to_digits n)"
    using digit_char [OF d(2)] by (simp add: d(1) read_sign_def)
  then show ?thesis
    using read_to_digits [of 0 n "[]"] by (simp add: number_of_def)
qed

definition zero_buffer :: string where
  "zero_buffer = replicate 32 (CHR 0x00)"

lemma strncpy_zero:
  assumes "CHR 0x00 \<notin> set s" "length s < 32"
  shows "c_string (strncpy zero_buffer s (length s)) = s" "strncpy (strncpy zero_buffer s (length s)) s (length s) = strncpy zero_buffer s (length s)"
proof -
  have "takeWhile (\<lambda>c. c \<noteq> CHR 0x00) (s @ replicate k (CHR 0x00)) = s" for k
    using assms(1) by (induction s) (auto simp: takeWhile_eq_Nil_iff hd_replicate)
  then show "c_string (strncpy zero_buffer s (length s)) = s"
    by (simp add: c_string_def strncpy_def zero_buffer_def)
qed (simp add: strncpy_def)

lemma threshold_text:
  "\<exists>buffer. lf_get_transport_option env threshold zero_buffer ''rendezvous_threshold'' = Inr (to_digits (unat threshold), buffer) \<and>
     lf_get_transport_option env threshold buffer ''rendezvous_threshold'' = Inr (to_digits (unat threshold), buffer)"
proof -
  let ?s = "to_digits (unat threshold)"
  have "unat threshold < 2 ^ LENGTH(32)"
    by (rule unsigned_less)
  then have "unat threshold < 10 ^ 10"
    by simp
  then have l: "length ?s \<le> 10"
    by (intro to_digits_length) simp_all
  have "CHR 0x00 \<notin> set ?s"
    using to_digits_chars [of "unat threshold"] digit_char(2) by fastforce
  then have "c_string (strncpy zero_buffer ?s (length ?s)) = ?s"
    "strncpy (strncpy zero_buffer ?s (length ?s)) ?s (length ?s) = strncpy zero_buffer ?s (length ?s)"
    using strncpy_zero [of ?s] l by simp_all
  then show ?thesis
    using l by (simp add: lf_get_transport_option_def Let_def min_def)
qed

text \<open>Were the threshold to change to one of fewer digits, the text would keep digits of the old one.\<close>

lemma threshold_stale:
  "\<exists>buffer. lf_get_transport_option env 16384 zero_buffer ''rendezvous_threshold'' = Inr (''16384'', buffer) \<and>
     (\<exists>b. lf_get_transport_option env 512 buffer ''rendezvous_threshold'' = Inr (''51284'', b))"
proof -
  have "to_digits 16384 = ''16384''" "to_digits 512 = ''512''"
    by (simp_all add: to_digits.simps char_of_def bit_Suc_0_iff)
  then show ?thesis
    by (simp add: lf_get_transport_option_def Let_def strncpy_def c_string_def zero_buffer_def replicate_app_Cons_same)
qed

lemma digits_no_prefix: "0 < n \<Longrightarrow> hd (to_digits n) \<noteq> CHR ''0''"
proof (induction n rule: to_digits.induct)
  case (1 n)
  show ?case
  proof (cases "n < 10")
    case True
    have "of_char (char_of (48 + n) :: char) = 48 + n" "of_char (CHR ''0'') = (48 :: nat)"
      using True by simp_all
    then have "char_of (48 + n) \<noteq> CHR ''0''"
      using 1(2) by (metis add_cancel_right_right less_numeral_extra(3))
    then show ?thesis
      using True by (simp add: to_digits.simps [of n])
  next
    case False
    then show ?thesis
      using 1 to_digits_chars [of "n div 10"] by (simp add: to_digits.simps [of n] hd_append)
  qed
qed

lemma strtoul_digits: "n < 2 ^ 64 \<Longrightarrow> strtoul (to_digits n) = of_nat n"
proof -
  assume n: "n < 2 ^ 64"
  obtain d :: nat and ds where d: "to_digits n = char_of (48 + d) # ds" "d < 10"
    using to_digits_chars [of n] by (cases "to_digits n") auto
  have s: "read_sign (dropWhile is_space (to_digits n)) = (False, to_digits n)"
    using digit_char [OF d(2)] by (simp add: d(1) read_sign_def)
  show ?thesis
  proof (cases "n = 0")
    case True
    have "to_digits 0 = ''0''"
      by (simp add: to_digits.simps char_of_def bit_Suc_0_iff)
    then show ?thesis
      using True by (simp add: strtoul_def read_sign_def is_space_def has_hex_prefix_def digit_val_def)
  next
    case False
    then have "hd (to_digits n) \<noteq> CHR ''0''"
      by (simp add: digits_no_prefix)
    then have "\<not> has_hex_prefix (to_digits n)" "\<not> (to_digits n \<noteq> [] \<and> hd (to_digits n) = CHR ''0'')"
      by (auto simp: has_hex_prefix_def split: list.splits)
    then show ?thesis
      using read_to_digits [of 0 n "[]"] n unfolding strtoul_def s by (auto simp: Let_def)
  qed
qed

text \<open>The rendezvous threshold is read from the environment and reported in decimal.  If the variable is set to
  the decimal text of a number below 2^32, the threshold is that number, and every call of
  \<open>get_transport_option\<close> returns the text again, the first, which finds the static buffer zero, and those after it.\<close>

theorem threshold_roundtrip:
  assumes "env ''LIBFABRIC_RENDEZVOUS_THRESHOLD'' = Some (to_digits n)" "n < 2 ^ 32"
  shows "unat (libfabric_rendezvous_threshold env def_val) = n \<and>
    (\<exists>buffer. lf_get_transport_option env (libfabric_rendezvous_threshold env def_val) zero_buffer ''rendezvous_threshold'' =
         Inr (to_digits n, buffer) \<and>
       lf_get_transport_option env (libfabric_rendezvous_threshold env def_val) buffer ''rendezvous_threshold'' =
         Inr (to_digits n, buffer))"
proof -
  have "unat (libfabric_rendezvous_threshold env def_val) = n"
    using assms strtoul_digits [of n] by (simp add: libfabric_rendezvous_threshold_def unsigned_ucast_eq unsigned_of_nat take_bit_nat_eq_self)
  then show ?thesis
    using threshold_text [of env "libfabric_rendezvous_threshold env def_val"] by simp
qed

theorem threshold_roundtrip_witness:
  "\<exists>buffer. lf_get_transport_option (\<lambda>v. if v = ''LIBFABRIC_RENDEZVOUS_THRESHOLD'' then Some ''512'' else None)
     (libfabric_rendezvous_threshold (\<lambda>v. if v = ''LIBFABRIC_RENDEZVOUS_THRESHOLD'' then Some ''512'' else None) 0x4000)
     zero_buffer ''rendezvous_threshold'' = Inr (''512'', buffer)"
proof -
  have d: "to_digits 512 = ''512''"
    by (simp add: to_digits.simps char_of_def bit_Suc_0_iff)
  have "(\<lambda>v. if v = ''LIBFABRIC_RENDEZVOUS_THRESHOLD'' then Some ''512'' else None) ''LIBFABRIC_RENDEZVOUS_THRESHOLD'' =
      Some (to_digits 512)"
    by (simp add: d)
  then show ?thesis
    using threshold_roundtrip [of "\<lambda>v. if v = ''LIBFABRIC_RENDEZVOUS_THRESHOLD'' then Some ''512'' else None" 512 "0x4000"] d by auto
qed

section \<open>Performance counters\<close>

text \<open>\<open>simple_counter\<close>, enabled or not: the value returned and the counter afterwards.  The postfix operators are
  given the dummy argument of the language, which is 0.\<close>

definition sc_value :: "bool \<Rightarrow> int \<Rightarrow> int" where
  "sc_value enabled v = (if enabled then v else 0)"

definition sc_assign :: "bool \<Rightarrow> int \<Rightarrow> int \<Rightarrow> int \<times> int" where
  "sc_assign enabled x v = (if enabled then (x, x) else (0, v))"

definition sc_add :: "bool \<Rightarrow> int \<Rightarrow> int \<Rightarrow> int \<times> int" where
  "sc_add enabled x v = (if enabled then (v + x, v + x) else (0, v))"

definition sc_sub :: "bool \<Rightarrow> int \<Rightarrow> int \<Rightarrow> int \<times> int" where
  "sc_sub enabled x v = (if enabled then (v - x, v - x) else (0, v))"

definition sc_pre_incr :: "bool \<Rightarrow> int \<Rightarrow> int \<times> int" where "sc_pre_incr enabled v = sc_add enabled 1 v"
definition sc_post_incr :: "bool \<Rightarrow> int \<Rightarrow> int \<times> int" where "sc_post_incr enabled v = sc_add enabled 0 v"
definition sc_pre_decr :: "bool \<Rightarrow> int \<Rightarrow> int \<times> int" where "sc_pre_decr enabled v = sc_sub enabled 1 v"
definition sc_post_decr :: "bool \<Rightarrow> int \<Rightarrow> int \<times> int" where "sc_post_decr enabled v = sc_sub enabled 0 v"

text \<open>The postfix operators do nothing, where the prefix operators count.\<close>

lemma postfix_does_not_count:
  "snd (sc_post_incr True v) = v" "snd (sc_post_decr True v) = v" "snd (sc_pre_incr True v) = v + 1" "snd (sc_pre_decr True v) = v - 1"
  by (simp_all add: sc_post_incr_def sc_post_decr_def sc_pre_incr_def sc_pre_decr_def sc_add_def sc_sub_def)

end
