(* ===== verification/Spec2Isabelle.thy ===== *)
theory Spec2Isabelle
  imports Mpi_Properties Communicator_Api Barrier Nccl_Properties Ucx_Properties Ucx_Context Lf_Properties
    Context_Lifetime Context_Base Buffer_Data Lf_Memory Lf_Controller Unique_Function Fortran_Bindings Mpi_Rma Mpi_Wait Storage
    Nccl_Context Ucx_Region Lf_Context
begin

text \<open>
  A verification of the oomph communication library.

  \<^bold>\<open>The program.\<close>  oomph sends and receives messages between ranks, from many threads, over one of four
  transports: MPI, UCX, libfabric and NCCL.  A user makes a \<open>context\<close>, takes \<open>communicator\<close>s from it, makes
  \<open>message_buffer\<close>s, and posts sends and receives with callbacks.  Each posting makes a request state,
  which the transport keeps until the operation is complete; \<open>progress\<close> asks the transport which are, and
  runs their callbacks, which may post again.  The user holds request objects to test, wait for or cancel
  the operation.  All of it is C++ with reference counting, moves and raw pointers.

  \<^bold>\<open>How it is modelled.\<close>  Functions of the code are functions here, with the state they change passed
  explicitly.  A class is a record, and objects that are moved or aliased live in variables or in a store by
  address.  A call that can fail gives an error of \<open>oomph_error\<close>: an exception, undefined behaviour (such as
  the use of freed memory), or termination.  Integers have the width of the code where it matters.  Loops
  that may not end are partial functions with the value \<open>None\<close>, and where they end this is proved.  MPI, UCX,
  libfabric, NCCL, CUDA, PMIx, hwmalloc and the user's callbacks are parameters; what is relied on of them
  are named predicates (such as \<open>ucx_ok\<close>, \<open>mr_ok\<close>, \<open>bcast_ok\<close>), each shown to hold of an example.

  \<^bold>\<open>Theories.\<close>

  \<^item> \<open>Oomph_Prelude\<close>: types, errors, sequencing, lists, words, and unique ownership (\<open>uniquely\<close>).

  \<^item> \<open>Shared_Ptr\<close> (\<open>include/oomph/util/unsafe_shared_ptr.hpp\<close>): counts are right in every program of pointer
    variables, nothing is leaked or freed twice.

  \<^item> \<open>Unique_Function\<close> (\<open>include/oomph/util/unique_function.hpp\<close>): the function wrapper with its small buffer is a variable
    that holds at most one function.

  \<^item> \<open>Message_Buffer\<close>, \<open>Buffer_Data\<close> (\<open>message_buffer.hpp\<close>, \<open>message_buffer.cpp\<close>, \<open>make_buffer\<close> of \<open>context.hpp\<close>):
    ownership through moves; bounds of elements; conversion of the element type; copies to and from devices.

  \<^item> \<open>Request_State\<close>, \<open>Completion\<close> (\<open>request_state_base.hpp\<close>, \<open>mpi/request_state.hpp\<close>): request states with
    their self references and the counters of scheduled requests, and the loop of \<open>release_self_ref\<close> and
    \<open>invoke_cb\<close> that ends the progress functions of all transports.

  \<^item> \<open>Request_Api\<close>, \<open>Communicator_Api\<close> (\<open>request.cpp\<close>, \<open>communicator.hpp\<close>, \<open>communicator.cpp\<close>): request objects,
    waiting, sending and receiving functions and their closures, \<open>send_multi\<close>.  The locale \<open>progress_engine\<close>
    is what waiting needs of a transport; it is interpreted for MPI and NCCL, and again in \<open>Mpi_Wait\<close>, with the
    held request in the invariant, for waiting for a single request over MPI.

  \<^item> \<open>Storage\<close> (\<open>include/oomph/util/stack_storage.hpp\<close>, \<open>heap_pimpl.hpp\<close>, \<open>pool_factory.hpp\<close>, \<open>pool_allocator.hpp\<close>): objects in
    buffers, on the heap and in pools.

  \<^item> \<open>Device_Guard\<close> (\<open>device_guard.hpp\<close>): the current device around the calls of the transports.

  \<^item> \<open>Mpi_Request_Queue\<close>, \<open>Mpi_Queue_Inv\<close>, \<open>Mpi_Queue_Cancel\<close>, \<open>Mpi_Shared_Queue\<close>, \<open>Mpi_Communicator\<close>,
    \<open>Mpi_Example\<close>, \<open>Mpi_Properties\<close> (\<open>mpi/\<close>): the queues with their in-place compaction and stored indices,
    the communicator and the context.  The invariant of the queues is kept by all operations with callbacks
    that use the library themselves (\<open>callback_ok\<close>).  The search for the number of tag bits is bounded by the
    32 bits of the value MPI reports.  \<open>Mpi_Rma\<close> (\<open>mpi/rma_context.hpp\<close>, \<open>region.hpp\<close>, \<open>lock_cache.hpp\<close>, \<open>channel_base.hpp\<close>,
    \<open>send_channel.hpp\<close>, \<open>recv_channel.hpp\<close>): channels, and the window with its regions and locks, as a sequence of calls
    that is judged by the rules of MPI.

  \<^item> \<open>Nccl_Transport\<close>, \<open>Nccl_Properties\<close> (\<open>nccl/\<close>): events, their pool, groups, queues; \<open>Nccl_Context\<close>
    (\<open>nccl/nccl_communicator.hpp\<close>, \<open>context.hpp\<close>, \<open>cuda_event_pool.cpp\<close>): start of the contexts on all ranks, the devices of
    events.

  \<^item> \<open>Ucx_Transport\<close>, \<open>Ucx_Invariant\<close>, \<open>Ucx_Progress\<close>, \<open>Ucx_Posting\<close>, \<open>Ucx_Cancel\<close>, \<open>Ucx_Properties\<close> (\<open>ucx/\<close>):
    posting, completion callbacks, progress, cancellation, and the memory of UCX requests.  Every request is
    in exactly one place.

  \<^item> \<open>Ucx_Address\<close>, \<open>Ucx_Endpoints\<close>, \<open>Ucx_Context\<close> (\<open>ucx/address_db_mpi.hpp\<close>, \<open>address_db_pmi.hpp\<close>, \<open>pmi.hpp\<close>,
    \<open>endpoint.hpp\<close>, \<open>worker.hpp\<close>, \<open>context.hpp\<close>, \<open>context.cpp\<close>): start and end of a UCX context, on all ranks.
    The locale \<open>address_db\<close> is the interface \<open>type_erased_address_db_t\<close>, interpreted for both databases.  The
    loop over the close handles is bounded by the clock.  \<open>Ucx_Region\<close> (\<open>ucx/region.hpp\<close>, \<open>rma_context.hpp\<close>): memory mapped
    for remote access.

  \<^item> \<open>Lf_Transport\<close>, \<open>Lf_Invariant\<close>, \<open>Lf_Progress\<close>, \<open>Lf_Posting\<close>, \<open>Lf_Runs\<close>, \<open>Lf_Properties\<close> (\<open>libfabric/\<close>): posting
    with retries, completion handlers, polling, callback queues, cancellation; \<open>Lf_Memory\<close>
    (\<open>libfabric/memory_region.hpp\<close>): registration of memory; \<open>Lf_Start\<close>, \<open>Lf_Controller\<close>
    (\<open>libfabric/controller_base.hpp\<close>, \<open>controller.hpp\<close>, \<open>locality.hpp\<close>): settings, exchange of addresses, endpoints
    and their destruction; \<open>Lf_Context\<close> (\<open>libfabric/context.cpp\<close>, \<open>context.hpp\<close>, \<open>simple_counter.hpp\<close>): what is asked of
    libfabric, locks, the controller all contexts of a process share, options.  The loop over the bits of the number of
    receive contexts has fuel 32, enough for an \<open>int\<close> (\<open>rx_ctx_bits\<close>).

  \<^item> \<open>Context_Lifetime\<close>, \<open>Context_Base\<close> (\<open>context.cpp\<close>, \<open>context_base.hpp\<close>, \<open>communicator_state.cpp\<close>,
    \<open>communicator_set_impl.hpp\<close>, \<open>unique_ptr_set.hpp\<close>, \<open>mpi_comm.hpp\<close>, \<open>rank_topology.cpp\<close>): contexts, the process
    wide set of communicators, rank, size and topology.

  \<^item> \<open>Fortran_Bindings\<close> (\<open>bindings/fortran/\<close>): the functions the Fortran modules call, and the procedures of the modules that
    do more than call them.  A Fortran request is bytes and a flag; the model keeps the object that was constructed in
    the bytes, so that reading it as another type is undefined.

  \<^item> \<open>Barrier\<close> (\<open>barrier.cpp\<close>): the steps of all threads of all ranks, interleaved.

  \<^bold>\<open>What is proved.\<close>  For each transport: whatever a user does, no call is undefined (except in the cases
  the properties name), no request is lost or completed twice, progress returns, and callbacks are called
  once with the rank and tag of their request.  For the objects below them: nothing is leaked, freed early
  or freed twice.  For the barrier: no thread leaves before all have arrived, and all leave.  For the start of
  UCX, libfabric and NCCL: every rank reaches every other at the right address, or joins the same communicator, and
  what was opened is closed.  For waiting: it returns exactly if progress makes the request ready.  For the Fortran
  bindings: requests are read at the type they were written with.  Some properties state where the code does not do this:
  cancellation of requests that complete meanwhile, the Fortran request of a multiple send, a second libfabric context
  on other processes, NCCL on two devices, request objects that outlive their communicator.

  \<^bold>\<open>Simplifications.\<close>  A call of the library is one step, so the interleavings of threads inside a call are
  modelled in the barrier only; locks appear where holding one twice would be undefined.  Queues of boost are
  lists.  Messages of exceptions are shortened.  Debug output is left out.

  \<^bold>\<open>Not modelled.\<close>  Debug printing (\<open>debug.hpp\<close>, \<open>libfabric/print.hpp\<close>) has no effect on the library.  The settings of the GNI
  provider and the passive endpoint of \<open>controller_base.hpp\<close> are used by nothing else, and the end of PMIx (\<open>pmi.hpp\<close>) is
  a single call.  The allocator hwmalloc and the device runtime are other programs.  The tests and benchmarks
  are not part of the library.
\<close>

end
